(* ===== verification/Prelude.thy ===== *)
theory Prelude
  imports Main "HOL-Library.Sublist" "HOL-Library.Char_ord" "HOL-Library.List_Lexorder"
begin

text \<open>
  Shared vocabulary of the development: identifiers, clocks, the automation collections, and the
  generic lemmas on lists, options and maps that the components use.

  Go values are read as follows. A \<^verbatim>\<open>uuid.UUID\<close> is its sixteen bytes read as one number, so
  \<^verbatim>\<open>uuid.Nil\<close> is \<open>0\<close>. A \<^verbatim>\<open>time.Time\<close> is the number of nanoseconds since Go's zero time, so
  \<^verbatim>\<open>IsZero\<close> is equality with \<open>0\<close>; a \<^verbatim>\<open>time.Duration\<close> is a number of nanoseconds. A Go string is the
  list of its bytes, so \<^verbatim>\<open>len\<close> is \<open>length\<close>.
\<close>

section \<open>Identifiers and clocks\<close>

type_synonym uuid = nat
type_synonym timestamp = int
type_synonym duration = int

abbreviation (input) uuid_nil :: uuid where
  "uuid_nil \<equiv> 0"

abbreviation (input) is_zero_time :: "timestamp \<Rightarrow> bool" where
  "is_zero_time t \<equiv> t = 0"

abbreviation (input) second :: duration where
  "second \<equiv> 1000000000"

abbreviation (input) minute :: duration where
  "minute \<equiv> 60 * second"

section \<open>Automation collections\<close>

named_theorems inv_intros \<open>preservation lemmas of the components' invariants\<close>
named_theorems model_defs \<open>definitions unfolded when an operation is evaluated or split\<close>

section \<open>Lists\<close>

lemma length_filter_bound [intro]: "length xs \<le> n \<Longrightarrow> length (filter P xs) \<le> n"
  using length_filter_le le_trans by blast

lemma length_filter_mono: "(\<And>x. P x \<Longrightarrow> Q x) \<Longrightarrow> length (filter P xs) \<le> length (filter Q xs)"
  by (induction xs) (auto simp: le_SucI)

lemma subseq_append_right: "subseq xs ys \<Longrightarrow> subseq (xs @ zs) (ys @ zs)"
  by (simp add: list_emb_append_mono)

lemma subseq_snoc_right: "subseq xs ys \<Longrightarrow> subseq xs (ys @ [y])"
  using list_emb_append_mono [of "(=)" xs ys "[]" "[y]"] by simp

section \<open>Strings\<close>

text \<open>\<^verbatim>\<open>strings.TrimSpace\<close>: the UTF-8 encodings of the runes \<^verbatim>\<open>unicode.IsSpace\<close> accepts are cut off both
  ends.\<close>

definition space_encodings :: "string list" where
  "space_encodings = [
     [CHR 0x09], [CHR 0x0A], [CHR 0x0B], [CHR 0x0C], [CHR 0x0D], [CHR 0x20], [CHR 0xC2, CHR 0x85],
     [CHR 0xC2, CHR 0xA0], [CHR 0xE1, CHR 0x9A, CHR 0x80], [CHR 0xE2, CHR 0x80, CHR 0x80],
     [CHR 0xE2, CHR 0x80, CHR 0x81], [CHR 0xE2, CHR 0x80, CHR 0x82], [CHR 0xE2, CHR 0x80, CHR 0x83],
     [CHR 0xE2, CHR 0x80, CHR 0x84], [CHR 0xE2, CHR 0x80, CHR 0x85], [CHR 0xE2, CHR 0x80, CHR 0x86],
     [CHR 0xE2, CHR 0x80, CHR 0x87], [CHR 0xE2, CHR 0x80, CHR 0x88], [CHR 0xE2, CHR 0x80, CHR 0x89],
     [CHR 0xE2, CHR 0x80, CHR 0x8A], [CHR 0xE2, CHR 0x80, CHR 0xA8], [CHR 0xE2, CHR 0x80, CHR 0xA9],
     [CHR 0xE2, CHR 0x80, CHR 0xAF], [CHR 0xE2, CHR 0x81, CHR 0x9F], [CHR 0xE3, CHR 0x80, CHR 0x80]]"

function strip_front :: "string list \<Rightarrow> string \<Rightarrow> string" where
  "strip_front encs s = (case find (\<lambda>p. p \<noteq> [] \<and> prefix p s) encs of
       None \<Rightarrow> s
     | Some p \<Rightarrow> strip_front encs (drop (length p) s))"
  by pat_completeness auto
termination
  by (relation "measure (\<lambda>(encs, s). length s)") (auto simp: find_Some_iff prefix_def)

declare strip_front.simps [simp del]

definition trim_space :: "string \<Rightarrow> string" where
  "trim_space s = rev (strip_front (map rev space_encodings)
     (rev (strip_front space_encodings s)))"

text \<open>A string whose ends are visible ASCII is not trimmed.\<close>

definition visible :: "char \<Rightarrow> bool" where
  "visible c \<longleftrightarrow> (33 :: nat) \<le> of_char c \<and> of_char c \<le> (126 :: nat)"

lemma space_encodings_invisible:
  "list_all (\<lambda>p. p \<noteq> [] \<and> \<not> visible (hd p) \<and> \<not> visible (last p)) space_encodings"
  by (simp add: space_encodings_def visible_def upt_rec take_bit_eq_mod)

lemma strip_front_id:
  assumes "s = [] \<or> list_all (\<lambda>p. p = [] \<or> hd p \<noteq> hd s) encs"
  shows "strip_front encs s = s"
proof -
  have "find (\<lambda>p. p \<noteq> [] \<and> prefix p s) encs = None"
    using assms by (auto simp: find_None_iff list_all_iff prefix_def)
  then show ?thesis by (simp add: strip_front.simps)
qed

lemma trim_space_id:
  assumes "s = [] \<or> visible (hd s) \<and> visible (last s)"
  shows "trim_space s = s"
proof -
  have 1: "strip_front space_encodings s = s"
    using assms space_encodings_invisible by (intro strip_front_id) (auto simp: list_all_iff)
  have 2: "strip_front (map rev space_encodings) (rev s) = rev s"
    using assms space_encodings_invisible
    by (intro strip_front_id) (auto simp: list_all_iff hd_rev)
  show ?thesis by (simp add: trim_space_def 1 2)
qed

definition trim_prefix :: "string \<Rightarrow> string \<Rightarrow> string" where
  "trim_prefix p s = (if prefix p s then drop (length p) s else s)"

definition is_digit :: "char \<Rightarrow> bool" where
  "is_digit c \<longleftrightarrow> CHR ''0'' \<le> c \<and> c \<le> CHR ''9''"

text \<open>\<^verbatim>\<open>strings.Split\<close> and \<^verbatim>\<open>strings.Join\<close> with a separator of one byte.\<close>

function split_on :: "char \<Rightarrow> string \<Rightarrow> string list" where
  "split_on d s = (if d \<notin> set s then [s]
     else takeWhile (\<lambda>c. c \<noteq> d) s # split_on d (tl (dropWhile (\<lambda>c. c \<noteq> d) s)))"
  by pat_completeness auto
termination
proof (relation "measure (\<lambda>(d, s). length s)", simp)
  fix d :: char and s :: string
  assume "\<not> d \<notin> set s"
  then have "0 < length s" by auto
  then show "((d, tl (dropWhile (\<lambda>c. c \<noteq> d) s)), d, s) \<in> measure (\<lambda>(d, s). length s)"
    using length_dropWhile_le [of "\<lambda>c. c \<noteq> d" s]
    by (simp del: length_greater_0_conv)
qed

declare split_on.simps [simp del]

fun join_with :: "char \<Rightarrow> string list \<Rightarrow> string" where
  "join_with d [] = []"
| "join_with d [s] = s"
| "join_with d (s # t # ss) = s @ d # join_with d (t # ss)"

lemma split_on_none: "d \<notin> set s \<Longrightarrow> split_on d s = [s]"
  by (simp add: split_on.simps)

lemma split_on_ne [simp]: "split_on d s \<noteq> []"
  by (simp add: split_on.simps [of d s])

lemma split_on_first: "d \<notin> set s \<Longrightarrow> split_on d (s @ d # t) = s # split_on d t"
  by (auto simp: split_on.simps [of d "s @ d # t"] takeWhile_append dropWhile_append
      dropWhile_eq_Nil_conv [THEN iffD2])

text \<open>A string is its first piece, or a first piece, the separator and the rest.\<close>

lemma split_on_induct [case_names last more]:
  assumes "\<And>s. d \<notin> set s \<Longrightarrow> P s" and "\<And>s t. d \<notin> set s \<Longrightarrow> P t \<Longrightarrow> P (s @ d # t)"
  shows "P s"
proof (induction s rule: length_induct)
  case (1 s)
  show ?case
  proof (cases "d \<in> set s")
    case True
    then obtain a b where "s = a @ d # b" "d \<notin> set a" by (meson split_list_first)
    with 1 show ?thesis by (auto intro: assms(2))
  qed (rule assms(1))
qed

lemma split_on_append: "split_on d (a @ d # b) = split_on d a @ split_on d b"
  by (induction a rule: split_on_induct [of d]) (simp_all add: split_on_first split_on_none)

lemma split_on_pieces: "s' \<in> set (split_on d s) \<Longrightarrow> d \<notin> set s'"
  by (induction s rule: split_on_induct [of d]) (auto simp: split_on_first split_on_none)

lemma join_split [simp]: "join_with d (split_on d s) = s"
proof (induction s rule: split_on_induct [of d])
  case (more s t)
  then show ?case by (cases "split_on d t") (simp_all add: split_on_first)
qed (simp add: split_on_none)

lemma split_join:
  assumes "ss \<noteq> []" "\<forall>s \<in> set ss. d \<notin> set s"
  shows "split_on d (join_with d ss) = ss"
  using assms by (induction d ss rule: join_with.induct) (simp_all add: split_on_first split_on_none)

end
