(* ===== verification/Bus.thy ===== *)
theory Bus
  imports Prelude
begin

text \<open>
  The live event bus (internal/bus/bus.go, with the event type of internal/ingest/pipeline.go).

  A \<^verbatim>\<open>*Subscription\<close> is a record; each of its methods runs under the subscription's own mutex,
  so it is one atomic function from the subscription to the subscription, and the goroutines that
  call them are an arbitrary sequence of such operations (\<open>sub_op\<close>). The Go channel of capacity
  512 is the list of the events it holds, in order: \<open>recv\<close> is the receive of its reader. The bus
  itself holds subscriptions by pointer, so its state has a heap of them.
\<close>

section \<open>Events and filters\<close>

datatype event_class = ClassMessage | ClassPresence | ClassChat | ClassReceipt

record presence =
  pr_chat_key :: string
  pr_sender_key :: string
  pr_sender_lid :: string
  pr_sender_pn :: string
  pr_state :: string
  pr_media :: string
  pr_last_seen :: "timestamp option"

record chat_update =
  cu_chat_key :: string
  cu_unread :: "int option"
  cu_ephemeral :: "int option"

record event =
  ev_class :: event_class
  ev_seq :: int
  ev_tenant :: uuid
  ev_device :: uuid
  ev_chat_key :: string
  ev_kind :: string
  ev_type :: string
  ev_uid :: uuid
  ev_ephemeral :: bool
  ev_presence :: "presence option"
  ev_chat :: "chat_update option"

record bus_filter =
  flt_devices :: "uuid set"
  flt_all :: bool

definition filter_allows :: "bus_filter \<Rightarrow> uuid \<Rightarrow> bool" where
  "filter_allows f dev \<longleftrightarrow> (if flt_all f then True else dev \<in> flt_devices f)"

section \<open>Subscriptions\<close>

definition queue_depth :: nat where
  "queue_depth = 512"

record subscription =
  sub_tenant :: uuid
  sub_filter :: bus_filter
  sub_queue :: "event list"
  sub_replaying :: bool
  sub_buffer :: "event list"
  sub_closed :: bool
  sub_ended :: bool
  sub_lagged :: bool
  sub_lagged_at :: int
  sub_dropped :: nat

definition new_subscription :: "uuid \<Rightarrow> bus_filter \<Rightarrow> subscription" where
  "new_subscription tenant f = \<lparr>
     sub_tenant = tenant, sub_filter = f, sub_queue = [], sub_replaying = True, sub_buffer = [],
     sub_closed = False, sub_ended = False, sub_lagged = False, sub_lagged_at = 0, sub_dropped = 0\<rparr>"

definition drop_locked :: "event \<Rightarrow> subscription \<Rightarrow> subscription" where
  "drop_locked ev s =
     (if ev_ephemeral ev then s
      else let s' = (if \<not> sub_lagged s
                     then s\<lparr>sub_lagged := True, sub_lagged_at := ev_seq ev\<rparr> else s)
           in s'\<lparr>sub_dropped := sub_dropped s' + 1\<rparr>)"

definition deliver_locked :: "event \<Rightarrow> subscription \<Rightarrow> subscription" where
  "deliver_locked ev s =
     (if sub_closed s \<or> sub_ended s then s
      else if length (sub_queue s) < queue_depth then s\<lparr>sub_queue := sub_queue s @ [ev]\<rparr>
      else drop_locked ev s)"

definition offer :: "event \<Rightarrow> subscription \<Rightarrow> subscription" where
  "offer ev s =
     (if sub_closed s \<or> sub_ended s \<or> \<not> filter_allows (sub_filter s) (ev_device ev) then s
      else if sub_replaying s then
        (if ev_ephemeral ev then s
         else if length (sub_buffer s) < queue_depth then s\<lparr>sub_buffer := sub_buffer s @ [ev]\<rparr>
         else drop_locked ev s)
      else deliver_locked ev s)"

fun release_buffered :: "int \<Rightarrow> event list \<Rightarrow> subscription \<Rightarrow> subscription" where
  "release_buffered through [] s = s"
| "release_buffered through (ev # evs) s =
     release_buffered through evs
       (if ev_seq ev \<le> through \<or> \<not> filter_allows (sub_filter s) (ev_device ev) then s
        else deliver_locked ev s)"

definition end_replay :: "int \<Rightarrow> subscription \<Rightarrow> subscription" where
  "end_replay through s =
     (if \<not> sub_replaying s \<or> sub_closed s \<or> sub_ended s
      then s\<lparr>sub_replaying := False, sub_buffer := []\<rparr>
      else release_buffered through (sub_buffer s)
             (s\<lparr>sub_replaying := False, sub_buffer := []\<rparr>))"

definition lag_report :: "subscription \<Rightarrow> bool \<times> int \<times> nat" where
  "lag_report s = (sub_lagged s, sub_lagged_at s, sub_dropped s)"

definition clear_lag :: "subscription \<Rightarrow> subscription" where
  "clear_lag s = s\<lparr>sub_lagged := False, sub_lagged_at := 0, sub_dropped := 0\<rparr>"

definition sub_allows :: "uuid \<Rightarrow> subscription \<Rightarrow> bool" where
  "sub_allows dev s \<longleftrightarrow>
     (if sub_closed s \<or> sub_ended s then False else filter_allows (sub_filter s) dev)"

definition drop_sub :: "uuid \<Rightarrow> subscription \<Rightarrow> subscription" where
  "drop_sub dev s =
     (if sub_closed s \<or> sub_ended s \<or> flt_all (sub_filter s) then s
      else if dev \<notin> flt_devices (sub_filter s) then s
      else let rest = flt_devices (sub_filter s) - {dev}
           in if rest = {} then s\<lparr>sub_ended := True, sub_buffer := []\<rparr>
              else s\<lparr>sub_filter := \<lparr>flt_devices = rest, flt_all = False\<rparr>,
                     sub_buffer := filter (\<lambda>ev. ev_device ev \<noteq> dev) (sub_buffer s)\<rparr>)"

definition close_subscription :: "subscription \<Rightarrow> subscription" where
  "close_subscription s = (if sub_closed s then s else s\<lparr>sub_closed := True\<rparr>)"

text \<open>What the reader's receive from \<^verbatim>\<open>Events()\<close> finds: an event, the channel closed and drained, or
  nothing yet (the receive blocks).\<close>

datatype receive = Received event | ChannelClosed | WouldBlock

fun recv :: "subscription \<Rightarrow> receive \<times> subscription" where
  "recv s = (case sub_queue s of
       ev # rest \<Rightarrow> (Received ev, s\<lparr>sub_queue := rest\<rparr>)
     | [] \<Rightarrow> (if sub_closed s then ChannelClosed else WouldBlock, s))"

section \<open>The bus\<close>

record bus_state =
  bus_subs :: "uuid \<rightharpoonup> nat list"
  bus_heap :: "nat \<rightharpoonup> subscription"
  bus_next :: nat

definition new_bus :: bus_state where
  "new_bus = \<lparr>bus_subs = Map.empty, bus_heap = Map.empty, bus_next = 0\<rparr>"

definition registered :: "uuid \<Rightarrow> bus_state \<Rightarrow> nat list" where
  "registered tenant b = (case bus_subs b tenant of None \<Rightarrow> [] | Some ids \<Rightarrow> ids)"

definition bus_subscribe :: "uuid \<Rightarrow> bus_filter \<Rightarrow> bus_state \<Rightarrow> nat \<times> bus_state" where
  "bus_subscribe tenant f b =
     (let p = bus_next b in
      (p, b\<lparr>bus_subs := (bus_subs b)(tenant \<mapsto> registered tenant b @ [p]),
            bus_heap := (bus_heap b)(p \<mapsto> new_subscription tenant f),
            bus_next := p + 1\<rparr>))"

definition update_sub :: "nat \<Rightarrow> (subscription \<Rightarrow> subscription) \<Rightarrow> bus_state \<Rightarrow> bus_state" where
  "update_sub p f b = (case bus_heap b p of
       None \<Rightarrow> b
     | Some s \<Rightarrow> b\<lparr>bus_heap := (bus_heap b)(p \<mapsto> f s)\<rparr>)"

fun update_subs :: "nat list \<Rightarrow> (subscription \<Rightarrow> subscription) \<Rightarrow> bus_state \<Rightarrow> bus_state" where
  "update_subs [] f b = b"
| "update_subs (p # ps) f b = update_subs ps f (update_sub p f b)"

definition publish :: "uuid \<Rightarrow> event \<Rightarrow> bus_state \<Rightarrow> bus_state" where
  "publish tenant ev b = update_subs (registered tenant b) (offer ev) b"

definition drop_device :: "uuid \<Rightarrow> uuid \<Rightarrow> bus_state \<Rightarrow> bus_state" where
  "drop_device tenant dev b = update_subs (registered tenant b) (drop_sub dev) b"

definition unregister :: "uuid \<Rightarrow> nat \<Rightarrow> bus_state \<Rightarrow> bus_state" where
  "unregister tenant p b = (case bus_subs b tenant of
       None \<Rightarrow> b
     | Some ids \<Rightarrow> let rest = filter (\<lambda>q. q \<noteq> p) ids
                   in if rest = [] then b\<lparr>bus_subs := (bus_subs b)(tenant := None)\<rparr>
                      else b\<lparr>bus_subs := (bus_subs b)(tenant \<mapsto> rest)\<rparr>)"

definition bus_close :: "nat \<Rightarrow> bus_state \<Rightarrow> bus_state" where
  "bus_close p b = (case bus_heap b p of
       None \<Rightarrow> b
     | Some s \<Rightarrow> update_sub p close_subscription (unregister (sub_tenant s) p b))"

definition subscribers :: "uuid \<Rightarrow> bus_state \<Rightarrow> nat" where
  "subscribers tenant b = length (registered tenant b)"

end
