(* ===== verification/Bus_Stream.thy ===== *)
theory Bus_Stream
  imports Bus
begin

text \<open>
  What a subscription promises its client, and the proofs that the operations of \<open>Bus\<close> keep it
  under every interleaving.

  \<open>sub_op\<close> lists the operations that other goroutines and the reader run on a subscription, each
  atomic under its mutex; \<open>sub_run\<close> runs any sequence of them and collects what the reader
  received. \<open>stream_step\<close> is the abstract specification: the list of events the client is owed.
  The locale \<open>live_stream\<close> is the interface the replay of internal/wsapi relies on.
\<close>

section \<open>Operations as interleaved steps\<close>

datatype sub_op = OpOffer event | OpEndReplay int | OpDrop uuid | OpRecv | OpClearLag | OpClose

fun sub_step :: "sub_op \<Rightarrow> subscription \<Rightarrow> event list \<times> subscription" where
  "sub_step (OpOffer ev) s = ([], offer ev s)"
| "sub_step (OpEndReplay n) s = ([], end_replay n s)"
| "sub_step (OpDrop dev) s = ([], drop_sub dev s)"
| "sub_step OpRecv s = (case recv s of (Received ev, s') \<Rightarrow> ([ev], s') | (_, s') \<Rightarrow> ([], s'))"
| "sub_step OpClearLag s = ([], clear_lag s)"
| "sub_step OpClose s = ([], close_subscription s)"

fun sub_run :: "sub_op list \<Rightarrow> subscription \<Rightarrow> event list \<times> subscription" where
  "sub_run [] s = ([], s)"
| "sub_run (op # ops) s =
     (let (out, s') = sub_step op s; (outs, s'') = sub_run ops s' in (out @ outs, s''))"

lemmas sub_op_defs = offer_def end_replay_def drop_sub_def clear_lag_def close_subscription_def
  deliver_locked_def drop_locked_def

section \<open>The well-formedness invariant\<close>

definition sub_wf :: "subscription \<Rightarrow> bool" where
  "sub_wf s \<longleftrightarrow> length (sub_queue s) \<le> queue_depth \<and> length (sub_buffer s) \<le> queue_depth
     \<and> (sub_replaying s \<longrightarrow> sub_queue s = [])
     \<and> (\<not> sub_replaying s \<longrightarrow> sub_buffer s = [])
     \<and> list_all (\<lambda>ev. \<not> ev_ephemeral ev) (sub_buffer s)"

lemma sub_wf_new [inv_intros]: "sub_wf (new_subscription tenant f)"
  by (simp add: sub_wf_def new_subscription_def)

lemma drop_locked_frame [simp]:
  "sub_queue (drop_locked ev s) = sub_queue s" "sub_buffer (drop_locked ev s) = sub_buffer s"
  "sub_replaying (drop_locked ev s) = sub_replaying s" "sub_filter (drop_locked ev s) = sub_filter s"
  "sub_closed (drop_locked ev s) = sub_closed s" "sub_ended (drop_locked ev s) = sub_ended s"
  "sub_tenant (drop_locked ev s) = sub_tenant s"
  by (simp_all add: drop_locked_def Let_def)

lemma deliver_locked_frame [simp]:
  "sub_buffer (deliver_locked ev s) = sub_buffer s" "sub_filter (deliver_locked ev s) = sub_filter s"
  "sub_replaying (deliver_locked ev s) = sub_replaying s"
  "sub_closed (deliver_locked ev s) = sub_closed s" "sub_ended (deliver_locked ev s) = sub_ended s"
  "sub_tenant (deliver_locked ev s) = sub_tenant s"
  by (simp_all add: deliver_locked_def)

lemma release_buffered_frame [simp]:
  "sub_buffer (release_buffered n evs s) = sub_buffer s"
  "sub_filter (release_buffered n evs s) = sub_filter s"
  "sub_replaying (release_buffered n evs s) = sub_replaying s"
  "sub_closed (release_buffered n evs s) = sub_closed s"
  "sub_ended (release_buffered n evs s) = sub_ended s"
  "sub_tenant (release_buffered n evs s) = sub_tenant s"
  by (induction evs arbitrary: s) simp_all

definition released :: "int \<Rightarrow> bus_filter \<Rightarrow> event list \<Rightarrow> event list" where
  "released n f evs = filter (\<lambda>ev. n < ev_seq ev \<and> filter_allows f (ev_device ev)) evs"

text \<open>The buffer always fits the queue: the handover of an alive subscription drops nothing.\<close>

lemma release_buffered_fits:
  assumes "length (sub_queue s) + length evs \<le> queue_depth"
    and "\<not> sub_closed s" "\<not> sub_ended s"
  shows "release_buffered n evs s = s\<lparr>sub_queue := sub_queue s @ released n (sub_filter s) evs\<rparr>"
  using assms
proof (induction evs arbitrary: s)
  case Nil
  then show ?case by (simp add: released_def)
next
  case (Cons ev evs)
  show ?case
  proof (cases "ev_seq ev \<le> n \<or> \<not> filter_allows (sub_filter s) (ev_device ev)")
    case True
    with Cons show ?thesis by (auto simp: released_def)
  next
    case False
    with Cons.prems have d: "deliver_locked ev s = s\<lparr>sub_queue := sub_queue s @ [ev]\<rparr>"
      by (simp add: deliver_locked_def)
    have "release_buffered n evs (s\<lparr>sub_queue := sub_queue s @ [ev]\<rparr>)
        = s\<lparr>sub_queue := (sub_queue s @ [ev]) @ released n (sub_filter s) evs\<rparr>"
      using Cons.IH [of "s\<lparr>sub_queue := sub_queue s @ [ev]\<rparr>"] Cons.prems by simp
    with False d show ?thesis by (simp add: released_def not_le)
  qed
qed

lemma end_replay_alive:
  assumes "sub_wf s" "sub_replaying s" "\<not> sub_closed s" "\<not> sub_ended s"
  shows "end_replay n s = s\<lparr>sub_replaying := False, sub_buffer := [],
           sub_queue := released n (sub_filter s) (sub_buffer s)\<rparr>"
  using assms release_buffered_fits [of "s\<lparr>sub_replaying := False, sub_buffer := []\<rparr>" "sub_buffer s" n]
  by (simp add: end_replay_def sub_wf_def)

lemma end_replay_dead:
  assumes "\<not> sub_replaying s \<or> sub_closed s \<or> sub_ended s"
  shows "end_replay n s = s\<lparr>sub_replaying := False, sub_buffer := []\<rparr>"
  using assms by (auto simp: end_replay_def)

lemma length_released: "length (released n f evs) \<le> length evs"
  by (simp add: released_def)

lemma offer_wf [inv_intros]: "sub_wf s \<Longrightarrow> sub_wf (offer ev s)"
  by (auto simp: sub_wf_def offer_def deliver_locked_def)

lemma end_replay_wf [inv_intros]:
  assumes "sub_wf s"
  shows "sub_wf (end_replay n s)"
proof (cases "\<not> sub_replaying s \<or> sub_closed s \<or> sub_ended s")
  case True
  with assms show ?thesis by (auto simp: end_replay_dead sub_wf_def)
next
  case False
  with assms show ?thesis
    using length_released [of n "sub_filter s" "sub_buffer s"]
    by (auto simp: end_replay_alive sub_wf_def)
qed

lemma drop_sub_wf [inv_intros]: "sub_wf s \<Longrightarrow> sub_wf (drop_sub dev s)"
  by (auto simp: sub_wf_def drop_sub_def Let_def list_all_iff)

lemma sub_step_wf [inv_intros]: "sub_wf s \<Longrightarrow> sub_wf (snd (sub_step op s))"
proof (cases op)
  case OpRecv
  assume "sub_wf s"
  with OpRecv show ?thesis by (cases "sub_queue s") (auto simp: sub_wf_def)
next
  case OpClearLag
  assume "sub_wf s"
  with OpClearLag show ?thesis by (simp add: sub_wf_def clear_lag_def)
next
  case OpClose
  assume "sub_wf s"
  with OpClose show ?thesis by (auto simp: sub_wf_def close_subscription_def)
qed (simp_all add: inv_intros)

lemma sub_run_Cons_snd [simp]:
  "snd (sub_run (op # ops) s) = snd (sub_run ops (snd (sub_step op s)))"
  by (simp add: Let_def split: prod.splits)

lemma sub_run_Cons_fst [simp]:
  "fst (sub_run (op # ops) s) = fst (sub_step op s) @ fst (sub_run ops (snd (sub_step op s)))"
  by (simp add: Let_def split: prod.splits)

declare sub_run.simps(2) [simp del]

lemma sub_run_wf: "sub_wf s \<Longrightarrow> sub_wf (snd (sub_run ops s))"
  by (induction ops arbitrary: s) (simp_all add: sub_step_wf)


section \<open>The abstract stream\<close>

text \<open>
  \<open>stream\<close> is the specification: what the client is owed, with no bound on any queue. Presence and
  other ephemeral events carry no promise, so only durable events are in it.
\<close>

record stream =
  st_filter :: bus_filter
  st_replaying :: bool
  st_held :: "event list"
  st_dead :: bool
  st_owed :: "event list"

definition new_stream :: "bus_filter \<Rightarrow> stream" where
  "new_stream f = \<lparr>st_filter = f, st_replaying = True, st_held = [], st_dead = False, st_owed = []\<rparr>"

fun stream_step :: "sub_op \<Rightarrow> stream \<Rightarrow> stream" where
  "stream_step (OpOffer ev) t =
     (if st_dead t \<or> ev_ephemeral ev \<or> \<not> filter_allows (st_filter t) (ev_device ev) then t
      else if st_replaying t then t\<lparr>st_held := st_held t @ [ev]\<rparr>
      else t\<lparr>st_owed := st_owed t @ [ev]\<rparr>)"
| "stream_step (OpEndReplay n) t =
     (if \<not> st_replaying t \<or> st_dead t then t\<lparr>st_replaying := False, st_held := []\<rparr>
      else t\<lparr>st_replaying := False, st_held := [],
             st_owed := st_owed t @ released n (st_filter t) (st_held t)\<rparr>)"
| "stream_step (OpDrop dev) t =
     (if st_dead t \<or> flt_all (st_filter t) \<or> dev \<notin> flt_devices (st_filter t) then t
      else if flt_devices (st_filter t) - {dev} = {} then t\<lparr>st_dead := True, st_held := []\<rparr>
      else t\<lparr>st_filter := \<lparr>flt_devices = flt_devices (st_filter t) - {dev}, flt_all = False\<rparr>,
             st_held := filter (\<lambda>ev. ev_device ev \<noteq> dev) (st_held t)\<rparr>)"
| "stream_step OpRecv t = t"
| "stream_step OpClearLag t = t"
| "stream_step OpClose t = t\<lparr>st_dead := True\<rparr>"

fun stream_run :: "sub_op list \<Rightarrow> stream \<Rightarrow> stream" where
  "stream_run [] t = t"
| "stream_run (op # ops) t = stream_run ops (stream_step op t)"

definition durable :: "event list \<Rightarrow> event list" where
  "durable evs = filter (\<lambda>ev. \<not> ev_ephemeral ev) evs"

lemma durable_append [simp]: "durable (xs @ ys) = durable xs @ durable ys"
  by (simp add: durable_def)

lemma durable_Nil [simp]: "durable [] = []"
  by (simp add: durable_def)

lemma durable_Cons [simp]:
  "durable (ev # evs) = (if ev_ephemeral ev then durable evs else ev # durable evs)"
  by (simp add: durable_def)

lemma durable_held: "list_all (\<lambda>ev. \<not> ev_ephemeral ev) evs \<Longrightarrow> durable evs = evs"
  by (simp add: durable_def list_all_iff)

lemma durable_released:
  "list_all (\<lambda>ev. \<not> ev_ephemeral ev) evs \<Longrightarrow> durable (released n f evs) = released n f evs"
  by (induction evs) (auto simp: released_def)

lemma subseq_released: "subseq xs ys \<Longrightarrow> subseq (released n f xs) (released n f ys)"
  by (simp add: released_def)

text \<open>The simulation relation: \<open>out\<close> is what the reader has received so far.\<close>

definition shape_rel :: "subscription \<Rightarrow> stream \<Rightarrow> bool" where
  "shape_rel s t \<longleftrightarrow> st_filter t = sub_filter s \<and> st_replaying t = sub_replaying s
     \<and> st_dead t = (sub_closed s \<or> sub_ended s)"

definition safe_rel :: "event list \<Rightarrow> subscription \<Rightarrow> stream \<Rightarrow> bool" where
  "safe_rel out s t \<longleftrightarrow> shape_rel s t \<and> subseq (durable (out @ sub_queue s)) (st_owed t)
     \<and> subseq (sub_buffer s) (st_held t)"

definition full_rel :: "event list \<Rightarrow> subscription \<Rightarrow> stream \<Rightarrow> bool" where
  "full_rel out s t \<longleftrightarrow> shape_rel s t
     \<and> (\<not> sub_lagged s \<longrightarrow> durable (out @ sub_queue s) = st_owed t \<and> sub_buffer s = st_held t)"

lemma shape_rel_step: "shape_rel s t \<Longrightarrow> shape_rel (snd (sub_step op s)) (stream_step op t)"
  by (cases op)
    (auto simp: shape_rel_def offer_def end_replay_def drop_sub_def clear_lag_def
      close_subscription_def Let_def split: list.splits)

lemma safe_rel_step:
  assumes "safe_rel out s t" "sub_wf s"
  shows "safe_rel (out @ fst (sub_step op s)) (snd (sub_step op s)) (stream_step op t)"
proof -
  have sh: "shape_rel (snd (sub_step op s)) (stream_step op t)"
    using assms(1) by (auto simp: safe_rel_def intro: shape_rel_step)
  show ?thesis
  proof (cases op)
    case (OpOffer ev)
    with assms sh show ?thesis
      by (auto simp: safe_rel_def shape_rel_def offer_def deliver_locked_def
          simp flip: append_assoc intro: subseq_append_right subseq_snoc_right)
  next
    case (OpEndReplay n)
    show ?thesis
    proof (cases "\<not> sub_replaying s \<or> sub_closed s \<or> sub_ended s")
      case True
      with assms sh OpEndReplay show ?thesis
        by (auto simp: safe_rel_def shape_rel_def end_replay_dead)
    next
      case False
      then have alive: "sub_replaying s" "\<not> sub_closed s" "\<not> sub_ended s" by auto
      then have q: "sub_queue s = []" and nd: "list_all (\<lambda>ev. \<not> ev_ephemeral ev) (sub_buffer s)"
        using assms(2) by (auto simp: sub_wf_def)
      have "subseq (durable out @ released n (sub_filter s) (sub_buffer s))
          (st_owed t @ released n (sub_filter s) (st_held t))"
        using assms(1) q
        by (auto simp: safe_rel_def intro: list_emb_append_mono subseq_released)
      with assms sh OpEndReplay alive q nd show ?thesis
        by (simp add: safe_rel_def shape_rel_def end_replay_alive durable_released)
    qed
  next
    case OpRecv
    with assms sh show ?thesis
      by (cases "sub_queue s") (auto simp: safe_rel_def)
  next
    case (OpDrop dev)
    with assms sh show ?thesis
      by (auto simp: safe_rel_def shape_rel_def drop_sub_def Let_def)
  next
    case OpClearLag
    with assms sh show ?thesis by (simp add: safe_rel_def clear_lag_def)
  next
    case OpClose
    with assms sh show ?thesis by (auto simp: safe_rel_def close_subscription_def)
  qed
qed


lemma safe_rel_run:
  assumes "safe_rel out s t" "sub_wf s"
  shows "safe_rel (out @ fst (sub_run ops s)) (snd (sub_run ops s)) (stream_run ops t)"
  using assms
proof (induction ops arbitrary: out s t)
  case Nil
  then show ?case by simp
next
  case (Cons op ops)
  from Cons.IH [OF safe_rel_step [OF Cons.prems, of op] sub_step_wf [OF Cons.prems(2)]]
  show ?case by simp
qed

lemma sub_lagged_step:
  "op \<noteq> OpClearLag \<Longrightarrow> sub_lagged s \<Longrightarrow> sub_wf s \<Longrightarrow> sub_lagged (snd (sub_step op s))"
proof (cases op)
  case (OpEndReplay n)
  assume "sub_lagged s" "sub_wf s"
  with OpEndReplay show ?thesis
    by (cases "\<not> sub_replaying s \<or> sub_closed s \<or> sub_ended s")
      (auto simp: end_replay_dead end_replay_alive)
qed (auto simp: sub_op_defs Let_def split: list.splits)

lemma sub_lagged_run:
  "OpClearLag \<notin> set ops \<Longrightarrow> sub_lagged s \<Longrightarrow> sub_wf s \<Longrightarrow> sub_lagged (snd (sub_run ops s))"
  by (induction ops arbitrary: s) (auto simp: sub_lagged_step sub_step_wf)

lemma full_rel_step:
  assumes "full_rel out s t" "sub_wf s" "op \<noteq> OpClearLag"
  shows "full_rel (out @ fst (sub_step op s)) (snd (sub_step op s)) (stream_step op t)"
proof -
  have sh: "shape_rel (snd (sub_step op s)) (stream_step op t)"
    using assms(1) by (auto simp: full_rel_def intro: shape_rel_step)
  show ?thesis
  proof (cases op)
    case (OpOffer ev)
    with assms sh show ?thesis
      by (auto simp: full_rel_def shape_rel_def offer_def deliver_locked_def drop_locked_def Let_def
          simp flip: append_assoc)
  next
    case (OpEndReplay n)
    with assms sh show ?thesis
      by (cases "\<not> sub_replaying s \<or> sub_closed s \<or> sub_ended s")
        (auto simp: full_rel_def shape_rel_def end_replay_dead end_replay_alive sub_wf_def
          durable_released)
  next
    case OpRecv
    with assms sh show ?thesis
      by (cases "sub_queue s") (auto simp: full_rel_def)
  next
    case (OpDrop dev)
    with assms sh show ?thesis
      by (auto simp: full_rel_def shape_rel_def drop_sub_def Let_def sub_wf_def)
  next
    case OpClose
    with assms sh show ?thesis by (auto simp: full_rel_def close_subscription_def)
  qed (use assms in simp)
qed

lemma full_rel_run:
  assumes "full_rel out s t" "sub_wf s" "OpClearLag \<notin> set ops"
  shows "full_rel (out @ fst (sub_run ops s)) (snd (sub_run ops s)) (stream_run ops t)"
  using assms
proof (induction ops arbitrary: out s t)
  case Nil
  then show ?case by simp
next
  case (Cons op ops)
  have "full_rel (out @ fst (sub_step op s)) (snd (sub_step op s)) (stream_step op t)"
    using Cons.prems by (intro full_rel_step) auto
  from Cons.IH [OF this sub_step_wf [OF Cons.prems(2)]] Cons.prems(3)
  show ?case by simp
qed

lemma new_rels:
  "safe_rel [] (new_subscription tenant f) (new_stream f)"
  "full_rel [] (new_subscription tenant f) (new_stream f)"
  by (simp_all add: safe_rel_def full_rel_def shape_rel_def new_subscription_def new_stream_def)


section \<open>The resume point of a lagged stream\<close>

fun increasing_offers :: "int \<Rightarrow> sub_op list \<Rightarrow> bool" where
  "increasing_offers m [] = True"
| "increasing_offers m (OpOffer ev # ops) =
     (if ev_ephemeral ev then increasing_offers m ops
      else m < ev_seq ev \<and> increasing_offers (ev_seq ev) ops)"
| "increasing_offers m (_ # ops) = increasing_offers m ops"

fun next_mark :: "int \<Rightarrow> sub_op \<Rightarrow> int" where
  "next_mark m (OpOffer ev) = (if ev_ephemeral ev then m else ev_seq ev)"
| "next_mark m _ = m"

lemma increasing_offers_Cons:
  "increasing_offers m (op # ops) \<Longrightarrow> m \<le> next_mark m op \<and> increasing_offers (next_mark m op) ops"
  by (cases op) (auto split: if_splits)

definition lag_rel :: "int \<Rightarrow> event list \<Rightarrow> subscription \<Rightarrow> stream \<Rightarrow> bool" where
  "lag_rel m out s t \<longleftrightarrow>
     (\<forall>e \<in> set (st_owed t) \<union> set (st_held t). ev_seq e \<le> m)
     \<and> (sub_lagged s \<longrightarrow> sub_lagged_at s \<le> m
         \<and> (\<forall>e \<in> set (st_owed t). ev_seq e < sub_lagged_at s \<longrightarrow> e \<in> set (out @ sub_queue s))
         \<and> (\<forall>e \<in> set (st_held t). ev_seq e < sub_lagged_at s \<longrightarrow> e \<in> set (sub_buffer s)))"

lemma set_durable_subset: "e \<in> set (durable evs) \<Longrightarrow> e \<in> set evs"
  by (auto simp: durable_def)

lemma lag_rel_mono: "lag_rel m out s t \<Longrightarrow> m \<le> m' \<Longrightarrow> lag_rel m' out s t"
  by (force simp: lag_rel_def)

lemma full_rel_delivered:
  assumes "full_rel out s t" "\<not> sub_lagged s"
  shows "e \<in> set (st_owed t) \<Longrightarrow> e \<in> set (out @ sub_queue s)"
    and "e \<in> set (st_held t) \<Longrightarrow> e \<in> set (sub_buffer s)"
  using assms set_durable_subset [of e "out @ sub_queue s"] by (auto simp: full_rel_def)

text \<open>One durable event offered above the mark \<open>m\<close>: whatever the subscription does with it, every
  owed event below the resume point stays delivered.\<close>

lemma lag_rel_offer_durable:
  assumes lag: "lag_rel m out s t" and full: "full_rel out s t" and new: "m < ev_seq ev"
    and dur: "\<not> ev_ephemeral ev"
  shows "lag_rel (ev_seq ev) out (offer ev s) (stream_step (OpOffer ev) t)"
proof -
  have low: "ev_seq e \<le> ev_seq ev" if "e \<in> set (st_owed t) \<union> set (st_held t)" for e
    using lag new that by (force simp: lag_rel_def)
  have at: "sub_lagged s \<longrightarrow> sub_lagged_at s \<le> m" using lag by (simp add: lag_rel_def)
  consider (dead) "sub_closed s \<or> sub_ended s \<or> \<not> filter_allows (sub_filter s) (ev_device ev)"
    | (held) "\<not> (sub_closed s \<or> sub_ended s \<or> \<not> filter_allows (sub_filter s) (ev_device ev))"
        "sub_replaying s"
    | (live) "\<not> (sub_closed s \<or> sub_ended s \<or> \<not> filter_allows (sub_filter s) (ev_device ev))"
        "\<not> sub_replaying s"
    by blast
  then show ?thesis
  proof cases
    case dead
    with full have "stream_step (OpOffer ev) t = t" "offer ev s = s"
      by (auto simp: full_rel_def shape_rel_def offer_def)
    with lag_rel_mono [OF lag] new show ?thesis by simp
  next
    case held
    with full dur have "stream_step (OpOffer ev) t = t\<lparr>st_held := st_held t @ [ev]\<rparr>"
      by (simp add: full_rel_def shape_rel_def)
    then show ?thesis
      using held lag full_rel_delivered [OF full] low at new dur
      by (auto simp: lag_rel_def offer_def drop_locked_def Let_def)
  next
    case live
    with full dur have "stream_step (OpOffer ev) t = t\<lparr>st_owed := st_owed t @ [ev]\<rparr>"
      by (simp add: full_rel_def shape_rel_def)
    then show ?thesis
      using live lag full_rel_delivered [OF full] low at new dur
      by (auto simp: lag_rel_def offer_def deliver_locked_def drop_locked_def Let_def)
  qed
qed

lemma lag_rel_offer_ephemeral:
  assumes "lag_rel m out s t" "ev_ephemeral ev"
  shows "lag_rel m out (offer ev s) (stream_step (OpOffer ev) t)"
proof -
  have "stream_step (OpOffer ev) t = t" using assms(2) by simp
  moreover have "set (sub_queue s) \<subseteq> set (sub_queue (offer ev s))"
    "sub_buffer (offer ev s) = sub_buffer s" "sub_lagged (offer ev s) = sub_lagged s"
    "sub_lagged_at (offer ev s) = sub_lagged_at s"
    using assms(2) by (auto simp: offer_def deliver_locked_def drop_locked_def)
  ultimately show ?thesis using assms(1) by (auto simp: lag_rel_def)
qed

lemma lag_rel_step:
  assumes "lag_rel m out s t" "full_rel out s t" "sub_wf s" "op \<noteq> OpClearLag"
    and "increasing_offers m (op # ops)"
  shows "lag_rel (next_mark m op) (out @ fst (sub_step op s)) (snd (sub_step op s)) (stream_step op t)"
proof (cases op)
  case (OpOffer ev)
  with assms show ?thesis
    by (cases "ev_ephemeral ev")
      (auto simp del: stream_step.simps intro: lag_rel_offer_durable lag_rel_offer_ephemeral)
next
  case (OpEndReplay n)
  with assms show ?thesis
    by (cases "\<not> sub_replaying s \<or> sub_closed s \<or> sub_ended s")
      (auto simp: lag_rel_def full_rel_def shape_rel_def end_replay_dead end_replay_alive
        sub_wf_def released_def)
next
  case OpRecv
  with assms show ?thesis
    by (cases "sub_queue s") (auto simp: lag_rel_def)
next
  case (OpDrop dev)
  with assms show ?thesis
    by (auto simp: lag_rel_def full_rel_def shape_rel_def drop_sub_def Let_def)
next
  case OpClose
  with assms show ?thesis by (auto simp: lag_rel_def close_subscription_def)
qed (use assms in simp)

lemma lag_rel_run:
  assumes "lag_rel m out s t" "full_rel out s t" "sub_wf s" "OpClearLag \<notin> set ops"
    and "increasing_offers m ops"
  shows "\<exists>m'. lag_rel m' (out @ fst (sub_run ops s)) (snd (sub_run ops s)) (stream_run ops t)"
  using assms
proof (induction ops arbitrary: m out s t)
  case Nil
  then show ?case by auto
next
  case (Cons op ops)
  let ?out = "out @ fst (sub_step op s)" and ?s = "snd (sub_step op s)" and ?t = "stream_step op t"
  have no: "op \<noteq> OpClearLag" "OpClearLag \<notin> set ops" using Cons.prems(4) by auto
  have "lag_rel (next_mark m op) ?out ?s ?t"
    using lag_rel_step [OF Cons.prems(1,2,3) no(1) Cons.prems(5)] .
  moreover have "full_rel ?out ?s ?t" using full_rel_step [OF Cons.prems(2,3) no(1)] .
  moreover have "sub_wf ?s" using sub_step_wf [OF Cons.prems(3)] .
  moreover have "increasing_offers (next_mark m op) ops"
    using increasing_offers_Cons [OF Cons.prems(5)] by simp
  ultimately show ?case using Cons.IH no(2) by fastforce
qed

section \<open>A deleted number\<close>

text \<open>What a replay captured is always of a number the filter still has.\<close>

definition buffer_allowed :: "subscription \<Rightarrow> bool" where
  "buffer_allowed s \<longleftrightarrow> sub_wf s
     \<and> list_all (\<lambda>ev. filter_allows (sub_filter s) (ev_device ev)) (sub_buffer s)"

lemma buffer_allowed_new [inv_intros]: "buffer_allowed (new_subscription tenant f)"
  by (simp add: buffer_allowed_def sub_wf_new) (simp add: new_subscription_def)

lemma buffer_allowed_step [inv_intros]:
  assumes "buffer_allowed s"
  shows "buffer_allowed (snd (sub_step op s))"
proof -
  have "sub_wf (snd (sub_step op s))" using assms by (simp add: buffer_allowed_def sub_step_wf)
  moreover have "list_all (\<lambda>ev. filter_allows (sub_filter (snd (sub_step op s))) (ev_device ev))
      (sub_buffer (snd (sub_step op s)))"
    using assms
    by (cases op)
      (auto simp: buffer_allowed_def offer_def end_replay_def drop_sub_def clear_lag_def
        close_subscription_def Let_def filter_allows_def list_all_iff split: list.splits if_splits)
  ultimately show ?thesis by (simp add: buffer_allowed_def)
qed

lemma buffer_allowed_run: "buffer_allowed s \<Longrightarrow> buffer_allowed (snd (sub_run ops s))"
  by (induction ops arbitrary: s) (simp_all add: buffer_allowed_step)

lemma not_all_step: "\<not> flt_all (sub_filter s) \<Longrightarrow> \<not> flt_all (sub_filter (snd (sub_step op s)))"
  by (cases op) (auto simp: offer_def end_replay_def drop_sub_def clear_lag_def
      close_subscription_def Let_def split: list.splits)

lemma not_all_run: "\<not> flt_all (sub_filter s) \<Longrightarrow> \<not> flt_all (sub_filter (snd (sub_run ops s)))"
  by (induction ops arbitrary: s) (simp_all add: not_all_step)

text \<open>A subscription a number was dropped from: it never releases or delivers that number again.\<close>

definition silent_for :: "uuid \<Rightarrow> subscription \<Rightarrow> bool" where
  "silent_for dev s \<longleftrightarrow> \<not> flt_all (sub_filter s)
     \<and> (sub_closed s \<or> sub_ended s \<or> dev \<notin> flt_devices (sub_filter s)
          \<and> list_all (\<lambda>ev. ev_device ev \<noteq> dev) (sub_buffer s))"

lemma silent_for_drop:
  assumes "buffer_allowed s" "\<not> flt_all (sub_filter s)"
  shows "silent_for dev (drop_sub dev s)"
  using assms
  by (auto simp: silent_for_def drop_sub_def Let_def list_all_iff buffer_allowed_def
      filter_allows_def)

lemma silent_for_not_allowed: "silent_for dev s \<Longrightarrow> \<not> sub_allows dev s"
  by (auto simp: silent_for_def sub_allows_def filter_allows_def)

lemma silent_for_step:
  assumes "silent_for dev s" "sub_wf s"
  shows "silent_for dev (snd (sub_step op s))"
    and "list_all (\<lambda>ev. ev_device ev \<noteq> dev \<or> ev \<in> set (sub_queue s))
           (fst (sub_step op s) @ sub_queue (snd (sub_step op s)))"
proof -
  show "silent_for dev (snd (sub_step op s))"
  proof (cases op)
    case (OpEndReplay n)
    with assms show ?thesis
      by (cases "\<not> sub_replaying s \<or> sub_closed s \<or> sub_ended s")
        (auto simp: silent_for_def end_replay_dead end_replay_alive)
  next
    case (OpDrop d)
    with assms show ?thesis
      by (auto simp: silent_for_def drop_sub_def Let_def list_all_iff)
  qed (use assms in \<open>auto simp: silent_for_def sub_op_defs Let_def filter_allows_def
      split: list.splits\<close>)
  show "list_all (\<lambda>ev. ev_device ev \<noteq> dev \<or> ev \<in> set (sub_queue s))
           (fst (sub_step op s) @ sub_queue (snd (sub_step op s)))"
  proof (cases op)
    case (OpEndReplay n)
    with assms show ?thesis
      by (cases "\<not> sub_replaying s \<or> sub_closed s \<or> sub_ended s")
        (auto simp: silent_for_def end_replay_dead end_replay_alive list_all_iff released_def)
  next
    case (OpDrop d)
    with assms show ?thesis
      by (auto simp: drop_sub_def Let_def list_all_iff)
  qed (use assms in \<open>auto simp: silent_for_def sub_op_defs Let_def filter_allows_def list_all_iff
      split: list.splits\<close>)
qed

lemma silent_for_run:
  assumes "silent_for dev s" "sub_wf s"
  shows "list_all (\<lambda>ev. ev_device ev \<noteq> dev \<or> ev \<in> set (sub_queue s))
           (fst (sub_run ops s) @ sub_queue (snd (sub_run ops s)))"
    and "silent_for dev (snd (sub_run ops s))"
  using assms
proof (induction ops arbitrary: s)
  case (Cons op ops)
  {
    case 1
    show ?case
      using Cons.IH(1) [OF silent_for_step(1) [OF 1] sub_step_wf [OF 1(2)], of op]
        silent_for_step(2) [OF 1, of op]
      by (fastforce simp: list_all_iff)
  next
    case 2
    show ?case
      using Cons.IH(2) [OF silent_for_step(1) [OF 2] sub_step_wf [OF 2(2)], of op] by simp
  }
qed (auto simp: list_all_iff)

section \<open>The interface of the replay\<close>

text \<open>
  What internal/wsapi relies on when it replays the archive beside a live subscription: while the
  subscription is holding, every wanted event is kept in order, up to \<open>space\<close> of them; handing over
  at a watermark releases exactly the held events above it; from then on wanted events follow.
\<close>

locale live_stream =
  fixes put :: "'e \<Rightarrow> 's \<Rightarrow> 's" and hand_over :: "int \<Rightarrow> 's \<Rightarrow> 's"
    and holding :: "'s \<Rightarrow> bool" and flowing :: "'s \<Rightarrow> bool"
    and held :: "'s \<Rightarrow> 'e list" and pending :: "'s \<Rightarrow> 'e list"
    and seq_of :: "'e \<Rightarrow> int" and wanted :: "'s \<Rightarrow> 'e \<Rightarrow> bool" and space :: nat
  assumes capture: "holding s \<Longrightarrow> wanted s e \<Longrightarrow> length (held s) < space \<Longrightarrow>
      holding (put e s) \<and> held (put e s) = held s @ [e] \<and> wanted (put e s) = wanted s"
    and ignore: "holding s \<Longrightarrow> \<not> wanted s e \<Longrightarrow> put e s = s"
    and release: "holding s \<Longrightarrow> flowing (hand_over n s) \<and> wanted (hand_over n s) = wanted s
      \<and> pending (hand_over n s) = filter (\<lambda>e. n < seq_of e) (held s)"
    and flow: "flowing s \<Longrightarrow> wanted s e \<Longrightarrow> length (pending s) < space \<Longrightarrow>
      flowing (put e s) \<and> pending (put e s) = pending s @ [e] \<and> wanted (put e s) = wanted s"
begin

lemma captured:
  assumes "holding s" "length (held s) + length (filter (wanted s) es) \<le> space"
  shows "holding (fold put es s) \<and> held (fold put es s) = held s @ filter (wanted s) es
    \<and> wanted (fold put es s) = wanted s"
  using assms
proof (induction es arbitrary: s)
  case (Cons e es)
  show ?case
  proof (cases "wanted s e")
    case True
    with Cons.prems have "holding (put e s)" "held (put e s) = held s @ [e]"
      "wanted (put e s) = wanted s"
      using capture [of s e] by auto
    with Cons.IH [of "put e s"] Cons.prems True show ?thesis by simp
  next
    case False
    with Cons show ?thesis by (simp add: ignore)
  qed
qed simp

lemma handed_over:
  assumes "holding s" "held s = []" "length (filter (wanted s) es) \<le> space"
  shows "pending (hand_over n (fold put es s)) = filter (\<lambda>e. wanted s e \<and> n < seq_of e) es"
    and "flowing (hand_over n (fold put es s))"
    and "wanted (hand_over n (fold put es s)) = wanted s"
  using captured [of s es] release [of "fold put es s" n] assms
  by simp_all

lemma flowed:
  assumes "flowing s" "list_all (wanted s) es" "length (pending s) + length es \<le> space"
  shows "pending (fold put es s) = pending s @ es"
  using assms
proof (induction es arbitrary: s)
  case (Cons e es)
  with flow [of s e] show ?case by simp
qed simp

end

definition bus_holding :: "subscription \<Rightarrow> bool" where
  "bus_holding s \<longleftrightarrow> buffer_allowed s \<and> sub_replaying s \<and> \<not> sub_closed s \<and> \<not> sub_ended s"

definition bus_flowing :: "subscription \<Rightarrow> bool" where
  "bus_flowing s \<longleftrightarrow> \<not> sub_replaying s \<and> \<not> sub_closed s \<and> \<not> sub_ended s"

definition bus_wanted :: "subscription \<Rightarrow> event \<Rightarrow> bool" where
  "bus_wanted s ev \<longleftrightarrow> \<not> ev_ephemeral ev \<and> filter_allows (sub_filter s) (ev_device ev)"

interpretation bus_live: live_stream offer end_replay bus_holding bus_flowing sub_buffer sub_queue
  ev_seq bus_wanted queue_depth
proof (unfold_locales, goal_cases)
  case (1 s e)
  then show ?case
    by (auto simp: bus_holding_def bus_wanted_def buffer_allowed_def sub_wf_def offer_def fun_eq_iff)
next
  case (2 s e)
  then show ?case by (auto simp: bus_holding_def bus_wanted_def offer_def)
next
  case (3 s n)
  then show ?case
    by (auto simp: bus_holding_def bus_flowing_def bus_wanted_def buffer_allowed_def
        end_replay_alive released_def list_all_iff fun_eq_iff intro: filter_cong)
next
  case (4 s e)
  then show ?case
    by (auto simp: bus_flowing_def bus_wanted_def offer_def deliver_locked_def fun_eq_iff)
qed

lemma bus_holding_new: "bus_holding (new_subscription tenant f)"
  by (simp add: bus_holding_def buffer_allowed_new) (simp add: new_subscription_def)

end
