(* ===== verification/Replay.thy ===== *)
theory Replay
  imports Bus_Stream
begin

text \<open>
  The replay of the archive to a reconnecting client: \<^verbatim>\<open>handleSubscribe\<close> and \<^verbatim>\<open>mergeReplay\<close> of
  internal/wsapi/subscribe.go, over the two reads of internal/store (\<^verbatim>\<open>Messages.Since\<close>,
  \<^verbatim>\<open>Receipts.Since\<close>).

  The database is an argument: \<open>table\<close> lists the rows a query sees, in the order of its
  \<^verbatim>\<open>ORDER BY\<close>. The connection is an argument too: \<open>replay_env\<close> says what each read of each round
  returned, whether the subscription still allowed a frame at the moment it was considered, and
  whether the push of it succeeded.
\<close>

section \<open>The reads\<close>

record message_row =
  row_seq :: int
  row_device :: uuid
  row_uid :: uuid

record receipt_row =
  rr_seq :: int
  rr_device :: uuid
  rr_chat_key :: string
  rr_waid :: string
  rr_reader_key :: string
  rr_reader_lid :: string
  rr_reader_pn :: string
  rr_is_from_me :: bool
  rr_kind :: string
  rr_ts :: timestamp

record receipt_batch =
  rb_seq :: int
  rb_device :: uuid
  rb_chat_key :: string
  rb_waids :: "string list"
  rb_reader_key :: string
  rb_reader_lid :: string
  rb_reader_pn :: string
  rb_is_from_me :: bool
  rb_kind :: string
  rb_ts :: timestamp

definition messages_since :: "message_row list \<Rightarrow> int \<Rightarrow> nat \<Rightarrow> message_row list" where
  "messages_since table since limit = take limit (filter (\<lambda>r. since < row_seq r) table)"

definition new_batch :: "receipt_row \<Rightarrow> receipt_batch" where
  "new_batch r = \<lparr>rb_seq = rr_seq r, rb_device = rr_device r, rb_chat_key = rr_chat_key r,
     rb_waids = [rr_waid r], rb_reader_key = rr_reader_key r, rb_reader_lid = rr_reader_lid r,
     rb_reader_pn = rr_reader_pn r, rb_is_from_me = rr_is_from_me r, rb_kind = rr_kind r,
     rb_ts = rr_ts r\<rparr>"

text \<open>The scan of the rows: a row of the last batch's sequence joins it, any other opens a batch. The
  batches are kept newest first while scanning.\<close>

fun add_row :: "receipt_batch list \<Rightarrow> receipt_row \<Rightarrow> receipt_batch list" where
  "add_row (b # bs) r = (if rb_seq b = rr_seq r then b\<lparr>rb_waids := rb_waids b @ [rr_waid r]\<rparr> # bs
                         else new_batch r # b # bs)"
| "add_row [] r = [new_batch r]"

definition group_rows :: "receipt_row list \<Rightarrow> receipt_batch list" where
  "group_rows rows = rev (foldl add_row [] rows)"

definition receipts_since :: "receipt_row list \<Rightarrow> int \<Rightarrow> nat \<Rightarrow> receipt_batch list \<times> bool" where
  "receipts_since table since limit =
     (let rows = take limit (filter (\<lambda>r. since < rr_seq r) table); out = group_rows rows
      in if length rows = limit \<and> 1 < length out then (butlast out, True) else (out, False))"

section \<open>The merge\<close>

datatype frame = MessageFrame message_row | ReceiptFrame receipt_batch

fun frame_seq :: "frame \<Rightarrow> int" where
  "frame_seq (MessageFrame r) = row_seq r"
| "frame_seq (ReceiptFrame b) = rb_seq b"

fun frame_device :: "frame \<Rightarrow> uuid" where
  "frame_device (MessageFrame r) = row_device r"
| "frame_device (ReceiptFrame b) = rb_device b"

fun merge_replay :: "message_row list \<Rightarrow> receipt_batch list \<Rightarrow> int \<Rightarrow> frame list" where
  "merge_replay [] [] horizon = []"
| "merge_replay (r # rows) [] horizon =
     (if horizon < row_seq r then [] else MessageFrame r # merge_replay rows [] horizon)"
| "merge_replay [] (a # acks) horizon =
     (if horizon < rb_seq a then [] else ReceiptFrame a # merge_replay [] acks horizon)"
| "merge_replay (r # rows) (a # acks) horizon =
     (if row_seq r < rb_seq a
      then (if horizon < row_seq r then merge_replay [] (a # acks) horizon
            else MessageFrame r # merge_replay rows (a # acks) horizon)
      else (if horizon < rb_seq a then merge_replay (r # rows) [] horizon
            else ReceiptFrame a # merge_replay (r # rows) acks horizon))"

section \<open>The replay loop\<close>

definition replay_page :: nat where
  "replay_page = 500"

record replay_env =
  env_ended :: "nat \<Rightarrow> bool"
  env_rows :: "nat \<Rightarrow> int \<Rightarrow> message_row list option"
  env_acks :: "nat \<Rightarrow> int \<Rightarrow> (receipt_batch list \<times> bool) option"
  env_allows :: "frame \<Rightarrow> bool"
  env_push :: "frame \<Rightarrow> bool"

record replay_state =
  rp_frames :: "frame list"
  rp_sent :: nat
  rp_last :: int
  rp_gone :: bool

definition push_frame :: "replay_env \<Rightarrow> frame \<Rightarrow> replay_state \<Rightarrow> replay_state" where
  "push_frame env f st =
     (if rp_gone st \<or> \<not> env_allows env f then st
      else if env_push env f
           then st\<lparr>rp_frames := rp_frames st @ [f], rp_sent := rp_sent st + 1\<rparr>
           else st\<lparr>rp_gone := True, rp_sent := rp_sent st + 1\<rparr>)"

definition replay_horizon :: "int \<Rightarrow> message_row list \<Rightarrow> receipt_batch list \<Rightarrow> bool \<Rightarrow> int" where
  "replay_horizon watermark rows acks truncated =
     (let h1 = (if length rows = replay_page \<and> rows \<noteq> []
                then min watermark (row_seq (last rows)) else watermark)
      in if truncated \<and> acks \<noteq> [] then min h1 (rb_seq (last acks)) else h1)"

function replay_loop :: "replay_env \<Rightarrow> nat \<Rightarrow> int \<Rightarrow> replay_state \<Rightarrow> replay_state" where
  "replay_loop env k watermark st =
     (if \<not> (rp_last st < watermark \<and> \<not> rp_gone st \<and> \<not> env_ended env k) then st
      else case env_rows env k (rp_last st) of
        None \<Rightarrow> st
      | Some rows \<Rightarrow> (case env_acks env k (rp_last st) of
          None \<Rightarrow> st
        | Some (acks, truncated) \<Rightarrow>
            (if rows = [] \<and> acks = [] then st
             else let horizon = replay_horizon watermark rows acks truncated;
                      st' = fold (push_frame env) (merge_replay rows acks horizon) st
                  in if horizon \<le> rp_last st then st'
                     else replay_loop env (Suc k) watermark (st'\<lparr>rp_last := horizon\<rparr>))))"
  by pat_completeness auto
termination
  by (relation "measure (\<lambda>(env, k, watermark, st). nat (watermark - rp_last st))")
    (auto simp: replay_horizon_def Let_def)

declare replay_loop.simps [simp del]

definition start_replay :: "int \<Rightarrow> replay_state" where
  "start_replay since = \<lparr>rp_frames = [], rp_sent = 0, rp_last = since, rp_gone = False\<rparr>"

end
