(* ===== verification/Bus_Registry.thy ===== *)
theory Bus_Registry
  imports Bus_Stream
begin

text \<open>
  The bus as a whole: which subscriptions an event reaches. \<open>bus_op\<close> lists what the processes run on
  the bus, \<open>bus_reach\<close> the states any sequence of them leads to, and \<open>bus_inv\<close> says how the registry
  and the heap of subscriptions agree.
\<close>

section \<open>Runs of the bus\<close>

datatype bus_op =
    BusSubscribe uuid bus_filter
  | BusPublish uuid event
  | BusDropDevice uuid uuid
  | BusClose nat
  | BusSub nat sub_op

fun bus_step :: "bus_op \<Rightarrow> bus_state \<Rightarrow> bus_state" where
  "bus_step (BusSubscribe tenant f) b = snd (bus_subscribe tenant f b)"
| "bus_step (BusPublish tenant ev) b = publish tenant ev b"
| "bus_step (BusDropDevice tenant dev) b = drop_device tenant dev b"
| "bus_step (BusClose p) b = bus_close p b"
| "bus_step (BusSub p op) b =
     (if op = OpClose then bus_close p b else update_sub p (\<lambda>s. snd (sub_step op s)) b)"

inductive bus_reach :: "bus_state \<Rightarrow> bool" where
  reach_new: "bus_reach new_bus"
| reach_step: "bus_reach b \<Longrightarrow> bus_reach (bus_step op b)"

definition bus_inv :: "bus_state \<Rightarrow> bool" where
  "bus_inv b \<longleftrightarrow>
     (\<forall>t. distinct (registered t b))
     \<and> (\<forall>t p. p \<in> set (registered t b) \<longrightarrow>
           (\<exists>s. bus_heap b p = Some s \<and> sub_tenant s = t \<and> \<not> sub_closed s))
     \<and> (\<forall>p s. bus_heap b p = Some s \<longrightarrow> p < bus_next b \<and> sub_wf s)"

section \<open>Updates of the heap\<close>

lemma update_sub_frame [simp]:
  "bus_subs (update_sub p f b) = bus_subs b" "bus_next (update_sub p f b) = bus_next b"
  "registered t (update_sub p f b) = registered t b"
  by (simp_all add: update_sub_def registered_def split: option.splits)

lemma update_sub_heap [simp]:
  "bus_heap (update_sub p f b) q = (if q = p then map_option f (bus_heap b q) else bus_heap b q)"
  by (simp add: update_sub_def split: option.splits)

lemma update_subs_frame [simp]:
  "bus_subs (update_subs ps f b) = bus_subs b" "bus_next (update_subs ps f b) = bus_next b"
  "registered t (update_subs ps f b) = registered t b"
  by (induction ps arbitrary: b) simp_all

lemma update_subs_heap:
  "distinct ps \<Longrightarrow>
   bus_heap (update_subs ps f b) q = (if q \<in> set ps then map_option f (bus_heap b q) else bus_heap b q)"
  by (induction ps arbitrary: b) auto

lemma offer_frame [simp]: "sub_tenant (offer ev s) = sub_tenant s" "sub_closed (offer ev s) = sub_closed s"
  by (simp_all add: offer_def)

lemma sub_step_frame:
  "sub_tenant (snd (sub_step op s)) = sub_tenant s"
  "op \<noteq> OpClose \<Longrightarrow> sub_closed (snd (sub_step op s)) = sub_closed s"
  by (cases op; auto simp: end_replay_def drop_sub_def clear_lag_def close_subscription_def Let_def
      split: list.splits)+

text \<open>A function that keeps tenant, openness and well-formedness may be applied anywhere.\<close>

lemma bus_inv_update:
  assumes "bus_inv b" "\<And>s. sub_tenant (f s) = sub_tenant s" "\<And>s. sub_closed (f s) = sub_closed s"
    and "\<And>s. sub_wf s \<Longrightarrow> sub_wf (f s)"
  shows "bus_inv (update_sub p f b)"
  using assms unfolding bus_inv_def
  by (auto split: if_splits) metis+

lemma bus_inv_updates:
  assumes "bus_inv b" "\<And>s. sub_tenant (f s) = sub_tenant s" "\<And>s. sub_closed (f s) = sub_closed s"
    and "\<And>s. sub_wf s \<Longrightarrow> sub_wf (f s)"
  shows "bus_inv (update_subs ps f b)"
  using assms(1)
proof (induction ps arbitrary: b)
  case (Cons p ps)
  from Cons.IH [OF bus_inv_update [OF Cons.prems assms(2-4)]] show ?case by simp
qed simp

lemma registered_unregister:
  "registered t (unregister tenant p b)
     = (if t = tenant then filter (\<lambda>q. q \<noteq> p) (registered t b) else registered t b)"
  by (auto simp: unregister_def registered_def Let_def split: option.splits)

lemma unregister_frame [simp]:
  "bus_heap (unregister tenant p b) = bus_heap b" "bus_next (unregister tenant p b) = bus_next b"
  by (simp_all add: unregister_def Let_def split: option.splits)

lemma close_subscription_wf: "sub_wf s \<Longrightarrow> sub_wf (close_subscription s)"
  by (simp add: sub_wf_def close_subscription_def)

lemma close_subscription_tenant [simp]: "sub_tenant (close_subscription s) = sub_tenant s"
  by (simp add: close_subscription_def)

lemma bus_inv_close:
  assumes "bus_inv b"
  shows "bus_inv (bus_close p b)"
proof (cases "bus_heap b p")
  case None
  with assms show ?thesis by (simp add: bus_close_def)
next
  case (Some a)
  have own: "t = sub_tenant a" if "p \<in> set (registered t b)" for t
    using assms Some that by (fastforce simp: bus_inv_def)
  show ?thesis
    using assms Some own
    by (auto simp: bus_inv_def bus_close_def registered_unregister close_subscription_wf
        split: if_splits)
qed

lemma registered_subscribe:
  "registered t (snd (bus_subscribe tenant f b))
     = (if t = tenant then registered t b @ [bus_next b] else registered t b)"
  by (simp add: bus_subscribe_def registered_def Let_def)

lemma bus_inv_subscribe:
  assumes "bus_inv b"
  shows "bus_inv (snd (bus_subscribe tenant f b))"
proof -
  have fresh: "bus_next b \<notin> set (registered t b)" for t
    using assms by (fastforce simp: bus_inv_def)
  have heap: "bus_heap (snd (bus_subscribe tenant f b))
      = (bus_heap b)(bus_next b \<mapsto> new_subscription tenant f)"
    and nxt: "bus_next (snd (bus_subscribe tenant f b)) = bus_next b + 1"
    by (simp_all add: bus_subscribe_def Let_def)
  have new: "sub_tenant (new_subscription tenant f) = tenant"
    "\<not> sub_closed (new_subscription tenant f)"
    by (simp_all add: new_subscription_def)
  show ?thesis
    using assms fresh new sub_wf_new [of tenant f]
    unfolding bus_inv_def registered_subscribe heap nxt
    by (auto split: if_splits intro: less_SucI)
qed

lemma bus_inv_new: "bus_inv new_bus"
  by (simp add: bus_inv_def new_bus_def registered_def)

lemma drop_sub_frame [simp]:
  "sub_tenant (drop_sub dev s) = sub_tenant s" "sub_closed (drop_sub dev s) = sub_closed s"
  by (simp_all add: drop_sub_def Let_def)

lemma bus_step_inv: "bus_inv b \<Longrightarrow> bus_inv (bus_step op b)"
proof (cases op)
  case (BusSub p sop)
  assume "bus_inv b"
  with BusSub show ?thesis
    by (auto intro!: bus_inv_close bus_inv_update simp: sub_step_frame inv_intros)
qed (auto simp: publish_def drop_device_def
    intro!: bus_inv_subscribe bus_inv_close bus_inv_updates inv_intros)

lemma bus_reach_inv: "bus_reach b \<Longrightarrow> bus_inv b"
  by (induction rule: bus_reach.induct) (auto intro: bus_inv_new bus_step_inv)

lemma publish_heap:
  assumes "bus_inv b"
  shows "bus_heap (publish tenant ev b) p =
     (if p \<in> set (registered tenant b) then map_option (offer ev) (bus_heap b p) else bus_heap b p)"
  using assms by (simp add: publish_def bus_inv_def update_subs_heap)


section \<open>Sample runs for the witnesses\<close>

definition sample_event :: "int \<Rightarrow> uuid \<Rightarrow> event" where
  "sample_event n dev = \<lparr>ev_class = ClassMessage, ev_seq = n, ev_tenant = 1, ev_device = dev,
     ev_chat_key = ''c'', ev_kind = ''message'', ev_type = ''text'', ev_uid = 9, ev_ephemeral = False,
     ev_presence = None, ev_chat = None\<rparr>"

definition sample_filter :: bus_filter where
  "sample_filter = \<lparr>flt_devices = {7, 8}, flt_all = False\<rparr>"

lemma sample_event_simps [simp]:
  "ev_seq (sample_event n dev) = n" "ev_device (sample_event n dev) = dev"
  "\<not> ev_ephemeral (sample_event n dev)"
  by (simp_all add: sample_event_def)

lemma offers_lagged:
  "sub_lagged s \<Longrightarrow> sub_lagged (snd (sub_run (map OpOffer es) s))
     \<and> sub_lagged_at (snd (sub_run (map OpOffer es) s)) = sub_lagged_at s"
proof (induction es arbitrary: s)
  case (Cons e es)
  then have "sub_lagged (offer e s)" "sub_lagged_at (offer e s) = sub_lagged_at s"
    by (simp_all add: offer_def deliver_locked_def drop_locked_def)
  with Cons.IH [of "offer e s"] show ?case by simp
qed simp

lemma offers_overflow:
  assumes "bus_holding s" "\<not> sub_lagged s" "list_all (bus_wanted s) es"
    and "queue_depth < length (sub_buffer s) + length es"
  shows "sub_lagged (snd (sub_run (map OpOffer es) s))
    \<and> sub_lagged_at (snd (sub_run (map OpOffer es) s))
        = ev_seq (es ! (queue_depth - length (sub_buffer s)))"
  using assms
proof (induction es arbitrary: s)
  case Nil
  then show ?case by (simp add: bus_holding_def buffer_allowed_def sub_wf_def)
next
  case (Cons e es)
  show ?case
  proof (cases "length (sub_buffer s) < queue_depth")
    case True
    have w: "bus_wanted s e" using Cons.prems(3) by simp
    have "\<not> sub_lagged (offer e s)"
      using Cons.prems(1,2) w True by (auto simp: bus_holding_def bus_wanted_def offer_def)
    moreover have "queue_depth - length (sub_buffer s) = Suc (queue_depth - Suc (length (sub_buffer s)))"
      using True by simp
    ultimately show ?thesis
      using bus_live.capture [OF Cons.prems(1) w True] Cons.IH [of "offer e s"] Cons.prems(3,4)
      by simp
  next
    case False
    then have full: "length (sub_buffer s) = queue_depth"
      using Cons.prems(1) by (simp add: bus_holding_def buffer_allowed_def sub_wf_def)
    have "sub_lagged (offer e s)" "sub_lagged_at (offer e s) = ev_seq e"
      using Cons.prems(1-3) False
      by (auto simp: bus_holding_def bus_wanted_def offer_def drop_locked_def Let_def)
    with full offers_lagged [of "offer e s" es] show ?thesis by simp
  qed
qed

lemma stream_offers:
  "st_replaying t \<Longrightarrow> \<not> st_dead t \<Longrightarrow>
   list_all (\<lambda>e. \<not> ev_ephemeral e \<and> filter_allows (st_filter t) (ev_device e)) es \<Longrightarrow>
   stream_run (map OpOffer es) t = t\<lparr>st_held := st_held t @ es\<rparr>"
  by (induction es arbitrary: t) simp_all

lemma stream_run_append: "stream_run (xs @ ys) t = stream_run ys (stream_run xs t)"
  by (induction xs arbitrary: t) simp_all

lemma sub_run_append_snd: "snd (sub_run (xs @ ys) s) = snd (sub_run ys (snd (sub_run xs s)))"
  by (induction xs arbitrary: s) simp_all

lemma increasing_sample_offers:
  "m < int a \<Longrightarrow> increasing_offers m (map (\<lambda>i. OpOffer (sample_event (int i) dev)) [a..<b] @ [OpEndReplay n])"
proof (induction "b - a" arbitrary: a m)
  case (Suc k)
  then have "a < b" "k = b - Suc a" by auto
  with Suc.hyps(1) [of "Suc a" "int a"] Suc.prems show ?case by (simp add: upt_conv_Cons)
qed simp

text \<open>Five hundred and thirteen events offered during a replay, one more than the buffer holds, then the
  handover.\<close>

definition sample_burst :: "sub_op list" where
  "sample_burst = map (\<lambda>i. OpOffer (sample_event (int i) 7)) [1..<514] @ [OpEndReplay 0]"

lemma sample_burst_events:
  "sample_burst = map OpOffer (map (\<lambda>i. sample_event (int i) 7) [1..<514]) @ [OpEndReplay 0]"
  by (simp add: sample_burst_def)

lemma sample_burst_lags:
  "sub_lagged (snd (sub_run sample_burst (new_subscription 1 sample_filter)))
   \<and> sub_lagged_at (snd (sub_run sample_burst (new_subscription 1 sample_filter))) = 513"
proof -
  let ?es = "map (\<lambda>i. sample_event (int i) 7) [1..<514]" and ?s = "new_subscription 1 sample_filter"
  let ?r = "snd (sub_run (map OpOffer ?es) ?s)"
  have w: "list_all (bus_wanted ?s) ?es"
    by (auto simp: list_all_iff bus_wanted_def new_subscription_def sample_filter_def
        filter_allows_def)
  have nl: "\<not> sub_lagged ?s" and b: "sub_buffer ?s = []" by (simp_all add: new_subscription_def)
  have len: "length ?es = 513" by (simp only: length_map length_upt)
  have lag: "sub_lagged ?r \<and> sub_lagged_at ?r = 513"
    using offers_overflow [OF bus_holding_new nl w] len b by (simp add: queue_depth_def)
  moreover have "sub_wf ?r" using sub_run_wf [OF sub_wf_new] .
  ultimately have "sub_lagged (end_replay 0 ?r) \<and> sub_lagged_at (end_replay 0 ?r) = 513"
    by (cases "\<not> sub_replaying ?r \<or> sub_closed ?r \<or> sub_ended ?r")
      (auto simp: end_replay_dead end_replay_alive)
  then show ?thesis unfolding sample_burst_events sub_run_append_snd by simp
qed

lemma sample_burst_owes:
  "st_owed (stream_run sample_burst (new_stream sample_filter))
     = map (\<lambda>i. sample_event (int i) 7) [1..<514]"
proof -
  let ?es = "map (\<lambda>i. sample_event (int i) 7) [1..<514]"
  have "stream_run (map OpOffer ?es) (new_stream sample_filter)
      = (new_stream sample_filter)\<lparr>st_held := ?es\<rparr>"
    using stream_offers [of "new_stream sample_filter" ?es]
    by (simp add: new_stream_def sample_filter_def filter_allows_def list_all_iff)
  then show ?thesis
    unfolding sample_burst_events stream_run_append
    by (auto simp: new_stream_def released_def sample_filter_def filter_allows_def
        intro!: filter_True)
qed

section \<open>Properties of the bus\<close>

text \<open>Backpressure is bounded. Whatever sequence of offers, handovers, deletions, receives, lag
  resets and closes runs on a subscription, its channel never holds more than 512 events and its
  replay buffer never more than 512.\<close>

theorem queues_bounded:
  "let s = snd (sub_run ops (new_subscription tenant f))
   in length (sub_queue s) \<le> 512 \<and> length (sub_buffer s) \<le> 512"
  using sub_run_wf [OF sub_wf_new, of ops tenant f] by (simp add: sub_wf_def queue_depth_def Let_def)

text \<open>Delivery never invents, duplicates or reorders. In every interleaving, lagged or not, the
  durable events the reader has received or has waiting are a subsequence of the events the
  abstract stream owes it.\<close>

theorem delivery_is_subsequence:
  "subseq (durable (fst (sub_run ops (new_subscription tenant f))
             @ sub_queue (snd (sub_run ops (new_subscription tenant f)))))
     (st_owed (stream_run ops (new_stream f)))"
  using safe_rel_run [OF new_rels(1) sub_wf_new, of ops tenant f] by (simp add: safe_rel_def)

text \<open>C34: Delivery is complete unless lag is reported. While the subscription was never marked lagged,
  what the reader received and has waiting is, in order, exactly what the abstract stream owes: the
  replay handover loses nothing and repeats nothing.\<close>

theorem delivery_complete_unless_lagged:
  assumes "OpClearLag \<notin> set ops" "\<not> sub_lagged (snd (sub_run ops (new_subscription tenant f)))"
  shows "durable (fst (sub_run ops (new_subscription tenant f))
           @ sub_queue (snd (sub_run ops (new_subscription tenant f))))
     = st_owed (stream_run ops (new_stream f))"
  using full_rel_run [OF new_rels(2) sub_wf_new assms(1), of tenant f] assms(2)
  by (simp add: full_rel_def)

definition sample_handover :: "sub_op list" where
  "sample_handover = [OpOffer (sample_event 4 7), OpOffer (sample_event 5 8),
     OpOffer (sample_event 5 9), OpEndReplay 4, OpRecv, OpOffer (sample_event 6 7)]"

theorem delivery_complete_unless_lagged_witness:
  "OpClearLag \<notin> set sample_handover
   \<and> \<not> sub_lagged (snd (sub_run sample_handover (new_subscription 1 sample_filter)))
   \<and> durable (fst (sub_run sample_handover (new_subscription 1 sample_filter))
        @ sub_queue (snd (sub_run sample_handover (new_subscription 1 sample_filter))))
     = [sample_event 5 8, sample_event 6 7]"
proof -
  have 1: "OpClearLag \<notin> set sample_handover" by (simp add: sample_handover_def)
  have 2: "\<not> sub_lagged (snd (sub_run sample_handover (new_subscription 1 sample_filter)))"
    by (simp add: sample_handover_def new_subscription_def sample_filter_def offer_def end_replay_def
        deliver_locked_def filter_allows_def queue_depth_def)
  have "st_owed (stream_run sample_handover (new_stream sample_filter))
      = [sample_event 5 8, sample_event 6 7]"
    by (simp add: sample_handover_def new_stream_def sample_filter_def filter_allows_def released_def)
  with 1 2 show ?thesis using delivery_complete_unless_lagged [OF 1 2] by simp
qed

text \<open>The lag resume point is sound. When events are offered in sequence order and the
  subscription lags, every owed event below the reported sequence was delivered, so a client that
  resumes its archive read at that sequence misses nothing.\<close>

theorem lag_resume_point_sound:
  assumes "OpClearLag \<notin> set ops" "increasing_offers m ops"
    and "sub_lagged (snd (sub_run ops (new_subscription tenant f)))"
    and "e \<in> set (st_owed (stream_run ops (new_stream f)))"
    and "ev_seq e < fst (snd (lag_report (snd (sub_run ops (new_subscription tenant f)))))"
  shows "e \<in> set (fst (sub_run ops (new_subscription tenant f))
           @ sub_queue (snd (sub_run ops (new_subscription tenant f))))"
proof -
  have "lag_rel m [] (new_subscription tenant f) (new_stream f)"
    by (simp add: lag_rel_def new_subscription_def new_stream_def)
  from lag_rel_run [OF this new_rels(2) sub_wf_new assms(1,2)] assms(3-5)
  show ?thesis by (auto simp: lag_rel_def lag_report_def)
qed


theorem lag_resume_point_sound_witness:
  "sample_event 3 7 \<in> set (fst (sub_run sample_burst (new_subscription 1 sample_filter))
     @ sub_queue (snd (sub_run sample_burst (new_subscription 1 sample_filter))))"
proof (rule lag_resume_point_sound)
  show "OpClearLag \<notin> set sample_burst" by (auto simp: sample_burst_def)
  show "increasing_offers 0 sample_burst"
    using increasing_sample_offers [of 0 1 7 514 0] by (simp add: sample_burst_def)
  show "sub_lagged (snd (sub_run sample_burst (new_subscription 1 sample_filter)))"
    using sample_burst_lags by blast
  show "sample_event 3 7 \<in> set (st_owed (stream_run sample_burst (new_stream sample_filter)))"
    unfolding sample_burst_owes by (auto intro!: image_eqI [where x = 3])
  show "ev_seq (sample_event 3 7)
      < fst (snd (lag_report (snd (sub_run sample_burst (new_subscription 1 sample_filter)))))"
    using sample_burst_lags by (simp add: lag_report_def)
qed

text \<open>C35: A deleted number goes silent. Once a number is dropped from a subscription that is not for every
  number, at any point of any run, nothing the reader gets afterwards is of that number except what
  already waited in its channel, and from then on \<^verbatim>\<open>Allows\<close> refuses the number, which is what
  keeps those from being sent.\<close>

theorem deleted_number_silent:
  assumes "\<not> flt_all f"
  shows "let s = snd (sub_run before (new_subscription tenant f));
             (out, s') = sub_run after (drop_sub dev s)
         in list_all (\<lambda>ev. ev_device ev = dev \<longrightarrow> ev \<in> set (sub_queue s)) (out @ sub_queue s')
            \<and> \<not> sub_allows dev s'"
proof -
  let ?s = "snd (sub_run before (new_subscription tenant f))"
  have "buffer_allowed ?s" using buffer_allowed_run [OF buffer_allowed_new] .
  moreover have "\<not> flt_all (sub_filter ?s)"
    using assms not_all_run [of "new_subscription tenant f"] by (simp add: new_subscription_def)
  ultimately have silent: "silent_for dev (drop_sub dev ?s)" and wf: "sub_wf (drop_sub dev ?s)"
    by (auto intro: silent_for_drop inv_intros simp: buffer_allowed_def)
  have "sub_queue (drop_sub dev ?s) = sub_queue ?s" by (simp add: drop_sub_def Let_def)
  with silent_for_run(1) [OF silent wf, of after]
    silent_for_not_allowed [OF silent_for_run(2) [OF silent wf, of after]]
  show ?thesis by (auto simp: list_all_iff split: prod.splits)
qed

theorem deleted_number_silent_witness:
  "\<not> sub_allows 7 (snd (sub_run [OpOffer (sample_event 2 7), OpOffer (sample_event 2 8), OpEndReplay 0]
       (drop_sub 7 (snd (sub_run [OpOffer (sample_event 1 7)] (new_subscription 1 sample_filter))))))"
proof -
  have "\<not> flt_all sample_filter" by (simp add: sample_filter_def)
  from deleted_number_silent [OF this, of "[OpOffer (sample_event 1 7)]" 1
      "[OpOffer (sample_event 2 7), OpOffer (sample_event 2 8), OpEndReplay 0]" 7]
  show ?thesis by (simp add: Let_def case_prod_beta del: sub_run_Cons_snd sub_run_Cons_fst)
qed

text \<open>Publication is scoped by tenant. In every reachable state of the bus, publishing an event offers
  it exactly once to each subscription registered for its tenant, whatever order the map is walked
  in, and changes no other subscription; in particular none of another tenant's.\<close>

theorem publish_scoped:
  assumes "bus_reach b"
  shows "bus_heap (publish tenant ev b) p
      = (if p \<in> set (registered tenant b) then map_option (offer ev) (bus_heap b p) else bus_heap b p)
    \<and> (\<forall>s. bus_heap b p = Some s \<and> sub_tenant s \<noteq> tenant \<longrightarrow>
           bus_heap (publish tenant ev b) p = Some s)"
  using publish_heap [OF bus_reach_inv [OF assms], of tenant ev p] bus_reach_inv [OF assms]
  by (fastforce simp: bus_inv_def)

definition sample_bus :: bus_state where
  "sample_bus = bus_step (BusSubscribe 2 sample_filter) (bus_step (BusSubscribe 1 sample_filter) new_bus)"

theorem publish_scoped_witness:
  "bus_reach sample_bus
   \<and> bus_heap (publish 1 (sample_event 5 7) sample_bus) 0
       = Some (offer (sample_event 5 7) (new_subscription 1 sample_filter))
   \<and> bus_heap (publish 1 (sample_event 5 7) sample_bus) 1 = Some (new_subscription 2 sample_filter)"
proof -
  have r: "bus_reach sample_bus"
    by (auto simp: sample_bus_def simp del: bus_step.simps intro: bus_reach.intros)
  have "bus_heap sample_bus 0 = Some (new_subscription 1 sample_filter)"
    "bus_heap sample_bus 1 = Some (new_subscription 2 sample_filter)"
    "registered 1 sample_bus = [0]"
    by (simp_all add: sample_bus_def bus_subscribe_def new_bus_def registered_def Let_def)
  with r publish_scoped [OF r, of 1 "sample_event 5 7" 0] publish_scoped [OF r, of 1 "sample_event 5 7" 1]
  show ?thesis by simp
qed

end
