(* ===== verification/Replay_Facts.thy ===== *)
theory Replay_Facts
  imports Replay Bus_Registry
begin

text \<open>
  What the replay delivers: the merge is in order and complete up to its horizon, the page of
  receipts is a prefix of the archive's batches, the loop covers the archive up to the watermark
  when its reads are faithful, and the seam with the live stream is at the handover's sequence. Last
  comes the case the page limit does not foresee: a batch as long as a page.
\<close>

section \<open>The merge\<close>

definition in_order :: "('a \<Rightarrow> int) \<Rightarrow> 'a list \<Rightarrow> bool" where
  "in_order sq xs = sorted_wrt (\<lambda>x y. sq x < sq y) xs"

lemma in_order_Nil [simp]: "in_order sq []"
  by (simp add: in_order_def)

lemma in_order_Cons [simp]: "in_order sq (x # xs) \<longleftrightarrow> (\<forall>y\<in>set xs. sq x < sq y) \<and> in_order sq xs"
  by (simp add: in_order_def)

lemma in_order_append:
  "in_order sq (xs @ ys) \<longleftrightarrow> in_order sq xs \<and> in_order sq ys \<and> (\<forall>x\<in>set xs. \<forall>y\<in>set ys. sq x < sq y)"
  by (simp add: in_order_def sorted_wrt_append)

lemma in_order_filter: "in_order sq xs \<Longrightarrow> in_order sq (filter P xs)"
  by (simp add: in_order_def sorted_wrt_filter)

text \<open>The frames of two streams whose sequences satisfy a predicate.\<close>

definition frames_where :: "(int \<Rightarrow> bool) \<Rightarrow> message_row list \<Rightarrow> receipt_batch list \<Rightarrow> frame set" where
  "frames_where P rows acks = MessageFrame ` {r \<in> set rows. P (row_seq r)}
     \<union> ReceiptFrame ` {b \<in> set acks. P (rb_seq b)}"

lemma merge_replay_set:
  "in_order row_seq rows \<Longrightarrow> in_order rb_seq acks \<Longrightarrow>
   set (merge_replay rows acks horizon) = frames_where (\<lambda>n. n \<le> horizon) rows acks"
  by (induction rows acks horizon rule: merge_replay.induct)
    (auto simp: frames_where_def)

lemma merge_replay_seqs:
  "f \<in> set (merge_replay rows acks horizon) \<Longrightarrow> frame_seq f \<in> row_seq ` set rows \<union> rb_seq ` set acks"
  by (induction rows acks horizon rule: merge_replay.induct) (auto split: if_splits)

lemma merge_replay_sorted:
  "in_order row_seq rows \<Longrightarrow> in_order rb_seq acks \<Longrightarrow>
   row_seq ` set rows \<inter> rb_seq ` set acks = {} \<Longrightarrow>
   in_order frame_seq (merge_replay rows acks horizon)"
proof (induction rows acks horizon rule: merge_replay.induct)
  case (2 r rows horizon)
  then show ?case using merge_replay_seqs [of _ rows "[]" horizon] by fastforce
next
  case (3 a acks horizon)
  then show ?case using merge_replay_seqs [of _ "[]" acks horizon] by fastforce
next
  case (4 r rows a acks horizon)
  show ?case
  proof (cases "row_seq r < rb_seq a")
    case True
    then have "row_seq r < n" if "n \<in> row_seq ` set rows \<union> rb_seq ` set (a # acks)" for n
      using that "4.prems"(1,2) by auto
    with merge_replay_seqs [of _ rows "a # acks" horizon]
    have "\<forall>f\<in>set (merge_replay rows (a # acks) horizon). row_seq r < frame_seq f" by blast
    with True 4 show ?thesis by simp
  next
    case False
    then have "rb_seq a < row_seq r" using "4.prems"(3) by auto
    then have "rb_seq a < n" if "n \<in> row_seq ` set (r # rows) \<union> rb_seq ` set acks" for n
      using that "4.prems"(1,2) by auto
    with merge_replay_seqs [of _ "r # rows" acks horizon]
    have "\<forall>f\<in>set (merge_replay (r # rows) acks horizon). rb_seq a < frame_seq f" by blast
    with False 4 show ?thesis by simp
  qed
qed simp

section \<open>The grouping of receipt rows\<close>

function batches :: "receipt_row list \<Rightarrow> receipt_batch list" where
  "batches [] = []"
| "batches (r # rs) = (new_batch r)\<lparr>rb_waids := rr_waid r # map rr_waid (takeWhile (\<lambda>x. rr_seq x = rr_seq r) rs)\<rparr>
     # batches (dropWhile (\<lambda>x. rr_seq x = rr_seq r) rs)"
  by pat_completeness auto
termination by (relation "measure length") (auto simp: less_Suc_eq_le length_dropWhile_le)

lemma foldl_add_row:
  "rev (foldl add_row (b # bs) rows) = rev bs
     @ b\<lparr>rb_waids := rb_waids b @ map rr_waid (takeWhile (\<lambda>x. rr_seq x = rb_seq b) rows)\<rparr>
     # batches (dropWhile (\<lambda>x. rr_seq x = rb_seq b) rows)"
proof (induction rows arbitrary: b bs)
  case (Cons r rows)
  show ?case
    using Cons [of "b\<lparr>rb_waids := rb_waids b @ [rr_waid r]\<rparr>" bs] Cons [of "new_batch r" "b # bs"]
    by (auto simp: new_batch_def)
qed simp

lemma group_rows_batches: "group_rows rows = batches rows"
  by (cases rows) (simp_all add: group_rows_def foldl_add_row new_batch_def)

lemma batches_Nil_iff [simp]: "batches rows = [] \<longleftrightarrow> rows = []"
  by (cases rows) simp_all

lemma batches_seqs: "rb_seq ` set (batches rows) = rr_seq ` set rows"
proof (induction rows rule: batches.induct)
  case (2 r rs)
  have "set rs = set (takeWhile (\<lambda>x. rr_seq x = rr_seq r) rs) \<union> set (dropWhile (\<lambda>x. rr_seq x = rr_seq r) rs)"
    by (metis set_append takeWhile_dropWhile_id)
  then show ?case using 2 by (auto simp: new_batch_def dest: set_takeWhileD)
qed simp

lemma sorted_dropWhile_seq:
  assumes "sorted (map rr_seq (r # rs))" "x \<in> set (dropWhile (\<lambda>x. rr_seq x = rr_seq r) rs)"
  shows "rr_seq r < rr_seq x"
  using assms by (induction rs) (fastforce split: if_splits)+

lemma sorted_drop: "sorted (map f xs) \<Longrightarrow> sorted (map f (dropWhile P xs))"
  by (metis dropWhile_eq_drop drop_map sorted_wrt_drop)

lemma batches_in_order: "sorted (map rr_seq rows) \<Longrightarrow> in_order rb_seq (batches rows)"
proof (induction rows rule: batches.induct)
  case (2 r rs)
  have "rr_seq r < rb_seq b" if "b \<in> set (batches (dropWhile (\<lambda>x. rr_seq x = rr_seq r) rs))" for b
  proof -
    have "rb_seq b \<in> rr_seq ` set (dropWhile (\<lambda>x. rr_seq x = rr_seq r) rs)"
      using that batches_seqs by blast
    with sorted_dropWhile_seq [OF 2(2)] show ?thesis by auto
  qed
  with 2 show ?case by (auto simp: new_batch_def sorted_drop)
qed simp

text \<open>Batches are whole: choosing sequences before or after grouping is the same.\<close>

lemma takeWhile_seq:
  "sorted (map rr_seq (r # rs)) \<Longrightarrow>
   takeWhile (\<lambda>x. rr_seq x = rr_seq r) rs = filter (\<lambda>x. rr_seq x = rr_seq r) rs"
proof (induction rs)
  case (Cons x rs)
  show ?case
  proof (cases "rr_seq x = rr_seq r")
    case False
    with Cons.prems have "filter (\<lambda>x. rr_seq x = rr_seq r) rs = []"
      by (auto simp: filter_empty_conv)
    with False show ?thesis by simp
  qed (use Cons in simp)
qed simp

lemma dropWhile_seq:
  "sorted (map rr_seq (r # rs)) \<Longrightarrow>
   dropWhile (\<lambda>x. rr_seq x = rr_seq r) rs = filter (\<lambda>x. rr_seq x \<noteq> rr_seq r) rs"
proof (induction rs)
  case (Cons x rs)
  show ?case
  proof (cases "rr_seq x = rr_seq r")
    case False
    with Cons.prems have "filter (\<lambda>x. rr_seq x \<noteq> rr_seq r) rs = rs"
      by (fastforce simp: filter_id_conv)
    with False show ?thesis by simp
  qed (use Cons in simp)
qed simp

lemma sorted_filter_seq: "sorted (map rr_seq rows) \<Longrightarrow> sorted (map rr_seq (filter P rows))"
  by (induction rows) auto

lemma batches_filter:
  "sorted (map rr_seq rows) \<Longrightarrow>
   filter (\<lambda>b. P (rb_seq b)) (batches rows) = batches (filter (\<lambda>r. P (rr_seq r)) rows)"
proof (induction rows rule: batches.induct)
  case (2 r rs)
  let ?rest = "dropWhile (\<lambda>x. rr_seq x = rr_seq r) rs"
  note s = "2.prems"
  have rest: "?rest = filter (\<lambda>x. rr_seq x \<noteq> rr_seq r) rs" using dropWhile_seq [OF s] .
  have IH: "filter (\<lambda>b. P (rb_seq b)) (batches ?rest) = batches (filter (\<lambda>r. P (rr_seq r)) ?rest)"
    using 2 by (simp add: sorted_drop)
  show ?case
  proof (cases "P (rr_seq r)")
    case True
    have s': "sorted (map rr_seq (r # filter (\<lambda>x. P (rr_seq x)) rs))"
      using sorted_filter_seq [OF s, of "\<lambda>x. P (rr_seq x)"] True by simp
    have "filter (\<lambda>x. P (rr_seq x)) ?rest
        = filter (\<lambda>x. rr_seq x \<noteq> rr_seq r) (filter (\<lambda>x. P (rr_seq x)) rs)"
      unfolding rest by (simp add: conj_commute)
    moreover have "filter (\<lambda>x. rr_seq x = rr_seq r) (filter (\<lambda>x. P (rr_seq x)) rs)
        = filter (\<lambda>x. rr_seq x = rr_seq r) rs"
      using True by (auto intro: filter_cong)
    ultimately show ?thesis
      using True IH takeWhile_seq [OF s] takeWhile_seq [OF s'] dropWhile_seq [OF s']
      by (simp add: new_batch_def)
  next
    case False
    have "filter (\<lambda>x. P (rr_seq x)) ?rest = filter (\<lambda>x. P (rr_seq x)) rs"
      unfolding rest using False by (auto intro: filter_cong)
    with False IH show ?thesis by (simp add: new_batch_def)
  qed
qed simp

lemma batches_one:
  "sorted (map rr_seq rows) \<Longrightarrow> batches rows = [b] \<Longrightarrow> length (rb_waids b) = length rows"
proof (cases rows)
  case (Cons r rs)
  assume "sorted (map rr_seq rows)" "batches rows = [b]"
  with Cons have "dropWhile (\<lambda>x. rr_seq x = rr_seq r) rs = []" by simp
  then have "takeWhile (\<lambda>x. rr_seq x = rr_seq r) rs = rs"
    by (metis append.right_neutral takeWhile_dropWhile_id)
  with \<open>batches rows = [b]\<close> Cons show ?thesis by auto
qed simp

lemma in_order_butlast:
  "in_order sq xs \<Longrightarrow> filter (\<lambda>x. sq x < sq (last xs)) xs = butlast xs"
proof (cases xs rule: rev_cases)
  case (snoc ys y)
  assume "in_order sq xs"
  with snoc have "\<forall>x\<in>set ys. sq x < sq y" by (simp add: in_order_append)
  with snoc show ?thesis by (auto simp: filter_id_conv)
qed simp

text \<open>A page of receipts is the archive's batches above the cursor, all of them or, when it says it was
  cut, the ones below some sequence. It needs every batch to be shorter than the page.\<close>

lemma receipts_since_page:
  assumes sorted: "sorted (map rr_seq R)" and limit: "0 < limit"
    and short: "list_all (\<lambda>b. length (rb_waids b) < limit) (batches R)"
    and page: "receipts_since R since limit = (acks, truncated)"
  shows "(\<not> truncated \<and> acks = filter (\<lambda>b. since < rb_seq b) (batches R))
    \<or> (truncated \<and> acks \<noteq> [] \<and> (\<exists>L. acks = filter (\<lambda>b. since < rb_seq b \<and> rb_seq b < L) (batches R)))"
proof -
  define F where "F = filter (\<lambda>r. since < rr_seq r) R"
  define rows where "rows = take limit F"
  have sF: "sorted (map rr_seq F)" unfolding F_def by (rule sorted_filter_seq [OF sorted])
  have bF: "batches F = filter (\<lambda>b. since < rb_seq b) (batches R)"
    unfolding F_def by (rule batches_filter [OF sorted, symmetric])
  have srows: "sorted (map rr_seq rows)"
    unfolding rows_def take_map [symmetric] by (rule sorted_wrt_take [OF sF])
  have res: "(acks, truncated) = (if length rows = limit \<and> 1 < length (batches rows)
      then (butlast (batches rows), True) else (batches rows, False))"
    using page unfolding receipts_since_def Let_def group_rows_batches rows_def F_def by (rule sym)
  consider "length rows \<noteq> limit" | "length rows = limit" "length (batches rows) \<le> 1"
    | "length rows = limit" "1 < length (batches rows)" by linarith
  then show ?thesis
  proof cases
    case 1
    then have "rows = F" by (simp add: rows_def min_def split: if_splits)
    with 1 res bF show ?thesis by (simp split: if_splits)
  next
    case 2
    with limit obtain r rest where rows: "rows = r # rest" by (cases rows) auto
    with 2 have "dropWhile (\<lambda>x. rr_seq x = rr_seq r) rest = []" by simp
    then have same: "takeWhile (\<lambda>x. rr_seq x = rr_seq r) rest = rest"
      by (metis append.right_neutral takeWhile_dropWhile_id)
    have F: "F = r # rest @ drop limit F"
      by (metis append_Cons append_take_drop_id rows rows_def)
    obtain b bs where b: "batches F = b # bs" "limit \<le> length (rb_waids b)"
    proof
      let ?w = "takeWhile (\<lambda>x. rr_seq x = rr_seq r) (rest @ drop limit F)"
      have "length rest \<le> length ?w" using same
        by (metis takeWhile_append2 takeWhile_eq_all_conv le_add1 length_append)
      then show "limit \<le> length (rb_waids ((new_batch r)\<lparr>rb_waids := rr_waid r # map rr_waid ?w\<rparr>))"
        using 2 rows by simp
      show "batches F = (new_batch r)\<lparr>rb_waids := rr_waid r # map rr_waid ?w\<rparr>
          # batches (dropWhile (\<lambda>x. rr_seq x = rr_seq r) (rest @ drop limit F))"
        by (subst F) simp
    qed
    have "b \<in> set (filter (\<lambda>b. since < rb_seq b) (batches R))" unfolding bF [symmetric] b(1) by simp
    with short b(2) show ?thesis by (auto simp: list_all_iff)
  next
    case 3
    define L where "L = rb_seq (last (batches rows))"
    have ne: "batches rows \<noteq> []" using 3 by auto
    have ord: "in_order rb_seq (batches rows)" by (rule batches_in_order [OF srows])
    have "L \<in> rr_seq ` set rows"
      using batches_seqs [of rows] last_in_set [OF ne] unfolding L_def by blast
    then obtain q where q: "q \<in> set rows" "L = rr_seq q" by blast
    have F: "F = rows @ drop limit F" by (simp add: rows_def)
    have "sorted (map rr_seq (rows @ drop limit F))" using sF F by simp
    with q have "\<not> rr_seq r < L" if "r \<in> set (drop limit F)" for r
      using that by (auto simp: sorted_append not_less)
    then have "filter (\<lambda>r. rr_seq r < L) (drop limit F) = []" by (simp add: filter_empty_conv)
    then have "filter (\<lambda>r. rr_seq r < L) F = filter (\<lambda>r. rr_seq r < L) rows"
      by (metis F append_Nil2 filter_append)
    then have "filter (\<lambda>b. rb_seq b < L) (batches F) = filter (\<lambda>b. rb_seq b < L) (batches rows)"
      by (simp only: batches_filter [OF srows, where P = "\<lambda>n. n < L"] batches_filter [OF sF, where P = "\<lambda>n. n < L"])
    then have "butlast (batches rows) = filter (\<lambda>b. rb_seq b < L) (batches F)"
      using in_order_butlast [OF ord] by (simp only: L_def)
    moreover have "butlast (batches rows) \<noteq> []"
      using 3 by (metis One_nat_def length_butlast length_greater_0_conv zero_less_diff)
    moreover have "truncated" "acks = butlast (batches rows)" using res 3 by simp_all
    moreover have "filter (\<lambda>b. rb_seq b < L) (batches F)
        = filter (\<lambda>b. since < rb_seq b \<and> rb_seq b < L) (batches R)"
      unfolding bF filter_filter by (simp add: conj_commute)
    ultimately show ?thesis by metis
  qed
qed

section \<open>One round of the loop\<close>

text \<open>The archive a replay owes: every message and every whole batch with a sequence in the given
  range, in sequence order.\<close>

definition archive_frames :: "int \<Rightarrow> int \<Rightarrow> message_row list \<Rightarrow> receipt_row list \<Rightarrow> frame list" where
  "archive_frames a b M R = merge_replay (filter (\<lambda>r. a < row_seq r \<and> row_seq r \<le> b) M)
     (filter (\<lambda>x. a < rb_seq x \<and> rb_seq x \<le> b) (batches R)) b"

text \<open>What the tables guarantee: rows in sequence order, one sequence never in both tables, and no
  batch as long as a page.\<close>

definition archive_ok :: "message_row list \<Rightarrow> receipt_row list \<Rightarrow> bool" where
  "archive_ok M R \<longleftrightarrow> in_order row_seq M \<and> sorted (map rr_seq R)
     \<and> row_seq ` set M \<inter> rr_seq ` set R = {}
     \<and> list_all (\<lambda>b. length (rb_waids b) < replay_page) (batches R)"

lemma in_order_unique:
  "in_order sq xs \<Longrightarrow> in_order sq ys \<Longrightarrow> set xs = set ys \<Longrightarrow> xs = ys"
proof (induction xs arbitrary: ys)
  case (Cons x xs)
  then obtain y ys' where ys: "ys = y # ys'" by (cases ys) auto
  have "x \<in> set ys" "y \<in> set (x # xs)" using Cons.prems(3) ys by auto
  then have "x = y" using Cons.prems(1,2) ys by (auto dest: order.asym)
  moreover have "x \<notin> set xs" "y \<notin> set ys'" using Cons.prems(1,2) ys by auto
  ultimately have "set xs = set ys'" using Cons.prems(3) ys by auto
  with Cons \<open>x = y\<close> ys show ?case by simp
qed simp

lemma archive_batches:
  assumes "archive_ok M R"
  shows "in_order rb_seq (batches R)" "row_seq ` set M \<inter> rb_seq ` set (batches R) = {}"
  using assms batches_in_order [of R] batches_seqs [of R] by (simp_all add: archive_ok_def)

lemma frames_where_iff [simp]:
  "MessageFrame r \<in> frames_where P M B \<longleftrightarrow> r \<in> set M \<and> P (row_seq r)"
  "ReceiptFrame b \<in> frames_where P M B \<longleftrightarrow> b \<in> set B \<and> P (rb_seq b)"
  by (auto simp: frames_where_def)

lemma disjoint_image: "f ` A \<inter> g ` B = {} \<Longrightarrow> f x = g y \<Longrightarrow> x \<in> A \<Longrightarrow> y \<in> B \<Longrightarrow> False"
  by (metis disjoint_iff image_eqI)

lemma archive_frames_facts:
  assumes "archive_ok M R"
  shows "in_order frame_seq (archive_frames a b M R)"
    "set (archive_frames a b M R) = frames_where (\<lambda>n. a < n \<and> n \<le> b) M (batches R)"
proof -
  note [simp] = archive_batches [OF assms]
  have [simp]: "in_order row_seq M" using assms by (simp add: archive_ok_def)
  show "in_order frame_seq (archive_frames a b M R)"
    unfolding archive_frames_def
    by (rule merge_replay_sorted)
      (use disjoint_image [OF archive_batches(2) [OF assms]] in \<open>auto intro: in_order_filter\<close>)
  show "set (archive_frames a b M R) = frames_where (\<lambda>n. a < n \<and> n \<le> b) M (batches R)"
    unfolding archive_frames_def
    by (subst merge_replay_set) (auto intro: in_order_filter simp: frames_where_def)
qed

lemma frames_seq_range: "f \<in> frames_where P M B \<Longrightarrow> P (frame_seq f)"
  by (auto simp: frames_where_def)

lemma archive_frames_append:
  assumes "archive_ok M R" "a \<le> b" "b \<le> c"
  shows "archive_frames a b M R @ archive_frames b c M R = archive_frames a c M R"
proof (rule in_order_unique [of frame_seq])
  note facts = archive_frames_facts [OF assms(1)]
  show "in_order frame_seq (archive_frames a b M R @ archive_frames b c M R)"
    unfolding in_order_append facts(2) using facts(1) by (auto dest!: frames_seq_range)
  show "set (archive_frames a b M R @ archive_frames b c M R) = set (archive_frames a c M R)"
  proof (rule set_eqI)
    fix f
    show "f \<in> set (archive_frames a b M R @ archive_frames b c M R) \<longleftrightarrow> f \<in> set (archive_frames a c M R)"
      using assms by (cases f) (auto simp: facts(2))
  qed
qed (rule archive_frames_facts(1) [OF assms(1)])

lemma filter_below:
  fixes w :: int
  shows "b \<le> w \<Longrightarrow> filter (\<lambda>x. a < g x \<and> g x \<le> b) (filter (\<lambda>x. g x \<le> w) xs) = filter (\<lambda>x. a < g x \<and> g x \<le> b) xs"
  by (induction xs) auto

lemma archive_frames_below:
  assumes "sorted (map rr_seq R)" "b \<le> w"
  shows "archive_frames a b (filter (\<lambda>r. row_seq r \<le> w) M) (filter (\<lambda>r. rr_seq r \<le> w) R)
    = archive_frames a b M R"
  unfolding archive_frames_def batches_filter [OF assms(1), of "\<lambda>n. n \<le> w", symmetric]
    filter_below [OF assms(2)] ..

text \<open>A page of messages is the table above the cursor, cut at its last sequence when it is full.\<close>

lemma messages_since_page:
  assumes "in_order row_seq M" "rows = messages_since M since n"
  shows "rows = filter (\<lambda>r. since < row_seq r) M
    \<or> (length rows = n \<and> (rows \<noteq> [] \<longrightarrow>
        rows = filter (\<lambda>r. since < row_seq r \<and> row_seq r \<le> row_seq (last rows)) M))"
proof (cases "length (filter (\<lambda>r. since < row_seq r) M) \<le> n")
  case False
  let ?F = "filter (\<lambda>r. since < row_seq r) M"
  have ord: "in_order row_seq (rows @ drop n ?F)"
    using assms by (simp add: messages_since_def in_order_filter)
  have F: "?F = rows @ drop n ?F" using assms(2) by (simp add: messages_since_def)
  have "rows = filter (\<lambda>r. row_seq r \<le> row_seq (last rows)) ?F" if "rows \<noteq> []"
  proof -
    have "row_seq r \<le> row_seq (last rows)" if "r \<in> set rows" for r
      using ord that \<open>rows \<noteq> []\<close>
      by (cases rows rule: rev_cases) (auto simp: in_order_append intro: less_imp_le)
    moreover have "row_seq (last rows) < row_seq r" if "r \<in> set (drop n ?F)" for r
      using ord that last_in_set [OF \<open>rows \<noteq> []\<close>] by (auto simp: in_order_append)
    ultimately show ?thesis
      by (subst F) (auto simp: filter_id_conv filter_empty_conv not_le)
  qed
  then show ?thesis using False assms(2) by (auto simp: messages_since_def)
qed (simp add: assms(2) messages_since_def)

text \<open>So one round reads past the cursor, never past the watermark, and its merge is exactly the archive
  between the two; when both reads are empty there is nothing above the cursor at all.\<close>

lemma round_reads:
  assumes ok: "archive_ok M R" and lt: "since < watermark"
    and acks: "receipts_since R since replay_page = (acks, truncated)"
    and rows: "rows = messages_since M since replay_page"
    and h: "h = replay_horizon watermark rows acks truncated"
  shows "since < h" "h \<le> watermark" "merge_replay rows acks h = archive_frames since h M R"
proof -
  have ordM: "in_order row_seq M" and sR: "sorted (map rr_seq R)" using ok by (simp_all add: archive_ok_def)
  have page: "(\<not> truncated \<and> acks = filter (\<lambda>b. since < rb_seq b) (batches R))
    \<or> (truncated \<and> acks \<noteq> [] \<and> (\<exists>L. acks = filter (\<lambda>b. since < rb_seq b \<and> rb_seq b < L) (batches R)))"
    using receipts_since_page [OF sR _ _ acks] ok by (simp add: archive_ok_def replay_page_def)
  have rows_sub: "r \<in> set M \<and> since < row_seq r" if "r \<in> set rows" for r
    using that by (auto simp: rows messages_since_def dest: in_set_takeD)
  have acks_sub: "b \<in> set (batches R) \<and> since < rb_seq b" if "b \<in> set acks" for b
    using that page by auto
  show "h \<le> watermark" by (auto simp: h replay_horizon_def Let_def)
  show "since < h"
    using lt rows_sub acks_sub by (auto simp: h replay_horizon_def Let_def)
  have in_rows: "r \<in> set rows" if "r \<in> set M" "since < row_seq r" "row_seq r \<le> h" for r
  proof (cases "rows = filter (\<lambda>r. since < row_seq r) M")
    case False
    with messages_since_page [OF ordM rows] have full: "length rows = replay_page"
      "rows \<noteq> [] \<Longrightarrow> rows = filter (\<lambda>r. since < row_seq r \<and> row_seq r \<le> row_seq (last rows)) M" by auto
    then have "rows \<noteq> []" by (auto simp: replay_page_def)
    moreover have "h \<le> row_seq (last rows)" using full(1) \<open>rows \<noteq> []\<close> by (auto simp: h replay_horizon_def Let_def)
    ultimately have "r \<in> set (filter (\<lambda>r. since < row_seq r \<and> row_seq r \<le> row_seq (last rows)) M)"
      using that by simp
    then show ?thesis using full(2) [OF \<open>rows \<noteq> []\<close>] by simp
  qed (use that in simp)
  have in_acks: "b \<in> set acks" if "b \<in> set (batches R)" "since < rb_seq b" "rb_seq b \<le> h" for b
  proof (cases truncated)
    case True
    with page obtain L where L: "acks \<noteq> []" "acks = filter (\<lambda>b. since < rb_seq b \<and> rb_seq b < L) (batches R)"
      by auto
    then have "rb_seq (last acks) < L" using last_in_set [OF L(1)] by auto
    moreover have "h \<le> rb_seq (last acks)" using True L(1) by (simp add: h replay_horizon_def Let_def)
    ultimately have "b \<in> set (filter (\<lambda>b. since < rb_seq b \<and> rb_seq b < L) (batches R))" using that by simp
    then show ?thesis using L(2) by simp
  qed (use that page in simp)
  have ord: "in_order row_seq rows" "in_order rb_seq acks"
  proof -
    show "in_order row_seq rows"
      using in_order_filter [OF ordM, of "\<lambda>r. since < row_seq r"]
      unfolding rows messages_since_def in_order_def by (rule sorted_wrt_take)
    show "in_order rb_seq acks" using page in_order_filter [OF archive_batches(1) [OF ok]] by auto
  qed
  have disj: "row_seq ` set rows \<inter> rb_seq ` set acks = {}"
    using archive_batches(2) [OF ok] rows_sub acks_sub by fastforce
  show "merge_replay rows acks h = archive_frames since h M R"
  proof (rule in_order_unique [OF merge_replay_sorted [OF ord disj] archive_frames_facts(1) [OF ok]], rule set_eqI)
    fix f
    show "f \<in> set (merge_replay rows acks h) \<longleftrightarrow> f \<in> set (archive_frames since h M R)"
      unfolding merge_replay_set [OF ord] archive_frames_facts(2) [OF ok]
      using in_rows in_acks rows_sub acks_sub by (cases f) auto
  qed
qed

lemma round_empty:
  assumes "archive_ok M R" "receipts_since R since replay_page = ([], truncated)"
    and "messages_since M since replay_page = []"
  shows "archive_frames since watermark M R = []"
proof -
  have "[] = filter (\<lambda>b. since < rb_seq b) (batches R)"
    using receipts_since_page [OF _ _ _ assms(2)] assms(1) by (auto simp: archive_ok_def replay_page_def)
  then have "\<not> since < rb_seq b" if "b \<in> set (batches R)" for b
    using that by (metis filter_empty_conv)
  moreover have "\<not> since < row_seq r" if "r \<in> set M" for r
    using assms(3) that by (auto simp: messages_since_def replay_page_def filter_empty_conv)
  ultimately have "set (archive_frames since watermark M R) = {}"
    unfolding archive_frames_facts(2) [OF assms(1)] frames_where_def by auto
  then show ?thesis by simp
qed

section \<open>The whole loop\<close>

text \<open>The reads of round \<open>k\<close> see the tables as they are then: they may have grown, but not at or below the
  watermark (sequences are allocated under a row lock held to commit).\<close>

definition faithful_reads ::
  "replay_env \<Rightarrow> int \<Rightarrow> (nat \<Rightarrow> message_row list) \<Rightarrow> (nat \<Rightarrow> receipt_row list) \<Rightarrow> bool" where
  "faithful_reads env watermark Ms Rs \<longleftrightarrow> (\<forall>k. archive_ok (Ms k) (Rs k)
     \<and> (\<forall>since. env_rows env k since = Some (messages_since (Ms k) since replay_page)
          \<and> env_acks env k since = Some (receipts_since (Rs k) since replay_page))
     \<and> filter (\<lambda>r. row_seq r \<le> watermark) (Ms k) = filter (\<lambda>r. row_seq r \<le> watermark) (Ms 0)
     \<and> filter (\<lambda>r. rr_seq r \<le> watermark) (Rs k) = filter (\<lambda>r. rr_seq r \<le> watermark) (Rs 0))"

lemma faithful_frames:
  assumes "faithful_reads env watermark Ms Rs" "b \<le> watermark"
  shows "archive_frames a b (Ms k) (Rs k) = archive_frames a b (Ms 0) (Rs 0)"
proof -
  have "sorted (map rr_seq (Rs j))" for j using assms(1) by (simp add: faithful_reads_def archive_ok_def)
  from archive_frames_below [OF this assms(2)] assms(1) show ?thesis
    unfolding faithful_reads_def by metis
qed

lemma push_all:
  assumes "\<And>f. env_push env f" "\<not> rp_gone st"
  shows "fold (push_frame env) fs st = st\<lparr>rp_frames := rp_frames st @ filter (env_allows env) fs,
    rp_sent := rp_sent st + length (filter (env_allows env) fs)\<rparr>"
  using assms by (induction fs arbitrary: st) (simp_all add: push_frame_def)

lemma replay_loop_complete:
  assumes faithful: "faithful_reads env watermark Ms Rs"
    and up: "\<And>k. \<not> env_ended env k" "\<And>f. env_push env f"
    and st: "\<not> rp_gone st"
  shows "let st' = replay_loop env k watermark st;
             fs = filter (env_allows env) (archive_frames (rp_last st) watermark (Ms 0) (Rs 0))
         in rp_frames st' = rp_frames st @ fs \<and> rp_sent st' = rp_sent st + length fs \<and> \<not> rp_gone st'
            \<and> rp_last st \<le> rp_last st' \<and> rp_last st' \<le> max (rp_last st) watermark
            \<and> archive_frames (rp_last st') watermark (Ms 0) (Rs 0) = []"
  using st
proof (induction "nat (watermark - rp_last st)" arbitrary: k st rule: less_induct)
  case less
  let ?A = "\<lambda>a b. archive_frames a b (Ms 0) (Rs 0)"
  obtain acks truncated where acks: "receipts_since (Rs k) (rp_last st) replay_page = (acks, truncated)"
    by fastforce
  define rows where "rows = messages_since (Ms k) (rp_last st) replay_page"
  define h where "h = replay_horizon watermark rows acks truncated"
  have ok: "archive_ok (Ms k) (Rs k)" "archive_ok (Ms 0) (Rs 0)"
    and reads: "env_rows env k (rp_last st) = Some rows" "env_acks env k (rp_last st) = Some (acks, truncated)"
    using faithful acks by (simp_all add: faithful_reads_def rows_def)
  show ?case
  proof (cases "rp_last st < watermark")
    case False
    then have "set (?A (rp_last st) watermark) = {}"
      unfolding archive_frames_facts(2) [OF ok(2)] frames_where_def by auto
    with False less.prems show ?thesis by (subst replay_loop.simps) (simp add: Let_def)
  next
    case lt: True
    show ?thesis
    proof (cases "rows = [] \<and> acks = []")
      case True
      with round_empty [OF ok(1), of "rp_last st" truncated watermark] acks rows_def
        faithful_frames [OF faithful, of watermark "rp_last st" k]
      have "?A (rp_last st) watermark = []" by simp
      with True less.prems reads lt up show ?thesis by (subst replay_loop.simps) (simp add: Let_def)
    next
      case False
      note rd = round_reads [OF ok(1) lt acks rows_def h_def]
      define st2 where "st2 = (fold (push_frame env) (merge_replay rows acks h) st)\<lparr>rp_last := h\<rparr>"
      have merge: "merge_replay rows acks h = ?A (rp_last st) h"
        using rd(3) faithful_frames [OF faithful rd(2)] by simp
      have st2: "rp_frames st2 = rp_frames st @ filter (env_allows env) (?A (rp_last st) h)"
        "rp_sent st2 = rp_sent st + length (filter (env_allows env) (?A (rp_last st) h))"
        "rp_last st2 = h" "\<not> rp_gone st2"
        using less.prems unfolding st2_def push_all [OF up(2) less.prems] merge by simp_all
      have step: "replay_loop env k watermark st = replay_loop env (Suc k) watermark st2"
        using lt False reads up less.prems rd(1)
        by (subst replay_loop.simps) (auto simp: st2_def h_def Let_def)
      have "nat (watermark - rp_last st2) < nat (watermark - rp_last st)" using st2 rd lt by simp
      from less.hyps [OF this st2(4), of "Suc k"]
        archive_frames_append [OF ok(2) less_imp_le [OF rd(1)] rd(2), symmetric] rd(1,2) lt
      show ?thesis unfolding step Let_def st2(1,2,3) by auto
    qed
  qed
qed

section \<open>Sample archives for the witnesses\<close>

definition sample_row :: "int \<Rightarrow> uuid \<Rightarrow> message_row" where
  "sample_row n dev = \<lparr>row_seq = n, row_device = dev, row_uid = nat n\<rparr>"

definition sample_receipt :: "int \<Rightarrow> string \<Rightarrow> receipt_row" where
  "sample_receipt n i = \<lparr>rr_seq = n, rr_device = 7, rr_chat_key = ''c'', rr_waid = i,
     rr_reader_key = ''k'', rr_reader_lid = [], rr_reader_pn = [], rr_is_from_me = False,
     rr_kind = ''read'', rr_ts = 1\<rparr>"

definition sample_env :: "(nat \<Rightarrow> message_row list) \<Rightarrow> (nat \<Rightarrow> receipt_row list) \<Rightarrow> replay_env" where
  "sample_env Ms Rs = \<lparr>env_ended = \<lambda>k. False,
     env_rows = \<lambda>k since. Some (messages_since (Ms k) since replay_page),
     env_acks = \<lambda>k since. Some (receipts_since (Rs k) since replay_page),
     env_allows = \<lambda>f. frame_device f \<noteq> 8, env_push = \<lambda>f. True\<rparr>"

lemma sample_env_simps [simp]:
  "\<not> env_ended (sample_env Ms Rs) k" "env_push (sample_env Ms Rs) f"
  "env_allows (sample_env Ms Rs) f \<longleftrightarrow> frame_device f \<noteq> 8"
  "env_rows (sample_env Ms Rs) k since = Some (messages_since (Ms k) since replay_page)"
  "env_acks (sample_env Ms Rs) k since = Some (receipts_since (Rs k) since replay_page)"
  "row_seq (sample_row n dev) = n" "row_device (sample_row n dev) = dev"
  "rr_seq (sample_receipt n i) = n" "rr_waid (sample_receipt n i) = i" "rr_device (sample_receipt n i) = 7"
  by (simp_all add: sample_env_def sample_row_def sample_receipt_def)

text \<open>Three messages, one of them of the number the subscription does not allow, and one read receipt of
  two messages; a fourth message arrives while the replay runs.\<close>

definition sample_Ms :: "nat \<Rightarrow> message_row list" where
  "sample_Ms k = [sample_row 1 7, sample_row 3 8, sample_row 4 7] @ (if k = 0 then [] else [sample_row 5 7])"

definition sample_Rs :: "nat \<Rightarrow> receipt_row list" where
  "sample_Rs k = [sample_receipt 2 ''a'', sample_receipt 2 ''b'']"

lemma sample_faithful: "faithful_reads (sample_env sample_Ms sample_Rs) 4 sample_Ms sample_Rs"
  by (simp add: faithful_reads_def archive_ok_def sample_Ms_def sample_Rs_def replay_page_def in_order_def
      new_batch_def)

section \<open>Properties of the replay\<close>

text \<open>The merge is in sequence order and complete up to its horizon. From two streams in sequence order
  that share no sequence it emits exactly the messages and receipt batches at or below the horizon,
  each once, in strictly increasing sequence.\<close>

theorem merge_complete_in_order:
  assumes "sorted_wrt (<) (map row_seq rows)" "sorted_wrt (<) (map rb_seq acks)"
    and "row_seq ` set rows \<inter> rb_seq ` set acks = {}"
  shows "sorted_wrt (<) (map frame_seq (merge_replay rows acks horizon))
    \<and> set (merge_replay rows acks horizon)
        = MessageFrame ` {r \<in> set rows. row_seq r \<le> horizon}
          \<union> ReceiptFrame ` {b \<in> set acks. rb_seq b \<le> horizon}"
proof -
  have "in_order row_seq rows" "in_order rb_seq acks"
    using assms(1,2) by (simp_all add: in_order_def sorted_wrt_map)
  with merge_replay_sorted [OF this assms(3)] merge_replay_set [OF this] show ?thesis
    by (simp add: in_order_def sorted_wrt_map frames_where_def)
qed

theorem merge_complete_in_order_witness:
  "map frame_seq (merge_replay [sample_row 1 7, sample_row 3 7] (batches [sample_receipt 2 ''a'', sample_receipt 5 ''b'']) 4)
     = [1, 2, 3]
   \<and> sorted_wrt (<) (map frame_seq (merge_replay [sample_row 1 7, sample_row 3 7]
        (batches [sample_receipt 2 ''a'', sample_receipt 5 ''b'']) 4))"
  using merge_complete_in_order [of "[sample_row 1 7, sample_row 3 7]"
      "batches [sample_receipt 2 ''a'', sample_receipt 5 ''b'']" 4]
  by (simp add: new_batch_def)

text \<open>C1: The replay is complete and in order. When every read of the loop returns what the tables hold, the
  client is connected throughout and no receipt batch is as long as a page, the frames sent are
  exactly the messages and whole receipt batches above the cursor and at or below the watermark
  that the subscription allows, each once and in sequence order, over however many pages.\<close>

theorem replay_complete:
  assumes "faithful_reads env watermark Ms Rs"
    and "\<And>k. \<not> env_ended env k" "\<And>f. env_push env f"
  shows "let st = replay_loop env 0 watermark (start_replay since)
         in sorted_wrt (<) (map frame_seq (rp_frames st))
          \<and> set (rp_frames st) = Collect (env_allows env)
             \<inter> (MessageFrame ` {r \<in> set (Ms 0). since < row_seq r \<and> row_seq r \<le> watermark}
                \<union> ReceiptFrame ` {b \<in> set (group_rows (Rs 0)). since < rb_seq b \<and> rb_seq b \<le> watermark})
          \<and> rp_sent st = length (rp_frames st) \<and> \<not> rp_gone st"
proof -
  have ok: "archive_ok (Ms 0) (Rs 0)" using assms(1) by (simp add: faithful_reads_def)
  have "\<not> rp_gone (start_replay since)" by (simp add: start_replay_def)
  from replay_loop_complete [OF assms this, of 0] archive_frames_facts [OF ok, of since watermark]
  show ?thesis
    by (auto simp: Let_def start_replay_def in_order_def sorted_wrt_map sorted_wrt_filter frames_where_def
        group_rows_batches)
qed

theorem replay_complete_witness:
  "MessageFrame (sample_row 4 7)
     \<in> set (rp_frames (replay_loop (sample_env sample_Ms sample_Rs) 0 4 (start_replay 0)))
   \<and> MessageFrame (sample_row 3 8)
     \<notin> set (rp_frames (replay_loop (sample_env sample_Ms sample_Rs) 0 4 (start_replay 0)))"
  using replay_complete [OF sample_faithful, of 0] by (simp add: Let_def sample_Ms_def)

text \<open>C2: The seam between archive and live stream. A subscription captures live events while the archive is
  replayed and is handed over at the sequence the replay reached. When every read of the loop returns what the
  tables hold, the client is connected throughout, no receipt batch is as long as a page, and the events captured
  fit the queue, the seam delivers nothing twice and loses nothing: every frame sent lies above the cursor and at
  or below the handover, the frames sent are exactly the archived ones up to the watermark that the subscription
  allows, and the live queue then holds exactly the captured events above the handover. A batch as long as a page
  loses receipts, as \<open>long_batch_hides_receipts\<close> below shows.\<close>

theorem replay_live_seam:
  assumes "faithful_reads env watermark Ms Rs"
    and "\<And>k. \<not> env_ended env k" "\<And>f. env_push env f"
    and "length (filter (bus_wanted (new_subscription tenant flt)) es) \<le> queue_depth"
  shows "let st = replay_loop env 0 watermark (start_replay since);
             q = sub_queue (end_replay (rp_last st) (fold offer es (new_subscription tenant flt)))
         in list_all (\<lambda>f. since < frame_seq f \<and> frame_seq f \<le> rp_last st) (rp_frames st)
          \<and> {f \<in> set (archive_frames since watermark (Ms 0) (Rs 0)). env_allows env f} = set (rp_frames st)
          \<and> q = filter (\<lambda>e. bus_wanted (new_subscription tenant flt) e \<and> rp_last st < ev_seq e) es"
proof -
  let ?st = "replay_loop env 0 watermark (start_replay since)"
  let ?A = "\<lambda>a b. archive_frames a b (Ms 0) (Rs 0)"
  have ok: "archive_ok (Ms 0) (Rs 0)" using assms(1) by (simp add: faithful_reads_def)
  have "\<not> rp_gone (start_replay since)" by (simp add: start_replay_def)
  from replay_loop_complete [OF assms(1-3) this, of 0] have fin:
    "rp_frames ?st = filter (env_allows env) (?A since watermark)" "since \<le> rp_last ?st"
    "rp_last ?st \<le> max since watermark" "?A (rp_last ?st) watermark = []"
    by (simp_all add: Let_def start_replay_def)
  have "since < frame_seq f \<and> frame_seq f \<le> rp_last ?st" if "f \<in> set (rp_frames ?st)" for f
  proof -
    have f: "f \<in> set (?A since watermark)" using that fin(1) by simp
    then have r: "since < frame_seq f" "frame_seq f \<le> watermark"
      unfolding archive_frames_facts(2) [OF ok] by (auto dest: frames_seq_range)
    with fin(3) have "rp_last ?st \<le> watermark" by simp
    from archive_frames_append [OF ok fin(2) this] f fin(4)
    have "f \<in> set (?A since (rp_last ?st))" by (metis append_Nil2)
    with r(1) show ?thesis unfolding archive_frames_facts(2) [OF ok] by (auto dest: frames_seq_range)
  qed
  moreover have "sub_queue (end_replay n (fold offer es (new_subscription tenant flt)))
      = filter (\<lambda>e. bus_wanted (new_subscription tenant flt) e \<and> n < ev_seq e) es" for n
    using bus_live.handed_over(1) [OF bus_holding_new _ assms(4)] by (simp add: new_subscription_def)
  ultimately show ?thesis using fin(1) by (auto simp: Let_def list_all_iff)
qed

theorem replay_live_seam_witness:
  "sub_queue (end_replay (rp_last (replay_loop (sample_env sample_Ms sample_Rs) 0 4 (start_replay 0)))
     (fold offer [sample_event 3 8, sample_event 5 7] (new_subscription 1 sample_filter)))
   = filter (\<lambda>e. rp_last (replay_loop (sample_env sample_Ms sample_Rs) 0 4 (start_replay 0)) < ev_seq e)
       [sample_event 3 8, sample_event 5 7]"
  using replay_live_seam [OF sample_faithful, of 1 sample_filter "[sample_event 3 8, sample_event 5 7]" 0]
  by (simp add: Let_def bus_wanted_def new_subscription_def sample_filter_def filter_allows_def queue_depth_def
      split: if_splits)

text \<open>A receipt batch as long as a page hides what follows it. When the first batch above the cursor
  has at least 500 ids and the message page is not full, the read returns its first 500 ids as if
  they were the batch, reports no truncation, and the replay then claims to be caught up to the
  watermark: the batch's other ids and every later receipt up to the watermark are never sent.\<close>

theorem long_batch_hides_receipts:
  assumes "list_all (\<lambda>r. rr_seq r = n) long" "replay_page \<le> length long"
    and "since < n" "n \<le> watermark" "sorted (map rr_seq (long @ later))"
    and "env_rows env 0 since = Some []"
    and "env_acks env 0 since = Some (receipts_since (long @ later) since replay_page)"
    and "\<And>k. \<not> env_ended env k" "\<And>f. env_push env f"
    and "env_allows env (ReceiptFrame ((new_batch (hd long))\<lparr>rb_waids := map rr_waid (take replay_page long)\<rparr>))"
  shows "let st = replay_loop env 0 watermark (start_replay since)
         in rp_frames st = [ReceiptFrame ((new_batch (hd long))\<lparr>rb_waids := map rr_waid (take replay_page long)\<rparr>)]
          \<and> rp_last st = watermark"
proof -
  obtain r rest where long: "long = r # rest" using assms(2) by (cases long) (auto simp: replay_page_def)
  let ?rows = "take replay_page long"
  let ?b = "(new_batch r)\<lparr>rb_waids := map rr_waid ?rows\<rparr>"
  have all: "rr_seq x = n" if "x \<in> set long" for x using assms(1) that by (auto simp: list_all_iff)
  have "filter (\<lambda>r. since < rr_seq r) long = long" using all assms(3) by (auto simp: filter_id_conv)
  then have rows: "take replay_page (filter (\<lambda>r. since < rr_seq r) (long @ later)) = ?rows"
    using assms(2) by simp
  obtain rest' where rows': "?rows = r # rest'" "set rest' \<subseteq> set long"
    using long by (cases replay_page) (auto simp: replay_page_def dest: in_set_takeD)
  have same: "rr_seq x = rr_seq r" if "x \<in> set rest'" for x
    using all that rows'(2) long by auto
  then have tw: "takeWhile (\<lambda>x. rr_seq x = rr_seq r) rest' = rest'"
    and dw: "dropWhile (\<lambda>x. rr_seq x = rr_seq r) rest' = []"
    by (auto simp: takeWhile_eq_all_conv)
  have "batches ?rows = [?b]" by (simp only: rows' batches.simps tw dw list.map)
  then have page: "receipts_since (long @ later) since replay_page = ([?b], False)"
    unfolding receipts_since_def rows group_rows_batches Let_def by simp
  have bseq: "rb_seq ?b = n" using all long by (simp add: new_batch_def)
  have h: "replay_horizon watermark [] [?b] False = watermark" by (simp add: replay_horizon_def)
  have push: "push_frame env (ReceiptFrame ?b) (start_replay since)
      = (start_replay since)\<lparr>rp_frames := [ReceiptFrame ?b], rp_sent := 1\<rparr>"
    using assms(9,10) long by (simp add: push_frame_def start_replay_def)
  have stop: "replay_loop env k watermark st = st" if "rp_last st = watermark" for k st
    using that by (subst replay_loop.simps) simp
  have "rp_last (start_replay since) = since" "\<not> rp_gone (start_replay since)"
    by (simp_all add: start_replay_def)
  then show ?thesis
    using assms(3,4,6-8) page bseq h push long
    by (subst replay_loop.simps) (simp add: Let_def stop)
qed

theorem long_batch_hides_receipts_witness:
  "rp_frames (replay_loop (sample_env (\<lambda>k. [])
       (\<lambda>k. replicate 500 (sample_receipt 1 ''a'') @ [sample_receipt 2 ''b''])) 0 2 (start_replay 0))
     = [ReceiptFrame ((new_batch (sample_receipt 1 ''a''))\<lparr>rb_waids := replicate 500 ''a''\<rparr>)]"
proof -
  let ?long = "replicate 500 (sample_receipt 1 ''a'')" and ?later = "[sample_receipt 2 ''b'']"
  let ?env = "sample_env (\<lambda>k. []) (\<lambda>k. ?long @ ?later)"
  have 1: "list_all (\<lambda>r. rr_seq r = 1) ?long" "replay_page \<le> length ?long"
    "sorted (map rr_seq (?long @ ?later))"
    by (simp_all add: replay_page_def list_all_iff sorted_append sorted_replicate)
  have 2: "env_rows ?env 0 0 = Some []"
    "env_acks ?env 0 0 = Some (receipts_since (?long @ ?later) 0 replay_page)"
    by (simp_all add: messages_since_def)
  have 3: "take replay_page ?long = ?long" "hd ?long = sample_receipt 1 ''a''"
    by (simp_all add: replay_page_def hd_replicate)
  have 4: "env_allows ?env (ReceiptFrame ((new_batch (hd ?long))\<lparr>rb_waids := map rr_waid (take replay_page ?long)\<rparr>))"
    unfolding 3 by (simp add: new_batch_def)
  from long_batch_hides_receipts [OF 1(1,2) _ _ 1(3) 2 _ _ 4, of 2]
  show ?thesis unfolding Let_def 3 by (simp add: map_replicate)
qed

end
