(* ===== verification/Roster.thy ===== *)
theory Roster
  imports Prelude "HOL-Library.Word"
begin

text \<open>
  The participants of a call (internal/calling/groups.go) and the parsing of an individual's JID
  (\<^verbatim>\<open>individualJID\<close> of internal/calling/service.go).

  The JID functions of the WhatsApp library are an argument (\<open>jid_lib\<close>). The map from participant id
  to participant is the list of its participants: every entry is stored under its own id, so the key
  is \<open>pt_id\<close>, and the list is the order one iteration of the Go map takes. Participants are shared by
  pointer in the code: \<open>put_participant\<close> returns the id of the row it found or made, and
  \<open>update_row\<close> is what its caller then writes through the pointer.
\<close>

section \<open>Identities\<close>

record jid =
  jid_user :: string
  jid_agent :: nat
  jid_device :: nat
  jid_server :: string

record jid_lib =
  jl_parse :: "string \<Rightarrow> jid option"
  jl_string :: "jid \<Rightarrow> string"
  jl_non_ad :: "jid \<Rightarrow> jid"
  jl_is_empty :: "jid \<Rightarrow> bool"
  jl_user_server :: string
  jl_hidden_server :: string
  jl_empty :: jid

definition individual_jid :: "jid_lib \<Rightarrow> string \<Rightarrow> jid option" where
  "individual_jid L raw =
     (let raw1 = trim_space raw in
      if 100 < length raw1 \<or> raw1 = [] then None
      else let raw2 = (if CHR ''@'' \<notin> set raw1 then trim_prefix ''+'' raw1 @ ''@'' @ jl_user_server L else raw1)
           in case jl_parse L raw2 of
                None \<Rightarrow> None
              | Some j \<Rightarrow>
                  if (jid_server j \<noteq> jl_user_server L \<and> jid_server j \<noteq> jl_hidden_server L)
                     \<or> jid_user j = [] \<or> jid_device j \<noteq> 0 \<or> jid_agent j \<noteq> 0 then None
                  else if \<not> list_all is_digit (jid_user j) then None
                  else Some (jl_non_ad L j))"

section \<open>Participants\<close>

datatype participant_state = PInvited | PConnected | PLeft | PFailed

record participant =
  pt_id :: string
  pt_pn :: string
  pt_self :: bool
  pt_state :: participant_state
  pt_selected :: "(jid \<times> 32 word) option"
  pt_order :: nat
  pt_until :: timestamp
  pt_local :: bool

record roster =
  ro_rows :: "participant list"
  ro_order :: nat

definition participant_limit :: nat where
  "participant_limit = 8"

definition history_limit :: nat where
  "history_limit = 32"

definition ring_timeout :: duration where
  "ring_timeout = 60 * second"

definition matches_participant :: "string \<Rightarrow> string \<Rightarrow> participant \<Rightarrow> bool" where
  "matches_participant i pn p \<longleftrightarrow>
     pt_id p = i \<or> pt_pn p = i \<or> (pn \<noteq> [] \<and> (pt_id p = pn \<or> pt_pn p = pn))"

definition find_participant :: "string \<Rightarrow> string \<Rightarrow> roster \<Rightarrow> participant option" where
  "find_participant i pn ro = find (matches_participant i pn) (ro_rows ro)"

definition delete_row :: "string \<Rightarrow> participant list \<Rightarrow> participant list" where
  "delete_row i rows = filter (\<lambda>p. pt_id p \<noteq> i) rows"

definition store_row :: "participant \<Rightarrow> participant list \<Rightarrow> participant list" where
  "store_row p rows = delete_row (pt_id p) rows @ [p]"

definition update_row :: "string \<Rightarrow> (participant \<Rightarrow> participant) \<Rightarrow> roster \<Rightarrow> roster" where
  "update_row i f ro = ro\<lparr>ro_rows := map (\<lambda>p. if pt_id p = i then f p else p) (ro_rows ro)\<rparr>"

text \<open>The row a full history gives up: the oldest of the departed ones.\<close>

definition departed :: "participant \<Rightarrow> bool" where
  "departed p \<longleftrightarrow> \<not> pt_self p \<and> (pt_state p = PLeft \<or> pt_state p = PFailed)"

fun oldest_departed :: "participant list \<Rightarrow> participant option \<Rightarrow> participant option" where
  "oldest_departed [] best = best"
| "oldest_departed (p # ps) best = oldest_departed ps
     (if departed p \<and> (case best of None \<Rightarrow> True | Some b \<Rightarrow> pt_order p < pt_order b) then Some p else best)"

definition new_participant :: "string \<Rightarrow> string \<Rightarrow> nat \<Rightarrow> participant" where
  "new_participant i pn n = \<lparr>pt_id = i, pt_pn = pn, pt_self = False, pt_state = PInvited,
     pt_selected = None, pt_order = n, pt_until = 0, pt_local = False\<rparr>"

definition put_participant :: "jid_lib \<Rightarrow> string \<Rightarrow> string \<Rightarrow> roster \<Rightarrow> string \<times> roster" where
  "put_participant L i pn ro =
     (case find_participant i pn ro of
        Some p \<Rightarrow>
          let moved = (case individual_jid L i of
                         Some j \<Rightarrow> jid_server j = jl_hidden_server L \<and> pt_id p \<noteq> i
                       | None \<Rightarrow> False);
              p1 = (if moved then p\<lparr>pt_id := i\<rparr> else p);
              p2 = (if pn \<noteq> [] then p1\<lparr>pt_pn := pn\<rparr> else p1)
          in (pt_id p2, ro\<lparr>ro_rows := store_row p2 (delete_row (pt_id p) (ro_rows ro))\<rparr>)
      | None \<Rightarrow>
          let rows = (if history_limit \<le> length (ro_rows ro)
                      then (case oldest_departed (ro_rows ro) None of
                              Some old \<Rightarrow> delete_row (pt_id old) (ro_rows ro)
                            | None \<Rightarrow> ro_rows ro)
                      else ro_rows ro);
              n = ro_order ro + 1
          in (i, ro\<lparr>ro_rows := store_row (new_participant i pn n) rows, ro_order := n\<rparr>))"

definition holds_slot :: "participant \<Rightarrow> bool" where
  "holds_slot p \<longleftrightarrow> pt_self p \<or> pt_state p = PConnected \<or> pt_state p = PInvited"

definition participant_count :: "roster \<Rightarrow> nat" where
  "participant_count ro = length (filter holds_slot (ro_rows ro))"

definition expire_row :: "timestamp \<Rightarrow> participant \<Rightarrow> participant" where
  "expire_row now p =
     (if pt_state p = PInvited \<and> \<not> is_zero_time (pt_until p) \<and> pt_until p \<le> now
      then p\<lparr>pt_state := PFailed, pt_local := False, pt_selected := None\<rparr> else p)"

definition expire_invites :: "timestamp \<Rightarrow> roster \<Rightarrow> roster" where
  "expire_invites now ro = ro\<lparr>ro_rows := map (expire_row now) (ro_rows ro)\<rparr>"

section \<open>The first participants of a call\<close>

text \<open>Our own identities: the last LID, or the first identity when there is none, and the last phone
  number.\<close>

fun own_identity :: "jid_lib \<Rightarrow> jid list \<Rightarrow> jid \<times> jid \<Rightarrow> jid \<times> jid" where
  "own_identity L [] acc = acc"
| "own_identity L (j # js) (self, self_pn) =
     (let n = jl_non_ad L j in
      if jl_is_empty L n then own_identity L js (self, self_pn)
      else own_identity L js
        (if jl_is_empty L self \<or> jid_server n = jl_hidden_server L then n else self,
         if jid_server n = jl_user_server L then n else self_pn))"

definition init_participants :: "jid_lib \<Rightarrow> jid list \<Rightarrow> string \<Rightarrow> jid \<Rightarrow> roster" where
  "init_participants L own peer original =
     (let (self, self_pn) = own_identity L own (jl_empty L, jl_empty L);
          ro0 = \<lparr>ro_rows = [], ro_order = 0\<rparr>;
          ro1 = (if jl_is_empty L self then ro0
                 else let (i, ro) = put_participant L (jl_string L self) (jl_string L self_pn) ro0
                      in update_row i (\<lambda>p. p\<lparr>pt_self := True, pt_state := PConnected\<rparr>) ro)
      in case individual_jid L peer of
           None \<Rightarrow> ro1
         | Some j \<Rightarrow>
             let pn = (if jid_server original = jl_user_server L then jl_string L original else [])
             in if jl_is_empty L j then ro1
                else let (i, ro) = put_participant L (jl_string L j) pn ro1
                     in update_row i (\<lambda>p. p\<lparr>pt_state := PInvited\<rparr>) ro)"

section \<open>The identity checks of an invitation\<close>

datatype invite_code = InviteSelf | InviteDuplicate | InviteInterrupted | InviteUnavailable | InviteLimit

definition invite_identity_error :: "jid_lib \<Rightarrow> jid list \<Rightarrow> string \<Rightarrow> string \<Rightarrow> roster \<Rightarrow> invite_code option" where
  "invite_identity_error L own i pn ro =
     (if list_ex (\<lambda>j. let n = jl_non_ad L j in
            \<not> jl_is_empty L n \<and> (jl_string L n = i \<or> jl_string L n = pn)) own then Some InviteSelf
      else case find_participant i pn ro of
             None \<Rightarrow> None
           | Some p \<Rightarrow> if pt_self p then Some InviteSelf
                       else if pt_state p = PConnected \<or> pt_state p = PInvited then Some InviteDuplicate
                       else None)"

text \<open>The reservation \<^verbatim>\<open>Invite\<close> makes before it signals.\<close>

definition reserve_slot :: "jid_lib \<Rightarrow> timestamp \<Rightarrow> string \<Rightarrow> string \<Rightarrow> roster \<Rightarrow> roster" where
  "reserve_slot L now i pn ro =
     (let (k, ro1) = put_participant L i pn ro
      in update_row k (\<lambda>p. p\<lparr>pt_state := PInvited, pt_selected := None,
           pt_until := now + ring_timeout, pt_local := True\<rparr>) ro1)"

section \<open>The roster a native notification describes\<close>

record group_device =
  gd_jid :: jid
  gd_pid :: "32 word"
  gd_has_pid :: bool

record group_entry =
  ge_jid :: jid
  ge_pn :: jid
  ge_state :: string
  ge_devices :: "group_device list"

record group_state =
  gs_tx :: "32 word"
  gs_entries :: "group_entry list"

definition carry_row :: "timestamp \<Rightarrow> 32 word \<Rightarrow> participant \<Rightarrow> participant" where
  "carry_row now tx p =
     (let p0 = p\<lparr>pt_selected := None\<rparr> in
      if pt_self p0 then p0
      else let p1 = (if tx = 0 \<and> pt_state p0 = PConnected
                     then p0\<lparr>pt_state := PInvited, pt_until := now + ring_timeout\<rparr> else p0)
           in if tx \<noteq> 0 \<and> \<not> pt_local p1 \<and> (pt_state p1 = PConnected \<or> pt_state p1 = PInvited)
              then p1\<lparr>pt_state := PLeft\<rparr> else p1)"

text \<open>The device a connected member is heard through: of those that are the member's, the one with the
  least name.\<close>

fun select_device :: "jid_lib \<Rightarrow> jid \<Rightarrow> string \<Rightarrow> group_device list \<Rightarrow> group_device option \<Rightarrow> group_device option" where
  "select_device L j pn [] best = best"
| "select_device L j pn (d # ds) best = select_device L j pn ds
     (if gd_has_pid d \<and> \<not> jl_is_empty L (gd_jid d)
         \<and> (jl_non_ad L (gd_jid d) = j \<or> jl_string L (jl_non_ad L (gd_jid d)) = pn)
         \<and> (case best of None \<Rightarrow> True
            | Some b \<Rightarrow> jl_string L (gd_jid d) < jl_string L (gd_jid b))
      then Some d else best)"

definition entry_state :: "jid_lib \<Rightarrow> 32 word \<Rightarrow> jid \<Rightarrow> string \<Rightarrow> group_entry \<Rightarrow> participant \<Rightarrow> participant" where
  "entry_state L tx j pn e p =
     (if tx = 0 then p
      else if ge_state e = ''connected'' then
        (case select_device L j pn (ge_devices e) None of
           None \<Rightarrow> p
         | Some d \<Rightarrow> p\<lparr>pt_state := PConnected, pt_selected := Some (gd_jid d, gd_pid d)\<rparr>)
      else if ge_state e \<in> {''left'', ''disconnected'', ''removed'', ''rejected'', ''ended''}
        then p\<lparr>pt_state := PLeft\<rparr>
      else if ge_state e = ''failed'' then p\<lparr>pt_state := PFailed\<rparr>
      else p)"

definition settle_row :: "timestamp \<Rightarrow> participant \<Rightarrow> participant" where
  "settle_row now p =
     (let p1 = (if pt_self p then p\<lparr>pt_state := PConnected\<rparr> else p);
          p2 = (if pt_state p1 = PInvited
                then (let q = (if is_zero_time (pt_until p1) then p1\<lparr>pt_until := now + ring_timeout\<rparr> else p1)
                      in if pt_until q \<le> now then q\<lparr>pt_state := PFailed\<rparr> else q)
                else p1)
      in if pt_state p2 = PConnected then p2\<lparr>pt_until := 0\<rparr> else p2)"

definition apply_entry :: "jid_lib \<Rightarrow> jid list \<Rightarrow> timestamp \<Rightarrow> 32 word \<Rightarrow> group_entry \<Rightarrow> roster \<Rightarrow> roster" where
  "apply_entry L own now tx e ro =
     (case individual_jid L (jl_string L (jl_non_ad L (ge_jid e))) of
        None \<Rightarrow> ro
      | Some j \<Rightarrow>
          let pn = (if jid_server (ge_pn e) = jl_user_server L
                    then (case individual_jid L (jl_string L (jl_non_ad L (ge_pn e))) of
                            Some v \<Rightarrow> jl_string L v | None \<Rightarrow> []) else []);
              (k, ro1) = put_participant L (jl_string L j) pn ro;
              is_own = list_ex (\<lambda>o1. \<not> jl_is_empty L o1
                 \<and> (jl_non_ad L o1 = j \<or> jl_string L (jl_non_ad L o1) = pn)) own
          in update_row k (\<lambda>p. settle_row now (entry_state L tx j pn e
               (p\<lparr>pt_selected := None, pt_local := False, pt_self := pt_self p \<or> is_own,
                  pt_state := PInvited\<rparr>))) ro1)"

definition next_roster :: "jid_lib \<Rightarrow> jid list \<Rightarrow> timestamp \<Rightarrow> group_state \<Rightarrow> roster \<Rightarrow> roster" where
  "next_roster L own now gs ro =
     fold (apply_entry L own now (gs_tx gs)) (gs_entries gs)
       (ro\<lparr>ro_rows := map (carry_row now (gs_tx gs)) (ro_rows (expire_invites now ro))\<rparr>)"

definition connected_ids :: "roster \<Rightarrow> string list" where
  "connected_ids ro = sort (map pt_id
     (filter (\<lambda>p. \<not> pt_self p \<and> pt_state p = PConnected) (ro_rows ro)))"

end
