(* ===== verification/Calls.thy ===== *)
theory Calls
  imports Roster
begin

text \<open>
  The call service (internal/calling/service.go, groups.go, failure.go, and the parts of media.go the
  life of a call depends on).

  Every method takes the service's mutex for one or more sections; each section is one atomic function
  of the state here, and the method is their composition. Between two sections of a method any other
  goroutine may run: the step relation of \<open>Calls_Inv\<close> interleaves the sections freely. A \<^verbatim>\<open>*record\<close>
  and a \<^verbatim>\<open>*device\<close> are pointers, so the state has a heap of each. Signalling to the peer (the
  goroutines that call \<^verbatim>\<open>Reject\<close> and \<^verbatim>\<open>Hangup\<close>) is the list \<open>sv_signals\<close>; the native call library, the
  media socket and the clock are arguments of the sections. A timer is whether it is armed: its firing
  is a step of its own.
\<close>

section \<open>State\<close>

datatype call_error = ErrUnavailable | ErrConflict | ErrNotFound | ErrInvalid | ErrContext

datatype direction = Incoming | Outgoing

datatype call_state = Ringing | Connecting | CallActive | Ended

datatype call_phase = PhaseConnecting | PhaseActive | PhaseEnded | PhaseOther

datatype signal = SigReject | SigHangup

text \<open>What the service reads of a native call: its id, peer, whether it carries video, whether it is a
  conference offer (\<^verbatim>\<open>GroupState\<close>), and whether it can add participants (\<^verbatim>\<open>groupCall\<close>).\<close>

record call_handle =
  ch_id :: string
  ch_peer :: jid
  ch_video :: bool
  ch_conference :: bool
  ch_can_add :: bool

record bridge =
  br_used :: bool
  br_closed :: bool
  br_audio :: bool
  br_participants :: bool
  br_group :: bool
  br_order :: "string list"

record call =
  cl_device :: nat
  cl_handle :: "call_handle option"
  cl_id :: string
  cl_peer :: string
  cl_direction :: direction
  cl_state :: call_state
  cl_video :: bool
  cl_reason :: string
  cl_group :: bool
  cl_owner :: string
  cl_pending :: bool
  cl_media_active :: bool
  cl_peer_accepted :: bool
  cl_bridge :: bridge
  cl_ring :: bool
  cl_wait :: bool
  cl_cancelled :: bool
  cl_inviting :: bool
  cl_invite_cancelled :: bool
  cl_roster :: roster
  cl_tx :: "32 word"

type_synonym device_key = "string \<times> string"

record device =
  dv_key :: device_key
  dv_client :: nat
  dv_online :: bool
  dv_self :: "jid list"
  dv_active :: "nat option"

record ticket =
  tk_record :: nat
  tk_owner :: string
  tk_expires :: timestamp

record service =
  sv_devices :: "device_key \<rightharpoonup> nat"
  sv_dev :: "nat \<rightharpoonup> device"
  sv_calls :: "nat list"
  sv_heap :: "nat \<rightharpoonup> call"
  sv_next :: nat
  sv_owners :: "string set"
  sv_tickets :: "string \<rightharpoonup> ticket"
  sv_signals :: "(call_handle \<times> signal) list"

definition ticket_lifetime :: duration where
  "ticket_lifetime = 30 * second"

definition new_service :: service where
  "new_service = \<lparr>sv_devices = Map.empty, sv_dev = Map.empty, sv_calls = [], sv_heap = Map.empty,
     sv_next = 0, sv_owners = {}, sv_tickets = Map.empty, sv_signals = []\<rparr>"

definition new_media_bridge :: bridge where
  "new_media_bridge = \<lparr>br_used = False, br_closed = False, br_audio = False, br_participants = False,
     br_group = False, br_order = []\<rparr>"

definition update_call :: "nat \<Rightarrow> (call \<Rightarrow> call) \<Rightarrow> service \<Rightarrow> service" where
  "update_call r f s = (case sv_heap s r of None \<Rightarrow> s | Some c \<Rightarrow> s\<lparr>sv_heap := (sv_heap s)(r \<mapsto> f c)\<rparr>)"

definition update_device :: "nat \<Rightarrow> (device \<Rightarrow> device) \<Rightarrow> service \<Rightarrow> service" where
  "update_device d f s = (case sv_dev s d of None \<Rightarrow> s | Some x \<Rightarrow> s\<lparr>sv_dev := (sv_dev s)(d \<mapsto> f x)\<rparr>)"

section \<open>The media bridge\<close>

definition bridge_bind :: "bridge \<Rightarrow> bridge option" where
  "bridge_bind b = (if br_closed b \<or> br_used b then None else Some (b\<lparr>br_used := True\<rparr>))"

definition bridge_close :: "bridge \<Rightarrow> bridge" where
  "bridge_close b = b\<lparr>br_closed := True\<rparr>"

definition allow_audio :: "bridge \<Rightarrow> bridge" where
  "allow_audio b = (if br_closed b then b else b\<lparr>br_audio := True\<rparr>)"

definition audio_allowed :: "bridge \<Rightarrow> bool" where
  "audio_allowed b \<longleftrightarrow> br_audio b \<and> \<not> br_closed b"

definition group_capable :: "bridge \<Rightarrow> bool" where
  "group_capable b \<longleftrightarrow> br_used b \<and> \<not> br_closed b \<and> br_participants b"

definition enable_group :: "bridge \<Rightarrow> bridge" where
  "enable_group b = b\<lparr>br_group := True\<rparr>"

section \<open>Owners, devices and lookup\<close>

definition owner_alive :: "string \<Rightarrow> service \<Rightarrow> bool" where
  "owner_alive owner s \<longleftrightarrow> owner \<noteq> [] \<and> owner \<in> sv_owners s"

definition register_owner :: "string \<Rightarrow> service \<Rightarrow> service" where
  "register_owner owner s = (if owner = [] then s else s\<lparr>sv_owners := insert owner (sv_owners s)\<rparr>)"

definition call_key :: "call \<Rightarrow> service \<Rightarrow> device_key option" where
  "call_key c s = map_option dv_key (sv_dev s (cl_device c))"

definition attached_as :: "call \<Rightarrow> service \<Rightarrow> bool" where
  "attached_as c s \<longleftrightarrow> (case sv_dev s (cl_device c) of None \<Rightarrow> False
     | Some d \<Rightarrow> sv_devices s (dv_key d) = Some (cl_device c))"

definition is_call :: "device_key \<Rightarrow> string \<Rightarrow> service \<Rightarrow> nat \<Rightarrow> bool" where
  "is_call key i s r \<longleftrightarrow> (case sv_heap s r of None \<Rightarrow> False
     | Some c \<Rightarrow> call_key c s = Some key \<and> cl_id c = i \<and> i \<noteq> [])"

definition lookup :: "device_key \<Rightarrow> string \<Rightarrow> string \<Rightarrow> bool \<Rightarrow> service \<Rightarrow> call_error + nat" where
  "lookup key owner i claim s =
     (if \<not> owner_alive owner s then Inl ErrUnavailable
      else case find (is_call key i s) (sv_calls s) of
             None \<Rightarrow> Inl ErrNotFound
           | Some r \<Rightarrow> (case sv_heap s r of
               None \<Rightarrow> Inl ErrNotFound
             | Some c \<Rightarrow>
                 if cl_state c = Ended then Inl ErrNotFound
                 else if cl_owner c \<noteq> owner \<and> (\<not> claim \<or> cl_owner c \<noteq> []) then Inl ErrConflict
                 else Inr r))"

section \<open>Ending a call\<close>

definition end_record :: "string \<Rightarrow> call \<Rightarrow> call" where
  "end_record reason c = c\<lparr>cl_state := Ended, cl_reason := reason, cl_ring := False, cl_wait := False,
     cl_invite_cancelled := cl_inviting c \<or> cl_invite_cancelled c, cl_cancelled := True,
     cl_bridge := bridge_close (cl_bridge c)\<rparr>"

definition end_call :: "nat \<Rightarrow> string \<Rightarrow> bool \<Rightarrow> service \<Rightarrow> service" where
  "end_call r reason notify s = (case sv_heap s r of
       None \<Rightarrow> s
     | Some c \<Rightarrow>
         if cl_state c = Ended
         then (if cl_reason c = ''ended'' \<and> reason \<noteq> ''ended''
               then update_call r (\<lambda>c. c\<lparr>cl_reason := reason\<rparr>) s else s)
         else let reject = (cl_direction c = Incoming \<and> cl_state c = Ringing);
                  s1 = update_call r (end_record reason) s;
                  s2 = update_device (cl_device c) (\<lambda>d. if dv_active d = Some r \<and> \<not> cl_pending c
                         then d\<lparr>dv_active := None\<rparr> else d) s1;
                  s3 = s2\<lparr>sv_tickets := (\<lambda>t. case sv_tickets s2 t of None \<Rightarrow> None
                         | Some k \<Rightarrow> if tk_record k = r then None else Some k)\<rparr>
              in (case cl_handle c of
                    Some h \<Rightarrow> if notify then s3\<lparr>sv_signals := sv_signals s3 @
                                [(h, if reject then SigReject else SigHangup)]\<rparr> else s3
                  | None \<Rightarrow> s3))"

text \<open>Thirty seconds after its end a call leaves the map.\<close>

definition forget_call :: "nat \<Rightarrow> service \<Rightarrow> service" where
  "forget_call r s = s\<lparr>sv_calls := filter (\<lambda>q. q \<noteq> r) (sv_calls s)\<rparr>"

definition expire_media :: "nat \<Rightarrow> service \<Rightarrow> service" where
  "expire_media r s = (case sv_heap s r of None \<Rightarrow> s
     | Some c \<Rightarrow> if \<not> br_used (cl_bridge c) then end_call r ''media_timeout'' True s else s)"

section \<open>Devices coming and going\<close>

definition detach_remove :: "nat \<Rightarrow> service \<Rightarrow> service" where
  "detach_remove d s = (case sv_dev s d of None \<Rightarrow> s
     | Some x \<Rightarrow> if sv_devices s (dv_key x) = Some d
                 then s\<lparr>sv_devices := (sv_devices s)(dv_key x := None)\<rparr> else s)"

definition end_active :: "nat \<Rightarrow> string \<Rightarrow> service \<Rightarrow> service" where
  "end_active d reason s = (case sv_dev s d of None \<Rightarrow> s
     | Some x \<Rightarrow> (case dv_active x of None \<Rightarrow> s | Some r \<Rightarrow> end_call r reason True s))"

definition detach :: "nat \<Rightarrow> service \<Rightarrow> service" where
  "detach d s = end_active d ''disconnected'' (detach_remove d s)"

definition attach_insert :: "device_key \<Rightarrow> nat \<Rightarrow> jid list \<Rightarrow> service \<Rightarrow> service" where
  "attach_insert key client own s =
     (let d = sv_next s in
      s\<lparr>sv_dev := (sv_dev s)(d \<mapsto> \<lparr>dv_key = key, dv_client = client, dv_online = False, dv_self = own,
            dv_active = None\<rparr>),
        sv_devices := (sv_devices s)(key \<mapsto> d), sv_next := d + 1\<rparr>)"

definition attach :: "string \<Rightarrow> string \<Rightarrow> nat \<Rightarrow> bool \<Rightarrow> jid list \<Rightarrow> service \<Rightarrow> service" where
  "attach tenant dev client connected own s =
     (if tenant = [] \<or> dev = [] then s
      else case sv_devices s (tenant, dev) of
             None \<Rightarrow> if connected then s else attach_insert (tenant, dev) client own s
           | Some d \<Rightarrow>
               if map_option dv_client (sv_dev s d) = Some client then s
               else if connected then s
               else attach_insert (tenant, dev) client own (detach d s))"

definition is_attached :: "string \<Rightarrow> string \<Rightarrow> service \<Rightarrow> bool" where
  "is_attached tenant dev s \<longleftrightarrow> sv_devices s (tenant, dev) \<noteq> None"

definition set_online :: "nat \<Rightarrow> bool \<Rightarrow> service \<Rightarrow> service" where
  "set_online d up s = update_device d (\<lambda>x. x\<lparr>dv_online := up\<rparr>) s"

definition media_failed :: "nat \<Rightarrow> string \<Rightarrow> service \<Rightarrow> service" where
  "media_failed d i s = (case sv_dev s d of None \<Rightarrow> s
     | Some x \<Rightarrow> (case dv_active x of None \<Rightarrow> s
         | Some r \<Rightarrow> if sv_devices s (dv_key x) = Some d \<and> map_option cl_id (sv_heap s r) = Some i
                     then end_call r ''media_failed'' True s else s))"

section \<open>Outgoing calls\<close>

definition new_call :: "nat \<Rightarrow> direction \<Rightarrow> string \<Rightarrow> bool \<Rightarrow> call" where
  "new_call d dir peer video = \<lparr>cl_device = d, cl_handle = None, cl_id = [], cl_peer = peer,
     cl_direction = dir, cl_state = Ringing, cl_video = video, cl_reason = [], cl_group = False,
     cl_owner = [], cl_pending = False, cl_media_active = False, cl_peer_accepted = False,
     cl_bridge = new_media_bridge, cl_ring = True, cl_wait = False, cl_cancelled = False,
     cl_inviting = False, cl_invite_cancelled = False, cl_roster = \<lparr>ro_rows = [], ro_order = 0\<rparr>,
     cl_tx = 0\<rparr>"

definition insert_call :: "nat \<Rightarrow> call \<Rightarrow> service \<Rightarrow> service" where
  "insert_call d c s =
     (let r = sv_next s in
      update_device d (\<lambda>x. x\<lparr>dv_active := Some r\<rparr>)
        (s\<lparr>sv_heap := (sv_heap s)(r \<mapsto> c), sv_calls := sv_calls s @ [r], sv_next := r + 1\<rparr>))"

text \<open>\<^verbatim>\<open>Start\<close> up to the native call: the checks and the reservation of the device.\<close>

definition start_reserve ::
  "jid_lib \<Rightarrow> bool \<Rightarrow> device_key \<Rightarrow> string \<Rightarrow> string \<Rightarrow> bool \<Rightarrow> service \<Rightarrow> (call_error + nat) \<times> service" where
  "start_reserve L ctx_err key owner target video s =
     (if ctx_err then (Inl ErrContext, s)
      else case individual_jid L target of
        None \<Rightarrow> (Inl ErrInvalid, s)
      | Some j \<Rightarrow>
          if \<not> owner_alive owner s then (Inl ErrUnavailable, s)
          else case Option.bind (sv_devices s key) (\<lambda>d. map_option (Pair d) (sv_dev s d)) of
            None \<Rightarrow> (Inl ErrUnavailable, s)
          | Some (d, x) \<Rightarrow>
              if \<not> dv_online x then (Inl ErrUnavailable, s)
              else if list_ex (\<lambda>o1. \<not> jl_is_empty L o1 \<and> jl_non_ad L o1 = j) (dv_self x)
                then (Inl ErrInvalid, s)
              else if dv_active x \<noteq> None then (Inl ErrConflict, s)
              else (Inr (sv_next s), insert_call d
                     ((new_call d Outgoing (jl_string L j) video)\<lparr>cl_owner := owner, cl_pending := True\<rparr>) s))"

definition device_self :: "call \<Rightarrow> service \<Rightarrow> jid list" where
  "device_self c s = (case sv_dev s (cl_device c) of None \<Rightarrow> [] | Some d \<Rightarrow> dv_self d)"

text \<open>The section after the native call returned. \<open>native\<close> is \<open>None\<close> when it failed or gave no call.\<close>

definition start_alive :: "nat \<Rightarrow> string \<Rightarrow> bool \<Rightarrow> service \<Rightarrow> bool" where
  "start_alive r owner ctx_err s \<longleftrightarrow> (case sv_heap s r of None \<Rightarrow> False
     | Some c \<Rightarrow> attached_as c s \<and> owner_alive owner s \<and> cl_state c \<noteq> Ended \<and> \<not> ctx_err)"

definition start_finish ::
  "jid_lib \<Rightarrow> nat \<Rightarrow> string \<Rightarrow> jid \<Rightarrow> bool \<Rightarrow> call_handle option \<Rightarrow> service \<Rightarrow> service" where
  "start_finish L r owner j ctx_err native s =
     (case sv_heap s r of None \<Rightarrow> s
      | Some c \<Rightarrow>
          let alive = start_alive r owner ctx_err s;
              s1 = update_call r (\<lambda>c. c\<lparr>cl_pending := False, cl_cancelled := True\<rparr>) s;
              s2 = (case native of
                      Some h \<Rightarrow> if alive
                        then update_call r (\<lambda>b. let peer = jl_string L (jl_non_ad L (ch_peer h)) in
                               b\<lparr>cl_handle := Some h, cl_id := ch_id h, cl_peer := peer,
                                 cl_roster := init_participants L (device_self c s) peer j,
                                 cl_wait := True\<rparr>) s1
                        else s1
                    | None \<Rightarrow> s1)
          in if \<not> alive
             then update_device (cl_device c) (\<lambda>d. if dv_active d = Some r then d\<lparr>dv_active := None\<rparr> else d) s2
             else s2)"

text \<open>What \<^verbatim>\<open>Start\<close> does after it: end the record when the call failed or nothing may own it any more.\<close>

definition start_conclude ::
  "nat \<Rightarrow> bool \<Rightarrow> call_handle option \<Rightarrow> service \<Rightarrow> (call_error + nat) \<times> service" where
  "start_conclude r alive native s =
     (case native of
        None \<Rightarrow> (Inl ErrUnavailable, end_call r ''failed'' False s)
      | Some h \<Rightarrow>
          if \<not> alive
          then (let s1 = end_call r ''failed'' False s
                in (Inl ErrUnavailable, s1\<lparr>sv_signals := sv_signals s1 @ [(h, SigHangup)]\<rparr>))
          else (Inr r, s))"

section \<open>Incoming calls and call phases\<close>

definition incoming :: "jid_lib \<Rightarrow> nat \<Rightarrow> call_handle \<Rightarrow> service \<Rightarrow> service" where
  "incoming L d h s =
     (case individual_jid L (jl_string L (jl_non_ad L (ch_peer h))) of
        None \<Rightarrow> s
      | Some j \<Rightarrow>
          if ch_conference h then s
          else case sv_dev s d of
            None \<Rightarrow> s
          | Some x \<Rightarrow>
              if sv_devices s (dv_key x) \<noteq> Some d \<or> dv_active x \<noteq> None
              then s\<lparr>sv_signals := sv_signals s @ [(h, SigReject)]\<rparr>
              else insert_call d ((new_call d Incoming (jl_string L j) (ch_video h))\<lparr>cl_handle := Some h,
                     cl_id := ch_id h, cl_roster := init_participants L (dv_self x) (jl_string L j) j\<rparr>) s)"

definition connect_rows :: "roster \<Rightarrow> roster" where
  "connect_rows ro = ro\<lparr>ro_rows := map (\<lambda>p. p\<lparr>pt_state := PConnected\<rparr>) (ro_rows ro)\<rparr>"

definition phase_record :: "call_phase \<Rightarrow> call \<Rightarrow> call" where
  "phase_record ph c =
     (if cl_state c = Ended then c
      else let c1 = (if ph = PhaseActive then c\<lparr>cl_media_active := True\<rparr> else c) in
        if (cl_direction c1 = Incoming \<and> cl_owner c1 = []) \<or> (cl_direction c1 = Outgoing \<and> \<not> cl_peer_accepted c1)
        then c1
        else if cl_media_active c1
        then c1\<lparr>cl_state := CallActive, cl_ring := False,
               cl_roster := (if cl_group c1 then cl_roster c1 else connect_rows (cl_roster c1))\<rparr>
        else if ph = PhaseConnecting \<or> cl_peer_accepted c1 then c1\<lparr>cl_state := Connecting\<rparr>
        else c1)"

definition phase :: "nat \<Rightarrow> call_phase \<Rightarrow> service \<Rightarrow> service" where
  "phase r ph s = (if ph = PhaseEnded then end_call r ''ended'' False s
                   else update_call r (phase_record ph) s)"

text \<open>\<^verbatim>\<open>configure\<close> installs the callbacks, which are steps of their own, then takes the phase the call is
  in.\<close>

definition configure :: "nat \<Rightarrow> call_phase \<Rightarrow> service \<Rightarrow> service" where
  "configure r ph s = (case sv_heap s r of None \<Rightarrow> s
     | Some c \<Rightarrow> if cl_state c = Ended \<or> cl_handle c = None then s else phase r ph s)"

definition peer_accept_allowed :: "nat \<Rightarrow> service \<Rightarrow> bool" where
  "peer_accept_allowed r s \<longleftrightarrow> (case sv_heap s r of None \<Rightarrow> False
     | Some c \<Rightarrow> cl_direction c = Outgoing \<and> owner_alive (cl_owner c) s \<and> cl_state c \<noteq> Ended)"

definition peer_accept :: "nat \<Rightarrow> service \<Rightarrow> service" where
  "peer_accept r s = (if peer_accept_allowed r s
     then update_call r (\<lambda>c. c\<lparr>cl_peer_accepted := True, cl_bridge := allow_audio (cl_bridge c)\<rparr>) s else s)"

definition safe_reason :: "string \<Rightarrow> string" where
  "safe_reason reason = (if reason \<in> {''busy'', ''rejected'', ''timeout'', ''hangup'', ''unavailable'',
     ''canceled'', ''cancelled''} then reason else ''ended'')"

section \<open>The commands of an owner\<close>

definition claim_ringing ::
  "(string \<Rightarrow> call \<Rightarrow> call) \<Rightarrow> bool \<Rightarrow> device_key \<Rightarrow> string \<Rightarrow> string \<Rightarrow> service \<Rightarrow> (call_error + nat) \<times> service" where
  "claim_ringing f ctx_err key owner i s =
     (if ctx_err then (Inl ErrContext, s)
      else case lookup key owner i True s of
        Inl e \<Rightarrow> (Inl e, s)
      | Inr r \<Rightarrow> (case sv_heap s r of None \<Rightarrow> (Inl ErrNotFound, s)
          | Some c \<Rightarrow>
              if cl_direction c \<noteq> Incoming \<or> cl_state c \<noteq> Ringing then (Inl ErrConflict, s)
              else (Inr r, update_call r (f owner) s)))"

definition answer_claim :: "bool \<Rightarrow> device_key \<Rightarrow> string \<Rightarrow> string \<Rightarrow> service \<Rightarrow> (call_error + nat) \<times> service" where
  "answer_claim = claim_ringing (\<lambda>owner c. c\<lparr>cl_owner := owner, cl_state := Connecting, cl_wait := True\<rparr>)"

definition answer_alive :: "nat \<Rightarrow> string \<Rightarrow> service \<Rightarrow> bool" where
  "answer_alive r owner s \<longleftrightarrow> (case sv_heap s r of None \<Rightarrow> False
     | Some c \<Rightarrow> owner_alive owner s \<and> cl_state c \<noteq> Ended)"

text \<open>After the native \<^verbatim>\<open>Answer\<close>: a failure ends the call, a success opens the microphone.\<close>

definition answer_result :: "nat \<Rightarrow> bool \<Rightarrow> service \<Rightarrow> (call_error + nat) \<times> service" where
  "answer_result r failed s =
     (if failed then (Inl ErrUnavailable, end_call r ''failed'' True s)
      else (Inr r, update_call r (\<lambda>c. c\<lparr>cl_bridge := allow_audio (cl_bridge c)\<rparr>) s))"

definition answer :: "bool \<Rightarrow> device_key \<Rightarrow> string \<Rightarrow> string \<Rightarrow> bool \<Rightarrow> service \<Rightarrow> (call_error + nat) \<times> service" where
  "answer ctx_err key owner i failed s =
     (case answer_claim ctx_err key owner i s of
        (Inl e, s1) \<Rightarrow> (Inl e, s1)
      | (Inr r, s1) \<Rightarrow> if answer_alive r owner s1 then answer_result r failed s1 else (Inl ErrUnavailable, s1))"

definition reject_claim :: "bool \<Rightarrow> device_key \<Rightarrow> string \<Rightarrow> string \<Rightarrow> service \<Rightarrow> (call_error + nat) \<times> service" where
  "reject_claim = claim_ringing (\<lambda>owner c. c\<lparr>cl_owner := owner\<rparr>)"

definition reject :: "bool \<Rightarrow> device_key \<Rightarrow> string \<Rightarrow> string \<Rightarrow> service \<Rightarrow> (call_error + nat) \<times> service" where
  "reject ctx_err key owner i s =
     (case reject_claim ctx_err key owner i s of
        (Inl e, s1) \<Rightarrow> (Inl e, s1)
      | (Inr r, s1) \<Rightarrow> (Inr r, end_call r ''rejected'' True s1))"

definition hangup :: "bool \<Rightarrow> device_key \<Rightarrow> string \<Rightarrow> string \<Rightarrow> service \<Rightarrow> (call_error + nat) \<times> service" where
  "hangup ctx_err key owner i s =
     (if ctx_err then (Inl ErrContext, s)
      else case lookup key owner i False s of
        Inl e \<Rightarrow> (Inl e, s)
      | Inr r \<Rightarrow> (Inr r, end_call r ''hangup'' True s))"

text \<open>\<^verbatim>\<open>ReleaseOwner\<close>: one section takes the owner and its tickets away and lists its calls; each of them
  is then ended.\<close>

definition owned_calls :: "string \<Rightarrow> service \<Rightarrow> nat list" where
  "owned_calls owner s = filter (\<lambda>r. case sv_heap s r of None \<Rightarrow> False | Some c \<Rightarrow> cl_owner c = owner) (sv_calls s)"

definition release_drop :: "string \<Rightarrow> service \<Rightarrow> service" where
  "release_drop owner s =
     (if owner = [] then s
      else s\<lparr>sv_owners := sv_owners s - {owner},
             sv_tickets := (\<lambda>t. case sv_tickets s t of None \<Rightarrow> None
                | Some k \<Rightarrow> if tk_owner k = owner then None else Some k)\<rparr>)"

definition release_owner :: "string \<Rightarrow> service \<Rightarrow> service" where
  "release_owner owner s =
     (if owner = [] then s
      else fold (\<lambda>r. end_call r ''session_closed'' True) (owned_calls owner s) (release_drop owner s))"

section \<open>Media tickets\<close>

definition media_ticket ::
  "timestamp \<Rightarrow> string \<Rightarrow> device_key \<Rightarrow> string \<Rightarrow> string \<Rightarrow> service \<Rightarrow> (call_error + string) \<times> service" where
  "media_ticket now token key owner i s =
     (case lookup key owner i False s of
        Inl e \<Rightarrow> (Inl e, s)
      | Inr r \<Rightarrow> (case sv_heap s r of None \<Rightarrow> (Inl ErrNotFound, s)
          | Some c \<Rightarrow>
              if br_used (cl_bridge c) then (Inl ErrConflict, s)
              else let kept = (\<lambda>t. case sv_tickets s t of None \<Rightarrow> None
                         | Some k \<Rightarrow> if tk_record k = r \<or> tk_expires k \<le> now then None else Some k)
                   in (Inr token, s\<lparr>sv_tickets := kept(token \<mapsto>
                        \<lparr>tk_record = r, tk_owner = owner, tk_expires = now + ticket_lifetime\<rparr>)\<rparr>)))"

definition consume_ticket :: "timestamp \<Rightarrow> string \<Rightarrow> service \<Rightarrow> (call_error + nat) \<times> service" where
  "consume_ticket now token s =
     (let s1 = s\<lparr>sv_tickets := (sv_tickets s)(token := None)\<rparr> in
      case sv_tickets s token of
        None \<Rightarrow> (Inl ErrNotFound, s1)
      | Some k \<Rightarrow> (case sv_heap s (tk_record k) of
          None \<Rightarrow> (Inl ErrNotFound, s1)
        | Some c \<Rightarrow>
            if tk_expires k \<le> now \<or> \<not> owner_alive (tk_owner k) s \<or> cl_owner c \<noteq> tk_owner k
               \<or> cl_state c = Ended \<or> \<not> attached_as c s
            then (Inl ErrNotFound, s1) else (Inr (tk_record k), s1)))"

text \<open>The media socket after its ticket: bound once; the timer that waits for it stops. The result says
  whether the call may carry media.\<close>

definition media_bind :: "nat \<Rightarrow> bool \<Rightarrow> service \<Rightarrow> service" where
  "media_bind r participants s = (case sv_heap s r of None \<Rightarrow> s
     | Some c \<Rightarrow> (case bridge_bind (cl_bridge c) of
         None \<Rightarrow> s
       | Some b \<Rightarrow> update_call r (\<lambda>c. c\<lparr>cl_bridge := b\<lparr>br_participants := participants\<rparr>, cl_wait := False\<rparr>) s))"

definition media_valid :: "nat \<Rightarrow> service \<Rightarrow> bool" where
  "media_valid r s \<longleftrightarrow> (case sv_heap s r of None \<Rightarrow> False
     | Some c \<Rightarrow> owner_alive (cl_owner c) s \<and> cl_state c \<noteq> Ended \<and> cl_handle c \<noteq> None)"

section \<open>Group calls\<close>

definition invite_allowed :: "nat \<Rightarrow> string \<Rightarrow> service \<Rightarrow> bool" where
  "invite_allowed r owner s \<longleftrightarrow> (case sv_heap s r of None \<Rightarrow> False
     | Some c \<Rightarrow> (case cl_handle c of None \<Rightarrow> False | Some h \<Rightarrow> ch_can_add h)
         \<and> owner_alive owner s \<and> cl_owner c = owner \<and> cl_direction c = Outgoing
         \<and> cl_state c = CallActive \<and> attached_as c s \<and> group_capable (cl_bridge c))"

definition invite_begin :: "device_key \<Rightarrow> string \<Rightarrow> string \<Rightarrow> service \<Rightarrow> (call_error + nat) \<times> service" where
  "invite_begin key owner i s =
     (case lookup key owner i False s of
        Inl e \<Rightarrow> (Inl e, s)
      | Inr r \<Rightarrow> (case sv_heap s r of None \<Rightarrow> (Inl ErrNotFound, s)
          | Some c \<Rightarrow>
              if cl_direction c \<noteq> Outgoing \<or> cl_state c \<noteq> CallActive then (Inl ErrConflict, s)
              else if \<not> invite_allowed r owner s then (Inl ErrUnavailable, s)
              else (Inr r, update_call r (\<lambda>c. c\<lparr>cl_inviting := True, cl_invite_cancelled := False\<rparr>) s)))"

text \<open>The reservation of one invited person, once the person's identities are known: \<open>attempted\<close> are
  the identities this invitation already tried.\<close>

definition invite_reserve ::
  "jid_lib \<Rightarrow> timestamp \<Rightarrow> nat \<Rightarrow> string \<Rightarrow> bool \<Rightarrow> string set \<Rightarrow> string \<Rightarrow> string \<Rightarrow> service
     \<Rightarrow> invite_code option \<times> service" where
  "invite_reserve L now r owner op_done attempted i pn s =
     (case sv_heap s r of None \<Rightarrow> (Some InviteUnavailable, s)
      | Some c \<Rightarrow>
          let code1 = invite_identity_error L (device_self c s) i pn (cl_roster c);
              code2 = (if code1 = None \<and> (i \<in> attempted \<or> (pn \<noteq> [] \<and> pn \<in> attempted))
                       then Some InviteDuplicate else code1);
              code3 = (if op_done \<or> \<not> invite_allowed r owner s then Some InviteInterrupted else code2);
              code4 = (if code3 = None \<and> participant_limit \<le> participant_count (cl_roster c)
                       then Some InviteLimit else code3)
          in (code4, if code4 = None
                     then update_call r (\<lambda>c. c\<lparr>cl_roster := reserve_slot L now i pn (cl_roster c)\<rparr>) s else s))"

text \<open>The result of signalling it: a failure gives the slot back, unless the person connected meanwhile.\<close>

definition invite_settle :: "nat \<Rightarrow> string \<Rightarrow> bool \<Rightarrow> bool \<Rightarrow> string \<Rightarrow> string \<Rightarrow> service \<Rightarrow> service" where
  "invite_settle r owner op_done failed i pn s =
     (if failed \<or> op_done \<or> \<not> invite_allowed r owner s
      then update_call r (\<lambda>c. case find_participant i pn (cl_roster c) of
             None \<Rightarrow> c
           | Some p \<Rightarrow> if pt_state p = PInvited
               then c\<lparr>cl_roster := update_row (pt_id p) (\<lambda>p. p\<lparr>pt_state := PFailed, pt_local := False\<rparr>) (cl_roster c)\<rparr>
               else c) s
      else s)"

definition invite_end :: "nat \<Rightarrow> service \<Rightarrow> service" where
  "invite_end r s = update_call r (\<lambda>c. c\<lparr>cl_inviting := False\<rparr>) s"

definition group_state_update :: "jid_lib \<Rightarrow> timestamp \<Rightarrow> nat \<Rightarrow> group_state \<Rightarrow> service \<Rightarrow> service" where
  "group_state_update L now r gs s =
     (case sv_heap s r of None \<Rightarrow> s
      | Some c \<Rightarrow>
          if cl_state c = Ended then s
          else if cl_direction c \<noteq> Outgoing \<or> \<not> owner_alive (cl_owner c) s \<or> \<not> group_capable (cl_bridge c)
            then end_call r ''group_unsupported'' True s
          else if (gs_tx gs \<noteq> 0 \<and> cl_tx c \<noteq> 0 \<and> gs_tx gs \<le> cl_tx c) \<or> (gs_tx gs = 0 \<and> cl_tx c \<noteq> 0) then s
          else let nxt = next_roster L (device_self c s) now gs (cl_roster c)
               in if participant_limit < participant_count nxt
                  then end_call r ''group_limit'' True
                         (update_call r (\<lambda>c. c\<lparr>cl_roster := expire_invites now (cl_roster c)\<rparr>) s)
                  else update_call r (\<lambda>c. c\<lparr>cl_roster := nxt, cl_group := True,
                         cl_bridge := (enable_group (cl_bridge c))\<lparr>br_order := connected_ids nxt\<rparr>,
                         cl_tx := (if gs_tx gs \<noteq> 0 then gs_tx gs else cl_tx c)\<rparr>) s)"

section \<open>What a session is shown\<close>

record call_view =
  vw_id :: string
  vw_peer :: string
  vw_direction :: direction
  vw_state :: call_state
  vw_video :: bool
  vw_reason :: string
  vw_group :: bool
  vw_owned :: bool
  vw_can_invite :: bool
  vw_limit :: nat
  vw_participants :: "(bool \<times> string \<times> string \<times> participant_state) list"

definition expire_call :: "timestamp \<Rightarrow> nat \<Rightarrow> service \<Rightarrow> service" where
  "expire_call now r s = update_call r (\<lambda>c. c\<lparr>cl_roster := expire_invites now (cl_roster c)\<rparr>) s"

definition snapshot_locked :: "timestamp \<Rightarrow> nat \<Rightarrow> string \<Rightarrow> service \<Rightarrow> call_view option \<times> service" where
  "snapshot_locked now r owner s =
     (let s1 = expire_call now r s in
      (map_option (\<lambda>c. \<lparr>vw_id = cl_id c, vw_peer = cl_peer c, vw_direction = cl_direction c,
          vw_state = cl_state c, vw_video = cl_video c, vw_reason = cl_reason c, vw_group = cl_group c,
          vw_owned = (cl_owner c = owner \<and> owner \<noteq> []),
          vw_can_invite = (invite_allowed r owner s1 \<and> participant_count (cl_roster c) < participant_limit),
          vw_limit = participant_limit,
          vw_participants = map (\<lambda>p. (pt_self p, pt_id p, pt_pn p, pt_state p))
            (sort_key (\<lambda>p. if pt_self p then 0 else 1 :: nat) (sort_key pt_id (ro_rows (cl_roster c))))\<rparr>)
        (sv_heap s1 r), s1))"

fun snapshots :: "timestamp \<Rightarrow> nat list \<Rightarrow> string \<Rightarrow> service \<Rightarrow> call_view list \<times> service" where
  "snapshots now [] owner s = ([], s)"
| "snapshots now (r # rs) owner s =
     (let (v, s1) = snapshot_locked now r owner s; (vs, s2) = snapshots now rs owner s1
      in (case v of None \<Rightarrow> vs | Some x \<Rightarrow> x # vs, s2))"

definition list_calls :: "timestamp \<Rightarrow> device_key \<Rightarrow> string \<Rightarrow> service \<Rightarrow> call_view list \<times> service" where
  "list_calls now key owner s =
     (if \<not> owner_alive owner s then ([], s)
      else let rs = filter (\<lambda>r. case sv_heap s r of None \<Rightarrow> False
                 | Some c \<Rightarrow> call_key c s = Some key \<and> cl_id c \<noteq> []) (sv_calls s);
               (vs, s1) = snapshots now rs owner s
           in (sort_key vw_id vs, s1))"

section \<open>An invitation, person by person\<close>

definition invite_targets :: "jid_lib \<Rightarrow> string list \<Rightarrow> jid list option" where
  "invite_targets L targets =
     (if targets = [] \<or> participant_limit \<le> length targets then None
      else those (map (individual_jid L) targets))"

text \<open>What the outside does while one person is invited: whether the operation's context is done at each
  of the three looks at it, what the resolver answered, and whether the signalling failed (or was
  cancelled).\<close>

record invite_env =
  iv_now :: timestamp
  iv_done1 :: bool
  iv_resolved :: "(jid \<times> jid) option"
  iv_done_resolve :: bool
  iv_done2 :: bool
  iv_failed :: bool
  iv_cancelled :: bool
  iv_done3 :: bool

definition invite_precheck ::
  "jid_lib \<Rightarrow> timestamp \<Rightarrow> nat \<Rightarrow> string set \<Rightarrow> string \<Rightarrow> service \<Rightarrow> invite_code option \<times> service" where
  "invite_precheck L now r attempted target s =
     (let s1 = expire_call now r s in
      case sv_heap s1 r of None \<Rightarrow> (Some InviteUnavailable, s1)
      | Some c \<Rightarrow> (case invite_identity_error L (device_self c s1) target [] (cl_roster c) of
          Some e \<Rightarrow> (Some e, s1)
        | None \<Rightarrow> (if target \<in> attempted then Some InviteDuplicate else None, s1)))"

text \<open>The identities to reserve and signal under, from the resolver's answer.\<close>

definition invite_identity :: "jid_lib \<Rightarrow> jid \<Rightarrow> jid \<times> jid \<Rightarrow> (jid \<times> string) option" where
  "invite_identity L target ans =
     (case individual_jid L (jl_string L (fst ans)) of
        None \<Rightarrow> None
      | Some i \<Rightarrow>
          let pn = (if jl_is_empty L (snd ans) then Some []
                    else if jid_server (snd ans) \<noteq> jl_user_server L then None
                    else map_option (jl_string L) (individual_jid L (jl_string L (snd ans))))
          in map_option (\<lambda>v. (i, if jid_server target = jl_user_server L then jl_string L target else v)) pn)"

definition invite_one ::
  "jid_lib \<Rightarrow> invite_env \<Rightarrow> nat \<Rightarrow> string \<Rightarrow> jid \<Rightarrow> string set \<times> service \<Rightarrow> invite_code option \<times> string set \<times> service" where
  "invite_one L e r owner target st =
     (let (attempted, s) = st; name = jl_string L target in
      if iv_done1 e \<or> \<not> invite_allowed r owner s then (Some InviteInterrupted, attempted, s)
      else case invite_precheck L (iv_now e) r attempted name s of
        (Some code, s1) \<Rightarrow> (Some code, attempted, s1)
      | (None, s1) \<Rightarrow> (case iv_resolved e of
          None \<Rightarrow> (Some (if iv_done_resolve e then InviteInterrupted else InviteUnavailable), attempted, s1)
        | Some ans \<Rightarrow> (case invite_identity L target ans of
            None \<Rightarrow> (Some InviteUnavailable, attempted, s1)
          | Some (j, pn) \<Rightarrow>
              let i = jl_string L j in
              (case invite_reserve L (iv_now e) r owner (iv_done2 e) attempted i pn s1 of
                 (Some code, s2) \<Rightarrow> (Some code, attempted, s2)
               | (None, s2) \<Rightarrow>
                   let interrupted = (iv_done3 e \<or> \<not> invite_allowed r owner s2);
                       s3 = invite_settle r owner (iv_done3 e) (iv_failed e) i pn s2
                   in (if iv_failed e \<or> interrupted
                       then Some (if interrupted \<or> iv_cancelled e then InviteInterrupted else InviteUnavailable)
                       else None,
                       attempted \<union> {name, i} \<union> (if pn \<noteq> [] then {pn} else {}), s3)))))"

datatype invite_signal = RingNative | AddNative

text \<open>A person the native roster already names is rung again, any other is added.\<close>

definition in_native_roster :: "jid_lib \<Rightarrow> jid \<Rightarrow> string \<Rightarrow> group_entry \<Rightarrow> bool" where
  "in_native_roster L j pn e \<longleftrightarrow> jl_non_ad L (ge_jid e) = j
     \<or> (\<not> jl_is_empty L (ge_pn e) \<and> (jl_non_ad L (ge_pn e) = j \<or> jl_string L (jl_non_ad L (ge_pn e)) = pn))
     \<or> jl_string L (jl_non_ad L (ge_jid e)) = pn"

definition signal_invite ::
  "jid_lib \<Rightarrow> group_state option \<Rightarrow> bool \<Rightarrow> bool \<Rightarrow> jid \<Rightarrow> string \<Rightarrow> invite_signal option" where
  "signal_invite L state can_ring can_add j pn =
     (case state of
        Some gs \<Rightarrow> if gs_tx gs \<noteq> 0 \<and> list_ex (in_native_roster L j pn) (gs_entries gs)
                   then (if can_ring then Some RingNative else None)
                   else (if can_add then Some AddNative else None)
      | None \<Rightarrow> if can_add then Some AddNative else None)"

section \<open>Video of group members\<close>

record video_packet =
  vp_sender :: jid
  vp_device :: jid
  vp_pid :: "32 word"
  vp_has_pid :: bool

text \<open>The member a native video packet may be shown as, if any.\<close>

definition participant_video :: "jid_lib \<Rightarrow> nat \<Rightarrow> video_packet \<Rightarrow> service \<Rightarrow> string option" where
  "participant_video L r v s =
     (case sv_heap s r of None \<Rightarrow> None
      | Some c \<Rightarrow>
          if \<not> cl_group c \<or> cl_state c \<noteq> CallActive \<or> \<not> owner_alive (cl_owner c) s
             \<or> \<not> vp_has_pid v \<or> jl_is_empty L (vp_device v) then None
          else case individual_jid L (jl_string L (jl_non_ad L (vp_sender v))) of
            None \<Rightarrow> None
          | Some j \<Rightarrow> (case find_participant (jl_string L j) [] (cl_roster c) of
              None \<Rightarrow> None
            | Some p \<Rightarrow>
                if pt_self p \<or> pt_state p \<noteq> PConnected then None
                else if pt_selected p \<noteq> Some (vp_device v, vp_pid v) then None
                else let user = jl_string L (jl_non_ad L (vp_device v))
                     in if user \<noteq> pt_id p \<and> user \<noteq> pt_pn p then None else Some (pt_id p)))"

definition video_needs_roster :: "nat \<Rightarrow> 32 word \<Rightarrow> service \<Rightarrow> bool" where
  "video_needs_roster r tx s \<longleftrightarrow> (case sv_heap s r of None \<Rightarrow> False
     | Some c \<Rightarrow> cl_state c \<noteq> Ended \<and> (\<not> cl_group c \<or> cl_tx c < tx))"

end
