(* ===== verification/Roster_Facts.thy ===== *)
theory Roster_Facts
  imports Roster
begin

text \<open>
  How the roster operations move the number of taken slots: storing a participant touches one row, and
  every other operation only frees slots.
\<close>

section \<open>One row at a time\<close>

lemma length_filter_filter: "length (filter P (filter Q xs)) \<le> length (filter P xs)"
  by (induction xs) auto

lemma put_participant_shape:
  assumes "put_participant L i pn ro = (k, ro')"
  obtains rest p where "ro_rows ro' = rest @ [p]" "pt_id p = k" "list_all (\<lambda>q. pt_id q \<noteq> k) rest"
    "\<exists>P. rest = filter P (ro_rows ro)"
proof (cases "find_participant i pn ro")
  case None
  define rows where "rows = (if history_limit \<le> length (ro_rows ro)
      then (case oldest_departed (ro_rows ro) None of
              Some old \<Rightarrow> delete_row (pt_id old) (ro_rows ro) | None \<Rightarrow> ro_rows ro)
      else ro_rows ro)"
  have eq: "ro_rows ro' = delete_row i rows @ [new_participant i pn (ro_order ro + 1)]" "k = i"
    using assms None
    by (auto simp: put_participant_def Let_def rows_def store_row_def new_participant_def)
  have "\<exists>P. rows = filter P (ro_rows ro)"
    unfolding rows_def delete_row_def
    by (auto split: option.splits intro: exI [of _ "\<lambda>p. True"])
  then have "\<exists>P. delete_row i rows = filter P (ro_rows ro)" by (auto simp: delete_row_def)
  then show thesis
    using eq by (intro that [of "delete_row i rows" "new_participant i pn (ro_order ro + 1)"])
      (auto simp: new_participant_def delete_row_def list_all_iff)
next
  case (Some p)
  then obtain p2 where eq: "k = pt_id p2"
    "ro_rows ro' = delete_row (pt_id p2) (delete_row (pt_id p) (ro_rows ro)) @ [p2]"
    using assms by (fastforce simp: put_participant_def Let_def store_row_def)
  then show thesis
    by (intro that [of "delete_row (pt_id p2) (delete_row (pt_id p) (ro_rows ro))" p2])
      (auto simp: delete_row_def list_all_iff)
qed

lemma update_after_put:
  assumes "put_participant L i pn ro = (k, ro')"
  obtains rest p where "ro_rows (update_row k f ro') = rest @ [f p]" "\<exists>P. rest = filter P (ro_rows ro)"
proof -
  from put_participant_shape [OF assms] obtain rest p where
    r: "ro_rows ro' = rest @ [p]" "pt_id p = k" "list_all (\<lambda>q. pt_id q \<noteq> k) rest"
    "\<exists>P. rest = filter P (ro_rows ro)" .
  from r(3) have "map (\<lambda>p. if pt_id p = k then f p else p) rest = rest"
    by (induction rest) auto
  with r show thesis by (intro that [of rest p]) (simp_all add: update_row_def)
qed

text \<open>So a stored participant takes at most one slot more, whatever is written to its row.\<close>

lemma count_update_after_put:
  assumes "put_participant L i pn ro = (k, ro')"
  shows "participant_count (update_row k f ro') \<le> participant_count ro + 1"
proof -
  obtain rest p P where "ro_rows (update_row k f ro') = rest @ [f p]" "rest = filter P (ro_rows ro)"
    using update_after_put [OF assms] by metis
  then show ?thesis using length_filter_filter [of holds_slot P "ro_rows ro"]
    by (simp add: participant_count_def)
qed

lemma count_reserve: "participant_count (reserve_slot L now i pn ro) \<le> participant_count ro + 1"
  using count_update_after_put [of L i pn ro]
  by (auto simp: reserve_slot_def Let_def split: prod.splits)

section \<open>Operations that only free slots\<close>

lemma count_map_le:
  assumes "\<And>p. holds_slot (f p) \<Longrightarrow> holds_slot p"
  shows "length (filter holds_slot (map f rows)) \<le> length (filter holds_slot rows)"
  using assms by (induction rows) auto

lemma count_expire: "participant_count (expire_invites now ro) \<le> participant_count ro"
  unfolding participant_count_def expire_invites_def
  by (simp, intro count_map_le [simplified]) (auto simp: expire_row_def holds_slot_def split: if_splits)

lemma count_update_row:
  assumes "\<And>p. holds_slot (f p) \<Longrightarrow> holds_slot p"
  shows "participant_count (update_row i f ro) \<le> participant_count ro"
proof -
  have "length (filter holds_slot (map (\<lambda>p. if pt_id p = i then f p else p) (ro_rows ro)))
      \<le> length (filter holds_slot (ro_rows ro))"
    by (rule count_map_le) (metis assms)
  then show ?thesis by (simp add: participant_count_def update_row_def)
qed

section \<open>The first roster\<close>

lemma count_empty [simp]: "participant_count \<lparr>ro_rows = [], ro_order = n\<rparr> = 0"
  by (simp add: participant_count_def)

lemma count_init: "participant_count (init_participants L own peer original) \<le> 2"
proof -
  obtain self self_pn where own: "own_identity L own (jl_empty L, jl_empty L) = (self, self_pn)" by fastforce
  define ro1 where "ro1 = (if jl_is_empty L self then \<lparr>ro_rows = [], ro_order = 0\<rparr>
      else let (i, ro) = put_participant L (jl_string L self) (jl_string L self_pn) \<lparr>ro_rows = [], ro_order = 0\<rparr>
           in update_row i (\<lambda>p. p\<lparr>pt_self := True, pt_state := PConnected\<rparr>) ro)"
  have 1: "participant_count ro1 \<le> 1"
    using count_update_after_put [of L "jl_string L self" "jl_string L self_pn" "\<lparr>ro_rows = [], ro_order = 0\<rparr>"]
    by (auto simp: ro1_def split: prod.splits)
  have 2: "participant_count (let (i, ro) = put_participant L i pn ro1 in update_row i f ro) \<le> 2" for i pn f
  proof -
    obtain k ro where put: "put_participant L i pn ro1 = (k, ro)" by fastforce
    from count_update_after_put [OF put, of f] 1 show ?thesis by (simp add: put)
  qed
  have "init_participants L own peer original = (case individual_jid L peer of
       None \<Rightarrow> ro1
     | Some j \<Rightarrow>
         let pn = (if jid_server original = jl_user_server L then jl_string L original else [])
         in if jl_is_empty L j then ro1
            else let (i, ro) = put_participant L (jl_string L j) pn ro1
                 in update_row i (\<lambda>p. p\<lparr>pt_state := PInvited\<rparr>) ro)"
    unfolding init_participants_def own Let_def ro1_def by simp
  also have "participant_count \<dots> \<le> 2"
  proof (cases "individual_jid L peer")
    case None
    with 1 show ?thesis by simp
  next
    case (Some j)
    show ?thesis
      unfolding Some option.case Let_def
      using 1 2 [unfolded Let_def] by (cases "jl_is_empty L j") simp_all
  qed
  finally show ?thesis .
qed

end
