(* ===== verification/Calls_Inv.thy ===== *)
theory Calls_Inv
  imports Calls Roster_Facts
begin

text \<open>
  The call service as a transition system: every mutex section of \<open>Calls\<close> is one step, in any order, and
  an invariant of the reachable states. The guards of three steps say what the code has established by
  then and nothing takes back: \<^verbatim>\<open>Start\<close> finishes the record it reserved, \<^verbatim>\<open>Answer\<close> concludes on the
  call it claimed, and only an ended call is forgotten.
\<close>

section \<open>Steps\<close>

inductive call_section :: "jid_lib \<Rightarrow> service \<Rightarrow> service \<Rightarrow> bool" for L where
  step_register: "call_section L s (register_owner owner s)"
| step_attach: "call_section L s (attach_insert key client own s)"
| step_detach: "call_section L s (detach_remove d s)"
| step_end_active: "call_section L s (end_active d reason s)"
| step_online: "call_section L s (set_online d up s)"
| step_media_failed: "call_section L s (media_failed d i s)"
| step_start: "call_section L s (snd (start_reserve L ctx key owner target video s))"
| step_finish: "sv_heap s r = Some c \<Longrightarrow> cl_pending c \<Longrightarrow> cl_owner c = owner \<Longrightarrow>
    call_section L s (start_finish L r owner j ctx native s)"
| step_conclude: "call_section L s (snd (start_conclude r False native s))"
| step_incoming: "call_section L s (incoming L d h s)"
| step_end: "call_section L s (end_call r reason notify s)"
| step_forget: "sv_heap s r = Some c \<Longrightarrow> cl_state c = Ended \<Longrightarrow> call_section L s (forget_call r s)"
| step_media_timeout: "call_section L s (expire_media r s)"
| step_phase: "call_section L s (configure r ph s)"
| step_accept: "call_section L s (peer_accept r s)"
| step_answer: "call_section L s (snd (answer_claim ctx key owner i s))"
| step_reject: "call_section L s (snd (reject_claim ctx key owner i s))"
| step_release: "call_section L s (release_drop owner s)"
| step_ticket: "call_section L s (snd (media_ticket now token key owner i s))"
| step_consume: "call_section L s (snd (consume_ticket now token s))"
| step_bind: "call_section L s (media_bind r participants s)"
| step_invite: "call_section L s (snd (invite_begin key owner i s))"
| step_reserve: "call_section L s (snd (invite_reserve L now r owner op_done attempted i pn s))"
| step_settle: "call_section L s (invite_settle r owner op_done failed i pn s)"
| step_invite_end: "call_section L s (invite_end r s)"
| step_group: "call_section L s (group_state_update L now r gs s)"
| step_expire: "call_section L s (expire_call now r s)"

text \<open>The end of an \<^verbatim>\<open>Answer\<close> opens the microphone; it is a step of its own.\<close>

inductive call_step :: "jid_lib \<Rightarrow> service \<Rightarrow> service \<Rightarrow> bool" for L where
  by_section: "call_section L s s' \<Longrightarrow> call_step L s s'"
| step_answered: "sv_heap s r = Some c \<Longrightarrow> cl_direction c = Incoming \<Longrightarrow> cl_owner c \<noteq> [] \<Longrightarrow>
    call_step L s (snd (answer_result r failed s))"

inductive call_reach :: "jid_lib \<Rightarrow> service \<Rightarrow> bool" for L where
  reach_new: "call_reach L new_service"
| reach_step: "call_reach L s \<Longrightarrow> call_step L s s' \<Longrightarrow> call_reach L s'"

section \<open>The invariant\<close>

definition consent :: "call \<Rightarrow> bool" where
  "consent c \<longleftrightarrow> (cl_direction c = Incoming \<and> cl_owner c \<noteq> []) \<or> (cl_direction c = Outgoing \<and> cl_peer_accepted c)"

definition committed :: "call \<Rightarrow> bool" where
  "committed c \<longleftrightarrow> cl_pending c \<or> cl_handle c \<noteq> None"

definition call_ok :: "call \<Rightarrow> bool" where
  "call_ok c \<longleftrightarrow> (cl_state c = CallActive \<longrightarrow> consent c \<and> cl_media_active c)
     \<and> (br_audio (cl_bridge c) \<longrightarrow> consent c)
     \<and> (cl_direction c = Outgoing \<longrightarrow> cl_owner c \<noteq> [])
     \<and> (cl_pending c \<longrightarrow> cl_handle c = None)
     \<and> (cl_state c = Ended \<longrightarrow> br_closed (cl_bridge c) \<and> \<not> cl_ring c \<and> \<not> cl_wait c)
     \<and> (cl_group c \<longrightarrow> participant_count (cl_roster c) \<le> participant_limit)"

definition live_inv :: "service \<Rightarrow> bool" where
  "live_inv s \<longleftrightarrow>
     (\<forall>r c. sv_heap s r = Some c \<longrightarrow> cl_state c \<noteq> Ended \<longrightarrow> committed c \<longrightarrow>
        Option.bind (sv_dev s (cl_device c)) dv_active = Some r)"

definition ticket_inv :: "service \<Rightarrow> bool" where
  "ticket_inv s \<longleftrightarrow>
     (\<forall>t k. sv_tickets s t = Some k \<longrightarrow> owner_alive (tk_owner k) s \<and>
        (\<exists>c. sv_heap s (tk_record k) = Some c \<and> cl_state c \<noteq> Ended \<and> cl_owner c = tk_owner k))
     \<and> (\<forall>t t' k k'. sv_tickets s t = Some k \<longrightarrow> sv_tickets s t' = Some k' \<longrightarrow>
          tk_record k = tk_record k' \<longrightarrow> t = t')"

definition heap_inv :: "service \<Rightarrow> bool" where
  "heap_inv s \<longleftrightarrow> (\<forall>r c. sv_heap s r = Some c \<longrightarrow> r < sv_next s \<and> call_ok c \<and> sv_dev s (cl_device c) \<noteq> None
        \<and> (cl_state c \<noteq> Ended \<longrightarrow> r \<in> set (sv_calls s)))
     \<and> (\<forall>d. sv_dev s d \<noteq> None \<longrightarrow> d < sv_next s)
     \<and> (\<forall>k d. sv_devices s k = Some d \<longrightarrow> map_option dv_key (sv_dev s d) = Some k)"

definition calls_inv :: "service \<Rightarrow> bool" where
  "calls_inv s \<longleftrightarrow> live_inv s \<and> ticket_inv s \<and> heap_inv s"

lemma calls_inv_new: "calls_inv new_service"
  by (simp add: calls_inv_def live_inv_def ticket_inv_def heap_inv_def new_service_def)

section \<open>Updates of one record\<close>

lemma update_call_fields [simp]:
  "sv_devices (update_call r f s) = sv_devices s" "sv_dev (update_call r f s) = sv_dev s"
  "sv_calls (update_call r f s) = sv_calls s" "sv_next (update_call r f s) = sv_next s"
  "sv_owners (update_call r f s) = sv_owners s" "sv_tickets (update_call r f s) = sv_tickets s"
  "sv_signals (update_call r f s) = sv_signals s"
  by (simp_all add: update_call_def split: option.splits)

lemma update_call_heap [simp]:
  "sv_heap (update_call r f s) q = (if q = r then map_option f (sv_heap s r) else sv_heap s q)"
  by (simp add: update_call_def split: option.splits)

lemma update_device_fields [simp]:
  "sv_devices (update_device d f s) = sv_devices s" "sv_heap (update_device d f s) = sv_heap s"
  "sv_calls (update_device d f s) = sv_calls s" "sv_next (update_device d f s) = sv_next s"
  "sv_owners (update_device d f s) = sv_owners s" "sv_tickets (update_device d f s) = sv_tickets s"
  "sv_signals (update_device d f s) = sv_signals s"
  by (simp_all add: update_device_def split: option.splits)

lemma update_device_dev [simp]:
  "sv_dev (update_device d f s) q = (if q = d then map_option f (sv_dev s d) else sv_dev s q)"
  by (simp add: update_device_def split: option.splits)

lemma owner_alive_cong: "sv_owners s = sv_owners s' \<Longrightarrow> owner_alive owner s = owner_alive owner s'"
  by (simp add: owner_alive_def)

text \<open>What a section may do to a record without looking at the rest of the state.\<close>

definition keeps_call :: "call \<Rightarrow> call \<Rightarrow> bool" where
  "keeps_call c c' \<longleftrightarrow> cl_device c' = cl_device c \<and> (cl_state c' = Ended \<longleftrightarrow> cl_state c = Ended)
     \<and> (committed c' \<longrightarrow> committed c) \<and> (cl_owner c' = cl_owner c \<or> cl_owner c = []) \<and> call_ok c'"

lemma calls_inv_update:
  assumes "calls_inv s" "\<And>c. sv_heap s r = Some c \<Longrightarrow> keeps_call c (f c)"
  shows "calls_inv (update_call r f s)"
proof -
  have "live_inv (update_call r f s)"
    using assms by (auto simp: calls_inv_def live_inv_def keeps_call_def)
  moreover have "ticket_inv (update_call r f s)"
  proof -
    have t: "ticket_inv s" using assms(1) by (simp add: calls_inv_def)
    have "\<exists>c. sv_heap (update_call r f s) (tk_record k) = Some c \<and> cl_state c \<noteq> Ended \<and> cl_owner c = tk_owner k"
      if k: "sv_tickets s n = Some k" for n k
    proof -
      obtain c where c: "sv_heap s (tk_record k) = Some c" "cl_state c \<noteq> Ended" "cl_owner c = tk_owner k"
        "tk_owner k \<noteq> []"
        using t k unfolding ticket_inv_def owner_alive_def by blast
      then show ?thesis using assms(2) [of c] by (cases "tk_record k = r") (auto simp: keeps_call_def)
    qed
    with t show ?thesis unfolding ticket_inv_def owner_alive_def by simp
  qed
  moreover have "heap_inv (update_call r f s)"
    using assms by (auto simp: calls_inv_def heap_inv_def keeps_call_def)
  ultimately show ?thesis by (simp add: calls_inv_def)
qed

text \<open>Devices may change in everything but the call they hold.\<close>

lemma calls_inv_device:
  assumes "calls_inv s" "\<And>x. dv_key (f x) = dv_key x"
    and "\<And>x. sv_dev s d = Some x \<Longrightarrow> dv_active (f x) = dv_active x
          \<or> (\<forall>r c. dv_active x = Some r \<longrightarrow> sv_heap s r = Some c \<longrightarrow> cl_state c \<noteq> Ended \<longrightarrow> \<not> committed c)"
  shows "calls_inv (update_device d f s)"
proof -
  have "live_inv (update_device d f s)"
    using assms(1,3) unfolding calls_inv_def live_inv_def by (fastforce simp: bind_eq_Some_conv)
  moreover have "ticket_inv (update_device d f s)"
    using assms(1) by (simp add: calls_inv_def ticket_inv_def owner_alive_def)
  moreover have "heap_inv (update_device d f s)"
  proof -
    have "map_option dv_key (map_option f o1) = map_option dv_key o1" for o1
      using assms(2) by (cases o1) simp_all
    then have "map_option dv_key (sv_dev (update_device d f s) q) = map_option dv_key (sv_dev s q)"
      "sv_dev (update_device d f s) q = None \<longleftrightarrow> sv_dev s q = None" for q
      by simp_all
    with assms(1) show ?thesis unfolding calls_inv_def heap_inv_def by simp
  qed
  ultimately show ?thesis by (simp add: calls_inv_def)
qed

text \<open>Fields no clause reads, and fewer tickets.\<close>

lemma calls_inv_signals: "calls_inv s \<Longrightarrow> calls_inv (s\<lparr>sv_signals := x\<rparr>)"
  by (simp add: calls_inv_def live_inv_def ticket_inv_def heap_inv_def owner_alive_def)

lemma calls_inv_owners: "calls_inv s \<Longrightarrow> sv_owners s \<subseteq> x \<Longrightarrow> calls_inv (s\<lparr>sv_owners := x\<rparr>)"
  by (auto simp: calls_inv_def live_inv_def ticket_inv_def heap_inv_def owner_alive_def)

lemma calls_inv_fewer_tickets:
  assumes "calls_inv s" "\<And>t k. x t = Some k \<Longrightarrow> sv_tickets s t = Some k"
  shows "calls_inv (s\<lparr>sv_tickets := x\<rparr>)"
proof -
  have "ticket_inv s" using assms(1) by (simp add: calls_inv_def)
  then have "ticket_inv (s\<lparr>sv_tickets := x\<rparr>)"
    unfolding ticket_inv_def owner_alive_def by (simp, meson assms(2))
  with assms(1) show ?thesis by (simp add: calls_inv_def live_inv_def heap_inv_def)
qed

section \<open>The end of a call\<close>

lemma end_record_simps [simp]:
  "cl_device (end_record reason c) = cl_device c" "cl_state (end_record reason c) = Ended"
  "cl_owner (end_record reason c) = cl_owner c" "cl_direction (end_record reason c) = cl_direction c"
  "cl_handle (end_record reason c) = cl_handle c" "cl_pending (end_record reason c) = cl_pending c"
  "cl_roster (end_record reason c) = cl_roster c" "cl_group (end_record reason c) = cl_group c"
  by (simp_all add: end_record_def)

lemma call_ok_end: "call_ok c \<Longrightarrow> call_ok (end_record reason c)"
  by (simp add: call_ok_def consent_def end_record_def bridge_close_def)

lemma call_ok_reason [simp]: "call_ok (c\<lparr>cl_reason := x\<rparr>) = call_ok c"
  by (simp add: call_ok_def consent_def)

lemma calls_inv_end_core:
  assumes inv: "calls_inv s" and r: "sv_heap s r = Some c"
  shows "calls_inv (update_call r (end_record reason) s\<lparr>sv_tickets := (\<lambda>t. case sv_tickets s t of None \<Rightarrow> None
      | Some k \<Rightarrow> if tk_record k = r then None else Some k)\<rparr>)" (is "calls_inv ?s")
proof -
  have "live_inv ?s" using inv by (auto simp: calls_inv_def live_inv_def)
  moreover have "ticket_inv ?s"
    using inv unfolding calls_inv_def ticket_inv_def owner_alive_def
    by (simp split: option.splits if_splits) (metis option.inject)
  moreover have "heap_inv ?s"
    using inv by (auto simp: calls_inv_def heap_inv_def call_ok_end)
  ultimately show ?thesis by (simp add: calls_inv_def)
qed

lemma calls_inv_end [inv_intros]:
  assumes inv: "calls_inv s"
  shows "calls_inv (end_call r reason notify s)"
proof (cases "sv_heap s r")
  case None
  with inv show ?thesis by (simp add: end_call_def)
next
  case (Some c)
  show ?thesis
  proof (cases "cl_state c = Ended")
    case True
    have "keeps_call c (c\<lparr>cl_reason := reason\<rparr>)"
      using inv Some by (auto simp: keeps_call_def committed_def calls_inv_def heap_inv_def)
    with inv Some True show ?thesis by (auto simp: end_call_def intro: calls_inv_update)
  next
    case False
    let ?k = "\<lambda>t. case sv_tickets s t of None \<Rightarrow> None | Some k \<Rightarrow> if tk_record k = r then None else Some k"
    let ?f = "\<lambda>d. if dv_active d = Some r \<and> \<not> cl_pending c then d\<lparr>dv_active := None\<rparr> else d"
    let ?s1 = "update_call r (end_record reason) s\<lparr>sv_tickets := ?k\<rparr>"
    have "calls_inv (update_device (cl_device c) ?f ?s1)"
      by (rule calls_inv_device [OF calls_inv_end_core [OF inv Some]]) (use Some in auto)
    moreover have "update_device (cl_device c) ?f ?s1
        = (update_device (cl_device c) ?f (update_call r (end_record reason) s))\<lparr>sv_tickets := ?k\<rparr>"
      by (simp add: update_device_def split: option.splits)
    ultimately show ?thesis
      using Some False by (auto simp: end_call_def Let_def intro: calls_inv_signals split: option.splits)
  qed
qed

section \<open>New records and devices\<close>

lemma calls_inv_insert:
  assumes inv: "calls_inv s" and d: "sv_dev s d = Some x" "dv_active x = None"
    and c: "cl_device c = d" "call_ok c"
  shows "calls_inv (insert_call d c s)"
proof -
  have dev: "sv_dev (insert_call d c s) = (sv_dev s)(d \<mapsto> x\<lparr>dv_active := Some (sv_next s)\<rparr>)"
    and heap: "sv_heap (insert_call d c s) = (sv_heap s)(sv_next s \<mapsto> c)"
    and rest: "sv_next (insert_call d c s) = Suc (sv_next s)" "sv_owners (insert_call d c s) = sv_owners s"
      "sv_tickets (insert_call d c s) = sv_tickets s" "sv_devices (insert_call d c s) = sv_devices s"
      "sv_calls (insert_call d c s) = sv_calls s @ [sv_next s]"
    using d by (simp_all add: insert_call_def Let_def fun_eq_iff)
  have fresh: "sv_heap s (sv_next s) = None"
    using inv unfolding calls_inv_def heap_inv_def by (metis less_irrefl not_None_eq)
  have free: "cl_device b \<noteq> d" if "sv_heap s q = Some b" "cl_state b \<noteq> Ended" "committed b" for q b
    using inv d that unfolding calls_inv_def live_inv_def by fastforce
  have "live_inv (insert_call d c s)"
    using inv d c(1) fresh free unfolding calls_inv_def live_inv_def dev heap
    by (simp split: if_splits)
  moreover have "ticket_inv (insert_call d c s)"
  proof -
    have "ticket_inv s" using inv by (simp add: calls_inv_def)
    moreover from this have "tk_record k \<noteq> sv_next s" if "sv_tickets s t = Some k" for t k
      using fresh that unfolding ticket_inv_def by (metis option.distinct(1))
    ultimately show ?thesis unfolding ticket_inv_def heap rest owner_alive_def by simp
  qed
  moreover have "heap_inv (insert_call d c s)"
  proof -
    have "map_option dv_key (sv_dev (insert_call d c s) q) = map_option dv_key (sv_dev s q)"
      "sv_dev (insert_call d c s) q = None \<longleftrightarrow> sv_dev s q = None" for q
      using d by (simp_all add: dev)
    with inv d c show ?thesis unfolding calls_inv_def heap_inv_def heap rest by (simp add: less_SucI)
  qed
  ultimately show ?thesis by (simp add: calls_inv_def)
qed

lemma calls_inv_attach [inv_intros]: "calls_inv s \<Longrightarrow> calls_inv (attach_insert key client own s)"
proof -
  assume inv: "calls_inv s"
  have fresh: "sv_dev s (sv_next s) = None"
    using inv unfolding calls_inv_def heap_inv_def by (metis less_irrefl)
  have "cl_device c \<noteq> sv_next s" if "sv_heap s r = Some c" for r c
    using inv fresh that unfolding calls_inv_def heap_inv_def by metis
  then have "live_inv (attach_insert key client own s)"
    using inv unfolding calls_inv_def live_inv_def attach_insert_def by (simp add: Let_def)
  moreover have "ticket_inv (attach_insert key client own s)"
    using inv by (simp add: calls_inv_def ticket_inv_def attach_insert_def Let_def owner_alive_def)
  moreover have "heap_inv (attach_insert key client own s)"
  proof -
    have "d \<noteq> sv_next s" if "sv_devices s k = Some d" for k d
      using inv fresh that unfolding calls_inv_def heap_inv_def by fastforce
    with inv show ?thesis unfolding calls_inv_def heap_inv_def attach_insert_def
      by (simp add: Let_def less_SucI split: if_splits)
  qed
  ultimately show ?thesis by (simp add: calls_inv_def)
qed

lemma calls_inv_detach [inv_intros]: "calls_inv s \<Longrightarrow> calls_inv (detach_remove d s)"
  by (auto simp: detach_remove_def calls_inv_def live_inv_def ticket_inv_def heap_inv_def owner_alive_def
      split: option.splits)

lemma calls_inv_forget [inv_intros]:
  assumes "calls_inv s" "sv_heap s r = Some c" "cl_state c = Ended"
  shows "calls_inv (forget_call r s)"
  using assms by (auto simp: forget_call_def calls_inv_def live_inv_def ticket_inv_def heap_inv_def owner_alive_def)

lemma calls_inv_release [inv_intros]: "calls_inv s \<Longrightarrow> calls_inv (release_drop owner s)"
proof -
  assume inv: "calls_inv s"
  have "ticket_inv (release_drop owner s)"
    using inv unfolding calls_inv_def ticket_inv_def release_drop_def owner_alive_def
    by (auto split: option.splits if_splits)
  with inv show ?thesis by (auto simp: calls_inv_def live_inv_def heap_inv_def release_drop_def)
qed

section \<open>Looking a call up\<close>

lemma lookup_Inr:
  assumes "lookup key owner i claim s = Inr r"
  obtains c where "sv_heap s r = Some c" "cl_state c \<noteq> Ended" "r \<in> set (sv_calls s)" "owner_alive owner s"
    "cl_owner c = owner \<or> (claim \<and> cl_owner c = [])" "cl_id c = i" "call_key c s = Some key" "i \<noteq> []"
proof -
  have alive: "owner_alive owner s" using assms by (auto simp: lookup_def split: if_splits)
  from assms alive obtain c where f: "find (is_call key i s) (sv_calls s) = Some r" "sv_heap s r = Some c"
    "cl_state c \<noteq> Ended" "\<not> (cl_owner c \<noteq> owner \<and> (\<not> claim \<or> cl_owner c \<noteq> []))"
    by (auto simp: lookup_def split: option.splits if_splits)
  then have "is_call key i s r" "r \<in> set (sv_calls s)" by (auto simp: find_Some_iff)
  with f alive show thesis by (intro that [of c]) (auto simp: is_call_def)
qed

lemma calls_inv_ticket [inv_intros]:
  assumes inv: "calls_inv s"
  shows "calls_inv (snd (media_ticket now token key owner i s))"
proof (cases "lookup key owner i False s")
  case (Inl e)
  with inv show ?thesis by (simp add: media_ticket_def)
next
  case (Inr r)
  then obtain c where c: "sv_heap s r = Some c" "cl_state c \<noteq> Ended" "cl_owner c = owner" "owner_alive owner s"
    by (auto elim: lookup_Inr)
  let ?kept = "\<lambda>t. case sv_tickets s t of None \<Rightarrow> None
     | Some k \<Rightarrow> if tk_record k = r \<or> tk_expires k \<le> now then None else Some k"
  let ?s = "s\<lparr>sv_tickets := ?kept(token \<mapsto> \<lparr>tk_record = r, tk_owner = owner, tk_expires = now + ticket_lifetime\<rparr>)\<rparr>"
  have "ticket_inv ?s"
    using inv c unfolding calls_inv_def ticket_inv_def owner_alive_def
    by (auto split: option.splits if_splits)
  with inv have "calls_inv ?s" by (auto simp: calls_inv_def live_inv_def heap_inv_def)
  with inv Inr c show ?thesis by (simp add: media_ticket_def Let_def)
qed

lemma calls_inv_consume [inv_intros]: "calls_inv s \<Longrightarrow> calls_inv (snd (consume_ticket now token s))"
proof -
  assume inv: "calls_inv s"
  have "calls_inv (s\<lparr>sv_tickets := (sv_tickets s)(token := None)\<rparr>)"
    by (rule calls_inv_fewer_tickets [OF inv]) (auto split: if_splits)
  then show ?thesis by (simp add: consume_ticket_def Let_def split: option.splits)
qed

section \<open>The sections that rewrite one record\<close>

lemma inv_call_ok: "calls_inv s \<Longrightarrow> sv_heap s r = Some c \<Longrightarrow> call_ok c"
  by (simp add: calls_inv_def heap_inv_def)

lemma keeps_media: "call_ok c \<Longrightarrow> keeps_call c (c\<lparr>cl_media_active := True\<rparr>)"
  by (simp add: keeps_call_def call_ok_def consent_def committed_def)

lemma keeps_active:
  "call_ok c \<Longrightarrow> cl_state c \<noteq> Ended \<Longrightarrow> consent c \<Longrightarrow> cl_media_active c \<Longrightarrow>
   keeps_call c (c\<lparr>cl_state := CallActive, cl_ring := False,
     cl_roster := (if cl_group c then cl_roster c else connect_rows (cl_roster c))\<rparr>)"
  by (simp add: keeps_call_def call_ok_def consent_def committed_def)

lemma keeps_connecting:
  "call_ok c \<Longrightarrow> cl_state c \<noteq> Ended \<Longrightarrow> keeps_call c (c\<lparr>cl_state := Connecting\<rparr>)"
  by (simp add: keeps_call_def call_ok_def consent_def committed_def)

lemma keeps_trans: "keeps_call a b \<Longrightarrow> keeps_call b c \<Longrightarrow> keeps_call a c"
  by (auto simp: keeps_call_def)

lemma consent_iff:
  "\<not> ((cl_direction c = Incoming \<and> cl_owner c = []) \<or> (cl_direction c = Outgoing \<and> \<not> cl_peer_accepted c))
     \<longleftrightarrow> consent c"
  by (cases "cl_direction c") (simp_all add: consent_def)

lemma keeps_phase:
  assumes ok: "call_ok c"
  shows "keeps_call c (phase_record ph c)"
proof (cases "cl_state c = Ended")
  case True
  with ok show ?thesis by (simp add: phase_record_def keeps_call_def)
next
  case False
  define c1 where "c1 = (if ph = PhaseActive then c\<lparr>cl_media_active := True\<rparr> else c)"
  have k: "keeps_call c c1" using ok keeps_media [OF ok] by (simp add: c1_def keeps_call_def)
  then have c1: "call_ok c1" "cl_state c1 \<noteq> Ended" using False by (simp_all add: keeps_call_def)
  have "phase_record ph c = (if \<not> consent c1 then c1
     else if cl_media_active c1 then c1\<lparr>cl_state := CallActive, cl_ring := False,
               cl_roster := (if cl_group c1 then cl_roster c1 else connect_rows (cl_roster c1))\<rparr>
     else if ph = PhaseConnecting \<or> cl_peer_accepted c1 then c1\<lparr>cl_state := Connecting\<rparr> else c1)"
    using False unfolding phase_record_def c1_def [symmetric] Let_def consent_iff [symmetric] by simp
  then show ?thesis
    using k keeps_trans [OF k keeps_active [OF c1]] keeps_trans [OF k keeps_connecting [OF c1]] by simp
qed

lemma keeps_roster:
  assumes "call_ok c" "participant_count ro \<le> max participant_limit (participant_count (cl_roster c))"
    "cl_group c \<Longrightarrow> participant_count ro \<le> participant_limit"
  shows "keeps_call c (c\<lparr>cl_roster := ro\<rparr>)"
  using assms by (auto simp: keeps_call_def call_ok_def consent_def committed_def)

lemma keeps_less_roster:
  "call_ok c \<Longrightarrow> participant_count ro \<le> participant_count (cl_roster c) \<Longrightarrow> keeps_call c (c\<lparr>cl_roster := ro\<rparr>)"
  by (rule keeps_roster) (auto simp: call_ok_def)

lemma calls_inv_phase [inv_intros]: "calls_inv s \<Longrightarrow> calls_inv (configure r ph s)"
  by (auto simp: configure_def phase_def intro: calls_inv_end calls_inv_update keeps_phase inv_call_ok
      split: option.splits)

lemma calls_inv_accept [inv_intros]: "calls_inv s \<Longrightarrow> calls_inv (peer_accept r s)"
proof -
  assume inv: "calls_inv s"
  have "keeps_call c (c\<lparr>cl_peer_accepted := True, cl_bridge := allow_audio (cl_bridge c)\<rparr>)"
    if "sv_heap s r = Some c" "peer_accept_allowed r s" for c
    using inv_call_ok [OF inv that(1)] that
    by (auto simp: keeps_call_def call_ok_def consent_def committed_def allow_audio_def
        peer_accept_allowed_def)
  then have "peer_accept_allowed r s \<Longrightarrow> calls_inv (update_call r
      (\<lambda>c. c\<lparr>cl_peer_accepted := True, cl_bridge := allow_audio (cl_bridge c)\<rparr>) s)"
    by (intro calls_inv_update [OF inv])
  with inv show ?thesis by (simp add: peer_accept_def)
qed

lemma calls_inv_claim:
  assumes inv: "calls_inv s"
    and f: "\<And>c. call_ok c \<Longrightarrow> cl_direction c = Incoming \<Longrightarrow> cl_state c = Ringing \<Longrightarrow> owner_alive owner s \<Longrightarrow>
      cl_owner c = owner \<or> cl_owner c = [] \<Longrightarrow> keeps_call c (f owner c)"
  shows "calls_inv (snd (claim_ringing f ctx key owner i s))"
proof (cases "lookup key owner i True s")
  case (Inl e)
  with inv show ?thesis by (simp add: claim_ringing_def)
next
  case (Inr r)
  from lookup_Inr [OF this] obtain c where c: "sv_heap s r = Some c" "owner_alive owner s"
    "cl_owner c = owner \<or> cl_owner c = []" by metis
  have "calls_inv (update_call r (f owner) s)" if "cl_direction c = Incoming" "cl_state c = Ringing"
    by (rule calls_inv_update [OF inv]) (use c that f inv_call_ok [OF inv] in auto)
  with inv Inr c show ?thesis by (simp add: claim_ringing_def)
qed

lemma calls_inv_answer [inv_intros]: "calls_inv s \<Longrightarrow> calls_inv (snd (answer_claim ctx key owner i s))"
  unfolding answer_claim_def
  by (rule calls_inv_claim)
    (auto simp: keeps_call_def call_ok_def consent_def committed_def owner_alive_def)

lemma calls_inv_reject [inv_intros]: "calls_inv s \<Longrightarrow> calls_inv (snd (reject_claim ctx key owner i s))"
  unfolding reject_claim_def
  by (rule calls_inv_claim)
    (auto simp: keeps_call_def call_ok_def consent_def committed_def owner_alive_def)

lemma calls_inv_answered:
  assumes inv: "calls_inv s" and c: "sv_heap s r = Some c" "cl_direction c = Incoming" "cl_owner c \<noteq> []"
  shows "calls_inv (snd (answer_result r failed s))"
proof -
  have "keeps_call c (c\<lparr>cl_bridge := allow_audio (cl_bridge c)\<rparr>)"
    using inv_call_ok [OF inv c(1)] c(2,3)
    by (auto simp: keeps_call_def call_ok_def consent_def committed_def allow_audio_def)
  with inv c show ?thesis by (auto simp: answer_result_def intro: calls_inv_end calls_inv_update)
qed

lemma calls_inv_bind [inv_intros]: "calls_inv s \<Longrightarrow> calls_inv (media_bind r participants s)"
proof -
  assume inv: "calls_inv s"
  have "keeps_call c (c\<lparr>cl_bridge := b\<lparr>br_participants := participants\<rparr>, cl_wait := False\<rparr>)"
    if "sv_heap s r = Some c" "bridge_bind (cl_bridge c) = Some b" for c b
    using inv_call_ok [OF inv that(1)] that(2)
    by (auto simp: keeps_call_def call_ok_def consent_def committed_def bridge_bind_def split: if_splits)
  with inv show ?thesis by (auto simp: media_bind_def intro!: calls_inv_update split: option.splits)
qed

lemma calls_inv_invite [inv_intros]: "calls_inv s \<Longrightarrow> calls_inv (snd (invite_begin key owner i s))"
proof -
  assume inv: "calls_inv s"
  have "calls_inv (update_call r (\<lambda>c. c\<lparr>cl_inviting := True, cl_invite_cancelled := False\<rparr>) s)" for r
    by (rule calls_inv_update [OF inv])
      (use inv_call_ok [OF inv] in \<open>auto simp: keeps_call_def call_ok_def consent_def committed_def\<close>)
  with inv show ?thesis by (simp add: invite_begin_def split: sum.splits option.splits)
qed

lemma calls_inv_invite_end [inv_intros]: "calls_inv s \<Longrightarrow> calls_inv (invite_end r s)"
  unfolding invite_end_def
  by (rule calls_inv_update) (auto simp: keeps_call_def call_ok_def consent_def committed_def dest: inv_call_ok)

lemma calls_inv_reserve [inv_intros]:
  assumes inv: "calls_inv s"
  shows "calls_inv (snd (invite_reserve L now r owner op_done attempted i pn s))"
proof -
  have "calls_inv (update_call r (\<lambda>c. c\<lparr>cl_roster := reserve_slot L now i pn (cl_roster c)\<rparr>) s)"
    if "sv_heap s r = Some c" "\<not> participant_limit \<le> participant_count (cl_roster c)" for c
    by (rule calls_inv_update [OF inv], rule keeps_roster)
      (use that inv_call_ok [OF inv that(1)] count_reserve [of L now i pn "cl_roster c"] in auto)
  with inv show ?thesis by (auto simp: invite_reserve_def Let_def split: option.splits)
qed

lemma calls_inv_settle [inv_intros]:
  assumes inv: "calls_inv s"
  shows "calls_inv (invite_settle r owner op_done failed i pn s)"
proof -
  let ?f = "\<lambda>p. p\<lparr>pt_state := PFailed, pt_local := False\<rparr>"
  let ?g = "\<lambda>c. case find_participant i pn (cl_roster c) of None \<Rightarrow> c
     | Some p \<Rightarrow> if pt_state p = PInvited then c\<lparr>cl_roster := update_row (pt_id p) ?f (cl_roster c)\<rparr> else c"
  have "participant_count (update_row i ?f ro) \<le> participant_count ro" for i ro
    by (rule count_update_row) (simp add: holds_slot_def)
  then have less: "keeps_call c (c\<lparr>cl_roster := update_row i ?f (cl_roster c)\<rparr>)" if "call_ok c" for c i
    by (rule keeps_less_roster [OF that])
  have same: "keeps_call c c" if "call_ok c" for c using that by (simp add: keeps_call_def)
  have "keeps_call c (?g c)" if "call_ok c" for c
    using less [OF that] same [OF that] by (simp split: option.splits)
  then have "calls_inv (update_call r ?g s)"
    by (intro calls_inv_update [OF inv]) (meson inv_call_ok [OF inv])
  with inv show ?thesis by (simp add: invite_settle_def)
qed

lemma calls_inv_expire [inv_intros]: "calls_inv s \<Longrightarrow> calls_inv (expire_call now r s)"
  unfolding expire_call_def
  by (rule calls_inv_update) (auto intro: keeps_less_roster count_expire dest: inv_call_ok)

lemma calls_inv_group [inv_intros]:
  assumes inv: "calls_inv s"
  shows "calls_inv (group_state_update L now r gs s)"
proof (cases "sv_heap s r")
  case None
  with inv show ?thesis by (simp add: group_state_update_def)
next
  case (Some c)
  let ?nxt = "next_roster L (device_self c s) now gs (cl_roster c)"
  have "calls_inv (update_call r (\<lambda>c. c\<lparr>cl_roster := expire_invites now (cl_roster c)\<rparr>) s)"
    using calls_inv_expire [OF inv] by (simp add: expire_call_def)
  moreover have "calls_inv (update_call r (\<lambda>c. c\<lparr>cl_roster := ?nxt, cl_group := True,
       cl_bridge := (enable_group (cl_bridge c))\<lparr>br_order := connected_ids ?nxt\<rparr>,
       cl_tx := (if gs_tx gs \<noteq> 0 then gs_tx gs else cl_tx c)\<rparr>) s)"
    if "participant_count ?nxt \<le> participant_limit"
    by (rule calls_inv_update [OF inv])
      (use that inv_call_ok [OF inv] in \<open>auto simp: keeps_call_def call_ok_def consent_def committed_def enable_group_def\<close>)
  ultimately show ?thesis
    using inv Some by (auto simp: group_state_update_def Let_def intro: calls_inv_end)
qed

section \<open>Starting, receiving and finishing\<close>

lemma new_call_ok: "call_ok ((new_call d dir peer video)\<lparr>cl_owner := owner, cl_pending := p\<rparr>) \<longleftrightarrow> dir = Outgoing \<longrightarrow> owner \<noteq> []"
  by (auto simp: call_ok_def new_call_def new_media_bridge_def)

lemma calls_inv_start [inv_intros]:
  assumes inv: "calls_inv s"
  shows "calls_inv (snd (start_reserve L ctx key owner target video s))"
proof -
  have "calls_inv (insert_call d ((new_call d Outgoing peer video)\<lparr>cl_owner := owner, cl_pending := True\<rparr>) s)"
    if "sv_dev s d = Some x" "dv_active x = None" "owner_alive owner s" for d x peer
    by (rule calls_inv_insert [OF inv that(1,2)])
      (use that(3) in \<open>simp_all add: new_call_ok owner_alive_def\<close>, simp add: new_call_def)
  with inv show ?thesis
    by (auto simp: start_reserve_def bind_eq_Some_conv split: option.splits)
qed

lemma calls_inv_incoming [inv_intros]:
  assumes inv: "calls_inv s"
  shows "calls_inv (incoming L d h s)"
proof -
  have "calls_inv (insert_call d ((new_call d Incoming peer v)\<lparr>cl_handle := Some h, cl_id := i, cl_roster := ro\<rparr>) s)"
    if "sv_dev s d = Some x" "dv_active x = None" for x peer v i ro
    by (rule calls_inv_insert [OF inv that]) (auto simp: call_ok_def new_call_def new_media_bridge_def)
  with inv show ?thesis
    by (auto simp: incoming_def intro: calls_inv_signals split: option.splits)
qed

lemma update_call_comp: "update_call r f (update_call r g s) = update_call r (\<lambda>c. f (g c)) s"
  by (simp add: update_call_def split: option.splits)

lemma calls_inv_finish:
  assumes inv: "calls_inv s" and r: "sv_heap s r = Some c" "cl_pending c"
  shows "calls_inv (start_finish L r owner j ctx native s)"
proof -
  let ?g = "\<lambda>c::call. c\<lparr>cl_pending := False, cl_cancelled := True\<rparr>"
  let ?act = "\<lambda>d. if dv_active d = Some r then d\<lparr>dv_active := None\<rparr> else d"
  have ok: "call_ok c" using inv_call_ok [OF inv r(1)] .
  have plain: "calls_inv (update_call r ?g s)"
    by (rule calls_inv_update [OF inv])
      (use inv_call_ok [OF inv] r in \<open>auto simp: keeps_call_def call_ok_def consent_def committed_def\<close>)
  have made: "calls_inv (update_call r (\<lambda>c. (?g c)\<lparr>cl_handle := Some h, cl_id := i, cl_peer := peer,
       cl_roster := init_participants L own peer j, cl_wait := True\<rparr>) s)"
    if "cl_state c \<noteq> Ended" for h i peer own
    by (rule calls_inv_update [OF inv])
      (use ok r that order_trans [OF count_init [of L own peer j], of participant_limit] in
        \<open>auto simp: keeps_call_def call_ok_def consent_def committed_def participant_limit_def\<close>)
  have drop: "calls_inv (update_device (cl_device c) ?act (update_call r ?g s))"
    by (rule calls_inv_device [OF plain]) (use r ok in \<open>auto simp: committed_def call_ok_def\<close>)
  show ?thesis
  proof (cases "start_alive r owner ctx s")
    case False
    with drop r show ?thesis by (cases native) (simp_all add: start_finish_def Let_def)
  next
    case True
    with r have "cl_state c \<noteq> Ended" by (simp add: start_alive_def)
    with True r plain made show ?thesis
      by (cases native) (simp_all add: start_finish_def Let_def update_call_comp)
  qed
qed

text \<open>Every step keeps the invariant, so every reachable state has it.\<close>

lemma call_section_inv: "call_section L s s' \<Longrightarrow> calls_inv s \<Longrightarrow> calls_inv s'"
proof (induction rule: call_section.induct)
  case (step_register s owner)
  then show ?case by (auto simp: register_owner_def intro: calls_inv_owners)
next
  case (step_end_active s d reason)
  then show ?case by (auto simp: end_active_def intro: calls_inv_end split: option.splits)
next
  case (step_online s d up)
  then show ?case by (auto simp: set_online_def intro: calls_inv_device)
next
  case (step_media_failed s d i)
  then show ?case by (auto simp: media_failed_def intro: calls_inv_end split: option.splits)
next
  case (step_conclude s r native)
  then show ?case
    by (auto simp: start_conclude_def Let_def intro: calls_inv_end calls_inv_signals split: option.splits)
next
  case (step_media_timeout s r)
  then show ?case by (auto simp: expire_media_def intro: calls_inv_end split: option.splits)
qed (auto intro: inv_intros calls_inv_finish)

lemma call_step_inv: "call_step L s s' \<Longrightarrow> calls_inv s \<Longrightarrow> calls_inv s'"
  by (induction rule: call_step.induct) (auto intro: call_section_inv calls_inv_answered)

lemma call_reach_inv: "call_reach L s \<Longrightarrow> calls_inv s"
  by (induction rule: call_reach.induct) (auto intro: calls_inv_new call_step_inv)

end
