(* ===== verification/Calls_Props.thy ===== *)
theory Calls_Props
  imports Calls_Inv
begin

text \<open>
  What the call service promises, over every interleaving of its sections: an ended call stays ended,
  a call keeps its owner, a device has one call at a time, audio and the active state need consent,
  tickets admit only their owner, and a released session owns nothing that is alive.
\<close>

section \<open>How a step may change a record\<close>

definition evolves :: "service \<Rightarrow> call \<Rightarrow> call \<Rightarrow> bool" where
  "evolves s c c' \<longleftrightarrow> cl_device c' = cl_device c \<and> cl_direction c' = cl_direction c
     \<and> (cl_state c = Ended \<longrightarrow> cl_state c' = Ended)
     \<and> (cl_owner c' = cl_owner c \<or> (cl_owner c = [] \<and> owner_alive (cl_owner c') s))"

definition progress :: "service \<Rightarrow> service \<Rightarrow> bool" where
  "progress s s' \<longleftrightarrow> (\<forall>r c. sv_heap s r = Some c \<longrightarrow> (\<exists>c'. sv_heap s' r = Some c' \<and> evolves s c c'))
     \<and> (\<forall>r c'. sv_heap s r = None \<longrightarrow> sv_heap s' r = Some c' \<longrightarrow> cl_owner c' = [] \<or> owner_alive (cl_owner c') s)"

lemma progress_same: "sv_heap s' = sv_heap s \<Longrightarrow> progress s s'"
  by (simp add: progress_def evolves_def)

lemma progress_refl [simp]: "progress s s"
  by (simp add: progress_same)

lemma progress_signals: "progress s (s\<lparr>sv_signals := x\<rparr>)"
  by (simp add: progress_same)

lemma progress_update:
  assumes "\<And>c. sv_heap s r = Some c \<Longrightarrow> evolves s c (f c)"
  shows "progress s (update_call r f s)"
  using assms by (auto simp: progress_def evolves_def)

lemma progress_heap_cong: "sv_heap s' = sv_heap s'' \<Longrightarrow> progress s s'' \<Longrightarrow> progress s s'"
  by (simp add: progress_def)

lemma end_call_heap:
  "sv_heap (end_call r reason notify s) q =
     (if q = r then map_option (\<lambda>c. if cl_state c = Ended
          then (if cl_reason c = ''ended'' \<and> reason \<noteq> ''ended'' then c\<lparr>cl_reason := reason\<rparr> else c)
          else end_record reason c) (sv_heap s r)
      else sv_heap s q)"
  by (simp add: end_call_def Let_def split: option.splits)

lemma progress_end: "progress s (end_call r reason notify s)"
  by (auto simp: progress_def evolves_def end_call_heap)

lemma progress_insert:
  assumes "sv_heap s (sv_next s) = None" "cl_owner c = [] \<or> owner_alive (cl_owner c) s"
  shows "progress s (insert_call d c s)"
  using assms by (auto simp: progress_def evolves_def insert_call_def Let_def)

lemma progress_claim:
  assumes "\<And>c. cl_direction c = Incoming \<Longrightarrow> cl_state c = Ringing \<Longrightarrow> owner_alive owner s \<Longrightarrow>
      cl_owner c = owner \<or> cl_owner c = [] \<Longrightarrow> evolves s c (f owner c)"
  shows "progress s (snd (claim_ringing f ctx key owner i s))"
proof (cases "lookup key owner i True s")
  case (Inl e)
  then show ?thesis by (simp add: claim_ringing_def)
next
  case (Inr r)
  from lookup_Inr [OF this] obtain c where c: "sv_heap s r = Some c" "owner_alive owner s"
    "cl_owner c = owner \<or> cl_owner c = []" by metis
  have "progress s (update_call r (f owner) s)" if "cl_direction c = Incoming" "cl_state c = Ringing"
    by (rule progress_update) (use c that assms in auto)
  with Inr c show ?thesis by (simp add: claim_ringing_def)
qed

lemma evolves_phase: "evolves s c (phase_record ph c)"
  by (simp add: phase_record_def evolves_def Let_def)

lemma heap_fresh: "calls_inv s \<Longrightarrow> sv_heap s (sv_next s) = None"
  unfolding calls_inv_def heap_inv_def by (metis less_irrefl not_None_eq)

lemma progress_finish: "progress s (start_finish L r owner j ctx native s)"
  by (cases native) (auto simp: progress_def evolves_def start_finish_def Let_def split: option.splits)

lemma progress_reserve: "progress s (snd (invite_reserve L now r owner op_done attempted i pn s))"
  by (auto simp: progress_def evolves_def invite_reserve_def Let_def split: option.splits)

lemma progress_settle: "progress s (invite_settle r owner op_done failed i pn s)"
  unfolding invite_settle_def
  by (auto intro!: progress_update simp: evolves_def split: option.splits)

lemma progress_group: "progress s (group_state_update L now r gs s)"
proof (cases "sv_heap s r")
  case None
  then show ?thesis by (simp add: group_state_update_def)
next
  case (Some c)
  have "progress s (end_call r reason True (update_call r (\<lambda>c. c\<lparr>cl_roster := ro c\<rparr>) s))" for reason ro
    by (auto simp: progress_def evolves_def end_call_heap)
  with Some progress_end show ?thesis
    by (auto simp: group_state_update_def Let_def evolves_def intro!: progress_update)
qed

text \<open>The fields that decide it survive every step.\<close>

lemma call_section_progress: "call_section L s s' \<Longrightarrow> calls_inv s \<Longrightarrow> progress s s'"
proof (induction rule: call_section.induct)
  case (step_start s ctx key owner target video)
  then show ?case
    by (auto simp: start_reserve_def new_call_def heap_fresh intro!: progress_insert split: option.splits)
next
  case (step_incoming s d h)
  then show ?case
    by (auto simp: incoming_def new_call_def heap_fresh intro!: progress_insert progress_signals split: option.splits)
next
  case (step_conclude s r native)
  then show ?case
    by (auto simp: start_conclude_def Let_def intro: progress_end progress_heap_cong [OF _ progress_end]
        split: option.splits)
next
  case (step_answer s ctx key owner i)
  then show ?case unfolding answer_claim_def by (intro progress_claim) (auto simp: evolves_def)
next
  case (step_reject s ctx key owner i)
  then show ?case unfolding reject_claim_def by (intro progress_claim) (auto simp: evolves_def)
next
  case (step_phase s r ph)
  then show ?case
    by (auto simp: configure_def phase_def intro: progress_end progress_update evolves_phase split: option.splits)
next
  case (step_bind s r participants)
  then show ?case by (auto simp: media_bind_def evolves_def intro!: progress_update split: option.splits)
next
  case (step_invite s key owner i)
  then show ?case
    by (auto simp: invite_begin_def evolves_def intro!: progress_update split: sum.splits option.splits)
next
  case (step_end_active s d reason)
  then show ?case by (auto simp: end_active_def intro: progress_end split: option.splits)
next
  case (step_media_failed s d i)
  then show ?case by (auto simp: media_failed_def intro: progress_end split: option.splits)
next
  case (step_media_timeout s r)
  then show ?case by (auto simp: expire_media_def intro: progress_end split: option.splits)
next
  case (step_accept s r)
  then show ?case by (auto simp: peer_accept_def evolves_def intro: progress_update)
next
  case (step_invite_end s r)
  then show ?case unfolding invite_end_def by (intro progress_update) (simp add: evolves_def)
next
  case (step_expire s now r)
  then show ?case unfolding expire_call_def by (intro progress_update) (simp add: evolves_def)
next
  case (step_ticket s now token key owner i)
  then show ?case
    by (intro progress_same) (simp add: media_ticket_def Let_def split: sum.splits option.splits)
next
  case (step_consume s now token)
  then show ?case by (intro progress_same) (simp add: consume_ticket_def Let_def split: option.splits)
next
  case (step_detach s d)
  then show ?case by (intro progress_same) (simp add: detach_remove_def split: option.splits)
qed (auto intro: progress_finish progress_reserve progress_settle progress_group progress_end progress_same
  simp: register_owner_def attach_insert_def Let_def set_online_def forget_call_def release_drop_def)

lemma call_step_progress: "call_step L s s' \<Longrightarrow> calls_inv s \<Longrightarrow> progress s s'"
proof (induction rule: call_step.induct)
  case (by_section s s')
  then show ?case by (rule call_section_progress)
next
  case (step_answered s r c failed)
  then show ?case by (auto simp: answer_result_def evolves_def intro: progress_end progress_update)
qed

section \<open>Runs\<close>

lemma reach_rtranclp: "(call_step L)\<^sup>*\<^sup>* s s' \<Longrightarrow> call_reach L s \<Longrightarrow> call_reach L s'"
  by (induction rule: rtranclp_induct) (auto intro: reach_step)

lemma run_evolves:
  assumes "(call_step L)\<^sup>*\<^sup>* s s'" "call_reach L s" "sv_heap s r = Some c"
  shows "\<exists>c'. sv_heap s' r = Some c' \<and> cl_device c' = cl_device c \<and> cl_direction c' = cl_direction c
    \<and> (cl_state c = Ended \<longrightarrow> cl_state c' = Ended) \<and> (cl_owner c \<noteq> [] \<longrightarrow> cl_owner c' = cl_owner c)"
  using assms
proof (induction rule: rtranclp_induct)
  case (step y z)
  then obtain c1 where c1: "sv_heap y r = Some c1" "cl_device c1 = cl_device c" "cl_direction c1 = cl_direction c"
    "cl_state c = Ended \<longrightarrow> cl_state c1 = Ended" "cl_owner c \<noteq> [] \<longrightarrow> cl_owner c1 = cl_owner c" by blast
  have "progress y z"
    using call_step_progress [OF step.hyps(2)] call_reach_inv reach_rtranclp [OF step.hyps(1) step.prems(1)] by blast
  with c1 obtain c2 where "sv_heap z r = Some c2" "evolves y c1 c2" unfolding progress_def by blast
  with c1 show ?case unfolding evolves_def by metis
qed auto

text \<open>Runs during which an owner stays unregistered.\<close>

definition step_without :: "jid_lib \<Rightarrow> string \<Rightarrow> service \<Rightarrow> service \<Rightarrow> bool" where
  "step_without L owner s s' \<longleftrightarrow> call_step L s s' \<and> owner \<notin> sv_owners s'"

lemma run_without_reach:
  "(step_without L owner)\<^sup>*\<^sup>* s s' \<Longrightarrow> call_reach L s \<Longrightarrow> call_reach L s'"
  by (induction rule: rtranclp_induct) (auto simp: step_without_def intro: reach_step)

lemma run_without_owner:
  assumes "(step_without L owner)\<^sup>*\<^sup>* s s'" "call_reach L s" "owner \<notin> sv_owners s" "owner \<noteq> []"
    and "sv_heap s' r = Some c'" "cl_owner c' = owner" "cl_state c' \<noteq> Ended"
  shows "\<exists>c. sv_heap s r = Some c \<and> cl_owner c = owner \<and> cl_state c \<noteq> Ended"
  using assms
proof (induction arbitrary: c' rule: rtranclp_induct)
  case (step y z)
  have reach: "call_reach L y" using run_without_reach [OF step.hyps(1) step.prems(1)] .
  have dead: "owner \<notin> sv_owners y"
    using step.hyps(1) step.prems(2) by (induction rule: rtranclp_induct) (auto simp: step_without_def)
  have p: "progress y z"
    using step.hyps(2) call_step_progress call_reach_inv [OF reach] by (auto simp: step_without_def)
  have not_alive: "\<not> owner_alive owner y" using dead by (simp add: owner_alive_def)
  obtain c1 where "sv_heap y r = Some c1" "evolves y c1 c'"
    using p step.prems(3-5) not_alive unfolding progress_def by (metis not_None_eq option.inject)
  then have "cl_owner c1 = owner" "cl_state c1 \<noteq> Ended"
    using step.prems not_alive unfolding evolves_def by auto
  with step.IH [OF step.prems(1-3) \<open>sv_heap y r = Some c1\<close>] show ?case by blast
qed blast

section \<open>A sample service for the witnesses\<close>

definition sample_jids :: jid_lib where
  "sample_jids = \<lparr>jl_parse = (\<lambda>raw. Some \<lparr>jid_user = takeWhile (\<lambda>c. c \<noteq> CHR ''@'') raw, jid_agent = 0,
       jid_device = 0, jid_server = tl (dropWhile (\<lambda>c. c \<noteq> CHR ''@'') raw)\<rparr>),
     jl_string = (\<lambda>j. jid_user j @ ''@'' @ jid_server j),
     jl_non_ad = (\<lambda>j. j\<lparr>jid_agent := 0, jid_device := 0\<rparr>), jl_is_empty = (\<lambda>j. jid_server j = []),
     jl_user_server = ''s.whatsapp.net'', jl_hidden_server = ''lid'',
     jl_empty = \<lparr>jid_user = [], jid_agent = 0, jid_device = 0, jid_server = []\<rparr>\<rparr>"

definition sample_peer :: jid where
  "sample_peer = \<lparr>jid_user = ''41'', jid_agent = 0, jid_device = 0, jid_server = ''s.whatsapp.net''\<rparr>"

definition sample_handle :: call_handle where
  "sample_handle = \<lparr>ch_id = ''x'', ch_peer = sample_peer, ch_video = False, ch_conference = False, ch_can_add = True\<rparr>"

lemma sample_peer_jid [simp]:
  "individual_jid sample_jids (jl_string sample_jids (jl_non_ad sample_jids sample_peer)) = Some sample_peer"
  by code_simp

definition sample_ready :: service where
  "sample_ready = set_online 0 True (attach_insert (''t'', ''d'') 5 [] (register_owner ''o'' new_service))"

definition sample_ringing :: service where
  "sample_ringing = incoming sample_jids 0 sample_handle sample_ready"

definition sample_answered :: service where
  "sample_answered = snd (answer_claim False (''t'', ''d'') ''o'' ''x'' sample_ringing)"

lemma sample_reach: "call_reach sample_jids sample_ready" "call_reach sample_jids sample_ringing"
  "call_reach sample_jids sample_answered"
proof -
  show 1: "call_reach sample_jids sample_ready"
    unfolding sample_ready_def
    by (rule reach_step [OF reach_step [OF reach_step [OF reach_new]]])
      (rule by_section step_register step_attach step_online)+
  show 2: "call_reach sample_jids sample_ringing"
    unfolding sample_ringing_def by (rule reach_step [OF 1 by_section [OF step_incoming]])
  show "call_reach sample_jids sample_answered"
    unfolding sample_answered_def by (rule reach_step [OF 2 by_section [OF step_answer]])
qed

definition sample_device :: "nat option \<Rightarrow> device" where
  "sample_device act = \<lparr>dv_key = (''t'', ''d''), dv_client = 5, dv_online = True, dv_self = [], dv_active = act\<rparr>"

definition sample_call :: call where
  "sample_call = (new_call 0 Incoming (jl_string sample_jids sample_peer) False)\<lparr>cl_handle := Some sample_handle,
     cl_id := ''x'', cl_roster := init_participants sample_jids [] (jl_string sample_jids sample_peer) sample_peer\<rparr>"

lemma sample_call_simps [simp]:
  "cl_device sample_call = 0" "cl_handle sample_call = Some sample_handle" "cl_id sample_call = ''x''"
  "cl_state sample_call = Ringing" "cl_direction sample_call = Incoming" "cl_owner sample_call = []"
  "cl_bridge sample_call = new_media_bridge" "cl_group sample_call = False" "cl_pending sample_call = False"
  by (simp_all add: sample_call_def new_call_def)

lemma sample_handle_simps [simp]:
  "ch_peer sample_handle = sample_peer" "ch_id sample_handle = ''x''" "\<not> ch_video sample_handle"
  "\<not> ch_conference sample_handle"
  by (simp_all add: sample_handle_def)

lemma sample_device_simps [simp]:
  "dv_key (sample_device a) = (''t'', ''d'')" "dv_self (sample_device a) = []" "dv_active (sample_device a) = a"
  "(sample_device a)\<lparr>dv_active := b\<rparr> = sample_device b"
  by (simp_all add: sample_device_def)

lemma sample_ready_eq:
  "sample_ready = \<lparr>sv_devices = [(''t'', ''d'') \<mapsto> 0], sv_dev = [0 \<mapsto> sample_device None], sv_calls = [],
     sv_heap = Map.empty, sv_next = 1, sv_owners = {''o''}, sv_tickets = Map.empty, sv_signals = []\<rparr>"
  by (simp add: sample_ready_def set_online_def attach_insert_def register_owner_def new_service_def Let_def
      update_device_def sample_device_def)

lemma sample_ringing_eq:
  "sample_ringing = \<lparr>sv_devices = [(''t'', ''d'') \<mapsto> 0], sv_dev = [0 \<mapsto> sample_device (Some 1)], sv_calls = [1],
     sv_heap = [1 \<mapsto> sample_call], sv_next = 2, sv_owners = {''o''}, sv_tickets = Map.empty, sv_signals = []\<rparr>"
  by (simp add: sample_ringing_def incoming_def sample_ready_eq insert_call_def Let_def update_device_def
      sample_call_def)

lemma sample_lookup:
  "lookup (''t'', ''d'') ''o'' ''x'' claim sample_ringing = (if claim then Inr 1 else Inl ErrConflict)"
  by (simp add: lookup_def owner_alive_def sample_ringing_eq is_call_def call_key_def)

lemma sample_answer:
  "answer_claim False (''t'', ''d'') ''o'' ''x'' sample_ringing = (Inr 1, sample_answered)"
  "sv_heap sample_answered = [1 \<mapsto> sample_call\<lparr>cl_owner := ''o'', cl_state := Connecting, cl_wait := True\<rparr>]"
  "sv_owners sample_answered = {''o''}" "sv_calls sample_answered = [1]"
  "sv_dev sample_answered = [0 \<mapsto> sample_device (Some 1)]" "sv_devices sample_answered = [(''t'', ''d'') \<mapsto> 0]"
  "sv_tickets sample_answered = Map.empty"
proof -
  let ?f = "\<lambda>c. c\<lparr>cl_owner := ''o'', cl_state := Connecting, cl_wait := True\<rparr>"
  have "answer_claim False (''t'', ''d'') ''o'' ''x'' sample_ringing = (Inr 1, update_call 1 ?f sample_ringing)"
    by (simp add: answer_claim_def claim_ringing_def sample_lookup) (simp add: sample_ringing_eq)
  then have eq: "answer_claim False (''t'', ''d'') ''o'' ''x'' sample_ringing = (Inr 1, sample_answered)"
    "sample_answered = update_call 1 ?f sample_ringing" by (simp_all add: sample_answered_def)
  show "answer_claim False (''t'', ''d'') ''o'' ''x'' sample_ringing = (Inr 1, sample_answered)" by (rule eq)
  show "sv_heap sample_answered = [1 \<mapsto> sample_call\<lparr>cl_owner := ''o'', cl_state := Connecting, cl_wait := True\<rparr>]"
    "sv_owners sample_answered = {''o''}" "sv_calls sample_answered = [1]"
    "sv_dev sample_answered = [0 \<mapsto> sample_device (Some 1)]" "sv_devices sample_answered = [(''t'', ''d'') \<mapsto> 0]"
    "sv_tickets sample_answered = Map.empty"
    unfolding eq(2) by (simp_all add: sample_ringing_eq update_call_def)
qed

section \<open>Properties of calls\<close>

text \<open>C24: An ended call is over and an owned call keeps its owner. Along every interleaving of the service's
  sections a record that is ended stays ended, and one that has an owner keeps that owner, so no late
  command, callback or second session can revive or take over a call.\<close>

theorem call_end_and_owner_final:
  assumes "call_reach L s" "(call_step L)\<^sup>*\<^sup>* s s'" "sv_heap s r = Some c"
  shows "map_option cl_device (sv_heap s' r) = Some (cl_device c)
    \<and> (if cl_state c = Ended then map_option cl_state (sv_heap s' r) = Some Ended else True)
    \<and> (if cl_owner c \<noteq> [] then map_option cl_owner (sv_heap s' r) = Some (cl_owner c) else True)"
  using run_evolves [OF assms(2,1,3)] by auto

theorem call_end_and_owner_final_witness:
  "map_option cl_owner (sv_heap (end_call 1 ''hangup'' True sample_answered) 1) = Some ''o''"
  using call_end_and_owner_final [OF sample_reach(3) r_into_rtranclp
      [of "call_step sample_jids", OF by_section [OF step_end [of _ _ 1 "''hangup''" True]]],
      of 1 "sample_call\<lparr>cl_owner := ''o'', cl_state := Connecting, cl_wait := True\<rparr>"]
  by (simp add: sample_answer)

text \<open>A claim is exclusive. Once one session has answered a ringing call, no other session's command
  on that call finds it, in any later state: answering, rejecting, hanging up, inviting and asking for
  a media ticket all go through the lookup that refuses it.\<close>

theorem claim_is_exclusive:
  assumes "call_reach L s" "answer_claim ctx key owner i s = (Inr r, s1)" "(call_step L)\<^sup>*\<^sup>* s1 s2"
    and "other \<noteq> owner"
  shows "lookup key' other i' claim s2 \<noteq> Inr r"
proof
  assume found: "lookup key' other i' claim s2 = Inr r"
  have r1: "call_reach L s1" using reach_step [OF assms(1) by_section [OF step_answer]] assms(2) by (metis snd_conv)
  have "\<exists>c. sv_heap s1 r = Some c \<and> cl_owner c = owner \<and> owner \<noteq> []"
    using assms(2)
    by (auto simp: answer_claim_def claim_ringing_def owner_alive_def elim!: lookup_Inr
        split: if_splits sum.splits option.splits)
  then obtain c where "sv_heap s1 r = Some c" "cl_owner c = owner" "owner \<noteq> []" by blast
  with run_evolves [OF assms(3) r1] obtain c2 where "sv_heap s2 r = Some c2" "cl_owner c2 = owner" by blast
  with lookup_Inr [OF found] assms(4) \<open>owner \<noteq> []\<close> show False by (metis option.inject)
qed

theorem claim_is_exclusive_witness:
  "lookup (''t'', ''d'') ''p'' ''x'' True (register_owner ''p'' sample_answered) \<noteq> Inr 1"
  by (rule claim_is_exclusive [OF sample_reach(2) sample_answer(1), of "register_owner ''p'' sample_answered" "''p''"])
    (auto intro: r_into_rtranclp by_section step_register)

text \<open>C25: A device carries one call. In every reachable state, two calls of one device that are not ended
  and are being placed or have a native call are the same call.\<close>

theorem one_call_per_device:
  assumes "call_reach L s" "sv_heap s r = Some c" "sv_heap s q = Some b"
    and "cl_device c = cl_device b" "cl_state c \<noteq> Ended" "cl_state b \<noteq> Ended"
    and "cl_pending c \<or> cl_handle c \<noteq> None" "cl_pending b \<or> cl_handle b \<noteq> None"
  shows "r = q"
  using call_reach_inv [OF assms(1)] assms(2-8)
  unfolding calls_inv_def live_inv_def committed_def by (metis option.inject)

theorem one_call_per_device_witness:
  "\<exists>r. sv_heap sample_ringing r \<noteq> None \<and> r = 1"
  using one_call_per_device [OF sample_reach(2), of 1 sample_call 1 sample_call]
  by (auto simp: sample_ringing_eq)

text \<open>The history of the service, with the calls a session's \<^verbatim>\<open>Answer\<close> has claimed so far. Only a call so claimed comes to
  the end of an \<^verbatim>\<open>Answer\<close>.\<close>

inductive call_history :: "jid_lib \<Rightarrow> nat set \<Rightarrow> service \<Rightarrow> bool" for L where
  history_new: "call_history L {} new_service"
| history_claim: "call_history L A s \<Longrightarrow> answer_claim ctx key owner i s = (Inr r, s') \<Longrightarrow> call_history L (insert r A) s'"
| history_answered: "call_history L A s \<Longrightarrow> r \<in> A \<Longrightarrow> call_history L A (snd (answer_result r failed s))"
| history_section: "call_history L A s \<Longrightarrow> call_section L s s' \<Longrightarrow> call_history L A s'"

text \<open>No section but those lets audio of an incoming call through.\<close>

definition stays_silent :: "service \<Rightarrow> service \<Rightarrow> bool" where
  "stays_silent s s' \<longleftrightarrow> (\<forall>r c'. sv_heap s' r = Some c' \<longrightarrow> cl_direction c' = Incoming \<longrightarrow> br_audio (cl_bridge c') \<longrightarrow>
     (\<exists>c. sv_heap s r = Some c \<and> cl_direction c = Incoming \<and> br_audio (cl_bridge c)))"

definition silent_change :: "call \<Rightarrow> call \<Rightarrow> bool" where
  "silent_change c c' \<longleftrightarrow> cl_direction c' = cl_direction c
     \<and> (cl_direction c = Incoming \<longrightarrow> br_audio (cl_bridge c') \<longrightarrow> br_audio (cl_bridge c))"

lemma silent_same: "sv_heap s' = sv_heap s \<Longrightarrow> stays_silent s s'"
  by (simp add: stays_silent_def)

lemma silent_refl [simp]: "stays_silent s s" "stays_silent s (s\<lparr>sv_signals := x\<rparr>)"
  by (simp_all add: silent_same)

lemma silent_heap_cong: "sv_heap s' = sv_heap s'' \<Longrightarrow> stays_silent s s'' \<Longrightarrow> stays_silent s s'"
  by (simp add: stays_silent_def)

lemma silent_map:
  assumes "\<And>q. sv_heap s' q = (if q = r then map_option f (sv_heap s r) else sv_heap s q)" "\<And>c. sv_heap s r = Some c \<Longrightarrow> silent_change c (f c)"
  shows "stays_silent s s'"
  unfolding stays_silent_def
proof (intro allI impI)
  fix q c' assume c': "sv_heap s' q = Some c'" "cl_direction c' = Incoming" "br_audio (cl_bridge c')"
  show "\<exists>c. sv_heap s q = Some c \<and> cl_direction c = Incoming \<and> br_audio (cl_bridge c)"
  proof (cases "q = r")
    case True
    then have "map_option f (sv_heap s r) = Some c'" using c'(1) assms(1) [of q] by simp
    then obtain c where "sv_heap s r = Some c" "c' = f c" by (metis map_option_eq_Some)
    with assms(2) [of c] c'(2,3) True show ?thesis by (simp add: silent_change_def)
  next
    case False
    with c' assms(1) [of q] show ?thesis by simp
  qed
qed

lemma silent_update:
  assumes "\<And>c. sv_heap s r = Some c \<Longrightarrow> silent_change c (f c)"
  shows "stays_silent s (update_call r f s)"
  by (rule silent_map [of _ r f]) (simp_all add: assms)

lemma silent_end: "stays_silent s (end_call r reason notify s)"
  by (rule silent_map [OF end_call_heap]) (simp add: silent_change_def end_record_def bridge_close_def)

lemma bind_audio: "bridge_bind b = Some b' \<Longrightarrow> br_audio b' = br_audio b"
  by (auto simp: bridge_bind_def split: if_splits)

lemma silent_insert: "\<not> br_audio (cl_bridge c) \<Longrightarrow> stays_silent s (insert_call d c s)"
  by (auto simp: stays_silent_def insert_call_def Let_def split: if_splits)

lemma silent_claim:
  assumes "\<And>c. silent_change c (f owner c)"
  shows "stays_silent s (snd (claim_ringing f ctx key owner i s))"
proof -
  have "stays_silent s (update_call r (f owner) s)" for r by (rule silent_update) (rule assms)
  then show ?thesis by (simp add: claim_ringing_def split: sum.splits option.splits)
qed

lemma silent_phase: "silent_change c (phase_record ph c)"
  by (simp add: phase_record_def silent_change_def Let_def)

lemma call_section_silent: "call_section L s s' \<Longrightarrow> stays_silent s s'"
proof (induction rule: call_section.induct)
  case (step_start s ctx key owner target video)
  then show ?case
    by (auto simp: start_reserve_def new_call_def new_media_bridge_def intro!: silent_insert split: option.splits)
next
  case (step_incoming s d h)
  then show ?case
    by (auto simp: incoming_def new_call_def new_media_bridge_def intro!: silent_insert split: option.splits)
next
  case (step_conclude s r native)
  then show ?case
    by (auto simp: start_conclude_def Let_def intro: silent_end silent_heap_cong [OF _ silent_end] split: option.splits)
next
  case (step_answer s ctx key owner i)
  then show ?case unfolding answer_claim_def by (intro silent_claim) (simp add: silent_change_def)
next
  case (step_reject s ctx key owner i)
  then show ?case unfolding reject_claim_def by (intro silent_claim) (simp add: silent_change_def)
next
  case (step_phase s r ph)
  then show ?case
    by (auto simp: configure_def phase_def intro: silent_end silent_update silent_phase split: option.splits)
next
  case (step_bind s r participants)
  then show ?case
    by (auto simp: media_bind_def silent_change_def bind_audio intro!: silent_update split: option.splits)
next
  case (step_invite s key owner i)
  then show ?case
    by (auto simp: invite_begin_def silent_change_def intro!: silent_update split: sum.splits option.splits)
next
  case (step_end_active s d reason)
  then show ?case by (auto simp: end_active_def intro: silent_end split: option.splits)
next
  case (step_media_failed s d i)
  then show ?case by (auto simp: media_failed_def intro: silent_end split: option.splits)
next
  case (step_media_timeout s r)
  then show ?case by (auto simp: expire_media_def intro: silent_end split: option.splits)
next
  case (step_accept s r)
  then show ?case
    by (auto simp: peer_accept_def peer_accept_allowed_def silent_change_def intro!: silent_update split: option.splits)
next
  case (step_invite_end s r)
  then show ?case unfolding invite_end_def by (intro silent_update) (simp add: silent_change_def)
next
  case (step_expire s now r)
  then show ?case unfolding expire_call_def by (intro silent_update) (simp add: silent_change_def)
next
  case (step_ticket s now token key owner i)
  then show ?case by (intro silent_same) (simp add: media_ticket_def Let_def split: sum.splits option.splits)
next
  case (step_consume s now token)
  then show ?case by (intro silent_same) (simp add: consume_ticket_def Let_def split: option.splits)
next
  case (step_detach s d)
  then show ?case by (intro silent_same) (simp add: detach_remove_def split: option.splits)
next
  case (step_finish s r c owner j ctx native)
  then show ?case
    by (cases native) (auto simp: stays_silent_def start_finish_def Let_def split: option.splits if_splits)
next
  case (step_reserve s now r owner op_done attempted i pn)
  then show ?case
    by (auto simp: stays_silent_def invite_reserve_def Let_def split: option.splits if_splits)
next
  case (step_settle s r owner op_done failed i pn)
  then show ?case unfolding invite_settle_def
    by (auto intro!: silent_update simp: silent_change_def split: option.splits)
next
  case (step_group s now r gs)
  have trans: "stays_silent a b \<Longrightarrow> stays_silent b c \<Longrightarrow> stays_silent a c" for a b c :: service
    unfolding stays_silent_def by metis
  have "stays_silent s (update_call r (\<lambda>c. c\<lparr>cl_roster := ro c\<rparr>) s)" for ro
    by (rule silent_update) (simp add: silent_change_def)
  then have "stays_silent s (end_call r reason True (update_call r (\<lambda>c. c\<lparr>cl_roster := ro c\<rparr>) s))" for reason ro
    using silent_end by (rule trans)
  then show ?case
    by (auto simp: group_state_update_def Let_def silent_change_def intro!: silent_update silent_end split: option.splits)
next
  case (step_end s r reason notify)
  show ?case by (rule silent_end)
next
  case (step_forget s r)
  show ?case by (simp add: stays_silent_def forget_call_def Let_def split: option.splits)
qed (rule silent_same; simp add: register_owner_def attach_insert_def Let_def set_online_def release_drop_def
  split: option.splits)+

lemma history_kept:
  assumes "call_step L s s'" "call_reach L s" "sv_heap s r = Some c" "cl_direction c = Incoming" "cl_owner c \<noteq> []"
  shows "\<exists>c'. sv_heap s' r = Some c' \<and> cl_direction c' = Incoming \<and> cl_owner c' \<noteq> []"
  using run_evolves [OF r_into_rtranclp [of "call_step L", OF assms(1)] assms(2,3)] assms(4,5) by auto

lemma history_claimed:
  assumes "answer_claim ctx key owner i s = (Inr r, s')"
  shows "\<exists>c'. sv_heap s' r = Some c' \<and> cl_direction c' = Incoming \<and> cl_owner c' \<noteq> []"
  using assms
  by (auto simp: answer_claim_def claim_ringing_def owner_alive_def elim!: lookup_Inr
      split: if_splits sum.splits option.splits)

text \<open>A history is a reachable run, and the calls in it that were answered are incoming calls a session owns.\<close>

lemma history_reach:
  "call_history L A s \<Longrightarrow> call_reach L s
    \<and> (\<forall>r\<in>A. \<exists>c. sv_heap s r = Some c \<and> cl_direction c = Incoming \<and> cl_owner c \<noteq> [])"
proof (induction rule: call_history.induct)
  case history_new
  show ?case by (simp add: reach_new)
next
  case (history_claim A s ctx key owner i r s')
  have st: "call_step L s s'" using by_section [OF step_answer [of L s ctx key owner i]] history_claim.hyps(2) by simp
  have "\<exists>c. sv_heap s' q = Some c \<and> cl_direction c = Incoming \<and> cl_owner c \<noteq> []" if "q \<in> insert r A" for q
    using history_claimed [OF history_claim.hyps(2)] history_kept [OF st] history_claim.IH that by blast
  with reach_step [OF _ st] history_claim.IH show ?case by blast
next
  case (history_answered A s r failed)
  obtain c where "sv_heap s r = Some c" "cl_direction c = Incoming" "cl_owner c \<noteq> []"
    using history_answered by blast
  then have st: "call_step L s (snd (answer_result r failed s))" by (rule step_answered)
  with history_kept [OF st] reach_step [OF _ st] history_answered.IH show ?case by blast
next
  case (history_section A s s')
  have st: "call_step L s s'" using history_section.hyps(2) by (rule by_section)
  with history_kept [OF st] reach_step [OF _ st] history_section.IH show ?case by blast
qed

definition audio_answered :: "nat set \<Rightarrow> service \<Rightarrow> bool" where
  "audio_answered A s \<longleftrightarrow> (\<forall>r c. sv_heap s r = Some c \<longrightarrow> cl_direction c = Incoming \<longrightarrow> br_audio (cl_bridge c) \<longrightarrow> r \<in> A)"

lemma silent_answered: "stays_silent s s' \<Longrightarrow> audio_answered A s \<Longrightarrow> audio_answered A s'"
  unfolding stays_silent_def audio_answered_def by metis

lemma history_audio: "call_history L A s \<Longrightarrow> audio_answered A s"
proof (induction rule: call_history.induct)
  case history_new
  show ?case by (simp add: audio_answered_def new_service_def)
next
  case (history_claim A s ctx key owner i r s')
  have "audio_answered A s'"
    using silent_answered [OF call_section_silent [OF step_answer [of L s ctx key owner i]] history_claim.IH]
      history_claim.hyps(2) by simp
  then show ?case by (auto simp: audio_answered_def)
next
  case (history_answered A s r failed)
  show ?case
  proof (cases failed)
    case True
    then show ?thesis using silent_answered [OF silent_end history_answered.IH] by (simp add: answer_result_def)
  next
    case False
    then show ?thesis
      using history_answered by (auto simp: audio_answered_def answer_result_def split: if_splits)
  qed
next
  case (history_section A s s')
  then show ?case by (blast intro: silent_answered call_section_silent)
qed

text \<open>C26: Sound needs consent. Along every interleaving of the service's sections, an incoming call that
  lets audio through is one a session's \<^verbatim>\<open>Answer\<close> claimed earlier in the run (a \<^verbatim>\<open>Reject\<close>, which also makes
  its session the owner while the call still rings, never opens it), and an outgoing one is a call whose
  peer accepted: relay preparation alone never opens the microphone. The state a client is shown says
  less, and the statement says how much: an active outgoing call is one whose peer accepted, and an
  active incoming call is one a session claimed with \<^verbatim>\<open>Answer\<close> or \<^verbatim>\<open>Reject\<close>, since a native phase between
  the two halves of \<^verbatim>\<open>Reject\<close> may still move the call it is about to end.\<close>

theorem sound_needs_consent:
  assumes "call_history L A s" "sv_heap s r = Some c"
  shows "(audio_allowed (cl_bridge c) \<longrightarrow> (if cl_direction c = Incoming then r \<in> A \<and> cl_owner c \<noteq> [] else cl_peer_accepted c))
    \<and> (cl_state c = CallActive \<longrightarrow> (if cl_direction c = Incoming then cl_owner c \<noteq> [] else cl_peer_accepted c))"
proof -
  have "call_ok c" using inv_call_ok [OF call_reach_inv assms(2)] history_reach [OF assms(1)] by blast
  moreover have "cl_direction c = Incoming \<Longrightarrow> br_audio (cl_bridge c) \<Longrightarrow> r \<in> A"
    using history_audio [OF assms(1)] assms(2) by (auto simp: audio_answered_def)
  ultimately show ?thesis by (auto simp: call_ok_def consent_def audio_allowed_def)
qed

lemma sample_rang: "call_history sample_jids {} sample_ringing"
  unfolding sample_ringing_def sample_ready_def
  by (intro history_section [OF _ step_incoming] history_section [OF _ step_online] history_section [OF _ step_attach]
      history_section [OF _ step_register] history_new)

theorem sound_needs_consent_witness:
  "\<exists>c. sv_heap (snd (answer_result 1 False sample_answered)) 1 = Some c \<and> audio_allowed (cl_bridge c)
     \<and> cl_owner c \<noteq> []"
proof -
  let ?c = "(sample_call\<lparr>cl_owner := ''o'', cl_state := Connecting, cl_wait := True\<rparr>)
    \<lparr>cl_bridge := allow_audio new_media_bridge\<rparr>"
  have c: "sv_heap (snd (answer_result 1 False sample_answered)) 1 = Some ?c"
    "audio_allowed (cl_bridge ?c)" "cl_direction ?c = Incoming"
    by (simp_all add: answer_result_def sample_answer allow_audio_def new_media_bridge_def audio_allowed_def
        sample_call_def new_call_def)
  have "call_history sample_jids {1} sample_answered"
    using history_claim [OF sample_rang sample_answer(1)] by simp
  from sound_needs_consent [OF history_answered [OF this, of 1 False] c(1)] c show ?thesis by auto
qed

text \<open>C32: A media ticket admits its owner, once. In every reachable state a ticket that is accepted names a
  call that is not ended, is still attached to its device and is owned by the live session the ticket
  was made for, before the ticket's expiry; and it is spent: it is not accepted again at any time, nor
  is there another ticket for the same call.\<close>

theorem media_ticket_admits_once:
  assumes "call_reach L s" "consume_ticket now token s = (Inr r, s')"
  shows "(case sv_heap s r of None \<Rightarrow> False
     | Some c \<Rightarrow> cl_state c \<noteq> Ended \<and> attached_as c s \<and> owner_alive (cl_owner c) s
         \<and> map_option tk_owner (sv_tickets s token) = Some (cl_owner c))
    \<and> now < (case sv_tickets s token of None \<Rightarrow> now | Some k \<Rightarrow> tk_expires k)
    \<and> fst (consume_ticket now' token s') = Inl ErrNotFound
    \<and> r \<notin> tk_record ` ran (sv_tickets s')"
proof -
  have t: "ticket_inv s" using call_reach_inv [OF assms(1)] by (simp add: calls_inv_def)
  from assms(2) obtain k c where k: "sv_tickets s token = Some k" "tk_record k = r" "sv_heap s r = Some c"
    "now < tk_expires k" "owner_alive (tk_owner k) s" "cl_owner c = tk_owner k" "cl_state c \<noteq> Ended"
    "attached_as c s" and s': "s' = s\<lparr>sv_tickets := (sv_tickets s)(token := None)\<rparr>"
    by (auto simp: consume_ticket_def Let_def split: option.splits if_splits)
  have "r \<noteq> tk_record k'" if "sv_tickets s u = Some k'" "u \<noteq> token" for u k'
    using t k(1,2) that unfolding ticket_inv_def by metis
  then have "r \<notin> tk_record ` ran (sv_tickets s')" unfolding s' ran_def by (auto split: if_splits)
  then show ?thesis using k by (simp add: s' consume_ticket_def)
qed

definition sample_ticketed :: service where
  "sample_ticketed = snd (media_ticket 0 ''k'' (''t'', ''d'') ''o'' ''x'' sample_answered)"

theorem media_ticket_admits_once_witness:
  "fst (consume_ticket 5 ''k'' sample_ticketed) = Inr 1
   \<and> fst (consume_ticket 6 ''k'' (snd (consume_ticket 5 ''k'' sample_ticketed))) = Inl ErrNotFound"
proof -
  have look: "lookup (''t'', ''d'') ''o'' ''x'' False sample_answered = Inr 1"
    by (simp add: lookup_def owner_alive_def is_call_def call_key_def sample_answer)
  have eq: "sample_ticketed = sample_answered\<lparr>sv_tickets := [''k'' \<mapsto>
      \<lparr>tk_record = 1, tk_owner = ''o'', tk_expires = ticket_lifetime\<rparr>]\<rparr>"
    by (simp add: sample_ticketed_def media_ticket_def look sample_answer new_media_bridge_def fun_upd_def)
  have got: "fst (consume_ticket 5 ''k'' sample_ticketed) = Inr 1"
    by (simp add: eq consume_ticket_def sample_answer owner_alive_def attached_as_def ticket_lifetime_def)
  have "call_reach sample_jids sample_ticketed"
    unfolding sample_ticketed_def by (rule reach_step [OF sample_reach(3) by_section [OF step_ticket]])
  from media_ticket_admits_once [OF this, of 5 "''k''" 1 "snd (consume_ticket 5 ''k'' sample_ticketed)" 6] got
  show ?thesis by (metis prod.collapse)
qed

text \<open>A released session owns nothing alive. Once \<^verbatim>\<open>ReleaseOwner\<close> has taken a session away, no step of
  any interleaving that does not register it again gives it a call: every call of that session that
  is not ended was already in the list the release goes on to end. Run without interruption, the
  release leaves the session no call that is not ended and no ticket.\<close>

theorem released_owner_owns_nothing:
  assumes "call_reach L s" "owner \<noteq> []" "(step_without L owner)\<^sup>*\<^sup>* (release_drop owner s) s'"
  shows "{r. map_option cl_owner (sv_heap s' r) = Some owner \<and> map_option cl_state (sv_heap s' r) \<noteq> Some Ended}
       \<subseteq> set (owned_calls owner s)
    \<and> {r. map_option cl_owner (sv_heap (release_owner owner s) r) = Some owner
         \<and> map_option cl_state (sv_heap (release_owner owner s) r) \<noteq> Some Ended} = {}
    \<and> owner \<notin> tk_owner ` ran (sv_tickets (release_owner owner s))"
proof -
  have inv: "calls_inv s" using call_reach_inv [OF assms(1)] .
  have r0: "call_reach L (release_drop owner s)" by (rule reach_step [OF assms(1) by_section [OF step_release]])
  have gone: "owner \<notin> sv_owners (release_drop owner s)" using assms(2) by (simp add: release_drop_def)
  have heap0: "sv_heap (release_drop owner s) = sv_heap s" by (simp add: release_drop_def)
  have listed: "r \<in> set (owned_calls owner s)" if "sv_heap s r = Some c" "cl_owner c = owner" "cl_state c \<noteq> Ended" for r c
    using inv that by (auto simp: owned_calls_def calls_inv_def heap_inv_def)
  have 1: "r \<in> set (owned_calls owner s)"
    if "sv_heap s' r = Some c'" "cl_owner c' = owner" "cl_state c' \<noteq> Ended" for r c'
    using run_without_owner [OF assms(3) r0 gone assms(2) that] listed unfolding heap0 by blast
  define ends where "ends = (\<lambda>rs t. fold (\<lambda>r. end_call r ''session_closed'' True) rs t)"
  have ended: "cl_state c' = Ended \<or> (\<exists>c. sv_heap t r = Some c \<and> cl_owner c = cl_owner c' \<and> cl_state c \<noteq> Ended \<and> r \<notin> set rs)"
    if "sv_heap (ends rs t) r = Some c'" for rs t r c'
    using that unfolding ends_def
  proof (induction rs arbitrary: t)
    case (Cons q rs)
    have "cl_state z = Ended" if "sv_heap (end_call q ''session_closed'' True t) q = Some z" for z
      using that by (auto simp: end_call_heap)
    moreover have "sv_heap (end_call q ''session_closed'' True t) r = sv_heap t r" if "r \<noteq> q"
      using that by (simp add: end_call_heap)
    ultimately show ?case
      using Cons.IH [of "end_call q ''session_closed'' True t"] Cons.prems by (cases "r = q") auto
  qed auto
  have tickets: "sv_tickets (ends rs t) u = Some k \<Longrightarrow> sv_tickets t u = Some k" for rs t u k
    unfolding ends_def
  proof (induction rs arbitrary: t)
    case (Cons q rs)
    have "sv_tickets (end_call q ''session_closed'' True t) u = Some k \<Longrightarrow> sv_tickets t u = Some k"
      by (auto simp: end_call_def Let_def split: option.splits if_splits)
    with Cons show ?case by simp
  qed simp
  have rel: "release_owner owner s = ends (owned_calls owner s) (release_drop owner s)"
    using assms(2) by (simp add: release_owner_def ends_def)
  have 2: "cl_state c' = Ended" if "sv_heap (release_owner owner s) r = Some c'" "cl_owner c' = owner" for r c'
    using ended [of "owned_calls owner s" "release_drop owner s" r c'] that listed unfolding rel heap0 by blast
  have 3: "tk_owner k \<noteq> owner" if "sv_tickets (release_owner owner s) u = Some k" for u k
    using tickets [of "owned_calls owner s" "release_drop owner s" u k] that assms(2) unfolding rel
    by (auto simp: release_drop_def split: option.splits if_splits)
  have 4: "owner \<notin> tk_owner ` ran (sv_tickets (release_owner owner s))"
    using 3 unfolding ran_def by blast
  show ?thesis using 1 2 4 by auto
qed

theorem released_owner_owns_nothing_witness:
  "sv_owners (release_owner ''o'' sample_answered) = {} \<and>
   {r. map_option cl_owner (sv_heap (release_owner ''o'' sample_answered) r) = Some ''o''
         \<and> map_option cl_state (sv_heap (release_owner ''o'' sample_answered) r) \<noteq> Some Ended} = {}"
proof -
  have "owned_calls ''o'' sample_answered = [1]" by (simp add: owned_calls_def sample_answer)
  then have "sv_owners (release_owner ''o'' sample_answered) = {}"
    by (simp add: release_owner_def release_drop_def sample_answer end_call_def Let_def split: option.splits)
  with released_owner_owns_nothing [OF sample_reach(3), of "''o''" "release_drop ''o'' sample_answered"]
  show ?thesis by simp
qed

text \<open>A group call never exceeds eight people. In every reachable state the people who hold a slot of a
  group call (ourselves, the connected, the invited) are at most eight, across invitations, their
  failures and expiries, and native rosters; a roster beyond that ends the call instead.\<close>

theorem group_capacity:
  assumes "call_reach L s" "sv_heap s r = Some c" "cl_group c"
  shows "participant_count (cl_roster c) \<le> 8"
  using inv_call_ok [OF call_reach_inv [OF assms(1)] assms(2)] assms(3)
  by (simp add: call_ok_def participant_limit_def)

text \<open>An outgoing call of the sample service, accepted by its peer, with media attached, then reported as a
  conference.\<close>

definition sample_out_call :: call where
  "sample_out_call = (new_call 0 Outgoing (jl_string sample_jids sample_peer) False)\<lparr>cl_owner := ''o'',
     cl_handle := Some sample_handle, cl_id := ''x'',
     cl_roster := init_participants sample_jids [] (jl_string sample_jids sample_peer) sample_peer,
     cl_wait := True, cl_cancelled := True\<rparr>"

definition sample_placed :: service where
  "sample_placed = snd (start_reserve sample_jids False (''t'', ''d'') ''o'' ''41'' False sample_ready)"

definition sample_out :: service where
  "sample_out = start_finish sample_jids 1 ''o'' sample_peer False (Some sample_handle) sample_placed"

lemma sample_target_jid [simp]: "individual_jid sample_jids ''41'' = Some sample_peer"
  by code_simp

lemma sample_non_ad [simp]: "jl_non_ad sample_jids sample_peer = sample_peer"
  by (simp add: sample_jids_def sample_peer_def)

lemma sample_placed_eq:
  "sample_placed = sample_ready\<lparr>sv_dev := [0 \<mapsto> sample_device (Some 1)],
     sv_heap := [1 \<mapsto> (new_call 0 Outgoing (jl_string sample_jids sample_peer) False)\<lparr>cl_owner := ''o'',
        cl_pending := True\<rparr>], sv_calls := [1], sv_next := 2\<rparr>"
  by (simp add: sample_placed_def start_reserve_def sample_ready_eq owner_alive_def insert_call_def Let_def
      update_device_def) (simp add: sample_device_def)

lemma sample_out_eq: "sample_out = sample_placed\<lparr>sv_heap := [1 \<mapsto> sample_out_call]\<rparr>"
proof -
  have alive: "start_alive 1 ''o'' False sample_placed"
    by (simp add: start_alive_def sample_placed_eq attached_as_def owner_alive_def sample_ready_eq new_call_def)
  have heap: "sv_heap sample_placed 1 = Some ((new_call 0 Outgoing (jl_string sample_jids sample_peer) False)
      \<lparr>cl_owner := ''o'', cl_pending := True\<rparr>)" (is "_ = Some ?c")
    by (simp add: sample_placed_eq)
  have own: "device_self ?c sample_placed = []"
    by (simp add: device_self_def sample_placed_eq new_call_def)
  show ?thesis
    unfolding sample_out_def start_finish_def heap option.case Let_def eqTrueI [OF alive] own
    by (simp add: update_call_def sample_out_call_def new_call_def sample_placed_eq)
qed

text \<open>A notification without members frees slots at most.\<close>

lemma count_next_nil:
  "participant_count (next_roster L own now \<lparr>gs_tx = tx, gs_entries = []\<rparr> ro) \<le> participant_count ro"
proof -
  have "holds_slot p" if "holds_slot (carry_row now tx p)" for p
    using that by (auto simp: carry_row_def holds_slot_def Let_def split: if_splits)
  from count_map_le [of "carry_row now tx", OF this] count_expire [of now ro] show ?thesis
    by (simp add: next_roster_def participant_count_def) (meson order_trans)
qed

lemma sample_out_reach: "call_reach sample_jids sample_out"
proof -
  have 1: "call_reach sample_jids sample_placed"
    unfolding sample_placed_def by (rule reach_step [OF sample_reach(1) by_section [OF step_start]])
  show ?thesis
    unfolding sample_out_def
    by (rule reach_step [OF 1 by_section [OF step_finish]], simp add: sample_placed_eq)
      (simp_all add: new_call_def)
qed

definition sample_group :: service where
  "sample_group = group_state_update sample_jids 7 1 \<lparr>gs_tx = 0, gs_entries = []\<rparr>
     (media_bind 1 True sample_out)"

lemma sample_group_call:
  "\<exists>c. sv_heap sample_group 1 = Some c \<and> cl_group c"
proof -
  let ?c = "sample_out_call\<lparr>cl_bridge := new_media_bridge\<lparr>br_used := True, br_participants := True\<rparr>, cl_wait := False\<rparr>"
  let ?gs = "\<lparr>gs_tx = 0, gs_entries = []\<rparr> :: group_state"
  have c: "cl_state ?c = Ringing" "cl_direction ?c = Outgoing" "cl_owner ?c = ''o''" "cl_tx ?c = 0"
    "group_capable (cl_bridge ?c)"
    by (simp_all add: sample_out_call_def new_call_def group_capable_def new_media_bridge_def)
  have bound: "sv_heap (media_bind 1 True sample_out) 1 = Some ?c" "owner_alive ''o'' (media_bind 1 True sample_out)"
    by (simp_all add: media_bind_def sample_out_eq update_call_def bridge_bind_def owner_alive_def sample_placed_eq
        sample_ready_eq sample_out_call_def new_call_def new_media_bridge_def)
  have "participant_count (next_roster sample_jids own 7 ?gs (cl_roster ?c)) \<le> participant_limit" for own
    using count_next_nil [of sample_jids own 7 0 "cl_roster ?c"]
      count_init [of sample_jids "[]" "jl_string sample_jids sample_peer" sample_peer]
    by (simp add: sample_out_call_def participant_limit_def)
  then have "\<not> participant_limit < participant_count (next_roster sample_jids own 7 ?gs (cl_roster ?c))" for own
    by (simp add: not_less)
  then show ?thesis
    unfolding sample_group_def group_state_update_def bound(1) using c bound by (simp add: Let_def del: One_nat_def)
qed

theorem group_capacity_witness:
  "\<exists>c. sv_heap sample_group 1 = Some c \<and> participant_count (cl_roster c) \<le> 8"
proof -
  have "call_reach sample_jids sample_group"
    unfolding sample_group_def by (rule reach_step [OF reach_step [OF sample_out_reach by_section [OF step_bind]] by_section [OF step_group]])
  with sample_group_call group_capacity show ?thesis by blast
qed

text \<open>C33: A phase report connects everyone. While a call is not yet a conference, a native phase report
  marks every participant row connected, the rows of people whose invitation failed or expired
  included, and each of them then takes a slot.\<close>

theorem phase_connects_failed_invites:
  assumes "sv_heap s r = Some c" "cl_state c = CallActive" "\<not> cl_group c"
    and "cl_peer_accepted c" "cl_media_active c" "cl_owner c \<noteq> []" "ph \<noteq> PhaseEnded"
    and "p \<in> set (ro_rows (cl_roster c))" "pt_state p = PFailed"
  shows "case sv_heap (phase r ph s) r of None \<Rightarrow> False
    | Some c' \<Rightarrow> p\<lparr>pt_state := PConnected\<rparr> \<in> set (ro_rows (cl_roster c'))
        \<and> participant_count (cl_roster c') = length (ro_rows (cl_roster c))"
proof -
  have "phase_record ph c = c\<lparr>cl_media_active := True, cl_state := CallActive, cl_ring := False,
      cl_roster := connect_rows (cl_roster c)\<rparr>"
    using assms(2-6) by (simp add: phase_record_def Let_def)
  then show ?thesis
    using assms(1,7,8) by (simp add: phase_def connect_rows_def participant_count_def holds_slot_def)
qed

text \<open>An active call with one failed invitation.\<close>

definition sample_failed :: service where
  "sample_failed = update_call 1 (\<lambda>c. c\<lparr>cl_state := CallActive, cl_peer_accepted := True, cl_media_active := True,
     cl_roster := \<lparr>ro_rows = [(new_participant ''5@lid'' [] 1)\<lparr>pt_state := PFailed\<rparr>], ro_order = 1\<rparr>\<rparr>) sample_out"

theorem phase_connects_failed_invites_witness:
  "\<exists>c. sv_heap (phase 1 PhaseActive sample_failed) 1 = Some c \<and> participant_count (cl_roster c) = 1"
proof -
  let ?row = "(new_participant ''5@lid'' [] 1)\<lparr>pt_state := PFailed\<rparr>"
  let ?c = "sample_out_call\<lparr>cl_state := CallActive, cl_peer_accepted := True, cl_media_active := True,
     cl_roster := \<lparr>ro_rows = [?row], ro_order = 1\<rparr>\<rparr>"
  have "sv_heap sample_failed 1 = Some ?c"
    by (simp add: sample_failed_def sample_out_eq)
  then show ?thesis
    using phase_connects_failed_invites [of sample_failed 1 ?c PhaseActive ?row]
    by (auto simp: sample_out_call_def new_call_def split: option.splits)
qed

end
