(* ===== verification/Ledger.thy ===== *)
theory Ledger
  imports Prelude
begin

text \<open>
  The deletion ledger's lines and the verdict a restore folds from them (internal/ledger/fold.go and the
  line checks of internal/ledger/ledger.go).

  A time is an instant, so \<^verbatim>\<open>UTC()\<close> is the identity. The optional fields of a line are options; the
  fold reads them where \<^verbatim>\<open>check\<close> has established that they are there (\<open>Ledger_File\<close> proves that a
  read yields only lines that pass it), and \<open>date_of\<close> gives the zero time where the code would
  dereference nil.
\<close>

section \<open>Lines\<close>

datatype line_type = TypeDeleted | TypeRecovered | TypePurged | TypeMovedOut | TypeOther string

record line =
  ln_v :: int
  ln_event :: uuid
  ln_type :: line_type
  ln_workspace :: uuid
  ln_device :: uuid
  ln_deleted_at :: "timestamp option"
  ln_purge_after :: "timestamp option"
  ln_deleted_by :: "uuid option"
  ln_to :: "uuid option"
  ln_occurred :: timestamp

definition ledger_version :: int where
  "ledger_version = 1"

datatype line_problem = BadVersion int | MissingId | NoDates line_type | NoDeletion | NoDestination | UnknownType string

definition check_line :: "line \<Rightarrow> line_problem option" where
  "check_line l =
     (if ln_v l \<noteq> ledger_version then Some (BadVersion (ln_v l))
      else if ln_event l = uuid_nil \<or> ln_workspace l = uuid_nil \<or> ln_device l = uuid_nil
              \<or> is_zero_time (ln_occurred l) then Some MissingId
      else case ln_type l of
        TypeDeleted \<Rightarrow> if ln_deleted_at l = None \<or> ln_purge_after l = None then Some (NoDates TypeDeleted) else None
      | TypePurged \<Rightarrow> if ln_deleted_at l = None \<or> ln_purge_after l = None then Some (NoDates TypePurged) else None
      | TypeRecovered \<Rightarrow> if ln_deleted_at l = None then Some NoDeletion else None
      | TypeMovedOut \<Rightarrow> if ln_to l = None then Some NoDestination else None
      | TypeOther t \<Rightarrow> Some (UnknownType t))"

definition date_of :: "timestamp option \<Rightarrow> timestamp" where
  "date_of t = (case t of None \<Rightarrow> 0 | Some d \<Rightarrow> d)"

section \<open>Where a number is\<close>

datatype fold_problem = NoSingleWorkspace nat | LostLines "timestamp list"

definition add_new :: "'a \<Rightarrow> 'a list \<Rightarrow> 'a list" where
  "add_new x xs = (if x \<in> set xs then xs else xs @ [x])"

definition move_target :: "line \<Rightarrow> uuid" where
  "move_target l = (case ln_to l of None \<Rightarrow> uuid_nil | Some w \<Rightarrow> w)"

definition where_is :: "line list \<Rightarrow> fold_problem + (uuid \<times> bool)" where
  "where_is lines =
     (let moves = filter (\<lambda>l. ln_type l = TypeMovedOut) lines in
      if moves = [] then
        (let ws = fold (\<lambda>l. add_new (ln_workspace l)) lines [] in
         case ws of [w] \<Rightarrow> Inr (w, False) | _ \<Rightarrow> Inl (NoSingleWorkspace (length ws)))
      else
        (let sources = map ln_workspace moves;
             ends = fold (\<lambda>m acc. if move_target m \<notin> set sources then add_new (move_target m) acc else acc) moves [] in
         case ends of [w] \<Rightarrow> Inr (w, True)
         | _ \<Rightarrow> Inr (move_target (last (sort_key ln_occurred moves)), True)))"

section \<open>The verdict\<close>

datatype device_state = StateLive | StateExcluded | StatePurged

record reversal =
  rv_deleted_at :: timestamp
  rv_event :: uuid
  rv_occurred :: timestamp

record ledger_device =
  ld_id :: uuid
  ld_workspace :: uuid
  ld_moved :: bool
  ld_state :: device_state
  ld_deleted_at :: timestamp
  ld_purge_after :: timestamp
  ld_deleted_by :: "uuid option"
  ld_event :: uuid
  ld_occurred :: timestamp
  ld_reversed :: "reversal list"

fun first_purge :: "line list \<Rightarrow> line option \<Rightarrow> line option" where
  "first_purge [] best = best"
| "first_purge (l # ls) best = first_purge ls
     (if ln_type l = TypePurged
         \<and> (case best of None \<Rightarrow> True | Some b \<Rightarrow> date_of (ln_purge_after l) < date_of (ln_purge_after b))
      then Some l else best)"

definition recoveries :: "line list \<Rightarrow> (timestamp \<rightharpoonup> line)" where
  "recoveries lines = fold (\<lambda>l m. if ln_type l = TypeRecovered then m(date_of (ln_deleted_at l) \<mapsto> l) else m)
     lines Map.empty"

text \<open>The deletions: those a recovery undid, and the open ones, each date once.\<close>

fun split_deletions ::
  "(timestamp \<rightharpoonup> line) \<Rightarrow> line list \<Rightarrow> timestamp set \<Rightarrow> reversal list \<times> line list \<Rightarrow> reversal list \<times> line list" where
  "split_deletions rec [] seen acc = acc"
| "split_deletions rec (l # ls) seen (reversed, pending) =
     (if ln_type l \<noteq> TypeDeleted then split_deletions rec ls seen (reversed, pending)
      else let d = date_of (ln_deleted_at l) in
        if d \<in> seen then split_deletions rec ls seen (reversed, pending)
        else split_deletions rec ls (insert d seen)
          (case rec d of
             Some r \<Rightarrow> (reversed @ [\<lparr>rv_deleted_at = d, rv_event = ln_event r, rv_occurred = ln_occurred r\<rparr>], pending)
           | None \<Rightarrow> (reversed, pending @ [l])))"

definition live_device :: "uuid \<Rightarrow> uuid \<Rightarrow> bool \<Rightarrow> ledger_device" where
  "live_device i w moved = \<lparr>ld_id = i, ld_workspace = w, ld_moved = moved, ld_state = StateLive,
     ld_deleted_at = 0, ld_purge_after = 0, ld_deleted_by = None, ld_event = uuid_nil, ld_occurred = 0,
     ld_reversed = []\<rparr>"

definition fold_device :: "uuid \<Rightarrow> line list \<Rightarrow> fold_problem + ledger_device" where
  "fold_device i lines =
     (case where_is lines of
        Inl e \<Rightarrow> Inl e
      | Inr (w, moved) \<Rightarrow>
          let d = live_device i w moved in
          case first_purge lines None of
            Some p \<Rightarrow> Inr (d\<lparr>ld_state := StatePurged, ld_deleted_at := date_of (ln_deleted_at p),
                ld_purge_after := date_of (ln_purge_after p), ld_event := ln_event p, ld_occurred := ln_occurred p\<rparr>)
          | None \<Rightarrow>
              let (reversed, pending) = split_deletions (recoveries lines) lines {} ([], []);
                  d1 = d\<lparr>ld_reversed := reversed\<rparr>
              in (case pending of
                    [] \<Rightarrow> Inr d1
                  | [l] \<Rightarrow> Inr (d1\<lparr>ld_state := StateExcluded, ld_deleted_at := date_of (ln_deleted_at l),
                      ld_purge_after := date_of (ln_purge_after l), ld_deleted_by := ln_deleted_by l,
                      ld_event := ln_event l, ld_occurred := ln_occurred l\<rparr>)
                  | _ \<Rightarrow> Inl (LostLines (map (\<lambda>l. date_of (ln_deleted_at l)) pending))))"

definition device_order :: "line list \<Rightarrow> uuid list" where
  "device_order lines = fold (\<lambda>l. add_new (ln_device l)) lines []"

definition fold_ledger :: "line list \<Rightarrow> ledger_device list \<times> (uuid \<times> fold_problem) list" where
  "fold_ledger lines =
     (let results = map (\<lambda>i. (i, fold_device i (filter (\<lambda>l. ln_device l = i) lines))) (device_order lines)
      in (concat (map (\<lambda>(i, r). case r of Inr d \<Rightarrow> [d] | Inl e \<Rightarrow> []) results),
          concat (map (\<lambda>(i, r). case r of Inr d \<Rightarrow> [] | Inl e \<Rightarrow> [(i, e)]) results)))"

section \<open>What the fold computes\<close>

lemma set_fold_add_new: "set (fold (\<lambda>l. add_new (f l)) xs acc) = set acc \<union> f ` set xs"
  by (induction xs arbitrary: acc) (auto simp: add_new_def)

lemma distinct_fold_add_new: "distinct acc \<Longrightarrow> distinct (fold (\<lambda>l. add_new (f l)) xs acc)"
  by (induction xs arbitrary: acc) (auto simp: add_new_def)

lemma first_purge_some:
  assumes "first_purge ls best = Some p"
  shows "p \<in> set ls \<and> ln_type p = TypePurged \<or> best = Some p"
    "\<And>l. l \<in> set ls \<Longrightarrow> ln_type l = TypePurged \<Longrightarrow> date_of (ln_purge_after p) \<le> date_of (ln_purge_after l)"
    "\<And>b. best = Some b \<Longrightarrow> date_of (ln_purge_after p) \<le> date_of (ln_purge_after b)"
proof -
  have "(p \<in> set ls \<and> ln_type p = TypePurged \<or> best = Some p)
    \<and> (\<forall>l\<in>set ls. ln_type l = TypePurged \<longrightarrow> date_of (ln_purge_after p) \<le> date_of (ln_purge_after l))
    \<and> (\<forall>b. best = Some b \<longrightarrow> date_of (ln_purge_after p) \<le> date_of (ln_purge_after b))"
    using assms
  proof (induction ls arbitrary: best)
    case (Cons l ls)
    from Cons.IH [OF Cons.prems [unfolded first_purge.simps]] show ?case
      by (cases best) (auto split: if_splits)
  qed simp
  then show "p \<in> set ls \<and> ln_type p = TypePurged \<or> best = Some p"
    "\<And>l. l \<in> set ls \<Longrightarrow> ln_type l = TypePurged \<Longrightarrow> date_of (ln_purge_after p) \<le> date_of (ln_purge_after l)"
    "\<And>b. best = Some b \<Longrightarrow> date_of (ln_purge_after p) \<le> date_of (ln_purge_after b)"
    by blast+
qed

lemma first_purge_none: "first_purge ls best = None \<longleftrightarrow> best = None \<and> list_all (\<lambda>l. ln_type l \<noteq> TypePurged) ls"
  by (induction ls arbitrary: best) (auto split: option.splits)

definition deletion_dates :: "line list \<Rightarrow> timestamp set" where
  "deletion_dates lines = (\<lambda>l. date_of (ln_deleted_at l)) ` set (filter (\<lambda>l. ln_type l = TypeDeleted) lines)"

definition recovered_dates :: "line list \<Rightarrow> timestamp set" where
  "recovered_dates lines = (\<lambda>l. date_of (ln_deleted_at l)) ` set (filter (\<lambda>l. ln_type l = TypeRecovered) lines)"

lemma recoveries_dom: "dom (recoveries lines) = recovered_dates lines"
proof -
  have "dom (fold (\<lambda>l m. if ln_type l = TypeRecovered then m(date_of (ln_deleted_at l) \<mapsto> l) else m) lines m)
      = dom m \<union> recovered_dates lines" for m
    by (induction lines arbitrary: m) (auto simp: recovered_dates_def)
  then show ?thesis by (simp add: recoveries_def)
qed

lemma deletion_dates_Cons:
  "deletion_dates (l # ls) = (if ln_type l = TypeDeleted then insert (date_of (ln_deleted_at l)) (deletion_dates ls)
     else deletion_dates ls)"
  by (auto simp: deletion_dates_def)

text \<open>The open deletions are exactly the dates no recovery names, each once, and the reversed ones the rest.\<close>

lemma split_deletions_open:
  assumes "split_deletions rec lines seen (rv, op) = (rv', op')"
    and "list_all (\<lambda>l. ln_type l = TypeDeleted) op" "distinct (map (\<lambda>l. date_of (ln_deleted_at l)) op)"
    and "(\<lambda>l. date_of (ln_deleted_at l)) ` set op \<subseteq> seen"
  shows "list_all (\<lambda>l. ln_type l = TypeDeleted) op' \<and> distinct (map (\<lambda>l. date_of (ln_deleted_at l)) op')
    \<and> (\<lambda>l. date_of (ln_deleted_at l)) ` set op'
        = (\<lambda>l. date_of (ln_deleted_at l)) ` set op \<union> (deletion_dates lines - seen - dom rec)
    \<and> rv_deleted_at ` set rv' = rv_deleted_at ` set rv \<union> ((deletion_dates lines - seen) \<inter> dom rec)
    \<and> set op' \<subseteq> set op \<union> set lines"
  using assms
proof (induction lines arbitrary: seen rv op)
  case (Cons l ls)
  let ?d = "date_of (ln_deleted_at l)"
  consider "ln_type l \<noteq> TypeDeleted" | "ln_type l = TypeDeleted" "?d \<in> seen"
    | "ln_type l = TypeDeleted" "?d \<notin> seen" "rec ?d = None"
    | r where "ln_type l = TypeDeleted" "?d \<notin> seen" "rec ?d = Some r" by (cases "rec ?d") auto
  then show ?case
  proof cases
    case 1
    with Cons.prems Cons.IH [of seen rv op] show ?thesis by (auto simp: deletion_dates_Cons)
  next
    case 2
    with Cons.prems Cons.IH [of seen rv op] show ?thesis by (auto simp: deletion_dates_Cons)
  next
    case 3
    have n: "?d \<notin> (\<lambda>l. date_of (ln_deleted_at l)) ` set op" using Cons.prems(4) 3 by blast
    have run: "split_deletions rec ls (insert ?d seen) (rv, op @ [l]) = (rv', op')"
      using Cons.prems(1) 3 by (simp add: Let_def)
    have eq: "insert ?d (F \<union> (deletion_dates ls - insert ?d seen - dom rec))
        = F \<union> (insert ?d (deletion_dates ls) - seen - dom rec)"
      "(deletion_dates ls - insert ?d seen) \<inter> dom rec = (insert ?d (deletion_dates ls) - seen) \<inter> dom rec" for F
      using 3 by auto
    have "list_all (\<lambda>l. ln_type l = TypeDeleted) (op @ [l])" "distinct (map (\<lambda>l. date_of (ln_deleted_at l)) (op @ [l]))"
      "(\<lambda>l. date_of (ln_deleted_at l)) ` set (op @ [l]) \<subseteq> insert ?d seen"
      using Cons.prems(2-4) 3 n by auto
    from Cons.IH [OF run this] show ?thesis
      unfolding deletion_dates_Cons eq(2) using 3 eq(1) by (auto simp: eq(1))
  next
    case 4
    have run: "split_deletions rec ls (insert ?d seen)
        (rv @ [\<lparr>rv_deleted_at = ?d, rv_event = ln_event r, rv_occurred = ln_occurred r\<rparr>], op) = (rv', op')"
      using Cons.prems(1) 4 by (simp add: Let_def)
    have eq: "deletion_dates ls - insert ?d seen - dom rec = insert ?d (deletion_dates ls) - seen - dom rec"
      "insert ?d (F \<union> (deletion_dates ls - insert ?d seen) \<inter> dom rec)
        = F \<union> (insert ?d (deletion_dates ls) - seen) \<inter> dom rec" for F
      using 4 by auto
    from Cons.IH [OF run Cons.prems(2,3)] Cons.prems(4) 4 show ?thesis
      unfolding deletion_dates_Cons eq(1) by (auto simp: eq(2) subset_insertI2)
  qed
qed (simp add: deletion_dates_def)

lemma singleton_list: "distinct xs \<Longrightarrow> set xs = {x} \<Longrightarrow> xs = [x]"
proof (cases xs)
  case (Cons a ys)
  assume "distinct xs" "set xs = {x}"
  with Cons have "a = x" "set ys \<subseteq> {x}" "x \<notin> set ys" by auto
  with Cons show ?thesis by (cases ys) auto
qed simp

lemma fold_device_open:
  assumes "where_is lines = Inr (w, moved)" "first_purge lines None = None"
    and "split_deletions (recoveries lines) lines {} ([], []) = (rv, op)"
  shows "fold_device i lines = (case op of [] \<Rightarrow> Inr ((live_device i w moved)\<lparr>ld_reversed := rv\<rparr>)
     | [l] \<Rightarrow> Inr ((live_device i w moved)\<lparr>ld_reversed := rv, ld_state := StateExcluded,
         ld_deleted_at := date_of (ln_deleted_at l), ld_purge_after := date_of (ln_purge_after l),
         ld_deleted_by := ln_deleted_by l, ld_event := ln_event l, ld_occurred := ln_occurred l\<rparr>)
     | _ \<Rightarrow> Inl (LostLines (map (\<lambda>l. date_of (ln_deleted_at l)) op)))"
  using assms by (simp add: fold_device_def Let_def split: list.splits)

lemma split_deletions_start:
  assumes "split_deletions (recoveries lines) lines {} ([], []) = (rv, op)"
  shows "list_all (\<lambda>l. ln_type l = TypeDeleted) op" "distinct (map (\<lambda>l. date_of (ln_deleted_at l)) op)"
    "(\<lambda>l. date_of (ln_deleted_at l)) ` set op = deletion_dates lines - recovered_dates lines"
    "rv_deleted_at ` set rv = deletion_dates lines \<inter> recovered_dates lines" "set op \<subseteq> set lines"
  using split_deletions_open [OF assms] by (auto simp: recoveries_dom)

text \<open>How many dates are open, read off the list.\<close>

lemma open_cases:
  assumes "split_deletions (recoveries lines) lines {} ([], []) = (rv, op)"
  shows "card (deletion_dates lines - recovered_dates lines) = length op"
    "finite (deletion_dates lines - recovered_dates lines)"
proof -
  note f = split_deletions_start [OF assms]
  have "card ((\<lambda>l. date_of (ln_deleted_at l)) ` set op) = length op"
    using distinct_card [OF f(2)] by simp
  with f(3) show "card (deletion_dates lines - recovered_dates lines) = length op" by simp
  show "finite (deletion_dates lines - recovered_dates lines)" unfolding f(3) [symmetric] by simp
qed

section \<open>Properties of the fold\<close>

lemma fold_by_cause:
  assumes "fold_device i lines = Inr d"
  shows "ld_id d = i \<and>
    (if list_ex (\<lambda>l. ln_type l = TypePurged) lines
     then ld_state d = StatePurged
        \<and> ld_purge_after d = Min ((\<lambda>l. date_of (ln_purge_after l)) ` {l \<in> set lines. ln_type l = TypePurged})
     else rv_deleted_at ` set (ld_reversed d) = deletion_dates lines \<inter> recovered_dates lines
        \<and> (if deletion_dates lines \<subseteq> recovered_dates lines then ld_state d = StateLive
           else ld_state d = StateExcluded \<and> deletion_dates lines - recovered_dates lines = {ld_deleted_at d}))"
proof -
  obtain w moved where w: "where_is lines = Inr (w, moved)"
    using assms by (auto simp: fold_device_def split: sum.splits)
  show ?thesis
  proof (cases "first_purge lines None")
    case (Some p)
    note fp = first_purge_some [OF Some]
    have d: "ld_id d = i" "ld_state d = StatePurged" "ld_purge_after d = date_of (ln_purge_after p)"
      using assms w Some by (auto simp: fold_device_def live_device_def)
    have "Min ((\<lambda>l. date_of (ln_purge_after l)) ` {l \<in> set lines. ln_type l = TypePurged}) = date_of (ln_purge_after p)"
      by (rule Min_eqI) (use fp in auto)
    moreover have "list_ex (\<lambda>l. ln_type l = TypePurged) lines" using fp(1) by (auto simp: list_ex_iff)
    ultimately show ?thesis using d by simp
  next
    case None
    then have np: "\<not> list_ex (\<lambda>l. ln_type l = TypePurged) lines"
      by (auto simp: first_purge_none list_ex_iff list_all_iff)
    obtain rv op where sp: "split_deletions (recoveries lines) lines {} ([], []) = (rv, op)" by fastforce
    note f = split_deletions_start [OF sp]
    have d: "(op = [] \<and> ld_state d = StateLive \<or> (\<exists>l. op = [l] \<and> ld_state d = StateExcluded
        \<and> ld_deleted_at d = date_of (ln_deleted_at l))) \<and> ld_reversed d = rv \<and> ld_id d = i"
      using assms unfolding fold_device_open [OF w None sp]
      by (auto simp: live_device_def split: list.splits)
    with f np show ?thesis by auto
  qed
qed

text \<open>C3: The verdict is by cause. A number with a purged line is purged, with the earliest purge date any
  of its purged lines names, whatever else happened. Any other number is live exactly when every
  deletion has a recovery that names its date, and excluded exactly when one deletion has none, with
  that deletion's date; the reversed deletions are the ones a recovery names. With more than one
  unreversed deletion there is no verdict.\<close>

theorem fold_verdict:
  assumes "fold_device i lines = Inr d"
  shows "ld_id d = i \<and>
    (if list_ex (\<lambda>l. ln_type l = TypePurged) lines
     then ld_state d = StatePurged
        \<and> ld_purge_after d = Min ((\<lambda>l. date_of (ln_purge_after l)) ` {l \<in> set lines. ln_type l = TypePurged})
     else rv_deleted_at ` set (ld_reversed d) = deletion_dates lines \<inter> recovered_dates lines
        \<and> (if deletion_dates lines \<subseteq> recovered_dates lines then ld_state d = StateLive
           else ld_state d = StateExcluded \<and> deletion_dates lines - recovered_dates lines = {ld_deleted_at d}))"
  by (rule fold_by_cause [OF assms])

definition sample_line :: "uuid \<Rightarrow> line_type \<Rightarrow> timestamp \<Rightarrow> line" where
  "sample_line e t d = \<lparr>ln_v = 1, ln_event = e, ln_type = t, ln_workspace = 3, ln_device = 7,
     ln_deleted_at = Some d, ln_purge_after = Some (d + 10), ln_deleted_by = None, ln_to = None,
     ln_occurred = d + 1\<rparr>"

definition sample_history :: "line list" where
  "sample_history = [sample_line 1 TypeDeleted 5, sample_line 2 TypeRecovered 5, sample_line 3 TypeDeleted 8,
     sample_line 4 TypeDeleted 5]"

lemma sample_history_folds: "\<exists>d. fold_device 7 sample_history = Inr d"
  by (simp add: sample_history_def sample_line_def fold_device_def where_is_def add_new_def recoveries_def
      date_of_def)

theorem fold_verdict_witness:
  "\<exists>d. fold_device 7 sample_history = Inr d \<and> ld_state d = StateExcluded \<and> ld_deleted_at d = 8"
proof -
  obtain d where d: "fold_device 7 sample_history = Inr d" using sample_history_folds by blast
  have "deletion_dates sample_history = {5, 8}" "recovered_dates sample_history = {5}"
    by (simp_all add: deletion_dates_def recovered_dates_def sample_history_def sample_line_def date_of_def insert_commute)
  with fold_verdict [OF d] d show ?thesis
    by (auto simp: sample_history_def sample_line_def)
qed

text \<open>What a restore acts on: the state, the date of an exclusion and the date of a purge.\<close>

definition verdict :: "fold_problem + ledger_device \<Rightarrow> (device_state \<times> timestamp) option" where
  "verdict r = (case r of Inl e \<Rightarrow> None
     | Inr d \<Rightarrow> Some (ld_state d, case ld_state d of StateLive \<Rightarrow> 0 | StateExcluded \<Rightarrow> ld_deleted_at d
         | StatePurged \<Rightarrow> ld_purge_after d))"

text \<open>The workspace is known unless the lines name none or several and there is no move.\<close>

lemma where_is_Inl:
  "(\<exists>e. where_is lines = Inl e) \<longleftrightarrow>
     list_all (\<lambda>l. ln_type l \<noteq> TypeMovedOut) lines \<and> \<not> (\<exists>w. ln_workspace ` set lines = {w})"
proof -
  let ?ws = "fold (\<lambda>l. add_new (ln_workspace l)) lines []"
  have ws: "set ?ws = ln_workspace ` set lines" "distinct ?ws"
    using set_fold_add_new [of ln_workspace lines "[]"] distinct_fold_add_new [of "[]" ln_workspace lines] by auto
  have "(\<exists>w. ?ws = [w]) \<longleftrightarrow> (\<exists>w. ln_workspace ` set lines = {w})"
    unfolding ws(1) [symmetric] using singleton_list [OF ws(2)] by auto
  moreover have "filter (\<lambda>l. ln_type l = TypeMovedOut) lines = [] \<longleftrightarrow> list_all (\<lambda>l. ln_type l \<noteq> TypeMovedOut) lines"
    by (auto simp: filter_empty_conv list_all_iff)
  moreover have "(\<exists>e. where_is lines = Inl e) \<longleftrightarrow>
      filter (\<lambda>l. ln_type l = TypeMovedOut) lines = [] \<and> \<not> (\<exists>w. ?ws = [w])"
    by (auto simp: where_is_def Let_def split: list.splits)
  ultimately show ?thesis by simp
qed

lemma verdict_by_sets:
  "verdict (fold_device i lines) =
     (if list_all (\<lambda>l. ln_type l \<noteq> TypeMovedOut) lines \<and> \<not> (\<exists>w. ln_workspace ` set lines = {w}) then None
      else if list_ex (\<lambda>l. ln_type l = TypePurged) lines
      then Some (StatePurged, Min ((\<lambda>l. date_of (ln_purge_after l)) ` {l \<in> set lines. ln_type l = TypePurged}))
      else let u = deletion_dates lines - recovered_dates lines in
        if u = {} then Some (StateLive, 0) else if card u = 1 then Some (StateExcluded, the_elem u) else None)"
proof (cases "where_is lines")
  case (Inl e)
  then have "list_all (\<lambda>l. ln_type l \<noteq> TypeMovedOut) lines \<and> \<not> (\<exists>w. ln_workspace ` set lines = {w})"
    using where_is_Inl [of lines] by blast
  with Inl show ?thesis by (simp add: fold_device_def verdict_def)
next
  case (Inr wm)
  obtain w moved where w: "where_is lines = Inr (w, moved)" using Inr by (cases wm) auto
  have ok: "\<not> (list_all (\<lambda>l. ln_type l \<noteq> TypeMovedOut) lines \<and> \<not> (\<exists>w. ln_workspace ` set lines = {w}))"
    using where_is_Inl [of lines] w by auto
  show ?thesis
  proof (cases "\<exists>d. fold_device i lines = Inr d")
    case True
    then obtain d where d: "fold_device i lines = Inr d" by blast
    from fold_by_cause [OF d] ok d show ?thesis
      by (auto simp: verdict_def Let_def)
  next
    case False
    then have none: "first_purge lines None = None"
      using w by (cases "first_purge lines None") (auto simp: fold_device_def Let_def)
    then have np: "\<not> list_ex (\<lambda>l. ln_type l = TypePurged) lines"
      by (auto simp: first_purge_none list_ex_iff list_all_iff)
    obtain rv op where sp: "split_deletions (recoveries lines) lines {} ([], []) = (rv, op)" by fastforce
    have "2 \<le> length op"
      using False unfolding fold_device_open [OF w none sp] by (auto split: list.splits)
    with open_cases [OF sp] have "card (deletion_dates lines - recovered_dates lines) \<ge> 2" by simp
    then have "deletion_dates lines - recovered_dates lines \<noteq> {}"
      "card (deletion_dates lines - recovered_dates lines) \<noteq> 1" by (metis card.empty not_numeral_le_zero, linarith)
    with False np ok show ?thesis
      by (cases "fold_device i lines") (auto simp: verdict_def Let_def)
  qed
qed

text \<open>The order of a number's lines and their repetitions do not matter. Two histories with the same set
  of lines have the same verdict: the same failure, or the same state with the same date of exclusion
  or purge. So an export that wrote a line twice, or lines that follow the recovery that undid them,
  fold as if written once and in order.\<close>

theorem fold_order_irrelevant:
  assumes "set lines = set lines'"
  shows "verdict (fold_device i lines) = verdict (fold_device j lines')"
  unfolding verdict_by_sets using assms
  by (simp add: list_all_iff list_ex_iff deletion_dates_def recovered_dates_def)

theorem fold_order_irrelevant_witness:
  "verdict (fold_device 7 sample_history) = verdict (fold_device 7 (rev sample_history @ sample_history))"
  by (rule fold_order_irrelevant) simp

lemma fold_device_id: "fold_device i lines = Inr d \<Longrightarrow> ld_id d = i"
  by (rule fold_by_cause [THEN conjunct1])

text \<open>Every number gets one answer. The numbers with a verdict and the numbers with a problem are, each
  once and never both, the numbers the lines name.\<close>

theorem fold_covers_every_device:
  "distinct (map ld_id (fst (fold_ledger lines)) @ map fst (snd (fold_ledger lines)))
   \<and> set (map ld_id (fst (fold_ledger lines)) @ map fst (snd (fold_ledger lines))) = ln_device ` set lines"
proof -
  let ?r = "\<lambda>i. fold_device i (filter (\<lambda>l. ln_device l = i) lines)"
  let ?ok = "\<lambda>i. \<exists>d. ?r i = Inr d"
  have devs: "map ld_id (concat (map (\<lambda>(i, r). case r of Inr d \<Rightarrow> [d] | Inl e \<Rightarrow> []) (map (\<lambda>i. (i, ?r i)) is)))
      = filter ?ok is" for "is"
    by (induction "is") (auto simp: fold_device_id split: sum.splits)
  have probs: "map fst (concat (map (\<lambda>(i, r). case r of Inr d \<Rightarrow> [] | Inl e \<Rightarrow> [(i, e)]) (map (\<lambda>i. (i, ?r i)) is)))
      = filter (\<lambda>i. \<not> ?ok i) is" for "is"
    by (induction "is") (auto split: sum.splits)
  have order: "distinct (device_order lines)" "set (device_order lines) = ln_device ` set lines"
    unfolding device_order_def by (simp_all add: distinct_fold_add_new set_fold_add_new)
  have "map ld_id (fst (fold_ledger lines)) = filter ?ok (device_order lines)"
    "map fst (snd (fold_ledger lines)) = filter (\<lambda>i. \<not> ?ok i) (device_order lines)"
    unfolding fold_ledger_def Let_def fst_conv snd_conv by (rule devs, rule probs)
  with order show ?thesis by auto
qed

text \<open>A number is where its moves end. When the moves of a number form one chain of workspaces, in
  whatever order and however often their lines appear, it is at the end of the chain.\<close>

theorem moved_number_is_at_chain_end:
  assumes "distinct ws" "2 \<le> length ws"
    and "(\<lambda>l. (ln_workspace l, ln_to l)) ` {l \<in> set lines. ln_type l = TypeMovedOut}
           = (\<lambda>k. (ws ! k, Some (ws ! Suc k))) ` {k. Suc k < length ws}"
  shows "where_is lines = Inr (last ws, True)"
proof -
  let ?moves = "filter (\<lambda>l. ln_type l = TypeMovedOut) lines"
  have img: "(\<lambda>l. (ln_workspace l, ln_to l)) ` set ?moves = (\<lambda>k. (ws ! k, Some (ws ! Suc k))) ` {k. Suc k < length ws}"
    using assms(3) by simp
  have src: "ln_workspace ` set ?moves = (\<lambda>k. ws ! k) ` {k. Suc k < length ws}"
    using arg_cong [OF img, of "image fst"] by (simp add: image_image)
  have tgt: "move_target ` set ?moves = (\<lambda>k. ws ! Suc k) ` {k. Suc k < length ws}"
    using arg_cong [OF img, of "image (\<lambda>p. case snd p of None \<Rightarrow> uuid_nil | Some w \<Rightarrow> w)"]
    by (simp add: image_image move_target_def)
  define n where "n = length ws - 2"
  have last: "last ws = ws ! Suc n" "Suc n < length ws"
  proof -
    have "length ws - 1 = Suc n" using assms(2) by (simp add: n_def)
    with assms(2) show "last ws = ws ! Suc n" by (metis last_conv_nth list.size(3) not_numeral_le_zero)
    show "Suc n < length ws" using assms(2) by (simp add: n_def)
  qed
  have ends: "{w \<in> move_target ` set ?moves. w \<notin> ln_workspace ` set ?moves} = {last ws}"
  proof (rule set_eqI)
    fix w
    have "w \<in> move_target ` set ?moves \<and> w \<notin> ln_workspace ` set ?moves \<longleftrightarrow>
        (\<exists>k. Suc k < length ws \<and> w = ws ! Suc k \<and> (\<forall>j. Suc j < length ws \<longrightarrow> ws ! Suc k \<noteq> ws ! j))"
      unfolding src tgt by auto
    also have "\<dots> \<longleftrightarrow> (\<exists>k. Suc k < length ws \<and> w = ws ! Suc k \<and> \<not> Suc (Suc k) < length ws)"
      using assms(1) by (metis Suc_lessD nth_eq_iff_index_eq)
    also have "\<dots> \<longleftrightarrow> w = ws ! Suc n"
    proof -
      have "Suc k < length ws \<and> \<not> Suc (Suc k) < length ws \<longleftrightarrow> k = n" for k
        using assms(2) by (auto simp: n_def)
      then show ?thesis by metis
    qed
    finally show "w \<in> {w \<in> move_target ` set ?moves. w \<notin> ln_workspace ` set ?moves} \<longleftrightarrow> w \<in> {last ws}"
      by (simp add: last(1))
  qed
  let ?step = "\<lambda>m acc. if move_target m \<notin> set (map ln_workspace ?moves) then add_new (move_target m) acc else acc"
  have fold: "set (fold ?step ms acc) = set acc \<union> {w \<in> move_target ` set ms. w \<notin> ln_workspace ` set ?moves}"
    "distinct acc \<Longrightarrow> distinct (fold ?step ms acc)" for ms acc
    by (induction ms arbitrary: acc) (auto simp: add_new_def)
  have "fold ?step ?moves [] = [last ws]"
    by (rule singleton_list) (use fold [where acc = "[]" and ms = ?moves] ends in auto)
  moreover have "?moves \<noteq> []"
  proof
    assume none: "?moves = []"
    have "(\<lambda>k. ws ! k) ` {k. Suc k < length ws} = {}" unfolding src [symmetric] none by simp
    with last(2) show False by blast
  qed
  ultimately show ?thesis by (simp add: where_is_def Let_def)
qed

definition sample_move :: "uuid \<Rightarrow> uuid \<Rightarrow> timestamp \<Rightarrow> line" where
  "sample_move a b t = (sample_line 1 TypeMovedOut t)\<lparr>ln_workspace := a, ln_to := Some b\<rparr>"

theorem moved_number_is_at_chain_end_witness:
  "where_is [sample_move 4 5 9, sample_line 1 TypeDeleted 5, sample_move 3 4 8] = Inr (5, True)"
proof -
  let ?ls = "[sample_move 4 5 9, sample_line 1 TypeDeleted 5, sample_move 3 4 8]"
  have 1: "{l \<in> set ?ls. ln_type l = TypeMovedOut} = {sample_move 4 5 9, sample_move 3 4 8}"
    by (auto simp: sample_move_def sample_line_def)
  have 2: "{k. Suc k < length [3, 4, 5 :: uuid]} = {0, 1}" by auto
  have "(\<lambda>l. (ln_workspace l, ln_to l)) ` {l \<in> set ?ls. ln_type l = TypeMovedOut}
      = (\<lambda>k. ([3, 4, 5] ! k, Some ([3, 4, 5] ! Suc k))) ` {k. Suc k < length [3, 4, 5 :: uuid]}"
    unfolding 1 2 by (simp add: sample_move_def sample_line_def insert_commute)
  from moved_number_is_at_chain_end [OF _ _ this] show ?thesis by simp
qed

end
