(* ===== verification/Ledger_File.thy ===== *)
theory Ledger_File
  imports Ledger
begin

text \<open>
  The ledger as a file (internal/ledger/ledger.go): appending lines, cutting a torn tail, reading and
  compacting.

  A file is its bytes, and an absent file is \<open>None\<close>. The JSON codec of a line is an argument: \<open>enc\<close> gives
  the bytes of a line, \<open>dec\<close> reads the first value of some bytes and gives the line and the bytes it
  left unread, as a \<^verbatim>\<open>json.Decoder\<close> does. \<open>append_env\<close> says which of the system calls of one append
  fail. The lock, the temporary file of a compaction and the creation modes are not modelled: what a
  compaction that fails leaves is the file it found.
\<close>

section \<open>Writing\<close>

definition newline :: char where
  "newline = CHR 0x0A"

datatype append_error = BadLine line_problem | EncodeFailed | OpenFailed | StatFailed | TailFailed
  | WriteFailed | SyncFailed | DirSyncFailed | CloseFailed

type_synonym encoder = "line \<Rightarrow> string option"
type_synonym decoder = "string \<Rightarrow> (line \<times> string) option"

definition marshal :: "encoder \<Rightarrow> line \<Rightarrow> append_error + string" where
  "marshal enc l =
     (let l1 = l\<lparr>ln_v := ledger_version\<rparr> in
      case check_line l1 of
        Some e \<Rightarrow> Inl (BadLine e)
      | None \<Rightarrow> (case enc l1 of None \<Rightarrow> Inl EncodeFailed | Some b \<Rightarrow> Inr (b @ [newline])))"

fun marshal_all :: "encoder \<Rightarrow> line list \<Rightarrow> append_error + string" where
  "marshal_all enc [] = Inr []"
| "marshal_all enc (l # ls) = (case marshal enc l of
      Inl e \<Rightarrow> Inl e
    | Inr b \<Rightarrow> (case marshal_all enc ls of Inl e \<Rightarrow> Inl e | Inr bs \<Rightarrow> Inr (b @ bs)))"

definition tail_chunk :: nat where
  "tail_chunk = 64 * 1024"

fun last_index :: "char \<Rightarrow> string \<Rightarrow> nat option" where
  "last_index c [] = None"
| "last_index c (x # xs) = (case last_index c xs of
      Some i \<Rightarrow> Some (Suc i)
    | None \<Rightarrow> if x = c then Some 0 else None)"

text \<open>How much of a torn file is kept: searched backwards, a chunk at a time.\<close>

function keep_length :: "string \<Rightarrow> nat \<Rightarrow> nat" where
  "keep_length content stop =
     (if stop = 0 then 0
      else let start = stop - tail_chunk; buf = take (stop - start) (drop start content)
           in (case last_index newline buf of
                 Some i \<Rightarrow> start + i + 1
               | None \<Rightarrow> keep_length content start))"
  by pat_completeness auto
termination
  by (relation "measure (\<lambda>(content, n). n)") (simp_all add: tail_chunk_def)

declare keep_length.simps [simp del]

definition cut_torn_tail :: "string \<Rightarrow> string" where
  "cut_torn_tail content =
     (if content \<noteq> [] \<and> last content = newline then content
      else take (keep_length content (length content)) content)"

record append_env =
  ap_open :: bool
  ap_stat :: bool
  ap_tail :: bool
  ap_stat2 :: bool
  ap_written :: "nat option"
  ap_sync :: bool
  ap_truncate :: bool
  ap_dir :: bool
  ap_close :: bool

definition append_lines ::
  "encoder \<Rightarrow> append_env \<Rightarrow> line list \<Rightarrow> string option \<Rightarrow> append_error option \<times> string option" where
  "append_lines enc e lines file =
     (if lines = [] then (None, file)
      else case marshal_all enc lines of
        Inl err \<Rightarrow> (Some err, file)
      | Inr buf \<Rightarrow>
          if \<not> ap_open e then (Some OpenFailed, file)
          else let c0 = (case file of None \<Rightarrow> [] | Some c \<Rightarrow> c) in
            if \<not> ap_stat e then (Some StatFailed, Some c0)
            else if c0 \<noteq> [] \<and> \<not> ap_tail e then (Some TailFailed, Some c0)
            else let c1 = (if c0 = [] then c0 else cut_torn_tail c0) in
              if c0 \<noteq> [] \<and> \<not> ap_stat2 e then (Some StatFailed, Some c1)
              else (case ap_written e of
                  Some n \<Rightarrow> (Some WriteFailed, Some (if ap_truncate e then c1 else c1 @ take n buf))
                | None \<Rightarrow>
                    if \<not> ap_sync e then (Some SyncFailed, Some (if ap_truncate e then c1 else c1 @ buf))
                    else if file = None \<and> \<not> ap_dir e then (Some DirSyncFailed, Some (c1 @ buf))
                    else if \<not> ap_close e then (Some CloseFailed, Some (c1 @ buf))
                    else (None, Some (c1 @ buf))))"

section \<open>Reading\<close>

function lines_of :: "string \<Rightarrow> string list" where
  "lines_of s = (if s = [] then []
     else takeWhile (\<lambda>c. c \<noteq> newline) s # lines_of (tl (dropWhile (\<lambda>c. c \<noteq> newline) s)))"
  by pat_completeness auto
termination
proof (relation "measure length", simp)
  fix s :: string
  assume "s \<noteq> []"
  then have "0 < length s" by simp
  then show "(tl (dropWhile (\<lambda>c. c \<noteq> newline) s), s) \<in> measure length"
    using length_dropWhile_le [of "\<lambda>c. c \<noteq> newline" s]
    by (simp only: in_measure length_tl)
qed

declare lines_of.simps [simp del]

definition max_line :: nat where
  "max_line = 1024 * 1024"

definition drop_cr :: "string \<Rightarrow> string" where
  "drop_cr s = (if s \<noteq> [] \<and> last s = CHR 0x0D then butlast s else s)"

record read_report =
  lr_lines :: "line list"
  lr_duplicates :: nat
  lr_torn :: bool

datatype read_error = DamagedAt nat | NotALine nat line_problem | LineTooLong

text \<open>The state of the scan: how many lines were seen, the number of one that did not parse, the report.\<close>

type_synonym scan = "nat \<times> nat option \<times> read_report"

definition read_step :: "decoder \<Rightarrow> scan \<Rightarrow> string \<Rightarrow> read_error + scan" where
  "read_step dec st raw =
     (case st of (n, bad, rep) \<Rightarrow>
       if max_line \<le> length raw then Inl LineTooLong
       else let r = trim_space (drop_cr raw) in
         if r = [] then Inr (n + 1, bad, rep)
         else case bad of
           Some k \<Rightarrow> Inl (DamagedAt k)
         | None \<Rightarrow> (case dec r of
             None \<Rightarrow> Inr (n + 1, Some (n + 1), rep)
           | Some (l, rest) \<Rightarrow> (case check_line l of
               Some e \<Rightarrow> Inl (NotALine (n + 1) e)
             | None \<Rightarrow>
                 if ln_event l \<in> ln_event ` set (lr_lines rep)
                 then Inr (n + 1, None, rep\<lparr>lr_duplicates := lr_duplicates rep + 1\<rparr>)
                 else Inr (n + 1, None, rep\<lparr>lr_lines := lr_lines rep @ [l]\<rparr>))))"

fun read_loop :: "decoder \<Rightarrow> scan \<Rightarrow> string list \<Rightarrow> read_error + scan" where
  "read_loop dec st [] = Inr st"
| "read_loop dec st (raw # rest) = (case read_step dec st raw of
      Inl e \<Rightarrow> Inl e
    | Inr st' \<Rightarrow> read_loop dec st' rest)"

definition empty_report :: read_report where
  "empty_report = \<lparr>lr_lines = [], lr_duplicates = 0, lr_torn = False\<rparr>"

definition read_ledger :: "decoder \<Rightarrow> string \<Rightarrow> read_error + read_report" where
  "read_ledger dec content = (case read_loop dec (0, None, empty_report) (lines_of content) of
      Inl e \<Rightarrow> Inl e
    | Inr (n, bad, rep) \<Rightarrow> Inr (rep\<lparr>lr_torn := (bad \<noteq> None)\<rparr>))"

section \<open>Compaction\<close>

definition newest_of :: "line list \<Rightarrow> uuid \<Rightarrow> timestamp" where
  "newest_of lines = fold (\<lambda>l m. if m (ln_device l) < ln_occurred l then m(ln_device l := ln_occurred l) else m)
     lines (\<lambda>d. 0)"

record compact_result =
  cr_kept :: nat
  cr_dropped :: nat
  cr_rewritten :: bool

datatype compact_error = CompactRead read_error | CompactMarshal append_error | CompactIO

definition compact :: "encoder \<Rightarrow> decoder \<Rightarrow> bool \<Rightarrow> timestamp \<Rightarrow> duration \<Rightarrow> string option
    \<Rightarrow> (compact_error + compact_result) \<times> string option" where
  "compact enc dec io_ok now keep file =
     (case file of
        None \<Rightarrow> (Inr \<lparr>cr_kept = 0, cr_dropped = 0, cr_rewritten = False\<rparr>, file)
      | Some content \<Rightarrow> (case read_ledger dec content of
          Inl e \<Rightarrow> (Inl (CompactRead e), file)
        | Inr rep \<Rightarrow>
            let cutoff = now - keep;
                kept = filter (\<lambda>l. \<not> newest_of (lr_lines rep) (ln_device l) < cutoff) (lr_lines rep);
                dropped = length (lr_lines rep) - length kept
            in (case marshal_all enc kept of
                  Inl e \<Rightarrow> (Inl (CompactMarshal e), file)
                | Inr buf \<Rightarrow>
                    if dropped = 0 \<and> lr_duplicates rep = 0 \<and> \<not> lr_torn rep
                    then (Inr \<lparr>cr_kept = length kept, cr_dropped = 0, cr_rewritten = False\<rparr>, file)
                    else if \<not> io_ok then (Inl CompactIO, file)
                    else (Inr \<lparr>cr_kept = length kept, cr_dropped = dropped, cr_rewritten = True\<rparr>, Some buf))))"

section \<open>The tail\<close>

lemma last_index_None: "last_index c xs = None \<longleftrightarrow> c \<notin> set xs"
  by (induction xs) (auto split: option.splits)

lemma last_index_Some:
  "last_index c xs = Some i \<Longrightarrow> i < length xs \<and> xs ! i = c \<and> c \<notin> set (drop (Suc i) xs)"
proof (induction xs arbitrary: i)
  case (Cons x xs)
  then show ?case
    by (auto split: option.splits if_splits simp: last_index_None)
qed simp

text \<open>The backwards search finds the last newline, wherever it lies.\<close>

lemma keep_length_spec:
  assumes "stop \<le> length content" "newline \<notin> set (drop stop content)"
  shows "keep_length content stop \<le> length content"
    "newline \<notin> set (drop (keep_length content stop) content)"
    "keep_length content stop = 0 \<or> content ! (keep_length content stop - 1) = newline"
proof -
  have "keep_length content stop \<le> length content
    \<and> newline \<notin> set (drop (keep_length content stop) content)
    \<and> (keep_length content stop = 0 \<or> content ! (keep_length content stop - 1) = newline)"
    using assms
  proof (induction content stop rule: keep_length.induct)
    case (1 content stop)
    let ?start = "stop - tail_chunk"
    let ?buf = "take (stop - ?start) (drop ?start content)"
    show ?case
    proof (cases "stop = 0")
      case True
      with "1.prems" show ?thesis by (simp add: keep_length.simps)
    next
      case False
      have split: "drop ?start content = ?buf @ drop stop content"
        using append_take_drop_id [of "stop - ?start" "drop ?start content"] by (simp add: add.commute)
      show ?thesis
      proof (cases "last_index newline ?buf")
        case None
        have "set (drop ?start content) = set ?buf \<union> set (drop stop content)"
          by (metis split set_append)
        with None "1.prems"(2) have "newline \<notin> set (drop ?start content)" by (simp add: last_index_None)
        with "1.IH" [OF False refl refl None] "1.prems"(1) False None show ?thesis
          by (subst (1 2 3 4) keep_length.simps) (simp add: Let_def)
      next
        case (Some i)
        note li = last_index_Some [OF Some]
        have k: "keep_length content stop = ?start + i + 1"
          using False Some by (subst keep_length.simps) (simp add: Let_def)
        have "drop (?start + i + 1) content = drop (Suc i) ?buf @ drop stop content"
          using arg_cong [OF split, of "drop (Suc i)"] li by (simp add: add.commute)
        then have "newline \<notin> set (drop (?start + i + 1) content)" using li "1.prems"(2) by simp
        moreover have "?start + i + 1 \<le> length content" "content ! (?start + i) = newline"
          using li "1.prems"(1) by auto
        ultimately show ?thesis unfolding k by simp
      qed
    qed
  qed
  then show "keep_length content stop \<le> length content"
    "newline \<notin> set (drop (keep_length content stop) content)"
    "keep_length content stop = 0 \<or> content ! (keep_length content stop - 1) = newline"
    by blast+
qed

section \<open>Lines\<close>

lemma lines_of_Nil [simp]: "lines_of [] = []"
  by (simp add: lines_of.simps)

lemma line_split:
  "newline \<notin> set l \<Longrightarrow> takeWhile (\<lambda>c. c \<noteq> newline) (l @ newline # s) = l"
  "newline \<notin> set l \<Longrightarrow> dropWhile (\<lambda>c. c \<noteq> newline) (l @ newline # s) = newline # s"
  "newline \<notin> set l \<Longrightarrow> takeWhile (\<lambda>c. c \<noteq> newline) l = l"
  "newline \<notin> set l \<Longrightarrow> dropWhile (\<lambda>c. c \<noteq> newline) l = []"
  by (induction l) auto

lemma lines_of_line:
  assumes "newline \<notin> set l"
  shows "lines_of (l @ newline # s) = l # lines_of s"
  by (subst lines_of.simps) (simp only: line_split(1,2) [OF assms] list.sel, simp)

lemma lines_of_last:
  assumes "newline \<notin> set l" "l \<noteq> []"
  shows "lines_of l = [l]"
  by (subst lines_of.simps) (simp only: line_split(3,4) [OF assms(1)] assms(2) list.sel if_False, simp)

text \<open>A file whose last byte is a newline is read line by line, whatever follows.\<close>

lemma lines_of_append:
  assumes "c = [] \<or> last c = newline"
  shows "lines_of (c @ d) = lines_of c @ lines_of d"
  using assms
proof (induction c rule: lines_of.induct)
  case (1 c)
  show ?case
  proof (cases "c = []")
    case False
    with "1.prems" have last: "last c = newline" by simp
    then have mem: "newline \<in> set c" using False last_in_set by metis
    then obtain l r where c: "c = l @ newline # r" "newline \<notin> set l" by (meson split_list_first)
    have r: "r = [] \<or> last r = newline" using last c by (cases r rule: rev_cases) auto
    have "tl (dropWhile (\<lambda>x. x \<noteq> newline) c) = r"
      by (simp only: c(1) line_split(2) [OF c(2)] list.sel)
    with "1.IH" [OF False] r c show ?thesis by (simp add: lines_of_line)
  qed simp
qed

lemma read_loop_append:
  "read_loop dec st (xs @ ys) = (case read_loop dec st xs of Inl e \<Rightarrow> Inl e | Inr st' \<Rightarrow> read_loop dec st' ys)"
  by (induction xs arbitrary: st) (auto split: sum.splits)

section \<open>What a read keeps\<close>

definition report_ok :: "read_report \<Rightarrow> bool" where
  "report_ok rep \<longleftrightarrow> list_all (\<lambda>l. check_line l = None) (lr_lines rep) \<and> distinct (map ln_event (lr_lines rep))"

lemma read_step_ok:
  assumes "read_step dec (n, bad, rep) raw = Inr (n', bad', rep')" "report_ok rep"
  shows "report_ok rep'"
  using assms
  by (auto simp: read_step_def Let_def report_ok_def split: if_splits option.splits)

lemma read_loop_ok:
  "read_loop dec st raws = Inr st' \<Longrightarrow> report_ok (snd (snd st)) \<Longrightarrow> report_ok (snd (snd st'))"
proof (induction raws arbitrary: st)
  case (Cons raw raws)
  obtain n bad rep where st: "st = (n, bad, rep)" by (cases st)
  from Cons.prems obtain st1 where st1: "read_step dec st raw = Inr st1" "read_loop dec st1 raws = Inr st'"
    by (auto split: sum.splits)
  obtain n1 b1 rep1 where s1: "st1 = (n1, b1, rep1)" by (cases st1)
  have "report_ok rep1"
    using read_step_ok [of dec n bad rep raw n1 b1 rep1] st1(1) Cons.prems(2) by (simp add: st s1)
  with Cons.IH [OF st1(2)] s1 show ?case by simp
qed simp

text \<open>The bytes of written lines, and what the codec owes them: the bytes are one line, they decode to the
  line with nothing left, and no proper prefix of them is a value.\<close>

definition codec_line :: "encoder \<Rightarrow> decoder \<Rightarrow> line \<Rightarrow> bool" where
  "codec_line enc dec l \<longleftrightarrow> (case enc l of None \<Rightarrow> False
     | Some s \<Rightarrow> s \<noteq> [] \<and> newline \<notin> set s \<and> trim_space (drop_cr s) = s \<and> length s < max_line
         \<and> dec s = Some (l, [])
         \<and> list_all (\<lambda>k. trim_space (drop_cr (take k s)) = [] \<or> dec (trim_space (drop_cr (take k s))) = None)
             [0..<length s])"

definition good_line :: "encoder \<Rightarrow> decoder \<Rightarrow> line \<Rightarrow> bool" where
  "good_line enc dec l \<longleftrightarrow> check_line l = None \<and> codec_line enc dec l"

text \<open>Reading a line is adding it, unless its event is there already.\<close>

definition add_event :: "line \<Rightarrow> read_report \<Rightarrow> read_report" where
  "add_event l rep = (if ln_event l \<in> ln_event ` set (lr_lines rep)
     then rep\<lparr>lr_duplicates := lr_duplicates rep + 1\<rparr> else rep\<lparr>lr_lines := lr_lines rep @ [l]\<rparr>)"

lemma add_event_torn: "add_event l (s\<lparr>lr_torn := b\<rparr>) = (add_event l s)\<lparr>lr_torn := b\<rparr>"
  by (cases s) (simp add: add_event_def)

lemma marshal_good:
  assumes "good_line enc dec l"
  shows "\<exists>s. marshal enc l = Inr (s @ [newline]) \<and> enc l = Some s \<and> newline \<notin> set s \<and> length s < max_line
    \<and> s \<noteq> []"
proof -
  have "ln_v l = ledger_version"
    using assms by (auto simp: good_line_def check_line_def split: if_splits)
  then have "l\<lparr>ln_v := ledger_version\<rparr> = l" by simp
  with assms show ?thesis by (auto simp: marshal_def good_line_def codec_line_def split: option.splits)
qed

lemma read_step_good:
  assumes "good_line enc dec l" "enc l = Some s"
  shows "read_step dec (n, None, rep) s = Inr (n + 1, None, add_event l rep)"
  using assms
  by (auto simp: good_line_def codec_line_def read_step_def Let_def add_event_def)

lemma marshal_all_good:
  assumes "list_all (good_line enc dec) ls"
  obtains buf where "marshal_all enc ls = Inr buf" "buf = [] \<or> last buf = newline"
    "\<forall>n rep. read_loop dec (n, None, rep) (lines_of buf)
        = Inr (n + length ls, None, fold add_event ls rep)"
  using assms
proof (induction ls arbitrary: thesis)
  case Nil
  then show ?case by simp
next
  case (Cons l ls)
  obtain s where s: "marshal enc l = Inr (s @ [newline])" "enc l = Some s" "newline \<notin> set s"
    using marshal_good [of enc dec l] Cons.prems(2) by auto
  obtain buf where buf: "marshal_all enc ls = Inr buf" "buf = [] \<or> last buf = newline"
    "\<forall>n rep. read_loop dec (n, None, rep) (lines_of buf) = Inr (n + length ls, None, fold add_event ls rep)"
    using Cons.IH Cons.prems(2) by auto
  have "read_loop dec (n, None, rep) (lines_of ((s @ [newline]) @ buf))
      = Inr (n + length (l # ls), None, fold add_event (l # ls) rep)" for n rep
    using lines_of_line [OF s(3), of buf] read_step_good [of enc dec l s n rep] Cons.prems(2) s(2) buf(3)
    by simp
  with buf s(1) show ?case by (intro Cons.prems(1) [of "(s @ [newline]) @ buf"]) auto
qed

lemma cut_torn_tail_clean: "cut_torn_tail c = [] \<or> last (cut_torn_tail c) = newline"
proof (cases "c \<noteq> [] \<and> last c = newline")
  case False
  let ?k = "keep_length c (length c)"
  note k = keep_length_spec [of "length c" c, simplified]
  have eq: "cut_torn_tail c = take ?k c" unfolding cut_torn_tail_def if_not_P [OF False] ..
  show ?thesis
  proof (cases "?k = 0")
    case False
    with k have "c ! (?k - 1) = newline" "0 < ?k" "?k \<le> length c" by auto
    then have "last (take ?k c) = newline" by (subst last_conv_nth) (auto simp: min_def)
    then show ?thesis unfolding eq by simp
  qed (simp add: eq)
qed (simp add: cut_torn_tail_def)

section \<open>Properties of the file\<close>

text \<open>Only a torn tail is cut. What is kept of a file is a prefix of it that is empty or ends with a
  newline, and what is cut holds no newline, however the tail straddles the chunks of the search.\<close>

theorem torn_tail_cut_exactly:
  "prefix (cut_torn_tail content) content
   \<and> (cut_torn_tail content = [] \<or> last (cut_torn_tail content) = newline)
   \<and> newline \<notin> set (drop (length (cut_torn_tail content)) content)"
proof (cases "content \<noteq> [] \<and> last content = newline")
  case True
  then show ?thesis by (simp add: cut_torn_tail_def)
next
  case False
  have "cut_torn_tail content = take (keep_length content (length content)) content"
    unfolding cut_torn_tail_def if_not_P [OF False] ..
  with keep_length_spec [of "length content" content] cut_torn_tail_clean [of content] show ?thesis
    by (auto simp: take_is_prefix)
qed

lemma read_admits:
  assumes "read_ledger dec content = Inr rep"
  shows "report_ok rep" "list_all (\<lambda>l. check_line l = None) (lr_lines rep)" "distinct (map ln_event (lr_lines rep))"
proof -
  obtain n bad r where r: "read_loop dec (0, None, empty_report) (lines_of content) = Inr (n, bad, r)"
    "rep = r\<lparr>lr_torn := (bad \<noteq> None)\<rparr>"
    using assms by (auto simp: read_ledger_def split: sum.splits)
  with read_loop_ok [OF r(1)] show "report_ok rep" by (simp add: report_ok_def empty_report_def)
  then show "list_all (\<lambda>l. check_line l = None) (lr_lines rep)" "distinct (map ln_event (lr_lines rep))"
    by (simp_all add: report_ok_def)
qed

text \<open>A read admits only the ledger's own lines, each event once. Whatever the bytes of the file, the lines
  a successful read returns all pass the check of their type and no two have the same event id.\<close>

theorem read_admits_checked_lines:
  assumes "read_ledger dec content = Inr rep"
  shows "list_all (\<lambda>l. check_line l = None) (lr_lines rep) \<and> distinct (map ln_event (lr_lines rep))"
  using read_admits(2,3) [OF assms] by simp

definition sample_enc :: encoder where
  "sample_enc l = Some (if ln_event l = 1 then ''{a}'' else ''{b}'')"

definition sample_dec :: decoder where
  "sample_dec s = (if s = ''{a}'' then Some (sample_line 1 TypeDeleted 5, [])
     else if s = ''{b}'' then Some (sample_line 2 TypeRecovered 5, [])
     else if prefix ''{b}'' s then Some (sample_line 2 TypeRecovered 5, drop 3 s) else None)"

lemma sample_good:
  "good_line sample_enc sample_dec (sample_line 1 TypeDeleted 5)"
  "good_line sample_enc sample_dec (sample_line 2 TypeRecovered 5)"
  by (simp_all add: good_line_def codec_line_def check_line_def sample_line_def sample_enc_def sample_dec_def
      newline_def ledger_version_def drop_cr_def max_line_def upt_rec trim_space_id visible_def)

definition sample_file :: string where
  "sample_file = ''{a}'' @ [newline] @ ''{b}'' @ [newline]"

lemma sample_file_read:
  "read_ledger sample_dec sample_file = Inr \<lparr>lr_lines = [sample_line 1 TypeDeleted 5, sample_line 2 TypeRecovered 5],
     lr_duplicates = 0, lr_torn = False\<rparr>"
proof -
  have enc: "sample_enc (sample_line 1 TypeDeleted 5) = Some ''{a}''"
    "sample_enc (sample_line 2 TypeRecovered 5) = Some ''{b}''"
    by (simp_all add: sample_enc_def sample_line_def)
  have "newline \<notin> set ''{a}''" "newline \<notin> set ''{b}''" by (simp_all add: newline_def)
  then have "lines_of sample_file = [''{a}'', ''{b}'']"
    by (simp add: sample_file_def lines_of_line [of "''{a}''", simplified] lines_of_line [of "''{b}''" "[]", simplified])
  then show ?thesis
    by (simp add: read_ledger_def read_step_good [OF sample_good(1) enc(1)] read_step_good [OF sample_good(2) enc(2)]
        add_event_def empty_report_def sample_line_def)
qed

theorem read_admits_checked_lines_witness:
  "list_all (\<lambda>l. check_line l = None) [sample_line 1 TypeDeleted 5, sample_line 2 TypeRecovered 5]"
  using read_admits_checked_lines [OF sample_file_read] by simp

text \<open>An append is all or nothing when its truncation works. A successful append leaves exactly what was
  kept of the file followed by the bytes of every line; a failed one leaves the file as it was, or with
  only its torn tail cut, unless the truncation itself failed or the lines were already synced (only
  the directory sync or the close failed).\<close>

theorem append_all_or_nothing:
  assumes "append_lines enc e lines file = (err, file')" "lines \<noteq> []"
  shows "let c0 = (case file of None \<Rightarrow> [] | Some c \<Rightarrow> c); c1 = (if c0 = [] then [] else cut_torn_tail c0) in
     case err of
       None \<Rightarrow> (case marshal_all enc lines of Inl e \<Rightarrow> False | Inr buf \<Rightarrow> file' = Some (c1 @ buf))
     | Some x \<Rightarrow> file' \<in> {file, Some c0, Some c1} \<or> ap_truncate e = False \<or> x \<in> {DirSyncFailed, CloseFailed}"
  using assms
  by (auto simp: append_lines_def Let_def split: sum.splits if_splits option.splits)

definition sample_append_env :: append_env where
  "sample_append_env = \<lparr>ap_open = True, ap_stat = True, ap_tail = True, ap_stat2 = True, ap_written = None,
     ap_sync = True, ap_truncate = True, ap_dir = True, ap_close = True\<rparr>"

theorem append_all_or_nothing_witness:
  "snd (append_lines sample_enc (sample_append_env\<lparr>ap_written := Some 2\<rparr>) [sample_line 1 TypeDeleted 5] None)
     \<in> {None, Some []}"
proof -
  obtain err file' where r: "append_lines sample_enc (sample_append_env\<lparr>ap_written := Some 2\<rparr>)
      [sample_line 1 TypeDeleted 5] None = (err, file')" by fastforce
  have "err = Some WriteFailed"
    using r marshal_good [OF sample_good(1)]
    by (auto simp: append_lines_def sample_append_env_def split: sum.splits)
  with append_all_or_nothing [OF r] r show ?thesis
    by (simp add: sample_append_env_def)
qed

text \<open>What was appended is read back. When the kept part of a file reads cleanly and the codec round-trips
  the new lines, a successful append makes the next read return the old lines and then each new line
  whose event is not there yet, with no torn tail.\<close>

theorem append_then_read:
  assumes "append_lines enc e lines (Some c) = (None, Some c')" "lines \<noteq> []" "c \<noteq> []"
    and "read_ledger dec (cut_torn_tail c) = Inr rep" "\<not> lr_torn rep"
    and "list_all (good_line enc dec) lines"
  shows "read_ledger dec c' = Inr (fold add_event lines rep)"
proof -
  obtain buf where buf: "marshal_all enc lines = Inr buf" "buf = [] \<or> last buf = newline"
    "\<forall>n rep. read_loop dec (n, None, rep) (lines_of buf) = Inr (n + length lines, None, fold add_event lines rep)"
    by (rule marshal_all_good [OF assms(6)])
  have c': "c' = cut_torn_tail c @ buf"
    using append_all_or_nothing [OF assms(1,2)] assms(3) buf(1) by (simp add: Let_def)
  obtain n bad r where r: "read_loop dec (0, None, empty_report) (lines_of (cut_torn_tail c)) = Inr (n, bad, r)"
    "rep = r\<lparr>lr_torn := (bad \<noteq> None)\<rparr>"
    using assms(4) by (auto simp: read_ledger_def split: sum.splits)
  have bad: "bad = None" using assms(5) r(2) by simp
  have swap: "fold add_event ls (s\<lparr>lr_torn := False\<rparr>) = (fold add_event ls s)\<lparr>lr_torn := False\<rparr>" for ls s
    by (induction ls arbitrary: s) (simp_all add: add_event_torn)
  show ?thesis
    using r buf(3) [rule_format, of n r]
    by (simp add: c' read_ledger_def lines_of_append [OF cut_torn_tail_clean] read_loop_append bad swap)
qed

text \<open>A file of one line and a torn second one, appended to.\<close>

lemma sample_torn_cut: "cut_torn_tail (''{a}'' @ newline # ''{b'') = ''{a}'' @ [newline]"
  by (simp add: cut_torn_tail_def newline_def) (subst keep_length.simps, simp add: tail_chunk_def Let_def newline_def)

lemma sample_first_read:
  "read_ledger sample_dec (''{a}'' @ [newline]) = Inr \<lparr>lr_lines = [sample_line 1 TypeDeleted 5],
     lr_duplicates = 0, lr_torn = False\<rparr>"
proof -
  have "sample_enc (sample_line 1 TypeDeleted 5) = Some ''{a}''" by (simp add: sample_enc_def sample_line_def)
  then show ?thesis
    using lines_of_line [of "''{a}''" "[]"]
    by (simp add: read_ledger_def read_step_good [OF sample_good(1)] newline_def add_event_def empty_report_def)
qed

theorem append_then_read_witness:
  "\<exists>c'. append_lines sample_enc sample_append_env [sample_line 2 TypeRecovered 5] (Some (''{a}'' @ newline # ''{b''))
      = (None, Some c')
    \<and> map_sum id lr_lines (read_ledger sample_dec c') = Inr [sample_line 1 TypeDeleted 5, sample_line 2 TypeRecovered 5]"
proof -
  let ?c = "''{a}'' @ newline # ''{b''"
  have "marshal_all sample_enc [sample_line 2 TypeRecovered 5] = Inr (''{b}'' @ [newline])"
    by (simp add: marshal_def sample_enc_def sample_line_def check_line_def ledger_version_def)
  then have app: "append_lines sample_enc sample_append_env [sample_line 2 TypeRecovered 5] (Some ?c)
      = (None, Some ((''{a}'' @ [newline]) @ (''{b}'' @ [newline])))"
    unfolding append_lines_def by (simp add: sample_append_env_def sample_torn_cut [simplified])
  from append_then_read [OF this _ _ _ _, of sample_dec "\<lparr>lr_lines = [sample_line 1 TypeDeleted 5],
     lr_duplicates = 0, lr_torn = False\<rparr>"]
  have "read_ledger sample_dec ((''{a}'' @ [newline]) @ (''{b}'' @ [newline]))
      = Inr (fold add_event [sample_line 2 TypeRecovered 5] \<lparr>lr_lines = [sample_line 1 TypeDeleted 5],
          lr_duplicates = 0, lr_torn = False\<rparr>)"
    using sample_first_read sample_good(2) unfolding sample_torn_cut by simp
  then have "map_sum id lr_lines (read_ledger sample_dec ((''{a}'' @ [newline]) @ (''{b}'' @ [newline])))
      = Inr [sample_line 1 TypeDeleted 5, sample_line 2 TypeRecovered 5]"
    by (simp add: add_event_def sample_line_def)
  with app show ?thesis by blast
qed

lemma read_torn_write:
  assumes "list_all (good_line enc dec) ls" "marshal_all enc ls = Inr buf"
  shows "\<exists>m bad k. read_loop dec (n, None, rep) (lines_of (take j buf)) = Inr (m, bad, fold add_event (take k ls) rep)"
  using assms
proof (induction ls arbitrary: n rep j buf)
  case (Cons l ls)
  have good: "good_line enc dec l" using Cons.prems(1) by simp
  obtain s where s: "marshal enc l = Inr (s @ [newline])" "enc l = Some s" "newline \<notin> set s" "length s < max_line"
    using marshal_good [OF good] by blast
  obtain buf' where buf': "marshal_all enc ls = Inr buf'" "buf = (s @ [newline]) @ buf'"
    using Cons.prems(2) s(1) by (auto split: sum.splits)
  consider "length s < j" | "j = length s" | "j < length s" by linarith
  then show ?case
  proof cases
    case 1
    then have "take j buf = s @ newline # take (j - Suc (length s)) buf'" by (simp add: buf'(2) take_Cons')
    moreover from Cons.IH [of buf' "n + 1" "add_event l rep" "j - Suc (length s)"] Cons.prems(1) buf'(1)
    obtain m bad k where "read_loop dec (n + 1, None, add_event l rep) (lines_of (take (j - Suc (length s)) buf'))
        = Inr (m, bad, fold add_event (take k ls) (add_event l rep))" by auto
    ultimately have "read_loop dec (n, None, rep) (lines_of (take j buf))
        = Inr (m, bad, fold add_event (take (Suc k) (l # ls)) rep)"
      using lines_of_line [OF s(3)] read_step_good [OF good s(2), of n rep] by simp
    then show ?thesis by blast
  next
    case 2
    then have "take j buf = s" by (simp add: buf'(2))
    moreover have "s \<noteq> []" using good s(2) by (auto simp: good_line_def codec_line_def)
    ultimately have "read_loop dec (n, None, rep) (lines_of (take j buf))
        = Inr (n + 1, None, fold add_event (take 1 (l # ls)) rep)"
      using lines_of_last [OF s(3)] read_step_good [OF good s(2), of n rep] by simp
    then show ?thesis by blast
  next
    case 3
    then have j: "take j buf = take j s" by (simp add: buf'(2))
    have nl: "newline \<notin> set (take j s)" using s(3) by (meson in_set_takeD)
    have cut: "trim_space (drop_cr (take j s)) = [] \<or> dec (trim_space (drop_cr (take j s))) = None"
      using good s(2) 3 by (auto simp: good_line_def codec_line_def list_all_iff)
    show ?thesis
    proof (cases "take j s = []")
      case True
      then have "read_loop dec (n, None, rep) (lines_of (take j buf)) = Inr (n, None, fold add_event (take 0 (l # ls)) rep)"
        unfolding j True by simp
      then show ?thesis by blast
    next
      case False
      have "length (take j s) < max_line" using s(4) by simp
      then have "\<exists>bad. read_step dec (n, None, rep) (take j s) = Inr (n + 1, bad, rep)"
        using cut by (auto simp: read_step_def Let_def)
      then obtain bad where "read_step dec (n, None, rep) (take j s) = Inr (n + 1, bad, rep)" by blast
      then have "read_loop dec (n, None, rep) (lines_of (take j buf)) = Inr (n + 1, bad, fold add_event (take 0 (l # ls)) rep)"
        unfolding j lines_of_last [OF nl False] by simp
      then show ?thesis by blast
    qed
  qed
qed simp

text \<open>A crash in the middle of a write costs only the lines it cut. After any prefix of the bytes of an
  append has reached the file, the file still reads, and what it reads as is the lines before and some
  of the new ones from the front: no line already there is lost, and none is read wrong.\<close>

theorem torn_write_loses_only_its_tail:
  assumes "c = [] \<or> last c = newline" "read_ledger dec c = Inr rep" "\<not> lr_torn rep"
    and "list_all (good_line enc dec) lines" "marshal_all enc lines = Inr buf"
  shows "\<exists>rep' k. read_ledger dec (c @ take j buf) = Inr rep'
    \<and> lr_lines rep' = lr_lines (fold add_event (take k lines) rep)"
proof -
  obtain n r where r: "read_loop dec (0, None, empty_report) (lines_of c) = Inr (n, None, r)" "rep = r\<lparr>lr_torn := False\<rparr>"
    using assms(2,3) by (auto simp: read_ledger_def split: sum.splits)
  obtain m bad k where "read_loop dec (n, None, r) (lines_of (take j buf)) = Inr (m, bad, fold add_event (take k lines) r)"
    using read_torn_write [OF assms(4,5)] by blast
  then have "read_ledger dec (c @ take j buf) = Inr ((fold add_event (take k lines) r)\<lparr>lr_torn := (bad \<noteq> None)\<rparr>)"
    by (simp add: read_ledger_def lines_of_append [OF assms(1)] read_loop_append r(1))
  moreover have "fold add_event ls (s\<lparr>lr_torn := False\<rparr>) = (fold add_event ls s)\<lparr>lr_torn := False\<rparr>" for ls s
    by (induction ls arbitrary: s) (simp_all add: add_event_torn)
  ultimately show ?thesis
    unfolding r(2) by (intro exI [of _ "(fold add_event (take k lines) r)\<lparr>lr_torn := (bad \<noteq> None)\<rparr>"] exI [of _ k]) simp
qed

theorem torn_write_loses_only_its_tail_witness:
  "\<exists>rep k. read_ledger sample_dec ((''{a}'' @ [newline]) @ ''{b'') = Inr rep
    \<and> lr_lines rep = lr_lines (fold add_event (take k [sample_line 2 TypeRecovered 5])
        \<lparr>lr_lines = [sample_line 1 TypeDeleted 5], lr_duplicates = 0, lr_torn = False\<rparr>)"
proof -
  have "marshal_all sample_enc [sample_line 2 TypeRecovered 5] = Inr (''{b}'' @ [newline])"
    by (simp add: marshal_def sample_enc_def sample_line_def check_line_def ledger_version_def)
  from torn_write_loses_only_its_tail [OF _ sample_first_read _ _ this, of 2] show ?thesis
    using sample_good(2) by simp
qed

text \<open>A compaction drops whole numbers and nothing else. Reading the file a compaction wrote gives, for a
  number whose newest line is older than the cutoff, no line, and for every other number exactly its
  lines of before, in order: its verdict does not change.\<close>

theorem compaction_keeps_numbers_whole:
  assumes "compact enc dec io_ok now keep (Some content) = (Inr res, Some content')" "cr_rewritten res"
    and "read_ledger dec content = Inr rep" "list_all (good_line enc dec) (lr_lines rep)"
  shows "\<exists>rep'. read_ledger dec content' = Inr rep'
    \<and> filter (\<lambda>l. ln_device l = i) (lr_lines rep')
        = (if newest_of (lr_lines rep) i < now - keep then [] else filter (\<lambda>l. ln_device l = i) (lr_lines rep))"
proof -
  let ?kept = "filter (\<lambda>l. \<not> newest_of (lr_lines rep) (ln_device l) < now - keep) (lr_lines rep)"
  have good: "list_all (good_line enc dec) ?kept" using assms(4) by (auto simp: list_all_iff)
  obtain buf where buf: "marshal_all enc ?kept = Inr buf" "buf = [] \<or> last buf = newline"
    "\<forall>n rep. read_loop dec (n, None, rep) (lines_of buf) = Inr (n + length ?kept, None, fold add_event ?kept rep)"
    by (rule marshal_all_good [OF good])
  have content': "content' = buf"
    using assms(1-3) buf(1) by (auto simp: compact_def Let_def split: if_splits)
  have dist: "distinct (map ln_event ?kept)"
    using read_admits [OF assms(3)] by (simp add: distinct_map_filter)
  have add: "distinct (map ln_event (lr_lines s @ ls)) \<Longrightarrow>
      fold add_event ls s = s\<lparr>lr_lines := lr_lines s @ ls\<rparr>" for ls s
  proof (induction ls arbitrary: s)
    case (Cons l ls)
    from Cons.prems have "add_event l s = s\<lparr>lr_lines := lr_lines s @ [l]\<rparr>" by (auto simp: add_event_def)
    with Cons show ?case by simp
  qed simp
  have "fold add_event ?kept empty_report = empty_report\<lparr>lr_lines := ?kept\<rparr>"
    using add [of empty_report ?kept] dist by (simp add: empty_report_def)
  then have "read_ledger dec content' = Inr (empty_report\<lparr>lr_lines := ?kept\<rparr>)"
    using buf(3) by (simp add: read_ledger_def content' empty_report_def)
  moreover have "filter (\<lambda>l. ln_device l = i) ?kept
      = (if newest_of (lr_lines rep) i < now - keep then [] else filter (\<lambda>l. ln_device l = i) (lr_lines rep))"
    by (auto simp: filter_empty_conv intro!: filter_cong)
  ultimately show ?thesis by (intro exI [of _ "empty_report\<lparr>lr_lines := ?kept\<rparr>"]) simp
qed

theorem compaction_keeps_numbers_whole_witness:
  "\<exists>rep'. read_ledger sample_dec [] = Inr rep' \<and> filter (\<lambda>l. ln_device l = 7) (lr_lines rep') = []"
proof -
  have "compact sample_enc sample_dec True 100 10 (Some sample_file)
      = (Inr \<lparr>cr_kept = 0, cr_dropped = 2, cr_rewritten = True\<rparr>, Some [])"
    by (simp add: compact_def sample_file_read newest_of_def sample_line_def)
  from compaction_keeps_numbers_whole [OF this _ sample_file_read, of 7] sample_good
  show ?thesis by (simp add: newest_of_def sample_line_def split: if_splits)
qed

text \<open>A read does not see bytes after a line's value. When a line of the file holds a valid event followed
  by anything else on the same line, another event included, the read takes the first and says nothing
  of the rest, though it promises that anything that does not parse stops it.\<close>

theorem read_ignores_rest_of_line:
  assumes "newline \<notin> set s" "s \<noteq> []" "length s < max_line" "trim_space (drop_cr s) = s"
    and "dec s = Some (l, rest)" "check_line l = None"
  shows "read_ledger dec (s @ [newline]) = Inr \<lparr>lr_lines = [l], lr_duplicates = 0, lr_torn = False\<rparr>"
  using assms lines_of_line [OF assms(1), of "[]"]
  by (simp add: read_ledger_def read_step_def empty_report_def)

theorem read_ignores_rest_of_line_witness:
  "sample_dec ''{b}{a}'' = Some (sample_line 2 TypeRecovered 5, ''{a}'')
   \<and> map_sum id lr_lines (read_ledger sample_dec (''{b}{a}'' @ [newline])) = Inr [sample_line 2 TypeRecovered 5]"
proof -
  have d: "sample_dec ''{b}{a}'' = Some (sample_line 2 TypeRecovered 5, ''{a}'')"
    by (simp add: sample_dec_def)
  have "check_line (sample_line 2 TypeRecovered 5) = None" using sample_good(2) by (simp add: good_line_def)
  with read_ignores_rest_of_line [of "''{b}{a}''" sample_dec "sample_line 2 TypeRecovered 5" "''{a}''"] d
  show ?thesis
    by (simp add: newline_def max_line_def drop_cr_def trim_space_id visible_def)
qed

end
