(* ===== verification/Ratelimit.thy ===== *)
theory Ratelimit
  imports Prelude Complex_Main
begin

text \<open>
  Token buckets (internal/ratelimit/ratelimit.go) and the call budget built on the same idea
  (internal/membership/budget.go).

  Tokens and rates are rational numbers where the code has \<^verbatim>\<open>float64\<close>: the rounding of floating point
  is not modelled. A time is its nanoseconds, and \<open>seconds\<close> is \<^verbatim>\<open>Duration.Seconds\<close>. The address
  functions of \<^verbatim>\<open>net\<close> and \<^verbatim>\<open>netip\<close> are an argument of \<open>client_ip\<close>.
\<close>

section \<open>The limiter\<close>

record bucket =
  bk_tokens :: rat
  bk_last :: timestamp

record limiter =
  lm_rate :: rat
  lm_burst :: rat
  lm_buckets :: "string \<rightharpoonup> bucket"
  lm_swept :: timestamp

definition seconds :: "duration \<Rightarrow> rat" where
  "seconds d = of_int d / 1000000000"

definition new_limiter :: "int \<Rightarrow> int \<Rightarrow> limiter" where
  "new_limiter per_minute burst =
     (let p = (if per_minute < 1 then 1 else per_minute); b = (if burst < 1 then 1 else burst)
      in \<lparr>lm_rate = of_int p / 60, lm_burst = of_int b, lm_buckets = Map.empty, lm_swept = 0\<rparr>)"

definition new_window :: "int \<Rightarrow> duration \<Rightarrow> limiter" where
  "new_window n window =
     (let k = (if n < 1 then 1 else n); w = (if window \<le> 0 then minute else window)
      in \<lparr>lm_rate = of_int k / seconds w, lm_burst = of_int k, lm_buckets = Map.empty, lm_swept = 0\<rparr>)"

definition full_after :: "rat \<Rightarrow> rat \<Rightarrow> duration" where
  "full_after burst rate = \<lfloor>burst / rate * 1000000000\<rfloor>"

definition sweep :: "timestamp \<Rightarrow> limiter \<Rightarrow> limiter" where
  "sweep now l =
     (if now - lm_swept l < minute then l
      else l\<lparr>lm_swept := now,
             lm_buckets := (\<lambda>k. case lm_buckets l k of None \<Rightarrow> None
               | Some b \<Rightarrow> if full_after (lm_burst l) (lm_rate l) < now - bk_last b then None else Some b)\<rparr>)"

definition refill :: "rat \<Rightarrow> rat \<Rightarrow> timestamp \<Rightarrow> bucket \<Rightarrow> rat" where
  "refill burst rate now b = min burst (bk_tokens b + seconds (now - bk_last b) * rate)"

definition round_second :: "duration \<Rightarrow> duration" where
  "round_second d = (if 0 \<le> d then (d + second div 2) div second * second
                     else - ((- d + second div 2) div second * second))"

definition allow :: "string \<Rightarrow> timestamp \<Rightarrow> limiter \<Rightarrow> (bool \<times> duration) \<times> limiter" where
  "allow key now l0 =
     (let l = sweep now l0;
          b = (case lm_buckets l key of Some b \<Rightarrow> b | None \<Rightarrow> \<lparr>bk_tokens = lm_burst l, bk_last = now\<rparr>);
          tokens = refill (lm_burst l) (lm_rate l) now b
      in if 1 \<le> tokens
         then ((True, 0), l\<lparr>lm_buckets := (lm_buckets l)(key \<mapsto> \<lparr>bk_tokens = tokens - 1, bk_last = now\<rparr>)\<rparr>)
         else (let wait = \<lfloor>(1 - tokens) / lm_rate l * 1000000000\<rfloor>
               in ((False, round_second wait + second),
                   l\<lparr>lm_buckets := (lm_buckets l)(key \<mapsto> \<lparr>bk_tokens = tokens, bk_last = now\<rparr>)\<rparr>)))"

section \<open>The client's address\<close>

record 'a addr_lib =
  al_host :: "string \<Rightarrow> string option"
  al_parse :: "string \<Rightarrow> 'a option"
  al_string :: "'a \<Rightarrow> string"

definition within_nets :: "('a \<Rightarrow> bool) list \<Rightarrow> 'a \<Rightarrow> bool" where
  "within_nets nets a \<longleftrightarrow> list_ex (\<lambda>p. p a) nets"

text \<open>The hops of X-Forwarded-For from the right.\<close>

fun walk_hops :: "'a addr_lib \<Rightarrow> ('a \<Rightarrow> bool) list \<Rightarrow> string list \<Rightarrow> 'a option" where
  "walk_hops A trusted [] = None"
| "walk_hops A trusted (h # hs) = (case al_parse A (trim_space h) of
      None \<Rightarrow> None
    | Some a \<Rightarrow> if within_nets trusted a then walk_hops A trusted hs else Some a)"

text \<open>\<open>parse\<close> gives an address already unmapped, as the code unmaps every address it parses.\<close>

definition client_ip :: "'a addr_lib \<Rightarrow> ('a \<Rightarrow> bool) list \<Rightarrow> string \<Rightarrow> string \<Rightarrow> string" where
  "client_ip A trusted remote forwarded =
     (let host = (case al_host A remote of Some h \<Rightarrow> h | None \<Rightarrow> remote) in
      case al_parse A host of
        None \<Rightarrow> host
      | Some peer \<Rightarrow>
          if \<not> within_nets trusted peer then al_string A peer
          else (case walk_hops A trusted (rev (split_on CHR '','' forwarded)) of
                  Some a \<Rightarrow> al_string A a
                | None \<Rightarrow> al_string A peer))"

section \<open>The limit of an authentication endpoint\<close>

record auth =
  au_ip :: "limiter option"
  au_subject :: "limiter option"

definition default_auth :: auth where
  "default_auth = \<lparr>au_ip = Some (new_limiter 60 20), au_subject = Some (new_limiter 5 5)\<rparr>"

definition default_setups :: auth where
  "default_setups = \<lparr>au_ip = Some (new_limiter 60 60), au_subject = Some (new_limiter 5 15)\<rparr>"

definition default_workspace_sessions :: auth where
  "default_workspace_sessions = \<lparr>au_ip = Some (new_limiter 120 60), au_subject = Some (new_limiter 60 30)\<rparr>"

definition invitation_subject :: "string \<Rightarrow> string" where
  "invitation_subject account = ''invitation:'' @ account"

text \<open>\<open>lower\<close> is \<^verbatim>\<open>strings.ToLower\<close>, \<open>ip\<close> the address \<open>client_ip\<close> gives. A nil limit allows everything.\<close>

definition auth_allow ::
  "(string \<Rightarrow> string) \<Rightarrow> string \<Rightarrow> string \<Rightarrow> timestamp \<Rightarrow> auth option \<Rightarrow> (bool \<times> duration) \<times> auth option" where
  "auth_allow lower ip subject now a =
     (case a of
        None \<Rightarrow> ((True, 0), None)
      | Some x \<Rightarrow>
          let (r1, ip1) = (case au_ip x of None \<Rightarrow> ((True, 0), None)
                | Some l \<Rightarrow> let (r, l') = allow (''ip:'' @ ip) now l in (r, Some l'))
          in if \<not> fst r1 then (r1, Some (x\<lparr>au_ip := ip1\<rparr>))
             else if subject = [] then ((True, 0), Some (x\<lparr>au_ip := ip1\<rparr>))
             else let (r2, s1) = (case au_subject x of None \<Rightarrow> ((True, 0), None)
                    | Some l \<Rightarrow> let (r, l') = allow (''subject:'' @ lower (trim_space subject)) now l in (r, Some l'))
                  in (if \<not> fst r2 then r2 else (True, 0), Some (x\<lparr>au_ip := ip1, au_subject := s1\<rparr>)))"

section \<open>The call budget\<close>

record call_budget =
  cb_per_second :: rat
  cb_burst :: rat
  cb_tenant_per_second :: rat
  cb_tenant_burst :: rat
  cb_all :: bucket
  cb_tenants :: "uuid \<rightharpoonup> bucket"
  cb_swept :: timestamp

definition new_call_budget :: call_budget where
  "new_call_budget = \<lparr>cb_per_second = 10, cb_burst = 20, cb_tenant_per_second = 5, cb_tenant_burst = 20,
     cb_all = \<lparr>bk_tokens = 0, bk_last = 0\<rparr>, cb_tenants = Map.empty, cb_swept = 0\<rparr>"

definition reserve :: "timestamp \<Rightarrow> rat \<Rightarrow> rat \<Rightarrow> bucket \<Rightarrow> duration \<times> bucket" where
  "reserve now per_second burst b0 =
     (let b = (if is_zero_time (bk_last b0) then \<lparr>bk_tokens = burst, bk_last = now\<rparr> else b0);
          tokens = refill burst per_second now b - 1
      in (if 0 \<le> tokens then 0 else \<lfloor>- tokens / per_second * 1000000000\<rfloor>, \<lparr>bk_tokens = tokens, bk_last = now\<rparr>))"

definition sweep_budget :: "timestamp \<Rightarrow> call_budget \<Rightarrow> call_budget" where
  "sweep_budget now c =
     (if now - cb_swept c < minute then c
      else c\<lparr>cb_swept := now,
             cb_tenants := (\<lambda>k. case cb_tenants c k of None \<Rightarrow> None
               | Some b \<Rightarrow> if full_after (cb_tenant_burst c) (cb_tenant_per_second c) < now - bk_last b
                            then None else Some b)\<rparr>)"

text \<open>The result is the wait before the call may go out; \<open>None\<close> is \<^verbatim>\<open>errThrottled\<close>. The timer and the
  context that may end the wait are outside.\<close>

definition take_call :: "timestamp \<Rightarrow> timestamp \<Rightarrow> uuid \<Rightarrow> call_budget \<Rightarrow> duration option \<times> call_budget" where
  "take_call now deadline tenant c0 =
     (let c = sweep_budget now c0;
          t0 = (case cb_tenants c tenant of Some b \<Rightarrow> b | None \<Rightarrow> \<lparr>bk_tokens = 0, bk_last = 0\<rparr>);
          (w1, t) = reserve now (cb_tenant_per_second c) (cb_tenant_burst c) t0;
          (w2, all) = reserve now (cb_per_second c) (cb_burst c) (cb_all c);
          wait = max w1 w2
      in if 0 < wait \<and> deadline < now + wait
         then (None, c\<lparr>cb_tenants := (cb_tenants c)(tenant \<mapsto> t\<lparr>bk_tokens := bk_tokens t + 1\<rparr>),
                       cb_all := all\<lparr>bk_tokens := bk_tokens all + 1\<rparr>\<rparr>)
         else (Some wait, c\<lparr>cb_tenants := (cb_tenants c)(tenant \<mapsto> t), cb_all := all\<rparr>))"

end
