(* ===== verification/Ratelimit_Facts.thy ===== *)
theory Ratelimit_Facts
  imports Ratelimit
begin

text \<open>
  What the token buckets promise. The locale \<open>token_buckets\<close> is the contract a caller relies on:
  a granted request costs one token of every bucket it is charged to and its wait covers the debt it
  leaves, nothing adds tokens, and a bucket refills at its rate up to its burst. From it follows the
  bound over any window. It is interpreted on \<^verbatim>\<open>Limiter.Allow\<close>, on \<^verbatim>\<open>Auth.Allow\<close> and on
  \<^verbatim>\<open>callBudget.take\<close>. \<open>fair_buckets\<close> adds that a full enough bucket admits at once and that nobody
  else's requests cost a key anything.
\<close>

section \<open>The contract and the bound over a window\<close>

fun takes :: "('r \<Rightarrow> timestamp \<Rightarrow> 's \<Rightarrow> duration option \<times> 's) \<Rightarrow> ('r \<times> timestamp) list \<Rightarrow> 's
    \<Rightarrow> ('r \<times> timestamp \<times> duration option) list \<times> 's" where
  "takes f [] s = ([], s)"
| "takes f ((r, t) # ops) s =
     (let (w, s') = f r t s; (out, s'') = takes f ops s' in ((r, t, w) # out, s''))"

fun in_order :: "timestamp \<Rightarrow> ('r \<times> timestamp) list \<Rightarrow> bool" where
  "in_order t [] = True"
| "in_order t ((r, u) # ops) = (t \<le> u \<and> in_order u ops)"

fun leaves_by :: "timestamp \<Rightarrow> timestamp \<times> duration option \<Rightarrow> bool" where
  "leaves_by T (t, None) = False"
| "leaves_by T (t, Some w) = (t + w \<le> T)"

definition served :: "('r \<Rightarrow> bool) \<Rightarrow> timestamp \<Rightarrow> ('r \<times> timestamp \<times> duration option) list \<Rightarrow> nat" where
  "served P T out = length (filter (\<lambda>(r, tw). P r \<and> leaves_by T tw) out)"

lemma seconds_diff: "seconds (a - b) = seconds a - seconds b"
  by (simp add: seconds_def diff_divide_distrib)

lemma seconds_add: "seconds (a + b) = seconds a + seconds b"
  by (simp add: seconds_def add_divide_distrib)

lemma seconds_mono: "a \<le> b \<Longrightarrow> seconds a \<le> seconds b"
  by (simp add: seconds_def divide_right_mono)

lemma seconds_nonneg: "a \<le> b \<Longrightarrow> 0 \<le> seconds (b - a)"
  by (simp add: seconds_def)

lemma seconds_0 [simp]: "seconds 0 = 0"
  by (simp add: seconds_def)

locale token_buckets =
  fixes take_token :: "'r \<Rightarrow> timestamp \<Rightarrow> 's \<Rightarrow> duration option \<times> 's"
    and charges :: "'r \<Rightarrow> 'k \<Rightarrow> bool"
    and level :: "'s \<Rightarrow> 'k \<Rightarrow> timestamp \<Rightarrow> rat"
    and rate :: "'s \<Rightarrow> 'k \<Rightarrow> rat"
    and burst :: "'s \<Rightarrow> 'k \<Rightarrow> rat"
    and grace :: duration
    and valid :: "timestamp \<Rightarrow> 's \<Rightarrow> bool"
  assumes keeps_valid: "valid t s \<Longrightarrow> t \<le> now \<Longrightarrow> valid now (snd (take_token r now s))"
    and keeps_rate: "valid t s \<Longrightarrow> rate (snd (take_token r now s)) = rate s"
    and rate_pos: "valid t s \<Longrightarrow> 0 < rate s k"
    and pays: "valid t s \<Longrightarrow> t \<le> now \<Longrightarrow> take_token r now s = (Some w, s') \<Longrightarrow> charges r k \<Longrightarrow>
           level s' k now \<le> level s k now - 1 \<and> - level s' k now \<le> rate s k * seconds (w + grace)"
    and adds_none: "valid t s \<Longrightarrow> t \<le> now \<Longrightarrow> level (snd (take_token r now s)) k now \<le> level s k now"
    and refills: "valid t s \<Longrightarrow> t \<le> u \<Longrightarrow> u \<le> v \<Longrightarrow>
           level s k v = min (burst s k) (level s k u + rate s k * seconds (v - u))"
begin

lemma level_le_burst: "valid t s \<Longrightarrow> t \<le> u \<Longrightarrow> level s k u \<le> burst s k"
  using refills [of t s u u k] by simp

lemma grows_at_most:
  assumes "valid t s" "t \<le> u"
  shows "level s k u + rate s k * seconds (T + grace - u) \<le> level s k t + rate s k * seconds (T + grace - t)"
proof -
  have "level s k u \<le> level s k t + rate s k * seconds (u - t)"
    using refills [OF assms(1) order.refl assms(2), of k] by simp
  moreover have "rate s k * seconds (T + grace - t)
      = rate s k * seconds (u - t) + rate s k * seconds (T + grace - u)"
    by (simp add: seconds_diff algebra_simps)
  ultimately show ?thesis by simp
qed

lemma window_bound:
  assumes "valid t s" "in_order t ops"
  shows "of_nat (served (\<lambda>r. charges r k) T (fst (takes take_token ops s)))
      \<le> max 0 (level s k t + rate s k * seconds (T + grace - t))"
  using assms
proof (induction ops arbitrary: t s)
  case Nil
  then show ?case by (simp add: served_def)
next
  case (Cons op ops)
  obtain r u where op: "op = (r, u)" by (cases op)
  obtain w s' where step: "take_token r u s = (w, s')" by (cases "take_token r u s")
  from Cons.prems op have tu: "t \<le> u" and ord: "in_order u ops" by auto
  have v': "valid u s'" and r': "rate s' = rate s" and le: "level s' k u \<le> level s k u"
    using keeps_valid [OF Cons.prems(1) tu, of r] keeps_rate [OF Cons.prems(1), of r u]
      adds_none [OF Cons.prems(1) tu, of r k] by (simp_all add: step)
  let ?n = "served (\<lambda>r. charges r k) T (fst (takes take_token ops s'))"
  let ?room = "rate s k * seconds (T + grace - u)"
  have IH: "of_nat ?n \<le> max 0 (level s' k u + ?room)"
    using Cons.IH [OF v' ord] by (simp add: r')
  note grow = grows_at_most [OF Cons.prems(1) tu, of k T]
  have log: "fst (takes take_token (op # ops) s) = (r, u, w) # fst (takes take_token ops s')"
    by (simp add: op step split: prod.split)
  show ?case
  proof (cases "charges r k \<and> leaves_by T (u, w)")
    case True
    then obtain d where d: "w = Some d" "u + d \<le> T" by (cases w) auto
    have pay: "level s' k u \<le> level s k u - 1" "- level s' k u \<le> rate s k * seconds (d + grace)"
      using pays [OF Cons.prems(1) tu, of r d s' k] step True d by auto
    have "rate s k * seconds (d + grace) \<le> ?room"
      using d(2) rate_pos [OF Cons.prems(1), of k]
      by (intro mult_left_mono seconds_mono) simp_all
    with pay IH grow True show ?thesis by (simp add: log served_def)
  next
    case False
    then have "served (\<lambda>r. charges r k) T (fst (takes take_token (op # ops) s)) = ?n"
      by (simp add: log served_def)
    with IH le grow show ?thesis by simp
  qed
qed

end

locale fair_buckets = token_buckets +
  assumes admits: "valid t s \<Longrightarrow> t \<le> now \<Longrightarrow> (\<And>k. charges r k \<Longrightarrow> 1 \<le> level s k now) \<Longrightarrow>
           fst (take_token r now s) = Some 0"
    and free_to_others: "valid t s \<Longrightarrow> t \<le> now \<Longrightarrow> \<not> charges r k \<Longrightarrow>
           level (snd (take_token r now s)) k now = level s k now"
    and keeps_burst: "valid t s \<Longrightarrow> burst (snd (take_token r now s)) = burst s"
begin

lemma others_cost_nothing:
  assumes "valid t s" "in_order t ops" "list_all (\<lambda>(r, u). \<not> charges r k \<and> u \<le> T) ops" "t \<le> T"
  shows "\<exists>u. t \<le> u \<and> u \<le> T \<and> valid u (snd (takes take_token ops s))
      \<and> level (snd (takes take_token ops s)) k T = level s k T"
  using assms
proof (induction ops arbitrary: t s)
  case Nil
  then show ?case by auto
next
  case (Cons op ops)
  obtain r u where op: "op = (r, u)" by (cases op)
  obtain w s' where step: "take_token r u s = (w, s')" by (cases "take_token r u s")
  from Cons.prems op have tu: "t \<le> u" "u \<le> T" "in_order u ops" "\<not> charges r k" by auto
  note facts = keeps_valid [OF Cons.prems(1) tu(1), of r] keeps_rate [OF Cons.prems(1), of r u]
    keeps_burst [OF Cons.prems(1), of r u] free_to_others [OF Cons.prems(1) tu(1) tu(4)]
  have v': "valid u s'" and same: "level s' k u = level s k u" "rate s' = rate s" "burst s' = burst s"
    using facts by (simp_all add: step)
  have "level s' k T = level s k T"
    using refills [OF v' order.refl tu(2), of k] refills [OF Cons.prems(1) tu(1,2), of k] by (simp add: same)
  moreover obtain v where "u \<le> v" "v \<le> T" "valid v (snd (takes take_token ops s'))"
      "level (snd (takes take_token ops s')) k T = level s' k T"
    using Cons.IH [OF v' tu(3) _ tu(2)] Cons.prems(3) by auto
  moreover have "snd (takes take_token (op # ops) s) = snd (takes take_token ops s')"
    by (simp add: op step split: prod.split)
  ultimately show ?case using tu by (intro exI [of _ v]) simp
qed

end

section \<open>The limiter keeps the contract\<close>

definition limiter_ok :: "timestamp \<Rightarrow> limiter \<Rightarrow> bool" where
  "limiter_ok t l \<longleftrightarrow> 0 < lm_rate l \<and> 1 \<le> lm_burst l
     \<and> (\<forall>k b. lm_buckets l k = Some b \<longrightarrow> 0 \<le> bk_tokens b \<and> bk_tokens b \<le> lm_burst l \<and> bk_last b \<le> t)"

definition limiter_level :: "limiter \<Rightarrow> string \<Rightarrow> timestamp \<Rightarrow> rat" where
  "limiter_level l k now = (case lm_buckets l k of None \<Rightarrow> lm_burst l
     | Some b \<Rightarrow> refill (lm_burst l) (lm_rate l) now b)"

text \<open>\<open>Allow\<close> as a request of the contract: an admitted attempt goes ahead at once.\<close>

definition attempt :: "string \<Rightarrow> timestamp \<Rightarrow> limiter \<Rightarrow> duration option \<times> limiter" where
  "attempt key now l = (let ((ok, retry), l') = allow key now l in (if ok then Some 0 else None, l'))"

lemma limiter_ok_new: "limiter_ok t (new_limiter p b)"
  by (simp add: limiter_ok_def new_limiter_def)

lemma limiter_ok_window: "limiter_ok t (new_window n w)"
  by (simp add: limiter_ok_def new_window_def seconds_def Let_def)

text \<open>A bucket the sweep forgets is full again, so forgetting it changes no level.\<close>

lemma full_when_swept:
  assumes "0 < rate" "full_after burst rate < d"
  shows "burst \<le> rate * seconds d"
proof -
  have "burst / rate * 1000000000 < of_int d"
    using assms(2) by (simp add: full_after_def floor_less_iff)
  with assms(1) show ?thesis by (simp add: seconds_def field_simps)
qed

lemma sweep_rates [simp]: "lm_rate (sweep now l) = lm_rate l" "lm_burst (sweep now l) = lm_burst l"
  by (simp_all add: sweep_def)

lemma sweep_buckets:
  assumes "lm_buckets (sweep now l) k = Some b"
  shows "lm_buckets l k = Some b"
  using assms by (auto simp: sweep_def split: if_splits option.splits)

lemma sweep_ok:
  assumes "limiter_ok t l"
  shows "limiter_ok t (sweep now l)"
  using assms by (auto simp: limiter_ok_def dest: sweep_buckets)

lemma sweep_level:
  assumes "limiter_ok t l"
  shows "limiter_level (sweep now l) k now = limiter_level l k now"
proof (cases "lm_buckets l k")
  case None
  then have "lm_buckets (sweep now l) k = None" by (auto simp: sweep_def)
  with None show ?thesis by (simp add: limiter_level_def)
next
  case (Some b)
  show ?thesis
  proof (cases "lm_buckets (sweep now l) k = Some b")
    case True
    with Some show ?thesis by (simp add: limiter_level_def)
  next
    case False
    then have gone: "lm_buckets (sweep now l) k = None" and
        full: "full_after (lm_burst l) (lm_rate l) < now - bk_last b"
      using Some by (auto simp: sweep_def split: if_splits)
    have "lm_burst l \<le> lm_rate l * seconds (now - bk_last b)"
      using assms full by (intro full_when_swept) (simp_all add: limiter_ok_def)
    moreover have "0 \<le> bk_tokens b" using assms Some by (simp add: limiter_ok_def)
    ultimately show ?thesis by (simp add: gone Some limiter_level_def refill_def mult.commute)
  qed
qed

lemma attempt_cases:
  assumes "limiter_ok t l" "t \<le> now"
  obtains (granted) "1 \<le> limiter_level l key now"
      "attempt key now l = (Some 0, (sweep now l)\<lparr>lm_buckets := (lm_buckets (sweep now l))
         (key \<mapsto> \<lparr>bk_tokens = limiter_level l key now - 1, bk_last = now\<rparr>)\<rparr>)"
    | (refused) "limiter_level l key now < 1"
      "attempt key now l = (None, (sweep now l)\<lparr>lm_buckets := (lm_buckets (sweep now l))
         (key \<mapsto> \<lparr>bk_tokens = limiter_level l key now, bk_last = now\<rparr>)\<rparr>)"
proof -
  let ?b = "case lm_buckets (sweep now l) key of Some b \<Rightarrow> b
    | None \<Rightarrow> \<lparr>bk_tokens = lm_burst (sweep now l), bk_last = now\<rparr>"
  have "refill (lm_burst l) (lm_rate l) now ?b = limiter_level (sweep now l) key now"
    by (simp add: limiter_level_def refill_def split: option.split)
  also have "... = limiter_level l key now" by (rule sweep_level [OF assms(1)])
  finally show ?thesis
    using granted refused by (cases "1 \<le> limiter_level l key now") (simp_all add: attempt_def allow_def Let_def)
qed

lemma limiter_level_update:
  "limiter_level (l\<lparr>lm_buckets := (lm_buckets l)(key \<mapsto> \<lparr>bk_tokens = x, bk_last = now\<rparr>)\<rparr>) k v
    = (if k = key then min (lm_burst l) (x + seconds (v - now) * lm_rate l) else limiter_level l k v)"
  by (auto simp: limiter_level_def refill_def split: option.split)

lemma limiter_level_bounds:
  assumes "limiter_ok t l" "t \<le> now"
  shows "0 \<le> limiter_level l k now" "limiter_level l k now \<le> lm_burst l"
  using assms seconds_nonneg [OF order.trans [OF _ assms(2)]]
  by (auto simp: limiter_level_def refill_def limiter_ok_def split: option.split
      intro!: add_nonneg_nonneg mult_nonneg_nonneg)

lemma limiter_refills:
  assumes "limiter_ok t l" "t \<le> u" "u \<le> v"
  shows "limiter_level l k v = min (lm_burst l) (limiter_level l k u + lm_rate l * seconds (v - u))"
proof -
  have pos: "0 \<le> lm_rate l * seconds (v - u)"
    using assms seconds_mono [of 0 "v - u"] by (auto simp: limiter_ok_def)
  have "seconds (v - bk_last b) * lm_rate l
      = seconds (u - bk_last b) * lm_rate l + lm_rate l * seconds (v - u)" for b
    by (simp add: seconds_diff algebra_simps)
  with pos show ?thesis by (auto simp: limiter_level_def refill_def min_def split: option.split)
qed

lemma limiter_ok_later: "limiter_ok t l \<Longrightarrow> t \<le> u \<Longrightarrow> limiter_ok u l"
  unfolding limiter_ok_def by (meson order.trans)

lemma limiter_ok_update:
  "limiter_ok now l \<Longrightarrow> 0 \<le> x \<Longrightarrow> x \<le> lm_burst l \<Longrightarrow>
    limiter_ok now (l\<lparr>lm_buckets := (lm_buckets l)(key \<mapsto> \<lparr>bk_tokens = x, bk_last = now\<rparr>)\<rparr>)"
  by (auto simp: limiter_ok_def)

interpretation lim: fair_buckets attempt "(=)" limiter_level "\<lambda>l _. lm_rate l" "\<lambda>l _. lm_burst l" 0 limiter_ok
proof unfold_locales
  fix t now :: timestamp and l :: limiter and r :: string
  assume ok: "limiter_ok t l" and tn: "t \<le> now"
  note swept = sweep_ok [OF limiter_ok_later [OF ok tn], of now]
  show "limiter_ok now (snd (attempt r now l))"
    by (rule attempt_cases [OF ok tn, of r])
      (use limiter_ok_update [OF swept] limiter_level_bounds [OF ok tn, of r] in simp_all)
  fix k :: string
  show "limiter_level (snd (attempt r now l)) k now \<le> limiter_level l k now"
    by (rule attempt_cases [OF ok tn, of r])
      (use limiter_level_bounds [OF ok tn] in
        \<open>auto simp: limiter_level_update sweep_level [OF ok] min_le_iff_disj\<close>)
  show "limiter_level (snd (attempt r now l)) k now = limiter_level l k now" if "r \<noteq> k"
    by (rule attempt_cases [OF ok tn, of r]) (use that in \<open>simp_all add: limiter_level_update sweep_level [OF ok]\<close>)
  show "fst (attempt r now l) = Some 0" if "\<And>k. r = k \<Longrightarrow> 1 \<le> limiter_level l k now"
    by (rule attempt_cases [OF ok tn, of r]) (use that [of r] in simp_all)
  fix w l'
  assume "attempt r now l = (Some w, l')" "r = k"
  then show "limiter_level l' k now \<le> limiter_level l k now - 1
      \<and> - limiter_level l' k now \<le> lm_rate l * seconds (w + 0)"
    by (cases rule: attempt_cases [OF ok tn, of r])
      (use limiter_level_bounds [OF ok tn, of r] in \<open>auto simp: limiter_level_update\<close>)
next
  fix t u v k l
  assume "limiter_ok t l" "t \<le> u" "u \<le> v"
  then show "limiter_level l k v = min (lm_burst l) (limiter_level l k u + lm_rate l * seconds (v - u))"
    by (rule limiter_refills)
qed (auto simp: limiter_ok_def attempt_def allow_def Let_def split: if_splits)

section \<open>The authentication limit keeps it too\<close>

datatype auth_key = ByIp string | BySubject string

definition auth_attempt ::
  "(string \<Rightarrow> string) \<Rightarrow> string \<times> string \<Rightarrow> timestamp \<Rightarrow> auth option \<Rightarrow> duration option \<times> auth option" where
  "auth_attempt lower = (\<lambda>(ip, subject) now a.
     (let ((ok, retry), a') = auth_allow lower ip subject now a in (if ok then Some 0 else None, a')))"

fun auth_charges :: "(string \<Rightarrow> string) \<Rightarrow> string \<times> string \<Rightarrow> auth_key \<Rightarrow> bool" where
  "auth_charges lower (ip, subject) (ByIp x) = (x = ip)"
| "auth_charges lower (ip, subject) (BySubject y) = (subject \<noteq> [] \<and> y = lower (trim_space subject))"

fun auth_limiter :: "auth option \<Rightarrow> auth_key \<Rightarrow> limiter" where
  "auth_limiter (Some x) (ByIp _) = the (au_ip x)"
| "auth_limiter (Some x) (BySubject _) = the (au_subject x)"
| "auth_limiter None _ = new_limiter 1 1"

fun auth_bucket_key :: "auth_key \<Rightarrow> string" where
  "auth_bucket_key (ByIp x) = ''ip:'' @ x"
| "auth_bucket_key (BySubject y) = ''subject:'' @ y"

definition auth_level :: "auth option \<Rightarrow> auth_key \<Rightarrow> timestamp \<Rightarrow> rat" where
  "auth_level a k = limiter_level (auth_limiter a k) (auth_bucket_key k)"

definition auth_ok :: "timestamp \<Rightarrow> auth option \<Rightarrow> bool" where
  "auth_ok t a \<longleftrightarrow> (case a of None \<Rightarrow> False | Some x \<Rightarrow> au_ip x \<noteq> None \<and> au_subject x \<noteq> None
     \<and> limiter_ok t (the (au_ip x)) \<and> limiter_ok t (the (au_subject x)))"

lemma attempt_rates [simp]:
  "lm_rate (snd (attempt key now l)) = lm_rate l" "lm_burst (snd (attempt key now l)) = lm_burst l"
  by (simp_all add: attempt_def allow_def Let_def)

lemma attempt_grants: "fst (attempt key now l) = Some w \<Longrightarrow> w = 0"
  by (auto simp: attempt_def Let_def split: prod.splits if_splits)

lemma auth_attempt_eq:
  "auth_attempt lower (ip, subject) now (Some \<lparr>au_ip = Some i, au_subject = Some s\<rparr>)
    = (let (w1, i') = attempt (''ip:'' @ ip) now i;
           (w2, s') = attempt (''subject:'' @ lower (trim_space subject)) now s
       in if w1 = None then (None, Some \<lparr>au_ip = Some i', au_subject = Some s\<rparr>)
          else if subject = [] then (Some 0, Some \<lparr>au_ip = Some i', au_subject = Some s\<rparr>)
          else (w2, Some \<lparr>au_ip = Some i', au_subject = Some s'\<rparr>))"
  by (auto simp: auth_attempt_def auth_allow_def attempt_def Let_def split: prod.splits)

lemma auth_ok_cases:
  assumes "auth_ok t a"
  obtains i s where "a = Some \<lparr>au_ip = Some i, au_subject = Some s\<rparr>" "limiter_ok t i" "limiter_ok t s"
proof (cases a)
  case (Some x)
  then obtain i s where "x = \<lparr>au_ip = Some i, au_subject = Some s\<rparr>"
    using assms by (cases x) (auto simp: auth_ok_def)
  with Some assms that show ?thesis by (simp add: auth_ok_def)
qed (use assms in \<open>simp add: auth_ok_def\<close>)

lemma auth_ok_default: "auth_ok t (Some default_auth)"
  by (simp add: auth_ok_def default_auth_def limiter_ok_new)

interpretation auth_lim: token_buckets "auth_attempt lower" "auth_charges lower" auth_level
  "\<lambda>a k. lm_rate (auth_limiter a k)" "\<lambda>a k. lm_burst (auth_limiter a k)" 0 auth_ok
proof
  fix t now :: timestamp and a :: "auth option" and r :: "string \<times> string" and k :: auth_key and lower
  obtain ip subject where r: "r = (ip, subject)" by (cases r)
  assume ok: "auth_ok t a"
  obtain i s where a: "a = Some \<lparr>au_ip = Some i, au_subject = Some s\<rparr>"
      and oks: "limiter_ok t i" "limiter_ok t s"
    by (rule auth_ok_cases [OF ok])
  obtain w1 i' where 1: "attempt (''ip:'' @ ip) now i = (w1, i')" by (cases "attempt (''ip:'' @ ip) now i")
  obtain w2 s' where 2: "attempt (''subject:'' @ lower (trim_space subject)) now s = (w2, s')"
    by (cases "attempt (''subject:'' @ lower (trim_space subject)) now s")
  note step = auth_attempt_eq [of lower ip subject now i s, unfolded 1 2, simplified]
  show "0 < lm_rate (auth_limiter a k)"
    using lim.rate_pos oks by (cases k) (simp_all add: a)
  show "(\<lambda>k. lm_rate (auth_limiter (snd (auth_attempt lower r now a)) k)) = (\<lambda>k. lm_rate (auth_limiter a k))"
    using arg_cong [OF 1, of "lm_rate \<circ> snd"] arg_cong [OF 2, of "lm_rate \<circ> snd"]
    by (intro ext, case_tac k) (simp_all add: a r step del: append_Cons append_Nil)
  assume tn: "t \<le> now"
  note laws = lim.keeps_valid [OF oks(1) tn, of "''ip:'' @ ip", unfolded 1 snd_conv]
    lim.keeps_valid [OF oks(2) tn, of "''subject:'' @ lower (trim_space subject)", unfolded 2 snd_conv]
    lim.adds_none [OF oks(1) tn, of "''ip:'' @ ip", unfolded 1 snd_conv]
    lim.adds_none [OF oks(2) tn, of "''subject:'' @ lower (trim_space subject)", unfolded 2 snd_conv]
  show "auth_ok now (snd (auth_attempt lower r now a))"
    using laws limiter_ok_later [OF oks(2) tn] by (simp add: a r step auth_ok_def)
  show "auth_level (snd (auth_attempt lower r now a)) k now \<le> auth_level a k now"
    using laws by (cases k) (simp_all add: a r step auth_level_def)
  have zero: "w1 = Some x \<Longrightarrow> x = 0" "w2 = Some x \<Longrightarrow> x = 0" for x
    using attempt_grants [of "''ip:'' @ ip" now i x, unfolded 1]
      attempt_grants [of "''subject:'' @ lower (trim_space subject)" now s x, unfolded 2] by simp_all
  have paid1: "w1 = Some 0 \<Longrightarrow> limiter_level i' (''ip:'' @ ip) now \<le> limiter_level i (''ip:'' @ ip) now - 1
      \<and> 0 \<le> limiter_level i' (''ip:'' @ ip) now"
    using lim.pays [OF oks(1) tn, of "''ip:'' @ ip" 0 i' "''ip:'' @ ip"] 1 by simp
  have paid2: "w2 = Some 0 \<Longrightarrow> limiter_level s' (''subject:'' @ lower (trim_space subject)) now
        \<le> limiter_level s (''subject:'' @ lower (trim_space subject)) now - 1
      \<and> 0 \<le> limiter_level s' (''subject:'' @ lower (trim_space subject)) now"
    using lim.pays [OF oks(2) tn, of "''subject:'' @ lower (trim_space subject)" 0 s'
        "''subject:'' @ lower (trim_space subject)"] 2 by simp
  fix w a'
  assume "auth_attempt lower r now a = (Some w, a')" "auth_charges lower r k"
  then show "auth_level a' k now \<le> auth_level a k now - 1
      \<and> - auth_level a' k now \<le> lm_rate (auth_limiter a k) * seconds (w + 0)"
    using paid1 paid2 zero
    by (cases k; cases w1) (auto simp: a r step auth_level_def simp del: append_Cons append_Nil split: if_split_asm)
next
  fix t u v k a
  assume "auth_ok t a" "t \<le> u" "u \<le> v"
  then show "auth_level a k v = min (lm_burst (auth_limiter a k))
      (auth_level a k u + lm_rate (auth_limiter a k) * seconds (v - u))"
    unfolding auth_level_def
    by (cases k) (auto elim!: auth_ok_cases intro!: limiter_refills)
qed

section \<open>The process's bucket of the call budget keeps it as well\<close>

definition budget_call ::
  "timestamp \<times> uuid \<Rightarrow> timestamp \<Rightarrow> call_budget \<Rightarrow> duration option \<times> call_budget" where
  "budget_call = (\<lambda>(deadline, tenant) now c. take_call now deadline tenant c)"

definition debt_level :: "rat \<Rightarrow> rat \<Rightarrow> bucket \<Rightarrow> timestamp \<Rightarrow> rat" where
  "debt_level burst rate b now = (if bk_last b = 0 then burst else refill burst rate now b)"

definition process_level :: "call_budget \<Rightarrow> unit \<Rightarrow> timestamp \<Rightarrow> rat" where
  "process_level c _ = debt_level (cb_burst c) (cb_per_second c) (cb_all c)"

definition tenant_level :: "call_budget \<Rightarrow> uuid \<Rightarrow> timestamp \<Rightarrow> rat" where
  "tenant_level c k now = (case cb_tenants c k of None \<Rightarrow> cb_tenant_burst c
     | Some b \<Rightarrow> debt_level (cb_tenant_burst c) (cb_tenant_per_second c) b now)"

definition budget_ok :: "timestamp \<Rightarrow> call_budget \<Rightarrow> bool" where
  "budget_ok t c \<longleftrightarrow> 0 < t \<and> 0 < cb_per_second c \<and> 1 \<le> cb_burst c
     \<and> 0 < cb_tenant_per_second c \<and> 1 \<le> cb_tenant_burst c
     \<and> bk_last (cb_all c) \<le> t \<and> bk_tokens (cb_all c) \<le> cb_burst c"

lemma budget_ok_new: "0 < t \<Longrightarrow> budget_ok t new_call_budget"
  by (simp add: budget_ok_def new_call_budget_def)

lemma reserve_eq:
  "reserve now rate burst b = (let x = debt_level burst rate b now - 1
     in (if 0 \<le> x then 0 else \<lfloor>- x / rate * 1000000000\<rfloor>, \<lparr>bk_tokens = x, bk_last = now\<rparr>))"
  by (simp add: reserve_def debt_level_def refill_def Let_def)

text \<open>The wait covers the debt, but for the nanosecond the conversion to a duration cuts off.\<close>

lemma reserve_wait:
  assumes "0 < rate" "reserve now rate burst b = (w, b')"
  shows "0 \<le> w" "- bk_tokens b' \<le> rate * seconds (w + 1)"
proof -
  define x where "x = debt_level burst rate b now - 1"
  have b': "bk_tokens b' = x" and w: "w = (if 0 \<le> x then 0 else \<lfloor>- x / rate * 1000000000\<rfloor>)"
    using assms(2) by (auto simp: reserve_eq x_def Let_def)
  show "0 \<le> w" using assms(1) by (auto simp: w intro!: divide_nonpos_pos)
  show "- bk_tokens b' \<le> rate * seconds (w + 1)"
  proof (cases "0 \<le> x")
    case True
    then have "0 \<le> rate * seconds (w + 1)" using assms(1) \<open>0 \<le> w\<close> by (simp add: seconds_def)
    with True show ?thesis by (simp add: b')
  next
    case False
    then have "- x / rate * 1000000000 \<le> of_int (w + 1)"
      by (simp add: w) linarith
    then show ?thesis using assms(1) by (simp add: b' seconds_def field_simps)
  qed
qed

lemma debt_level_refills:
  assumes "0 < rate" "bk_last x \<le> u" "u \<le> v"
  shows "debt_level burst rate x v = min burst (debt_level burst rate x u + rate * seconds (v - u))"
proof -
  have pos: "0 \<le> rate * seconds (v - u)" using assms seconds_nonneg [of u v] by simp
  have "seconds (v - bk_last x) * rate = seconds (u - bk_last x) * rate + rate * seconds (v - u)"
    by (simp add: seconds_diff algebra_simps)
  with pos show ?thesis by (auto simp: debt_level_def refill_def min_def)
qed

text \<open>What a call does to the two buckets: it takes one token of each when it goes out, and gives
  both back when it would not go out in time.\<close>

lemma sweep_budget_simps [simp]:
  "cb_all (sweep_budget now c) = cb_all c" "cb_per_second (sweep_budget now c) = cb_per_second c"
  "cb_burst (sweep_budget now c) = cb_burst c"
  "cb_tenant_per_second (sweep_budget now c) = cb_tenant_per_second c"
  "cb_tenant_burst (sweep_budget now c) = cb_tenant_burst c"
  by (simp_all add: sweep_budget_def)

lemma take_call_cases:
  fixes now deadline :: timestamp and tenant :: uuid and c :: call_budget
  defines "swept \<equiv> sweep_budget now c"
  defines "x \<equiv> tenant_level swept tenant now" and "y \<equiv> process_level c () now"
  obtains (goes) w where "take_call now deadline tenant c
        = (Some w, swept\<lparr>cb_tenants := (cb_tenants swept)(tenant \<mapsto> \<lparr>bk_tokens = x - 1, bk_last = now\<rparr>),
            cb_all := \<lparr>bk_tokens = y - 1, bk_last = now\<rparr>\<rparr>)"
      "w \<le> 0 \<or> now + w \<le> deadline"
      "snd (reserve now (cb_per_second c) (cb_burst c) (cb_all c)) = \<lparr>bk_tokens = y - 1, bk_last = now\<rparr>"
      "fst (reserve now (cb_per_second c) (cb_burst c) (cb_all c)) \<le> w"
    | (throttled) "take_call now deadline tenant c
        = (None, swept\<lparr>cb_tenants := (cb_tenants swept)(tenant \<mapsto> \<lparr>bk_tokens = x, bk_last = now\<rparr>),
            cb_all := \<lparr>bk_tokens = y, bk_last = now\<rparr>\<rparr>)"
proof -
  let ?t = "case cb_tenants swept tenant of Some b \<Rightarrow> b | None \<Rightarrow> \<lparr>bk_tokens = 0, bk_last = 0\<rparr>"
  obtain w1 where 1: "reserve now (cb_tenant_per_second c) (cb_tenant_burst c) ?t
      = (w1, \<lparr>bk_tokens = x - 1, bk_last = now\<rparr>)"
    by (cases "cb_tenants swept tenant")
      (simp_all add: reserve_eq Let_def x_def tenant_level_def debt_level_def swept_def)
  obtain w2 where 2: "reserve now (cb_per_second c) (cb_burst c) (cb_all c)
      = (w2, \<lparr>bk_tokens = y - 1, bk_last = now\<rparr>)"
    by (simp add: reserve_eq Let_def y_def process_level_def)
  show ?thesis
  proof (cases "0 < max w1 w2 \<and> deadline < now + max w1 w2")
    case True
    with 1 2 show ?thesis by (intro throttled) (simp add: take_call_def Let_def swept_def)
  next
    case False
    with 1 2 show ?thesis
      by (intro goes [of "max w1 w2"]) (simp_all add: take_call_def Let_def swept_def not_less)
  qed
qed

lemma process_level_set:
  assumes "0 < now" "y \<le> cb_burst c"
  shows "process_level (c\<lparr>cb_tenants := m, cb_all := \<lparr>bk_tokens = y, bk_last = now\<rparr>\<rparr>) k now = y"
  using assms by (simp add: process_level_def debt_level_def refill_def)

lemma process_level_le: "process_level c k now \<le> cb_burst c"
  by (simp add: process_level_def debt_level_def refill_def)

interpretation calls_lim: token_buckets budget_call "\<lambda>_ _. True" process_level
  "\<lambda>c _. cb_per_second c" "\<lambda>c _. cb_burst c" 1 budget_ok
proof
  fix t now :: timestamp and c :: call_budget and r :: "timestamp \<times> uuid" and k :: unit
  obtain deadline tenant where r: "r = (deadline, tenant)" by (cases r)
  assume ok: "budget_ok t c"
  note call = budget_call_def r prod.case
  show "(\<lambda>_ :: unit. cb_per_second (snd (budget_call r now c))) = (\<lambda>_. cb_per_second c)"
    unfolding call by (cases rule: take_call_cases [of now deadline tenant c]) simp_all
  show "0 < cb_per_second c" using ok by (simp add: budget_ok_def)
  assume tn: "t \<le> now"
  have now: "0 < now" using ok tn by (simp add: budget_ok_def)
  note le = process_level_le [of c k now]
  show "budget_ok now (snd (budget_call r now c))"
    unfolding call
    by (cases rule: take_call_cases [of now deadline tenant c])
      (use ok tn process_level_le [of c "()" now] in \<open>simp_all add: budget_ok_def\<close>)
  show "process_level (snd (budget_call r now c)) k now \<le> process_level c k now"
    unfolding call
    by (cases rule: take_call_cases [of now deadline tenant c])
      (use now process_level_le [of c "()" now] in \<open>simp_all add: process_level_set\<close>)
  fix w c'
  assume out: "budget_call r now c = (Some w, c')"
  show "process_level c' k now \<le> process_level c k now - 1
      \<and> - process_level c' k now \<le> cb_per_second c * seconds (w + 1)"
  proof (cases rule: take_call_cases [of now deadline tenant c])
    case (goes w')
    have "- (process_level c () now - 1) \<le> cb_per_second c
        * seconds (fst (reserve now (cb_per_second c) (cb_burst c) (cb_all c)) + 1)"
      using reserve_wait(2) [of "cb_per_second c" now "cb_burst c" "cb_all c"] goes(3) ok
      by (cases "reserve now (cb_per_second c) (cb_burst c) (cb_all c)") (simp add: budget_ok_def)
    also have "\<dots> \<le> cb_per_second c * seconds (w' + 1)"
      using goes(4) ok by (intro mult_left_mono seconds_mono) (simp_all add: budget_ok_def)
    finally show ?thesis
      using goes out now process_level_le [of c "()" now]
      by (auto simp: call process_level_set)
  qed (use out in \<open>simp add: call\<close>)
next
  fix t u v and k :: unit and c
  assume "budget_ok t c" "t \<le> u" "u \<le> v"
  then show "process_level c k v = min (cb_burst c) (process_level c k u + cb_per_second c * seconds (v - u))"
    unfolding process_level_def by (intro debt_level_refills) (simp_all add: budget_ok_def)
qed

text \<open>A call whose tokens come in time goes out.\<close>

lemma reserve_wait_le:
  assumes "0 < rate" "0 \<le> d" "1 - debt_level burst rate b now \<le> rate * seconds d"
  shows "fst (reserve now rate burst b) \<le> d"
  using assms by (auto simp: reserve_eq Let_def floor_le_iff seconds_def field_simps)

lemma take_call_in_time:
  assumes "0 < cb_tenant_per_second c" "0 < cb_per_second c" "now \<le> deadline"
    and "1 - tenant_level (sweep_budget now c) k now \<le> cb_tenant_per_second c * seconds (deadline - now)"
    and "1 - process_level c () now \<le> cb_per_second c * seconds (deadline - now)"
  shows "fst (take_call now deadline k c) \<noteq> None"
proof -
  let ?t = "case cb_tenants (sweep_budget now c) k of Some b \<Rightarrow> b | None \<Rightarrow> \<lparr>bk_tokens = 0, bk_last = 0\<rparr>"
  have "tenant_level (sweep_budget now c) k now
      = debt_level (cb_tenant_burst c) (cb_tenant_per_second c) ?t now"
    by (simp add: tenant_level_def debt_level_def split: option.split)
  then have "fst (reserve now (cb_tenant_per_second c) (cb_tenant_burst c) ?t) \<le> deadline - now"
    using assms by (intro reserve_wait_le) simp_all
  moreover have "fst (reserve now (cb_per_second c) (cb_burst c) (cb_all c)) \<le> deadline - now"
    using assms by (intro reserve_wait_le) (simp_all add: process_level_def)
  ultimately show ?thesis by (auto simp: take_call_def Let_def split: prod.splits)
qed

text \<open>A workspace that sent its burst and \<open>n\<close> calls more in one instant, its bucket swept last at
  sixty seconds.\<close>

definition in_debt :: "nat \<Rightarrow> call_budget \<Rightarrow> bool" where
  "in_debt n c \<longleftrightarrow> cb_swept c = 60 * second \<and> cb_per_second c = 10 \<and> cb_burst c = 20
     \<and> cb_tenant_per_second c = 5 \<and> cb_tenant_burst c = 20
     \<and> cb_tenants c 7 = Some \<lparr>bk_tokens = 20 - of_nat n, bk_last = 116 * second\<rparr>
     \<and> cb_all c = \<lparr>bk_tokens = 20 - of_nat n, bk_last = 116 * second\<rparr>"

lemma in_debt_levels:
  assumes "in_debt n c"
  shows "process_level c () (116 * second) = 20 - of_nat n"
    "tenant_level (sweep_budget (116 * second) c) 7 (116 * second) = 20 - of_nat n"
  using assms
  by (simp_all add: in_debt_def process_level_def tenant_level_def debt_level_def refill_def sweep_budget_def)

lemma in_debt_step:
  assumes "in_debt n c" "n < 45"
  shows "fst (budget_call (121 * second, 7) (116 * second) c) \<noteq> None"
    "in_debt (Suc n) (snd (budget_call (121 * second, 7) (116 * second) c))"
proof -
  show go: "fst (budget_call (121 * second, 7) (116 * second) c) \<noteq> None"
    unfolding budget_call_def prod.case
    by (rule take_call_in_time)
      (use assms in_debt_levels [OF assms(1)] in \<open>simp_all add: in_debt_def seconds_def\<close>)
  show "in_debt (Suc n) (snd (budget_call (121 * second, 7) (116 * second) c))"
    by (cases rule: take_call_cases [of "116 * second" "121 * second" 7 c])
      (use go assms(1) in_debt_levels [OF assms(1)] in
        \<open>simp_all add: budget_call_def in_debt_def sweep_budget_def\<close>)
qed

lemma in_debt_first:
  "list_all (\<lambda>(_, _, w). w \<noteq> None) (fst (takes budget_call
     [((65 * second, 7), 60 * second), ((121 * second, 7), 116 * second)] new_call_budget))"
  "in_debt 1 (snd (takes budget_call
     [((65 * second, 7), 60 * second), ((121 * second, 7), 116 * second)] new_call_budget))"
  by code_simp+

lemma takes_append: "takes f (xs @ ys) s = (let (out, s') = takes f xs s; (out', s'') = takes f ys s' in (out @ out', s''))"
  by (induction f xs s rule: takes.induct) (simp_all split: prod.split)

lemma in_debt_run:
  assumes "in_debt n c" "n + m \<le> 45"
  shows "list_all (\<lambda>(_, _, w). w \<noteq> None)
      (fst (takes budget_call (replicate m ((121 * second, 7), 116 * second)) c))
    \<and> in_debt (n + m) (snd (takes budget_call (replicate m ((121 * second, 7), 116 * second)) c))"
  using assms
proof (induction m arbitrary: n c)
  case (Suc m)
  have "n < 45" using Suc.prems(2) by simp
  note step = in_debt_step [OF Suc.prems(1) this]
  show ?case
    using Suc.IH [OF step(2)] Suc.prems(2) step(1) by (auto split: prod.split)
qed simp

lemma in_debt_swept:
  assumes "in_debt n c"
  shows "tenant_level c 7 (120 * second + 500000000) = min 20 (85 / 2 - of_nat n)"
    "tenant_level (sweep_budget (120 * second + 500000000) c) 7 (120 * second + 500000000) = 20"
  using assms
  by (simp_all add: in_debt_def tenant_level_def debt_level_def refill_def sweep_budget_def full_after_def
      seconds_def)

section \<open>Forwarded addresses\<close>

lemma walk_hops_found:
  "walk_hops A trusted hs = Some a \<Longrightarrow> walk_hops A trusted (hs @ left) = Some a"
  by (induction hs) (auto split: option.splits if_splits)

section \<open>What a refusal says\<close>

lemma round_second_close: "0 \<le> d \<Longrightarrow> d + 1 \<le> round_second d + second"
  by (simp add: round_second_def minus_mod_eq_div_mult [symmetric])

lemma allow_refused:
  assumes "limiter_ok t l" "t \<le> now" "allow key now l = ((False, wait), l')"
  shows "limiter_level l key now < 1"
    "wait = round_second \<lfloor>(1 - limiter_level l key now) / lm_rate l * 1000000000\<rfloor> + second"
    "limiter_level l' key now = limiter_level l key now"
    "0 \<le> wait"
proof -
  let ?b = "case lm_buckets (sweep now l) key of Some b \<Rightarrow> b
    | None \<Rightarrow> \<lparr>bk_tokens = lm_burst (sweep now l), bk_last = now\<rparr>"
  have "refill (lm_burst l) (lm_rate l) now ?b = limiter_level (sweep now l) key now"
    by (simp add: limiter_level_def refill_def split: option.split)
  also have "... = limiter_level l key now" by (rule sweep_level [OF assms(1)])
  finally show low: "limiter_level l key now < 1" and
      w: "wait = round_second \<lfloor>(1 - limiter_level l key now) / lm_rate l * 1000000000\<rfloor> + second"
    using assms(3) by (auto simp: allow_def Let_def split: if_splits)
  have att: "attempt key now l = (None, l')" using assms(3) by (simp add: attempt_def)
  show "limiter_level l' key now = limiter_level l key now"
    by (rule attempt_cases [OF assms(1,2), of key])
      (use att limiter_level_bounds [OF assms(1,2), of key] in \<open>auto simp: limiter_level_update\<close>)
  have "0 \<le> (1 - limiter_level l key now) / lm_rate l * 1000000000"
    using low assms(1) by (auto simp: limiter_ok_def)
  then have "0 \<le> \<lfloor>(1 - limiter_level l key now) / lm_rate l * 1000000000\<rfloor>" by simp
  then show "0 \<le> wait"
    using round_second_close [of "\<lfloor>(1 - limiter_level l key now) / lm_rate l * 1000000000\<rfloor>"] w by linarith
qed

lemma refused_wait:
  assumes "0 < rate" "x < 1" "wait = round_second \<lfloor>(1 - x) / rate * 1000000000\<rfloor> + second" "wait \<le> d"
  shows "1 \<le> x + rate * seconds d"
proof -
  let ?z = "(1 - x) / rate * 1000000000"
  have "0 \<le> \<lfloor>?z\<rfloor>" using assms(1,2) by simp
  then have "\<lfloor>?z\<rfloor> + 1 \<le> d" using round_second_close [of "\<lfloor>?z\<rfloor>"] assms(3,4) by linarith
  then have "?z \<le> of_int d" by linarith
  then show ?thesis using assms(1) by (simp add: seconds_def field_simps)
qed

section \<open>Properties\<close>

text \<open>C36: A rate limit holds whatever the sequence of attempts. From any state the limiter can be in
  at \<open>t\<close>, the attempts of one key admitted by \<open>T\<close> are at most its burst plus its rate times the time
  that passed, other keys and the sweep notwithstanding.\<close>

theorem limiter_window_bound:
  assumes "limiter_ok t l" and "in_order t ops"
  shows "of_nat (served (\<lambda>r. r = key) T (fst (takes attempt ops l)))
      \<le> max 0 (lm_burst l + lm_rate l * seconds (T - t))"
  using lim.window_bound [OF assms, of key T] lim.level_le_burst [OF assms(1) order.refl, of key] by simp

theorem limiter_window_bound_witness:
  "served (\<lambda>r. r = ''a'') (2 * second) (fst (takes attempt
     [(''a'', second), (''b'', second), (''a'', second), (''a'', 2 * second)] (new_limiter 60 2))) \<le> 3"
proof -
  have "of_nat (served (\<lambda>r. r = ''a'') (2 * second) (fst (takes attempt
     [(''a'', second), (''b'', second), (''a'', second), (''a'', 2 * second)] (new_limiter 60 2)))) \<le> (3 :: rat)"
    using limiter_window_bound [of second "new_limiter 60 2"
        "[(''a'', second), (''b'', second), (''a'', second), (''a'', 2 * second)]" "''a''" "2 * second"]
    by (simp add: limiter_ok_new) (simp add: new_limiter_def seconds_def)
  then show ?thesis by linarith
qed

text \<open>The \<open>Retry-After\<close> of a refusal is enough. An attempt of the key made that long after, or
  later, is admitted, whatever other keys tried in between.\<close>

theorem retry_after_suffices:
  assumes "limiter_ok t l" and "t \<le> now" and "allow key now l = ((False, wait), l')"
    and "in_order now ops" and "list_all (\<lambda>(k, u). k \<noteq> key \<and> u \<le> v) ops" and "now + wait \<le> v"
  shows "fst (fst (allow key v (snd (takes attempt ops l'))))"
proof -
  have att: "attempt key now l = (None, l')" using assms(3) by (simp add: attempt_def)
  have rate: "lm_rate l' = lm_rate l" "lm_burst l' = lm_burst l"
    using attempt_rates [of key now l] by (simp_all add: att)
  have pos: "0 < lm_rate l" "1 \<le> lm_burst l" using assms(1) by (simp_all add: limiter_ok_def)
  have ok: "limiter_ok now l'" using lim.keeps_valid [OF assms(1,2), of key] by (simp add: att)
  note refused = allow_refused [OF assms(1,2,3)]
  have "now \<le> v" using refused(4) assms(6) by simp
  have "1 \<le> limiter_level l' key v"
    using lim.refills [OF ok order.refl \<open>now \<le> v\<close>, of key]
      refused_wait [OF pos(1) refused(1,2), of "v - now"] assms(6) pos by (simp add: rate refused(3))
  moreover obtain u where u: "u \<le> v" "limiter_ok u (snd (takes attempt ops l'))"
      "limiter_level (snd (takes attempt ops l')) key v = limiter_level l' key v"
    using lim.others_cost_nothing [OF ok assms(4) _ \<open>now \<le> v\<close>, of key] assms(5) by (auto simp: eq_commute)
  ultimately have "fst (attempt key v (snd (takes attempt ops l'))) = Some 0"
    by (intro lim.admits [OF u(2,1)]) auto
  then show ?thesis by (auto simp: attempt_def Let_def split: prod.splits if_splits)
qed

theorem retry_after_suffices_witness:
  "fst (fst (allow ''a'' (4 * second) (snd (takes attempt [(''b'', 3 * second)]
     (snd (allow ''a'' (2 * second) (new_limiter 60 1\<lparr>lm_buckets := [''a'' \<mapsto> \<lparr>bk_tokens = 0, bk_last = 2 * second\<rparr>]\<rparr>)))))))"
proof (rule retry_after_suffices [where t = "2 * second" and now = "2 * second" and wait = "2 * second"])
  show "limiter_ok (2 * second) (new_limiter 60 1\<lparr>lm_buckets := [''a'' \<mapsto> \<lparr>bk_tokens = 0, bk_last = 2 * second\<rparr>]\<rparr>)"
    by (simp add: limiter_ok_def new_limiter_def)
qed (simp_all add: allow_def sweep_def new_limiter_def refill_def round_second_def full_after_def seconds_def)

text \<open>Guessing one account's password is bounded however many addresses the guesses come from.
  Under the production setting, with the limits fresh or in any later state, the attempts on a subject
  admitted by \<open>T\<close> are at most the five of its burst and five a minute.\<close>

theorem auth_guesses_bounded:
  assumes "in_order t ops"
  shows "of_nat (served (\<lambda>(ip, subject). subject \<noteq> [] \<and> lower (trim_space subject) = account) T
        (fst (takes (auth_attempt lower) ops (Some default_auth))))
      \<le> max 0 (5 + seconds (T - t) / 12)"
proof -
  have charged: "(\<lambda>(ip, subject). subject \<noteq> [] \<and> lower (trim_space subject) = account)
      = (\<lambda>r. auth_charges lower r (BySubject account))"
    by auto
  have "auth_level (Some default_auth) (BySubject account) t \<le> 5"
    using auth_lim.level_le_burst [OF auth_ok_default order.refl, of "BySubject account" t]
    by (simp add: default_auth_def new_limiter_def)
  with auth_lim.window_bound [OF auth_ok_default assms, of lower "BySubject account" T] show ?thesis
    unfolding charged by (simp add: default_auth_def new_limiter_def)
qed

theorem auth_guesses_bounded_witness:
  "served (\<lambda>(ip, subject). subject \<noteq> [] \<and> trim_space subject = ''u'') second
     (fst (takes (auth_attempt (\<lambda>s. s)) [((''1'', ''u''), second), ((''2'', ''u''), second)] (Some default_auth))) \<le> 5"
proof -
  have "of_nat (served (\<lambda>(ip, subject). subject \<noteq> [] \<and> trim_space subject = ''u'') second
     (fst (takes (auth_attempt (\<lambda>s. s)) [((''1'', ''u''), second), ((''2'', ''u''), second)] (Some default_auth))))
      \<le> (5 :: rat)"
    using auth_guesses_bounded [of second "[((''1'', ''u''), second), ((''2'', ''u''), second)]" "\<lambda>s. s" "''u''" second]
    by simp
  then show ?thesis by linarith
qed

text \<open>C37: A caller cannot choose the address it is limited by. From a peer that is no trusted proxy the
  header changes nothing; behind trusted proxies whatever the caller put to the left of the first hop
  they do not own changes nothing.\<close>

theorem client_ip_unforgeable:
  assumes "al_host A remote = Some host" and "al_parse A host = Some peer"
    and "\<not> within_nets trusted peer \<or> walk_hops A trusted (rev (split_on CHR '','' genuine)) = Some a"
  shows "client_ip A trusted remote (forged @ CHR '','' # genuine) = client_ip A trusted remote genuine"
  using assms walk_hops_found [of A trusted "rev (split_on CHR '','' genuine)" a "rev (split_on CHR '','' forged)"]
  by (auto simp: client_ip_def split_on_append Let_def)

theorem client_ip_unforgeable_witness:
  "client_ip \<lparr>al_host = Some, al_parse = (\<lambda>s. if s = ''p'' then Some False else if s = ''c'' then Some True else None),
       al_string = (\<lambda>b. if b then ''c'' else ''p'')\<rparr> [Not] ''p'' (''x'' @ CHR '','' # ''c'') = ''c''"
proof -
  let ?A = "\<lparr>al_host = Some, al_parse = (\<lambda>s. if s = ''p'' then Some False else if s = ''c'' then Some True else None),
       al_string = (\<lambda>b. if b then ''c'' else ''p'')\<rparr>"
  have walk: "walk_hops ?A [Not] (rev (split_on CHR '','' ''c'')) = Some True"
    by (simp add: split_on.simps trim_space_id visible_def within_nets_def)
  have "client_ip ?A [Not] ''p'' (''x'' @ CHR '','' # ''c'') = client_ip ?A [Not] ''p'' ''c''"
    by (rule client_ip_unforgeable [of _ _ "''p''" False _ _ True]) (use walk in simp_all)
  also have "\<dots> = ''c''"
    using walk by (simp add: client_ip_def within_nets_def)
  finally show ?thesis .
qed

text \<open>The hook's requests stay under the platform's limit: however many acts ask, the calls that
  have left by \<open>T\<close> are at most twenty and ten a second (and one over the nanosecond's rounding).\<close>

theorem hook_calls_bounded:
  assumes "0 < t" and "in_order t ops"
  shows "of_nat (served (\<lambda>_. True) T (fst (takes budget_call ops new_call_budget)))
      \<le> max 0 (20 + 10 * seconds (T + 1 - t))"
  using calls_lim.window_bound [OF budget_ok_new [OF assms(1)] assms(2), of T "()"]
    process_level_le [of new_call_budget "()" t]
  by (simp add: new_call_budget_def)

theorem hook_calls_bounded_witness:
  "served (\<lambda>_. True) (2 * second) (fst (takes budget_call
     [((6 * second, 7), second), ((6 * second, 8), 2 * second)] new_call_budget)) \<le> 30"
proof -
  have "of_nat (served (\<lambda>_. True) (2 * second) (fst (takes budget_call
     [((6 * second, 7), second), ((6 * second, 8), 2 * second)] new_call_budget))) < (31 :: rat)"
    using hook_calls_bounded [of second "[((6 * second, 7), second), ((6 * second, 8), 2 * second)]" "2 * second"]
    by (simp add: seconds_def)
  then show ?thesis by linarith
qed

text \<open>The sweep of the workspaces' buckets is not invisible, against its comment: buckets here go
  below zero, and one that is still in debt is forgotten after the four seconds a bucket at zero would
  need. A workspace whose forty-five calls of one instant were all granted owes two and a half tokens
  four and a half seconds later; the sweep then gives it the full burst of twenty.\<close>

theorem sweep_forgets_debt:
  "let (out, c) = takes budget_call (((65 * second, 7), 60 * second) # replicate 45 ((121 * second, 7), 116 * second))
         new_call_budget
   in list_all (\<lambda>(_, _, w). w \<noteq> None) out
     \<and> tenant_level c 7 (120 * second + 500000000) = - 5 / 2
     \<and> tenant_level (sweep_budget (120 * second + 500000000) c) 7 (120 * second + 500000000) = 20"
proof -
  let ?a = "[((65 * second, 7 :: nat), 60 * second), ((121 * second, 7), 116 * second)]"
  let ?b = "replicate 44 ((121 * second, 7 :: nat), 116 * second)"
  have ops: "((65 * second, 7), 60 * second) # replicate 45 ((121 * second, 7), 116 * second) = ?a @ ?b"
    by (simp add: numeral_eq_Suc)
  obtain out c where 1: "takes budget_call ?a new_call_budget = (out, c)" by fastforce
  obtain out' c' where 2: "takes budget_call ?b c = (out', c')" by fastforce
  have "in_debt 45 c'" "list_all (\<lambda>(_, _, w). w \<noteq> None) (out @ out')"
    using in_debt_first in_debt_run [of 1 c 44] by (simp_all only: 1 2 fst_conv snd_conv list_all_append)
      simp_all
  then show ?thesis
    using in_debt_swept [of 45 c'] unfolding ops takes_append 1 prod.case 2 Let_def by simp
qed

end
