(* ===== verification/Wamedia.thy ===== *)
theory Wamedia
  imports Prelude "HOL-Library.Word"
begin

text \<open>
  The media encryption scheme (internal/crypto/wamedia/wamedia.go): key derivation, Encrypt, Decrypt and
  the streaming DecryptTo, down to the bytes.

  AES on one block, HMAC-SHA256 and HKDF-SHA256 of Go's crypto packages are a \<open>crypto_lib\<close> argument;
  the CBC mode on top of the block cipher is modelled, its running state included. \<open>crypto_ok\<close> states
  what the scheme relies on: the lengths of the outputs and that decrypting a block undoes encrypting
  it. A reader is the bytes it still has, and a writer a \<open>sink\<close> that may run full.
\<close>

unbundle bit_operations_syntax

type_synonym byte = "8 word"
type_synonym bytes = "byte list"

section \<open>Keys\<close>

definition key_len :: nat where "key_len = 32"
definition mac_len :: nat where "mac_len = 10"
definition block_size :: nat where "block_size = 16"

definition info_string :: "string \<rightharpoonup> string" where
  "info_string = [''image'' \<mapsto> ''WhatsApp Image Keys'', ''sticker'' \<mapsto> ''WhatsApp Image Keys'',
     ''video'' \<mapsto> ''WhatsApp Video Keys'', ''ptv'' \<mapsto> ''WhatsApp Video Keys'',
     ''audio'' \<mapsto> ''WhatsApp Audio Keys'', ''ptt'' \<mapsto> ''WhatsApp Audio Keys'',
     ''document'' \<mapsto> ''WhatsApp Document Keys'']"

datatype media_error = UnknownType string | BadKeyLen nat | HkdfFailed | AesFailed | ShortInput | NotBlock
  | MacMismatch | BadPadding | ReadFailed | ReadMacFailed | WriteFailed

record crypto_lib =
  cl_hkdf :: "bytes \<Rightarrow> string \<Rightarrow> nat \<Rightarrow> bytes option"
  cl_block_enc :: "bytes \<Rightarrow> bytes \<Rightarrow> bytes"
  cl_block_dec :: "bytes \<Rightarrow> bytes \<Rightarrow> bytes"
  cl_hmac :: "bytes \<Rightarrow> bytes \<Rightarrow> bytes"

record keys =
  ky_iv :: bytes
  ky_cipher :: bytes
  ky_mac :: bytes

definition slice :: "nat \<Rightarrow> nat \<Rightarrow> 'a list \<Rightarrow> 'a list" where
  "slice i j xs = take (j - i) (drop i xs)"

definition derive_keys :: "crypto_lib \<Rightarrow> bytes \<Rightarrow> string \<Rightarrow> media_error + keys" where
  "derive_keys C media_key t =
     (case info_string t of
        None \<Rightarrow> Inl (UnknownType t)
      | Some info \<Rightarrow>
          if length media_key \<noteq> key_len then Inl (BadKeyLen (length media_key))
          else (case cl_hkdf C media_key info 112 of
                  None \<Rightarrow> Inl HkdfFailed
                | Some expanded \<Rightarrow> Inr \<lparr>ky_iv = slice 0 16 expanded, ky_cipher = slice 16 48 expanded,
                                       ky_mac = slice 48 80 expanded\<rparr>))"

text \<open>\<^verbatim>\<open>aes.NewCipher\<close> refuses a key that is not 16, 24 or 32 bytes.\<close>

definition new_cipher :: "bytes \<Rightarrow> bool" where
  "new_cipher key \<longleftrightarrow> length key \<in> {16, 24, 32}"

section \<open>CBC and padding\<close>

definition xor_bytes :: "bytes \<Rightarrow> bytes \<Rightarrow> bytes" where
  "xor_bytes a b = map2 (XOR) a b"

text \<open>\<^verbatim>\<open>CryptBlocks\<close> of the two block modes: the output and the block the next call chains on.\<close>

function cbc_encrypt :: "(bytes \<Rightarrow> bytes) \<Rightarrow> bytes \<Rightarrow> bytes \<Rightarrow> bytes \<times> bytes" where
  "cbc_encrypt E iv pt =
     (if length pt < block_size then ([], iv)
      else let c = E (xor_bytes (take block_size pt) iv); (out, iv') = cbc_encrypt E c (drop block_size pt)
           in (c @ out, iv'))"
  by pat_completeness auto
termination
  by (relation "measure (\<lambda>(E, iv, pt). length pt)") (auto simp: block_size_def)

function cbc_decrypt :: "(bytes \<Rightarrow> bytes) \<Rightarrow> bytes \<Rightarrow> bytes \<Rightarrow> bytes \<times> bytes" where
  "cbc_decrypt D iv ct =
     (if length ct < block_size then ([], iv)
      else let c = take block_size ct; (out, iv') = cbc_decrypt D c (drop block_size ct)
           in (xor_bytes (D c) iv @ out, iv'))"
  by pat_completeness auto
termination
  by (relation "measure (\<lambda>(D, iv, ct). length ct)") (auto simp: block_size_def)

declare cbc_encrypt.simps [simp del] cbc_decrypt.simps [simp del]

definition pad :: "bytes \<Rightarrow> bytes" where
  "pad b = (let n = block_size - length b mod block_size in b @ replicate n (of_nat n))"

definition unpad :: "bytes \<Rightarrow> media_error + bytes" where
  "unpad pt =
     (if length pt = 0 \<or> length pt mod block_size \<noteq> 0 then Inl BadPadding
      else let n = unat (last pt) in
           if n = 0 \<or> block_size < n \<or> length pt < n then Inl BadPadding
           else if list_ex (\<lambda>b. unat b \<noteq> n) (drop (length pt - n) pt) then Inl BadPadding
           else Inr (take (length pt - n) pt))"

section \<open>Encrypt and Decrypt\<close>

definition compute_mac :: "crypto_lib \<Rightarrow> keys \<Rightarrow> bytes \<Rightarrow> bytes" where
  "compute_mac C k ct = take mac_len (cl_hmac C (ky_mac k) (ky_iv k @ ct))"

definition verify_mac :: "crypto_lib \<Rightarrow> keys \<Rightarrow> bytes \<Rightarrow> bytes \<Rightarrow> bool" where
  "verify_mac C k ct want \<longleftrightarrow> compute_mac C k ct = want"

definition decrypt :: "crypto_lib \<Rightarrow> bytes \<Rightarrow> bytes \<Rightarrow> string \<Rightarrow> media_error + bytes" where
  "decrypt C enc media_key t =
     (case derive_keys C media_key t of
        Inl e \<Rightarrow> Inl e
      | Inr k \<Rightarrow>
          if length enc < mac_len + block_size then Inl ShortInput
          else let ct = take (length enc - mac_len) enc; mac = drop (length enc - mac_len) enc in
               if length ct mod block_size \<noteq> 0 then Inl NotBlock
               else if \<not> verify_mac C k ct mac then Inl MacMismatch
               else if \<not> new_cipher (ky_cipher k) then Inl AesFailed
               else unpad (fst (cbc_decrypt (cl_block_dec C (ky_cipher k)) (ky_iv k) ct)))"

definition encrypt :: "crypto_lib \<Rightarrow> bytes \<Rightarrow> bytes \<Rightarrow> string \<Rightarrow> media_error + bytes" where
  "encrypt C plaintext media_key t =
     (case derive_keys C media_key t of
        Inl e \<Rightarrow> Inl e
      | Inr k \<Rightarrow>
          if \<not> new_cipher (ky_cipher k) then Inl AesFailed
          else let ct = fst (cbc_encrypt (cl_block_enc C (ky_cipher k)) (ky_iv k) (pad plaintext))
               in Inr (ct @ compute_mac C k ct))"

section \<open>DecryptTo\<close>

record sink =
  sk_out :: bytes
  sk_room :: nat

text \<open>\<^verbatim>\<open>dst.Write\<close>: how many bytes were taken, and whether all were.\<close>

definition sink_write :: "bytes \<Rightarrow> sink \<Rightarrow> nat \<times> bool \<times> sink" where
  "sink_write b s =
     (let n = min (length b) (sk_room s)
      in (n, n = length b, s\<lparr>sk_out := sk_out s @ take n b, sk_room := sk_room s - n\<rparr>))"

definition write_some :: "bytes \<Rightarrow> sink \<Rightarrow> nat \<times> bool \<times> sink" where
  "write_some b s = (if b \<noteq> [] then sink_write b s else (0, True, s))"

definition buf_len :: nat where "buf_len = 64 * 1024"

record stream_state =
  ss_src :: bytes
  ss_chain :: bytes
  ss_maced :: bytes
  ss_held :: bytes
  ss_written :: nat
  ss_sink :: sink

text \<open>The loop over the chunks, with \<open>left\<close> bytes of ciphertext still to read.\<close>

function decrypt_chunks ::
  "(bytes \<Rightarrow> bytes) \<Rightarrow> nat \<Rightarrow> stream_state \<Rightarrow> media_error option \<times> stream_state" where
  "decrypt_chunks D left s =
     (if left = 0 then (None, s)
      else
        let n = min buf_len left in
        if length (ss_src s) < n then (Some ReadFailed, s\<lparr>ss_src := []\<rparr>)
        else
          let chunk = take n (ss_src s);
              (pt, chain) = cbc_decrypt D (ss_chain s) chunk;
              s1 = s\<lparr>ss_src := drop n (ss_src s), ss_chain := chain, ss_maced := ss_maced s @ chunk\<rparr>;
              (w1, ok1, sink1) = write_some (ss_held s1) (ss_sink s1);
              s2 = s1\<lparr>ss_written := ss_written s1 + w1, ss_sink := sink1\<rparr>
          in if \<not> ok1 then (Some WriteFailed, s2)
             else
               let s3 = s2\<lparr>ss_held := drop (length pt - block_size) pt\<rparr>;
                   body = take (length pt - block_size) pt;
                   (w2, ok2, sink2) = write_some body (ss_sink s3);
                   s4 = s3\<lparr>ss_written := ss_written s3 + w2, ss_sink := sink2\<rparr>
               in if \<not> ok2 then (Some WriteFailed, s4)
                  else decrypt_chunks D (left - n) s4)"
  by pat_completeness auto
termination
  by (relation "measure (\<lambda>(D, left, s). left)", simp) (simp only: in_measure prod.case buf_len_def; linarith)

declare decrypt_chunks.simps [simp del]

definition decrypt_to :: "crypto_lib \<Rightarrow> sink \<Rightarrow> bytes \<Rightarrow> int \<Rightarrow> bytes \<Rightarrow> string
    \<Rightarrow> (nat \<times> media_error option) \<times> sink" where
  "decrypt_to C dst src len media_key t =
     (case derive_keys C media_key t of
        Inl e \<Rightarrow> ((0, Some e), dst)
      | Inr k \<Rightarrow>
          if len < int mac_len + int block_size then ((0, Some ShortInput), dst)
          else let ct_len = len - int mac_len in
          if ct_len mod int block_size \<noteq> 0 then ((0, Some NotBlock), dst)
          else if \<not> new_cipher (ky_cipher k) then ((0, Some AesFailed), dst)
          else
            (case decrypt_chunks (cl_block_dec C (ky_cipher k)) (nat ct_len)
                    \<lparr>ss_src = src, ss_chain = ky_iv k, ss_maced = ky_iv k, ss_held = [], ss_written = 0, ss_sink = dst\<rparr> of
               (Some e, s) \<Rightarrow> ((ss_written s, Some e), ss_sink s)
             | (None, s) \<Rightarrow>
                 if length (ss_src s) < mac_len then ((ss_written s, Some ReadMacFailed), ss_sink s)
                 else if take mac_len (cl_hmac C (ky_mac k) (ss_maced s)) \<noteq> take mac_len (ss_src s)
                   then ((ss_written s, Some MacMismatch), ss_sink s)
                 else (case unpad (ss_held s) of
                         Inl e \<Rightarrow> ((ss_written s, Some e), ss_sink s)
                       | Inr final \<Rightarrow>
                           let (w, ok, sink') = sink_write final (ss_sink s)
                           in ((ss_written s + w, if ok then None else Some WriteFailed), sink'))))"

end
