(* ===== verification/Wamedia_Facts.thy ===== *)
theory Wamedia_Facts
  imports Wamedia
begin

text \<open>
  The media scheme is a bijection on authentic blobs, and the streaming DecryptTo refines Decrypt. The
  lemmas go from the parts up: padding, CBC in both directions, CBC over chunks, the loop, and then the
  two entry points.
\<close>

section \<open>What the primitives promise\<close>

definition crypto_ok :: "crypto_lib \<Rightarrow> bool" where
  "crypto_ok C \<longleftrightarrow>
     (\<forall>k info n e. cl_hkdf C k info n = Some e \<longrightarrow> length e = n)
     \<and> (\<forall>k m. length (cl_hmac C k m) = 32)
     \<and> (\<forall>k b. length k = 32 \<longrightarrow> length b = 16 \<longrightarrow>
          length (cl_block_enc C k b) = 16 \<and> length (cl_block_dec C k b) = 16
          \<and> cl_block_dec C k (cl_block_enc C k b) = b \<and> cl_block_enc C k (cl_block_dec C k b) = b)"

lemma derive_keys_lengths:
  assumes "crypto_ok C" "derive_keys C mk t = Inr k"
  shows "length (ky_iv k) = 16" "length (ky_cipher k) = 32" "new_cipher (ky_cipher k)"
  using assms
  by (auto simp: derive_keys_def crypto_ok_def slice_def new_cipher_def split: option.splits if_splits)

lemma compute_mac_length: "crypto_ok C \<Longrightarrow> length (compute_mac C k ct) = mac_len"
  by (simp add: compute_mac_def crypto_ok_def mac_len_def)

section \<open>Padding\<close>

lemma of_nat_unat_id: "of_nat (unat x) = (x :: 'a :: len word)"
  by simp

lemma pad_length: "length (pad b) mod 16 = 0" "pad b \<noteq> []"
proof -
  have "length b mod 16 < 16" by simp
  then show "length (pad b) mod 16 = 0" "pad b \<noteq> []"
    by (simp_all add: pad_def block_size_def Let_def) presburger
qed

lemma unpad_pad [simp]: "unpad (pad b) = Inr b"
proof -
  define n where "n = 16 - length b mod 16"
  have n: "0 < n" "n \<le> 16" by (simp_all add: n_def)
  then have u: "unat (of_nat n :: byte) = n" by (simp add: unat_of_nat)
  have p: "pad b = b @ replicate n (of_nat n)" by (simp add: pad_def n_def block_size_def)
  have "last (pad b) = of_nat n" using n by (simp add: p)
  with n u pad_length [of b] show ?thesis
    by (simp add: unpad_def Let_def block_size_def p list_ex_iff)
qed

lemma unpad_InrD:
  assumes "unpad p = Inr b"
  shows "length p mod 16 = 0" "unat (last p) \<noteq> 0" "unat (last p) \<le> 16" "unat (last p) \<le> length p"
    "list_all (\<lambda>x. unat x = unat (last p)) (drop (length p - unat (last p)) p)"
    "take (length p - unat (last p)) p = b"
  using assms
  by (simp_all only: unpad_def Let_def list_ex_iff list_all_iff sum.inject sum.distinct block_size_def
      split: if_split_asm) (auto simp only: not_less)

lemma unpad_length:
  assumes "unpad p = Inr b"
  shows "length p \<le> length b + 16 \<and> length b < length p \<and> length p mod 16 = 0"
proof -
  note p = unpad_InrD [OF assms]
  have "length b = length p - unat (last p)" using p(6) by (metis length_take min.absorb2 diff_le_self)
  with p(1-4) show ?thesis by linarith
qed

lemma pad_amount:
  assumes "m mod 16 = 0" "n \<noteq> 0" "n \<le> 16" "n \<le> m"
  shows "16 - (m - n) mod 16 = (n :: nat)"
proof -
  obtain q where q: "m = 16 * q" using assms(1) by blast
  then have "m - n = (16 - n) + 16 * (q - 1)" using assms by (cases q) simp_all
  then have "(m - n) mod 16 = (16 - n) mod 16" by simp
  then show ?thesis using assms by (cases "n = 16") simp_all
qed

lemma pad_unpad:
  assumes "unpad p = Inr b"
  shows "pad b = p"
proof -
  define n where "n = unat (last p)"
  note len = unpad_InrD(1-4) [OF assms, folded n_def]
  have b: "b = take (length p - n) p" and all: "\<forall>x \<in> set (drop (length p - n) p). unat x = n"
    using unpad_InrD(5,6) [OF assms] by (simp_all only: n_def list_all_iff)
  have "\<forall>x \<in> set (drop (length p - n) p). x = of_nat n"
    using all by (metis of_nat_unat_id)
  then have rep: "drop (length p - n) p = replicate n (of_nat n)"
    using len(4) by (intro replicate_eqI) simp_all
  have m: "16 - (length p - n) mod 16 = n" by (rule pad_amount) (fact len)+
  have lb: "length b = length p - n" by (simp only: b length_take min.absorb2 diff_le_self)
  have "pad b = b @ replicate (16 - length b mod 16) (of_nat (16 - length b mod 16))"
    by (simp only: pad_def block_size_def Let_def)
  also have "\<dots> = take (length p - n) p @ drop (length p - n) p" by (simp only: lb m rep b [symmetric])
  finally show ?thesis by (simp only: append_take_drop_id)
qed

section \<open>CBC\<close>

lemma xor_bytes_length [simp]: "length (xor_bytes a b) = min (length a) (length b)"
  by (simp add: xor_bytes_def)

lemma xor_bytes_cancel: "length a = length b \<Longrightarrow> xor_bytes (xor_bytes a b) b = a"
  by (induction a b rule: list_induct2) (simp_all add: xor_bytes_def xor.assoc)

lemma cbc_encrypt_Nil [simp]: "cbc_encrypt E iv [] = ([], iv)"
  by (simp add: cbc_encrypt.simps block_size_def)

lemma cbc_decrypt_Nil [simp]: "cbc_decrypt D iv [] = ([], iv)"
  by (simp add: cbc_decrypt.simps block_size_def)

lemma cbc_encrypt_block:
  "length a = 16 \<Longrightarrow> cbc_encrypt E iv (a @ b)
     = (let c = E (xor_bytes a iv); (out, iv') = cbc_encrypt E c b in (c @ out, iv'))"
  by (simp add: cbc_encrypt.simps [of E iv "a @ b"] block_size_def)

lemma cbc_decrypt_block:
  "length a = 16 \<Longrightarrow> cbc_decrypt D iv (a @ b)
     = (let (out, iv') = cbc_decrypt D a b in (xor_bytes (D a) iv @ out, iv'))"
  by (simp add: cbc_decrypt.simps [of D iv "a @ b"] block_size_def Let_def)

lemma blocks_induct [consumes 1, case_names none block]:
  assumes "length xs mod 16 = 0" "P []"
    and "\<And>a b. length a = 16 \<Longrightarrow> length b mod 16 = 0 \<Longrightarrow> P b \<Longrightarrow> P (a @ b)"
  shows "P (xs :: 'a list)"
  using assms(1)
proof (induction xs rule: length_induct)
  case (1 xs)
  show ?case
  proof (cases "xs = []")
    case False
    with 1(2) have "16 \<le> length xs" by (cases "length xs < 16") simp_all
    then have "length (take 16 xs) = 16" "length (drop 16 xs) mod 16 = 0" "length (drop 16 xs) < length xs"
      using 1(2) le_mod_geq [of 16 "length xs"] by simp_all
    with 1(1) assms(3) show ?thesis by (metis append_take_drop_id)
  qed (simp add: assms(2))
qed

lemma cbc_decrypt_length:
  assumes "length ct mod 16 = 0" "\<forall>b. length b = 16 \<longrightarrow> length (D b) = 16" "length iv = 16"
  shows "length (fst (cbc_decrypt D iv ct)) = length ct \<and> length (snd (cbc_decrypt D iv ct)) = 16"
  using assms(1,3)
  by (induction ct arbitrary: iv rule: blocks_induct)
    (simp_all add: cbc_decrypt_block assms(2) split: prod.split, metis fst_conv snd_conv)

lemma cbc_decrypt_append:
  assumes "length a mod 16 = 0"
  shows "cbc_decrypt D iv (a @ b) = (let (x, iv') = cbc_decrypt D iv a; (y, iv'') = cbc_decrypt D iv' b in (x @ y, iv''))"
  using assms
  by (induction a arbitrary: iv rule: blocks_induct) (simp_all add: cbc_decrypt_block Let_def split: prod.split)

lemma cbc_encrypt_length:
  assumes "length pt mod 16 = 0" "\<And>b. length b = 16 \<Longrightarrow> length (E b) = 16" "length iv = 16"
  shows "length (fst (cbc_encrypt E iv pt)) = length pt"
  using assms(1,3)
  by (induction pt arbitrary: iv rule: blocks_induct)
    (simp_all add: cbc_encrypt_block assms(2) Let_def split: prod.split, metis fst_conv assms(2) xor_bytes_length min.idem)

lemma cbc_decrypt_encrypt:
  assumes "length pt mod 16 = 0" "\<And>b. length b = 16 \<Longrightarrow> length (E b) = 16 \<and> D (E b) = b" "length iv = 16"
  shows "fst (cbc_decrypt D iv (fst (cbc_encrypt E iv pt))) = pt"
  using assms(1,3)
proof (induction pt arbitrary: iv rule: blocks_induct)
  case (block a b)
  let ?c = "E (xor_bytes a iv)"
  have c: "length ?c = 16" "D ?c = xor_bytes a iv" using assms(2) block by simp_all
  show ?case
    using block.IH [OF c(1)] block.hyps block.prems
    by (simp add: cbc_encrypt_block Let_def case_prod_beta cbc_decrypt_block c xor_bytes_cancel)
qed simp

lemma cbc_encrypt_decrypt:
  assumes "length ct mod 16 = 0" "\<And>b. length b = 16 \<Longrightarrow> length (D b) = 16 \<and> E (D b) = b" "length iv = 16"
  shows "fst (cbc_encrypt E iv (fst (cbc_decrypt D iv ct))) = ct"
  using assms(1,3)
proof (induction ct arbitrary: iv rule: blocks_induct)
  case (block a b)
  have "E (xor_bytes (xor_bytes (D a) iv) iv) = a" using assms(2) block by (simp add: xor_bytes_cancel)
  with block assms(2) show ?case
    by (simp add: cbc_decrypt_block Let_def case_prod_beta cbc_encrypt_block)
qed simp

section \<open>The streaming loop\<close>

text \<open>What the loop has written and held back, of the bytes it has decrypted: all but the last block.\<close>

definition keep_last :: "bytes \<Rightarrow> bytes" where
  "keep_last xs = drop (length xs - 16) xs"

definition emitted :: "bytes \<Rightarrow> bytes" where
  "emitted xs = take (length xs - 16) xs"

lemma emitted_keep_last: "emitted xs @ keep_last xs = xs"
  by (simp add: emitted_def keep_last_def)

lemma emitted_step:
  assumes "length held = 0 \<or> length held = 16" "16 \<le> length pt"
  shows "emitted (held @ pt) = held @ take (length pt - 16) pt" "keep_last (held @ pt) = keep_last pt"
  using assms by (auto simp: emitted_def keep_last_def)

lemma emitted_more:
  assumes "16 \<le> length xs"
  shows "emitted (xs @ ys) = emitted xs @ emitted (keep_last xs @ ys)"
    "keep_last (xs @ ys) = keep_last (keep_last xs @ ys)"
proof -
  define a b where "a = emitted xs" and "b = keep_last xs"
  have xs: "xs = a @ b" and b: "length b = 16"
    using assms emitted_keep_last [of xs] by (simp_all add: a_def b_def keep_last_def)
  have "emitted ((a @ b) @ ys) = a @ emitted (b @ ys)" "keep_last ((a @ b) @ ys) = keep_last (b @ ys)"
    by (simp_all add: emitted_def keep_last_def b)
  then show "emitted (xs @ ys) = emitted xs @ emitted (keep_last xs @ ys)"
      "keep_last (xs @ ys) = keep_last (keep_last xs @ ys)"
    unfolding a_def b_def by (simp_all add: emitted_keep_last)
qed

text \<open>Writing in pieces is writing at once, or a failure when the sink has no room for all of it.\<close>

definition put :: "bytes \<Rightarrow> sink \<Rightarrow> (nat \<times> sink) option" where
  "put b s = (if length b \<le> sk_room s
     then Some (length b, s\<lparr>sk_out := sk_out s @ b, sk_room := sk_room s - length b\<rparr>) else None)"

lemma put_append:
  "put (a @ b) s = (case put a s of None \<Rightarrow> None
     | Some (n, s') \<Rightarrow> (case put b s' of None \<Rightarrow> None | Some (m, s'') \<Rightarrow> Some (n + m, s'')))"
  by (auto simp: put_def split: if_splits)

lemma put_Nil [simp]: "put [] s = Some (0, s)"
  by (simp add: put_def)

lemma sink_write_put:
  "sink_write b s = (n, ok, s') \<Longrightarrow> put b s = (if ok then Some (n, s') else None)"
  by (auto simp: sink_write_def put_def Let_def)

lemma write_some_put:
  "write_some b s = (n, ok, s') \<Longrightarrow> put b s = (if ok then Some (n, s') else None)"
  by (cases "b = []") (auto simp: write_some_def dest: sink_write_put)

definition loop_end :: "(bytes \<Rightarrow> bytes) \<Rightarrow> nat \<Rightarrow> stream_state \<Rightarrow> stream_state option" where
  "loop_end D left s =
     (let ct = take left (ss_src s); (pt, chain) = cbc_decrypt D (ss_chain s) ct; xs = ss_held s @ pt
      in if length (ss_src s) < left then None
         else (case put (emitted xs) (ss_sink s) of
                 None \<Rightarrow> None
               | Some (n, sink) \<Rightarrow> Some (s\<lparr>ss_src := drop left (ss_src s), ss_chain := chain,
                   ss_maced := ss_maced s @ ct, ss_held := keep_last xs, ss_written := ss_written s + n,
                   ss_sink := sink\<rparr>)))"

lemma decrypt_chunks_step:
  assumes "left \<noteq> 0" "n = min buf_len left" "n \<le> length (ss_src s)" "n mod 16 = 0"
    and "\<forall>b. length b = 16 \<longrightarrow> length (D b) = 16" "length (ss_chain s) = 16"
    and "length (ss_held s) = 0 \<or> length (ss_held s) = 16"
  shows "case loop_end D n s of
      None \<Rightarrow> \<exists>s'. decrypt_chunks D left s = (Some WriteFailed, s')
    | Some s' \<Rightarrow> decrypt_chunks D left s = decrypt_chunks D (left - n) s'"
proof -
  obtain pt chain where dec: "cbc_decrypt D (ss_chain s) (take n (ss_src s)) = (pt, chain)" by fastforce
  have "0 < n" using assms(1,2) by (simp add: buf_len_def)
  then have "16 \<le> n" using assms(4) by (cases "n < 16") simp_all
  moreover have "length pt = n"
    using cbc_decrypt_length [of "take n (ss_src s)" D "ss_chain s"] assms dec by simp
  ultimately have pt: "16 \<le> length pt" by simp
  let ?body = "take (length pt - 16) pt"
  have xs: "emitted (ss_held s @ pt) = ss_held s @ ?body" "keep_last (ss_held s @ pt) = drop (length pt - 16) pt"
    using emitted_step [OF assms(7) pt] by (simp_all add: keep_last_def)
  obtain w1 ok1 sink1 where 1: "write_some (ss_held s) (ss_sink s) = (w1, ok1, sink1)" by (metis prod_cases3)
  obtain w2 ok2 sink2 where 2: "write_some ?body sink1 = (w2, ok2, sink2)" by (metis prod_cases3)
  have p1: "put (ss_held s) (ss_sink s) = (if ok1 then Some (w1, sink1) else None)"
    by (rule write_some_put [OF 1])
  have p2: "put ?body sink1 = (if ok2 then Some (w2, sink2) else None)"
    by (rule write_some_put [OF 2])
  have "put (emitted (ss_held s @ pt)) (ss_sink s) = (if ok1 \<and> ok2 then Some (w1 + w2, sink2) else None)"
    by (simp add: xs put_append p1 p2)
  then have loop: "loop_end D n s = (if ok1 \<and> ok2 then Some (s\<lparr>ss_src := drop n (ss_src s), ss_chain := chain,
       ss_maced := ss_maced s @ take n (ss_src s), ss_held := drop (length pt - 16) pt,
       ss_written := ss_written s + (w1 + w2), ss_sink := sink2\<rparr>) else None)"
    using assms(3) by (simp add: loop_end_def dec xs Let_def)
  show ?thesis
    using assms(1,3) 1 2
    by (cases ok1; cases ok2)
      (simp_all add: decrypt_chunks.simps [of D left] loop dec assms(2) [symmetric] block_size_def Let_def
        add.assoc)
qed

text \<open>The loop as a whole is one step over all of the ciphertext: the chunks do not show.\<close>

lemma loop_end_compose:
  assumes "n \<le> left" "n mod 16 = 0" "0 < n" "n \<le> length (ss_src s)"
    and "\<forall>b. length b = 16 \<longrightarrow> length (D b) = 16" "length (ss_chain s) = 16"
  shows "loop_end D left s = (case loop_end D n s of None \<Rightarrow> None
      | Some s' \<Rightarrow> if left = n then Some s' else loop_end D (left - n) s')"
    and "loop_end D n s = Some s' \<Longrightarrow> ss_src s' = drop n (ss_src s) \<and> length (ss_chain s') = 16 \<and> length (ss_held s') = 16"
proof -
  obtain p chain where 1: "cbc_decrypt D (ss_chain s) (take n (ss_src s)) = (p, chain)" by fastforce
  obtain q chain' where 2: "cbc_decrypt D chain (take (left - n) (drop n (ss_src s))) = (q, chain')" by fastforce
  have split: "take left (ss_src s) = take n (ss_src s) @ take (left - n) (drop n (ss_src s))"
    using assms(1) by (metis le_add_diff_inverse take_add)
  have dec: "cbc_decrypt D (ss_chain s) (take n (ss_src s) @ take (left - n) (drop n (ss_src s))) = (p @ q, chain')"
    using assms by (simp add: cbc_decrypt_append 1 2)
  have len: "length p = n" "length chain = 16"
    using cbc_decrypt_length [of "take n (ss_src s)" D "ss_chain s"] assms 1 by simp_all
  then have "16 \<le> length p" using assms(2,3) by (cases "n < 16") simp_all
  then have long: "16 \<le> length (ss_held s @ p)" by simp
  show "ss_src s' = drop n (ss_src s) \<and> length (ss_chain s') = 16 \<and> length (ss_held s') = 16"
    if "loop_end D n s = Some s'"
    using that long len by (auto simp: loop_end_def 1 Let_def keep_last_def split: option.splits if_splits)
  show "loop_end D left s = (case loop_end D n s of None \<Rightarrow> None
      | Some s' \<Rightarrow> if left = n then Some s' else loop_end D (left - n) s')"
  proof (cases "left = n")
    case True
    then show ?thesis by (simp split: option.split)
  next
    case False
    then show ?thesis
      using assms(1,4) emitted_more [OF long, of q]
      by (auto simp: loop_end_def dec 1 2 Let_def put_append drop_drop add.assoc split split: option.split)
  qed
qed

lemma decrypt_chunks_correct:
  assumes "left mod 16 = 0" "0 < left"
    and "\<forall>b. length b = 16 \<longrightarrow> length (D b) = 16" "length (ss_chain s) = 16"
    and "length (ss_held s) = 0 \<or> length (ss_held s) = 16"
  shows "case decrypt_chunks D left s of
      (None, s') \<Rightarrow> loop_end D left s = Some s'
    | (Some e, s') \<Rightarrow> loop_end D left s = None \<and> (left \<le> length (ss_src s) \<longrightarrow> e = WriteFailed)"
  using assms
proof (induction left arbitrary: s rule: less_induct)
  case (less left)
  define n where "n = min buf_len left"
  have n: "0 < n" "n \<le> left" "n mod 16 = 0" "(left - n) mod 16 = 0"
    using less.prems(1,2) by (auto simp: n_def buf_len_def min_def mod_eq_0_iff_dvd intro: dvd_diff_nat)
  show ?case
  proof (cases "length (ss_src s) < n")
    case True
    then have "decrypt_chunks D left s = (Some ReadFailed, s\<lparr>ss_src := []\<rparr>)"
      using less.prems(2) by (simp add: decrypt_chunks.simps [of D left] n_def [symmetric])
    moreover have "loop_end D left s = None" using True n(2) by (simp add: loop_end_def Let_def case_prod_beta)
    ultimately show ?thesis using True n(2) by simp
  next
    case False
    then have src: "n \<le> length (ss_src s)" by simp
    note comp = loop_end_compose [where D = D, OF n(2,3,1) src less.prems(3,4)]
    note step = decrypt_chunks_step [where D = D, OF _ n_def src n(3) less.prems(3,4,5)]
    show ?thesis
    proof (cases "loop_end D n s")
      case None
      with step less.prems(2) comp(1) show ?thesis by auto
    next
      case (Some s')
      note s' = comp(2) [OF Some]
      have eq: "decrypt_chunks D left s = decrypt_chunks D (left - n) s'"
        using step less.prems(2) Some by simp
      show ?thesis
      proof (cases "left = n")
        case True
        then show ?thesis using eq comp(1) Some by (simp add: decrypt_chunks.simps [of D 0])
      next
        case False
        then have "0 < left - n" "left - n < left" using n by simp_all
        from less.IH [OF this(2) n(4) this(1) less.prems(3), of s'] s' False eq comp(1) Some
        show ?thesis by (auto split: prod.splits option.splits)
      qed
    qed
  qed
qed

section \<open>Padding of the last block only\<close>

lemma unpad_last_block:
  assumes "length b = 16" "length a mod 16 = 0"
  shows "unpad (a @ b) = (case unpad b of Inl e \<Rightarrow> Inl e | Inr c \<Rightarrow> Inr (a @ c))"
proof -
  have b: "b \<noteq> []" using assms(1) by auto
  show ?thesis
    using assms b by (cases "unat (last b) \<le> 16") (auto simp: unpad_def block_size_def Let_def)
qed

lemma unpad_keep_last:
  assumes "length xs mod 16 = 0" "xs \<noteq> []"
  shows "unpad xs = (case unpad (keep_last xs) of Inl e \<Rightarrow> Inl e | Inr c \<Rightarrow> Inr (emitted xs @ c))"
proof -
  have "16 \<le> length xs" using assms by (cases "length xs < 16") auto
  then have "length (keep_last xs) = 16" "length (emitted xs) mod 16 = 0"
    using assms(1) le_mod_geq [of 16 "length xs"] by (simp_all add: keep_last_def emitted_def)
  then show ?thesis using unpad_last_block [of "keep_last xs" "emitted xs"] by (simp add: emitted_keep_last)
qed

section \<open>What DecryptTo does, by cases\<close>

lemma decrypt_long:
  assumes "derive_keys C mk t = Inr k" "new_cipher (ky_cipher k)" "length enc = length ct + 10"
    and "enc = ct @ mac" "16 \<le> length ct" "length ct mod 16 = 0"
  shows "decrypt C enc mk t = (if compute_mac C k ct \<noteq> mac then Inl MacMismatch
           else unpad (fst (cbc_decrypt (cl_block_dec C (ky_cipher k)) (ky_iv k) ct)))"
  using assms by (simp add: decrypt_def mac_len_def block_size_def verify_mac_def Let_def)

lemma decrypt_to_long:
  fixes len :: int
  defines "left \<equiv> nat (len - 10)"
  assumes "crypto_ok C" "derive_keys C mk t = Inr k" "26 \<le> len" "(len - 10) mod 16 = 0"
  shows "case decrypt_to C dst src len mk t of ((n, err), dst') \<Rightarrow>
      (case loop_end (cl_block_dec C (ky_cipher k)) left \<lparr>ss_src = src, ss_chain = ky_iv k,
              ss_maced = ky_iv k, ss_held = [], ss_written = 0, ss_sink = dst\<rparr> of
         None \<Rightarrow> err \<noteq> None
       | Some s \<Rightarrow>
           if length (ss_src s) < 10 then err = Some ReadMacFailed
           else if take 10 (cl_hmac C (ky_mac k) (ss_maced s)) \<noteq> take 10 (ss_src s) then err = Some MacMismatch
           else (case unpad (ss_held s) of Inl e \<Rightarrow> err = Some e
             | Inr final \<Rightarrow> (case put final (ss_sink s) of
                   None \<Rightarrow> err = Some WriteFailed
                 | Some (m, sink) \<Rightarrow> n = ss_written s + m \<and> err = None \<and> dst' = sink)))"
proof -
  let ?s = "\<lparr>ss_src = src, ss_chain = ky_iv k, ss_maced = ky_iv k, ss_held = [], ss_written = 0, ss_sink = dst\<rparr>"
  let ?D = "cl_block_dec C (ky_cipher k)"
  note lens = derive_keys_lengths [OF assms(2,3)]
  obtain q where q: "len - 10 = 16 * q" using assms(5) by blast
  then have "left = 16 * nat q" "1 \<le> q" using assms(4) by (simp_all add: left_def nat_mult_distrib)
  then have left: "left mod 16 = 0" "0 < left" by simp_all
  have D: "\<forall>b. length b = 16 \<longrightarrow> length (?D b) = 16"
    using assms(2) lens(2) by (simp add: crypto_ok_def)
  have loop: "case decrypt_chunks ?D left ?s of
      (None, s') \<Rightarrow> loop_end ?D left ?s = Some s'
    | (Some e, s') \<Rightarrow> loop_end ?D left ?s = None"
    using decrypt_chunks_correct [OF left D, of ?s] lens(1) by (auto split: prod.splits option.splits)
  obtain e s' where run: "decrypt_chunks ?D left ?s = (e, s')" by fastforce
  have eq: "decrypt_to C dst src len mk t =
      (case (e, s') of
               (Some e, s) \<Rightarrow> ((ss_written s, Some e), ss_sink s)
             | (None, s) \<Rightarrow>
                 if length (ss_src s) < mac_len then ((ss_written s, Some ReadMacFailed), ss_sink s)
                 else if take mac_len (cl_hmac C (ky_mac k) (ss_maced s)) \<noteq> take mac_len (ss_src s)
                   then ((ss_written s, Some MacMismatch), ss_sink s)
                 else (case unpad (ss_held s) of
                         Inl e \<Rightarrow> ((ss_written s, Some e), ss_sink s)
                       | Inr final \<Rightarrow>
                           let (w, ok, sink') = sink_write final (ss_sink s)
                           in ((ss_written s + w, if ok then None else Some WriteFailed), sink')))"
    using assms(3-5) lens(3) by (simp add: decrypt_to_def run left_def [symmetric] mac_len_def block_size_def)
  show ?thesis
  proof (cases e)
    case None
    then show ?thesis
      using loop by (auto simp: run eq mac_len_def dest: sink_write_put split: sum.split prod.split)
  next
    case (Some e')
    then show ?thesis using loop by (simp add: run eq)
  qed
qed

text \<open>The same in the terms of \<open>decrypt\<close>.\<close>

lemma decrypt_to_cases:
  assumes "crypto_ok C"
  shows "case decrypt_to C dst src len mk t of ((n, err), dst') \<Rightarrow>
      (case decrypt C (take (nat len) src) mk t of
         Inl e \<Rightarrow> err \<noteq> None \<and> (nat len \<le> length src \<longrightarrow> nat len \<le> sk_room dst \<longrightarrow> err = Some e)
       | Inr pt \<Rightarrow> if nat len \<le> length src \<and> length pt \<le> sk_room dst
           then err = None \<and> n = length pt
             \<and> dst' = dst\<lparr>sk_out := sk_out dst @ pt, sk_room := sk_room dst - length pt\<rparr>
           else err \<noteq> None)"
proof (cases "derive_keys C mk t")
  case (Inl e)
  then show ?thesis by (simp add: decrypt_to_def decrypt_def)
next
  case (Inr k)
  note lens = derive_keys_lengths [OF assms Inr]
  show ?thesis
  proof (cases "26 \<le> len \<and> (len - 10) mod 16 = 0")
    case False
    show ?thesis
    proof (cases "len < 26")
      case True
      then have "length (take (nat len) src) < 26" by simp
      with True Inr show ?thesis by (simp add: decrypt_to_def decrypt_def mac_len_def block_size_def)
    next
      case len: False
      have to: "decrypt_to C dst src len mk t = ((0, Some NotBlock), dst)"
        using len False Inr by (simp add: decrypt_to_def mac_len_def block_size_def Let_def)
      show ?thesis
      proof (cases "nat len \<le> length src")
        case True
        then have "length (take (nat len) src) = nat len" by simp
        moreover have "(nat len - 10) mod 16 \<noteq> 0"
        proof
          assume "(nat len - 10) mod 16 = 0"
          then obtain q where "nat len - 10 = 16 * q" by blast
          then have "len - 10 = 16 * int q" using len by linarith
          with False len show False by simp
        qed
        ultimately have "decrypt C (take (nat len) src) mk t = Inl NotBlock"
          using len Inr by (simp add: decrypt_def mac_len_def block_size_def Let_def)
        then show ?thesis by (simp add: to)
      qed (simp add: to split: sum.split)
    qed
  next
    case True
    define left where "left = nat (len - 10)"
    define xs where "xs = fst (cbc_decrypt (cl_block_dec C (ky_cipher k)) (ky_iv k) (take left src))"
    have len: "nat len = left + 10" "16 \<le> left" using True unfolding left_def by linarith+
    note run = decrypt_to_long [OF assms Inr, of len src dst, folded left_def]
    show ?thesis
    proof (cases "nat len \<le> length src")
      case False
      obtain n err dst' where to: "decrypt_to C dst src len mk t = ((n, err), dst')" by (metis prod.collapse)
      have "length (ss_src s) < 10"
        if "loop_end (cl_block_dec C (ky_cipher k)) left \<lparr>ss_src = src, ss_chain = ky_iv k, ss_maced = ky_iv k,
          ss_held = [], ss_written = 0, ss_sink = dst\<rparr> = Some s" for s
        using that False len(1) by (auto simp: loop_end_def Let_def split: prod.splits option.splits if_splits)
      then have "err \<noteq> None" using run True by (auto simp: to split: option.splits)
      with False show ?thesis by (auto simp: to split: sum.split)
    next
      case src: True
      have "(16 :: int) dvd len - 10" using True by (simp add: dvd_eq_mod_eq_0)
      then have left: "left mod 16 = 0" using True by (auto simp: left_def nat_mult_distrib elim!: dvdE)
      have D: "\<forall>b. length b = 16 \<longrightarrow> length (cl_block_dec C (ky_cipher k) b) = 16"
        using assms lens(2) by (simp add: crypto_ok_def)
      have "length xs = left"
        using cbc_decrypt_length [OF _ D lens(1), of "take left src"] left src len by (simp add: xs_def)
      then have xs: "length xs mod 16 = 0" "xs \<noteq> []" using left len by auto
      have enc: "take (nat len) src = take left src @ take 10 (drop left src)"
        unfolding len(1) by (simp add: take_add)
      have dec: "decrypt C (take (nat len) src) mk t
          = (if compute_mac C k (take left src) \<noteq> take 10 (drop left src) then Inl MacMismatch else unpad xs)"
        unfolding xs_def by (rule decrypt_long [OF Inr lens(3) _ enc]) (use src len left in simp_all)
      obtain chain where c: "cbc_decrypt (cl_block_dec C (ky_cipher k)) (ky_iv k) (take left src) = (xs, chain)"
        unfolding xs_def by (metis prod.collapse)
      obtain n err dst' where to: "decrypt_to C dst src len mk t = ((n, err), dst')" by (metis prod.collapse)
      have small: "length (emitted xs) \<le> nat len" using \<open>length xs = left\<close> len by (simp add: emitted_def)
      have loop: "loop_end (cl_block_dec C (ky_cipher k)) left \<lparr>ss_src = src, ss_chain = ky_iv k, ss_maced = ky_iv k,
          ss_held = [], ss_written = 0, ss_sink = dst\<rparr> = (if length (emitted xs) \<le> sk_room dst
            then Some \<lparr>ss_src = drop left src, ss_chain = chain, ss_maced = ky_iv k @ take left src,
              ss_held = keep_last xs, ss_written = length (emitted xs),
              ss_sink = dst\<lparr>sk_out := sk_out dst @ emitted xs, sk_room := sk_room dst - length (emitted xs)\<rparr>\<rparr>
            else None)"
        using src len by (simp add: loop_end_def c put_def)
      have mac: "(take 10 (cl_hmac C (ky_mac k) (ky_iv k @ take left src)) \<noteq> take 10 (drop left src))
          = (compute_mac C k (take left src) \<noteq> take 10 (drop left src))"
        by (simp add: compute_mac_def mac_len_def)
      have rest: "\<not> length (drop left src) < 10" using src len by simp
      show ?thesis
      proof (cases "length (emitted xs) \<le> sk_room dst")
        case True
        then show ?thesis
          using run \<open>26 \<le> len \<and> (len - 10) mod 16 = 0\<close> src rest unfolding to loop dec unpad_keep_last [OF xs]
          by (cases "unpad (keep_last xs)") (auto simp: mac put_def split: if_splits)
      next
        case False
        then have "err \<noteq> None" using run \<open>26 \<le> len \<and> (len - 10) mod 16 = 0\<close> unfolding to loop by simp
        with False small show ?thesis unfolding to dec unpad_keep_last [OF xs] by (auto split: sum.split)
      qed
    qed
  qed
qed

lemma decrypt_shorter:
  assumes "crypto_ok C" "decrypt C enc mk t = Inr pt"
  shows "length pt \<le> length enc"
proof -
  obtain k where k: "derive_keys C mk t = Inr k" using assms(2) by (cases "derive_keys C mk t") (auto simp: decrypt_def)
  note lens = derive_keys_lengths [OF assms(1) k]
  let ?ct = "take (length enc - mac_len) enc"
  have "length ?ct mod 16 = 0" "unpad (fst (cbc_decrypt (cl_block_dec C (ky_cipher k)) (ky_iv k) ?ct)) = Inr pt"
    using assms(2) k by (simp_all add: decrypt_def block_size_def Let_def split: if_splits)
  moreover have "\<forall>b. length b = 16 \<longrightarrow> length (cl_block_dec C (ky_cipher k) b) = 16"
    using assms(1) lens(2) by (simp add: crypto_ok_def)
  ultimately have "length pt < length ?ct"
    using cbc_decrypt_length [of ?ct _ "ky_iv k"] lens(1) unpad_length by metis
  then show ?thesis by simp
qed

section \<open>Properties\<close>

text \<open>A library that keeps the promises, for the witnesses: it reverses a block.\<close>

definition mirror_crypto :: crypto_lib where
  "mirror_crypto = \<lparr>cl_hkdf = (\<lambda>k info n. Some (replicate n 7)), cl_block_enc = (\<lambda>k. rev),
     cl_block_dec = (\<lambda>k. rev), cl_hmac = (\<lambda>k m. take 32 (m @ replicate 32 1))\<rparr>"

lemma mirror_crypto_ok: "crypto_ok mirror_crypto"
  by (auto simp: crypto_ok_def mirror_crypto_def)

definition mirror_blob :: bytes where
  "mirror_blob = replicate 13 10 @ [4, 5, 6] @ replicate 10 7"

lemma mirror_decrypt: "decrypt mirror_crypto mirror_blob (replicate 32 5) ''image'' = Inr [1, 2, 3]"
  by code_simp

lemma mirror_run:
  "decrypt_to mirror_crypto \<lparr>sk_out = [], sk_room = 3\<rparr> mirror_blob 26 (replicate 32 5) ''image''
    = ((3, None), \<lparr>sk_out = [1, 2, 3], sk_room = 0\<rparr>)"
  using decrypt_to_cases [OF mirror_crypto_ok, where dst = "\<lparr>sk_out = [], sk_room = 3\<rparr>" and src = mirror_blob
      and len = 26 and mk = "replicate 32 5" and t = "''image''"] mirror_decrypt
  by (auto simp: mirror_blob_def split: prod.splits)

text \<open>C38: Decrypt accepts exactly what Encrypt produces. For a key of the right length and a known type,
  a blob decrypts to a plaintext if and only if encrypting that plaintext gives that blob, byte for byte:
  re-encrypting locally is a proof of what the recipient fetches, and no other blob is accepted.\<close>

theorem decrypt_iff_encrypt:
  assumes "crypto_ok C"
  shows "decrypt C enc mk t = Inr pt \<longleftrightarrow> encrypt C pt mk t = Inr enc"
proof (cases "derive_keys C mk t")
  case (Inl e)
  then show ?thesis by (simp add: decrypt_def encrypt_def)
next
  case (Inr k)
  note lens = derive_keys_lengths [OF assms Inr]
  define E D where "E = cl_block_enc C (ky_cipher k)" and "D = cl_block_dec C (ky_cipher k)"
  have ED: "length (E b) = 16 \<and> D (E b) = b" "length (D b) = 16 \<and> E (D b) = b" if "length b = 16" for b
    using assms lens(2) that by (simp_all add: crypto_ok_def E_def D_def)
  show ?thesis
  proof
    assume dec: "decrypt C enc mk t = Inr pt"
    define ct where "ct = take (length enc - 10) enc"
    from dec Inr lens(3) have long: "26 \<le> length enc" "length ct mod 16 = 0"
        "enc = ct @ compute_mac C k ct" "unpad (fst (cbc_decrypt D (ky_iv k) ct)) = Inr pt"
      by (auto simp: decrypt_def ct_def D_def mac_len_def block_size_def verify_mac_def Let_def split: if_splits)
    have "fst (cbc_encrypt E (ky_iv k) (pad pt)) = ct"
      unfolding pad_unpad [OF long(4)] using long(2) ED(2) lens(1) by (rule cbc_encrypt_decrypt)
    then show "encrypt C pt mk t = Inr enc"
      using Inr lens(3) long(3) by (simp add: encrypt_def E_def)
  next
    assume enc: "encrypt C pt mk t = Inr enc"
    define ct where "ct = fst (cbc_encrypt E (ky_iv k) (pad pt))"
    from enc Inr lens(3) have e: "enc = ct @ compute_mac C k ct"
      by (simp add: encrypt_def ct_def E_def Let_def)
    have len: "length ct = length (pad pt)"
      using cbc_encrypt_length [of "pad pt" E "ky_iv k"] pad_length(1) ED lens(1) by (simp add: ct_def)
    then have "16 \<le> length ct" "length ct mod 16 = 0"
      using pad_length [of pt] by (cases "length (pad pt) < 16"; simp)+
    moreover have "fst (cbc_decrypt D (ky_iv k) ct) = pad pt"
      unfolding ct_def using pad_length(1) ED(1) lens(1) by (rule cbc_decrypt_encrypt)
    ultimately show "decrypt C enc mk t = Inr pt"
      using decrypt_long [OF Inr lens(3) _ e] compute_mac_length [OF assms, of k ct] e
      by (simp add: D_def mac_len_def)
  qed
qed

theorem decrypt_iff_encrypt_witness:
  "\<exists>enc. encrypt mirror_crypto [1, 2, 3] (replicate 32 5) ''image'' = Inr enc
     \<and> decrypt mirror_crypto enc (replicate 32 5) ''image'' = Inr [1, 2, 3]"
proof -
  obtain enc where e: "encrypt mirror_crypto [1, 2, 3] (replicate 32 5) ''image'' = Inr enc"
    by (auto simp: encrypt_def derive_keys_def info_string_def key_len_def mirror_crypto_def new_cipher_def
        slice_def Let_def)
  with decrypt_iff_encrypt [OF mirror_crypto_ok, of enc "replicate 32 5" "''image''" "[1, 2, 3]"]
  show ?thesis by auto
qed

text \<open>When DecryptTo reports success, whatever the reader held and wherever the writer ran full, the
  announced bytes of the source are an authentic blob and exactly its plaintext was written. A short
  source, a full writer, a wrong MAC and bad padding all end in an error.\<close>

theorem streaming_only_authentic:
  assumes "crypto_ok C" and "decrypt_to C dst src len mk t = ((n, None), dst')"
  shows "\<exists>pt. decrypt C (take (nat len) src) mk t = Inr pt \<and> n = length pt
     \<and> sk_out dst' = sk_out dst @ pt \<and> nat len \<le> length src"
  using decrypt_to_cases [OF assms(1), where dst = dst and src = src and len = len and mk = mk and t = t] assms(2)
  by (auto split: sum.splits if_splits)

theorem streaming_only_authentic_witness:
  "\<exists>pt. decrypt mirror_crypto (take 26 mirror_blob) (replicate 32 5) ''image'' = Inr pt \<and> 3 = length pt
     \<and> [1, 2, 3] = [] @ pt \<and> 26 \<le> length mirror_blob"
  using streaming_only_authentic [OF mirror_crypto_ok mirror_run] by simp

text \<open>C39: DecryptTo refines Decrypt. Given the whole blob and a writer with room for it, it reports the
  length of Decrypt's plaintext and writes that plaintext, or reports Decrypt's error.\<close>

theorem streaming_refines_decrypt:
  assumes "crypto_ok C" and "nat len \<le> length src" and "nat len \<le> sk_room dst"
  shows "case decrypt C (take (nat len) src) mk t of
      Inl e \<Rightarrow> snd (fst (decrypt_to C dst src len mk t)) = Some e
    | Inr pt \<Rightarrow> decrypt_to C dst src len mk t
        = ((length pt, None), dst\<lparr>sk_out := sk_out dst @ pt, sk_room := sk_room dst - length pt\<rparr>)"
proof -
  have "length pt \<le> sk_room dst" if "decrypt C (take (nat len) src) mk t = Inr pt" for pt
    using decrypt_shorter [OF assms(1) that] assms(3) by simp
  then show ?thesis
    using decrypt_to_cases [OF assms(1), where dst = dst and src = src and len = len and mk = mk and t = t] assms(2,3) by (auto split: sum.splits prod.splits)
qed

theorem streaming_refines_decrypt_witness:
  "decrypt_to mirror_crypto \<lparr>sk_out = [], sk_room = 100\<rparr> mirror_blob 26 (replicate 32 5) ''image''
    = ((3, None), \<lparr>sk_out = [1, 2, 3], sk_room = 97\<rparr>)"
  using streaming_refines_decrypt [OF mirror_crypto_ok, of 26 mirror_blob "\<lparr>sk_out = [], sk_room = 100\<rparr>"
      "replicate 32 5" "''image''"] mirror_decrypt
  by (simp add: mirror_blob_def)

end
