(* ===== verification/Netguard.thy ===== *)
theory Netguard
  imports Prelude "HOL-Library.Word"
begin

text \<open>
  Where the server may connect on someone else's say (internal/netguard): which addresses are public
  (netguard.go), the registrable domain of a host by the Public Suffix List (psl.go), and which strings
  identify a client whose document may be fetched (cimd.go).

  The rules of the List are an argument, as the snapshot the program embeds is data; \<open>load_list\<close> builds
  the maps from its two sections. \<^verbatim>\<open>netip.ParseAddr\<close> is an argument of the one step that reads an IPv6
  literal. A string is its bytes; where the code looks at runes, \<open>utf8_runes\<close> decodes them.
\<close>

unbundle bit_operations_syntax

section \<open>Public addresses\<close>

text \<open>A \<^verbatim>\<open>netip.Addr\<close>: the zero one, an IPv4 address, or an IPv6 address with its zone.\<close>

datatype ip_addr = NoAddr | V4 "32 word" | V6 "128 word" string

datatype ip_net = Net4 "32 word" nat | Net6 "128 word" nat

fun unmap :: "ip_addr \<Rightarrow> ip_addr" where
  "unmap (V6 w z) = (if drop_bit 32 w = 0xFFFF then V4 (ucast w) else V6 w z)"
| "unmap a = a"

fun with_zone :: "string \<Rightarrow> ip_addr \<Rightarrow> ip_addr" where
  "with_zone z (V6 w _) = V6 w z"
| "with_zone z a = a"

fun net_contains :: "ip_net \<Rightarrow> ip_addr \<Rightarrow> bool" where
  "net_contains (Net4 n b) (V4 w) = (drop_bit (32 - b) w = drop_bit (32 - b) n)"
| "net_contains (Net6 n b) (V6 w z) = (z = [] \<and> drop_bit (128 - b) w = drop_bit (128 - b) n)"
| "net_contains _ _ = False"

definition net4 :: "nat list \<Rightarrow> nat \<Rightarrow> ip_net" where
  "net4 octets b = Net4 (of_nat (foldl (\<lambda>n x. n * 256 + x) 0 octets)) b"

definition net6 :: "nat list \<Rightarrow> nat \<Rightarrow> ip_net" where
  "net6 groups b = Net6 (of_nat (foldl (\<lambda>n x. n * 65536 + x) 0 (groups @ replicate (8 - length groups) 0))) b"

definition refused_nets :: "ip_net list" where
  "refused_nets =
     [net4 [0, 0, 0, 0] 8, net4 [10, 0, 0, 0] 8, net4 [100, 64, 0, 0] 10, net4 [127, 0, 0, 0] 8,
      net4 [169, 254, 0, 0] 16, net4 [172, 16, 0, 0] 12, net4 [192, 0, 0, 0] 24, net4 [192, 0, 2, 0] 24,
      net4 [192, 88, 99, 0] 24, net4 [192, 168, 0, 0] 16, net4 [198, 18, 0, 0] 15, net4 [198, 51, 100, 0] 24,
      net4 [203, 0, 113, 0] 24, net4 [224, 0, 0, 0] 4, net4 [240, 0, 0, 0] 4, net4 [255, 255, 255, 255] 32,
      net6 [] 128, net6 [0, 0, 0, 0, 0, 0, 0, 1] 128, net6 [0x64, 0xFF9B] 96, net6 [0x64, 0xFF9B, 1] 48,
      net6 [0x100] 64, net6 [0x2001] 23, net6 [0x2001, 0xDB8] 32, net6 [0x2002] 16, net6 [0xFC00] 7,
      net6 [0xFE80] 10, net6 [0xFEC0] 10, net6 [0xFF00] 8]"

definition is_public :: "ip_addr \<Rightarrow> bool" where
  "is_public a = (if a = NoAddr then False
     else let a' = with_zone [] (unmap a) in \<not> list_ex (\<lambda>n. net_contains n a') refused_nets)"

section \<open>The Public Suffix List\<close>

datatype psl_section = SectionICANN | SectionPrivate

record suffix_list =
  sl_rules :: "string \<rightharpoonup> psl_section"
  sl_wildcards :: "string \<rightharpoonup> psl_section"
  sl_exceptions :: "string \<rightharpoonup> psl_section"

definition add_rule :: "psl_section \<Rightarrow> string \<Rightarrow> suffix_list \<Rightarrow> suffix_list" where
  "add_rule s rule l =
     (if prefix ''*.'' rule then l\<lparr>sl_wildcards := (sl_wildcards l)(drop 2 rule \<mapsto> s)\<rparr>
      else if prefix ''!'' rule then l\<lparr>sl_exceptions := (sl_exceptions l)(drop 1 rule \<mapsto> s)\<rparr>
      else l\<lparr>sl_rules := (sl_rules l)(rule \<mapsto> s)\<rparr>)"

definition load_list :: "string \<Rightarrow> string list \<Rightarrow> string list \<Rightarrow> suffix_list option" where
  "load_list format icann private_rules =
     (if format \<noteq> ''wappie-psl/v1'' \<or> icann = [] \<or> private_rules = [] then None
      else Some (fold (add_rule SectionPrivate) private_rules (fold (add_rule SectionICANN) icann
        \<lparr>sl_rules = Map.empty, sl_wildcards = Map.empty, sl_exceptions = Map.empty\<rparr>)))"

definition dot :: char where "dot = CHR ''.''"

text \<open>The name that the last \<open>k\<close> labels make.\<close>

definition tail_name :: "string list \<Rightarrow> nat \<Rightarrow> string" where
  "tail_name labels k = join_with dot (drop (length labels - k) labels)"

fun find_exception :: "suffix_list \<Rightarrow> string list \<Rightarrow> nat \<Rightarrow> (nat \<times> psl_section) option" where
  "find_exception l labels 0 = None"
| "find_exception l labels (Suc k) = (case sl_exceptions l (tail_name labels (Suc k)) of
      Some s \<Rightarrow> Some (k, s)
    | None \<Rightarrow> find_exception l labels k)"

definition match_step ::
  "suffix_list \<Rightarrow> string list \<Rightarrow> nat \<Rightarrow> nat \<times> psl_section option \<Rightarrow> nat \<times> psl_section option" where
  "match_step l labels k b0 =
     (let b1 = (case sl_rules l (tail_name labels k) of
                  Some s \<Rightarrow> if fst b0 \<le> k then (k, Some s) else b0
                | None \<Rightarrow> b0)
      in if 2 \<le> k
         then (case sl_wildcards l (tail_name labels (k - 1)) of
                 Some s \<Rightarrow> if fst b1 \<le> k then (k, Some s) else b1
               | None \<Rightarrow> b1)
         else b1)"

definition public_suffix :: "suffix_list \<Rightarrow> string list \<Rightarrow> nat \<times> psl_section option" where
  "public_suffix l labels =
     (case find_exception l labels (length labels) of
        Some (k, s) \<Rightarrow> (k, Some s)
      | None \<Rightarrow> fold (match_step l labels) [1 ..< Suc (length labels)] (1, None))"

definition registrable :: "suffix_list \<Rightarrow> string \<Rightarrow> (string \<times> string) option" where
  "registrable l host =
     (let labels = split_on dot host; (k, s) = public_suffix l labels
      in if length labels \<le> k then None
         else Some (tail_name labels (k + 1), if s = Some SectionPrivate then tail_name labels k else []))"

section \<open>Hosts\<close>

datatype refusal = Shape | PathRoot | HostChars | HostLabels | IPLiteral | SpecialUse | OwnDomain
  | PublicSuffix | SharedHost | PathChars

definition shared_hosts :: "string list" where
  "shared_hosts = [''amazonaws.com'', ''storage.googleapis.com'', ''firebasestorage.googleapis.com'',
     ''googleusercontent.com'', ''githubusercontent.com'', ''webhook.site'', ''cdn.jsdelivr.net'', ''unpkg.com'',
     ''raw.githack.com'', ''pipedream.net'', ''requestbin.com'', ''beeceptor.com'']"

definition own_domains :: "string list" where
  "own_domains = [''thehappie.co'']"

definition special_use :: "string list" where
  "special_use = [''localhost'', ''localdomain'', ''local'', ''internal'', ''intranet'', ''private'', ''corp'',
     ''home'', ''lan'', ''arpa'', ''test'', ''example'', ''invalid'', ''onion'', ''alt'']"

record host_info =
  hi_host :: string
  hi_registrable :: string
  hi_shared_suffix :: string

definition in_range :: "char \<Rightarrow> char \<Rightarrow> char \<Rightarrow> bool" where
  "in_range a b c \<longleftrightarrow> a \<le> c \<and> c \<le> b"

definition host_byte :: "char \<Rightarrow> bool" where
  "host_byte c \<longleftrightarrow> in_range CHR ''a'' CHR ''z'' c \<or> in_range CHR ''0'' CHR ''9'' c
     \<or> c = CHR ''.'' \<or> c = CHR ''-''"

definition under_any :: "string \<Rightarrow> string list \<Rightarrow> bool" where
  "under_any host names \<longleftrightarrow> list_ex (\<lambda>name. host = name \<or> suffix (dot # name) host) names"

definition bad_label :: "string \<Rightarrow> bool" where
  "bad_label label \<longleftrightarrow>
     label = [] \<or> 63 < length label \<or> hd label = CHR ''-'' \<or> last label = CHR ''-''"

definition check_host :: "suffix_list \<Rightarrow> string \<Rightarrow> refusal + host_info" where
  "check_host l h =
     (if length h < 4 \<or> 253 < length h \<or> list_ex (\<lambda>c. \<not> host_byte c) h then Inl HostChars
      else let labels = split_on dot h in
      if length labels < 2 then Inl HostLabels
      else if list_ex bad_label labels then Inl HostLabels
      else if length (last labels) < 2 \<or> (\<not> prefix ''xn--'' (last labels)
                \<and> list_ex (\<lambda>c. \<not> in_range CHR ''a'' CHR ''z'' c) (last labels)) then Inl IPLiteral
      else if under_any h special_use then Inl SpecialUse
      else (case registrable l h of
              None \<Rightarrow> Inl PublicSuffix
            | Some (reg, shared) \<Rightarrow>
                if reg \<in> set own_domains then Inl OwnDomain
                else if under_any h shared_hosts then Inl SharedHost
                else Inr \<lparr>hi_host = h, hi_registrable = reg, hi_shared_suffix = shared\<rparr>))"

section \<open>Client ids\<close>

record cimd =
  cd_host :: host_info
  cd_path :: string

text \<open>The runes of a valid UTF-8 string; \<open>None\<close> when it is not valid.\<close>

definition cont_byte :: "nat \<Rightarrow> bool" where
  "cont_byte b \<longleftrightarrow> 0x80 \<le> b \<and> b \<le> 0xBF"

fun utf8_runes :: "nat list \<Rightarrow> nat list option" where
  "utf8_runes [] = Some []"
| "utf8_runes (a # s) =
     (if a < 0x80 then map_option (Cons a) (utf8_runes s)
      else if 0xC2 \<le> a \<and> a \<le> 0xDF then
        (case s of b # s' \<Rightarrow> if cont_byte b
           then map_option (Cons ((a - 0xC0) * 64 + (b - 0x80))) (utf8_runes s') else None
         | _ \<Rightarrow> None)
      else if 0xE0 \<le> a \<and> a \<le> 0xEF then
        (case s of b # c # s' \<Rightarrow> if cont_byte b \<and> cont_byte c \<and> (a = 0xE0 \<longrightarrow> 0xA0 \<le> b) \<and> (a = 0xED \<longrightarrow> b \<le> 0x9F)
           then map_option (Cons ((a - 0xE0) * 4096 + (b - 0x80) * 64 + (c - 0x80))) (utf8_runes s') else None
         | _ \<Rightarrow> None)
      else if 0xF0 \<le> a \<and> a \<le> 0xF4 then
        (case s of b # c # d # s' \<Rightarrow>
           if cont_byte b \<and> cont_byte c \<and> cont_byte d \<and> (a = 0xF0 \<longrightarrow> 0x90 \<le> b) \<and> (a = 0xF4 \<longrightarrow> b \<le> 0x8F)
           then map_option (Cons ((a - 0xF0) * 262144 + (b - 0x80) * 4096 + (c - 0x80) * 64 + (d - 0x80)))
             (utf8_runes s') else None
         | _ \<Rightarrow> None)
      else None)"

definition rune_is_space :: "nat \<Rightarrow> bool" where
  "rune_is_space r \<longleftrightarrow> r \<in> {9, 10, 11, 12, 13, 32, 0x85, 0xA0, 0x1680, 0x2028, 0x2029, 0x202F, 0x205F, 0x3000}
     \<or> (0x2000 \<le> r \<and> r \<le> 0x200A)"

definition rune_is_control :: "nat \<Rightarrow> bool" where
  "rune_is_control r \<longleftrightarrow> r < 0x20 \<or> (0x7F \<le> r \<and> r < 0xA0)"

definition shape_ok :: "string \<Rightarrow> bool" where
  "shape_ok s \<longleftrightarrow> s \<noteq> [] \<and> length s \<le> 512
     \<and> (case utf8_runes (map of_char s) of None \<Rightarrow> False
        | Some rs \<Rightarrow> \<not> list_ex (\<lambda>r. rune_is_space r \<or> rune_is_control r) rs)"

text \<open>\<^verbatim>\<open>strconv.Atoi\<close> and \<^verbatim>\<open>strconv.Itoa\<close>.\<close>

fun digits_value :: "string \<Rightarrow> int" where
  "digits_value ds = foldl (\<lambda>n d. n * 10 + (of_char d - 48)) 0 ds"

definition atoi :: "string \<Rightarrow> int option" where
  "atoi s =
     (let neg = prefix ''-'' s; ds = (if neg \<or> prefix ''+'' s then drop 1 s else s);
          v = (if neg then - digits_value ds else digits_value ds)
      in if ds = [] \<or> list_ex (\<lambda>d. \<not> is_digit d) ds \<or> v < - (2 ^ 63) \<or> 2 ^ 63 \<le> v then None else Some v)"

fun digits_of :: "nat \<Rightarrow> nat \<Rightarrow> string" where
  "digits_of base n = (let d = char_of (if n mod base < 10 then 48 + n mod base else 87 + n mod base)
     in if n < base \<or> base < 2 then [d] else digits_of base (n div base) @ [d])"

definition itoa :: "int \<Rightarrow> string" where
  "itoa i = (if i < 0 then CHR ''-'' # digits_of 10 (nat (- i)) else digits_of 10 (nat i))"

text \<open>\<^verbatim>\<open>strings.ToLower\<close> on bytes below 0x80; it is only applied to such.\<close>

definition lower_ascii :: "string \<Rightarrow> string" where
  "lower_ascii s = map (\<lambda>c. if in_range CHR ''A'' CHR ''Z'' c then char_of (of_char c + 32 :: nat) else c) s"

definition ends_in_number :: "string \<Rightarrow> bool" where
  "ends_in_number host =
     (let parts0 = split_on dot host;
          parts = (if 1 < length parts0 \<and> last parts0 = [] then butlast parts0 else parts0);
          lst = last parts; low = lower_ascii lst
      in (lst \<noteq> [] \<and> list_all is_digit lst)
         \<or> (prefix ''0x'' low \<and> list_all (\<lambda>c. is_digit c \<or> in_range CHR ''a'' CHR ''f'' c) (drop 2 low)))"

text \<open>The groups of an IPv6 address and their first longest run of two or more zeros.\<close>

definition ipv6_groups :: "128 word \<Rightarrow> nat list" where
  "ipv6_groups w = map (\<lambda>i. unat (drop_bit (112 - 16 * i) w AND 0xFFFF)) [0 ..< 8]"

function zero_run :: "nat list \<Rightarrow> nat \<Rightarrow> int \<times> int \<Rightarrow> int \<times> int" where
  "zero_run gs i best =
     (if length gs \<le> i then best
      else if gs ! i \<noteq> 0 then zero_run gs (i + 1) best
      else let n = length (takeWhile (\<lambda>g. g = 0) (drop i gs))
           in zero_run gs (i + max 1 n) (if snd best < int n then (int i, int n) else best))"
  by pat_completeness auto
termination
  by (relation "measure (\<lambda>(gs, i, best). length gs - i)") auto

function write_groups :: "nat list \<Rightarrow> int \<Rightarrow> int \<Rightarrow> nat \<Rightarrow> string" where
  "write_groups gs start len i =
     (if length gs \<le> i then []
      else if int i = start then '':'' @ '':'' @ write_groups gs start len (i + max 1 (nat len))
      else (if 0 < i \<and> int i \<noteq> start + len then '':'' else []) @ digits_of 16 (gs ! i)
             @ write_groups gs start len (i + 1))"
  by pat_completeness auto
termination
  by (relation "measure (\<lambda>(gs, start, len, i). length gs - i)") auto

definition whatwg_ipv6 :: "128 word \<Rightarrow> string" where
  "whatwg_ipv6 w = (let gs = ipv6_groups w; (start, len) = zero_run gs 0 (-1, 1) in write_groups gs start len 0)"

definition forbidden_host_chars :: string where
  "forbidden_host_chars = '' #%/:<>?@['' @ [CHR 0x5C] @ '']^|'' @ [CHR 0x7F]"

definition canonical_host :: "(string \<Rightarrow> ip_addr option) \<Rightarrow> string \<Rightarrow> bool" where
  "canonical_host parse_addr host =
     (if prefix ''['' host then
        (let rest = drop 1 host; closed = suffix '']'' rest; inner = (if closed then butlast rest else rest)
         in closed \<and> (case parse_addr inner of Some (V6 w z) \<Rightarrow> z = [] \<and> whatwg_ipv6 w = inner | _ \<Rightarrow> False))
      else if list_ex (\<lambda>c. 0x80 \<le> (of_char c :: nat) \<or> in_range CHR ''A'' CHR ''Z'' c
                 \<or> c \<in> set forbidden_host_chars \<or> of_char c < (0x20 :: nat)) host then False
      else if \<not> ends_in_number host then True
      else let parts = split_on dot host in
           length parts = 4 \<and> list_all (\<lambda>p. case atoi p of None \<Rightarrow> False
             | Some n \<Rightarrow> 0 \<le> n \<and> n \<le> 255 \<and> itoa n = p) parts)"

definition path_encode_set :: string where
  "path_encode_set = [CHR 0x22] @ ''<>^`{} ''"

definition slash :: char where "slash = CHR ''/''"

definition canonical_path :: "string \<Rightarrow> bool" where
  "canonical_path path \<longleftrightarrow>
     \<not> list_ex (\<lambda>c. of_char c < (0x20 :: nat) \<or> 0x7F \<le> (of_char c :: nat) \<or> c \<in> set path_encode_set) path
     \<and> \<not> list_ex (\<lambda>seg. lower_ascii seg \<in> {''.'', ''%2e'', ''..'', ''.%2e'', ''%2e.'', ''%2e%2e''})
          (split_on slash (drop 1 path))"

definition canonical_https :: "(string \<Rightarrow> ip_addr option) \<Rightarrow> string \<Rightarrow> (string \<times> string) option" where
  "canonical_https parse_addr s =
     (if \<not> prefix ''https://'' s \<or> list_ex (\<lambda>c. c \<in> {CHR ''?'', CHR ''#'', CHR 0x5C}) s then None
      else let rest = drop 8 s; host = takeWhile (\<lambda>c. c \<noteq> slash) rest; path = dropWhile (\<lambda>c. c \<noteq> slash) rest
           in if path = [] \<or> host = [] then None
              else if \<not> canonical_host parse_addr host \<or> \<not> canonical_path path then None
              else Some (host, path))"

definition path_byte :: "char \<Rightarrow> bool" where
  "path_byte c \<longleftrightarrow> in_range CHR ''a'' CHR ''z'' c \<or> in_range CHR ''A'' CHR ''Z'' c \<or> in_range CHR ''0'' CHR ''9'' c
     \<or> c \<in> set (''._~!$&'' @ [CHR 0x27] @ ''()*+,;=:@%/-'')"

fun has_sub :: "string \<Rightarrow> string \<Rightarrow> bool" where
  "has_sub p [] = (p = [])"
| "has_sub p (c # s) = (prefix p (c # s) \<or> has_sub p s)"

definition valid_path :: "string \<Rightarrow> bool" where
  "valid_path path \<longleftrightarrow> 2 \<le> length path \<and> length path \<le> 1024 \<and> \<not> has_sub ''//'' path
     \<and> list_all path_byte path
     \<and> \<not> list_ex (\<lambda>seg. seg = ''.'' \<or> seg = ''..'') (split_on slash (drop 1 path))
     \<and> \<not> has_sub ''%2e'' (lower_ascii path) \<and> \<not> has_sub ''%2f'' (lower_ascii path)
     \<and> \<not> has_sub ''%5c'' (lower_ascii path)"

definition parse_cimd_id :: "(string \<Rightarrow> ip_addr option) \<Rightarrow> suffix_list \<Rightarrow> string \<Rightarrow> refusal + cimd" where
  "parse_cimd_id parse_addr l s =
     (if \<not> shape_ok s then Inl Shape
      else (case canonical_https parse_addr s of
              None \<Rightarrow> Inl Shape
            | Some (host, path) \<Rightarrow>
                if path = [slash] then Inl PathRoot
                else (case check_host l host of
                        Inl r \<Rightarrow> Inl r
                      | Inr h \<Rightarrow> if \<not> valid_path path then Inl PathChars
                                 else Inr \<lparr>cd_host = h, cd_path = path\<rparr>)))"

end
