(* ===== verification/Netguard_Facts.thy ===== *)
theory Netguard_Facts
  imports Netguard
begin

text \<open>
  The refused networks as intervals of numbers, the Public Suffix List's algorithm against its
  declarative reading, and what an accepted client id guarantees.
\<close>

section \<open>Networks as intervals\<close>

type_synonym ranges = "(nat \<times> nat) list"

text \<open>The ranges of addresses that are not public, each from its first address up to, not including, the
  second number.\<close>

definition private4 :: ranges where
  "private4 = [(0x0, 0x1000000), (0xA000000, 0xB000000), (0x64400000, 0x64800000), (0x7F000000, 0x80000000),
     (0xA9FE0000, 0xA9FF0000), (0xAC100000, 0xAC200000), (0xC0000000, 0xC0000100),
     (0xC0000200, 0xC0000300), (0xC0586300, 0xC0586400), (0xC0A80000, 0xC0A90000),
     (0xC6120000, 0xC6140000), (0xC6336400, 0xC6336500), (0xCB007100, 0xCB007200),
     (0xE0000000, 0xF0000000), (0xF0000000, 0x100000000)]"

definition private6 :: ranges where
  "private6 = [(0x0, 0x2), (0x64FF9B000000000000000000000000, 0x64FF9B000000000000000100000000),
     (0x64FF9B000100000000000000000000, 0x64FF9B000200000000000000000000),
     (0x1000000000000000000000000000000, 0x1000000000000010000000000000000),
     (0x20010000000000000000000000000000, 0x20010200000000000000000000000000),
     (0x20010DB8000000000000000000000000, 0x20010DB9000000000000000000000000),
     (0x20020000000000000000000000000000, 0x20030000000000000000000000000000),
     (0xFC000000000000000000000000000000, 0xFE000000000000000000000000000000),
     (0xFE800000000000000000000000000000, 0xFEC00000000000000000000000000000),
     (0xFEC00000000000000000000000000000, 0xFF000000000000000000000000000000),
     (0xFF000000000000000000000000000000, 0x100000000000000000000000000000000)]"

definition in_ranges :: "nat \<Rightarrow> ranges \<Rightarrow> bool" where
  "in_ranges n rs = list_ex (\<lambda>(lo, hi). lo \<le> n \<and> n < hi) rs"

lemma div_eq_interval: "0 < k \<Longrightarrow> a div k = c \<longleftrightarrow> c * k \<le> a \<and> a < c * k + k" for a :: nat
  using div_nat_eqI [of k c a] div_times_less_eq_dividend [of a k] dividend_less_div_times [of k a]
  by (auto simp: algebra_simps)

lemma drop_bit_interval:
  "drop_bit k w = c \<longleftrightarrow> unat c * 2 ^ k \<le> unat w \<and> unat w < unat c * 2 ^ k + 2 ^ k" for w c :: "'a :: len word"
  unfolding word_unat_eq_iff unat_drop_bit_eq drop_bit_nat_def by (rule div_eq_interval) simp

lemma replicate_numeral: "replicate (numeral k) x = x # replicate (pred_numeral k) x"
  by (simp add: numeral_eq_Suc)

lemma refused_nets_eval:
  "refused_nets =
    [Net4 0x0 8, Net4 0xA000000 8, Net4 0x64400000 10, Net4 0x7F000000 8, Net4 0xA9FE0000 16,
     Net4 0xAC100000 12, Net4 0xC0000000 24, Net4 0xC0000200 24, Net4 0xC0586300 24,
     Net4 0xC0A80000 16, Net4 0xC6120000 15, Net4 0xC6336400 24, Net4 0xCB007100 24,
     Net4 0xE0000000 4, Net4 0xF0000000 4, Net4 0xFFFFFFFF 32, Net6 0x0 128, Net6 0x1 128,
     Net6 0x64FF9B000000000000000000000000 96, Net6 0x64FF9B000100000000000000000000 48,
     Net6 0x1000000000000000000000000000000 64, Net6 0x20010000000000000000000000000000 23,
     Net6 0x20010DB8000000000000000000000000 32, Net6 0x20020000000000000000000000000000 16,
     Net6 0xFC000000000000000000000000000000 7, Net6 0xFE800000000000000000000000000000 10,
     Net6 0xFEC00000000000000000000000000000 10, Net6 0xFF000000000000000000000000000000 8]"
  by (simp add: refused_nets_def net4_def net6_def replicate_numeral)

lemma zero_or_one: "w = 0 \<or> w = 1 \<or> P \<longleftrightarrow> unat w < 2 \<or> P" for w :: "128 word"
  by (simp add: word_unat_eq_iff) linarith

lemma broadcast:
  "0xF0000000 \<le> unat w \<and> unat w < 0x100000000 \<or> w = 0xFFFFFFFF \<longleftrightarrow> 0xF0000000 \<le> unat w \<and> unat w < 0x100000000"
  for w :: "32 word"
  by (cases "w = 0xFFFFFFFF") simp_all

lemma refused4:
  "list_ex (\<lambda>n. net_contains n (V4 w)) refused_nets \<longleftrightarrow> in_ranges (unat w) private4"
  by (simp add: refused_nets_eval private4_def in_ranges_def drop_bit_interval broadcast [simplified])

lemma refused6:
  "list_ex (\<lambda>n. net_contains n (V6 w [])) refused_nets \<longleftrightarrow> in_ranges (unat w) private6"
  by (simp add: refused_nets_eval private6_def in_ranges_def drop_bit_interval zero_or_one)

section \<open>The List's algorithm\<close>

text \<open>The rule that covers a suffix of \<open>k\<close> labels, a wildcard before a plain one, and the search for the
  longest such suffix from above.\<close>

definition rule_at :: "suffix_list \<Rightarrow> string list \<Rightarrow> nat \<Rightarrow> psl_section option" where
  "rule_at l labels k =
     (case (if 2 \<le> k then sl_wildcards l (tail_name labels (k - 1)) else None) of
        Some s \<Rightarrow> Some s
      | None \<Rightarrow> sl_rules l (tail_name labels k))"

fun longest_rule :: "suffix_list \<Rightarrow> string list \<Rightarrow> nat \<Rightarrow> nat \<times> psl_section option" where
  "longest_rule l labels 0 = (1, None)"
| "longest_rule l labels (Suc k) = (case rule_at l labels (Suc k) of
      Some s \<Rightarrow> (Suc k, Some s)
    | None \<Rightarrow> longest_rule l labels k)"

lemma longest_rule_le: "fst (longest_rule l labels k) \<le> max 1 k"
  by (induction k) (auto split: option.split)

lemma match_step_rule:
  "fst b \<le> k \<Longrightarrow> match_step l labels k b = (case rule_at l labels k of Some s \<Rightarrow> (k, Some s) | None \<Rightarrow> b)"
  by (auto simp: match_step_def rule_at_def Let_def split: option.split)

lemma fold_match_step: "fold (match_step l labels) [1 ..< Suc k] (1, None) = longest_rule l labels k"
proof (induction k)
  case (Suc k)
  have "fst (longest_rule l labels k) \<le> Suc k" using longest_rule_le [of l labels k] by linarith
  with Suc show ?case by (simp add: match_step_rule)
qed simp

lemma longest_rule_above: "longest_rule l labels n = (k, s) \<Longrightarrow> k < j \<Longrightarrow> j \<le> n \<Longrightarrow> rule_at l labels j = None"
  by (induction n) (auto simp: le_Suc_eq split: option.splits)

lemma longest_rule_None: "longest_rule l labels n = (k, None) \<Longrightarrow> k = 1 \<and> (1 \<le> n \<longrightarrow> rule_at l labels 1 = None)"
proof (induction n)
  case (Suc n)
  then show ?case by (cases n) (auto split: option.splits)
qed simp

lemma longest_rule_Some:
  "longest_rule l labels n = (k, Some s) \<Longrightarrow> 1 \<le> k \<and> k \<le> n \<and> rule_at l labels k = Some s"
  by (induction n) (auto split: option.splits)

lemma longest_rule_again:
  "longest_rule l labels n = (k, s) \<Longrightarrow> k \<le> m \<Longrightarrow> m \<le> n \<Longrightarrow> longest_rule l labels m = (k, s)"
  by (induction n) (auto simp: le_Suc_eq split: option.splits)

lemma find_exception_again:
  "find_exception l labels n = Some (k, s) \<Longrightarrow> Suc k \<le> m \<Longrightarrow> m \<le> n \<Longrightarrow> find_exception l labels m = Some (k, s)"
  "find_exception l labels n = None \<Longrightarrow> m \<le> n \<Longrightarrow> find_exception l labels m = None"
  by (induction n) (auto simp: le_Suc_eq split: option.splits)

lemma find_exception_lt: "find_exception l labels n = Some (k, s) \<Longrightarrow> k < n"
  by (induction n) (auto split: option.splits)

text \<open>The algorithm looks at the end of the host only.\<close>

lemma tail_name_drop:
  "k \<le> m \<Longrightarrow> m \<le> length labels \<Longrightarrow> tail_name (drop (length labels - m) labels) k = tail_name labels k"
  by (simp add: tail_name_def)

lemma find_exception_drop:
  "n \<le> m \<Longrightarrow> m \<le> length labels \<Longrightarrow>
     find_exception l (drop (length labels - m) labels) n = find_exception l labels n"
  by (induction n) (simp_all add: tail_name_drop split: option.split)

lemma longest_rule_drop:
  "n \<le> m \<Longrightarrow> m \<le> length labels \<Longrightarrow>
     longest_rule l (drop (length labels - m) labels) n = longest_rule l labels n"
  by (induction n) (simp_all add: tail_name_drop rule_at_def split: option.split)

lemma public_suffix_eq:
  "public_suffix l labels = (case find_exception l labels (length labels) of
      Some (k, s) \<Rightarrow> (k, Some s) | None \<Rightarrow> longest_rule l labels (length labels))"
  unfolding public_suffix_def fold_match_step ..

lemma public_suffix_drop:
  assumes "public_suffix l labels = (k, s)" "k < length labels"
  shows "public_suffix l (drop (length labels - Suc k) labels) = (k, s)"
proof -
  let ?ls = "drop (length labels - Suc k) labels"
  have len: "length ?ls = Suc k" and le: "Suc k \<le> length labels" using assms(2) by simp_all
  note ends = find_exception_drop [OF order.refl le, of l] longest_rule_drop [OF order.refl le, of l]
  show ?thesis
  proof (cases "find_exception l labels (length labels)")
    case None
    then have "longest_rule l labels (length labels) = (k, s)" using assms(1) by (simp add: public_suffix_eq)
    then have "longest_rule l labels (Suc k) = (k, s)" by (rule longest_rule_again [OF _ _ le]) simp
    moreover have "find_exception l labels (Suc k) = None" by (rule find_exception_again(2) [OF None le])
    ultimately show ?thesis unfolding public_suffix_eq len ends by (simp only: option.case)
  next
    case (Some e)
    then have e: "e = (k, the s)" "s \<noteq> None" using assms(1) by (auto simp: public_suffix_eq split: prod.splits)
    then have "find_exception l labels (Suc k) = Some (k, the s)"
      using find_exception_again(1) [OF _ order.refl le] Some by simp
    then show ?thesis unfolding public_suffix_eq len ends using e(2) by (simp only: option.case prod.case) auto
  qed
qed

section \<open>Registrable domains\<close>

lemma join_with_append:
  "ys \<noteq> [] \<Longrightarrow> xs \<noteq> [] \<Longrightarrow> join_with d (xs @ ys) = join_with d xs @ d # join_with d ys"
  by (induction d xs rule: join_with.induct) (auto simp: neq_Nil_conv)

lemma tail_name_suffix:
  assumes "0 < k" "k \<le> length (split_on dot host)"
  shows "tail_name (split_on dot host) k = host \<or> suffix (dot # tail_name (split_on dot host) k) host"
proof (cases "k = length (split_on dot host)")
  case True
  then show ?thesis by (simp add: tail_name_def)
next
  case False
  let ?ls = "split_on dot host" and ?n = "length (split_on dot host) - k"
  have "join_with dot (take ?n ?ls @ drop ?n ?ls) = join_with dot (take ?n ?ls) @ dot # join_with dot (drop ?n ?ls)"
    using False assms by (intro join_with_append) simp_all
  then have "host = join_with dot (take ?n ?ls) @ dot # tail_name ?ls k" by (simp add: tail_name_def)
  then show ?thesis by (metis suffix_def)
qed

lemma split_tail_name:
  assumes "0 < k" "k \<le> length (split_on dot host)"
  shows "split_on dot (tail_name (split_on dot host) k) = drop (length (split_on dot host) - k) (split_on dot host)"
  unfolding tail_name_def using assms split_on_pieces [of _ dot host]
  by (intro split_join) (auto dest: in_set_dropD)

lemma registrable_Some:
  assumes "registrable l host = Some (reg, shared)"
  obtains k s where "public_suffix l (split_on dot host) = (k, s)" "k < length (split_on dot host)"
    "reg = tail_name (split_on dot host) (Suc k)"
    "shared = (if s = Some SectionPrivate then tail_name (split_on dot host) k else [])"
  using assms by (auto simp: registrable_def Let_def split: prod.splits if_splits)

lemma registrable_again:
  assumes "registrable l host = Some (reg, shared)"
  shows "registrable l reg = Some (reg, shared)"
proof -
  let ?ls = "split_on dot host"
  from assms obtain k s where ks: "public_suffix l ?ls = (k, s)" "k < length ?ls" "reg = tail_name ?ls (Suc k)"
      "shared = (if s = Some SectionPrivate then tail_name ?ls k else [])"
    by (rule registrable_Some)
  let ?ms = "drop (length ?ls - Suc k) ?ls"
  have "split_on dot reg = ?ms" unfolding ks(3) using ks(2) by (intro split_tail_name) simp_all
  moreover have "public_suffix l ?ms = (k, s)" by (rule public_suffix_drop [OF ks(1,2)])
  moreover have "length ?ms = Suc k" using ks(2) by simp
  moreover have "tail_name ?ms (Suc k) = reg" "tail_name ?ms k = tail_name ?ls k"
    using ks(2,3) tail_name_drop [of "Suc k" "Suc k" ?ls] tail_name_drop [of k "Suc k" ?ls] by simp_all
  ultimately show ?thesis by (simp add: registrable_def ks(4))
qed

section \<open>Hosts and client ids\<close>

lemma check_host_Inr:
  assumes "check_host l h = Inr i"
  shows "hi_host i = h" "4 \<le> length h" "list_all host_byte h" "list_all (\<lambda>s. \<not> bad_label s) (split_on dot h)"
    "2 \<le> length (last (split_on dot h))"
    "prefix ''xn--'' (last (split_on dot h)) \<or> list_all (in_range CHR ''a'' CHR ''z'') (last (split_on dot h))"
    "\<not> under_any h special_use" "\<not> under_any h shared_hosts" "hi_registrable i \<notin> set own_domains"
    "registrable l h = Some (hi_registrable i, hi_shared_suffix i)"
  using assms
  by (auto simp: check_host_def Let_def list_ex_iff list_all_iff not_less split: if_splits option.splits)

lemma accepted_not_number:
  assumes "check_host l h = Inr i"
  shows "\<not> ends_in_number h"
proof -
  let ?last = "last (split_on dot h)"
  note h = check_host_Inr [OF assms]
  obtain a b rest where last: "?last = a # b # rest"
    using h(5) by (metis Suc_le_length_iff numeral_2_eq_2)
  then have ne: "?last \<noteq> []" by simp
  have a: "in_range CHR ''a'' CHR ''z'' a"
    using h(6) last by (auto simp: in_range_def)
  then have "\<not> is_digit a" and low: "hd (lower_ascii ?last) = a"
    using order.trans [of "CHR ''a''" a "CHR ''9''"] order.trans [of "CHR ''a''" a "CHR ''Z''"]
    by (auto simp: in_range_def is_digit_def lower_ascii_def last)
  then have "\<not> list_all is_digit ?last" "\<not> prefix ''0x'' (lower_ascii ?last)"
    using a by (auto simp: last lower_ascii_def in_range_def)
  with ne show ?thesis by (simp add: ends_in_number_def Let_def)
qed

text \<open>The dot segments of a path resolved as a URL parser does it, in every spelling it knows.\<close>

definition single_dot :: "string \<Rightarrow> bool" where
  "single_dot seg \<longleftrightarrow> lower_ascii seg \<in> {''.'', ''%2e''}"

definition double_dot :: "string \<Rightarrow> bool" where
  "double_dot seg \<longleftrightarrow> lower_ascii seg \<in> {''..'', ''.%2e'', ''%2e.'', ''%2e%2e''}"

fun resolve_dots :: "string list \<Rightarrow> string list \<Rightarrow> string list" where
  "resolve_dots acc [] = rev acc"
| "resolve_dots acc (seg # segs) =
     (if double_dot seg then resolve_dots (if segs = [] then [] # drop 1 acc else drop 1 acc) segs
      else if single_dot seg then resolve_dots (if segs = [] then [] # acc else acc) segs
      else resolve_dots (seg # acc) segs)"

lemma resolve_dots_id:
  "list_all (\<lambda>s. \<not> single_dot s \<and> \<not> double_dot s) segs \<Longrightarrow> resolve_dots acc segs = rev acc @ segs"
  by (induction segs arbitrary: acc) simp_all

lemma canonical_path_resolved: "canonical_path path \<Longrightarrow> resolve_dots [] (split_on slash (drop 1 path)) = split_on slash (drop 1 path)"
  by (auto simp: canonical_path_def list_ex_iff list_all_iff single_dot_def double_dot_def intro!: resolve_dots_id [of _ "[]", simplified])

lemma parse_Inr:
  assumes "parse_cimd_id P l s = Inr c"
  shows "s = ''https://'' @ hi_host (cd_host c) @ cd_path c" "length s \<le> 512" "check_host l (hi_host (cd_host c)) = Inr (cd_host c)"
    "valid_path (cd_path c)" "canonical_path (cd_path c)" "cd_path c \<noteq> [slash]" "prefix [slash] (cd_path c)"
proof -
  obtain host path where c: "canonical_https P s = Some (host, path)" "check_host l host = Inr (cd_host c)"
      "cd_path c = path" "valid_path path" "path \<noteq> [slash]" "shape_ok s"
    using assms by (auto simp: parse_cimd_id_def split: if_splits option.splits sum.splits)
  have host: "hi_host (cd_host c) = host" by (rule check_host_Inr(1) [OF c(2)])
  have "prefix ''https://'' s" and split: "host = takeWhile (\<lambda>c. c \<noteq> slash) (drop 8 s)"
      "path = dropWhile (\<lambda>c. c \<noteq> slash) (drop 8 s)" "path \<noteq> []" "canonical_path path"
    using c(1) by (auto simp: canonical_https_def Let_def split: if_splits)
  then have "s = ''https://'' @ host @ path" by (auto simp: prefix_def)
  then show "s = ''https://'' @ hi_host (cd_host c) @ cd_path c" by (simp add: host c(3))
  show "length s \<le> 512" using c(6) by (simp add: shape_ok_def)
  have "hd path = slash" using split(2,3) hd_dropWhile [of "\<lambda>c. c \<noteq> slash" "drop 8 s"] by auto
  then show "prefix [slash] (cd_path c)" using split(3) by (cases path) (simp_all add: c(3))
  show "check_host l (hi_host (cd_host c)) = Inr (cd_host c)" "valid_path (cd_path c)"
      "canonical_path (cd_path c)" "cd_path c \<noteq> [slash]"
    using c split by (simp_all add: host)
qed

section \<open>Properties\<close>

text \<open>The refused prefixes are exactly these ranges of addresses, for both families; an IPv4-mapped
  IPv6 address is judged as the IPv4 address in its low bits, and a zone makes no difference.\<close>

theorem public_by_ranges:
  "is_public a = (case a of
      NoAddr \<Rightarrow> False
    | V4 w \<Rightarrow> \<not> in_ranges (unat w) private4
    | V6 w z \<Rightarrow> if drop_bit 32 w = 0xFFFF then \<not> in_ranges (unat w mod 2 ^ 32) private4
        else \<not> in_ranges (unat w) private6)"
proof (cases a)
  case (V6 w z)
  have "unat (ucast w :: 32 word) = unat w mod 2 ^ 32" by (simp add: unsigned_ucast_eq take_bit_eq_mod)
  with V6 show ?thesis
    using refused4 [of "ucast w"] refused6 [of w] by (simp add: is_public_def)
qed (simp_all add: is_public_def refused4)

text \<open>A small list with a rule of every kind, for the witnesses.\<close>

definition demo_list :: suffix_list where
  "demo_list = the (load_list ''wappie-psl/v1'' [''com'', ''uk'', ''co.uk'', ''*.ck'', ''!www.ck''] [''github.io''])"

lemma demo_parse:
  "parse_cimd_id (\<lambda>_. None) demo_list ''https://a.bc.com/x'' = Inr \<lparr>cd_host = \<lparr>hi_host = ''a.bc.com'',
     hi_registrable = ''bc.com'', hi_shared_suffix = []\<rparr>, cd_path = ''/x''\<rparr>"
proof -
  have "shape_ok ''https://a.bc.com/x''"
    by (simp add: shape_ok_def rune_is_space_def rune_is_control_def)
  moreover have "canonical_https (\<lambda>_. None) ''https://a.bc.com/x'' = Some (''a.bc.com'', ''/x'')"
      "check_host demo_list ''a.bc.com'' = Inr \<lparr>hi_host = ''a.bc.com'', hi_registrable = ''bc.com'', hi_shared_suffix = []\<rparr>"
      "valid_path ''/x''"
    by code_simp+
  ultimately show ?thesis by (simp add: parse_cimd_id_def slash_def)
qed

text \<open>C40: When no exception covers an end of the host, the public suffix is the longest end of the host
  that a rule covers, with that rule's section, and the last label alone when no rule covers any: the
  one forward pass over the ends finds what the List's definition asks for.\<close>

theorem public_suffix_longest_match:
  assumes "find_exception l labels (length labels) = None" and "public_suffix l labels = (k, s)"
  shows "(\<forall>j. k < j \<and> j \<le> length labels \<longrightarrow> rule_at l labels j = None)
    \<and> (case s of Some sec \<Rightarrow> 1 \<le> k \<and> k \<le> length labels \<and> rule_at l labels k = Some sec
        | None \<Rightarrow> k = 1 \<and> (labels \<noteq> [] \<longrightarrow> rule_at l labels 1 = None))"
proof -
  have "longest_rule l labels (length labels) = (k, s)" using assms by (simp add: public_suffix_eq)
  then show ?thesis
    using longest_rule_above [of l labels "length labels" k s] longest_rule_None [of l labels "length labels" k]
      longest_rule_Some [of l labels "length labels" k]
    by (cases s) (auto simp: Suc_le_eq)
qed

theorem public_suffix_longest_match_witness:
  "public_suffix demo_list [''a'', ''b'', ''co'', ''uk''] = (2, Some SectionICANN)
    \<and> rule_at demo_list [''a'', ''b'', ''co'', ''uk''] 3 = None"
proof -
  have e: "find_exception demo_list [''a'', ''b'', ''co'', ''uk''] (length [''a'', ''b'', ''co'', ''uk'']) = None"
    and p: "public_suffix demo_list [''a'', ''b'', ''co'', ''uk''] = (2, Some SectionICANN)"
    by code_simp+
  from public_suffix_longest_match [OF e p] p show ?thesis by simp
qed

text \<open>The registrable domain is a stable identity: it is the host or an end of it after a dot, and
  asking for the registrable domain of the registrable domain gives the same one, with the same shared
  suffix, so every host of one organisation leads to one name.\<close>

theorem registrable_is_stable:
  assumes "registrable l host = Some (reg, shared)"
  shows "(host = reg \<or> suffix (dot # reg) host) \<and> registrable l reg = Some (reg, shared)"
proof -
  from assms obtain k s where ks: "k < length (split_on dot host)" "reg = tail_name (split_on dot host) (Suc k)"
    by (rule registrable_Some)
  then have "reg = host \<or> suffix (dot # reg) host" using tail_name_suffix [of "Suc k" host] by simp
  then show ?thesis using registrable_again [OF assms] by auto
qed

theorem registrable_is_stable_witness:
  "suffix (dot # ''team.github.io'') ''x.team.github.io''
    \<and> registrable demo_list ''team.github.io'' = Some (''team.github.io'', ''github.io'')"
proof -
  have "registrable demo_list ''x.team.github.io'' = Some (''team.github.io'', ''github.io'')" by code_simp
  from registrable_is_stable [OF this] show ?thesis by simp
qed

text \<open>An accepted client id is exactly \<^verbatim>\<open>https://\<close>, its host and its path, at most 512 bytes, and
  its host is a plain lower-case name of the public internet: no form of IP address, no special-use
  name, no shared host and no domain of the service's own, with a registrable domain.\<close>

theorem accepted_client_id:
  assumes "parse_cimd_id P l s = Inr c"
  shows "s = ''https://'' @ hi_host (cd_host c) @ cd_path c \<and> length s \<le> 512
    \<and> list_all host_byte (hi_host (cd_host c)) \<and> \<not> ends_in_number (hi_host (cd_host c))
    \<and> \<not> under_any (hi_host (cd_host c)) special_use \<and> \<not> under_any (hi_host (cd_host c)) shared_hosts
    \<and> registrable l (hi_host (cd_host c)) = Some (hi_registrable (cd_host c), hi_shared_suffix (cd_host c))
    \<and> hi_registrable (cd_host c) \<notin> set own_domains"
  using parse_Inr(1-3) [OF assms] check_host_Inr(3,7-10) [OF parse_Inr(3) [OF assms]]
    accepted_not_number [OF parse_Inr(3) [OF assms]]
  by simp

theorem accepted_client_id_witness:
  "registrable demo_list ''a.bc.com'' = Some (''bc.com'', []) \<and> ''bc.com'' \<notin> set own_domains"
  using accepted_client_id [OF demo_parse] by simp

text \<open>The path of an accepted client id is its own canonical form: it is not empty, resolving dot
  segments in any of their spellings leaves it as it is, and no encoded dot or slash hides in it.\<close>

theorem accepted_path_is_canonical:
  assumes "parse_cimd_id P l s = Inr c"
  shows "prefix [slash] (cd_path c) \<and> cd_path c \<noteq> [slash]
    \<and> resolve_dots [] (split_on slash (drop 1 (cd_path c))) = split_on slash (drop 1 (cd_path c))
    \<and> \<not> has_sub ''%2e'' (lower_ascii (cd_path c)) \<and> \<not> has_sub ''%2f'' (lower_ascii (cd_path c))
    \<and> \<not> has_sub ''//'' (cd_path c)"
  using parse_Inr(4-7) [OF assms] canonical_path_resolved [OF parse_Inr(5) [OF assms]]
  by (simp add: valid_path_def)

theorem accepted_path_is_canonical_witness:
  "resolve_dots [] (split_on slash ''x'') = split_on slash ''x'' \<and> \<not> has_sub ''//'' ''/x''"
  using accepted_path_is_canonical [OF demo_parse] by (simp add: slash_def)

end
