(* ===== verification/Access_Db.thy ===== *)
theory Access_Db
  imports Prelude
begin

text \<open>
  The rows workspace access is decided from, and the statements the access code runs on them
  (internal/store and the triggers of internal/migrate/sql).

  A table is the list of its rows. A SELECT reads it with \<open>find\<close>, \<open>filter\<close> or \<open>list_ex\<close>, an UPDATE maps it,
  a DELETE filters it. A transaction opened for a tenant sees the rows of that tenant only, which the
  definitions write out as a tenant argument; the quarantine scope is the Boolean argument of
  \<open>sees_device\<close>. A transaction that returns an error leaves the database as it was, so an operation
  yields an error or the new database. The rows of workspaces, people, numbers, memberships, permissions,
  grants and archive keys carry the columns the access code reads or writes.
\<close>

section \<open>Rows\<close>

record tenant_row =
  tn_id :: uuid
  tn_status :: string
  tn_personal :: "uuid option"

text \<open>A user's row, with the platform subject its identity is linked to.\<close>

record user_row =
  us_id :: uuid
  us_home :: uuid
  us_email :: string
  us_name :: string
  us_role :: string
  us_status :: string
  us_sub :: "uuid option"

record member_row =
  mb_tenant :: uuid
  mb_user :: uuid
  mb_role :: string
  mb_status :: string
  mb_expires :: "timestamp option"
  mb_version :: int

text \<open>A number's row. \<^verbatim>\<open>wa_leftover\<close> is the fingerprint of a WhatsApp session that may have survived a
  deletion. A number without a phone number or a LID has the empty string there.\<close>

record leftover_row =
  lo_jid :: string
  lo_reg :: int
  lo_attempts :: nat

record device_row =
  dv_id :: uuid
  dv_tenant :: uuid
  dv_archive :: uuid
  dv_epoch :: nat
  dv_deleted :: "timestamp option"
  dv_purge :: "timestamp option"
  dv_label :: string
  dv_push :: string
  dv_pn :: string
  dv_lid :: string
  dv_status :: string
  dv_reason :: string
  dv_paused :: bool
  dv_cause :: "string option"
  dv_pauses :: int
  dv_connected :: "timestamp option"
  dv_deleted_by :: "uuid option"
  dv_purge_started :: "timestamp option"
  dv_leftover :: "leftover_row option"

record perm_row =
  pm_tenant :: uuid
  pm_device :: uuid
  pm_user :: uuid
  pm_read :: bool
  pm_send :: bool
  pm_manage :: bool

record grant_row =
  gr_tenant :: uuid
  gr_device :: uuid
  gr_user :: uuid
  gr_epoch :: nat
  gr_sealed :: string

record archive_row =
  ak_tenant :: uuid
  ak_device :: uuid
  ak_epoch :: nat
  ak_retired :: "timestamp option"

record key_row =
  ky_id :: uuid
  ky_tenant :: uuid
  ky_prefix :: string
  ky_hash :: string
  ky_creator :: "uuid option"
  ky_scope :: string
  ky_acts :: "uuid option"
  ky_restricted :: bool
  ky_expires :: "timestamp option"
  ky_revoked :: "timestamp option"
  ky_version :: int

record session_row =
  ss_id :: uuid
  ss_tenant :: "uuid option"
  ss_user :: uuid
  ss_token :: string
  ss_expires :: timestamp
  ss_revoked :: "timestamp option"

record invite_row =
  iv_tenant :: uuid
  iv_creator :: "uuid option"
  iv_email :: "string option"
  iv_expires :: timestamp
  iv_completed :: "timestamp option"
  iv_revoked :: "timestamp option"

record connection_row =
  cn_id :: uuid
  cn_tenant :: uuid
  cn_key :: uuid
  cn_kind :: string
  cn_status :: string
  cn_service :: "uuid option"
  cn_creator :: uuid
  cn_revoked :: "timestamp option"
  cn_reason :: string
  cn_client :: string
  cn_reader :: string
  cn_expires :: timestamp
  cn_mode :: string
  cn_self :: bool
  cn_groups :: bool
  cn_paused :: "timestamp option"

text \<open>The ledger of drafts and sends (mcp_outbound), and what it reads of the archive. A nullable text column
  that the code only reads through \<^verbatim>\<open>coalesce(\<dots>, '')\<close> is a string.\<close>

record outbound_row =
  ob_id :: uuid
  ob_tenant :: uuid
  ob_connection :: uuid
  ob_device :: uuid
  ob_chat :: string
  ob_reply :: "uuid option"
  ob_kind :: string
  ob_status :: string
  ob_code :: string
  ob_sealed :: "string option"
  ob_epoch :: "int option"
  ob_ref :: "string option"
  ob_edited :: bool
  ob_decider :: "uuid option"
  ob_message :: "uuid option"
  ob_wa :: string
  ob_created :: timestamp
  ob_expires :: "timestamp option"
  ob_decided :: "timestamp option"

record chat_row =
  ct_tenant :: uuid
  ct_device :: uuid
  ct_key :: string
  ct_group :: bool
  ct_pn :: "string option"

record archived_row =
  me_tenant :: uuid
  me_uid :: uuid
  me_device :: uuid
  me_chat :: string
  me_kind :: string
  me_from_me :: bool

record history_row =
  hs_tenant :: uuid
  hs_user :: uuid
  hs_email :: string
  hs_removed :: timestamp

text \<open>An event about a number (\<^verbatim>\<open>item_events\<close>); its dedupe key is the tuple of its parts: the type, the number,
  the person a stranding is about, and the instant.\<close>

record event_row =
  ev_id :: uuid
  ev_tenant :: uuid
  ev_type :: string
  ev_item :: uuid
  ev_dedupe :: "string \<times> uuid \<times> uuid option \<times> timestamp"
  ev_occurred :: timestamp
  ev_actor_kind :: string
  ev_actor_sub :: "uuid option"
  ev_actor_user :: "uuid option"
  ev_reader_subs :: "uuid list"
  ev_reader_users :: "uuid list"
  ev_label :: "string option"
  ev_hint :: "string option"
  ev_person :: "uuid option"
  ev_cause :: "string option"
  ev_deleted :: "timestamp option"
  ev_purge :: "timestamp option"
  ev_to :: "uuid option"
  ev_ledgered :: "timestamp option"
  ev_replayed :: "timestamp option"

record notice_row =
  nt_id :: nat
  nt_tenant :: uuid
  nt_device :: uuid
  nt_user :: uuid
  nt_kind :: string
  nt_label :: "string option"
  nt_hint :: "string option"
  nt_raised_at :: timestamp
  nt_last :: "timestamp option"
  nt_pauses :: int
  nt_raised_by :: "uuid option"
  nt_raised_kind :: string
  nt_several :: bool
  nt_until :: "timestamp option"
  nt_resumed :: "timestamp option"
  nt_purged :: "timestamp option"
  nt_seen :: "timestamp option"

text \<open>A workspace the platform names (contract_workspaces).\<close>

record named_row =
  nw_workspace :: uuid
  nw_kind :: string
  nw_status :: "string option"

text \<open>An attachment of a message, with the object keys it names, and a row of the other archive tables a
  number's purge empties; an AI result belongs to a message.\<close>

record media_row =
  md_tenant :: uuid
  md_message :: uuid
  md_object :: "string option"
  md_content :: "string option"
  md_status :: string
  md_claimed :: "timestamp option"

record archive_entry =
  ae_table :: string
  ae_device :: uuid
  ae_message :: "uuid option"
  ae_row :: nat

text \<open>The tables, with the two of the WhatsApp library's session store (\<^verbatim>\<open>whatsmeow_device\<close> as pairs of a JID and
  a registration id, \<^verbatim>\<open>whatsmeow_privacy_tokens\<close> as their owners' JIDs).\<close>

record db =
  db_tenants :: "tenant_row list"
  db_users :: "user_row list"
  db_members :: "member_row list"
  db_devices :: "device_row list"
  db_perms :: "perm_row list"
  db_grants :: "grant_row list"
  db_archive_keys :: "archive_row list"
  db_keys :: "key_row list"
  db_key_devices :: "(uuid \<times> uuid) list"
  db_sessions :: "session_row list"
  db_invites :: "invite_row list"
  db_connections :: "connection_row list"
  db_revoke_links :: "(uuid \<times> uuid) list"
  db_outbound :: "outbound_row list"
  db_chats :: "chat_row list"
  db_messages :: "archived_row list"
  db_history :: "history_row list"
  db_events :: "event_row list"
  db_notices :: "notice_row list"
  db_prefs :: "(uuid \<times> uuid \<times> uuid) list"
  db_contract_mode :: string
  db_named :: "named_row list"
  db_notice_seq :: nat
  db_capacity :: "(uuid \<times> nat option) list"
  db_media :: "media_row list"
  db_archive :: "archive_entry list"
  db_objects :: "(uuid \<times> string) list"
  db_transfers :: "(uuid \<times> uuid \<times> uuid) list"
  db_wa_sessions :: "(string \<times> int) list"
  db_wa_tokens :: "string list"

text \<open>What a transaction takes from outside: the database's \<^verbatim>\<open>now()\<close> and \<^verbatim>\<open>clock_timestamp()\<close>, the id of the
  event it writes about a number, and the label of a number, whose rule is the platform kit's
  \<^verbatim>\<open>CleanLabel\<close>.\<close>

record tx =
  tx_now :: timestamp
  tx_clock :: timestamp
  tx_event :: "uuid \<Rightarrow> uuid"
  tx_label :: "uuid \<Rightarrow> string \<Rightarrow> string \<Rightarrow> string \<Rightarrow> string option"

section \<open>Errors\<close>

record number_ref =
  nr_device :: uuid
  nr_label :: string
  nr_push :: string
  nr_pn :: string
  nr_purge :: timestamp

datatype access_error =
    MembershipForbidden | LastOwner | InvalidMembership | OwnerOnly | RowNotFound | NoRows
  | LastDeviceReader | LastReaderOfDeleted "number_ref list" | ConnectionNotFound | BadEndStatus string
  | NumberGone | EmptyGrant | NoSession | InvalidKey | InvalidKeyDevices | InvalidExpiry | BadScope string
  | NotConfigured | Constraint string
  | PendingDevice | RecoveryClosed | DeviceBusy | CapacityReached | IdentityInUse | NotDue
  | DeviceHasReaders "(uuid \<times> string \<times> string) list" | NoActor | BadDeviceName

fun and_then :: "'e + 'a \<Rightarrow> ('a \<Rightarrow> 'e + 'b) \<Rightarrow> 'e + 'b" where
  "and_then (Inl e) f = Inl e"
| "and_then (Inr x) f = f x"

definition require :: "bool \<Rightarrow> 'e \<Rightarrow> 'e + unit" where
  "require c e = (if c then Inr () else Inl e)"

lemma and_then_Inr [simp]: "and_then r f = Inr y \<longleftrightarrow> (\<exists>x. r = Inr x \<and> f x = Inr y)"
  by (cases r) auto

lemma and_then_Inl: "and_then r f = Inl e \<longleftrightarrow> r = Inl e \<or> (\<exists>x. r = Inr x \<and> f x = Inl e)"
  by (cases r) auto

lemma require_Inr [simp]: "require c e = Inr u \<longleftrightarrow> c"
  by (simp add: require_def)

lemma require_Inl [simp]: "require c e = Inl e' \<longleftrightarrow> \<not> c \<and> e' = e"
  by (auto simp: require_def)

section \<open>Reads\<close>

definition tenant_of :: "db \<Rightarrow> uuid \<Rightarrow> tenant_row option" where
  "tenant_of db t = find (\<lambda>w. tn_id w = t) (db_tenants db)"

definition user_of :: "db \<Rightarrow> uuid \<Rightarrow> user_row option" where
  "user_of db u = find (\<lambda>r. us_id r = u) (db_users db)"

definition member_of :: "db \<Rightarrow> uuid \<Rightarrow> uuid \<Rightarrow> member_row option" where
  "member_of db t u = find (\<lambda>m. mb_tenant m = t \<and> mb_user m = u) (db_members db)"

definition sees_device :: "bool \<Rightarrow> uuid \<Rightarrow> device_row \<Rightarrow> bool" where
  "sees_device quarantine t d \<longleftrightarrow> dv_tenant d = t \<and> (dv_deleted d = None \<or> quarantine)"

definition device_of :: "bool \<Rightarrow> db \<Rightarrow> uuid \<Rightarrow> uuid \<Rightarrow> device_row option" where
  "device_of quarantine db t d = find (\<lambda>r. dv_id r = d \<and> sees_device quarantine t r) (db_devices db)"

definition perm_of :: "db \<Rightarrow> uuid \<Rightarrow> uuid \<Rightarrow> uuid \<Rightarrow> perm_row option" where
  "perm_of db t d u = find (\<lambda>p. pm_tenant p = t \<and> pm_device p = d \<and> pm_user p = u) (db_perms db)"

definition before :: "timestamp \<Rightarrow> timestamp option \<Rightarrow> bool" where
  "before now deadline = (case deadline of None \<Rightarrow> True | Some e \<Rightarrow> now < e)"

text \<open>A membership that counts now: it and its account are active, and so is its workspace.\<close>

definition status_active :: "db \<Rightarrow> uuid \<Rightarrow> bool" where
  "status_active db u = (case user_of db u of None \<Rightarrow> False | Some r \<Rightarrow> us_status r = ''active'')"

definition tenant_active :: "db \<Rightarrow> uuid \<Rightarrow> bool" where
  "tenant_active db t = (case tenant_of db t of None \<Rightarrow> False | Some w \<Rightarrow> tn_status w = ''active'')"

definition named_by_connection :: "db \<Rightarrow> uuid \<Rightarrow> bool" where
  "named_by_connection db u = list_ex (\<lambda>c. cn_service c = Some u) (db_connections db)"

section \<open>Writes\<close>

text \<open>Deleting a grant or a permission raises the access version of its member once per row (the triggers
  of 0022 and 0023).\<close>

definition bump :: "(uuid \<Rightarrow> uuid \<Rightarrow> nat) \<Rightarrow> member_row list \<Rightarrow> member_row list" where
  "bump n ms = map (\<lambda>m. m\<lparr>mb_version := mb_version m + int (n (mb_tenant m) (mb_user m))\<rparr>) ms"

definition delete_grants :: "(grant_row \<Rightarrow> bool) \<Rightarrow> db \<Rightarrow> db" where
  "delete_grants P db = db\<lparr>db_grants := filter (\<lambda>g. \<not> P g) (db_grants db),
     db_members := bump (\<lambda>t u. length (filter (\<lambda>g. P g \<and> gr_tenant g = t \<and> gr_user g = u) (db_grants db)))
       (db_members db)\<rparr>"

definition delete_perms :: "(perm_row \<Rightarrow> bool) \<Rightarrow> db \<Rightarrow> db" where
  "delete_perms P db = db\<lparr>db_perms := filter (\<lambda>p. \<not> P p) (db_perms db),
     db_members := bump (\<lambda>t u. length (filter (\<lambda>p. P p \<and> pm_tenant p = t \<and> pm_user p = u) (db_perms db)))
       (db_members db)\<rparr>"

definition revoke_keys :: "timestamp \<Rightarrow> (key_row \<Rightarrow> bool) \<Rightarrow> db \<Rightarrow> db" where
  "revoke_keys now P db = db\<lparr>db_keys := map (\<lambda>k. if P k \<and> ky_revoked k = None
     then k\<lparr>ky_revoked := Some now\<rparr> else k) (db_keys db)\<rparr>"

definition revoke_sessions :: "timestamp \<Rightarrow> (session_row \<Rightarrow> bool) \<Rightarrow> db \<Rightarrow> db" where
  "revoke_sessions now P db = db\<lparr>db_sessions := map (\<lambda>s. if P s \<and> ss_revoked s = None
     then s\<lparr>ss_revoked := Some now\<rparr> else s) (db_sessions db)\<rparr>"

text \<open>UPDATE of a membership's role and status; 0022's trigger raises its version. 0031's trigger keeps a
  personal workspace to its owner and service identities.\<close>

definition personal_ok :: "db \<Rightarrow> member_row \<Rightarrow> bool" where
  "personal_ok db m = (case tenant_of db (mb_tenant m) of
       Some w \<Rightarrow> (case tn_personal w of
           Some own \<Rightarrow> mb_role m = ''service''
             \<or> mb_user m = own \<and> mb_role m = ''owner'' \<and> mb_status m = ''active''
         | None \<Rightarrow> True)
     | None \<Rightarrow> True)"

definition set_member :: "uuid \<Rightarrow> uuid \<Rightarrow> string \<Rightarrow> string \<Rightarrow> db \<Rightarrow> access_error + db" where
  "set_member t u role status db =
     (let change = (\<lambda>m. if mb_tenant m = t \<and> mb_user m = u
            then m\<lparr>mb_role := role, mb_status := status, mb_version := mb_version m + 1\<rparr> else m) in
      and_then (require (list_all (\<lambda>m. mb_tenant m = t \<and> mb_user m = u \<longrightarrow> personal_ok db (change m))
            (db_members db)) (Constraint ''personal_workspace_membership'')) (\<lambda>_.
        Inr (db\<lparr>db_members := map change (db_members db)\<rparr>)))"

text \<open>DELETE of memberships; the foreign keys take their permissions, preferences and notices along.\<close>

definition delete_member :: "uuid \<Rightarrow> uuid \<Rightarrow> (member_row \<Rightarrow> bool) \<Rightarrow> db \<Rightarrow> db" where
  "delete_member t u P db =
     (if list_ex (\<lambda>m. mb_tenant m = t \<and> mb_user m = u \<and> P m) (db_members db)
      then db\<lparr>db_members := filter (\<lambda>m. \<not> (mb_tenant m = t \<and> mb_user m = u \<and> P m)) (db_members db),
        db_perms := filter (\<lambda>p. \<not> (pm_tenant p = t \<and> pm_user p = u)) (db_perms db),
        db_prefs := filter (\<lambda>(w, v, d). \<not> (w = t \<and> v = u)) (db_prefs db),
        db_notices := filter (\<lambda>n. \<not> (nt_tenant n = t \<and> nt_user n = u)) (db_notices db)\<rparr>
      else db)"

text \<open>INSERT \<open>\<dots>\<close> ON CONFLICT of a permission. An insert or update of a number's access rows is refused when
  the number is not visible in the workspace (0036's ownership trigger, behind 0050's quarantine).\<close>

definition put_perm :: "perm_row \<Rightarrow> db \<Rightarrow> access_error + db" where
  "put_perm p db =
     and_then (require (device_of False db (pm_tenant p) (pm_device p) \<noteq> None) NumberGone) (\<lambda>_.
       Inr (case perm_of db (pm_tenant p) (pm_device p) (pm_user p) of
           None \<Rightarrow> db\<lparr>db_perms := db_perms db @ [p]\<rparr>
         | Some _ \<Rightarrow> db\<lparr>db_perms := map (\<lambda>q. if pm_tenant q = pm_tenant p \<and> pm_device q = pm_device p
                \<and> pm_user q = pm_user p then p else q) (db_perms db),
             db_members := bump (\<lambda>t u. if t = pm_tenant p \<and> u = pm_user p then 1 else 0) (db_members db)\<rparr>))"

text \<open>INSERT \<open>\<dots>\<close> ON CONFLICT of a grant: the primary key names the user, the number and the epoch, a grant of
  another tenant on it is behind the tenant policy, the epoch's archive key must exist, and a first grant
  opens reading and sending where no permission is stored (0023).\<close>

definition put_grant_row :: "grant_row \<Rightarrow> db \<Rightarrow> access_error + db" where
  "put_grant_row g db =
     and_then (require (device_of False db (gr_tenant g) (gr_device g) \<noteq> None) NumberGone) (\<lambda>_.
     case find (\<lambda>h. gr_user h = gr_user g \<and> gr_device h = gr_device g \<and> gr_epoch h = gr_epoch g) (db_grants db) of
       Some h \<Rightarrow> and_then (require (gr_tenant h = gr_tenant g) (Constraint ''row-level security'')) (\<lambda>_.
         Inr (db\<lparr>db_grants := map (\<lambda>h. if gr_user h = gr_user g \<and> gr_device h = gr_device g
             \<and> gr_epoch h = gr_epoch g then h\<lparr>gr_sealed := gr_sealed g\<rparr> else h) (db_grants db)\<rparr>))
     | None \<Rightarrow> and_then (require (list_ex (\<lambda>k. ak_device k = gr_device g \<and> ak_epoch k = gr_epoch g)
             (db_archive_keys db)) (Constraint ''device_archive_keys'')) (\<lambda>_.
         Inr (db\<lparr>db_grants := db_grants db @ [g],
           db_perms := (if perm_of db (gr_tenant g) (gr_device g) (gr_user g) = None
             then db_perms db @ [\<lparr>pm_tenant = gr_tenant g, pm_device = gr_device g, pm_user = gr_user g,
                 pm_read = True, pm_send = True, pm_manage = False\<rparr>]
             else db_perms db)\<rparr>)))"

end
