(* ===== verification/Access_Policy.thy ===== *)
theory Access_Policy
  imports Access_Db
begin

text \<open>
  Who may do what with a number: a member's permission, an API key's scope and list, and the check that
  HTTP and WebSocket share (internal/access/access.go, internal/store/permissions.go, apikeys.go and
  access.go). Random bytes and the Argon2id hash of a secret are arguments.
\<close>

section \<open>A member's permission\<close>

datatype device_action = ActionRead | ActionSend | ActionManage | ActionView | ActionPause | ActionOther string

record device_permission =
  dp_device :: uuid
  dp_user :: uuid
  dp_read :: bool
  dp_send :: bool
  dp_manage :: bool
  dp_has_key :: bool
  dp_pause :: bool

fun perm_allows :: "device_permission \<Rightarrow> device_action \<Rightarrow> bool" where
  "perm_allows p ActionRead = (dp_read p \<and> dp_has_key p)"
| "perm_allows p ActionSend = dp_send p"
| "perm_allows p ActionManage = dp_manage p"
| "perm_allows p ActionView = (dp_manage p \<or> dp_send p \<or> (dp_read p \<and> dp_has_key p))"
| "perm_allows p ActionPause = dp_pause p"
| "perm_allows p (ActionOther a) = False"

definition manager_role :: "string \<Rightarrow> bool" where
  "manager_role r \<longleftrightarrow> r = ''owner'' \<or> r = ''admin''"

definition holds_key :: "db \<Rightarrow> uuid \<Rightarrow> uuid \<Rightarrow> device_row \<Rightarrow> bool" where
  "holds_key db t u d = list_ex (\<lambda>g. gr_tenant g = t \<and> gr_device g = dv_id d \<and> gr_user g = u
     \<and> gr_epoch g = dv_epoch d) (db_grants db)"

text \<open>\<^verbatim>\<open>devicePermissionTx\<close>.\<close>

definition device_permission_tx :: "timestamp \<Rightarrow> db \<Rightarrow> uuid \<Rightarrow> uuid \<Rightarrow> uuid \<Rightarrow> access_error + device_permission" where
  "device_permission_tx now db t u d =
     (case (member_of db t u, device_of False db t d) of
        (Some m, Some dv) \<Rightarrow>
          if mb_status m = ''active'' \<and> status_active db u \<and> tenant_active db t \<and> before now (mb_expires m)
          then
            (let stored = (\<lambda>f. case perm_of db t d u of None \<Rightarrow> False | Some p \<Rightarrow> f p) in
             Inr \<lparr>dp_device = d, dp_user = u, dp_read = stored pm_read, dp_send = stored pm_send,
               dp_manage = (manager_role (mb_role m) \<or> stored pm_manage), dp_has_key = holds_key db t u dv,
               dp_pause = (manager_role (mb_role m) \<or> mb_role m = ''service'' \<and> stored pm_manage)\<rparr>)
          else Inl RowNotFound
      | _ \<Rightarrow> Inl RowNotFound)"

definition stored_permission :: "db \<Rightarrow> uuid \<Rightarrow> uuid \<Rightarrow> uuid \<Rightarrow> device_permission" where
  "stored_permission db t u d =
     (let stored = (\<lambda>f. case perm_of db t d u of None \<Rightarrow> False | Some p \<Rightarrow> f p) in
      \<lparr>dp_device = d, dp_user = u, dp_read = stored pm_read, dp_send = stored pm_send, dp_manage = stored pm_manage,
       dp_has_key = list_ex (\<lambda>g. gr_tenant g = t \<and> gr_device g = d \<and> gr_user g = u
          \<and> list_ex (\<lambda>k. ak_tenant k = t \<and> ak_device k = d \<and> ak_epoch k = gr_epoch g \<and> ak_retired k = None)
              (db_archive_keys db)) (db_grants db),
       dp_pause = False\<rparr>)"

text \<open>\<^verbatim>\<open>HasGrant\<close>.\<close>

definition has_grant :: "db \<Rightarrow> uuid \<Rightarrow> uuid \<Rightarrow> uuid \<Rightarrow> bool" where
  "has_grant db t d u = (case device_of False db t d of None \<Rightarrow> False | Some dv \<Rightarrow> holds_key db t u dv)"

section \<open>API keys\<close>

text \<open>\<^verbatim>\<open>ParseKeyScope\<close> lowers the name; the three names are ASCII, so bytes are lowered as ASCII.\<close>

definition lower_byte :: "char \<Rightarrow> char" where
  "lower_byte c = (if CHR ''A'' \<le> c \<and> c \<le> CHR ''Z'' then char_of (of_char c + 32 :: nat) else c)"

definition parse_scope :: "string \<Rightarrow> access_error + string" where
  "parse_scope s = (let k = map lower_byte (trim_space s) in
     if k = ''read'' \<or> k = ''send'' \<or> k = ''full'' then Inr k else Inl (BadScope s))"

definition rank :: "string \<Rightarrow> int" where
  "rank k = (if k = ''read'' then 1 else if k = ''send'' then 2 else if k = ''full'' then 3 else 0)"

definition covers :: "string \<Rightarrow> string \<Rightarrow> bool" where
  "covers k need \<longleftrightarrow> rank k \<ge> rank need"

definition max_key_lifetime :: duration where
  "max_key_lifetime = 365 * 24 * 60 * minute"

definition check_key_expiry :: "timestamp \<Rightarrow> timestamp \<Rightarrow> access_error + unit" where
  "check_key_expiry now at = require (now < at \<and> at \<le> now + max_key_lifetime) InvalidExpiry"

text \<open>\<^verbatim>\<open>AllowsDevice\<close>: its SELECT reads api_keys, which carries no tenant policy, and the tenant's devices.\<close>

definition allows_device :: "db \<Rightarrow> uuid \<Rightarrow> uuid \<Rightarrow> uuid \<Rightarrow> bool" where
  "allows_device db k t d =
     list_ex (\<lambda>r. ky_id r = k \<and> ky_revoked r = None
        \<and> list_ex (\<lambda>v. dv_id v = d \<and> sees_device False t v \<and> dv_tenant v = ky_tenant r) (db_devices db)
        \<and> (\<not> ky_restricted r \<or> (k, d) \<in> set (db_key_devices db)))
       (db_keys db)"

record issue_request =
  iq_name :: string
  iq_scope :: string
  iq_creator :: "uuid option"
  iq_acts :: "uuid option"
  iq_devices :: "uuid list option"
  iq_expires :: "timestamp option"

text \<open>\<^verbatim>\<open>IssueActingAsForDevices\<close>. \<open>key_id\<close>, \<open>prefix\<close>, \<open>secret\<close> and \<open>hash\<close> are the new row's id, the random
  prefix and secret, and the secret's hash; the rows api_key_devices gains raise the key's version (0026).\<close>

definition issue_checks :: "timestamp \<Rightarrow> db \<Rightarrow> uuid \<Rightarrow> issue_request \<Rightarrow> access_error + unit" where
  "issue_checks now db t q =
     (case tenant_of db t of None \<Rightarrow> Inl NoRows | Some w \<Rightarrow>
      and_then (require (tn_status w = ''active'') MembershipForbidden) (\<lambda>_.
      and_then (case iq_creator q of None \<Rightarrow> Inr ()
         | Some u \<Rightarrow> require (case member_of db t u of None \<Rightarrow> False
             | Some m \<Rightarrow> mb_status m = ''active'' \<and> status_active db u \<and> manager_role (mb_role m))
             MembershipForbidden) (\<lambda>_.
      and_then (case iq_acts q of None \<Rightarrow> Inr ()
         | Some u \<Rightarrow> require (case member_of db t u of None \<Rightarrow> False
             | Some m \<Rightarrow> mb_status m = ''active'' \<and> status_active db u \<and> mb_role m = ''service''
                 \<and> before now (mb_expires m)) MembershipForbidden) (\<lambda>_.
      case iq_devices q of None \<Rightarrow> Inr ()
         | Some ds \<Rightarrow> require (length (filter (\<lambda>v. sees_device False t v \<and> dv_id v \<in> set ds) (db_devices db))
             = length ds) InvalidKeyDevices))))"

definition issue_key :: "timestamp \<Rightarrow> timestamp \<Rightarrow> db \<Rightarrow> uuid \<Rightarrow> issue_request
    \<Rightarrow> uuid \<Rightarrow> string \<Rightarrow> string \<Rightarrow> string \<Rightarrow> access_error + (string \<times> db)" where
  "issue_key clock now db t q key_id pfx secret hash =
     and_then (parse_scope (iq_scope q)) (\<lambda>_.
     and_then (case iq_expires q of None \<Rightarrow> Inr () | Some e \<Rightarrow> check_key_expiry clock e) (\<lambda>_.
     and_then (case iq_devices q of None \<Rightarrow> Inr ()
        | Some ds \<Rightarrow> require (ds \<noteq> [] \<and> uuid_nil \<notin> set ds \<and> distinct ds) InvalidKeyDevices) (\<lambda>_.
     and_then (issue_checks now db t q) (\<lambda>_.
     and_then (require (\<not> list_ex (\<lambda>k. ky_id k = key_id \<or> ky_prefix k = pfx) (db_keys db)) (Constraint ''unique'')) (\<lambda>_.
     and_then (require (iq_scope q \<in> {''read'', ''send'', ''full''}) (Constraint ''scope'')) (\<lambda>_.
       let ds = (case iq_devices q of None \<Rightarrow> [] | Some ds \<Rightarrow> ds) in
       Inr (pfx @ ''.'' @ secret,
         db\<lparr>db_keys := db_keys db @ [\<lparr>ky_id = key_id, ky_tenant = t, ky_prefix = pfx, ky_hash = hash,
              ky_creator = iq_creator q, ky_scope = iq_scope q, ky_acts = iq_acts q,
              ky_restricted = (iq_devices q \<noteq> None), ky_expires = iq_expires q, ky_revoked = None,
              ky_version = 1 + int (length ds)\<rparr>],
            db_key_devices := db_key_devices db @ map (Pair key_id) ds\<rparr>)))))))"

record verified =
  vf_version :: int
  vf_id :: uuid
  vf_tenant :: uuid
  vf_prefix :: string
  vf_scope :: string
  vf_acts :: "uuid option"

definition prefix_len :: nat where
  "prefix_len = 8"

text \<open>\<^verbatim>\<open>VerifyScoped\<close>: \<open>matches secret hash\<close> is the Argon2id comparison. Setting last_used_at is left out.\<close>

definition verify_key :: "(string \<Rightarrow> string \<Rightarrow> bool) \<Rightarrow> timestamp \<Rightarrow> db \<Rightarrow> string \<Rightarrow> access_error + verified" where
  "verify_key matches now db presented =
     (let pfx = takeWhile (\<lambda>c. c \<noteq> CHR ''.'') presented;
          secret = drop (length pfx + 1) presented in
      if CHR ''.'' \<notin> set presented \<or> length pfx \<noteq> prefix_len \<or> secret = '''' then Inl InvalidKey
      else case find (\<lambda>k. ky_prefix k = pfx \<and> ky_revoked k = None \<and> before now (ky_expires k)
            \<and> tenant_active db (ky_tenant k)) (db_keys db) of
          None \<Rightarrow> Inl InvalidKey
        | Some k \<Rightarrow> if matches secret (ky_hash k)
            then Inr \<lparr>vf_version = ky_version k, vf_id = ky_id k, vf_tenant = ky_tenant k, vf_prefix = pfx,
                vf_scope = ky_scope k, vf_acts = ky_acts k\<rparr>
            else Inl InvalidKey)"

text \<open>\<^verbatim>\<open>Revoke\<close>, \<^verbatim>\<open>extendAPIKeyExpiryTx\<close> and \<^verbatim>\<open>ConnectionKey\<close>.\<close>

definition revoke_key :: "timestamp \<Rightarrow> db \<Rightarrow> uuid \<Rightarrow> string \<Rightarrow> access_error + db" where
  "revoke_key now db t pfx =
     (let P = (\<lambda>k. ky_prefix k = pfx \<and> ky_tenant k = t) in
      if list_ex (\<lambda>k. P k \<and> ky_revoked k = None) (db_keys db) then Inr (revoke_keys now P db)
      else Inl RowNotFound)"

definition extend_key :: "db \<Rightarrow> uuid \<Rightarrow> uuid \<Rightarrow> timestamp \<Rightarrow> access_error + db" where
  "extend_key db k t til =
     (let P = (\<lambda>r. ky_id r = k \<and> ky_tenant r = t \<and> ky_revoked r = None
            \<and> (case ky_expires r of None \<Rightarrow> False | Some e \<Rightarrow> e < til)) in
      if list_ex P (db_keys db)
      then Inr (db\<lparr>db_keys := map (\<lambda>r. if P r then r\<lparr>ky_expires := Some til\<rparr> else r) (db_keys db)\<rparr>)
      else Inl InvalidKey)"

definition connection_key :: "timestamp \<Rightarrow> db \<Rightarrow> uuid \<Rightarrow> uuid \<Rightarrow> string \<Rightarrow> uuid \<Rightarrow> int \<Rightarrow> bool" where
  "connection_key now db k t scope acts version =
     list_ex (\<lambda>r. ky_id r = k \<and> ky_tenant r = t \<and> ky_scope r = scope \<and> ky_revoked r = None
        \<and> tenant_active db t \<and> before now (ky_expires r) \<and> ky_version r = version
        \<and> (case ky_acts r of None \<Rightarrow> uuid_nil | Some u \<Rightarrow> u) = acts) (db_keys db)"

section \<open>Sessions and open connections\<close>

definition live_session :: "timestamp \<Rightarrow> session_row \<Rightarrow> bool" where
  "live_session now s \<longleftrightarrow> ss_revoked s = None \<and> now < ss_expires s"

text \<open>\<^verbatim>\<open>ConnectionAccess\<close>: the member's role and access version.\<close>

definition connection_access :: "timestamp \<Rightarrow> db \<Rightarrow> uuid \<Rightarrow> uuid \<Rightarrow> uuid \<Rightarrow> access_error + (string \<times> int)" where
  "connection_access now db t u session =
     (case member_of db t u of None \<Rightarrow> Inl NoSession
      | Some m \<Rightarrow>
          if mb_status m = ''active'' \<and> status_active db u \<and> tenant_active db t \<and> before now (mb_expires m)
             \<and> (session = uuid_nil \<or> list_ex (\<lambda>s. ss_id s = session \<and> ss_user s = u \<and> ss_tenant s = Some t
                  \<and> live_session now s) (db_sessions db))
          then Inr (mb_role m, mb_version m) else Inl NoSession)"

text \<open>\<^verbatim>\<open>Users.Get\<close> in a workspace: the role is the membership's, the status the account's. Without a
  workspace \<^verbatim>\<open>Get\<close> reads the person's identity, which leaves the role empty.\<close>

definition get_identity :: "db \<Rightarrow> uuid \<Rightarrow> access_error + (string \<times> string)" where
  "get_identity db u = (case user_of db u of None \<Rightarrow> Inl RowNotFound
     | Some r \<Rightarrow> if us_role r = ''service'' then Inl NoSession else Inr ('''', us_status r))"

definition get_user :: "timestamp \<Rightarrow> db \<Rightarrow> uuid \<Rightarrow> uuid \<Rightarrow> access_error + (string \<times> string)" where
  "get_user now db t u =
     (case (member_of db t u, user_of db u) of
        (Some m, Some r) \<Rightarrow> if mb_status m = ''active'' \<and> before now (mb_expires m)
            then Inr (mb_role m, us_status r) else Inl RowNotFound
      | _ \<Rightarrow> Inl RowNotFound)"

text \<open>\<^verbatim>\<open>Session\<close> and \<^verbatim>\<open>ActiveSession\<close>: \<open>digest\<close> decodes a token and hashes it, or fails.\<close>

definition active_session :: "(string \<Rightarrow> string option) \<Rightarrow> timestamp
    \<Rightarrow> db \<Rightarrow> string \<Rightarrow> access_error + (uuid \<times> uuid \<times> string)" where
  "active_session digest now db token =
     (case digest token of None \<Rightarrow> Inl NoSession
      | Some h \<Rightarrow>
        (case find (\<lambda>s. ss_token s = h \<and> live_session now s
             \<and> (case ss_tenant s of None \<Rightarrow> True | Some t \<Rightarrow> tenant_active db t)) (db_sessions db) of
           None \<Rightarrow> Inl NoSession
         | Some s \<Rightarrow>
             (let t = (case ss_tenant s of None \<Rightarrow> uuid_nil | Some t \<Rightarrow> t) in
              case (if t = uuid_nil then get_identity db (ss_user s) else get_user now db t (ss_user s)) of
                Inl RowNotFound \<Rightarrow> Inl NoSession
              | Inl e \<Rightarrow> Inl e
              | Inr (role, status) \<Rightarrow> if status = ''active'' then Inr (t, ss_user s, role) else Inl NoSession)))"

section \<open>The shared check\<close>

record actor =
  ac_tenant :: uuid
  ac_user :: uuid
  ac_key :: uuid
  ac_scope :: string
  ac_role :: string

text \<open>\<^verbatim>\<open>Authenticate\<close>. The stores are configured or not: \<open>sessions\<close> is \<^verbatim>\<open>users != nil\<close>, \<open>keys\<close> \<^verbatim>\<open>keys != nil\<close>.\<close>

definition key_actor :: "bool \<Rightarrow> timestamp \<Rightarrow> db \<Rightarrow> verified \<Rightarrow> access_error + actor" where
  "key_actor sessions now db v =
     (let a = \<lparr>ac_tenant = vf_tenant v, ac_user = uuid_nil, ac_key = vf_id v, ac_scope = vf_scope v, ac_role = ''''\<rparr> in
      case vf_acts v of None \<Rightarrow> Inr a
      | Some u \<Rightarrow> if \<not> sessions then Inl InvalidKey
          else (case get_user now db (vf_tenant v) u of
              Inr (role, status) \<Rightarrow> if status \<noteq> ''active'' \<or> role \<noteq> ''service'' then Inl InvalidKey
                 else Inr (a\<lparr>ac_user := u, ac_role := role\<rparr>)
            | Inl _ \<Rightarrow> Inl InvalidKey))"

definition authenticate :: "(string \<Rightarrow> string option) \<Rightarrow> (string \<Rightarrow> string \<Rightarrow> bool) \<Rightarrow> bool \<Rightarrow> bool \<Rightarrow> timestamp \<Rightarrow> db \<Rightarrow> string \<Rightarrow> access_error + actor" where
  "authenticate digest matches sessions keys now db raw =
     (let token = trim_space raw;
          session = (if sessions then active_session digest now db token else Inl NoSession) in
      case session of
        Inr (t, u, role) \<Rightarrow> Inr \<lparr>ac_tenant = t, ac_user = u, ac_key = uuid_nil, ac_scope = '''', ac_role = role\<rparr>
      | Inl _ \<Rightarrow> if \<not> keys then Inl InvalidKey
          else and_then (verify_key matches now db token) (key_actor sessions now db))"

definition needed_scope :: "device_action \<Rightarrow> string" where
  "needed_scope a = (case a of ActionSend \<Rightarrow> ''send'' | ActionManage \<Rightarrow> ''full'' | ActionPause \<Rightarrow> ''full''
     | _ \<Rightarrow> ''read'')"

definition allows :: "bool \<Rightarrow> bool \<Rightarrow> timestamp \<Rightarrow> db \<Rightarrow> actor \<Rightarrow> uuid \<Rightarrow> device_action \<Rightarrow> access_error + bool" where
  "allows sessions keys now db a d action =
     (let account = (if ac_user a = uuid_nil then Inr (ac_key a \<noteq> uuid_nil)
            else if \<not> sessions then Inl NotConfigured
            else (case device_permission_tx now db (ac_tenant a) (ac_user a) d of
                Inl RowNotFound \<Rightarrow> Inr False
              | Inl e \<Rightarrow> Inl e
              | Inr p \<Rightarrow> Inr (perm_allows p action))) in
      if ac_key a \<noteq> uuid_nil then
        if \<not> covers (ac_scope a) (needed_scope action) then Inr False
        else if \<not> keys then Inl NotConfigured
        else if \<not> allows_device db (ac_key a) (ac_tenant a) d then Inr False
        else account
      else account)"

end
