(* ===== verification/Access_Members.thy ===== *)
theory Access_Members
  imports Access_Policy
begin

text \<open>
  Changing who is in a workspace and what they hold (internal/store/members.go, reader_safety.go,
  permissions.go, the grants of keys.go, and the ending of connections in mcp_content.go and mcp.go).
  An operation is one transaction under the workspace's row lock, so operations on one workspace are
  steps in sequence; waiting for that lock, and giving up on it (\<^verbatim>\<open>ErrWorkspaceBusy\<close>), is not modelled.
\<close>

section \<open>The lock and the manager\<close>

definition lock_workspace_access :: "db \<Rightarrow> uuid \<Rightarrow> access_error + unit" where
  "lock_workspace_access db t = require (tenant_of db t \<noteq> None) NoRows"

definition lock_workspace_manager :: "db \<Rightarrow> uuid \<Rightarrow> uuid \<Rightarrow> access_error + string" where
  "lock_workspace_manager db t actor =
     (if t = uuid_nil then Inl MembershipForbidden
      else case tenant_of db t of None \<Rightarrow> Inl NoRows
      | Some w \<Rightarrow> if tn_status w \<noteq> ''active'' then Inl MembershipForbidden
          else (case member_of db t actor of None \<Rightarrow> Inl MembershipForbidden
            | Some m \<Rightarrow> if mb_status m = ''active'' \<and> status_active db actor \<and> manager_role (mb_role m)
                then Inr (mb_role m) else Inl MembershipForbidden))"

section \<open>The last key of a number\<close>

text \<open>A standing membership: active and without a deadline.\<close>

definition standing :: "db \<Rightarrow> uuid \<Rightarrow> uuid \<Rightarrow> bool" where
  "standing db t u = (case member_of db t u of None \<Rightarrow> False
     | Some m \<Rightarrow> mb_status m = ''active'' \<and> mb_expires m = None)"

definition keeps_keys :: "db \<Rightarrow> uuid \<Rightarrow> bool" where
  "keeps_keys db u = (case user_of db u of None \<Rightarrow> False | Some r \<Rightarrow> us_status r = ''active'' \<or> us_status r = ''disabled'')"

definition unretired :: "db \<Rightarrow> uuid \<Rightarrow> uuid \<Rightarrow> nat \<Rightarrow> bool" where
  "unretired db t d e = list_ex (\<lambda>k. ak_tenant k = t \<and> ak_device k = d \<and> ak_epoch k = e \<and> ak_retired k = None)
     (db_archive_keys db)"

definition can_read_flag :: "db \<Rightarrow> uuid \<Rightarrow> uuid \<Rightarrow> uuid \<Rightarrow> bool" where
  "can_read_flag db t d u = (case perm_of db t d u of None \<Rightarrow> False | Some p \<Rightarrow> pm_read p)"

definition backs_up :: "db \<Rightarrow> grant_row \<Rightarrow> grant_row \<Rightarrow> bool" where
  "backs_up db doomed b \<longleftrightarrow> gr_tenant b = gr_tenant doomed \<and> gr_device b = gr_device doomed
     \<and> gr_epoch b = gr_epoch doomed \<and> gr_user b \<noteq> gr_user doomed
     \<and> standing db (gr_tenant b) (gr_user b) \<and> status_active db (gr_user b)
     \<and> can_read_flag db (gr_tenant b) (gr_device b) (gr_user b) \<and> \<not> named_by_connection db (gr_user b)"

text \<open>\<^verbatim>\<open>sole_key_holders\<close> (0051) as the grants it finds.\<close>

definition sole_grants :: "db \<Rightarrow> uuid \<Rightarrow> grant_row list" where
  "sole_grants db t = filter (\<lambda>g. gr_tenant g = t \<and> unretired db t (gr_device g) (gr_epoch g)
     \<and> standing db t (gr_user g) \<and> keeps_keys db (gr_user g) \<and> \<not> named_by_connection db (gr_user g)
     \<and> \<not> list_ex (backs_up db g) (db_grants db)) (db_grants db)"

definition stranded_devices :: "db \<Rightarrow> uuid \<Rightarrow> uuid \<Rightarrow> uuid option \<Rightarrow> uuid list" where
  "stranded_devices db t target device =
     sort (remdups (map gr_device (filter (\<lambda>g. gr_user g = target
        \<and> (case device of None \<Rightarrow> True | Some d \<Rightarrow> gr_device g = d)) (sole_grants db t))))"

definition require_remaining_reader :: "db \<Rightarrow> uuid \<Rightarrow> uuid \<Rightarrow> uuid option \<Rightarrow> access_error + unit" where
  "require_remaining_reader db t target device = require (stranded_devices db t target device = []) LastDeviceReader"

text \<open>\<^verbatim>\<open>strandCheckTx\<close>: what goes on, or its refusal. A doomed number the workspace cannot see counts as live.\<close>

definition excluded_ref :: "device_row \<Rightarrow> number_ref option" where
  "excluded_ref v = (case (dv_deleted v, dv_purge v) of
       (Some _, Some p) \<Rightarrow> Some \<lparr>nr_device = dv_id v, nr_label = dv_label v, nr_push = dv_push v, nr_pn = dv_pn v, nr_purge = p\<rparr>
     | _ \<Rightarrow> None)"

definition strand_check :: "db \<Rightarrow> uuid \<Rightarrow> uuid \<Rightarrow> string \<Rightarrow> bool \<Rightarrow> access_error + number_ref list" where
  "strand_check db t target actor_role override =
     (let doomed = stranded_devices db t target None;
          found = sort_key dv_id (filter (\<lambda>v. sees_device True t v \<and> dv_id v \<in> set doomed) (db_devices db));
          numbers = List.map_filter excluded_ref found in
      if doomed = [] then Inr []
      else if length numbers < length found \<or> length found < length doomed then Inl LastDeviceReader
      else if override \<and> actor_role = ''owner'' then Inr numbers
      else Inl (LastReaderOfDeleted (if actor_role = ''owner'' then numbers else [])))"

definition owners_mailed :: "db \<Rightarrow> uuid \<Rightarrow> bool" where
  "owners_mailed db t \<longleftrightarrow> db_contract_mode db \<noteq> ''off'' \<and>
     list_ex (\<lambda>w. nw_workspace w = t \<and> nw_kind w = ''team'' \<and> nw_status w \<noteq> Some ''closed'') (db_named db)"

definition strand_gate :: "db \<Rightarrow> uuid \<Rightarrow> bool \<Rightarrow> bool" where
  "strand_gate db t strand_deleted \<longleftrightarrow> strand_deleted \<and> owners_mailed db t"

section \<open>The record of a stranding\<close>

definition ascii_lower :: "string \<Rightarrow> string" where
  "ascii_lower s = map lower_byte s"

definition readers :: "timestamp \<Rightarrow> db \<Rightarrow> uuid \<Rightarrow> uuid \<Rightarrow> user_row list" where
  "readers now db t d =
     (case device_of True db t d of None \<Rightarrow> []
      | Some v \<Rightarrow> sort_key (\<lambda>r. ascii_lower (us_email r)) (sort_key us_id
          (filter (\<lambda>r. (case member_of db t (us_id r) of None \<Rightarrow> False
              | Some m \<Rightarrow> mb_role m \<noteq> ''service'' \<and> us_role r \<noteq> ''service'' \<and> mb_status m = ''active''
                  \<and> us_status r = ''active'' \<and> tenant_active db t \<and> before now (mb_expires m)
                  \<and> can_read_flag db t d (us_id r) \<and> holds_key db t (us_id r) v))
            (db_users db))))"

text \<open>\<^verbatim>\<open>HintFromPN\<close>: the ellipsis and the last four digits of the user part.\<close>

definition user_part :: "string \<Rightarrow> string" where
  "user_part jid = takeWhile (\<lambda>c. c \<noteq> CHR '':'') (takeWhile (\<lambda>c. c \<noteq> CHR ''@'') jid)"

definition hint_from_pn :: "string \<Rightarrow> string option" where
  "hint_from_pn pn = (let ds = filter is_digit (user_part pn) in
     if length ds < 4 then None
     else Some (map char_of [226, 128, 166 :: nat] @ drop (length ds - 4) ds))"

definition sub_of :: "db \<Rightarrow> uuid \<Rightarrow> uuid option" where
  "sub_of db u = (case user_of db u of None \<Rightarrow> None | Some r \<Rightarrow> us_sub r)"

text \<open>A row with the dedupe key is the event already, and so is one with its id.\<close>

definition same_event :: "event_row \<Rightarrow> event_row \<Rightarrow> bool" where
  "same_event e f \<longleftrightarrow> ev_tenant f = ev_tenant e \<and> ev_dedupe f = ev_dedupe e \<or> ev_id f = ev_id e"

definition record_event :: "event_row \<Rightarrow> db \<Rightarrow> db" where
  "record_event e db = (if list_ex (same_event e) (db_events db) then db
     else db\<lparr>db_events := db_events db @ [e]\<rparr>)"

text \<open>The one unseen notice of a person, a number and a kind: a new one with the table's next id, or the row that
  is there, written over.\<close>

definition put_notice :: "notice_row \<Rightarrow> db \<Rightarrow> db" where
  "put_notice n db =
     (let same = (\<lambda>m. nt_tenant m = nt_tenant n \<and> nt_device m = nt_device n \<and> nt_user m = nt_user n
            \<and> nt_kind m = nt_kind n \<and> nt_seen m = None) in
      db\<lparr>db_notices := (if list_ex same (db_notices db)
          then map (\<lambda>m. if same m then n\<lparr>nt_id := nt_id m\<rparr> else m) (db_notices db)
          else db_notices db @ [n\<lparr>nt_id := db_notice_seq db\<rparr>]),
        db_notice_seq := db_notice_seq db + 1\<rparr>)"

definition strand_one :: "tx \<Rightarrow> uuid \<Rightarrow> uuid \<Rightarrow> uuid \<Rightarrow> string \<Rightarrow> number_ref \<Rightarrow> db \<Rightarrow> db" where
  "strand_one x t actor target cause n db =
     (let rs = readers (tx_now x) db t (nr_device n);
          label = tx_label x (nr_device n) (nr_label n) (nr_push n) (nr_pn n);
          hint = hint_from_pn (nr_pn n);
          owners = filter (\<lambda>m. mb_tenant m = t \<and> mb_role m = ''owner'' \<and> mb_status m = ''active''
            \<and> status_active db (mb_user m) \<and> mb_user m \<noteq> actor \<and> mb_user m \<noteq> target) (db_members db) in
      fold (\<lambda>m. put_notice \<lparr>nt_id = 0, nt_tenant = t, nt_device = nr_device n, nt_user = mb_user m,
          nt_kind = ''number_stranded'', nt_label = label, nt_hint = hint, nt_raised_at = tx_clock x, nt_last = None,
          nt_pauses = 1, nt_raised_by = Some actor, nt_raised_kind = ''person'', nt_several = False,
          nt_until = Some (nr_purge n), nt_resumed = None, nt_purged = None, nt_seen = None\<rparr>) owners
       (record_event \<lparr>ev_id = tx_event x (nr_device n), ev_tenant = t, ev_type = ''stranded'', ev_item = nr_device n,
          ev_dedupe = (''stranded'', nr_device n, Some target, tx_clock x), ev_occurred = tx_clock x,
          ev_actor_kind = ''person'', ev_actor_sub = sub_of db actor, ev_actor_user = Some actor,
          ev_reader_subs = List.map_filter us_sub rs, ev_reader_users = map us_id rs,
          ev_label = label, ev_hint = hint, ev_person = sub_of db target, ev_cause = Some cause,
          ev_deleted = None, ev_purge = None, ev_to = None, ev_ledgered = Some (tx_clock x), ev_replayed = None\<rparr> db))"

definition strand :: "tx \<Rightarrow> uuid \<Rightarrow> uuid \<Rightarrow> uuid \<Rightarrow> string \<Rightarrow> number_ref list \<Rightarrow> db \<Rightarrow> db" where
  "strand x t actor target cause numbers db = fold (strand_one x t actor target cause) numbers db"

section \<open>Ending connections\<close>

definition live_status :: "string \<Rightarrow> bool" where
  "live_status s \<longleftrightarrow> s = ''pending'' \<or> s = ''active'' \<or> s = ''reseal''"

text \<open>\<^verbatim>\<open>removeServiceAccountTx\<close>: the account is seen from its home workspace or through a membership.\<close>

definition remove_service_account :: "timestamp \<Rightarrow> uuid \<Rightarrow> uuid \<Rightarrow> db \<Rightarrow> access_error + db" where
  "remove_service_account now t service db =
     (case user_of db service of
        None \<Rightarrow> Inl InvalidMembership
      | Some r \<Rightarrow>
          if us_role r \<noteq> ''service'' \<or> \<not> (us_home r = t \<or> member_of db t service \<noteq> None) then Inl InvalidMembership
          else Inr (delete_member t service (\<lambda>m. mb_role m = ''service'')
            (delete_perms (\<lambda>p. pm_tenant p = t \<and> pm_user p = service)
            (delete_grants (\<lambda>g. gr_tenant g = t \<and> gr_user g = service)
            (revoke_keys now (\<lambda>k. ky_tenant k = t \<and> ky_acts k = Some service) db)))))"

definition min_time :: "timestamp option \<Rightarrow> timestamp \<Rightarrow> timestamp" where
  "min_time e now = (case e of None \<Rightarrow> now | Some d \<Rightarrow> min d now)"

definition end_row :: "timestamp \<Rightarrow> string \<Rightarrow> string \<Rightarrow> connection_row \<Rightarrow> connection_row" where
  "end_row now status reason c = c\<lparr>cn_status := status,
     cn_revoked := (if status = ''revoked'' then Some now else cn_revoked c), cn_reason := reason\<rparr>"

text \<open>\<^verbatim>\<open>endMCPConnectionTx\<close>: the connection's rows, then its service account. The flag is whether this call
  changed the row's status.\<close>

definition close_rows :: "timestamp \<Rightarrow> uuid \<Rightarrow> string \<Rightarrow> string \<Rightarrow> connection_row \<Rightarrow> db \<Rightarrow> db" where
  "close_rows now t status reason c db =
     (let i = cn_id c; live = live_status (cn_status c) in
      db\<lparr>db_connections := (if live then map (\<lambda>r. if cn_id r = i \<and> cn_tenant r = t then end_row now status reason r else r)
           (db_connections db) else db_connections db),
         db_revoke_links := (if live then filter (\<lambda>(j, w). \<not> (j = i \<and> w = t)) (db_revoke_links db) else db_revoke_links db),
         db_outbound := map (\<lambda>d. if ob_connection d = i \<and> ob_tenant d = t \<and> ob_status d = ''pending''
           then d\<lparr>ob_status := ''revoked'', ob_sealed := None, ob_decided := Some now\<rparr> else d) (db_outbound db),
         db_keys := map (\<lambda>k. if ky_id k = cn_key c \<and> ky_tenant k = t \<and> ky_revoked k = None
           then k\<lparr>ky_revoked := Some (if status = ''expired'' then min_time (ky_expires k) now else now)\<rparr> else k)
           (db_keys db)\<rparr>)"

definition end_connection :: "timestamp \<Rightarrow> uuid \<Rightarrow> uuid \<Rightarrow> string \<Rightarrow> string \<Rightarrow> db \<Rightarrow> access_error + (bool \<times> db)" where
  "end_connection now t i status reason db =
     (if status \<noteq> ''revoked'' \<and> status \<noteq> ''expired'' then Inl (BadEndStatus status)
      else case find (\<lambda>c. cn_id c = i \<and> cn_tenant c = t) (db_connections db) of
        None \<Rightarrow> Inl ConnectionNotFound
      | Some c \<Rightarrow>
         (let ended = live_status (cn_status c); db1 = close_rows now t status reason c db in
          case cn_service c of
            None \<Rightarrow> Inr (ended, db1)
          | Some s \<Rightarrow> if cn_kind c = ''content'' \<or> cn_kind c = ''ai''
              then and_then (remove_service_account now t s db1) (\<lambda>db2. Inr (ended, db2)) else Inr (ended, db1)))"

definition end_reason :: "bool \<Rightarrow> bool \<Rightarrow> string" where
  "end_reason as_service removed = (if as_service \<and> removed then ''service_removed''
     else if as_service then ''service_disabled'' else if removed then ''member_removed'' else ''member_disabled'')"

fun end_all :: "timestamp \<Rightarrow> uuid \<Rightarrow> bool \<Rightarrow> (uuid \<times> bool) list \<Rightarrow> db \<Rightarrow> access_error + db" where
  "end_all now t removed [] db = Inr db"
| "end_all now t removed ((i, as_service) # cs) db =
     and_then (end_connection now t i ''revoked'' (end_reason as_service removed) db)
       (\<lambda>(_, db'). end_all now t removed cs db')"

definition connections_of_member :: "db \<Rightarrow> uuid \<Rightarrow> uuid \<Rightarrow> (uuid \<times> bool) list" where
  "connections_of_member db t u =
     map (\<lambda>c. (cn_id c, cn_service c = Some u)) (sort_key cn_id (filter (\<lambda>c. cn_tenant c = t \<and> live_status (cn_status c)
        \<and> (cn_service c = Some u \<or> cn_creator c = u)) (db_connections db)))"

definition end_connections_of_member :: "timestamp \<Rightarrow> uuid \<Rightarrow> uuid \<Rightarrow> bool \<Rightarrow> db \<Rightarrow> access_error + db" where
  "end_connections_of_member now t u removed db = end_all now t removed (connections_of_member db t u) db"

section \<open>Members\<close>

definition valid_role :: "string \<Rightarrow> bool" where
  "valid_role r \<longleftrightarrow> r \<in> {''owner'', ''admin'', ''member'', ''service''}"

definition require_other_owner :: "db \<Rightarrow> uuid \<Rightarrow> uuid \<Rightarrow> access_error + unit" where
  "require_other_owner db t target = require (list_ex (\<lambda>m. mb_tenant m = t \<and> mb_user m \<noteq> target \<and> mb_role m = ''owner''
     \<and> mb_status m = ''active'' \<and> status_active db (mb_user m)) (db_members db)) LastOwner"

text \<open>What \<^verbatim>\<open>updateMember\<close> does once the target's row is read: the credentials go whenever the pair changes,
  and a disable takes the permissions, the grants and the keys too.\<close>

definition expire_made_invites :: "timestamp \<Rightarrow> uuid \<Rightarrow> uuid \<Rightarrow> db \<Rightarrow> db" where
  "expire_made_invites now t u db = db\<lparr>db_invites := map (\<lambda>i. if iv_tenant i = t \<and> iv_creator i = Some u \<and> iv_completed i = None
     then i\<lparr>iv_expires := now\<rparr> else i) (db_invites db)\<rparr>"

definition strip_access :: "timestamp \<Rightarrow> uuid \<Rightarrow> uuid \<Rightarrow> db \<Rightarrow> db" where
  "strip_access now t u db =
     revoke_keys now (\<lambda>k. ky_tenant k = t \<and> (ky_acts k = Some u \<or> ky_creator k = Some u))
      (delete_grants (\<lambda>g. gr_tenant g = t \<and> gr_user g = u)
      (delete_perms (\<lambda>p. pm_tenant p = t \<and> pm_user p = u) db))"

definition change_member :: "tx \<Rightarrow> uuid \<Rightarrow> uuid \<Rightarrow> string \<Rightarrow> string \<Rightarrow> db \<Rightarrow> access_error + db" where
  "change_member x t target role status db =
     and_then (set_member t target role status db) (\<lambda>db1.
       let db2 = expire_made_invites (tx_now x) t target
             (revoke_sessions (tx_now x) (\<lambda>s. ss_tenant s = Some t \<and> ss_user s = target) db1) in
       Inr (if status = ''disabled'' then strip_access (tx_now x) t target db2 else db2))"

definition lose_access :: "tx \<Rightarrow> uuid \<Rightarrow> uuid \<Rightarrow> uuid \<Rightarrow> string \<Rightarrow> bool \<Rightarrow> string \<Rightarrow> bool \<Rightarrow> db \<Rightarrow> access_error + db" where
  "lose_access x t actor target actor_role override cause removed db =
     and_then (strand_check db t target actor_role override) (\<lambda>stranded.
       end_connections_of_member (tx_now x) t target removed (strand x t actor target cause stranded db))"

definition update_member :: "tx \<Rightarrow> uuid \<Rightarrow> uuid \<Rightarrow> uuid \<Rightarrow> string \<Rightarrow> string \<Rightarrow> bool \<Rightarrow> db \<Rightarrow> access_error + db" where
  "update_member x t actor target role status strand_deleted db =
     (if \<not> valid_role role \<or> status \<noteq> ''active'' \<and> status \<noteq> ''disabled'' then Inl InvalidMembership
      else and_then (lock_workspace_manager db t actor) (\<lambda>actor_role.
        if strand_deleted \<and> actor_role \<noteq> ''owner'' then Inl OwnerOnly
        else case member_of db t target of None \<Rightarrow> Inl RowNotFound
        | Some m \<Rightarrow>
          if (mb_role m = ''service'') \<noteq> (role = ''service'') then Inl InvalidMembership
          else if actor_role \<noteq> ''owner'' \<and> (manager_role (mb_role m) \<or> manager_role role) then Inl MembershipForbidden
          else if mb_role m = role \<and> mb_status m = status then Inr db
          else and_then (if mb_role m = ''owner'' \<and> mb_status m = ''active'' \<and> (role \<noteq> ''owner'' \<or> status \<noteq> ''active'')
              then require_other_owner db t target else Inr ()) (\<lambda>_.
            and_then (if status = ''disabled''
              then lose_access x t actor target actor_role (strand_gate db t strand_deleted) ''disabled'' False db
              else Inr db) (change_member x t target role status))))"

text \<open>\<^verbatim>\<open>removeMember\<close>.\<close>

definition erase_member :: "tx \<Rightarrow> uuid \<Rightarrow> uuid \<Rightarrow> string \<Rightarrow> db \<Rightarrow> db" where
  "erase_member x t target email db =
     (let now = tx_now x;
          same = (\<lambda>h. hs_tenant h = t \<and> hs_user h = target);
          row = \<lparr>hs_tenant = t, hs_user = target, hs_email = email, hs_removed = now\<rparr>;
          db1 = db\<lparr>db_history := (if list_ex same (db_history db)
              then map (\<lambda>h. if same h then row else h) (db_history db) else db_history db @ [row])\<rparr>;
          db2 = revoke_sessions now (\<lambda>s. ss_tenant s = Some t \<and> ss_user s = target) db1;
          db3 = db2\<lparr>db_invites := map (\<lambda>i. if iv_tenant i = t \<and> (iv_creator i = Some target \<or> iv_email i = Some email)
              \<and> iv_completed i = None \<and> iv_revoked i = None then i\<lparr>iv_revoked := Some now\<rparr> else i) (db_invites db2)\<rparr>;
          db4 = revoke_keys now (\<lambda>k. ky_tenant k = t \<and> (ky_acts k = Some target \<or> ky_creator k = Some target)) db3 in
      delete_member t target (\<lambda>_. True) (delete_grants (\<lambda>g. gr_tenant g = t \<and> gr_user g = target) db4))"

definition remove_member :: "tx \<Rightarrow> uuid \<Rightarrow> uuid \<Rightarrow> uuid \<Rightarrow> bool \<Rightarrow> db \<Rightarrow> access_error + db" where
  "remove_member x t actor target strand_deleted db =
     and_then (lock_workspace_manager db t actor) (\<lambda>actor_role.
       if strand_deleted \<and> actor_role \<noteq> ''owner'' then Inl OwnerOnly
       else case (member_of db t target, user_of db target) of
         (Some m, Some r) \<Rightarrow>
           if actor_role \<noteq> ''owner'' \<and> manager_role (mb_role m) then Inl MembershipForbidden
           else and_then (if mb_role m = ''owner'' \<and> mb_status m = ''active'' then require_other_owner db t target else Inr ()) (\<lambda>_.
             and_then (lose_access x t actor target actor_role (strand_gate db t strand_deleted) ''revoked'' True db)
               (\<lambda>db'. Inr (erase_member x t target (us_email r) db')))
       | _ \<Rightarrow> Inl RowNotFound)"

section \<open>Permissions and grants\<close>

definition set_permission :: "uuid \<Rightarrow> uuid \<Rightarrow> device_permission \<Rightarrow> db \<Rightarrow> access_error + db" where
  "set_permission t actor p db =
     and_then (lock_workspace_manager db t actor) (\<lambda>_.
     and_then (require ((case member_of db t (dp_user p) of None \<Rightarrow> False | Some m \<Rightarrow> mb_status m = ''active'')
         \<and> device_of False db t (dp_device p) \<noteq> None) RowNotFound) (\<lambda>_.
     and_then (if dp_read p then Inr () else require_remaining_reader db t (dp_user p) (Some (dp_device p))) (\<lambda>_.
     and_then (put_perm \<lparr>pm_tenant = t, pm_device = dp_device p, pm_user = dp_user p, pm_read = dp_read p,
         pm_send = dp_send p, pm_manage = dp_manage p\<rparr> db) (\<lambda>db'.
       Inr (if dp_read p then db'
         else delete_grants (\<lambda>g. gr_tenant g = t \<and> gr_device g = dp_device p \<and> gr_user g = dp_user p) db')))))"

definition put_grant :: "timestamp \<Rightarrow> grant_row \<Rightarrow> db \<Rightarrow> access_error + db" where
  "put_grant now g db =
     and_then (require (gr_sealed g \<noteq> []) EmptyGrant) (\<lambda>_.
     and_then (lock_workspace_access db (gr_tenant g)) (\<lambda>_.
     and_then (require (case member_of db (gr_tenant g) (gr_user g) of None \<Rightarrow> False
         | Some m \<Rightarrow> mb_status m = ''active'' \<and> status_active db (gr_user g) \<and> before now (mb_expires m)) RowNotFound) (\<lambda>_.
       put_grant_row g db)))"

definition revoke_grant :: "uuid \<Rightarrow> uuid \<Rightarrow> uuid \<Rightarrow> db \<Rightarrow> access_error + db" where
  "revoke_grant t d u db =
     and_then (lock_workspace_access db t) (\<lambda>_.
     and_then (require_remaining_reader db t u (Some d)) (\<lambda>_.
       Inr (delete_grants (\<lambda>g. gr_tenant g = t \<and> gr_device g = d \<and> gr_user g = u) db)))"

definition revoke_connection :: "timestamp \<Rightarrow> uuid \<Rightarrow> uuid \<Rightarrow> uuid \<Rightarrow> db \<Rightarrow> access_error + db" where
  "revoke_connection now t actor i db =
     and_then (lock_workspace_manager db t actor) (\<lambda>_.
       if \<not> list_ex (\<lambda>c. cn_id c = i \<and> cn_tenant c = t) (db_connections db) then Inl ConnectionNotFound
       else and_then (end_connection now t i ''revoked'' ''console'' db) (\<lambda>(_, db'). Inr db'))"

section \<open>Steps\<close>

text \<open>The changes of a workspace's access, each committed or refused as a whole.\<close>

datatype access_op =
    UpdateMember uuid uuid uuid string string bool
  | RemoveMember uuid uuid uuid bool
  | SetDevicePermission uuid uuid device_permission
  | PutGrant grant_row
  | RevokeGrant uuid uuid uuid
  | RevokeConnection uuid uuid uuid
  | RevokeKey uuid string
  | ExtendKey uuid uuid timestamp
  | IssueKey uuid issue_request uuid string string string

fun run_op :: "tx \<Rightarrow> access_op \<Rightarrow> db \<Rightarrow> access_error + db" where
  "run_op x (UpdateMember t a u role status s) db = update_member x t a u role status s db"
| "run_op x (RemoveMember t a u s) db = remove_member x t a u s db"
| "run_op x (SetDevicePermission t a p) db = set_permission t a p db"
| "run_op x (PutGrant g) db = put_grant (tx_now x) g db"
| "run_op x (RevokeGrant t d u) db = revoke_grant t d u db"
| "run_op x (RevokeConnection t a i) db = revoke_connection (tx_now x) t a i db"
| "run_op x (RevokeKey t p) db = revoke_key (tx_now x) db t p"
| "run_op x (ExtendKey k t e) db = extend_key db k t e"
| "run_op x (IssueKey t q i p s h) db = and_then (issue_key (tx_clock x) (tx_now x) db t q i p s h) (\<lambda>(_, db'). Inr db')"

inductive access_steps :: "db \<Rightarrow> db \<Rightarrow> bool" where
  none: "access_steps db db"
| step: "access_steps db db' \<Longrightarrow> run_op x op db' = Inr db'' \<Longrightarrow> access_steps db db''"

end
