(* ===== verification/Access_Frame.thy ===== *)
theory Access_Frame
  imports Access_Members
begin

text \<open>
  What each statement and each operation of the access code leaves alone: the tables no operation writes,
  the rows of other members, and the primary keys.
\<close>

section \<open>Tables no operation writes\<close>

definition same_base :: "db \<Rightarrow> db \<Rightarrow> bool" where
  "same_base db db' \<longleftrightarrow> db_tenants db' = db_tenants db \<and> db_users db' = db_users db \<and> db_devices db' = db_devices db
     \<and> db_archive_keys db' = db_archive_keys db \<and> db_chats db' = db_chats db \<and> db_messages db' = db_messages db
     \<and> db_media db' = db_media db \<and> db_archive db' = db_archive db \<and> db_objects db' = db_objects db
     \<and> db_capacity db' = db_capacity db \<and> db_transfers db' = db_transfers db
     \<and> db_wa_sessions db' = db_wa_sessions db \<and> db_wa_tokens db' = db_wa_tokens db
     \<and> map (\<lambda>c. (cn_id c, cn_tenant c, cn_service c)) (db_connections db')
         = map (\<lambda>c. (cn_id c, cn_tenant c, cn_service c)) (db_connections db)"

named_theorems frame \<open>one statement or operation keeps the tables no operation writes\<close>

lemma same_base_refl [frame]: "same_base db db"
  by (simp add: same_base_def)

lemma same_base_trans: "same_base a b \<Longrightarrow> same_base b c \<Longrightarrow> same_base a c"
  by (simp add: same_base_def)

lemma named_in: "named_by_connection db u \<longleftrightarrow> Some u \<in> set (map cn_service (db_connections db))"
proof -
  have "list_ex (\<lambda>c. cn_service c = Some u) cs \<longleftrightarrow> Some u \<in> set (map cn_service cs)" for cs
    by (induction cs) auto
  then show ?thesis by (simp add: named_by_connection_def)
qed

lemma same_base_reads:
  assumes "same_base db db'"
  shows "tenant_of db' t = tenant_of db t" "user_of db' u = user_of db u" "device_of q db' t d = device_of q db t d"
    "status_active db' u = status_active db u" "tenant_active db' t = tenant_active db t"
    "named_by_connection db' u = named_by_connection db u" "keeps_keys db' u = keeps_keys db u"
    "unretired db' t d e = unretired db t d e"
proof -
  have "map (snd \<circ> snd) (map (\<lambda>c. (cn_id c, cn_tenant c, cn_service c)) (db_connections db'))
      = map (snd \<circ> snd) (map (\<lambda>c. (cn_id c, cn_tenant c, cn_service c)) (db_connections db))"
    using assms by (simp only: same_base_def)
  then have "map cn_service (db_connections db') = map cn_service (db_connections db)"
    by (simp add: comp_def)
  then show "named_by_connection db' u = named_by_connection db u"
    by (simp add: named_in)
qed (use assms in \<open>simp_all add: same_base_def tenant_of_def user_of_def device_of_def status_active_def
    tenant_active_def keeps_keys_def unretired_def\<close>)

lemma base_writes [frame]:
  "same_base db (delete_grants P db)" "same_base db (delete_perms Q db)" "same_base db (revoke_keys now R db)"
  "same_base db (revoke_sessions now S db)" "same_base db (delete_member t u M db)"
  "same_base db (expire_made_invites now t u db)" "same_base db (record_event e db)" "same_base db (put_notice n db)"
  by (simp_all add: same_base_def delete_grants_def delete_perms_def revoke_keys_def revoke_sessions_def
      delete_member_def expire_made_invites_def record_event_def put_notice_def Let_def)

lemma base_strip [frame]: "same_base db (strip_access now t u db)"
  unfolding strip_access_def by (meson base_writes same_base_trans)

lemma base_fold: "(\<And>x db. same_base db (f x db)) \<Longrightarrow> same_base db (fold f xs db)"
  by (induction xs arbitrary: db) (auto intro: same_base_trans frame)

lemma base_strand [frame]: "same_base db (strand x t actor target cause ns db)"
proof -
  have "same_base db (strand_one x t actor target cause n db)" for n db
    unfolding strand_one_def Let_def
    by (rule same_base_trans [OF base_writes(7) base_fold]) (simp add: frame)
  then show ?thesis unfolding strand_def by (rule base_fold)
qed

lemma base_results [frame]:
  "set_member t u r st db = Inr db' \<Longrightarrow> same_base db db'"
  "put_perm p db = Inr db' \<Longrightarrow> same_base db db'"
  "put_grant_row g db = Inr db' \<Longrightarrow> same_base db db'"
  by (auto simp: same_base_def set_member_def put_perm_def put_grant_row_def Let_def split: option.splits)

text \<open>A service account's removal is four statements.\<close>

lemma remove_service_cases [consumes 1, case_names removed]:
  assumes "remove_service_account now t s db = Inr db'"
  obtains r where "user_of db s = Some r" "us_role r = ''service''"
    "db' = delete_member t s (\<lambda>m. mb_role m = ''service'')
        (delete_perms (\<lambda>p. pm_tenant p = t \<and> pm_user p = s)
        (delete_grants (\<lambda>g. gr_tenant g = t \<and> gr_user g = s)
        (revoke_keys now (\<lambda>k. ky_tenant k = t \<and> ky_acts k = Some s) db)))"
  using assms unfolding remove_service_account_def
  by (cases "user_of db s") (auto split: if_splits)

lemma base_remove_service [frame]:
  assumes "remove_service_account now t s db = Inr db'"
  shows "same_base db db'"
  using assms by (cases rule: remove_service_cases) (meson base_writes same_base_trans)

section \<open>Relations every statement satisfies\<close>

text \<open>A write is quiet when it leaves members, permissions and grants alone and at most revokes keys.\<close>

definition key_revoked :: "key_row \<Rightarrow> key_row \<Rightarrow> bool" where
  "key_revoked k k' \<longleftrightarrow> k' = k \<or> ky_revoked k = None \<and> (\<exists>r. k' = k\<lparr>ky_revoked := Some r\<rparr>)"

text \<open>A connection that ends, and the waiting drafts it takes along.\<close>

definition connection_ended :: "connection_row \<Rightarrow> connection_row \<Rightarrow> bool" where
  "connection_ended c c' \<longleftrightarrow> c' = c \<or> (\<exists>now status reason. (status = ''revoked'' \<or> status = ''expired'')
     \<and> c' = end_row now status reason c)"

definition draft_revoked :: "outbound_row \<Rightarrow> outbound_row \<Rightarrow> bool" where
  "draft_revoked d d' \<longleftrightarrow> d' = d \<or> ob_status d = ''pending'' \<and>
     (\<exists>now. d' = d\<lparr>ob_status := ''revoked'', ob_sealed := None, ob_decided := Some now\<rparr>)"

text \<open>The only events the access code writes are strandings, each with an id of its own.\<close>

definition stranding :: "event_row \<Rightarrow> bool" where
  "stranding e \<longleftrightarrow> ev_type e = ''stranded'' \<and> fst (ev_dedupe e) = ''stranded'' \<and> ev_ledgered e \<noteq> None"

definition strandings :: "event_row list \<Rightarrow> event_row list \<Rightarrow> bool" where
  "strandings es es' \<longleftrightarrow> (\<exists>new. es' = es @ new \<and> list_all stranding new)
     \<and> (distinct (map ev_id es) \<longrightarrow> distinct (map ev_id es'))"

lemma strandings_refl [simp]: "strandings es es"
  by (simp add: strandings_def)

lemma strandings_trans: "strandings a b \<Longrightarrow> strandings b c \<Longrightarrow> strandings a c"
  by (auto simp: strandings_def)

lemma strandings_record: "stranding e \<Longrightarrow> strandings (db_events db) (db_events (record_event e db))"
  by (auto simp: strandings_def record_event_def list_ex_iff same_event_def image_iff)

definition quiet :: "db \<Rightarrow> db \<Rightarrow> bool" where
  "quiet db db' \<longleftrightarrow> same_base db db' \<and> strandings (db_events db) (db_events db') \<and> db_members db' = db_members db \<and> db_perms db' = db_perms db
     \<and> db_grants db' = db_grants db \<and> db_key_devices db' = db_key_devices db
     \<and> list_all2 connection_ended (db_connections db) (db_connections db')
     \<and> list_all2 draft_revoked (db_outbound db) (db_outbound db') \<and> list_all2 key_revoked (db_keys db) (db_keys db')"

lemma keys_refl [simp]: "list_all2 key_revoked ks ks"
  by (simp add: list.rel_refl key_revoked_def)

lemma sending_refl [simp]: "list_all2 connection_ended cs cs" "list_all2 draft_revoked ds ds"
  by (simp_all add: list.rel_refl connection_ended_def draft_revoked_def)

lemma row_ended:
  "connection_ended c c"
  "status = ''revoked'' \<or> status = ''expired'' \<Longrightarrow> connection_ended c (end_row now status reason c)"
  unfolding connection_ended_def by blast+

lemma keys_map:
  "(\<And>k. k \<in> set ks \<Longrightarrow> key_revoked k (f k)) \<Longrightarrow> list_all2 key_revoked ks (map f ks)"
  by (induction ks) auto

lemma quiet_revoke: "quiet db (revoke_keys now P db)"
  by (auto simp: quiet_def base_writes) (auto simp: revoke_keys_def key_revoked_def intro!: keys_map)

lemma quiet_simple:
  "quiet db (revoke_sessions now S db)" "quiet db (expire_made_invites now t u db)"
  "stranding e \<Longrightarrow> quiet db (record_event e db)" "quiet db (put_notice n db)"
  by (auto simp: quiet_def base_writes strandings_record) (simp_all add: revoke_sessions_def expire_made_invites_def
      record_event_def put_notice_def Let_def)

text \<open>A reflexive and transitive relation that every quiet write satisfies, and the removal of a
  connection's service account, holds across a stranding's record and the ending of connections.\<close>

locale connection_writes =
  fixes R :: "db \<Rightarrow> db \<Rightarrow> bool"
  assumes R_refl: "R db db"
    and R_trans: "R a b \<Longrightarrow> R b c \<Longrightarrow> R a c"
    and R_quiet: "quiet db db' \<Longrightarrow> R db db'"
    and R_service: "remove_service_account now t s db = Inr db' \<Longrightarrow> named_by_connection db s \<Longrightarrow> R db db'"
begin

lemma R_fold: "(\<And>x db. R db (f x db)) \<Longrightarrow> R db (fold f xs db)"
  by (induction xs arbitrary: db) (auto intro: R_trans R_refl)

lemma R_strand: "R db (strand x t actor target cause ns db)"
proof -
  have "R db (strand_one x t actor target cause n db)" for n db
    unfolding strand_one_def Let_def
    by (rule R_trans [OF R_quiet [OF quiet_simple(3)] R_fold]) (simp add: stranding_def, rule R_quiet [OF quiet_simple(4)])
  then show ?thesis unfolding strand_def by (rule R_fold)
qed

end

text \<open>\<^verbatim>\<open>endMCPConnectionTx\<close> is a quiet write, and for a content or AI connection its service account's removal.\<close>

lemma rel_map: "(\<And>x. x \<in> set xs \<Longrightarrow> R x (f x)) \<Longrightarrow> list_all2 R xs (map f xs)"
  by (induction xs) auto

lemma quiet_close:
  assumes "status = ''revoked'' \<or> status = ''expired''"
  shows "quiet db (close_rows now t status reason c db)"
proof -
  have "same_base db (close_rows now t status reason c db)"
    by (simp add: same_base_def close_rows_def Let_def end_row_def)
  moreover have "list_all2 connection_ended (db_connections db) (db_connections (close_rows now t status reason c db))"
    using assms by (auto simp: close_rows_def Let_def intro!: rel_map row_ended)
  moreover have "list_all2 draft_revoked (db_outbound db) (db_outbound (close_rows now t status reason c db))"
    by (auto simp: close_rows_def Let_def draft_revoked_def intro!: rel_map)
  moreover have "list_all2 key_revoked (db_keys db) (db_keys (close_rows now t status reason c db))"
    by (auto simp: close_rows_def Let_def key_revoked_def intro!: rel_map)
  ultimately show ?thesis by (simp add: quiet_def close_rows_def Let_def)
qed

lemma end_connection_cases [consumes 1, case_names rows service]:
  assumes "end_connection now t i status reason db = Inr (b, db')"
  obtains c where "status = ''revoked'' \<or> status = ''expired''"
      "find (\<lambda>c. cn_id c = i \<and> cn_tenant c = t) (db_connections db) = Some c"
      "db' = close_rows now t status reason c db"
  | c s where "status = ''revoked'' \<or> status = ''expired''"
      "find (\<lambda>c. cn_id c = i \<and> cn_tenant c = t) (db_connections db) = Some c" "cn_service c = Some s"
      "remove_service_account now t s (close_rows now t status reason c db) = Inr db'"
  using assms by (auto simp: end_connection_def Let_def split: option.splits if_splits)

lemma find_in: "find P xs = Some x \<Longrightarrow> x \<in> set xs \<and> P x"
  by (induction xs) (auto split: if_splits)

context connection_writes
begin

lemma R_end_connection:
  assumes "end_connection now t i status reason db = Inr (b, db')"
  shows "R db db'"
  using assms
proof (cases rule: end_connection_cases)
  case (rows c)
  then show ?thesis using R_quiet [OF quiet_close [OF rows(1)]] by simp
next
  case (service c s)
  let ?db1 = "close_rows now t status reason c db"
  from find_in [OF service(2)] service(3) have "named_by_connection db s"
    by (simp add: named_in) (metis image_eqI)
  then have "named_by_connection ?db1 s"
    using same_base_reads(6) [of db ?db1] quiet_close [OF service(1), of db now t reason c] by (simp add: quiet_def)
  with service(4) have "R ?db1 db'" by (rule R_service)
  then show ?thesis using R_trans [OF R_quiet [OF quiet_close [OF service(1)]]] by blast
qed

lemma R_end_all: "end_all now t removed cs db = Inr db' \<Longrightarrow> R db db'"
  by (induction now t removed cs db rule: end_all.induct) (auto intro: R_refl R_trans dest: R_end_connection)

lemma R_lose_access:
  "lose_access x t actor target role override cause removed db = Inr db' \<Longrightarrow> R db db'"
  by (auto simp: lose_access_def end_connections_of_member_def intro: R_trans [OF R_strand R_end_all])

end

text \<open>A relation that every statement satisfies holds across every operation.\<close>

locale access_statements =
  fixes R :: "db \<Rightarrow> db \<Rightarrow> bool"
  assumes S_refl: "R db db"
    and S_trans: "R a b \<Longrightarrow> R b c \<Longrightarrow> R a c"
    and S_quiet: "quiet db db' \<Longrightarrow> R db db'"
    and S_grants: "R db (delete_grants P db)"
    and S_perms: "R db (delete_perms Q db)"
    and S_member: "R db (delete_member t u M db)"
    and S_set: "set_member t u role status db = Inr db' \<Longrightarrow> R db db'"
    and S_perm: "put_perm p db = Inr db' \<Longrightarrow> R db db'"
    and S_grant: "put_grant_row g db = Inr db' \<Longrightarrow> R db db'"
    and S_extend: "extend_key db k t til = Inr db' \<Longrightarrow> R db db'"
    and S_issue: "issue_key clock now db t q k pfx secret hash = Inr (tok, db') \<Longrightarrow> R db db'"
begin

lemma S_service:
  assumes "remove_service_account now t s db = Inr db'"
  shows "R db db'"
  using assms by (cases rule: remove_service_cases)
    (simp add: S_trans [OF S_trans [OF S_trans [OF S_quiet [OF quiet_revoke] S_grants] S_perms] S_member])

end

sublocale access_statements \<subseteq> connection_writes
  by unfold_locales (auto intro: S_refl S_trans S_quiet S_service)

context access_statements
begin

lemma S_strip: "R db (strip_access now t u db)"
  unfolding strip_access_def
  by (rule S_trans [OF S_perms S_trans [OF S_grants S_quiet [OF quiet_revoke]]])

lemma S_change: "change_member x t u role status db = Inr db' \<Longrightarrow> R db db'"
  by (auto simp: change_member_def Let_def split: if_splits
      intro: S_trans [OF S_set S_trans [OF S_quiet [OF quiet_simple(1)] S_quiet [OF quiet_simple(2)]]]
        S_trans [OF S_set S_trans [OF S_quiet [OF quiet_simple(1)] S_trans [OF S_quiet [OF quiet_simple(2)] S_strip]]])

lemma S_update: "update_member x t a u role status s db = Inr db' \<Longrightarrow> R db db'"
  unfolding update_member_def
  by (auto split: if_splits option.splits intro: S_refl S_change S_trans [OF R_lose_access S_change])

lemma quiet_history: "quiet db (db\<lparr>db_history := h, db_invites := i\<rparr>)"
  by (simp add: quiet_def same_base_def)

lemma S_erase: "R db (erase_member x t u email db)"
  unfolding erase_member_def Let_def
  by (rule S_trans [OF _ S_member], rule S_trans [OF _ S_grants], rule S_trans [OF _ S_quiet [OF quiet_revoke]])
    (auto simp: quiet_def same_base_def revoke_sessions_def intro!: S_quiet)

lemma S_remove: "remove_member x t a u s db = Inr db' \<Longrightarrow> R db db'"
  unfolding remove_member_def
  by (auto split: if_splits option.splits intro: S_trans [OF R_lose_access S_erase])

lemma S_set_permission: "set_permission t a p db = Inr db' \<Longrightarrow> R db db'"
  unfolding set_permission_def
  by (auto split: if_splits intro: S_perm S_trans [OF S_perm S_grants])

lemma S_run_op: "run_op x op db = Inr db' \<Longrightarrow> R db db'"
  by (cases op) (auto simp: put_grant_def revoke_grant_def revoke_connection_def revoke_key_def
      split: if_splits intro: S_update S_remove S_set_permission S_grant S_grants R_end_connection
        S_quiet [OF quiet_revoke] S_extend S_issue)

lemma S_steps: "access_steps db db' \<Longrightarrow> R db db'"
  by (induction rule: access_steps.induct) (auto intro: S_refl S_trans S_run_op)

end

end
