(* ===== verification/Access_Facts.thy ===== *)
theory Access_Facts
  imports Access_Frame
begin

text \<open>
  What holds of the access tables across every operation: primary keys, keys that only ever lose power, and
  the access version that tells an open connection its rights may have shrunk. Each is a relation that the
  statements satisfy one by one, lifted to operations and runs by \<open>access_statements\<close>.
\<close>

section \<open>Finding a row by its key\<close>

lemma find_map: "(\<And>x. P (f x) = P x) \<Longrightarrow> find P (map f xs) = map_option f (find P xs)"
  by (induction xs) auto

lemma find_append: "find P (xs @ ys) = (case find P xs of None \<Rightarrow> find P ys | Some x \<Rightarrow> Some x)"
  by (induction xs) auto

lemma find_filter: "(\<And>x. P x \<Longrightarrow> Q x) \<Longrightarrow> find P (filter Q xs) = find P xs"
  by (induction xs) auto

lemma find_filter_Some: "find P xs = Some x \<Longrightarrow> Q x \<Longrightarrow> find P (filter Q xs) = Some x"
  by (induction xs) (auto split: if_splits)

lemma find_key_eq:
  assumes "distinct (map key xs)" "x \<in> set xs" "\<And>y. P y \<longleftrightarrow> key y = key x"
  shows "find P xs = Some x"
  using assms by (induction xs) (auto simp: image_iff)

lemma bump_keys [simp]: "map (\<lambda>m. (mb_tenant m, mb_user m)) (bump n ms) = map (\<lambda>m. (mb_tenant m, mb_user m)) ms"
  by (simp add: bump_def)

lemma member_bump:
  "find (\<lambda>m. mb_tenant m = t \<and> mb_user m = u) (bump n ms)
   = map_option (\<lambda>m. m\<lparr>mb_version := mb_version m + int (n t u)\<rparr>) (find (\<lambda>m. mb_tenant m = t \<and> mb_user m = u) ms)"
  by (induction ms) (auto simp: bump_def)

section \<open>Primary keys\<close>

definition keyed :: "db \<Rightarrow> bool" where
  "keyed db \<longleftrightarrow> distinct (map (\<lambda>m. (mb_tenant m, mb_user m)) (db_members db))
     \<and> distinct (map (\<lambda>p. (pm_tenant p, pm_device p, pm_user p)) (db_perms db))
     \<and> distinct (map (\<lambda>g. (gr_user g, gr_device g, gr_epoch g)) (db_grants db))
     \<and> distinct (map ky_id (db_keys db)) \<and> distinct (map ky_prefix (db_keys db))
     \<and> distinct (map dv_id (db_devices db)) \<and> distinct (map cn_id (db_connections db))"

lemma base_connection_ids: "same_base db db' \<Longrightarrow> map cn_id (db_connections db') = map cn_id (db_connections db)"
proof -
  assume "same_base db db'"
  then have "map fst (map (\<lambda>c. (cn_id c, cn_tenant c, cn_service c)) (db_connections db'))
      = map fst (map (\<lambda>c. (cn_id c, cn_tenant c, cn_service c)) (db_connections db))"
    by (simp only: same_base_def)
  then show ?thesis by (simp add: comp_def)
qed

lemma distinct_map_filter: "distinct (map f xs) \<Longrightarrow> distinct (map f (filter P xs))"
  by (induction xs) auto

lemma distinct_same: "(\<And>x. f (g x) = f x) \<Longrightarrow> distinct (map f (map g xs)) = distinct (map f xs)"
  by (simp add: comp_def)

lemma find_none_key:
  "find P xs = None \<Longrightarrow> (\<And>x. key x = key y \<Longrightarrow> P x) \<Longrightarrow> key y \<notin> set (map key xs)"
  by (auto simp: find_None_iff)

lemma quiet_key_columns:
  assumes "list_all2 key_revoked ks ks'" "\<And>k r. f (k\<lparr>ky_revoked := Some r\<rparr>) = f k"
  shows "map f ks' = map f ks"
  using assms(1) by induction (auto simp: key_revoked_def assms(2))

lemma keyed_statements:
  "quiet db db' \<Longrightarrow> keyed db \<Longrightarrow> keyed db'"
  "keyed db \<Longrightarrow> keyed (delete_grants P db)"
  "keyed db \<Longrightarrow> keyed (delete_perms Q db)"
  "keyed db \<Longrightarrow> keyed (delete_member t u M db)"
proof -
  assume q: "quiet db db'" and k: "keyed db"
  have "map ky_id (db_keys db') = map ky_id (db_keys db)" "map ky_prefix (db_keys db') = map ky_prefix (db_keys db)"
    using q by (auto simp: quiet_def intro!: quiet_key_columns)
  moreover have "map cn_id (db_connections db') = map cn_id (db_connections db)"
    using q by (auto simp: quiet_def intro: base_connection_ids)
  ultimately show "keyed db'" using q k by (simp add: keyed_def quiet_def same_base_def)
qed (simp_all add: keyed_def delete_grants_def delete_perms_def delete_member_def distinct_map_filter)

lemma keyed_set:
  assumes "set_member t u role status db = Inr db'" "keyed db"
  shows "keyed db'"
proof -
  let ?f = "\<lambda>m. if mb_tenant m = t \<and> mb_user m = u
     then m\<lparr>mb_role := role, mb_status := status, mb_version := mb_version m + 1\<rparr> else m"
  have "distinct (map (\<lambda>m. (mb_tenant m, mb_user m)) (map ?f (db_members db))) = distinct (map (\<lambda>m. (mb_tenant m, mb_user m)) (db_members db))"
    by (rule distinct_same) simp
  moreover have "db' = db\<lparr>db_members := map ?f (db_members db)\<rparr>"
    using assms(1) by (auto simp: set_member_def Let_def)
  ultimately show ?thesis using assms(2) by (simp add: keyed_def del: map_map)
qed

lemma keyed_perm:
  assumes "put_perm p db = Inr db'" "keyed db"
  shows "keyed db'"
proof (cases "perm_of db (pm_tenant p) (pm_device p) (pm_user p)")
  case None
  from find_none_key [OF None [unfolded perm_of_def], of "\<lambda>p. (pm_tenant p, pm_device p, pm_user p)" p]
  show ?thesis using assms None by (auto simp: put_perm_def keyed_def)
next
  case (Some q)
  let ?f = "\<lambda>q. if pm_tenant q = pm_tenant p \<and> pm_device q = pm_device p \<and> pm_user q = pm_user p then p else q"
  have "distinct (map (\<lambda>p. (pm_tenant p, pm_device p, pm_user p)) (map ?f (db_perms db))) = distinct (map (\<lambda>p. (pm_tenant p, pm_device p, pm_user p)) (db_perms db))"
    by (rule distinct_same) simp
  moreover have "db' = db\<lparr>db_perms := map ?f (db_perms db),
      db_members := bump (\<lambda>t u. if t = pm_tenant p \<and> u = pm_user p then 1 else 0) (db_members db)\<rparr>"
    using assms(1) Some by (auto simp: put_perm_def)
  ultimately show ?thesis using assms(2) by (simp add: keyed_def del: map_map)
qed

lemma keyed_grant:
  assumes "put_grant_row g db = Inr db'" "keyed db"
  shows "keyed db'"
proof (cases "find (\<lambda>h. gr_user h = gr_user g \<and> gr_device h = gr_device g \<and> gr_epoch h = gr_epoch g) (db_grants db)")
  case None
  note 1 = find_none_key [OF None, of "\<lambda>g. (gr_user g, gr_device g, gr_epoch g)" g]
  show ?thesis
  proof (cases "perm_of db (gr_tenant g) (gr_device g) (gr_user g)")
    case None
    from find_none_key [OF None [unfolded perm_of_def], of "\<lambda>p. (pm_tenant p, pm_device p, pm_user p)"
        "\<lparr>pm_tenant = gr_tenant g, pm_device = gr_device g, pm_user = gr_user g, pm_read = True, pm_send = True, pm_manage = False\<rparr>"]
    show ?thesis using assms 1 \<open>find _ _ = None\<close> None by (auto simp: put_grant_row_def keyed_def)
  qed (use assms 1 None in \<open>auto simp: put_grant_row_def keyed_def\<close>)
next
  case (Some h)
  let ?f = "\<lambda>h. if gr_user h = gr_user g \<and> gr_device h = gr_device g \<and> gr_epoch h = gr_epoch g
     then h\<lparr>gr_sealed := gr_sealed g\<rparr> else h"
  have "distinct (map (\<lambda>g. (gr_user g, gr_device g, gr_epoch g)) (map ?f (db_grants db))) = distinct (map (\<lambda>g. (gr_user g, gr_device g, gr_epoch g)) (db_grants db))"
    by (rule distinct_same) simp
  moreover have "db' = db\<lparr>db_grants := map ?f (db_grants db)\<rparr>"
    using assms(1) Some by (auto simp: put_grant_row_def split: if_splits)
  ultimately show ?thesis using assms(2) by (simp add: keyed_def del: map_map)
qed

lemma keyed_extend:
  assumes "extend_key db k t til = Inr db'" "keyed db"
  shows "keyed db'"
proof -
  obtain P where db': "db' = db\<lparr>db_keys := map (\<lambda>r. if P r then r\<lparr>ky_expires := Some til\<rparr> else r) (db_keys db)\<rparr>"
    using assms(1) by (auto simp: extend_key_def Let_def split: if_splits)
  let ?f = "\<lambda>r. if P r then r\<lparr>ky_expires := Some til\<rparr> else r"
  have "distinct (map ky_id (map ?f (db_keys db))) = distinct (map ky_id (db_keys db))"
    "distinct (map ky_prefix (map ?f (db_keys db))) = distinct (map ky_prefix (db_keys db))"
    by (rule distinct_same; simp)+
  with assms(2) db' show ?thesis by (simp add: keyed_def del: map_map)
qed

lemma keyed_issue:
  "issue_key clock now db t q i pfx secret hash = Inr (tok, db') \<Longrightarrow> keyed db \<Longrightarrow> keyed db'"
  by (auto simp: issue_key_def keyed_def Let_def list_ex_iff)

interpretation key_shape: access_statements "\<lambda>db db'. keyed db \<longrightarrow> keyed db'"
  by unfold_locales (auto intro: keyed_statements keyed_set keyed_perm keyed_grant keyed_extend keyed_issue)

interpretation base: access_statements same_base
proof unfold_locales
  show "extend_key db k t til = Inr db' \<Longrightarrow> same_base db db'" for db k t til db'
    by (auto simp: extend_key_def same_base_def Let_def split: if_splits)
  show "issue_key clock now db t q k pfx secret hash = Inr (tok, db') \<Longrightarrow> same_base db db'"
    for clock now db t q k pfx secret hash tok db'
    by (auto simp: issue_key_def same_base_def Let_def)
qed (auto intro: frame same_base_trans simp: quiet_def)

section \<open>Keys only lose power\<close>

text \<open>A key row keeps what it was issued with. Once revoked it never changes again; its deadline is never
  taken away or brought forward; the devices of an existing key never change.\<close>

definition key_ages :: "key_row \<Rightarrow> key_row \<Rightarrow> bool" where
  "key_ages k k' \<longleftrightarrow> (ky_id k', ky_tenant k', ky_prefix k', ky_hash k', ky_creator k', ky_scope k', ky_acts k', ky_restricted k')
       = (ky_id k, ky_tenant k, ky_prefix k, ky_hash k, ky_creator k, ky_scope k, ky_acts k, ky_restricted k)
     \<and> (ky_revoked k \<noteq> None \<longrightarrow> k' = k)
     \<and> (case ky_expires k of None \<Rightarrow> ky_expires k' = None | Some e \<Rightarrow> \<exists>e' \<ge> e. ky_expires k' = Some e')"

definition keys_age :: "db \<Rightarrow> db \<Rightarrow> bool" where
  "keys_age db db' \<longleftrightarrow> (\<exists>ks new. db_keys db' = ks @ new \<and> list_all2 key_ages (db_keys db) ks)
     \<and> (\<forall>k \<in> set (db_keys db). \<forall>d. (ky_id k, d) \<in> set (db_key_devices db') \<longleftrightarrow> (ky_id k, d) \<in> set (db_key_devices db))"

lemma key_ages_refl [simp]: "key_ages k k"
  by (simp add: key_ages_def split: option.splits)

lemma key_ages_trans: "key_ages a b \<Longrightarrow> key_ages b c \<Longrightarrow> key_ages a c"
  by (fastforce simp: key_ages_def split: option.splits)

lemma key_ages_revoked: "key_revoked k k' \<Longrightarrow> key_ages k k'"
  by (auto simp: key_revoked_def key_ages_def split: option.splits)

lemma keys_age_same: "list_all2 key_ages (db_keys db) (db_keys db') \<Longrightarrow> db_key_devices db' = db_key_devices db \<Longrightarrow> keys_age db db'"
  unfolding keys_age_def by (metis append_Nil2)

lemma keys_age_refl [simp]: "keys_age db db"
  by (simp add: keys_age_same list.rel_refl)

lemma keys_age_trans:
  assumes "keys_age a b" "keys_age b c"
  shows "keys_age a c"
proof -
  obtain ks new where ab: "db_keys b = ks @ new" "list_all2 key_ages (db_keys a) ks"
    using assms(1) by (auto simp: keys_age_def)
  obtain ls new' where bc: "db_keys c = ls @ new'" "list_all2 key_ages (db_keys b) ls"
    using assms(2) by (auto simp: keys_age_def)
  then obtain l1 l2 where l: "ls = l1 @ l2" "list_all2 key_ages ks l1"
    using ab(1) by (auto simp: list_all2_append1)
  have "list_all2 key_ages (db_keys a) l1"
    using list_all2_trans [of key_ages key_ages key_ages] key_ages_trans ab(2) l(2) by blast
  moreover have "(ky_id k, d) \<in> set (db_key_devices c) \<longleftrightarrow> (ky_id k, d) \<in> set (db_key_devices a)"
    if k: "k \<in> set (db_keys a)" for k d
  proof -
    obtain k' where "k' \<in> set ks" "ky_id k' = ky_id k"
      using ab(2) k by (auto simp: list_all2_conv_all_nth in_set_conv_nth key_ages_def) blast
    then have "k' \<in> set (db_keys b)" "ky_id k' = ky_id k" using ab(1) by auto
    then show ?thesis using assms k by (metis keys_age_def)
  qed
  ultimately show ?thesis using bc(1) l(1) by (auto simp: keys_age_def)
qed

lemma keys_age_quiet: "quiet db db' \<Longrightarrow> keys_age db db'"
  by (auto simp: quiet_def intro!: keys_age_same elim: list_all2_mono intro: key_ages_revoked)

lemma keys_age_issue:
  assumes "issue_key clock now db t q i pfx secret hash = Inr (tok, db')"
  shows "keys_age db db'"
proof -
  obtain ds row where db': "db' = db\<lparr>db_keys := db_keys db @ [row], db_key_devices := db_key_devices db @ map (Pair i) ds\<rparr>"
    and fresh: "\<forall>k \<in> set (db_keys db). ky_id k \<noteq> i"
    using assms by (auto simp: issue_key_def Let_def list_ex_iff)
  have "list_all2 key_ages (db_keys db) (db_keys db)" by (simp add: list.rel_refl)
  with db' fresh show ?thesis by (auto simp: keys_age_def)
qed

lemma keys_age_extend: "extend_key db k t til = Inr db' \<Longrightarrow> keys_age db db'"
  by (auto simp: extend_key_def Let_def key_ages_def list_all2_map2 list_all2_same split: if_splits option.splits
      intro!: keys_age_same)

lemma keys_age_others:
  "db_keys db' = db_keys db \<Longrightarrow> db_key_devices db' = db_key_devices db \<Longrightarrow> keys_age db db'"
  by (rule keys_age_same) (simp_all add: list.rel_refl)

interpretation key_growth: access_statements keys_age
proof unfold_locales
  show "set_member t u role status db = Inr db' \<Longrightarrow> keys_age db db'" for t u role status db db'
    by (auto simp: set_member_def Let_def intro!: keys_age_others)
  show "put_perm p db = Inr db' \<Longrightarrow> keys_age db db'" for p db db'
    by (auto simp: put_perm_def split: option.splits intro!: keys_age_others)
  show "put_grant_row g db = Inr db' \<Longrightarrow> keys_age db db'" for g db db'
    by (auto simp: put_grant_row_def split: option.splits intro!: keys_age_others)
qed (auto intro: keys_age_trans keys_age_quiet keys_age_issue keys_age_extend keys_age_others
    simp: delete_grants_def delete_perms_def delete_member_def)

section \<open>The access version\<close>

definition has_grant_row :: "db \<Rightarrow> uuid \<Rightarrow> uuid \<Rightarrow> uuid \<Rightarrow> nat \<Rightarrow> bool" where
  "has_grant_row db t u d e = list_ex (\<lambda>g. gr_tenant g = t \<and> gr_user g = u \<and> gr_device g = d \<and> gr_epoch g = e) (db_grants db)"

text \<open>What a member still has while the version has not moved: the role, the status, every stored permission
  and every grant.\<close>

definition nothing_lost :: "uuid \<Rightarrow> uuid \<Rightarrow> db \<Rightarrow> db \<Rightarrow> bool" where
  "nothing_lost t u db db' \<longleftrightarrow>
     (\<forall>d p. perm_of db t d u = Some p \<longrightarrow> perm_of db' t d u = Some p)
     \<and> (\<forall>d e. has_grant_row db t u d e \<longrightarrow> has_grant_row db' t u d e)"

definition version_ages :: "uuid \<Rightarrow> uuid \<Rightarrow> db \<Rightarrow> db \<Rightarrow> bool" where
  "version_ages t u db db' \<longleftrightarrow>
     (\<forall>m'. member_of db' t u = Some m' \<longrightarrow> (\<exists>m. member_of db t u = Some m \<and> mb_expires m' = mb_expires m
        \<and> mb_version m \<le> mb_version m'
        \<and> (mb_version m' = mb_version m \<longrightarrow> m' = m \<and> nothing_lost t u db db')))"

lemma version_ages_refl [simp]: "version_ages t u db db"
  by (simp add: version_ages_def nothing_lost_def)

lemma version_ages_trans: "version_ages t u a b \<Longrightarrow> version_ages t u b c \<Longrightarrow> version_ages t u a c"
  unfolding version_ages_def nothing_lost_def by (smt (verit) dual_order.antisym order.trans)

lemma version_same_member:
  assumes "db_members db' = db_members db" "nothing_lost t u db db'"
  shows "version_ages t u db db'"
  using assms by (simp add: version_ages_def member_of_def)

lemma version_bumped:
  assumes "db_members db' = bump n (db_members db)" "n t u = 0 \<Longrightarrow> nothing_lost t u db db'"
  shows "version_ages t u db db'"
  using assms by (auto simp: version_ages_def member_of_def member_bump)

lemma version_quiet: "quiet db db' \<Longrightarrow> version_ages t u db db'"
  by (rule version_same_member) (simp_all add: quiet_def nothing_lost_def perm_of_def has_grant_row_def)

lemma find_undropped:
  "filter Q xs = [] \<Longrightarrow> (\<And>x. P x \<Longrightarrow> D x \<Longrightarrow> Q x) \<Longrightarrow> find P (filter (\<lambda>x. \<not> D x) xs) = find P xs"
  by (induction xs) (auto split: if_splits)

lemma version_grants: "version_ages t u db (delete_grants P db)"
  by (rule version_bumped [of _ "\<lambda>t u. length (filter (\<lambda>g. P g \<and> gr_tenant g = t \<and> gr_user g = u) (db_grants db))"])
    (auto simp: delete_grants_def nothing_lost_def perm_of_def has_grant_row_def list_ex_iff filter_empty_conv)

lemma version_perms: "version_ages t u db (delete_perms P db)"
proof (rule version_bumped [of _ "\<lambda>t u. length (filter (\<lambda>p. P p \<and> pm_tenant p = t \<and> pm_user p = u) (db_perms db))"])
  assume "length (filter (\<lambda>p. P p \<and> pm_tenant p = t \<and> pm_user p = u) (db_perms db)) = 0"
  then have "perm_of (delete_perms P db) t d u = perm_of db t d u" for d
    by (simp add: delete_perms_def perm_of_def,
        intro find_undropped [where Q = "\<lambda>p. P p \<and> pm_tenant p = t \<and> pm_user p = u"]) simp_all
  then show "nothing_lost t u db (delete_perms P db)"
    by (simp add: nothing_lost_def has_grant_row_def delete_perms_def)
qed (simp add: delete_perms_def)

lemma version_delete_member: "keyed db \<Longrightarrow> version_ages t u db (delete_member t' u' M db)"
proof (cases "list_ex (\<lambda>m. mb_tenant m = t' \<and> mb_user m = u' \<and> M m) (db_members db)")
  case True
  let ?db = "delete_member t' u' M db"
  assume k: "keyed db"
  show ?thesis
  proof (cases "t = t' \<and> u = u'")
    case same: True
    from True obtain m where m: "m \<in> set (db_members db)" "mb_tenant m = t'" "mb_user m = u'" "M m"
      by (auto simp: list_ex_iff)
    have "\<not> (mb_tenant r = t' \<and> mb_user r = u')" if "r \<in> set (db_members ?db)" for r
    proof
      assume r: "mb_tenant r = t' \<and> mb_user r = u'"
      with that True have "r \<in> set (db_members db)" "\<not> M r" by (auto simp: delete_member_def)
      moreover from this m r k have "m = r"
        using inj_onD [of "\<lambda>m. (mb_tenant m, mb_user m)" "set (db_members db)" m r]
        by (simp add: keyed_def distinct_map)
      ultimately show False using m(4) by simp
    qed
    then have "member_of ?db t u = None" using same by (auto simp: member_of_def find_None_iff)
    then show ?thesis by (simp add: version_ages_def)
  next
    case False
    have "perm_of ?db t d u = perm_of db t d u" "member_of ?db t u = member_of db t u" for d
      using True False by (auto simp: delete_member_def perm_of_def member_of_def intro!: find_filter)
    then show ?thesis
      by (simp add: version_ages_def nothing_lost_def has_grant_row_def delete_member_def)
  qed
qed (simp add: delete_member_def)

lemma version_set: "set_member t' u' role status db = Inr db' \<Longrightarrow> version_ages t u db db'"
proof -
  let ?f = "\<lambda>m. if mb_tenant m = t' \<and> mb_user m = u'
     then m\<lparr>mb_role := role, mb_status := status, mb_version := mb_version m + 1\<rparr> else m"
  assume "set_member t' u' role status db = Inr db'"
  then have db': "db' = db\<lparr>db_members := map ?f (db_members db)\<rparr>" by (auto simp: set_member_def Let_def)
  have "member_of db' t u = map_option ?f (member_of db t u)"
    unfolding member_of_def db' by (simp add: find_map)
  then show ?thesis
    by (auto simp: version_ages_def nothing_lost_def db' perm_of_def has_grant_row_def)
qed

lemma version_perm: "put_perm p db = Inr db' \<Longrightarrow> version_ages t u db db'"
proof (cases "perm_of db (pm_tenant p) (pm_device p) (pm_user p)")
  case None
  assume "put_perm p db = Inr db'"
  with None have "db' = db\<lparr>db_perms := db_perms db @ [p]\<rparr>" by (auto simp: put_perm_def)
  then show ?thesis
    by (intro version_same_member) (auto simp: nothing_lost_def perm_of_def has_grant_row_def find_append)
next
  case (Some q)
  let ?f = "\<lambda>q. if pm_tenant q = pm_tenant p \<and> pm_device q = pm_device p \<and> pm_user q = pm_user p then p else q"
  assume "put_perm p db = Inr db'"
  with Some have db': "db' = db\<lparr>db_perms := map ?f (db_perms db),
      db_members := bump (\<lambda>t u. if t = pm_tenant p \<and> u = pm_user p then 1 else 0) (db_members db)\<rparr>"
    by (auto simp: put_perm_def)
  have "perm_of db' t d u = map_option ?f (perm_of db t d u)" for d
    unfolding perm_of_def db' by (simp add: find_map)
  then have "\<not> (t = pm_tenant p \<and> u = pm_user p) \<Longrightarrow> nothing_lost t u db db'"
    by (auto simp: nothing_lost_def has_grant_row_def db' perm_of_def dest!: find_in)
  then show ?thesis
    by (intro version_bumped [of _ "\<lambda>t u. if t = pm_tenant p \<and> u = pm_user p then 1 else 0"]) (auto simp: db' split: if_splits)
qed

lemma list_ex_map_same: "(\<And>x. P (f x) = P x) \<Longrightarrow> list_ex P (map f xs) = list_ex P xs"
  by (induction xs) auto

lemma version_grant_row:
  assumes "put_grant_row g db = Inr db'"
  shows "version_ages t u db db'"
proof (rule version_same_member)
  show "db_members db' = db_members db"
    using assms by (auto simp: put_grant_row_def split: option.splits if_splits)
  have "has_grant_row db t u d e \<Longrightarrow> has_grant_row db' t u d e" for d e
    using assms by (auto simp: put_grant_row_def has_grant_row_def list_ex_map_same split: option.splits if_splits)
  moreover have "perm_of db t d u = Some p \<Longrightarrow> perm_of db' t d u = Some p" for d p
    using assms by (auto simp: put_grant_row_def perm_of_def find_append split: option.splits if_splits)
  ultimately show "nothing_lost t u db db'" by (simp add: nothing_lost_def)
qed

lemma version_others:
  "db_members db' = db_members db \<Longrightarrow> db_perms db' = db_perms db \<Longrightarrow> db_grants db' = db_grants db \<Longrightarrow> version_ages t u db db'"
  by (rule version_same_member) (auto simp: nothing_lost_def perm_of_def has_grant_row_def)

interpretation version: access_statements "\<lambda>db db'. keyed db \<longrightarrow> keyed db' \<and> version_ages t u db db'" for t u
proof unfold_locales
  show "extend_key db k s til = Inr db' \<Longrightarrow> keyed db \<longrightarrow> keyed db' \<and> version_ages t u db db'" for db k s til db'
    using keyed_extend [of db k s til db'] by (auto simp: extend_key_def Let_def split: if_splits intro!: version_others)
  show "issue_key clock now db s q k pfx secret hash = Inr (tok, db') \<Longrightarrow> keyed db \<longrightarrow> keyed db' \<and> version_ages t u db db'"
    for clock now db s q k pfx secret hash tok db'
    using keyed_issue [of clock now db s q k pfx secret hash tok db'] by (auto simp: issue_key_def Let_def intro!: version_others)
qed (auto intro: version_ages_trans version_quiet version_grants version_perms version_delete_member version_set
    version_perm version_grant_row keyed_statements keyed_set keyed_perm keyed_grant)

end
