(* ===== verification/Access_Props.thy ===== *)
theory Access_Props
  imports Access_Facts
begin

text \<open>
  The properties of workspace access: a workspace keeps an owner, a number keeps a holder of its key, a
  removed or disabled member is left with nothing, a key is a ceiling, and an open connection whose access
  version has not moved has lost nothing.
\<close>

section \<open>Rows a statement spares\<close>

definition has_row :: "db \<Rightarrow> uuid \<Rightarrow> uuid \<Rightarrow> string \<Rightarrow> string \<Rightarrow> bool" where
  "has_row db t u role status = list_ex (\<lambda>m. mb_tenant m = t \<and> mb_user m = u \<and> mb_role m = role \<and> mb_status m = status)
     (db_members db)"

definition key_holder :: "db \<Rightarrow> uuid \<Rightarrow> uuid \<Rightarrow> nat \<Rightarrow> uuid \<Rightarrow> bool" where
  "key_holder db t d e u \<longleftrightarrow> has_grant_row db t u d e \<and> standing db t u \<and> keeps_keys db u \<and> \<not> named_by_connection db u"

lemma has_row_bump: "db_members db' = bump n (db_members db) \<Longrightarrow> has_row db' t u r s = has_row db t u r s"
  by (simp add: has_row_def bump_def list_ex_map_same)

lemma standing_bump: "db_members db' = bump n (db_members db) \<Longrightarrow> standing db' t u = standing db t u"
  by (simp add: standing_def member_of_def member_bump split: option.splits)

lemma has_row_same: "db_members db' = db_members db \<Longrightarrow> has_row db' t u r s = has_row db t u r s"
  by (simp add: has_row_def)

lemma standing_same: "db_members db' = db_members db \<Longrightarrow> standing db' t u = standing db t u"
  by (simp add: standing_def member_of_def)

lemma deleted_members:
  "db_members (delete_grants P db) = bump (\<lambda>t u. length (filter (\<lambda>g. P g \<and> gr_tenant g = t \<and> gr_user g = u) (db_grants db)))
     (db_members db)"
  "db_members (delete_perms Q db) = bump (\<lambda>t u. length (filter (\<lambda>p. Q p \<and> pm_tenant p = t \<and> pm_user p = u) (db_perms db)))
     (db_members db)"
  by (simp_all add: delete_grants_def delete_perms_def)

lemma spare_deleted [simp]:
  "has_row (delete_grants P db) t u r s = has_row db t u r s"
  "standing (delete_grants P db) t u = standing db t u"
  "has_row (delete_perms Q db) t u r s = has_row db t u r s"
  "standing (delete_perms Q db) t u = standing db t u"
  "has_grant_row (delete_perms Q db) t u d e = has_grant_row db t u d e"
  using has_row_bump [OF deleted_members(1)] has_row_bump [OF deleted_members(2)]
    standing_bump [OF deleted_members(1)] standing_bump [OF deleted_members(2)]
  by (simp_all add: has_grant_row_def delete_perms_def)

lemma spare_quiet:
  assumes "quiet db db'"
  shows "has_row db' t u r s = has_row db t u r s" "standing db' t u = standing db t u"
    "has_grant_row db' t u d e = has_grant_row db t u d e"
  using assms by (auto simp: quiet_def has_grant_row_def intro!: has_row_same standing_same)

lemma spare_delete_member:
  assumes "t \<noteq> w \<or> u \<noteq> v"
  shows "has_row (delete_member w v M db) t u r s = has_row db t u r s"
    "standing (delete_member w v M db) t u = standing db t u"
proof -
  have "member_of (delete_member w v M db) t u = member_of db t u"
    using assms unfolding member_of_def delete_member_def by (auto intro!: find_filter)
  then show "standing (delete_member w v M db) t u = standing db t u" by (simp add: standing_def)
  show "has_row (delete_member w v M db) t u r s = has_row db t u r s"
    using assms by (auto simp: delete_member_def has_row_def list_ex_iff)
qed

lemma grants_delete_member [simp]: "has_grant_row (delete_member w v M db) t u d e = has_grant_row db t u d e"
  by (simp add: delete_member_def has_grant_row_def)

lemma spare_set_member:
  assumes "set_member w v role status db = Inr db'"
  shows "t \<noteq> w \<or> u \<noteq> v \<Longrightarrow> has_row db' t u r s = has_row db t u r s"
    "t \<noteq> w \<or> u \<noteq> v \<Longrightarrow> standing db' t u = standing db t u"
    "has_grant_row db' t u d e = has_grant_row db t u d e"
proof -
  let ?f = "\<lambda>m. if mb_tenant m = w \<and> mb_user m = v
     then m\<lparr>mb_role := role, mb_status := status, mb_version := mb_version m + 1\<rparr> else m"
  have db': "db' = db\<lparr>db_members := map ?f (db_members db)\<rparr>" using assms by (auto simp: set_member_def Let_def)
  show "has_grant_row db' t u d e = has_grant_row db t u d e" by (simp add: db' has_grant_row_def)
  assume u: "t \<noteq> w \<or> u \<noteq> v"
  then show "has_row db' t u r s = has_row db t u r s" by (auto simp: db' has_row_def list_ex_iff)
  have "member_of db' t u = map_option ?f (member_of db t u)" by (simp add: db' member_of_def find_map)
  with u show "standing db' t u = standing db t u"
    by (auto simp: standing_def member_of_def dest: find_in split: option.splits)
qed

lemma spare_other_grants:
  assumes "\<And>g. P g \<Longrightarrow> gr_tenant g = w \<and> gr_user g = v" "t \<noteq> w \<or> u \<noteq> v"
  shows "has_grant_row (delete_grants P db) t u d e = has_grant_row db t u d e"
  using assms by (fastforce simp: has_grant_row_def delete_grants_def list_ex_iff)

text \<open>Ending connections and recording a stranding touch the service accounts that connections name, and
  no row of a person.\<close>

definition spares :: "db \<Rightarrow> db \<Rightarrow> bool" where
  "spares db db' \<longleftrightarrow> same_base db db'
     \<and> (\<forall>t u r s. has_row db t u r s \<and> r \<noteq> ''service'' \<longrightarrow> has_row db' t u r s)
     \<and> (\<forall>t u d e. key_holder db t d e u \<longrightarrow> key_holder db' t d e u)"

lemma spares_intro:
  assumes "same_base db db'" "\<And>t u r s. has_row db t u r s \<Longrightarrow> r \<noteq> ''service'' \<Longrightarrow> has_row db' t u r s"
    and "\<And>t u d e. \<not> named_by_connection db u \<Longrightarrow> has_grant_row db t u d e \<Longrightarrow> has_grant_row db' t u d e"
    and "\<And>t u. \<not> named_by_connection db u \<Longrightarrow> standing db t u \<Longrightarrow> standing db' t u"
  shows "spares db db'"
  using assms by (auto simp: spares_def key_holder_def same_base_reads)

lemma spares_service:
  assumes "remove_service_account now t s db = Inr db'" "named_by_connection db s"
  shows "spares db db'"
  using assms(1)
proof (cases rule: remove_service_cases)
  case (removed r)
  show ?thesis
  proof (rule spares_intro)
    show "same_base db db'" using assms(1) by (rule base_remove_service)
    fix w u d e
    assume "\<not> named_by_connection db u"
    then have u: "u \<noteq> s" using assms(2) by auto
    show "has_grant_row db w u d e \<Longrightarrow> has_grant_row db' w u d e"
      using u spare_other_grants [of "\<lambda>g. gr_tenant g = t \<and> gr_user g = s" t s w u]
      by (simp add: removed spare_quiet [OF quiet_revoke])
    show "standing db w u \<Longrightarrow> standing db' w u"
      using u by (simp add: removed spare_delete_member spare_quiet [OF quiet_revoke])
  next
    fix w u r' st
    assume "has_row db w u r' st" "r' \<noteq> ''service''"
    then have "has_row (delete_perms (\<lambda>p. pm_tenant p = t \<and> pm_user p = s)
        (delete_grants (\<lambda>g. gr_tenant g = t \<and> gr_user g = s)
        (revoke_keys now (\<lambda>k. ky_tenant k = t \<and> ky_acts k = Some s) db))) w u r' st"
      by (simp add: spare_quiet [OF quiet_revoke])
    with \<open>r' \<noteq> _\<close> show "has_row db' w u r' st"
      unfolding removed by (auto simp: has_row_def delete_member_def list_ex_iff)
  qed
qed

lemma spares_trans: "spares a b \<Longrightarrow> spares b c \<Longrightarrow> spares a c"
  unfolding spares_def by (meson same_base_trans)

lemma spares_quiet: "quiet db db' \<Longrightarrow> spares db db'"
  by (rule spares_intro) (simp_all add: spare_quiet, simp add: quiet_def)

interpretation spare: connection_writes spares
proof unfold_locales
  show "spares db db" for db by (simp add: spares_def frame)
qed (fact spares_trans spares_quiet spares_service)+

section \<open>A workspace keeps an owner\<close>

definition owned :: "db \<Rightarrow> uuid \<Rightarrow> bool" where
  "owned db t = list_ex (\<lambda>m. mb_tenant m = t \<and> mb_role m = ''owner'' \<and> mb_status m = ''active''
     \<and> status_active db (mb_user m)) (db_members db)"

lemma owned_row: "owned db t \<longleftrightarrow> (\<exists>u. has_row db t u ''owner'' ''active'' \<and> status_active db u)"
  by (auto simp: owned_def has_row_def list_ex_iff)

lemma spares_row: "spares db db' \<Longrightarrow> has_row db t u r s \<Longrightarrow> r \<noteq> ''service'' \<Longrightarrow> has_row db' t u r s"
  by (simp add: spares_def)

lemma row_in: "m \<in> set (db_members db) \<Longrightarrow> has_row db (mb_tenant m) (mb_user m) (mb_role m) (mb_status m)"
  by (auto simp: has_row_def list_ex_iff)

lemma row_of_member:
  assumes "keyed db" "member_of db t u = Some m" "has_row db t u r s"
  shows "mb_role m = r \<and> mb_status m = s"
proof -
  obtain m' where m': "m' \<in> set (db_members db)" "mb_tenant m' = t" "mb_user m' = u" "mb_role m' = r" "mb_status m' = s"
    using assms(3) by (auto simp: has_row_def list_ex_iff)
  have m: "m \<in> set (db_members db)" "mb_tenant m = t" "mb_user m = u"
    using assms(2) by (auto simp: member_of_def dest: find_in)
  have "m = m'"
    using inj_onD [of "\<lambda>m. (mb_tenant m, mb_user m)" "set (db_members db)" m m'] assms(1) m m'
    by (simp add: keyed_def distinct_map)
  with m' show ?thesis by simp
qed

lemma other_owner:
  assumes "keyed db" "owned db t" "member_of db t target = Some m"
    and "mb_role m = ''owner'' \<and> mb_status m = ''active'' \<Longrightarrow> require_other_owner db t target = Inr ()"
  obtains u where "u \<noteq> target" "has_row db t u ''owner'' ''active''" "status_active db u"
proof (cases "mb_role m = ''owner'' \<and> mb_status m = ''active''")
  case True
  have "list_ex (\<lambda>m. mb_tenant m = t \<and> mb_user m \<noteq> target \<and> mb_role m = ''owner''
     \<and> mb_status m = ''active'' \<and> status_active db (mb_user m)) (db_members db)"
    using assms(4) [OF True] by (simp add: require_other_owner_def)
  then obtain m' where "m' \<in> set (db_members db)" "mb_tenant m' = t" "mb_user m' \<noteq> target"
    "mb_role m' = ''owner''" "mb_status m' = ''active''" "status_active db (mb_user m')"
    unfolding list_ex_iff by blast
  with row_in [of m' db] show ?thesis by (intro that [of "mb_user m'"]) simp_all
next
  case False
  from assms(2) obtain u where u: "has_row db t u ''owner'' ''active''" "status_active db u"
    by (auto simp: owned_row)
  with False row_of_member [OF assms(1,3), of "''owner''" "''active''"] have "u \<noteq> target" by auto
  with u show ?thesis by (intro that)
qed

lemma owner_left:
  assumes "keyed db" "owned db t" "member_of db w target = Some m"
    and "mb_role m = ''owner'' \<and> mb_status m = ''active'' \<Longrightarrow> require_other_owner db w target = Inr ()"
  obtains u where "t \<noteq> w \<or> u \<noteq> target" "has_row db t u ''owner'' ''active''" "status_active db u"
proof (cases "t = w")
  case True
  show ?thesis
    by (rule other_owner [OF assms(1) assms(2) [unfolded True] assms(3,4)]) (use that True in auto)
next
  case False
  then show ?thesis using assms(2) that by (auto simp: owned_row)
qed

lemma change_member_row:
  assumes "change_member x t target role status db = Inr db'" "w \<noteq> t \<or> u \<noteq> target"
  shows "has_row db' w u r s = has_row db w u r s" "standing db' w u = standing db w u"
    "has_grant_row db' w u d e = has_grant_row db w u d e"
proof -
  obtain db1 where 1: "set_member t target role status db = Inr db1"
    and db': "db' = (let db2 = expire_made_invites (tx_now x) t target
             (revoke_sessions (tx_now x) (\<lambda>s. ss_tenant s = Some t \<and> ss_user s = target) db1) in
       if status = ''disabled'' then strip_access (tx_now x) t target db2 else db2)"
    using assms(1) by (auto simp: change_member_def Let_def)
  note q = spare_quiet [OF quiet_revoke] spare_quiet [OF quiet_simple(1)] spare_quiet [OF quiet_simple(2)]
  note 2 = spare_other_grants [of "\<lambda>g. gr_tenant g = t \<and> gr_user g = target" t target w u, OF _ assms(2)]
  show "has_row db' w u r s = has_row db w u r s" "standing db' w u = standing db w u"
    "has_grant_row db' w u d e = has_grant_row db w u d e"
    using spare_set_member [OF 1, of w u] assms(2) by (simp_all add: db' Let_def strip_access_def q 2)
qed

lemma erase_member_row:
  assumes "w \<noteq> t \<or> u \<noteq> target"
  shows "has_row (erase_member x t target email db) w u r s = has_row db w u r s"
    "standing (erase_member x t target email db) w u = standing db w u"
    "has_grant_row (erase_member x t target email db) w u d e = has_grant_row db w u d e"
proof -
  have q: "quiet db (db\<lparr>db_history := h\<rparr>)" "quiet d (d\<lparr>db_invites := i\<rparr>)" for h i d
    by (simp_all add: quiet_def same_base_def)
  note 1 = spare_quiet [OF quiet_revoke] spare_quiet [OF q(2)] spare_quiet [OF quiet_simple(1)] spare_quiet [OF q(1)]
  note 2 = spare_other_grants [of "\<lambda>g. gr_tenant g = t \<and> gr_user g = target" t target w u, OF _ assms]
  show "has_row (erase_member x t target email db) w u r s = has_row db w u r s"
    "standing (erase_member x t target email db) w u = standing db w u"
    "has_grant_row (erase_member x t target email db) w u d e = has_grant_row db w u d e"
    unfolding erase_member_def Let_def by (simp_all add: spare_delete_member [OF assms] 1 2)
qed

lemma base_run: "run_op x op db = Inr db' \<Longrightarrow> status_active db' u = status_active db u"
  by (rule same_base_reads(4) [OF base.S_run_op])

text \<open>What \<^verbatim>\<open>updateMember\<close> and \<^verbatim>\<open>removeMember\<close> have established when they succeed.\<close>

lemma update_cases [consumes 1, case_names same changed]:
  assumes "update_member x t actor target role status s db = Inr db'"
  obtains m where "db' = db" "member_of db t target = Some m" "mb_role m = role" "mb_status m = status"
      "lock_workspace_manager db t actor \<noteq> Inl MembershipForbidden"
  | m db1 actor_role where "member_of db t target = Some m" "lock_workspace_manager db t actor = Inr actor_role"
      "\<not> (mb_role m = role \<and> mb_status m = status)"
      "mb_role m = ''owner'' \<and> mb_status m = ''active'' \<Longrightarrow> require_other_owner db t target = Inr ()"
      "actor_role \<noteq> ''owner'' \<Longrightarrow> \<not> manager_role (mb_role m) \<and> \<not> manager_role role \<and> \<not> s"
      "if status = ''disabled'' then lose_access x t actor target actor_role (strand_gate db t s) ''disabled'' False db = Inr db1
       else db1 = db" "status = ''active'' \<or> status = ''disabled''"
      "change_member x t target role status db1 = Inr db'"
proof -
  from assms obtain actor_role m where a: "lock_workspace_manager db t actor = Inr actor_role" "member_of db t target = Some m"
    "status = ''active'' \<or> status = ''disabled''" "actor_role \<noteq> ''owner'' \<Longrightarrow> \<not> s"
    by (auto simp: update_member_def split: if_splits option.splits)
  show ?thesis
  proof (cases "mb_role m = role \<and> mb_status m = status")
    case True
    with assms a have "db' = db" by (auto simp: update_member_def split: if_splits)
    with True a show ?thesis by (intro that(1) [of m]) auto
  next
    case False
    with assms a obtain db1 where 1: "(if status = ''disabled'' then lose_access x t actor target actor_role
          (strand_gate db t s) ''disabled'' False db else Inr db) = Inr db1"
        "change_member x t target role status db1 = Inr db'"
        "(if mb_role m = ''owner'' \<and> mb_status m = ''active'' \<and> (role \<noteq> ''owner'' \<or> status \<noteq> ''active'')
          then require_other_owner db t target else Inr ()) = Inr ()"
        "actor_role \<noteq> ''owner'' \<Longrightarrow> \<not> manager_role (mb_role m) \<and> \<not> manager_role role"
      by (auto simp: update_member_def split: if_splits)
    with a False show ?thesis by (intro that(2) [of m actor_role db1]) (auto split: if_splits)
  qed
qed

lemma remove_cases [consumes 1, case_names removed]:
  assumes "remove_member x t actor target s db = Inr db'"
  obtains m r db1 actor_role where "member_of db t target = Some m" "user_of db target = Some r"
      "lock_workspace_manager db t actor = Inr actor_role"
      "mb_role m = ''owner'' \<and> mb_status m = ''active'' \<Longrightarrow> require_other_owner db t target = Inr ()"
      "actor_role \<noteq> ''owner'' \<Longrightarrow> \<not> manager_role (mb_role m) \<and> \<not> s"
      "lose_access x t actor target actor_role (strand_gate db t s) ''revoked'' True db = Inr db1"
      "db' = erase_member x t target (us_email r) db1"
  using assms by (auto simp: remove_member_def split: if_splits option.splits)

text \<open>An operation that is not about members keeps every row of a person.\<close>

lemma put_row_kept:
  "put_perm p db = Inr db' \<Longrightarrow> has_row db' t u r s = has_row db t u r s"
  "put_grant_row g db = Inr db' \<Longrightarrow> has_row db' t u r s = has_row db t u r s"
  "put_perm p db = Inr db' \<Longrightarrow> standing db' t u = standing db t u"
  "put_grant_row g db = Inr db' \<Longrightarrow> standing db' t u = standing db t u"
proof -
  assume a: "put_perm p db = Inr db'"
  then have "db_members db' = db_members db
      \<or> db_members db' = bump (\<lambda>t u. if t = pm_tenant p \<and> u = pm_user p then 1 else 0) (db_members db)"
    by (auto simp: put_perm_def split: option.splits)
  then show "has_row db' t u r s = has_row db t u r s" "standing db' t u = standing db t u"
    by (meson has_row_bump has_row_same standing_bump standing_same)+
next
  assume "put_grant_row g db = Inr db'"
  then have "db_members db' = db_members db" by (auto simp: put_grant_row_def split: option.splits if_splits)
  then show "has_row db' t u r s = has_row db t u r s" "standing db' t u = standing db t u"
    by (rule has_row_same, rule standing_same)
qed

lemma keys_kept:
  "extend_key db k t til = Inr db' \<Longrightarrow> db_members db' = db_members db \<and> db_grants db' = db_grants db"
  "issue_key clock now db t q i pfx secret hash = Inr (tok, db') \<Longrightarrow> db_members db' = db_members db \<and> db_grants db' = db_grants db"
  "revoke_key now db t pfx = Inr db' \<Longrightarrow> db_members db' = db_members db \<and> db_grants db' = db_grants db"
  by (auto simp: extend_key_def issue_key_def revoke_key_def revoke_keys_def Let_def split: if_splits)

lemma other_ops_keep_row:
  assumes "run_op x op db = Inr db'" "has_row db t u r s" "r \<noteq> ''service''"
    and "\<And>w a v r st b. op \<noteq> UpdateMember w a v r st b" "\<And>w a v b. op \<noteq> RemoveMember w a v b"
  shows "has_row db' t u r s"
proof (cases op)
  case (SetDevicePermission w a p)
  with assms show ?thesis by (auto simp: set_permission_def put_row_kept split: if_splits)
next
  case (RevokeConnection w a i)
  with assms(1) obtain b where "end_connection (tx_now x) w i ''revoked'' ''console'' db = Inr (b, db')"
    by (auto simp: revoke_connection_def split: if_splits)
  from spare.R_end_connection [OF this] assms(2,3) show ?thesis by (rule spares_row)
qed (use assms in \<open>auto simp: put_grant_def revoke_grant_def put_row_kept dest!: keys_kept has_row_same\<close>)

lemma owned_step:
  assumes "keyed db" "owned db t" "run_op x op db = Inr db'"
  shows "owned db' t"
proof -
  have step: "owned db' t" if "has_row db t u ''owner'' ''active''" "status_active db u"
      "has_row db t u ''owner'' ''active'' \<Longrightarrow> has_row db' t u ''owner'' ''active''" for u
    using that base_run [OF assms(3)] by (auto simp: owned_row)
  obtain u where u: "has_row db t u ''owner'' ''active''" "status_active db u"
    using assms(2) by (auto simp: owned_row)
  consider (update) w a v r st b where "op = UpdateMember w a v r st b" | (remove) w a v b where "op = RemoveMember w a v b"
    | (other) "\<And>w a v r st b. op \<noteq> UpdateMember w a v r st b" "\<And>w a v b. op \<noteq> RemoveMember w a v b"
    by (cases op) auto
  then show ?thesis
  proof cases
    case other
    then show ?thesis by (intro step [OF u]) (rule other_ops_keep_row [OF assms(3)], simp_all)
  next
    case (update w a v r st b)
    with assms(3) have upd: "update_member x w a v r st b db = Inr db'" by simp
    then show ?thesis
    proof (cases rule: update_cases)
      case (changed m db1 actor_role)
      have 1: "has_row db1 t u ''owner'' ''active''" if "has_row db t u ''owner'' ''active''" for u
      proof (cases "st = ''disabled''")
        case True
        with changed(6) have "spares db db1" by (simp add: spare.R_lose_access)
        with that show ?thesis by (simp add: spares_row)
      qed (use changed(6) that in simp)
      obtain o' where o': "t \<noteq> w \<or> o' \<noteq> v" "has_row db t o' ''owner'' ''active''" "status_active db o'"
        by (rule owner_left [OF assms(1,2) changed(1,4)])
      then show ?thesis using change_member_row(1) [OF changed(8) o'(1)] 1 by (intro step [OF o'(2,3)]) simp
    qed (simp add: assms(2))
  next
    case (remove w a v b)
    with assms(3) have "remove_member x w a v b db = Inr db'" by simp
    then show ?thesis
    proof (cases rule: remove_cases)
      case (removed m r db1 actor_role)
      obtain o' where o': "t \<noteq> w \<or> o' \<noteq> v" "has_row db t o' ''owner'' ''active''" "status_active db o'"
        by (rule owner_left [OF assms(1,2) removed(1,4)])
      have "has_row db1 t o' ''owner'' ''active''"
        using spares_row [OF spare.R_lose_access [OF removed(6)] o'(2)] by simp
      then show ?thesis using o' by (intro step [OF o'(2,3)]) (simp add: removed(7) erase_member_row)
    qed
  qed
qed

section \<open>A live number keeps a holder of its key\<close>

definition key_held :: "db \<Rightarrow> uuid \<Rightarrow> uuid \<Rightarrow> nat \<Rightarrow> bool" where
  "key_held db t d e = list_ex (\<lambda>g. gr_tenant g = t \<and> gr_device g = d \<and> gr_epoch g = e
     \<and> standing db t (gr_user g) \<and> keeps_keys db (gr_user g) \<and> \<not> named_by_connection db (gr_user g)) (db_grants db)"

lemma key_held_holder: "key_held db t d e \<longleftrightarrow> (\<exists>u. key_holder db t d e u)"
  by (auto simp: key_held_def key_holder_def has_grant_row_def list_ex_iff)

text \<open>A member who is not the last holder leaves another one behind.\<close>

lemma holder_left:
  assumes "key_held db t d e" "unretired db t d e" "d \<notin> set (stranded_devices db t target device)"
    and "device = None \<or> device = Some d"
  obtains u where "u \<noteq> target" "key_holder db t d e u"
proof -
  from assms(1) obtain u where u: "key_holder db t d e u" by (auto simp: key_held_holder)
  show ?thesis
  proof (cases "u = target")
    case True
    from u obtain g where g: "g \<in> set (db_grants db)" "gr_tenant g = t" "gr_user g = u" "gr_device g = d" "gr_epoch g = e"
      by (auto simp: key_holder_def has_grant_row_def list_ex_iff)
    have "g \<notin> set (sole_grants db t)"
      using assms(3,4) True g by (auto simp: stranded_devices_def image_iff)
    then have "list_ex (backs_up db g) (db_grants db)"
      using g u assms(2) by (auto simp: sole_grants_def key_holder_def)
    then obtain b where b: "b \<in> set (db_grants db)" "backs_up db g b" by (auto simp: list_ex_iff)
    then have "key_holder db t d e (gr_user b)"
      using g by (auto simp: backs_up_def key_holder_def has_grant_row_def list_ex_iff keeps_keys_def status_active_def
          split: option.splits)
    with b g True show ?thesis by (intro that [of "gr_user b"]) (simp_all add: backs_up_def)
  qed (use u that in blast)
qed

lemma map_filter_all: "length xs \<le> length (List.map_filter f xs) \<Longrightarrow> x \<in> set xs \<Longrightarrow> f x \<noteq> None"
proof (induction xs)
  case (Cons y ys)
  have "length (List.map_filter f ys) \<le> length ys"
    by (simp add: map_filter_def)
  with Cons show ?case by (auto simp: map_filter_simps split: option.splits)
qed (simp add: map_filter_simps)

text \<open>What \<^verbatim>\<open>strandCheckTx\<close> lets through strands no number that is live.\<close>

lemma strand_check_live:
  assumes "strand_check db t target role override = Inr ns" "device_of False db t d \<noteq> None"
  shows "d \<notin> set (stranded_devices db t target None)"
proof
  let ?doomed = "stranded_devices db t target None"
  let ?found = "sort_key dv_id (filter (\<lambda>v. sees_device True t v \<and> dv_id v \<in> set ?doomed) (db_devices db))"
  assume d: "d \<in> set ?doomed"
  then have all: "length ?found \<le> length (List.map_filter excluded_ref ?found)"
    using assms(1) by (auto simp: strand_check_def Let_def not_less simp del: length_sort split: if_splits)
  obtain v where v: "v \<in> set (db_devices db)" "dv_id v = d" "dv_deleted v = None" "dv_tenant v = t"
    using assms(2) by (auto simp: device_of_def sees_device_def dest: find_in)
  then have "v \<in> set ?found" using d by (simp add: sees_device_def)
  with all have "excluded_ref v \<noteq> None" by (rule map_filter_all)
  with v(3) show False by (simp add: excluded_ref_def)
qed

lemma spares_holder: "spares db db' \<Longrightarrow> key_holder db t d e u \<Longrightarrow> key_holder db' t d e u"
  by (simp add: spares_def)

lemma holder_kept:
  assumes "has_grant_row db' t u d e" "standing db' t u = standing db t u" "same_base db db'" "key_holder db t d e u"
  shows "key_holder db' t d e u"
  using assms by (simp add: key_holder_def same_base_reads)

text \<open>A member's change or removal strips the grants of that member alone.\<close>

lemma lose_access_held:
  assumes "lose_access x w a v role override cause removed db = Inr db1" "key_held db t d e" "unretired db t d e"
    "device_of False db t d \<noteq> None"
  obtains u where "t \<noteq> w \<or> u \<noteq> v" "key_holder db1 t d e u"
proof -
  obtain ns where ns: "strand_check db w v role override = Inr ns" using assms(1) by (auto simp: lose_access_def)
  have "\<exists>u. (t \<noteq> w \<or> u \<noteq> v) \<and> key_holder db t d e u"
  proof (cases "t = w")
    case True
    show ?thesis
      by (rule holder_left [OF assms(2,3) strand_check_live [OF ns [folded True] assms(4)]]) auto
  next
    case False
    then show ?thesis using assms(2) by (auto simp: key_held_holder)
  qed
  then show ?thesis using spares_holder [OF spare.R_lose_access [OF assms(1)]] that by blast
qed

lemma update_held:
  assumes "update_member x w a v r st b db = Inr db'" "key_held db t d e" "unretired db t d e" "device_of False db t d \<noteq> None"
  shows "key_held db' t d e"
  using assms(1)
proof (cases rule: update_cases)
  case (changed m db1 actor_role)
  show ?thesis
  proof (cases "st = ''disabled''")
    case True
    with changed(6) have "lose_access x w a v actor_role (strand_gate db w b) ''disabled'' False db = Inr db1" by simp
    then obtain u where u: "t \<noteq> w \<or> u \<noteq> v" "key_holder db1 t d e u" by (rule lose_access_held [OF _ assms(2-4)])
    have "key_holder db' t d e u"
      using u(2) by (intro holder_kept [OF _ _ base.S_change [OF changed(8)] u(2)])
        (simp_all add: change_member_row [OF changed(8) u(1)] key_holder_def)
    then show ?thesis by (auto simp: key_held_holder)
  next
    case False
    with changed(6,7) have st: "db1 = db" "st = ''active''" by auto
    obtain u where u: "key_holder db t d e u" using assms(2) by (auto simp: key_held_holder)
    have c: "set_member w v r st db = Inr db2 \<Longrightarrow> has_grant_row db2 t u d e" for db2
      using u spare_set_member(3) by (simp add: key_holder_def)
    obtain db2 where s: "set_member w v r st db = Inr db2"
      and db': "db' = expire_made_invites (tx_now x) w v (revoke_sessions (tx_now x) (\<lambda>s. ss_tenant s = Some w \<and> ss_user s = v) db2)"
      using changed(8) st by (auto simp: change_member_def Let_def)
    have "standing db2 t u"
    proof (cases "t = w \<and> u = v")
      case True
      with u s st(2) show ?thesis
        by (auto simp: key_holder_def standing_def member_of_def set_member_def Let_def find_map split: option.splits dest: find_in)
    next
      case False
      with u spare_set_member(2) [OF s, of t u] show ?thesis by (simp add: key_holder_def)
    qed
    then have "key_holder db' t d e u"
      using u c [OF s] by (simp add: key_holder_def db' spare_quiet [OF quiet_simple(1)] spare_quiet [OF quiet_simple(2)]
          same_base_reads [OF base_writes(6)] same_base_reads [OF base_writes(4)] same_base_reads [OF base_results(1) [OF s]])
    then show ?thesis by (auto simp: key_held_holder)
  qed
qed (simp add: assms(2))

lemma remove_held:
  assumes "remove_member x w a v b db = Inr db'" "key_held db t d e" "unretired db t d e" "device_of False db t d \<noteq> None"
  shows "key_held db' t d e"
  using assms(1)
proof (cases rule: remove_cases)
  case (removed m r db1 actor_role)
  obtain u where u: "t \<noteq> w \<or> u \<noteq> v" "key_holder db1 t d e u" by (rule lose_access_held [OF removed(6) assms(2-4)])
  have "key_holder db' t d e u"
    unfolding removed(7) using u(2) by (intro holder_kept [OF _ _ base.S_erase u(2)])
      (simp_all add: erase_member_row [OF u(1)] key_holder_def)
  then show ?thesis by (auto simp: key_held_holder)
qed

lemma device_grants_deleted:
  assumes "t \<noteq> w \<or> u \<noteq> v \<or> d \<noteq> c"
  shows "has_grant_row (delete_grants (\<lambda>g. gr_tenant g = w \<and> gr_device g = c \<and> gr_user g = v) db) t u d e = has_grant_row db t u d e"
  using assms by (auto simp: has_grant_row_def delete_grants_def list_ex_iff)

text \<open>Taking one number's grants off a member, after the check.\<close>

lemma take_grants_held:
  assumes "key_held db t d e" "unretired db t d e" "stranded_devices db w v (Some c) = []"
    and "same_base db db1" "\<And>t u. standing db1 t u = standing db t u" "db_grants db1 = db_grants db"
  shows "key_held (delete_grants (\<lambda>g. gr_tenant g = w \<and> gr_device g = c \<and> gr_user g = v) db1) t d e"
proof -
  obtain u where u: "t \<noteq> w \<or> u \<noteq> v \<or> d \<noteq> c" "key_holder db t d e u"
  proof (cases "t = w \<and> d = c")
    case True
    then have "d \<notin> set (stranded_devices db t v (Some d))" using assms(3) by simp
    then show ?thesis by (rule holder_left [OF assms(1,2)]) (use that in auto)
  next
    case False
    then show ?thesis using assms(1) that by (auto simp: key_held_holder)
  qed
  have "same_base db (delete_grants (\<lambda>g. gr_tenant g = w \<and> gr_device g = c \<and> gr_user g = v) db1)"
    using assms(4) base_writes(1) by (rule same_base_trans)
  moreover have "has_grant_row db1 t u d e" using u(2) assms(6) by (simp add: key_holder_def has_grant_row_def)
  ultimately have "key_holder (delete_grants (\<lambda>g. gr_tenant g = w \<and> gr_device g = c \<and> gr_user g = v) db1) t d e u"
    by (intro holder_kept [OF _ _ _ u(2)]) (simp_all only: device_grants_deleted [OF u(1)] spare_deleted assms(5))
  then show ?thesis unfolding key_held_holder ..
qed

lemma put_perm_rest: "put_perm p db = Inr db' \<Longrightarrow> db_grants db' = db_grants db"
  by (auto simp: put_perm_def split: option.splits)

lemma grant_put_kept: "put_grant_row g db = Inr db' \<Longrightarrow> has_grant_row db t u d e \<Longrightarrow> has_grant_row db' t u d e"
  by (auto simp: put_grant_row_def has_grant_row_def list_ex_map_same split: option.splits if_splits)

lemma held_step:
  assumes "run_op x op db = Inr db'" "key_held db t d e" "unretired db t d e" "device_of False db t d \<noteq> None"
  shows "key_held db' t d e"
proof -
  obtain u where u: "key_holder db t d e u" using assms(2) by (auto simp: key_held_holder)
  have base: "same_base db db'" using assms(1) by (rule base.S_run_op)
  have keep: "key_held db' t d e" if "has_grant_row db' t u d e" "standing db' t u = standing db t u"
    using holder_kept [OF that base u] by (auto simp: key_held_holder)
  have row: "has_grant_row db t u d e" using u by (simp add: key_holder_def)
  show ?thesis
  proof (cases op)
    case (SetDevicePermission w a p)
    with assms(1) obtain db1 where db1: "put_perm \<lparr>pm_tenant = w, pm_device = dp_device p, pm_user = dp_user p,
        pm_read = dp_read p, pm_send = dp_send p, pm_manage = dp_manage p\<rparr> db = Inr db1"
      "dp_read p \<Longrightarrow> db' = db1" "\<not> dp_read p \<Longrightarrow> stranded_devices db w (dp_user p) (Some (dp_device p)) = []
        \<and> db' = delete_grants (\<lambda>g. gr_tenant g = w \<and> gr_device g = dp_device p \<and> gr_user g = dp_user p) db1"
      by (auto simp: set_permission_def require_remaining_reader_def split: if_splits)
    show ?thesis
    proof (cases "dp_read p")
      case True
      then show ?thesis using row by (intro keep) (simp_all add: db1(2) put_row_kept(3) [OF db1(1)] has_grant_row_def put_perm_rest [OF db1(1)])
    next
      case False
      then show ?thesis using db1(3) take_grants_held [OF assms(2,3) _ base_results(2) [OF db1(1)]
          put_row_kept(3) [OF db1(1)] put_perm_rest [OF db1(1)]] by simp
    qed
  next
    case (RevokeGrant w c v)
    with assms(1) show ?thesis
      by (auto simp: revoke_grant_def require_remaining_reader_def intro!: take_grants_held [OF assms(2,3)] same_base_refl)
  next
    case (PutGrant g)
    with assms(1) have "put_grant_row g db = Inr db'" by (auto simp: put_grant_def)
    then show ?thesis using row by (intro keep) (simp_all add: grant_put_kept put_row_kept(4))
  next
    case (RevokeConnection w a i)
    with assms(1) obtain b where "end_connection (tx_now x) w i ''revoked'' ''console'' db = Inr (b, db')"
      by (auto simp: revoke_connection_def split: if_splits)
    from spares_holder [OF spare.R_end_connection [OF this] u] show ?thesis by (auto simp: key_held_holder)
  next
    case (UpdateMember w a v r st b)
    with assms(1) show ?thesis by (intro update_held [OF _ assms(2-4)]) simp
  next
    case (RemoveMember w a v b)
    with assms(1) show ?thesis by (intro remove_held [OF _ assms(2-4)]) simp
  next
    case (RevokeKey w k)
    with assms(1) have "db_members db' = db_members db \<and> db_grants db' = db_grants db" by (auto dest: keys_kept)
    then show ?thesis using row by (intro keep standing_same) (simp_all add: has_grant_row_def)
  next
    case (ExtendKey k w til)
    with assms(1) have "db_members db' = db_members db \<and> db_grants db' = db_grants db" by (auto dest: keys_kept)
    then show ?thesis using row by (intro keep standing_same) (simp_all add: has_grant_row_def)
  next
    case (IssueKey w q i p s h)
    with assms(1) have "db_members db' = db_members db \<and> db_grants db' = db_grants db" by (auto dest: keys_kept)
    then show ?thesis using row by (intro keep standing_same) (simp_all add: has_grant_row_def)
  qed
qed

end
