(* ===== verification/Access_Claims.thy ===== *)
theory Access_Claims
  imports Access_Props
begin

text \<open>
  The claims about workspace access, each with a run of the model on a small workspace where its hypotheses
  hold.
\<close>

section \<open>A small workspace\<close>

text \<open>Two owners, a member and a connection's service account; one live number whose key the first owner and
  the member hold; a key the member created; a content connection the member consented to.\<close>

definition sample_db :: db where
  "sample_db = \<lparr>db_tenants = [\<lparr>tn_id = 1, tn_status = ''active'', tn_personal = None\<rparr>],
     db_users = [\<lparr>us_id = 10, us_home = 1, us_email = ''a'', us_name = ''Ann'', us_role = ''owner'', us_status = ''active'', us_sub = None\<rparr>,
       \<lparr>us_id = 11, us_home = 1, us_email = ''b'', us_name = ''Bob'', us_role = ''owner'', us_status = ''active'', us_sub = None\<rparr>,
       \<lparr>us_id = 12, us_home = 1, us_email = ''c'', us_name = ''Cid'', us_role = ''member'', us_status = ''active'', us_sub = None\<rparr>,
       \<lparr>us_id = 13, us_home = 1, us_email = ''s'', us_name = '''', us_role = ''service'', us_status = ''active'', us_sub = None\<rparr>],
     db_members = [\<lparr>mb_tenant = 1, mb_user = 10, mb_role = ''owner'', mb_status = ''active'', mb_expires = None, mb_version = 1\<rparr>,
       \<lparr>mb_tenant = 1, mb_user = 11, mb_role = ''owner'', mb_status = ''active'', mb_expires = None, mb_version = 1\<rparr>,
       \<lparr>mb_tenant = 1, mb_user = 12, mb_role = ''member'', mb_status = ''active'', mb_expires = None, mb_version = 1\<rparr>,
       \<lparr>mb_tenant = 1, mb_user = 13, mb_role = ''service'', mb_status = ''active'', mb_expires = Some 900, mb_version = 1\<rparr>],
     db_devices = [\<lparr>dv_id = 20, dv_tenant = 1, dv_archive = 1, dv_epoch = 1, dv_deleted = None, dv_purge = None,
       dv_label = '''', dv_push = '''', dv_pn = ''55'', dv_lid = '''',
       dv_status = ''online'', dv_reason = '''', dv_paused = False, dv_cause = None, dv_pauses = 0,
       dv_connected = Some 5, dv_deleted_by = None, dv_purge_started = None, dv_leftover = None\<rparr>],
     db_perms = [\<lparr>pm_tenant = 1, pm_device = 20, pm_user = 10, pm_read = True, pm_send = True, pm_manage = False\<rparr>,
       \<lparr>pm_tenant = 1, pm_device = 20, pm_user = 12, pm_read = True, pm_send = True, pm_manage = True\<rparr>],
     db_grants = [\<lparr>gr_tenant = 1, gr_device = 20, gr_user = 10, gr_epoch = 1, gr_sealed = ''x''\<rparr>,
       \<lparr>gr_tenant = 1, gr_device = 20, gr_user = 12, gr_epoch = 1, gr_sealed = ''y''\<rparr>],
     db_archive_keys = [\<lparr>ak_tenant = 1, ak_device = 20, ak_epoch = 1, ak_retired = None\<rparr>],
     db_keys = [\<lparr>ky_id = 30, ky_tenant = 1, ky_prefix = ''aaaaaaaa'', ky_hash = ''h'', ky_creator = Some 12,
       ky_scope = ''send'', ky_acts = None, ky_restricted = False, ky_expires = None, ky_revoked = None, ky_version = 1\<rparr>],
     db_key_devices = [], db_sessions = [\<lparr>ss_id = 40, ss_tenant = Some 1, ss_user = 12, ss_token = ''t'', ss_expires = 900, ss_revoked = None\<rparr>],
     db_invites = [], db_connections = [\<lparr>cn_id = 50, cn_tenant = 1, cn_key = 30, cn_kind = ''content'', cn_status = ''active'',
       cn_service = Some 13, cn_creator = 12, cn_revoked = None, cn_reason = '''', cn_client = ''x'', cn_reader = ''r'',
       cn_expires = 900, cn_mode = ''draft'', cn_self = True, cn_groups = False, cn_paused = None\<rparr>],
     db_revoke_links = [], db_outbound = [], db_chats = [], db_messages = [], db_history = [], db_events = [], db_notices = [], db_prefs = [],
     db_contract_mode = ''off'', db_named = [], db_notice_seq = 1,
     db_capacity = [], db_media = [], db_archive = [], db_objects = [], db_transfers = [],
     db_wa_sessions = [(''55'', 7)], db_wa_tokens = [''55'']\<rparr>"

definition sample_tx :: tx where
  "sample_tx = \<lparr>tx_now = 100, tx_clock = 101, tx_event = (\<lambda>d. 500 + d), tx_label = (\<lambda>_ _ _ _. None)\<rparr>"

definition result :: "access_error + db \<Rightarrow> db" where
  "result r = (case r of Inr db \<Rightarrow> db | Inl _ \<Rightarrow> sample_db)"

definition is_done :: "access_error + 'a \<Rightarrow> bool" where
  "is_done r = (case r of Inr _ \<Rightarrow> True | Inl _ \<Rightarrow> False)"

lemma done_result: "is_done r \<Longrightarrow> r = Inr (result r)"
  by (simp add: is_done_def result_def split: sum.splits)

lemma done_pair: "is_done r \<Longrightarrow> (\<And>x y. r = Inr (x, y) \<Longrightarrow> thesis) \<Longrightarrow> thesis"
  by (cases r) (auto simp: is_done_def)

lemma one_step: "is_done (run_op x op db) \<Longrightarrow> access_steps db (result (run_op x op db))"
  using step [OF none] done_result by blast

definition removed_db :: db where
  "removed_db = result (remove_member sample_tx 1 10 12 False sample_db)"

definition disabled_db :: db where
  "disabled_db = result (update_member sample_tx 1 10 12 ''member'' ''disabled'' False sample_db)"

lemma sample_keyed: "keyed sample_db"
  by code_simp

lemma sample_removed: "remove_member sample_tx 1 10 12 False sample_db = Inr removed_db"
proof -
  have "is_done (remove_member sample_tx 1 10 12 False sample_db)" by code_simp
  then show ?thesis unfolding removed_db_def by (rule done_result)
qed

lemma sample_disabled: "update_member sample_tx 1 10 12 ''member'' ''disabled'' False sample_db = Inr disabled_db"
proof -
  have "is_done (update_member sample_tx 1 10 12 ''member'' ''disabled'' False sample_db)" by code_simp
  then show ?thesis unfolding disabled_db_def by (rule done_result)
qed

lemma sample_steps: "access_steps sample_db removed_db"
  using step [OF none, of sample_tx "RemoveMember 1 10 12 False" sample_db removed_db] sample_removed by simp

section \<open>Owners and keys\<close>

lemma keyed_steps: "access_steps db db' \<Longrightarrow> keyed db \<Longrightarrow> keyed db'"
  using key_shape.S_steps by blast

text \<open>The primary keys of the access tables hold across every operation: no change of members, permissions,
  grants, keys or connections makes two rows of one table share a key, so each query that reads one row reads
  the only one.\<close>

theorem primary_keys_hold:
  assumes "keyed db" "access_steps db db'"
  shows "keyed db'"
  using assms keyed_steps by blast

theorem primary_keys_hold_witness: "keyed removed_db"
  using primary_keys_hold [OF sample_keyed sample_steps] .

text \<open>C28: A workspace that has an active owner, whose own account is active, has one after any run of the
  operations that change members, permissions, grants, keys and connections: role changes, disables and
  removals, of the actor themselves included, and whatever ends along with them.\<close>

theorem workspace_keeps_an_owner:
  assumes "keyed db" "owned db t" "access_steps db db'"
  shows "owned db' t"
  using assms(3,1,2)
proof (induction rule: access_steps.induct)
  case (step db db' x op db'')
  then show ?case using owned_step keyed_steps by blast
qed

theorem workspace_keeps_an_owner_witness: "owned removed_db 1"
  using workspace_keeps_an_owner [OF sample_keyed _ sample_steps, of 1] by (simp add: owned_def sample_db_def status_active_def user_of_def)

text \<open>C27: The key of a live number is never stranded: an epoch in use of a number that is not deleted, whose
  archive key some standing member of the workspace holds, is still held by a standing member after any run of
  the operations. Removing or disabling someone, revoking a grant and taking back the read permission all
  refuse to take the last copy, and the owner's override reaches deleted numbers only.\<close>

theorem live_key_never_stranded:
  assumes "key_held db t d e" "unretired db t d e" "device_of False db t d \<noteq> None" "access_steps db db'"
  shows "key_held db' t d e"
proof -
  from assms(4) have "same_base db db'" by (rule base.S_steps)
  from assms(4,1-3) show ?thesis
  proof (induction rule: access_steps.induct)
    case (step db db' x op db'')
    from step.hyps(1) have "same_base db db'" by (rule base.S_steps)
    with step show ?case by (intro held_step [OF step.hyps(2)]) (simp_all add: same_base_reads)
  qed
qed

theorem live_key_never_stranded_witness: "key_held removed_db 1 20 1"
proof (rule live_key_never_stranded [OF _ _ _ sample_steps])
  show "key_held sample_db 1 20 1" by code_simp
  show "unretired sample_db 1 20 1" by code_simp
  show "device_of False sample_db 1 20 \<noteq> None" by (simp add: device_of_def sample_db_def sees_device_def)
qed

section \<open>The access version\<close>

text \<open>C31: An open connection that revalidates to the role and access version it was opened with has lost no
  right: whatever its member could do with a number then they can do now. Every operation that takes a right
  away moves the version, so the check a connection makes before a command or a delivery needs nothing else.\<close>

theorem unmoved_version_keeps_rights:
  assumes "keyed db" "access_steps db db'"
    and "connection_access now db t u s = Inr rv" "connection_access now db' t u s = Inr rv"
    and "device_permission_tx now db t u d = Inr p"
  shows "\<exists>p'. device_permission_tx now db' t u d = Inr p' \<and> (\<forall>a. perm_allows p a \<longrightarrow> perm_allows p' a)"
proof -
  note base = same_base_reads [OF base.S_steps [OF assms(2)]]
  have v: "version_ages t u db db'" using version.S_steps [OF assms(2)] assms(1) by blast
  obtain m m' where m: "member_of db t u = Some m" "member_of db' t u = Some m'" "mb_version m' = mb_version m"
    using assms(3,4) by (auto simp: connection_access_def split: option.splits if_splits)
  with v have lost: "m' = m" "nothing_lost t u db db'" by (auto simp: version_ages_def)
  obtain dv where dv: "device_of False db t d = Some dv"
    using assms(5) by (auto simp: device_permission_tx_def split: option.splits prod.splits)
  have key: "holds_key db t u dv \<Longrightarrow> holds_key db' t u dv"
    using lost(2) by (auto simp: nothing_lost_def has_grant_row_def holds_key_def list_ex_iff) blast
  have flag: "(case perm_of db t d u of None \<Rightarrow> False | Some p \<Rightarrow> f p) \<Longrightarrow> (case perm_of db' t d u of None \<Rightarrow> False | Some p \<Rightarrow> f p)" for f
    using lost(2) by (auto simp: nothing_lost_def split: option.splits)
  obtain p' where p': "device_permission_tx now db' t u d = Inr p'"
    using assms(5) m(1) m(2) lost(1) dv by (auto simp: device_permission_tx_def Let_def base split: if_splits)
  have "\<forall>a. perm_allows p a \<longrightarrow> perm_allows p' a"
  proof
    fix a
    show "perm_allows p a \<longrightarrow> perm_allows p' a"
      using assms(5) p' m lost(1) dv key flag [of pm_read] flag [of pm_send] flag [of pm_manage]
      by (cases a) (auto simp: device_permission_tx_def Let_def base split: if_splits)
  qed
  with p' show ?thesis by blast
qed

definition shared_db :: db where
  "shared_db = result (put_grant 100 \<lparr>gr_tenant = 1, gr_device = 20, gr_user = 11, gr_epoch = 1, gr_sealed = ''z''\<rparr> sample_db)"

lemma sample_shared: "access_steps sample_db shared_db"
proof -
  let ?g = "\<lparr>gr_tenant = 1, gr_device = 20, gr_user = 11, gr_epoch = 1, gr_sealed = ''z''\<rparr>"
  have "is_done (put_grant 100 ?g sample_db)" by code_simp
  then have "run_op sample_tx (PutGrant ?g) sample_db = Inr shared_db"
    by (simp add: sample_tx_def shared_db_def done_result)
  then show ?thesis by (rule step [OF none])
qed

theorem unmoved_version_keeps_rights_witness:
  "\<exists>p'. device_permission_tx 100 shared_db 1 11 20 = Inr p' \<and> dp_manage p'"
proof -
  let ?p = "\<lparr>dp_device = 20, dp_user = 11, dp_read = False, dp_send = False, dp_manage = True, dp_has_key = False, dp_pause = True\<rparr>"
  have "connection_access 100 sample_db 1 11 0 = Inr (''owner'', 1)" "connection_access 100 shared_db 1 11 0 = Inr (''owner'', 1)"
    "device_permission_tx 100 sample_db 1 11 20 = Inr ?p" by code_simp+
  from unmoved_version_keeps_rights [OF sample_keyed sample_shared this] show ?thesis
    by (metis device_permission.select_convs(5) perm_allows.simps(3))
qed

section \<open>Leaving\<close>

definition live_connections :: "db \<Rightarrow> uuid \<Rightarrow> uuid \<Rightarrow> connection_row list" where
  "live_connections db t u = filter (\<lambda>c. cn_tenant c = t \<and> live_status (cn_status c) \<and> (cn_service c = Some u \<or> cn_creator c = u))
     (db_connections db)"

lemma live_ended [simp]: "\<not> live_status ''revoked''"
  by (simp add: live_status_def)

lemma end_connection_live:
  assumes "end_connection now t i ''revoked'' reason db = Inr (b, db')" "distinct (map cn_id (db_connections db))"
  shows "cn_id ` set (live_connections db' t u) \<subseteq> cn_id ` set (live_connections db t u) - {i}"
proof -
  obtain c where c: "find (\<lambda>c. cn_id c = i \<and> cn_tenant c = t) (db_connections db) = Some c"
    and db': "db_connections db' = db_connections (close_rows now t ''revoked'' reason c db)"
    using assms(1)
  proof (cases rule: end_connection_cases)
    case (service c s)
    from service(4) have "db_connections db' = db_connections (close_rows now t ''revoked'' reason c db)"
      by (cases rule: remove_service_cases)
        (simp add: delete_member_def delete_perms_def delete_grants_def revoke_keys_def)
    with service(2) show ?thesis by (rule that)
  qed (use that in simp)
  have i: "c \<in> set (db_connections db)" "cn_id c = i" "cn_tenant c = t" using find_in [OF c] by auto
  have unique: "r = c" if "r \<in> set (db_connections db)" "cn_id r = i" for r
    using inj_onD [of cn_id "set (db_connections db)" r c] assms(2) that i by (simp add: distinct_map)
  have "r' \<in> set (live_connections db t u) \<and> cn_id r' \<noteq> i" if r': "r' \<in> set (live_connections db' t u)" for r'
  proof (cases "live_status (cn_status c)")
    case True
    let ?f = "\<lambda>r. if cn_id r = i \<and> cn_tenant r = t then end_row now ''revoked'' reason r else r"
    from True i(2) have "db_connections db' = map ?f (db_connections db)" by (simp add: db' close_rows_def Let_def)
    with r' obtain r where r: "r \<in> set (db_connections db)" "r' = ?f r" "cn_tenant r' = t" "live_status (cn_status r')"
      by (auto simp: live_connections_def)
    have "\<not> (cn_id r = i \<and> cn_tenant r = t)"
    proof
      assume "cn_id r = i \<and> cn_tenant r = t"
      with r(2) have "cn_status r' = ''revoked''" by (simp add: end_row_def)
      with r(4) show False by simp
    qed
    with r have "r' = r" "cn_id r' \<noteq> i" by auto
    with r' r(1) show ?thesis by (auto simp: live_connections_def)
  next
    case False
    then have "db_connections db' = db_connections db" by (simp add: db' close_rows_def Let_def)
    with r' False unique show ?thesis by (auto simp: live_connections_def)
  qed
  then show ?thesis by auto
qed

lemma end_all_live:
  "end_all now t removed cs db = Inr db' \<Longrightarrow> distinct (map cn_id (db_connections db))
   \<Longrightarrow> cn_id ` set (live_connections db' t u) \<subseteq> cn_id ` set (live_connections db t u) - fst ` set cs"
proof (induction cs arbitrary: db)
  case (Cons c cs)
  obtain i as_service where c: "c = (i, as_service)" by (cases c)
  with Cons.prems(1) obtain b db1 where 1: "end_connection now t i ''revoked'' (end_reason as_service removed) db = Inr (b, db1)"
    "end_all now t removed cs db1 = Inr db'" by auto
  have "map cn_id (db_connections db1) = map cn_id (db_connections db)"
    by (rule base_connection_ids [OF base.R_end_connection [OF 1(1)]])
  then have "cn_id ` set (live_connections db' t u) \<subseteq> cn_id ` set (live_connections db1 t u) - fst ` set cs"
    using Cons.IH [OF 1(2)] Cons.prems(2) by simp
  moreover note end_connection_live [OF 1(1) Cons.prems(2), of u]
  ultimately have "cn_id ` set (live_connections db' t u) \<subseteq> cn_id ` set (live_connections db t u) - {i} - fst ` set cs"
    by blast
  moreover have "fst ` set (c # cs) = insert i (fst ` set cs)" by (simp add: c)
  ultimately show ?case by blast
qed simp

lemma strand_connections: "db_connections (strand x t actor target cause ns db) = db_connections db"
proof -
  have 1: "db_connections (fold (\<lambda>m. put_notice (n m)) ms d) = db_connections d" for n ms d
    by (induction ms arbitrary: d) (simp_all add: put_notice_def Let_def)
  have "db_connections (strand_one x t actor target cause n d) = db_connections d" for n d
    unfolding strand_one_def Let_def 1 by (simp add: record_event_def)
  then show ?thesis unfolding strand_def by (induction ns arbitrary: db) simp_all
qed

lemma lose_access_live:
  assumes "lose_access x t actor target role override cause removed db = Inr db'" "keyed db"
  shows "live_connections db' t target = []"
proof -
  let ?db = "\<lambda>ns. strand x t actor target cause ns db"
  obtain ns where "end_all (tx_now x) t removed (connections_of_member (?db ns) t target) (?db ns) = Inr db'"
    using assms(1) by (auto simp: lose_access_def end_connections_of_member_def)
  from end_all_live [OF this, of target] assms(2)
  have "cn_id ` set (live_connections db' t target)
      \<subseteq> cn_id ` set (live_connections db t target) - fst ` set (connections_of_member (?db ns) t target)"
    by (simp add: strand_connections keyed_def live_connections_def)
  moreover have "fst ` set (connections_of_member (?db ns) t target) = cn_id ` set (live_connections db t target)"
    by (simp add: connections_of_member_def live_connections_def strand_connections image_image)
  ultimately show ?thesis by simp
qed

text \<open>What is left in no table once a member is erased.\<close>

lemma revoked_keys:
  assumes "k \<in> set (db_keys (revoke_keys now P db))" "\<And>k r. P (k\<lparr>ky_revoked := r\<rparr>) = P k" "P k"
  shows "ky_revoked k \<noteq> None"
proof -
  obtain k0 where "k = (if P k0 \<and> ky_revoked k0 = None then k0\<lparr>ky_revoked := Some now\<rparr> else k0)"
    using assms(1) by (auto simp: revoke_keys_def simp del: if_image_distrib)
  then show ?thesis using assms(2,3) by (cases "P k0 \<and> ky_revoked k0 = None") auto
qed

lemma revoked_sessions:
  assumes "s \<in> set (db_sessions (revoke_sessions now P db))" "\<And>s r. P (s\<lparr>ss_revoked := r\<rparr>) = P s" "P s"
  shows "ss_revoked s \<noteq> None"
proof -
  obtain s0 where "s = (if P s0 \<and> ss_revoked s0 = None then s0\<lparr>ss_revoked := Some now\<rparr> else s0)"
    using assms(1) by (auto simp: revoke_sessions_def simp del: if_image_distrib)
  then show ?thesis using assms(2,3) by (cases "P s0 \<and> ss_revoked s0 = None") auto
qed

lemma statement_tables [simp]:
  "db_keys (delete_grants P db) = db_keys db" "db_keys (delete_perms Q db) = db_keys db"
  "db_keys (delete_member w v M db) = db_keys db" "db_keys (revoke_sessions now S db) = db_keys db"
  "db_sessions (delete_grants P db) = db_sessions db" "db_sessions (delete_perms Q db) = db_sessions db"
  "db_sessions (delete_member w v M db) = db_sessions db" "db_sessions (revoke_keys now K db) = db_sessions db"
  "db_connections (delete_grants P db) = db_connections db" "db_connections (delete_perms Q db) = db_connections db"
  "db_connections (delete_member w v M db) = db_connections db" "db_connections (revoke_keys now K db) = db_connections db"
  "db_connections (revoke_sessions now S db) = db_connections db" "db_connections (expire_made_invites now w v db) = db_connections db"
  by (simp_all add: delete_grants_def delete_perms_def delete_member_def revoke_sessions_def revoke_keys_def expire_made_invites_def)

lemma erased:
  fixes x :: tx and t u email db
  defines "db' \<equiv> erase_member x t u email db"
  shows "member_of db' t u = None"
    and "k \<in> set (db_keys db') \<Longrightarrow> ky_tenant k = t \<Longrightarrow> ky_acts k = Some u \<or> ky_creator k = Some u \<Longrightarrow> ky_revoked k \<noteq> None"
    and "s \<in> set (db_sessions db') \<Longrightarrow> ss_tenant s = Some t \<Longrightarrow> ss_user s = u \<Longrightarrow> ss_revoked s \<noteq> None"
    and "\<not> has_grant_row db' t u d e" and "live_connections db' w v = live_connections db w v"
proof -
  show "member_of db' t u = None"
    by (auto simp: db'_def erase_member_def Let_def member_of_def delete_member_def find_None_iff list_ex_iff)
  show "\<not> has_grant_row db' t u d e"
    by (simp add: db'_def erase_member_def Let_def) (auto simp: has_grant_row_def delete_grants_def list_ex_iff)
  show "live_connections db' w v = live_connections db w v"
    by (simp add: db'_def erase_member_def Let_def live_connections_def)
next
  assume "k \<in> set (db_keys db')" "ky_tenant k = t" "ky_acts k = Some u \<or> ky_creator k = Some u"
  then show "ky_revoked k \<noteq> None"
    unfolding db'_def erase_member_def Let_def statement_tables by (elim revoked_keys) simp_all
next
  have "db_sessions db' = db_sessions (revoke_sessions (tx_now x) (\<lambda>s. ss_tenant s = Some t \<and> ss_user s = u) db)"
    unfolding db'_def erase_member_def Let_def statement_tables by (simp add: revoke_sessions_def)
  moreover assume "s \<in> set (db_sessions db')" "ss_tenant s = Some t" "ss_user s = u"
  ultimately show "ss_revoked s \<noteq> None"
    by (intro revoked_sessions [of s "tx_now x" "\<lambda>s. ss_tenant s = Some t \<and> ss_user s = u" db]) simp_all
qed

text \<open>C30: A removed member can do nothing in the workspace: no number answers a permission for them, no
  connection of theirs revalidates, every session they had there and every API key they created or that acts
  as them is revoked, they hold no archive key there, and no connection they consented to, or whose service
  account they were, is live.\<close>

theorem removed_member_locked_out:
  assumes "keyed db" "remove_member x t actor u b db = Inr db'"
  shows "device_permission_tx now db' t u d = Inl RowNotFound \<and> connection_access now db' t u s = Inl NoSession
    \<and> \<not> has_grant_row db' t u d e \<and> live_connections db' t u = []
    \<and> \<not> list_ex (\<lambda>k. ky_tenant k = t \<and> (ky_acts k = Some u \<or> ky_creator k = Some u) \<and> ky_revoked k = None) (db_keys db')
    \<and> \<not> list_ex (\<lambda>s. ss_tenant s = Some t \<and> ss_user s = u \<and> ss_revoked s = None) (db_sessions db')"
  using assms(2)
proof (cases rule: remove_cases)
  case (removed m r db1 actor_role)
  note e = erased [where x = x and t = t and u = u and email = "us_email r" and db = db1, folded removed(7)]
  show ?thesis
    using e(2,3) lose_access_live [OF removed(6) assms(1)]
    by (auto simp: device_permission_tx_def connection_access_def e(1,4,5) list_ex_iff split: option.splits)
qed

theorem removed_member_locked_out_witness:
  "device_permission_tx 100 removed_db 1 12 20 = Inl RowNotFound \<and> device_permission_tx 100 sample_db 1 12 20 \<noteq> Inl RowNotFound
   \<and> live_connections removed_db 1 12 = [] \<and> live_connections sample_db 1 12 \<noteq> []"
proof -
  have "device_permission_tx 100 sample_db 1 12 20 \<noteq> Inl RowNotFound" "live_connections sample_db 1 12 \<noteq> []"
    by code_simp+
  then show ?thesis using removed_member_locked_out [OF sample_keyed sample_removed] by blast
qed

text \<open>Stripping a disabled member.\<close>

lemma stripped:
  fixes now :: timestamp and t u db
  defines "db' \<equiv> strip_access now t u db"
  shows "perm_of db' t d u = None" and "\<not> has_grant_row db' t u d e"
    and "k \<in> set (db_keys db') \<Longrightarrow> ky_tenant k = t \<Longrightarrow> ky_acts k = Some u \<or> ky_creator k = Some u \<Longrightarrow> ky_revoked k \<noteq> None"
proof -
  show "perm_of db' t d u = None"
    by (auto simp: db'_def strip_access_def perm_of_def find_None_iff revoke_keys_def delete_grants_def delete_perms_def)
  show "\<not> has_grant_row db' t u d e"
    by (auto simp: db'_def strip_access_def has_grant_row_def list_ex_iff revoke_keys_def delete_grants_def delete_perms_def)
next
  assume "k \<in> set (db_keys db')" "ky_tenant k = t" "ky_acts k = Some u \<or> ky_creator k = Some u"
  then show "ky_revoked k \<noteq> None"
    unfolding db'_def strip_access_def by (elim revoked_keys) simp_all
qed

text \<open>Making the member active again writes neither permissions nor grants nor keys.\<close>

lemma reenabled:
  assumes "update_member x t actor u role ''active'' b db = Inr db'"
  shows "db_perms db' = db_perms db" "db_grants db' = db_grants db" "db_keys db' = db_keys db"
    "member_of db' t u = Some m \<Longrightarrow> mb_role m = role"
proof -
  have *: "db_perms db' = db_perms db \<and> db_grants db' = db_grants db \<and> db_keys db' = db_keys db
      \<and> (\<forall>m. member_of db' t u = Some m \<longrightarrow> mb_role m = role)"
    using assms
  proof (cases rule: update_cases)
    case (same m)
    then show ?thesis by simp
  next
    case (changed m db1 actor_role)
    then show ?thesis
      by (auto simp: change_member_def set_member_def revoke_sessions_def expire_made_invites_def Let_def member_of_def
          find_map dest!: find_in split: if_splits)
  qed
  then show "db_perms db' = db_perms db" "db_grants db' = db_grants db" "db_keys db' = db_keys db"
    "member_of db' t u = Some m \<Longrightarrow> mb_role m = role" by auto
qed

text \<open>Disabling an active member strips everything, and making them active again, in whatever role, restores
  none of it: no number can be read or sent from by them, they hold no key, they manage a number only by the
  role they come back with, and every API key they created or that acts as them stays revoked.\<close>

theorem reenabling_restores_nothing:
  assumes "update_member x t actor u role ''disabled'' b db = Inr db1" "member_of db t u = Some m" "mb_status m = ''active''"
    and "update_member x' t actor' u role' ''active'' b' db1 = Inr db2" "device_permission_tx now db2 t u d = Inr p"
  shows "\<not> dp_read p \<and> \<not> dp_send p \<and> \<not> dp_has_key p \<and> (dp_manage p \<longrightarrow> manager_role role')
    \<and> \<not> list_ex (\<lambda>k. ky_tenant k = t \<and> (ky_acts k = Some u \<or> ky_creator k = Some u) \<and> ky_revoked k = None) (db_keys db2)"
proof -
  obtain db0 where db1: "db1 = strip_access (tx_now x) t u db0"
    using assms(1)
  proof (cases rule: update_cases)
    case (same m')
    with assms(2,3) show ?thesis by simp
  next
    case (changed m' db' actor_role)
    then show ?thesis using that by (auto simp: change_member_def Let_def)
  qed
  note s = stripped [where now = "tx_now x" and t = t and u = u and db = db0, folded db1]
  note r = reenabled [OF assms(4)]
  have "perm_of db2 t d u = None" using s(1) r(1) by (simp add: perm_of_def)
  moreover have "\<not> has_grant_row db2 t u d e" for e using s(2) r(2) by (simp add: has_grant_row_def)
  then have "\<not> holds_key db2 t u v" if "dv_id v = d" for v
    using that by (auto simp: holds_key_def has_grant_row_def list_ex_iff)
  moreover have "\<not> list_ex (\<lambda>k. ky_tenant k = t \<and> (ky_acts k = Some u \<or> ky_creator k = Some u) \<and> ky_revoked k = None) (db_keys db2)"
    using s(3) r(3) by (auto simp: list_ex_iff)
  ultimately show ?thesis
    using assms(5) r(4) by (auto simp: device_permission_tx_def Let_def device_of_def split: option.splits if_splits dest!: find_in)
qed

definition reenabled_db :: db where
  "reenabled_db = result (update_member sample_tx 1 10 12 ''member'' ''active'' False disabled_db)"

theorem reenabling_restores_nothing_witness:
  "\<exists>p. device_permission_tx 100 reenabled_db 1 12 20 = Inr p \<and> \<not> dp_read p"
proof -
  have "is_done (update_member sample_tx 1 10 12 ''member'' ''active'' False disabled_db)" by code_simp
  then have 1: "update_member sample_tx 1 10 12 ''member'' ''active'' False disabled_db = Inr reenabled_db"
    unfolding reenabled_db_def by (rule done_result)
  have 2: "member_of sample_db 1 12 = Some \<lparr>mb_tenant = 1, mb_user = 12, mb_role = ''member'', mb_status = ''active'', mb_expires = None, mb_version = 1\<rparr>"
    by code_simp
  have "\<not> is_done (device_permission_tx 100 reenabled_db 1 12 20) \<Longrightarrow> False" by code_simp
  then obtain p where p: "device_permission_tx 100 reenabled_db 1 12 20 = Inr p"
    by (cases "device_permission_tx 100 reenabled_db 1 12 20") (auto simp: is_done_def)
  with reenabling_restores_nothing [OF sample_disabled 2 _ 1 p] show ?thesis by simp
qed

text \<open>Only the owners of a workspace touch owners and admins: when an admin's change of a member succeeds
  and changes anything, the member was neither an owner nor an admin before and is neither after; and nobody
  but an active owner or admin of an active workspace changes a member at all.\<close>

theorem admins_never_touch_managers:
  assumes "update_member x t actor u role status b db = Inr db'"
  shows "(\<exists>r. lock_workspace_manager db t actor = Inr r \<and> manager_role r
      \<and> (r \<noteq> ''owner'' \<longrightarrow> db' = db \<or> (\<exists>m. member_of db t u = Some m \<and> \<not> manager_role (mb_role m) \<and> \<not> manager_role role)))"
proof -
  obtain r where r: "lock_workspace_manager db t actor = Inr r"
    using assms by (auto simp: update_member_def split: if_splits)
  then have "manager_role r"
    by (auto simp: lock_workspace_manager_def split: if_splits option.splits)
  with r have "lock_workspace_manager db t actor = Inr r \<and> manager_role r" by simp
  moreover have "r \<noteq> ''owner'' \<longrightarrow> db' = db \<or> (\<exists>m. member_of db t u = Some m \<and> \<not> manager_role (mb_role m) \<and> \<not> manager_role role)"
    using assms
  proof (cases rule: update_cases)
    case (changed m db1 actor_role)
    with r show ?thesis by auto
  qed simp
  ultimately show ?thesis by blast
qed

theorem admins_never_touch_managers_witness:
  "\<exists>r. lock_workspace_manager sample_db 1 10 = Inr r \<and> manager_role r"
  using admins_never_touch_managers [OF sample_disabled] by blast

section \<open>Keys\<close>

lemma cut_split: "c \<in> set s \<Longrightarrow> s = takeWhile (\<lambda>d. d \<noteq> c) s @ c # drop (length (takeWhile (\<lambda>d. d \<noteq> c) s) + 1) s"
  by (induction s) auto

lemma verify_cases [consumes 1, case_names valid]:
  assumes "verify_key matches now db presented = Inr v"
  obtains k secret where "k \<in> set (db_keys db)" "ky_revoked k = None" "before now (ky_expires k)" "tenant_active db (ky_tenant k)"
    "matches secret (ky_hash k)" "presented = ky_prefix k @ CHR ''.'' # secret" "vf_id v = ky_id k" "vf_tenant v = ky_tenant k"
    "vf_scope v = ky_scope k" "vf_acts v = ky_acts k"
proof -
  let ?pfx = "takeWhile (\<lambda>c. c \<noteq> CHR ''.'') presented"
  let ?secret = "drop (length ?pfx + 1) presented"
  obtain k where k: "find (\<lambda>k. ky_prefix k = ?pfx \<and> ky_revoked k = None \<and> before now (ky_expires k)
      \<and> tenant_active db (ky_tenant k)) (db_keys db) = Some k"
    "CHR ''.'' \<in> set presented" "matches ?secret (ky_hash k)" "vf_id v = ky_id k" "vf_tenant v = ky_tenant k"
    "vf_scope v = ky_scope k" "vf_acts v = ky_acts k"
    using assms by (auto simp: verify_key_def Let_def split: if_splits option.splits)
  have "presented = ?pfx @ CHR ''.'' # ?secret"
    using cut_split [OF k(2)] .
  with k find_in [OF k(1)] show ?thesis by (intro that [of k ?secret]) auto
qed

lemma unique_key: "keyed db \<Longrightarrow> k \<in> set (db_keys db) \<Longrightarrow> k' \<in> set (db_keys db) \<Longrightarrow> ky_id k = ky_id k' \<Longrightarrow> k = k'"
  using inj_onD [of ky_id "set (db_keys db)" k k'] by (simp add: keyed_def distinct_map)

lemma unique_prefix: "keyed db \<Longrightarrow> k \<in> set (db_keys db) \<Longrightarrow> k' \<in> set (db_keys db) \<Longrightarrow> ky_prefix k = ky_prefix k' \<Longrightarrow> k = k'"
  using inj_onD [of ky_prefix "set (db_keys db)" k k'] by (simp add: keyed_def distinct_map)

text \<open>C29: What a presented API key may do: whenever a token authenticates as a key and an action on a number is
  then allowed, the token is the prefix and matching secret of one key row that is not revoked and before its
  deadline, in an active workspace; the row's scope covers the action; the number is a visible one of that
  workspace and on the key's list if it has one; and a key that acts as a service account passes only what
  that account's own permission allows.\<close>

theorem key_is_a_ceiling:
  assumes "keyed db" "authenticate digest matches sessions keys now db raw = Inr a" "ac_key a \<noteq> uuid_nil"
    and "allows sessions keys now db a d action = Inr True"
  shows "\<exists>k secret. k \<in> set (db_keys db) \<and> trim_space raw = ky_prefix k @ CHR ''.'' # secret \<and> matches secret (ky_hash k)
    \<and> ky_revoked k = None \<and> before now (ky_expires k) \<and> tenant_active db (ky_tenant k)
    \<and> covers (ky_scope k) (needed_scope action) \<and> device_of False db (ky_tenant k) d \<noteq> None
    \<and> (ky_restricted k \<longrightarrow> (ky_id k, d) \<in> set (db_key_devices db))
    \<and> (\<forall>u. ky_acts k = Some u \<and> u \<noteq> uuid_nil \<longrightarrow>
        (\<exists>p. device_permission_tx now db (ky_tenant k) u d = Inr p \<and> perm_allows p action))"
proof -
  obtain v where v: "verify_key matches now db (trim_space raw) = Inr v" "key_actor sessions now db v = Inr a"
    using assms(2,3) by (auto simp: authenticate_def Let_def split: sum.splits if_splits)
  from v(1) obtain k secret where k: "k \<in> set (db_keys db)" "ky_revoked k = None" "before now (ky_expires k)"
    "tenant_active db (ky_tenant k)" "matches secret (ky_hash k)" "trim_space raw = ky_prefix k @ CHR ''.'' # secret"
    "vf_id v = ky_id k" "vf_tenant v = ky_tenant k" "vf_scope v = ky_scope k" "vf_acts v = ky_acts k"
    by (rule verify_cases)
  have a: "ac_key a = ky_id k" "ac_tenant a = ky_tenant k" "ac_scope a = ky_scope k"
    "ky_acts k = None \<Longrightarrow> ac_user a = uuid_nil" "\<And>u. ky_acts k = Some u \<Longrightarrow> ac_user a = u"
    using v(2) k by (auto simp: key_actor_def Let_def split: option.splits if_splits sum.splits)
  have al: "covers (ky_scope k) (needed_scope action)" "allows_device db (ky_id k) (ky_tenant k) d"
    using assms(3,4) a by (auto simp: allows_def Let_def split: if_splits)
  from al(2) obtain k' where k': "k' \<in> set (db_keys db)" "ky_id k' = ky_id k"
    "list_ex (\<lambda>v. dv_id v = d \<and> sees_device False (ky_tenant k) v \<and> dv_tenant v = ky_tenant k') (db_devices db)"
    "ky_restricted k' \<longrightarrow> (ky_id k, d) \<in> set (db_key_devices db)"
    unfolding allows_device_def list_ex_iff by blast
  from unique_key [OF assms(1) k'(1) k(1) k'(2)] have kk: "k' = k" .
  have dev: "device_of False db (ky_tenant k) d \<noteq> None"
    using k'(3) by (auto simp: device_of_def list_ex_iff find_None_iff)
  have "\<exists>p. device_permission_tx now db (ky_tenant k) u d = Inr p \<and> perm_allows p action"
    if "ky_acts k = Some u" "u \<noteq> uuid_nil" for u
    using assms(3,4) a that by (auto simp: allows_def Let_def split: if_splits sum.splits access_error.splits)
  then show ?thesis using k al(1) dev k'(4) kk by blast
qed

theorem key_is_a_ceiling_witness:
  "\<exists>k secret. k \<in> set (db_keys sample_db) \<and> trim_space ''aaaaaaaa.z'' = ky_prefix k @ CHR ''.'' # secret \<and> covers (ky_scope k) ''send''"
proof -
  have t: "trim_space ''aaaaaaaa.z'' = ''aaaaaaaa.z''" by (rule trim_space_id) (simp add: visible_def)
  have 1: "authenticate (\<lambda>_. None) (\<lambda>s h. s = ''z'') True True 100 sample_db ''aaaaaaaa.z'' = Inr \<lparr>ac_tenant = 1, ac_user = 0,
      ac_key = 30, ac_scope = ''send'', ac_role = ''''\<rparr>"
    unfolding authenticate_def t by code_simp
  have 2: "allows True True 100 sample_db \<lparr>ac_tenant = 1, ac_user = 0, ac_key = 30, ac_scope = ''send'', ac_role = ''''\<rparr> 20 ActionSend = Inr True"
    by code_simp
  from key_is_a_ceiling [OF sample_keyed 1 _ 2] show ?thesis by (auto simp: needed_scope_def)
qed

text \<open>A revoked key never verifies again: after any run of the operations its prefix, with any secret, is an
  invalid key. No operation clears a revocation, extends a revoked key or issues its prefix anew.\<close>

theorem dead_key_stays_dead:
  assumes "keyed db" "access_steps db db'" "list_ex (\<lambda>k. ky_prefix k = pfx \<and> ky_revoked k \<noteq> None) (db_keys db)"
    and "CHR ''.'' \<notin> set pfx"
  shows "verify_key matches now db' (pfx @ CHR ''.'' # secret) = Inl InvalidKey"
proof -
  obtain k where k: "k \<in> set (db_keys db)" "ky_prefix k = pfx" "ky_revoked k \<noteq> None"
    using assms(3) by (auto simp: list_ex_iff)
  obtain ks new where ks: "db_keys db' = ks @ new" "list_all2 key_ages (db_keys db) ks"
    using key_growth.S_steps [OF assms(2)] by (auto simp: keys_age_def)
  from ks(2) k(1) obtain k' where "k' \<in> set ks" "key_ages k k'"
    by (auto simp: list_all2_conv_all_nth in_set_conv_nth) blast
  with k(3) ks(1) have k': "k \<in> set (db_keys db')" by (auto simp: key_ages_def)
  have "find (\<lambda>k. ky_prefix k = pfx \<and> ky_revoked k = None \<and> before now (ky_expires k)
      \<and> tenant_active db' (ky_tenant k)) (db_keys db') = None"
    unfolding find_None_iff using unique_prefix [OF keyed_steps [OF assms(2,1)] k'] k by (metis option.distinct(1))
  moreover have "takeWhile (\<lambda>c. c \<noteq> CHR ''.'') (pfx @ CHR ''.'' # secret) = pfx"
    using assms(4) by (auto simp: takeWhile_append)
  ultimately show ?thesis by (simp add: verify_key_def Let_def)
qed

theorem dead_key_stays_dead_witness:
  "verify_key (\<lambda>_ _. True) 100 removed_db (''aaaaaaaa'' @ CHR ''.'' # ''z'') = Inl InvalidKey"
proof -
  have "list_ex (\<lambda>k. ky_prefix k = ''aaaaaaaa'' \<and> ky_revoked k \<noteq> None) (db_keys removed_db)" by code_simp
  from dead_key_stays_dead [OF keyed_steps [OF sample_steps sample_keyed] none this] show ?thesis by simp
qed

text \<open>A key just issued verifies to the workspace, scope and account it was issued for until its deadline,
  and from the deadline on it is an invalid key; the deadline, when there is one, lies after the issue and at
  most 365 days out, and the scope is one of the three names.\<close>

theorem issued_key_verifies_until_its_deadline:
  assumes "issue_key clock now db t q i pfx secret hash = Inr (tok, db')"
    and "length pfx = prefix_len" "CHR ''.'' \<notin> set pfx" "secret \<noteq> []" "matches secret hash"
  shows "verify_key matches now' db' tok = (if before now' (iq_expires q)
      then Inr \<lparr>vf_version = 1 + int (length (case iq_devices q of None \<Rightarrow> [] | Some ds \<Rightarrow> ds)), vf_id = i, vf_tenant = t,
        vf_prefix = pfx, vf_scope = iq_scope q, vf_acts = iq_acts q\<rparr>
      else Inl InvalidKey)
    \<and> iq_scope q \<in> {''read'', ''send'', ''full''}
    \<and> (\<forall>e. iq_expires q = Some e \<longrightarrow> clock < e \<and> e \<le> clock + max_key_lifetime)"
proof -
  let ?ds = "case iq_devices q of None \<Rightarrow> [] | Some ds \<Rightarrow> ds"
  let ?row = "\<lparr>ky_id = i, ky_tenant = t, ky_prefix = pfx, ky_hash = hash, ky_creator = iq_creator q, ky_scope = iq_scope q,
    ky_acts = iq_acts q, ky_restricted = (iq_devices q \<noteq> None), ky_expires = iq_expires q, ky_revoked = None,
    ky_version = 1 + int (length ?ds)\<rparr>"
  have ok: "tenant_active db t" "\<forall>k \<in> set (db_keys db). ky_prefix k \<noteq> pfx" "iq_scope q \<in> {''read'', ''send'', ''full''}"
    "tok = pfx @ CHR ''.'' # secret" "db' = db\<lparr>db_keys := db_keys db @ [?row], db_key_devices := db_key_devices db @ map (Pair i) ?ds\<rparr>"
    "\<And>e. iq_expires q = Some e \<Longrightarrow> clock < e \<and> e \<le> clock + max_key_lifetime"
    using assms(1)
    by (auto simp: issue_key_def Let_def list_ex_iff issue_checks_def tenant_active_def check_key_expiry_def split: option.splits)
  have "find (\<lambda>k. ky_prefix k = pfx \<and> ky_revoked k = None \<and> before now' (ky_expires k) \<and> tenant_active db' (ky_tenant k)) (db_keys db)
      = None"
    using ok(2) by (auto simp: find_None_iff)
  then have "find (\<lambda>k. ky_prefix k = pfx \<and> ky_revoked k = None \<and> before now' (ky_expires k) \<and> tenant_active db' (ky_tenant k)) (db_keys db')
      = (if before now' (iq_expires q) then Some ?row else None)"
    using ok(1) by (simp add: ok(5) find_append tenant_active_def tenant_of_def)
  moreover have "takeWhile (\<lambda>c. c \<noteq> CHR ''.'') tok = pfx"
    using assms(3) by (auto simp: takeWhile_append ok(4))
  ultimately show ?thesis
    using assms(2,4,5) ok(3,6) by (auto simp: verify_key_def Let_def ok(4) check_key_expiry_def)
qed

definition sample_request :: issue_request where
  "sample_request = \<lparr>iq_name = ''n'', iq_scope = ''read'', iq_creator = Some 10, iq_acts = None, iq_devices = Some [20],
     iq_expires = Some 500\<rparr>"

theorem issued_key_verifies_until_its_deadline_witness:
  "\<exists>tok db'. issue_key 101 100 sample_db 1 sample_request 31 ''bbbbbbbb'' ''zz'' ''zz'' = Inr (tok, db')
     \<and> verify_key (\<lambda>s h. s = h) 200 db' tok \<noteq> Inl InvalidKey \<and> verify_key (\<lambda>s h. s = h) 500 db' tok = Inl InvalidKey"
proof -
  have "is_done (issue_key 101 100 sample_db 1 sample_request 31 ''bbbbbbbb'' ''zz'' ''zz'')" by code_simp
  then obtain tok db' where i: "issue_key 101 100 sample_db 1 sample_request 31 ''bbbbbbbb'' ''zz'' ''zz'' = Inr (tok, db')"
    by (rule done_pair)
  from issued_key_verifies_until_its_deadline [OF i, of "\<lambda>s h. s = h" 200]
    issued_key_verifies_until_its_deadline [OF i, of "\<lambda>s h. s = h" 500] i
  show ?thesis by (simp add: prefix_len_def sample_request_def before_def)
qed

text \<open>Pausing and resuming a number's capture is by role: when it is allowed to an actor with an account, the
  account's membership is an owner's or an admin's, or a service account's with its own stored Manage flag,
  never a member's through a flag; and a key needs the full scope for it.\<close>

theorem pause_by_role:
  assumes "allows sessions keys now db a d ActionPause = Inr True"
  shows "(ac_user a \<noteq> uuid_nil \<longrightarrow> (\<exists>m. member_of db (ac_tenant a) (ac_user a) = Some m \<and>
        (manager_role (mb_role m) \<or> mb_role m = ''service'' \<and>
          (\<exists>p. perm_of db (ac_tenant a) d (ac_user a) = Some p \<and> pm_manage p))))
    \<and> (ac_key a \<noteq> uuid_nil \<longrightarrow> ac_scope a = ''full'')"
proof -
  have full: "covers k ''full'' \<Longrightarrow> k = ''full''" for k by (auto simp: covers_def rank_def split: if_splits)
  have "\<exists>m. member_of db (ac_tenant a) (ac_user a) = Some m \<and>
        (manager_role (mb_role m) \<or> mb_role m = ''service'' \<and>
          (\<exists>p. perm_of db (ac_tenant a) d (ac_user a) = Some p \<and> pm_manage p))" if user: "ac_user a \<noteq> uuid_nil"
  proof -
    obtain p where p: "device_permission_tx now db (ac_tenant a) (ac_user a) d = Inr p" "dp_pause p"
      using assms user by (auto simp: allows_def Let_def split: if_splits sum.splits access_error.splits)
    then show ?thesis
      by (auto simp: device_permission_tx_def Let_def split: option.splits if_splits)
  qed
  moreover have "ac_scope a = ''full''" if "ac_key a \<noteq> uuid_nil"
    using assms that by (intro full) (auto simp: allows_def needed_scope_def Let_def split: if_splits)
  ultimately show ?thesis by blast
qed

theorem pause_by_role_witness:
  "allows True True 100 sample_db \<lparr>ac_tenant = 1, ac_user = 12, ac_key = 0, ac_scope = '''', ac_role = ''member''\<rparr> 20 ActionPause = Inr False
   \<and> (\<exists>m. member_of sample_db 1 10 = Some m \<and> manager_role (mb_role m))"
proof -
  have "allows True True 100 sample_db \<lparr>ac_tenant = 1, ac_user = 10, ac_key = 0, ac_scope = '''', ac_role = ''owner''\<rparr> 20 ActionPause = Inr True"
    by code_simp
  from pause_by_role [OF this] have "\<exists>m. member_of sample_db 1 10 = Some m \<and> manager_role (mb_role m)"
    by (auto simp: perm_of_def sample_db_def)
  moreover have "allows True True 100 sample_db \<lparr>ac_tenant = 1, ac_user = 12, ac_key = 0, ac_scope = '''', ac_role = ''member''\<rparr> 20 ActionPause = Inr False"
    by code_simp
  ultimately show ?thesis by blast
qed

end
