(* ===== verification/Outbound.thy ===== *)
theory Outbound
  imports Access_Members
begin

text \<open>
  The ledger of drafts and sends of an assistant's connection (internal/store/mcp_send.go): what it takes
  to record a draft, a send or a refusal, how a person claims or discards a draft, how a send ends, what
  the janitor ages, and the limits. An operation is one transaction under the connection's row lock (a
  draft's for \<^verbatim>\<open>ClaimDraft\<close> and \<^verbatim>\<open>DiscardDraft\<close>), the workspace's sends counted under a lock of the workspace.
  It takes the clocks it reads as arguments: \<open>sx_now\<close> is the transaction's start, \<open>sx_wall\<close> the server's
  \<^verbatim>\<open>time.Now()\<close>, and \<open>sx_check\<close> and \<open>sx_clock\<close> the \<^verbatim>\<open>clock_timestamp()\<close> of the interval's check and of the
  row's insertion. JIDs belong to the WhatsApp library: reading and printing one is the record \<open>jids\<close>.
\<close>

record send_tx =
  sx_now :: timestamp
  sx_wall :: timestamp
  sx_check :: timestamp
  sx_clock :: timestamp

record jids =
  jd_user :: "string \<Rightarrow> string"
  jd_lid :: "string \<Rightarrow> string"
  jd_pn :: "string \<Rightarrow> string"

record send_limits =
  sl_drafts_hour :: int
  sl_pending :: int
  sl_day :: int
  sl_chat_day :: int
  sl_interval :: duration
  sl_tenant_day :: int

datatype send_error =
    Access access_error | ConnectionState | SendNotAllowed | ChatNotEligible | GroupNotAllowed
  | ReplyNotFound | TextNotAllowed | DraftExists | DraftState | DraftMismatch | OutboundNotFound
  | RateLimited timestamp | BadQuery

abbreviation (input) hour :: duration where
  "hour \<equiv> 60 * minute"

abbreviation (input) day :: duration where
  "day \<equiv> 24 * hour"

definition draft_ttl :: duration where
  "draft_ttl = 24 * hour"

definition max_refusals :: int where
  "max_refusals = 100"

definition retention :: duration where
  "retention = 365 * 24 * hour"

definition stale_sending :: duration where
  "stale_sending = 10 * minute"

definition max_pending_listed :: nat where
  "max_pending_listed = 20"

definition max_outbound_page :: int where
  "max_outbound_page = 50"

definition outbound_statuses :: "string list" where
  "outbound_statuses = [''pending'', ''sending'', ''sent'', ''uncertain'', ''discarded'', ''expired'', ''revoked'', ''refused'']"

section \<open>The table\<close>

text \<open>The CHECK constraints of mcp_outbound (0044). Lengths count characters, which in UTF-8 are the bytes
  that do not continue one.\<close>

definition characters :: "string \<Rightarrow> int" where
  "characters s = int (length (filter (\<lambda>c. of_char c div 64 \<noteq> (2 :: int)) s))"

definition is_lower :: "char \<Rightarrow> bool" where
  "is_lower c \<longleftrightarrow> CHR ''a'' \<le> c \<and> c \<le> CHR ''z''"

definition is_upper :: "char \<Rightarrow> bool" where
  "is_upper c \<longleftrightarrow> CHR ''A'' \<le> c \<and> c \<le> CHR ''Z''"

definition code_pattern :: "string \<Rightarrow> bool" where
  "code_pattern s \<longleftrightarrow> s \<noteq> '''' \<and> is_lower (hd s) \<and> length s \<le> 40
     \<and> list_all (\<lambda>c. is_lower c \<or> is_digit c \<or> c = CHR ''_'') s"

definition client_ref_pattern :: "string \<Rightarrow> bool" where
  "client_ref_pattern s \<longleftrightarrow> length s = 22
     \<and> list_all (\<lambda>c. is_lower c \<or> is_upper c \<or> is_digit c \<or> c = CHR ''_'' \<or> c = CHR ''-'') s"

definition row_ok :: "outbound_row \<Rightarrow> bool" where
  "row_ok r \<longleftrightarrow> characters (ob_chat r) \<le> 128
     \<and> ob_kind r \<in> {''draft'', ''self'', ''send''} \<and> ob_status r \<in> set outbound_statuses
     \<and> (ob_code r = '''' \<or> code_pattern (ob_code r))
     \<and> (case ob_sealed r of None \<Rightarrow> True | Some s \<Rightarrow> int (length s) \<le> 20480)
     \<and> (case ob_epoch r of None \<Rightarrow> True | Some e \<Rightarrow> 1 \<le> e \<and> e \<le> 65535)
     \<and> (case ob_ref r of None \<Rightarrow> True | Some w \<Rightarrow> client_ref_pattern w)
     \<and> characters (ob_wa r) \<le> 128
     \<and> (ob_kind r = ''draft'' \<or> ob_sealed r = None)
     \<and> (ob_sealed r = None \<or> ob_status r = ''pending'')
     \<and> (ob_kind r \<noteq> ''draft'' \<or> ob_status r \<noteq> ''pending''
         \<or> ob_sealed r \<noteq> None \<and> ob_epoch r \<noteq> None \<and> ob_expires r \<noteq> None)
     \<and> (ob_status r \<noteq> ''pending'' \<or> ob_kind r = ''draft'')
     \<and> (ob_status r \<noteq> ''refused'' \<or> ob_code r \<noteq> '''')
     \<and> (ob_kind r = ''self'' \<or> ob_chat r \<noteq> '''')"

text \<open>INSERT: the checks, then the primary key and the key of a connection and its reference.\<close>

definition insert_outbound :: "outbound_row \<Rightarrow> db \<Rightarrow> send_error + db" where
  "insert_outbound r db =
     and_then (require (row_ok r) (Access (Constraint ''check''))) (\<lambda>_.
     and_then (require (\<not> list_ex (\<lambda>p. ob_id p = ob_id r
          \<or> ob_ref r \<noteq> None \<and> ob_connection p = ob_connection r \<and> ob_ref p = ob_ref r) (db_outbound db))
        (Access (Constraint ''unique''))) (\<lambda>_.
       Inr (db\<lparr>db_outbound := db_outbound db @ [r]\<rparr>)))"

text \<open>UPDATE of the rows \<open>P\<close>, as the tenant \<open>t\<close> sees them.\<close>

definition update_outbound :: "uuid \<Rightarrow> (outbound_row \<Rightarrow> bool) \<Rightarrow> (outbound_row \<Rightarrow> outbound_row) \<Rightarrow> db \<Rightarrow> send_error + db" where
  "update_outbound t P f db =
     and_then (require (list_all (\<lambda>r. ob_tenant r = t \<and> P r \<longrightarrow> row_ok (f r)) (db_outbound db))
        (Access (Constraint ''check''))) (\<lambda>_.
       Inr (db\<lparr>db_outbound := map (\<lambda>r. if ob_tenant r = t \<and> P r then f r else r) (db_outbound db)\<rparr>))"

text \<open>What the tenant sees of the ledger, and \<^verbatim>\<open>outboundColumns\<close>: a draft past its expiry reads as expired and
  without its envelope.\<close>

definition ledger :: "uuid \<Rightarrow> db \<Rightarrow> outbound_row list" where
  "ledger t db = filter (\<lambda>r. ob_tenant r = t) (db_outbound db)"

definition past :: "timestamp option \<Rightarrow> timestamp \<Rightarrow> bool" where
  "past e now = (case e of None \<Rightarrow> False | Some at \<Rightarrow> at \<le> now)"

definition future :: "timestamp option \<Rightarrow> timestamp \<Rightarrow> bool" where
  "future e now = (case e of None \<Rightarrow> False | Some at \<Rightarrow> now < at)"

definition read_row :: "timestamp \<Rightarrow> outbound_row \<Rightarrow> outbound_row" where
  "read_row now r = r\<lparr>ob_status := (if ob_status r = ''pending'' \<and> past (ob_expires r) now then ''expired'' else ob_status r),
     ob_sealed := (if ob_status r = ''pending'' \<and> future (ob_expires r) now then ob_sealed r else None)\<rparr>"

section \<open>Who may send, and where\<close>

definition connection_of :: "uuid \<Rightarrow> db \<Rightarrow> uuid \<Rightarrow> connection_row option" where
  "connection_of t db i = find (\<lambda>c. cn_id c = i \<and> cn_tenant c = t) (db_connections db)"

definition send_connection :: "db \<Rightarrow> string \<Rightarrow> uuid \<Rightarrow> send_error + connection_row" where
  "send_connection db reader i = (case find (\<lambda>c. cn_id c = i \<and> cn_reader c = reader) (db_connections db) of
       None \<Rightarrow> Inl (Access ConnectionNotFound) | Some c \<Rightarrow> Inr c)"

definition holds_api_key :: "db \<Rightarrow> uuid \<Rightarrow> bool" where
  "holds_api_key db key = list_ex (\<lambda>c. cn_key c = key) (db_connections db)"

definition lock_sending :: "uuid \<Rightarrow> db \<Rightarrow> uuid \<Rightarrow> send_error + connection_row" where
  "lock_sending t db i = (case connection_of t db i of None \<Rightarrow> Inl (Access ConnectionNotFound) | Some c \<Rightarrow> Inr c)"

definition live_for_sending :: "timestamp \<Rightarrow> connection_row \<Rightarrow> uuid \<Rightarrow> send_error + unit" where
  "live_for_sending wall c key =
     (if cn_status c \<noteq> ''active'' \<or> \<not> wall < cn_expires c then Inl ConnectionState
      else if cn_key c \<noteq> key then Inl (Access ConnectionNotFound)
      else if cn_mode c = '''' \<or> cn_paused c \<noteq> None then Inl SendNotAllowed
      else Inr ())"

definition send_permitted :: "timestamp \<Rightarrow> db \<Rightarrow> uuid \<Rightarrow> uuid \<Rightarrow> uuid \<Rightarrow> send_error + bool" where
  "send_permitted now db t u d =
     (case device_permission_tx now db t u d of
        Inl RowNotFound \<Rightarrow> Inr False
      | Inl e \<Rightarrow> Inl (Access e)
      | Inr p \<Rightarrow> Inr (perm_allows p ActionSend))"

definition require_send_permitted :: "timestamp \<Rightarrow> db \<Rightarrow> uuid \<Rightarrow> uuid \<Rightarrow> uuid \<Rightarrow> send_error + unit" where
  "require_send_permitted now db t u d =
     and_then (send_permitted now db t u d) (\<lambda>allowed. require allowed SendNotAllowed)"

definition key_devices :: "db \<Rightarrow> uuid \<Rightarrow> uuid list" where
  "key_devices db k = map snd (filter (\<lambda>p. fst p = k) (db_key_devices db))"

text \<open>\<^verbatim>\<open>ownChatsTx\<close>: the number's own chat by LID and by phone number, empty where it has none.\<close>

definition own_chats :: "jids \<Rightarrow> uuid \<Rightarrow> db \<Rightarrow> uuid \<Rightarrow> string \<times> string" where
  "own_chats j t db d =
     (case device_of False db t d of
        None \<Rightarrow> ('''', '''')
      | Some v \<Rightarrow> (let l = jd_user j (dv_lid v); p = jd_user j (dv_pn v) in
          (if l \<noteq> '''' then jd_lid j l else '''', if p \<noteq> '''' then jd_pn j p else '''')))"

definition chats_of :: "uuid \<Rightarrow> db \<Rightarrow> uuid \<Rightarrow> chat_row list" where
  "chats_of t db d = filter (\<lambda>c. ct_tenant c = t \<and> ct_device c = d) (db_chats db)"

definition person_number :: "uuid \<Rightarrow> db \<Rightarrow> uuid \<Rightarrow> string \<Rightarrow> string option" where
  "person_number t db d chat =
     (case find (\<lambda>c. ct_key c = chat \<and> \<not> ct_group c) (chats_of t db d) of None \<Rightarrow> None | Some c \<Rightarrow> ct_pn c)"

definition sibling_chats :: "uuid \<Rightarrow> db \<Rightarrow> uuid \<Rightarrow> string \<Rightarrow> string list" where
  "sibling_chats t db d chat = map ct_key (filter (\<lambda>c. ct_key c = chat
     \<or> \<not> ct_group c \<and> ct_pn c \<noteq> None \<and> ct_pn c = person_number t db d chat) (chats_of t db d))"

definition chat_eligible :: "jids \<Rightarrow> uuid \<Rightarrow> db \<Rightarrow> uuid \<Rightarrow> string \<Rightarrow> bool \<Rightarrow> send_error + unit" where
  "chat_eligible j t db d chat groups =
     (if chat = ''status@broadcast'' \<or> suffix ''@broadcast'' chat \<or> suffix ''@newsletter'' chat then Inl ChatNotEligible
      else case find (\<lambda>c. ct_key c = chat) (chats_of t db d) of
        None \<Rightarrow> Inl ChatNotEligible
      | Some c \<Rightarrow> (let (lid, pn) = own_chats j t db d in
          if \<not> ct_group c \<and> (chat = lid \<or> chat = pn) then Inr ()
          else if \<not> list_ex (\<lambda>m. me_tenant m = t \<and> me_device m = d \<and> \<not> me_from_me m \<and> me_kind m = ''message''
              \<and> me_chat m \<in> set (sibling_chats t db d chat)) (db_messages db) then Inl ChatNotEligible
          else if ct_group c \<and> \<not> groups then Inl GroupNotAllowed
          else Inr ()))"

definition reply_found :: "uuid \<Rightarrow> db \<Rightarrow> uuid \<Rightarrow> string \<Rightarrow> uuid \<Rightarrow> bool" where
  "reply_found t db d chat r = list_ex (\<lambda>m. me_tenant m = t \<and> me_uid m = r \<and> me_device m = d \<and> me_kind m = ''message''
     \<and> me_chat m \<in> set (sibling_chats t db d chat)) (db_messages db)"

section \<open>The limits\<close>

text \<open>\<^verbatim>\<open>ORDER BY \<dots> OFFSET k LIMIT 1\<close> of a column of times; a query without a row is an error.\<close>

definition nth_time :: "timestamp list \<Rightarrow> int \<Rightarrow> send_error + timestamp" where
  "nth_time ts k = (if nat k < length ts then Inr (sort ts ! nat k) else Inl (Access NoRows))"

definition limited_until :: "timestamp list \<Rightarrow> int \<Rightarrow> send_error + unit" where
  "limited_until ts k = and_then (nth_time ts k) (\<lambda>at. Inl (RateLimited at))"

definition drafts_waiting :: "timestamp \<Rightarrow> uuid \<Rightarrow> outbound_row list \<Rightarrow> outbound_row list" where
  "drafts_waiting now i rs = filter (\<lambda>r. ob_connection r = i \<and> ob_kind r = ''draft'' \<and> ob_status r = ''pending''
     \<and> future (ob_expires r) now) rs"

definition drafts_since :: "timestamp \<Rightarrow> uuid \<Rightarrow> outbound_row list \<Rightarrow> outbound_row list" where
  "drafts_since from i rs = filter (\<lambda>r. ob_connection r = i \<and> ob_kind r = ''draft'' \<and> ob_status r \<noteq> ''refused''
     \<and> from < ob_created r) rs"

definition expiry_of :: "outbound_row \<Rightarrow> timestamp" where
  "expiry_of r = (case ob_expires r of None \<Rightarrow> 0 | Some e \<Rightarrow> e)"

definition draft_limits :: "timestamp \<Rightarrow> uuid \<Rightarrow> outbound_row list \<Rightarrow> send_limits \<Rightarrow> send_error + unit" where
  "draft_limits now i rs l =
     (let waiting = drafts_waiting now i rs; recent = drafts_since (now - hour) i rs in
      if sl_pending l \<le> int (length waiting)
      then limited_until (map expiry_of waiting) (int (length waiting) - sl_pending l)
      else if sl_drafts_hour l \<le> int (length recent)
      then limited_until (map (\<lambda>r. ob_created r + hour) recent) (int (length recent) - sl_drafts_hour l)
      else Inr ())"

text \<open>The sends the limits count: those that left, or may have.\<close>

definition counted :: "outbound_row \<Rightarrow> bool" where
  "counted r \<longleftrightarrow> ob_kind r \<in> {''self'', ''send''} \<and> ob_status r \<in> {''sending'', ''sent'', ''uncertain''}"

definition sends_since :: "timestamp \<Rightarrow> outbound_row list \<Rightarrow> outbound_row list" where
  "sends_since from rs = filter (\<lambda>r. counted r \<and> from < ob_created r) rs"

definition of_connection :: "uuid \<Rightarrow> outbound_row list \<Rightarrow> outbound_row list" where
  "of_connection i rs = filter (\<lambda>r. ob_connection r = i) rs"

definition last_send :: "outbound_row list \<Rightarrow> timestamp option" where
  "last_send rs = (case filter counted rs of [] \<Rightarrow> None | s # ss \<Rightarrow> Some (fold max (map ob_created ss) (ob_created s)))"

definition send_limits_check :: "timestamp \<Rightarrow> timestamp \<Rightarrow> uuid \<Rightarrow> outbound_row list \<Rightarrow> send_limits \<Rightarrow> send_error + unit" where
  "send_limits_check now check i rs l =
     (let mine = of_connection i rs; today = sends_since (now - day) mine; everyone = sends_since (now - day) rs in
      if sl_day l \<le> int (length today)
      then limited_until (map (\<lambda>r. ob_created r + day) today) (int (length today) - sl_day l)
      else and_then (case last_send mine of
          Some at \<Rightarrow> require (at + sl_interval l \<le> check) (RateLimited (at + sl_interval l)) | None \<Rightarrow> Inr ()) (\<lambda>_.
        if sl_tenant_day l \<le> int (length everyone)
        then limited_until (map (\<lambda>r. ob_created r + day) everyone) (int (length everyone) - sl_tenant_day l)
        else Inr ()))"

section \<open>Drafts, sends and refusals\<close>

record new_draft =
  nd_id :: uuid
  nd_device :: uuid
  nd_chat :: string
  nd_reply :: "uuid option"
  nd_epoch :: int
  nd_sealed :: string

text \<open>\<^verbatim>\<open>CreateDraft\<close>: the expiry of the new draft. A key of the table already taken is a draft that exists.\<close>

definition draft_row_of :: "timestamp \<Rightarrow> uuid \<Rightarrow> uuid \<Rightarrow> new_draft \<Rightarrow> outbound_row" where
  "draft_row_of now t i q = \<lparr>ob_id = nd_id q, ob_tenant = t, ob_connection = i, ob_device = nd_device q,
     ob_chat = nd_chat q, ob_reply = nd_reply q, ob_kind = ''draft'', ob_status = ''pending'', ob_code = '''',
     ob_sealed = Some (nd_sealed q), ob_epoch = Some (nd_epoch q), ob_ref = None, ob_edited = False, ob_decider = None,
     ob_message = None, ob_wa = '''', ob_created = now, ob_expires = Some (now + draft_ttl), ob_decided = None\<rparr>"

definition create_draft :: "jids \<Rightarrow> send_tx \<Rightarrow> uuid \<Rightarrow> uuid \<Rightarrow> uuid \<Rightarrow> new_draft \<Rightarrow> send_limits \<Rightarrow> db
    \<Rightarrow> send_error + (timestamp \<times> db)" where
  "create_draft j x t i key q l db =
     and_then (lock_sending t db i) (\<lambda>c.
     and_then (live_for_sending (sx_wall x) c key) (\<lambda>_.
     and_then (require_send_permitted (sx_now x) db t (cn_creator c) (nd_device q)) (\<lambda>_.
     and_then (require (nd_device q \<in> set (key_devices db (cn_key c))) ChatNotEligible) (\<lambda>_.
     and_then (chat_eligible j t db (nd_device q) (nd_chat q) (cn_groups c)) (\<lambda>_.
     and_then (case nd_reply q of None \<Rightarrow> Inr ()
        | Some m \<Rightarrow> require (reply_found t db (nd_device q) (nd_chat q) m) ReplyNotFound) (\<lambda>_.
     and_then (draft_limits (sx_now x) i (ledger t db) l) (\<lambda>_.
       case insert_outbound (draft_row_of (sx_now x) t i q) db of
         Inl e \<Rightarrow> Inl (if e = Access (Constraint ''unique'') then DraftExists else e)
       | Inr db' \<Rightarrow> Inr (sx_now x + draft_ttl, db'))))))))"

record new_refusal =
  rf_kind :: string
  rf_device :: uuid
  rf_chat :: string
  rf_code :: string
  rf_ref :: string

definition refused_row :: "timestamp \<Rightarrow> uuid \<Rightarrow> uuid \<Rightarrow> uuid \<Rightarrow> new_refusal \<Rightarrow> outbound_row" where
  "refused_row now fresh t i f = \<lparr>ob_id = fresh, ob_tenant = t, ob_connection = i, ob_device = rf_device f,
     ob_chat = rf_chat f, ob_reply = None, ob_kind = rf_kind f, ob_status = ''refused'', ob_code = rf_code f,
     ob_sealed = None, ob_epoch = None, ob_ref = (if rf_ref f = '''' then None else Some (rf_ref f)), ob_edited = False,
     ob_decider = None, ob_message = None, ob_wa = '''', ob_created = now, ob_expires = None, ob_decided = Some now\<rparr>"

definition record_refusal :: "send_tx \<Rightarrow> uuid \<Rightarrow> uuid \<Rightarrow> uuid \<Rightarrow> new_refusal \<Rightarrow> db \<Rightarrow> send_error + (bool \<times> db)" where
  "record_refusal x fresh t i f db =
     and_then (lock_sending t db i) (\<lambda>c.
     and_then (require (rf_device f \<in> set (key_devices db (cn_key c))) ChatNotEligible) (\<lambda>_.
       if max_refusals \<le> int (length (filter (\<lambda>r. ob_connection r = i \<and> ob_status r = ''refused''
            \<and> sx_now x - day < ob_created r) (ledger t db))) then Inr (False, db)
       else and_then (insert_outbound (refused_row (sx_now x) fresh t i f) db) (\<lambda>db'. Inr (True, db'))))"

record new_send =
  ns_kind :: string
  ns_device :: uuid
  ns_ref :: string
  ns_text_ok :: bool

datatype started = Started uuid string | Prior outbound_row

text \<open>\<^verbatim>\<open>StartSend\<close>; \<open>fresh\<close> is the id the database draws. A reference already recorded answers its row.\<close>

definition outbound_by_ref :: "timestamp \<Rightarrow> uuid \<Rightarrow> string \<Rightarrow> outbound_row list \<Rightarrow> outbound_row option" where
  "outbound_by_ref now i w rs = map_option (read_row now) (find (\<lambda>r. ob_connection r = i \<and> ob_ref r = Some w) rs)"

definition send_row_of :: "timestamp \<Rightarrow> uuid \<Rightarrow> uuid \<Rightarrow> uuid \<Rightarrow> string \<Rightarrow> new_send \<Rightarrow> outbound_row" where
  "send_row_of at fresh t i chat q = \<lparr>ob_id = fresh, ob_tenant = t, ob_connection = i, ob_device = ns_device q,
     ob_chat = chat, ob_reply = None, ob_kind = ns_kind q, ob_status = ''sending'', ob_code = '''',
     ob_sealed = None, ob_epoch = None, ob_ref = Some (ns_ref q), ob_edited = False, ob_decider = None,
     ob_message = None, ob_wa = '''', ob_created = at, ob_expires = None, ob_decided = None\<rparr>"

definition start_send :: "jids \<Rightarrow> send_tx \<Rightarrow> uuid \<Rightarrow> uuid \<Rightarrow> uuid \<Rightarrow> uuid \<Rightarrow> new_send \<Rightarrow> send_limits \<Rightarrow> db
    \<Rightarrow> send_error + (started \<times> db)" where
  "start_send j x fresh t i key q l db =
     and_then (require (ns_kind q = ''self'') SendNotAllowed) (\<lambda>_.
     and_then (lock_sending t db i) (\<lambda>c.
     and_then (live_for_sending (sx_wall x) c key) (\<lambda>_.
     and_then (require (cn_self c) SendNotAllowed) (\<lambda>_.
     and_then (require_send_permitted (sx_now x) db t (cn_creator c) (ns_device q)) (\<lambda>_.
     and_then (require (ns_device q \<in> set (key_devices db (cn_key c))) ChatNotEligible) (\<lambda>_.
     let pn = snd (own_chats j t db (ns_device q)) in
     and_then (require (pn \<noteq> '''') ChatNotEligible) (\<lambda>_.
     and_then (require (ns_text_ok q) TextNotAllowed) (\<lambda>_.
     case outbound_by_ref (sx_now x) i (ns_ref q) (ledger t db) of
       Some r \<Rightarrow> Inr (Prior r, db)
     | None \<Rightarrow> and_then (send_limits_check (sx_now x) (sx_check x) i (ledger t db) l) (\<lambda>_.
         and_then (insert_outbound (send_row_of (sx_clock x) fresh t i pn q) db) (\<lambda>db'.
           Inr (Started fresh pn, db')))))))))))"

record send_outcome =
  so_status :: string
  so_code :: string
  so_message :: "uuid option"
  so_wa :: string
  so_at :: timestamp

definition finish_send :: "uuid \<Rightarrow> uuid \<Rightarrow> send_outcome \<Rightarrow> db \<Rightarrow> send_error + db" where
  "finish_send t i e db = update_outbound t (\<lambda>r. ob_id r = i \<and> ob_status r = ''sending'')
     (\<lambda>r. r\<lparr>ob_status := so_status e, ob_code := so_code e, ob_message := so_message e, ob_wa := so_wa e,
        ob_decided := Some (so_at e)\<rparr>) db"

section \<open>The console\<close>

definition draft_for :: "uuid \<Rightarrow> db \<Rightarrow> uuid \<Rightarrow> (outbound_row \<times> connection_row) option" where
  "draft_for t db i = (case find (\<lambda>r. ob_id r = i \<and> ob_kind r = ''draft'') (ledger t db) of
       None \<Rightarrow> None
     | Some r \<Rightarrow> map_option (Pair r) (connection_of t db (ob_connection r)))"

definition discard_draft :: "send_tx \<Rightarrow> uuid \<Rightarrow> uuid \<Rightarrow> uuid \<Rightarrow> db \<Rightarrow> send_error + (uuid \<times> db)" where
  "discard_draft x t u i db =
     (case draft_for t db i of
        None \<Rightarrow> Inl OutboundNotFound
      | Some (r, c) \<Rightarrow>
          if cn_creator c \<noteq> u then Inl OutboundNotFound
          else if ob_status r \<noteq> ''pending'' \<or> \<not> future (ob_expires r) (sx_wall x) then Inl DraftState
          else and_then (update_outbound t (\<lambda>p. ob_id p = i) (\<lambda>p. p\<lparr>ob_status := ''discarded'', ob_sealed := None,
              ob_decider := Some u, ob_decided := Some (sx_now x)\<rparr>) db) (\<lambda>db'. Inr (ob_connection r, db')))"

text \<open>\<^verbatim>\<open>ClaimDraft\<close>; \<open>may_send\<close> is the switch that says whether a workspace may send, when one is set.\<close>

definition claim_draft :: "send_tx \<Rightarrow> (uuid \<Rightarrow> bool) option \<Rightarrow> uuid \<Rightarrow> uuid \<Rightarrow> uuid \<Rightarrow> uuid \<Rightarrow> string \<Rightarrow> db
    \<Rightarrow> send_error + (uuid \<times> db)" where
  "claim_draft x may_send t u i d chat db =
     (case draft_for t db i of
        None \<Rightarrow> Inl OutboundNotFound
      | Some (r, c) \<Rightarrow>
          if cn_creator c \<noteq> u then Inl OutboundNotFound
          else if ob_status r \<noteq> ''pending'' \<or> \<not> future (ob_expires r) (sx_wall x) then Inl DraftState
          else if cn_status c \<noteq> ''active'' \<and> cn_status c \<noteq> ''reseal'' \<or> \<not> sx_wall x < cn_expires c \<or> cn_mode c = ''''
              \<or> cn_paused c \<noteq> None \<or> (case may_send of None \<Rightarrow> True | Some f \<Rightarrow> \<not> f t) then Inl SendNotAllowed
          else if d \<noteq> ob_device r \<or> chat \<noteq> ob_chat r then Inl DraftMismatch
          else and_then (send_permitted (sx_now x) db t u d) (\<lambda>allowed.
            and_then (require allowed (Access MembershipForbidden)) (\<lambda>_.
            and_then (update_outbound t (\<lambda>p. ob_id p = i) (\<lambda>p. p\<lparr>ob_status := ''sending'', ob_sealed := None,
                ob_decider := Some u, ob_decided := Some (sx_now x)\<rparr>) db) (\<lambda>db'. Inr (ob_connection r, db')))))"

record draft_outcome =
  do_status :: string
  do_message :: "uuid option"
  do_wa :: string
  do_edited :: bool
  do_at :: timestamp

definition finish_draft :: "uuid \<Rightarrow> uuid \<Rightarrow> draft_outcome \<Rightarrow> db \<Rightarrow> send_error + db" where
  "finish_draft t i e db = update_outbound t (\<lambda>r. ob_id r = i \<and> ob_status r = ''sending'')
     (\<lambda>r. r\<lparr>ob_status := do_status e, ob_message := do_message e, ob_wa := do_wa e, ob_edited := do_edited e,
        ob_decided := Some (do_at e)\<rparr>) db"

text \<open>\<^verbatim>\<open>connectionReaderTx\<close>: who consented, and the asker's role, empty for nobody of the workspace.\<close>

definition connection_reader :: "timestamp \<Rightarrow> uuid \<Rightarrow> uuid \<Rightarrow> uuid \<Rightarrow> db \<Rightarrow> send_error + (uuid \<times> string)" where
  "connection_reader now t u i db =
     (case connection_of t db i of
        None \<Rightarrow> Inl (Access ConnectionNotFound)
      | Some c \<Rightarrow> Inr (cn_creator c, case member_of db t u of
            Some m \<Rightarrow> if mb_status m = ''active'' \<and> status_active db u \<and> before now (mb_expires m) then mb_role m else ''''
          | None \<Rightarrow> ''''))"

definition set_send_paused :: "send_tx \<Rightarrow> uuid \<Rightarrow> uuid \<Rightarrow> uuid \<Rightarrow> bool \<Rightarrow> db \<Rightarrow> send_error + db" where
  "set_send_paused x t u i paused db =
     and_then (connection_reader (sx_now x) t u i db) (\<lambda>(creator, role).
     and_then (require (creator = u \<or> paused \<and> (role = ''owner'' \<or> role = ''admin'')) (Access MembershipForbidden)) (\<lambda>_.
     and_then (lock_sending t db i) (\<lambda>c.
     and_then (require (live_status (cn_status c) \<and> sx_wall x < cn_expires c \<and> cn_mode c \<noteq> '''') ConnectionState) (\<lambda>_.
       Inr (db\<lparr>db_connections := map (\<lambda>c. if cn_id c = i \<and> cn_tenant c = t
         then c\<lparr>cn_paused := (if paused then (case cn_paused c of None \<Rightarrow> Some (sx_now x) | Some p \<Rightarrow> Some p) else None)\<rparr>
         else c) (db_connections db)\<rparr>)))))"

record outbound_query =
  oq_limit :: int
  oq_before :: "(timestamp \<times> uuid) option"
  oq_status :: string
  oq_device :: "uuid option"

text \<open>\<^verbatim>\<open>ListOutbound\<close>: newest first, by time and then id, one row more than the page to see whether more follow.\<close>

definition by_time :: "outbound_row list \<Rightarrow> outbound_row list" where
  "by_time rs = sort_key ob_created (sort_key ob_id rs)"

definition listed :: "timestamp \<Rightarrow> uuid \<Rightarrow> uuid \<Rightarrow> outbound_query \<Rightarrow> db \<Rightarrow> outbound_row list" where
  "listed now t i q db = filter (\<lambda>r. ob_connection r = i \<and> device_of False db t (ob_device r) \<noteq> None
       \<and> (oq_status q = '''' \<or> ob_status (read_row now r) = oq_status q)
       \<and> (case oq_device q of None \<Rightarrow> True | Some d \<Rightarrow> ob_device r = d)
       \<and> (case oq_before q of None \<Rightarrow> True
          | Some (at, w) \<Rightarrow> ob_created r < at \<or> ob_created r = at \<and> ob_id r < w)) (ledger t db)"

definition list_outbound :: "timestamp \<Rightarrow> uuid \<Rightarrow> uuid \<Rightarrow> outbound_query \<Rightarrow> db \<Rightarrow> send_error + (outbound_row list \<times> bool)" where
  "list_outbound now t i q db =
     (if oq_limit q < 1 \<or> max_outbound_page < oq_limit q
         \<or> oq_status q \<noteq> '''' \<and> oq_status q \<notin> set outbound_statuses then Inl BadQuery
      else let rs = take (nat (oq_limit q + 1)) (map (read_row now) (rev (by_time (listed now t i q db)))) in
        Inr (take (nat (oq_limit q)) rs, oq_limit q < int (length rs)))"

definition read_draft :: "timestamp \<Rightarrow> uuid \<Rightarrow> uuid \<Rightarrow> uuid \<Rightarrow> db \<Rightarrow> send_error + outbound_row" where
  "read_draft now t u i db =
     (case draft_for t db i of
        None \<Rightarrow> Inl OutboundNotFound
      | Some (r, c) \<Rightarrow> if cn_creator c = u \<and> device_of False db t (ob_device r) \<noteq> None then Inr (read_row now r)
          else Inl OutboundNotFound)"

definition pending_drafts :: "timestamp \<Rightarrow> uuid \<Rightarrow> uuid \<Rightarrow> uuid \<Rightarrow> db \<Rightarrow> send_error + outbound_row list" where
  "pending_drafts now t u i db =
     and_then (connection_reader now t u i db) (\<lambda>(creator, _).
     and_then (require (creator = u) (Access MembershipForbidden)) (\<lambda>_.
       Inr (take max_pending_listed (map (read_row now) (by_time (filter (\<lambda>r. device_of False db t (ob_device r) \<noteq> None)
         (drafts_waiting now i (ledger t db))))))))"

definition console_outbound :: "timestamp \<Rightarrow> uuid \<Rightarrow> uuid \<Rightarrow> uuid \<Rightarrow> outbound_query \<Rightarrow> db
    \<Rightarrow> send_error + (outbound_row list \<times> bool)" where
  "console_outbound now t u i q db =
     and_then (connection_reader now t u i db) (\<lambda>(creator, role).
     and_then (require (creator = u \<or> role = ''owner'' \<or> role = ''admin'') (Access MembershipForbidden)) (\<lambda>_.
       list_outbound now t i q db))"

record sent_message =
  sm_uid :: uuid
  sm_connection :: uuid
  sm_client :: string
  sm_kind :: string

definition sent_of :: "db \<Rightarrow> outbound_row \<Rightarrow> sent_message option" where
  "sent_of db r = (case (ob_message r, find (\<lambda>c. cn_id c = ob_connection r) (db_connections db)) of
      (Some m, Some c) \<Rightarrow> Some \<lparr>sm_uid = m, sm_connection = cn_id c, sm_client = cn_client c, sm_kind = ob_kind r\<rparr>
    | _ \<Rightarrow> None)"

definition outbound_messages :: "uuid \<Rightarrow> uuid \<Rightarrow> uuid list \<Rightarrow> db \<Rightarrow> sent_message list" where
  "outbound_messages t d uids db = sort_key sm_uid (filter (\<lambda>m. sm_uid m \<in> set uids)
     (List.map_filter (sent_of db) (filter (\<lambda>r. ob_device r = d) (ledger t db))))"

section \<open>The janitor\<close>

record settled =
  st_expired :: "(uuid \<times> uuid) list"
  st_uncertain :: "(uuid \<times> uuid) list"
  st_deleted :: nat

definition ran_out :: "timestamp \<Rightarrow> outbound_row \<Rightarrow> bool" where
  "ran_out now r \<longleftrightarrow> ob_status r = ''pending'' \<and> past (ob_expires r) now"

definition in_flight_since :: "outbound_row \<Rightarrow> timestamp" where
  "in_flight_since r = (case ob_decided r of None \<Rightarrow> ob_created r | Some at \<Rightarrow> at)"

definition lost :: "timestamp \<Rightarrow> outbound_row \<Rightarrow> bool" where
  "lost now r \<longleftrightarrow> ob_status r = ''sending'' \<and> in_flight_since r < now - stale_sending"

definition pairs_of :: "uuid \<Rightarrow> (outbound_row \<Rightarrow> bool) \<Rightarrow> db \<Rightarrow> (uuid \<times> uuid) list" where
  "pairs_of t P db = map (\<lambda>r. (ob_connection r, ob_id r)) (filter P (ledger t db))"

definition settle_tenant :: "timestamp \<Rightarrow> uuid \<Rightarrow> db \<Rightarrow> send_error + (settled \<times> db)" where
  "settle_tenant now t db =
     and_then (update_outbound t (ran_out now)
       (\<lambda>r. r\<lparr>ob_status := ''expired'', ob_sealed := None, ob_decided := ob_expires r\<rparr>) db) (\<lambda>db1.
     and_then (update_outbound t (lost now)
       (\<lambda>r. r\<lparr>ob_status := ''uncertain'', ob_decided := Some now\<rparr>) db1) (\<lambda>db2.
     let old = (\<lambda>r. ob_tenant r = t \<and> ob_created r < now - retention) in
       Inr (\<lparr>st_expired = pairs_of t (ran_out now) db, st_uncertain = pairs_of t (lost now) db1,
           st_deleted = length (filter old (db_outbound db2))\<rparr>,
         db2\<lparr>db_outbound := filter (\<lambda>r. \<not> old r) (db_outbound db2)\<rparr>)))"

text \<open>One workspace after another, each in its own transaction; one that fails does not keep the rest from
  settling. \<open>now t\<close> is the start of the transaction of \<open>t\<close>.\<close>

definition sending_tenants :: "db \<Rightarrow> uuid list" where
  "sending_tenants db = sort (remdups (map cn_tenant (filter (\<lambda>c. cn_kind c = ''content'') (db_connections db))))"

fun settle_each :: "(uuid \<Rightarrow> timestamp) \<Rightarrow> uuid list \<Rightarrow> db \<Rightarrow> settled \<times> send_error list \<times> db" where
  "settle_each now [] db = (\<lparr>st_expired = [], st_uncertain = [], st_deleted = 0\<rparr>, [], db)"
| "settle_each now (t # ts) db =
     (case settle_tenant (now t) t db of
        Inl e \<Rightarrow> (let (s, es, db') = settle_each now ts db in (s, e # es, db'))
      | Inr (s1, db1) \<Rightarrow> (let (s, es, db') = settle_each now ts db1 in
          (\<lparr>st_expired = st_expired s1 @ st_expired s, st_uncertain = st_uncertain s1 @ st_uncertain s,
             st_deleted = st_deleted s1 + st_deleted s\<rparr>, es, db')))"

definition settle_outbound :: "(uuid \<Rightarrow> timestamp) \<Rightarrow> db \<Rightarrow> settled \<times> send_error list \<times> db" where
  "settle_outbound now db = settle_each now (sending_tenants db) db"

section \<open>Steps\<close>

text \<open>What happens to the ledger: the operations above and every change of the workspace's access, which
  ends connections along the way. The outcomes are those the callers pass (mcpauth/send.go, wsapi/mcpsend.go).
  A step is labelled with the transaction's clocks and keeps the limits it ran under.\<close>

datatype send_op =
    CreateDraft uuid uuid uuid new_draft
  | RecordRefusal uuid uuid uuid new_refusal
  | StartSend uuid uuid uuid uuid new_send
  | FinishSend uuid uuid send_outcome
  | ClaimDraft "(uuid \<Rightarrow> bool) option" uuid uuid uuid uuid string
  | FinishDraft uuid uuid draft_outcome
  | DiscardDraft uuid uuid uuid
  | SetSendPaused uuid uuid uuid bool
  | Settle uuid
  | AccessChange tx access_op

fun run_send :: "jids \<Rightarrow> send_limits \<Rightarrow> send_tx \<Rightarrow> send_op \<Rightarrow> db \<Rightarrow> send_error + db" where
  "run_send j l x (CreateDraft t i key q) db = and_then (create_draft j x t i key q l db) (\<lambda>(_, db'). Inr db')"
| "run_send j l x (RecordRefusal w t i f) db = and_then (record_refusal x w t i f db) (\<lambda>(_, db'). Inr db')"
| "run_send j l x (StartSend w t i key q) db = and_then (start_send j x w t i key q l db) (\<lambda>(_, db'). Inr db')"
| "run_send j l x (FinishSend t i e) db =
     (if so_status e \<in> {''sent'', ''uncertain'', ''refused''} then finish_send t i e db else Inl BadQuery)"
| "run_send j l x (ClaimDraft m t u i d chat) db = and_then (claim_draft x m t u i d chat db) (\<lambda>(_, db'). Inr db')"
| "run_send j l x (FinishDraft t i e) db =
     (if do_status e \<in> {''sent'', ''uncertain''} then finish_draft t i e db else Inl BadQuery)"
| "run_send j l x (DiscardDraft t u i) db = and_then (discard_draft x t u i db) (\<lambda>(_, db'). Inr db')"
| "run_send j l x (SetSendPaused t u i p) db = set_send_paused x t u i p db"
| "run_send j l x (Settle t) db = and_then (settle_tenant (sx_now x) t db) (\<lambda>(_, db'). Inr db')"
| "run_send j l x (AccessChange y op) db = (case run_op y op db of Inl e \<Rightarrow> Inl (Access e) | Inr db' \<Rightarrow> Inr db')"

definition clocks_ok :: "send_tx \<Rightarrow> bool" where
  "clocks_ok x \<longleftrightarrow> sx_now x \<le> sx_check x \<and> sx_check x \<le> sx_clock x"

text \<open>A run, with the operations that committed in order.\<close>

inductive send_run :: "jids \<Rightarrow> send_limits \<Rightarrow> db \<Rightarrow> (send_tx \<times> send_op) list \<Rightarrow> db \<Rightarrow> bool" for j l where
  start: "send_run j l db [] db"
| next_op: "send_run j l db ops db' \<Longrightarrow> clocks_ok x \<Longrightarrow> run_send j l x op db' = Inr db''
    \<Longrightarrow> send_run j l db (ops @ [(x, op)]) db''"

end
