(* ===== verification/Outbound_Facts.thy ===== *)
theory Outbound_Facts
  imports Outbound Access_Facts
begin

text \<open>
  What every operation does to the ledger: a row enters it waiting, sending or refused, moves only along the
  edges of \<open>row_step\<close>, and leaves it by retention.
\<close>

section \<open>The life of a row\<close>

text \<open>A waiting draft is claimed, discarded, expired or revoked and loses its envelope; a send in flight ends.
  What a row is about never changes.\<close>

definition same_send :: "outbound_row \<Rightarrow> outbound_row \<Rightarrow> bool" where
  "same_send r r' \<longleftrightarrow> ob_id r' = ob_id r \<and> ob_tenant r' = ob_tenant r \<and> ob_connection r' = ob_connection r
     \<and> ob_device r' = ob_device r \<and> ob_chat r' = ob_chat r \<and> ob_reply r' = ob_reply r \<and> ob_kind r' = ob_kind r
     \<and> ob_epoch r' = ob_epoch r \<and> ob_ref r' = ob_ref r \<and> ob_created r' = ob_created r \<and> ob_expires r' = ob_expires r"

definition row_step :: "outbound_row \<Rightarrow> outbound_row \<Rightarrow> bool" where
  "row_step r r' \<longleftrightarrow> r' = r \<or> same_send r r' \<and> (row_ok r \<longrightarrow> row_ok r') \<and>
     (ob_status r = ''pending'' \<and> ob_status r' \<in> {''sending'', ''discarded'', ''expired'', ''revoked''} \<and> ob_sealed r' = None
        \<and> (ob_status r' = ''sending'' \<longrightarrow> ob_kind r = ''draft'')
      \<or> ob_status r = ''sending'' \<and> ob_status r' \<in> {''sent'', ''uncertain'', ''refused''} \<and> ob_sealed r' = ob_sealed r)"

lemma row_step_refl [simp]: "row_step r r"
  by (simp add: row_step_def)

lemma row_step_same: "row_step r r' \<Longrightarrow> same_send r r'"
  by (auto simp: row_step_def same_send_def)

definition enters :: "outbound_row list \<Rightarrow> outbound_row \<Rightarrow> bool" where
  "enters rs r \<longleftrightarrow> row_ok r \<and> (\<forall>p\<in>set rs. ob_id p \<noteq> ob_id r
       \<and> (ob_ref r \<noteq> None \<and> ob_connection p = ob_connection r \<longrightarrow> ob_ref p \<noteq> ob_ref r))
     \<and> ob_status r \<in> {''pending'', ''sending'', ''refused''}"

text \<open>\<open>ages\<close> is any number of steps in which rows move on in place or leave.\<close>

inductive ages :: "outbound_row list \<Rightarrow> outbound_row list \<Rightarrow> bool" where
  still: "ages rs rs"
| moves: "ages rs rs' \<Longrightarrow> list_all2 row_step rs' rs'' \<Longrightarrow> ages rs rs''"
| goes: "ages rs rs' \<Longrightarrow> ages rs (filter keep rs')"

section \<open>What an operation does to the tables\<close>

lemma insert_outbound_Inr [simp]:
  "insert_outbound r db = Inr db' \<longleftrightarrow> row_ok r \<and> \<not> list_ex (\<lambda>p. ob_id p = ob_id r
      \<or> ob_ref r \<noteq> None \<and> ob_connection p = ob_connection r \<and> ob_ref p = ob_ref r) (db_outbound db)
    \<and> db' = db\<lparr>db_outbound := db_outbound db @ [r]\<rparr>"
  by (auto simp: insert_outbound_def)

lemma insert_enters:
  assumes "insert_outbound r db = Inr db'" "ob_status r \<in> {''pending'', ''sending'', ''refused''}"
  shows "enters (db_outbound db) r" "db_outbound db' = db_outbound db @ [r]"
  using assms by (auto simp: enters_def list_ex_iff)

lemma update_outbound_Inr:
  "update_outbound t P f db = Inr db' \<longleftrightarrow> (\<forall>r\<in>set (db_outbound db). ob_tenant r = t \<and> P r \<longrightarrow> row_ok (f r))
    \<and> db' = db\<lparr>db_outbound := map (\<lambda>r. if ob_tenant r = t \<and> P r then f r else r) (db_outbound db)\<rparr>"
  by (auto simp: update_outbound_def list_all_iff)

lemma update_advances:
  assumes "update_outbound t P f db = Inr db'"
    and "\<And>r. P r \<Longrightarrow> row_ok (f r) \<Longrightarrow> r \<in> set (db_outbound db) \<Longrightarrow> ob_tenant r = t \<Longrightarrow> row_step r (f r)"
  shows "list_all2 row_step (db_outbound db) (db_outbound db')"
  using assms by (auto simp: update_outbound_Inr intro!: rel_map)

lemma update_frame:
  "update_outbound t P f db = Inr db' \<Longrightarrow> db' = db\<lparr>db_outbound := db_outbound db'\<rparr>"
  by (auto simp: update_outbound_Inr)

text \<open>An ended connection keeps its terms and never comes back.\<close>

definition connection_ages :: "connection_row \<Rightarrow> connection_row \<Rightarrow> bool" where
  "connection_ages c c' \<longleftrightarrow> cn_id c' = cn_id c \<and> cn_tenant c' = cn_tenant c \<and> cn_creator c' = cn_creator c
     \<and> cn_key c' = cn_key c \<and> cn_mode c' = cn_mode c \<and> cn_self c' = cn_self c \<and> cn_groups c' = cn_groups c
     \<and> cn_expires c' = cn_expires c \<and> cn_paused c' = cn_paused c
     \<and> (cn_status c' = cn_status c \<or> cn_status c' = ''revoked'' \<or> cn_status c' = ''expired'')"

lemma connection_ages_refl [simp]: "connection_ages c c"
  by (simp add: connection_ages_def)

lemma connection_ages_trans: "connection_ages a b \<Longrightarrow> connection_ages b c \<Longrightarrow> connection_ages a c"
  by (auto simp: connection_ages_def)

lemma connection_ended_ages: "connection_ended c c' \<Longrightarrow> connection_ages c c'"
  by (auto simp: connection_ended_def end_row_def connection_ages_def)

lemma draft_revoked_trans: "draft_revoked a b \<Longrightarrow> draft_revoked b c \<Longrightarrow> draft_revoked a c"
  by (auto simp: draft_revoked_def)

lemma row_ok_sealed:
  assumes "row_ok r" "ob_sealed r \<noteq> None"
  shows "ob_kind r = ''draft'' \<and> ob_status r = ''pending'' \<and> ob_epoch r \<noteq> None \<and> ob_expires r \<noteq> None"
proof -
  from assms have "ob_kind r = ''draft''" "ob_status r = ''pending''" unfolding row_ok_def by (elim conjE, blast)+
  with assms(1) show ?thesis unfolding row_ok_def by (elim conjE) simp
qed

text \<open>A row whose envelope goes as it stops waiting passes the table's checks.\<close>

lemma row_ok_closed:
  assumes "row_ok r" "s \<in> {''sending'', ''discarded'', ''expired'', ''revoked''}"
  shows "row_ok (r\<lparr>ob_status := s, ob_sealed := None, ob_decided := w\<rparr>)"
    "row_ok (r\<lparr>ob_status := s, ob_sealed := None, ob_decider := u, ob_decided := w\<rparr>)"
proof -
  have "s \<noteq> ''pending'' \<and> s \<noteq> ''refused'' \<and> s \<in> set outbound_statuses"
    using assms(2) by (auto simp: outbound_statuses_def)
  with assms(1) show "row_ok (r\<lparr>ob_status := s, ob_sealed := None, ob_decided := w\<rparr>)"
    "row_ok (r\<lparr>ob_status := s, ob_sealed := None, ob_decider := u, ob_decided := w\<rparr>)"
    unfolding row_ok_def by simp_all
qed

lemma row_closed:
  assumes "ob_status r = ''pending''" "s \<in> {''sending'', ''discarded'', ''expired'', ''revoked''}"
    "s = ''sending'' \<Longrightarrow> ob_kind r = ''draft''"
  shows "row_step r (r\<lparr>ob_status := s, ob_sealed := None, ob_decided := w\<rparr>)"
    "row_step r (r\<lparr>ob_status := s, ob_sealed := None, ob_decider := u, ob_decided := w\<rparr>)"
  using assms row_ok_closed [of r s] unfolding row_step_def same_send_def by simp_all

lemma draft_revoked_step: "draft_revoked r r' \<Longrightarrow> row_step r r'"
  unfolding draft_revoked_def using row_closed(1) [of r "''revoked''"] by auto

definition member_keys :: "db \<Rightarrow> (uuid \<times> uuid) set" where
  "member_keys db = set (map (\<lambda>m. (mb_tenant m, mb_user m)) (db_members db))"

lemma no_member: "(t, u) \<notin> member_keys db \<longleftrightarrow> member_of db t u = None"
proof -
  have "(t, u) \<notin> set (map (\<lambda>m. (mb_tenant m, mb_user m)) ms)
      \<longleftrightarrow> find (\<lambda>m. mb_tenant m = t \<and> mb_user m = u) ms = None" for ms
    by (induction ms) auto
  then show ?thesis by (simp only: member_keys_def member_of_def)
qed

definition sending_ages :: "db \<Rightarrow> db \<Rightarrow> bool" where
  "sending_ages db db' \<longleftrightarrow> list_all2 draft_revoked (db_outbound db) (db_outbound db')
     \<and> list_all2 connection_ages (db_connections db) (db_connections db')
     \<and> member_keys db' \<subseteq> member_keys db"

lemma sending_ages_quiet: "quiet db db' \<Longrightarrow> sending_ages db db'"
  by (auto simp: quiet_def sending_ages_def member_keys_def elim: list_all2_mono intro: connection_ended_ages)

lemma sending_rel_refl [simp]: "list_all2 draft_revoked rs rs" "list_all2 connection_ages cs cs"
  by (simp_all add: list.rel_refl)

lemma sending_ages_same:
  assumes "db_outbound db' = db_outbound db" "db_connections db' = db_connections db" "member_keys db' \<subseteq> member_keys db"
  shows "sending_ages db db'"
  using assms by (simp add: sending_ages_def)

lemma sending_ages_deletes:
  "sending_ages db (delete_grants P db)" "sending_ages db (delete_perms Q db)" "sending_ages db (delete_member v w M db)"
  by (rule sending_ages_same;
      simp add: delete_grants_def delete_perms_def delete_member_def member_keys_def del: set_map)+
    (auto simp: delete_member_def member_keys_def)

lemma sending_ages_set:
  assumes "set_member v w role status db = Inr db'"
  shows "sending_ages db db'"
proof -
  have "map (\<lambda>m. (mb_tenant m, mb_user m)) (db_members db') = map (\<lambda>m. (mb_tenant m, mb_user m)) (db_members db)"
    "db_outbound db' = db_outbound db" "db_connections db' = db_connections db"
    using assms by (auto simp: set_member_def Let_def split: if_splits)
  then show ?thesis by (simp add: sending_ages_def member_keys_def)
qed

lemma sending_ages_perm:
  assumes "put_perm p db = Inr db'"
  shows "sending_ages db db'"
proof -
  have "map (\<lambda>m. (mb_tenant m, mb_user m)) (db_members db') = map (\<lambda>m. (mb_tenant m, mb_user m)) (db_members db)"
    "db_outbound db' = db_outbound db" "db_connections db' = db_connections db"
    using assms by (auto simp: put_perm_def split: option.splits)
  then show ?thesis by (simp add: sending_ages_def member_keys_def)
qed

lemma sending_ages_rows:
  "put_grant_row g db = Inr db' \<Longrightarrow> sending_ages db db'"
  "extend_key db k t til = Inr db' \<Longrightarrow> sending_ages db db'"
  "issue_key clock now db t q k pfx secret hash = Inr (tok, db') \<Longrightarrow> sending_ages db db'"
  by (rule sending_ages_same;
      auto simp: put_grant_row_def extend_key_def issue_key_def Let_def member_keys_def split: option.splits if_splits)+

lemma sending_transp: "transp (list_all2 draft_revoked)" "transp (list_all2 connection_ages)"
  by (rule list.rel_transp, rule transpI, (erule (1) draft_revoked_trans | erule (1) connection_ages_trans))+

lemma sending_ages_trans: "sending_ages a b \<Longrightarrow> sending_ages b c \<Longrightarrow> sending_ages a c"
  using sending_transp [THEN transpD] unfolding sending_ages_def by blast

interpretation sending: access_statements sending_ages
  by unfold_locales
    (auto intro: sending_ages_trans sending_ages_quiet sending_ages_deletes sending_ages_set sending_ages_perm
      sending_ages_rows sending_ages_same)

section \<open>Each operation on the ledger\<close>

lemma lock_sending_Inr [simp]: "lock_sending t db i = Inr c \<longleftrightarrow> connection_of t db i = Some c"
  by (simp add: lock_sending_def split: option.splits)

lemma live_for_sending_Inr [simp]:
  "live_for_sending wall c key = Inr u \<longleftrightarrow> cn_status c = ''active'' \<and> wall < cn_expires c \<and> cn_key c = key
     \<and> cn_mode c \<noteq> '''' \<and> cn_paused c = None"
  by (auto simp: live_for_sending_def)

lemma create_draft_elim:
  assumes "create_draft j x t i key q l db = Inr (e, db')"
  obtains c where "connection_of t db i = Some c" "live_for_sending (sx_wall x) c key = Inr ()"
    "send_permitted (sx_now x) db t (cn_creator c) (nd_device q) = Inr True"
    "nd_device q \<in> set (key_devices db (cn_key c))"
    "chat_eligible j t db (nd_device q) (nd_chat q) (cn_groups c) = Inr ()"
    "draft_limits (sx_now x) i (ledger t db) l = Inr ()"
    "insert_outbound (draft_row_of (sx_now x) t i q) db = Inr db'" "e = sx_now x + draft_ttl"
  using assms unfolding create_draft_def require_send_permitted_def
  by (cases "insert_outbound (draft_row_of (sx_now x) t i q) db") (auto simp del: insert_outbound_Inr)

lemma start_send_elim:
  assumes "start_send j x w t i key q l db = Inr (s, db')"
  obtains c where "ns_kind q = ''self''" "connection_of t db i = Some c" "live_for_sending (sx_wall x) c key = Inr ()"
    "cn_self c" "send_permitted (sx_now x) db t (cn_creator c) (ns_device q) = Inr True"
    "ns_device q \<in> set (key_devices db (cn_key c))" "snd (own_chats j t db (ns_device q)) \<noteq> ''''" "ns_text_ok q"
    "(\<exists>r. outbound_by_ref (sx_now x) i (ns_ref q) (ledger t db) = Some r \<and> s = Prior r \<and> db' = db)
     \<or> outbound_by_ref (sx_now x) i (ns_ref q) (ledger t db) = None
       \<and> send_limits_check (sx_now x) (sx_check x) i (ledger t db) l = Inr ()
       \<and> s = Started w (snd (own_chats j t db (ns_device q)))
       \<and> insert_outbound (send_row_of (sx_clock x) w t i (snd (own_chats j t db (ns_device q))) q) db = Inr db'"
  using assms unfolding start_send_def require_send_permitted_def Let_def
  by (cases "outbound_by_ref (sx_now x) i (ns_ref q) (ledger t db)")
    (auto simp del: insert_outbound_Inr)

lemma claim_draft_elim:
  assumes "claim_draft x m t u i d chat db = Inr (n, db')"
  obtains r c where "draft_for t db i = Some (r, c)" "cn_creator c = u" "ob_status r = ''pending''"
    "future (ob_expires r) (sx_wall x)" "cn_status c = ''active'' \<or> cn_status c = ''reseal''" "sx_wall x < cn_expires c"
    "cn_mode c \<noteq> ''''" "cn_paused c = None" "d = ob_device r" "chat = ob_chat r" "n = ob_connection r"
    "send_permitted (sx_now x) db t u d = Inr True"
    "update_outbound t (\<lambda>p. ob_id p = i) (\<lambda>p. p\<lparr>ob_status := ''sending'', ob_sealed := None,
        ob_decider := Some u, ob_decided := Some (sx_now x)\<rparr>) db = Inr db'"
proof -
  obtain r c where 1: "draft_for t db i = Some (r, c)"
    using assms by (auto simp: claim_draft_def split: option.splits)
  show ?thesis
    by (rule that [OF 1]; use assms 1 in \<open>auto simp: claim_draft_def split: if_splits option.splits\<close>)
qed

lemma discard_draft_elim:
  assumes "discard_draft x t u i db = Inr (n, db')"
  obtains r c where "draft_for t db i = Some (r, c)" "cn_creator c = u" "ob_status r = ''pending''"
    "update_outbound t (\<lambda>p. ob_id p = i) (\<lambda>p. p\<lparr>ob_status := ''discarded'', ob_sealed := None,
        ob_decider := Some u, ob_decided := Some (sx_now x)\<rparr>) db = Inr db'"
proof -
  obtain r c where 1: "draft_for t db i = Some (r, c)"
    using assms by (auto simp: discard_draft_def split: option.splits)
  show ?thesis
    by (rule that [OF 1]; use assms 1 in \<open>auto simp: discard_draft_def split: if_splits\<close>)
qed

lemma draft_for_Some:
  assumes "draft_for t db i = Some (r, c)"
  shows "r \<in> set (db_outbound db)" "ob_tenant r = t" "ob_id r = i" "ob_kind r = ''draft''"
    "connection_of t db (ob_connection r) = Some c"
proof -
  have "find (\<lambda>r. ob_id r = i \<and> ob_kind r = ''draft'') (ledger t db) = Some r"
    and c: "connection_of t db (ob_connection r) = Some c"
    using assms by (auto simp: draft_for_def split: option.splits)
  from find_in [OF this(1)] c show "r \<in> set (db_outbound db)" "ob_tenant r = t" "ob_id r = i" "ob_kind r = ''draft''"
    "connection_of t db (ob_connection r) = Some c"
    by (simp_all add: ledger_def)
qed

text \<open>With one row per id, the row an operation read under its lock is the row it changes.\<close>

definition ids_unique :: "outbound_row list \<Rightarrow> bool" where
  "ids_unique rs \<longleftrightarrow> distinct (map ob_id rs)"

lemma unique_id:
  "ids_unique rs \<Longrightarrow> r \<in> set rs \<Longrightarrow> p \<in> set rs \<Longrightarrow> ob_id p = ob_id r \<Longrightarrow> p = r"
  by (auto simp: ids_unique_def distinct_map dest: inj_onD)

lemma finished_row:
  assumes "ob_status r = ''sending''" "ob_status r' \<in> {''sent'', ''uncertain'', ''refused''}" "same_send r r'"
    "ob_sealed r' = ob_sealed r" "row_ok r'"
  shows "row_step r r'"
  using assms unfolding row_step_def by blast

lemma claim_advances:
  assumes "claim_draft x m t u i d chat db = Inr (n, db')" "ids_unique (db_outbound db)"
  shows "list_all2 row_step (db_outbound db) (db_outbound db')"
  using assms(1)
proof (rule claim_draft_elim)
  fix r c
  assume r: "draft_for t db i = Some (r, c)" "ob_status r = ''pending''"
  assume up: "update_outbound t (\<lambda>p. ob_id p = i) (\<lambda>p. p\<lparr>ob_status := ''sending'', ob_sealed := None,
      ob_decider := Some u, ob_decided := Some (sx_now x)\<rparr>) db = Inr db'"
  show ?thesis
    by (rule update_advances [OF up]) (use r draft_for_Some [OF r(1)] unique_id [OF assms(2)] in \<open>auto intro!: row_closed\<close>)
qed

lemma discard_advances:
  assumes "discard_draft x t u i db = Inr (n, db')" "ids_unique (db_outbound db)"
  shows "list_all2 row_step (db_outbound db) (db_outbound db')"
  using assms(1)
proof (rule discard_draft_elim)
  fix r c
  assume r: "draft_for t db i = Some (r, c)" "ob_status r = ''pending''"
  assume up: "update_outbound t (\<lambda>p. ob_id p = i) (\<lambda>p. p\<lparr>ob_status := ''discarded'', ob_sealed := None,
      ob_decider := Some u, ob_decided := Some (sx_now x)\<rparr>) db = Inr db'"
  show ?thesis
    by (rule update_advances [OF up]) (use r draft_for_Some [OF r(1)] unique_id [OF assms(2)] in \<open>auto intro!: row_closed\<close>)
qed

lemma finish_advances:
  "finish_send t i e db = Inr db' \<Longrightarrow> so_status e \<in> {''sent'', ''uncertain'', ''refused''}
    \<Longrightarrow> list_all2 row_step (db_outbound db) (db_outbound db')"
  "finish_draft t i g db = Inr db' \<Longrightarrow> do_status g \<in> {''sent'', ''uncertain''}
    \<Longrightarrow> list_all2 row_step (db_outbound db) (db_outbound db')"
  unfolding finish_send_def finish_draft_def
  by (erule update_advances, rule finished_row; auto simp: same_send_def)+

text \<open>The janitor: two updates and a deletion.\<close>

lemma settle_elim:
  assumes "settle_tenant now t db = Inr (s, db')"
  obtains db1 db2 where
    "update_outbound t (ran_out now) (\<lambda>r. r\<lparr>ob_status := ''expired'', ob_sealed := None, ob_decided := ob_expires r\<rparr>) db = Inr db1"
    "update_outbound t (lost now) (\<lambda>r. r\<lparr>ob_status := ''uncertain'', ob_decided := Some now\<rparr>) db1 = Inr db2"
    "db' = db2\<lparr>db_outbound := filter (\<lambda>r. \<not> (ob_tenant r = t \<and> ob_created r < now - retention)) (db_outbound db2)\<rparr>"
  using assms by (auto simp: settle_tenant_def Let_def)

lemma settle_moves:
  assumes "settle_tenant now t db = Inr (s, db')"
  obtains rs1 rs2 where "list_all2 row_step (db_outbound db) rs1" "list_all2 row_step rs1 rs2"
    "db_outbound db' = filter (\<lambda>r. \<not> (ob_tenant r = t \<and> ob_created r < now - retention)) rs2"
  using assms
proof (rule settle_elim)
  fix db1 db2
  assume 1: "update_outbound t (ran_out now) (\<lambda>r. r\<lparr>ob_status := ''expired'', ob_sealed := None, ob_decided := ob_expires r\<rparr>) db = Inr db1"
    and 2: "update_outbound t (lost now) (\<lambda>r. r\<lparr>ob_status := ''uncertain'', ob_decided := Some now\<rparr>) db1 = Inr db2"
    and 3: "db' = db2\<lparr>db_outbound := filter (\<lambda>r. \<not> (ob_tenant r = t \<and> ob_created r < now - retention)) (db_outbound db2)\<rparr>"
  have "list_all2 row_step (db_outbound db) (db_outbound db1)"
    using update_advances [OF 1] row_closed(1) by (auto simp: ran_out_def)
  moreover have "list_all2 row_step (db_outbound db1) (db_outbound db2)"
    by (rule update_advances [OF 2], rule finished_row) (auto simp: lost_def same_send_def)
  ultimately show ?thesis by (rule that) (simp add: 3)
qed

text \<open>What an operation does to the ledger.\<close>

lemma access_moves:
  assumes "run_op y op db = Inr db'"
  shows "list_all2 row_step (db_outbound db) (db_outbound db')"
proof -
  from sending.S_run_op [OF assms] have "list_all2 draft_revoked (db_outbound db) (db_outbound db')"
    by (simp add: sending_ages_def)
  then show ?thesis by (rule list_all2_mono) (rule draft_revoked_step)
qed

lemma row_steps_refl [simp]: "list_all2 row_step rs rs"
  by (simp add: list.rel_refl)

lemma pause_frame:
  assumes "set_send_paused x t u i p db = Inr db'"
  shows "db_outbound db' = db_outbound db" "db_members db' = db_members db"
  using assms by (auto simp: set_send_paused_def split: prod.splits)

lemma run_send_moves [consumes 2, case_names moved settled draft refusal send]:
  assumes "run_send j l x op db = Inr db'" "ids_unique (db_outbound db)"
  obtains (moved) "list_all2 row_step (db_outbound db) (db_outbound db')"
  | (settled) t rs1 rs2 where "op = Settle t" "list_all2 row_step (db_outbound db) rs1" "list_all2 row_step rs1 rs2"
      "db_outbound db' = filter (\<lambda>r. \<not> (ob_tenant r = t \<and> ob_created r < sx_now x - retention)) rs2"
  | (draft) t i key q where "op = CreateDraft t i key q" "draft_limits (sx_now x) i (ledger t db) l = Inr ()"
      "enters (db_outbound db) (draft_row_of (sx_now x) t i q)"
      "db_outbound db' = db_outbound db @ [draft_row_of (sx_now x) t i q]"
  | (refusal) w t i f where "op = RecordRefusal w t i f" "enters (db_outbound db) (refused_row (sx_now x) w t i f)"
      "db_outbound db' = db_outbound db @ [refused_row (sx_now x) w t i f]"
  | (send) w t i key q chat where "op = StartSend w t i key q" "ns_kind q = ''self''"
      "send_limits_check (sx_now x) (sx_check x) i (ledger t db) l = Inr ()"
      "enters (db_outbound db) (send_row_of (sx_clock x) w t i chat q)"
      "db_outbound db' = db_outbound db @ [send_row_of (sx_clock x) w t i chat q]"
proof (cases op)
  case (CreateDraft t i key q)
  with assms(1) obtain e where "create_draft j x t i key q l db = Inr (e, db')" by auto
  then show ?thesis
    using insert_enters [of "draft_row_of (sx_now x) t i q" db db'] draft CreateDraft
    by (auto elim!: create_draft_elim simp: draft_row_of_def simp del: insert_outbound_Inr)
next
  case (RecordRefusal w t i f)
  with assms(1) show ?thesis
    using insert_enters [of "refused_row (sx_now x) w t i f" db db'] refusal moved
    by (auto simp: record_refusal_def refused_row_def simp del: insert_outbound_Inr split: if_splits)
next
  case (StartSend w t i key q)
  with assms(1) obtain s where "start_send j x w t i key q l db = Inr (s, db')" by auto
  then show ?thesis
  proof (rule start_send_elim)
    fix c assume "ns_kind q = ''self''"
    let ?chat = "snd (own_chats j t db (ns_device q))"
    assume "(\<exists>r. outbound_by_ref (sx_now x) i (ns_ref q) (ledger t db) = Some r \<and> s = Prior r \<and> db' = db)
     \<or> outbound_by_ref (sx_now x) i (ns_ref q) (ledger t db) = None
       \<and> send_limits_check (sx_now x) (sx_check x) i (ledger t db) l = Inr () \<and> s = Started w ?chat
       \<and> insert_outbound (send_row_of (sx_clock x) w t i ?chat q) db = Inr db'"
    then show ?thesis
      using insert_enters [of "send_row_of (sx_clock x) w t i ?chat q" db db'] moved send StartSend \<open>ns_kind q = ''self''\<close>
      by (auto simp: send_row_of_def simp del: insert_outbound_Inr)
  qed
next
  case (FinishSend t i e)
  with assms(1) show ?thesis using moved finish_advances(1) by (simp split: if_splits)
next
  case (ClaimDraft m t u i d chat)
  with assms show ?thesis using moved claim_advances by auto
next
  case (FinishDraft t i e)
  with assms(1) show ?thesis using moved finish_advances(2) by (simp split: if_splits)
next
  case (DiscardDraft t u i)
  with assms show ?thesis using moved discard_advances by auto
next
  case (SetSendPaused t u i p)
  with assms(1) show ?thesis using moved pause_frame(1) by simp
next
  case (Settle t)
  with assms(1) obtain s where "settle_tenant (sx_now x) t db = Inr (s, db')" by auto
  then show ?thesis by (rule settle_moves) (rule settled [OF Settle])
next
  case (AccessChange y op')
  with assms(1) show ?thesis using moved access_moves by (auto split: sum.splits)
qed

lemma run_send_cases [consumes 2, case_names aged draft refusal send]:
  assumes "run_send j l x op db = Inr db'" "ids_unique (db_outbound db)"
  obtains (aged) "ages (db_outbound db) (db_outbound db')"
  | (draft) t i key q where "op = CreateDraft t i key q" "draft_limits (sx_now x) i (ledger t db) l = Inr ()"
      "enters (db_outbound db) (draft_row_of (sx_now x) t i q)"
      "db_outbound db' = db_outbound db @ [draft_row_of (sx_now x) t i q]"
  | (refusal) w t i f where "op = RecordRefusal w t i f" "enters (db_outbound db) (refused_row (sx_now x) w t i f)"
      "db_outbound db' = db_outbound db @ [refused_row (sx_now x) w t i f]"
  | (send) w t i key q chat where "op = StartSend w t i key q" "ns_kind q = ''self''"
      "send_limits_check (sx_now x) (sx_check x) i (ledger t db) l = Inr ()"
      "enters (db_outbound db) (send_row_of (sx_clock x) w t i chat q)"
      "db_outbound db' = db_outbound db @ [send_row_of (sx_clock x) w t i chat q]"
  using assms
proof (cases rule: run_send_moves)
  case moved
  then show ?thesis using aged [OF moves [OF still]] by blast
next
  case (settled t rs1 rs2)
  from moves [OF moves [OF still settled(2)] settled(3)] have "ages (db_outbound db) rs2" .
  then show ?thesis using aged goes settled(4) by simp
qed (rule draft refusal send; assumption)+

end
