(* ===== verification/Outbound_Props.thy ===== *)
theory Outbound_Props
  imports Outbound_Facts "HOL-Library.Multiset"
begin

text \<open>
  What holds of the ledger along every run: its rows pass the table's checks and are named once, the
  limits bound every window of time, a draft is claimed at most once, an outcome is kept, a reference
  sends once, and a pause or a removal stops a connection.
\<close>

section \<open>The rows\<close>

definition refs_unique :: "outbound_row list \<Rightarrow> bool" where
  "refs_unique rs \<longleftrightarrow> distinct (map (\<lambda>r. (ob_connection r, ob_ref r)) (filter (\<lambda>r. ob_ref r \<noteq> None) rs))"

definition ledger_valid :: "outbound_row list \<Rightarrow> bool" where
  "ledger_valid rs \<longleftrightarrow> list_all row_ok rs \<and> ids_unique rs \<and> refs_unique rs"

lemma advance_map: "list_all2 R rs rs' \<Longrightarrow> (\<And>r r'. R r r' \<Longrightarrow> f r' = f r) \<Longrightarrow> map f rs' = map f rs"
  by (induction rule: list_all2_induct) auto

lemma advance_filter_map:
  "list_all2 R rs rs' \<Longrightarrow> (\<And>r r'. R r r' \<Longrightarrow> f r' = f r \<and> P r' = P r)
   \<Longrightarrow> map f (filter P rs') = map f (filter P rs)"
  by (induction rule: list_all2_induct) auto

lemma advance_ok: "list_all2 row_step rs rs' \<Longrightarrow> list_all row_ok rs \<Longrightarrow> list_all row_ok rs'"
  by (induction rule: list_all2_induct) (auto simp: row_step_def)

lemma step_keeps:
  assumes "row_step r r'"
  shows "ob_id r' = ob_id r" "ob_tenant r' = ob_tenant r" "ob_connection r' = ob_connection r" "ob_kind r' = ob_kind r"
    "ob_ref r' = ob_ref r" "ob_created r' = ob_created r" "ob_expires r' = ob_expires r"
  using row_step_same [OF assms] by (simp_all add: same_send_def)

lemma advance_valid:
  assumes "list_all2 row_step rs rs'" "ledger_valid rs"
  shows "ledger_valid rs'"
proof -
  have "map ob_id rs' = map ob_id rs"
    using assms(1) by (rule advance_map) (rule step_keeps)
  moreover have "map (\<lambda>r. (ob_connection r, ob_ref r)) (filter (\<lambda>r. ob_ref r \<noteq> None) rs')
      = map (\<lambda>r. (ob_connection r, ob_ref r)) (filter (\<lambda>r. ob_ref r \<noteq> None) rs)"
    using assms(1) by (rule advance_filter_map) (simp add: step_keeps)
  ultimately show ?thesis
    using assms(2) advance_ok [OF assms(1)] by (simp only: ledger_valid_def ids_unique_def refs_unique_def)
qed

lemma filter_valid: "ledger_valid rs \<Longrightarrow> ledger_valid (filter keep rs)"
proof -
  assume 1: "ledger_valid rs"
  have "filter (\<lambda>r. ob_ref r \<noteq> None) (filter keep rs) = filter keep (filter (\<lambda>r. ob_ref r \<noteq> None) rs)"
    by (simp add: conj_commute)
  with 1 show "ledger_valid (filter keep rs)"
    by (simp add: ledger_valid_def ids_unique_def refs_unique_def list_all_iff distinct_map_filter del: filter_filter)
qed

lemma ages_valid: "ages rs rs' \<Longrightarrow> ledger_valid rs \<Longrightarrow> ledger_valid rs'"
  by (induction rule: ages.induct) (auto intro: advance_valid filter_valid)

lemma enters_valid: "enters rs r \<Longrightarrow> ledger_valid rs \<Longrightarrow> ledger_valid (rs @ [r])"
  by (auto simp: enters_def ledger_valid_def ids_unique_def refs_unique_def)

lemma valid_unique [simp]: "ledger_valid rs \<Longrightarrow> ids_unique rs"
  by (simp add: ledger_valid_def)

lemma run_send_valid:
  assumes "run_send j l x op db = Inr db'" "ledger_valid (db_outbound db)"
  shows "ledger_valid (db_outbound db')"
  using assms(1) valid_unique [OF assms(2)]
  by (cases rule: run_send_cases) (use assms(2) in \<open>auto intro: ages_valid enters_valid\<close>)

lemma send_run_valid: "send_run j l db ops db' \<Longrightarrow> ledger_valid (db_outbound db) \<Longrightarrow> ledger_valid (db_outbound db')"
  by (induction rule: send_run.induct) (auto intro: run_send_valid)

section \<open>Windows of time\<close>

text \<open>The rows \<open>P\<close> counts that were written in the \<open>w\<close> up to the moment \<open>at\<close>. A row never starts to count
  once it is in the ledger, so a window only loses rows; one that enters is let in below the limit.\<close>

definition in_window :: "(outbound_row \<Rightarrow> bool) \<Rightarrow> duration \<Rightarrow> timestamp \<Rightarrow> outbound_row list \<Rightarrow> outbound_row list" where
  "in_window P w at rs = filter (\<lambda>r. P r \<and> at - w < ob_created r \<and> ob_created r \<le> at) rs"

definition windows_hold :: "(outbound_row \<Rightarrow> bool) \<Rightarrow> duration \<Rightarrow> int \<Rightarrow> outbound_row list \<Rightarrow> bool" where
  "windows_hold P w n rs \<longleftrightarrow> (\<forall>at. int (length (in_window P w at rs)) \<le> max 0 n)"

definition spaced :: "(outbound_row \<Rightarrow> bool) \<Rightarrow> duration \<Rightarrow> outbound_row list \<Rightarrow> bool" where
  "spaced P d rs \<longleftrightarrow> sorted_wrt (\<lambda>a b. ob_created a + d \<le> ob_created b) (filter P rs)"

locale window_log =
  fixes P :: "outbound_row \<Rightarrow> bool"
  assumes keeps: "row_step r r' \<Longrightarrow> P r' \<Longrightarrow> P r"
begin

lemma advance_window: "list_all2 row_step rs rs' \<Longrightarrow> length (in_window P w at rs') \<le> length (in_window P w at rs)"
  by (induction rule: list_all2_induct)
    (auto simp: in_window_def step_keeps dest: keeps)

lemma ages_window: "ages rs rs' \<Longrightarrow> length (in_window P w at rs') \<le> length (in_window P w at rs)"
proof (induction rule: ages.induct)
  case (moves rs rs' rs'')
  with advance_window [OF moves(2), of w at] show ?case by simp
next
  case (goes rs rs' keep)
  have "in_window P w at (filter keep rs') = filter keep (in_window P w at rs')"
    by (simp add: in_window_def conj_commute)
  then have "length (in_window P w at (filter keep rs')) \<le> length (in_window P w at rs')"
    by (simp only: length_filter_le)
  then show ?case using goes.IH by (rule order_trans)
qed simp

lemma ages_windows: "ages rs rs' \<Longrightarrow> windows_hold P w n rs \<Longrightarrow> windows_hold P w n rs'"
  unfolding windows_hold_def using ages_window [of rs rs' w] by (meson of_nat_le_iff order_trans)

lemma enter_windows:
  assumes "windows_hold P w n rs" "since \<le> ob_created r - w"
    and "P r \<Longrightarrow> int (length (filter (\<lambda>p. P p \<and> since < ob_created p) rs)) < n"
  shows "windows_hold P w n (rs @ [r])"
  unfolding windows_hold_def
proof
  fix at
  show "int (length (in_window P w at (rs @ [r]))) \<le> max 0 n"
  proof (cases "P r \<and> at - w < ob_created r \<and> ob_created r \<le> at")
    case True
    have "length (in_window P w at rs) \<le> length (filter (\<lambda>p. P p \<and> since < ob_created p) rs)"
      using assms(2) True by (auto simp: in_window_def intro!: length_filter_mono)
    with assms(3) True show ?thesis by (auto simp: in_window_def)
  next
    case False
    then have "in_window P w at (rs @ [r]) = in_window P w at rs" by (auto simp: in_window_def)
    then show ?thesis using assms(1) by (simp add: windows_hold_def)
  qed
qed

lemma advance_spaced: "list_all2 row_step rs rs' \<Longrightarrow> spaced P d rs \<Longrightarrow> spaced P d rs'"
proof (induction rule: list_all2_induct)
  case (Cons r rs r' rs')
  have "ob_created r' + d \<le> ob_created p" if p: "p \<in> set rs'" "P p" "P r'" for p
  proof -
    from Cons(2) p(1) obtain q where "q \<in> set rs" "row_step q p" by (metis in_set_conv_nth list_all2_conv_all_nth)
    moreover from this p keeps have "P q" "ob_created p = ob_created q" by (auto simp: step_keeps)
    moreover from p(3) Cons(1) keeps have "P r" "ob_created r' = ob_created r" by (auto simp: step_keeps)
    ultimately show ?thesis using Cons.prems by (auto simp: spaced_def)
  qed
  moreover from Cons.prems have "spaced P d rs" by (auto simp: spaced_def split: if_splits)
  ultimately show ?case using Cons.IH by (auto simp: spaced_def)
qed simp

lemma ages_spaced: "ages rs rs' \<Longrightarrow> spaced P d rs \<Longrightarrow> spaced P d rs'"
proof (induction rule: ages.induct)
  case (goes rs rs' keep)
  have "filter P (filter keep rs') = filter keep (filter P rs')" by (simp add: conj_commute)
  with goes show ?case by (simp add: spaced_def sorted_wrt_filter del: filter_filter)
qed (auto intro: advance_spaced)

lemma enter_spaced:
  assumes "spaced P d rs" "P r \<Longrightarrow> \<forall>p\<in>set rs. P p \<longrightarrow> ob_created p + d \<le> ob_created r"
  shows "spaced P d (rs @ [r])"
  using assms by (auto simp: spaced_def sorted_wrt_append)

end

text \<open>What each limit counts.\<close>

definition sends_of :: "uuid \<Rightarrow> uuid \<Rightarrow> outbound_row \<Rightarrow> bool" where
  "sends_of t i r \<longleftrightarrow> ob_tenant r = t \<and> ob_connection r = i \<and> counted r"

definition sends_in :: "uuid \<Rightarrow> outbound_row \<Rightarrow> bool" where
  "sends_in t r \<longleftrightarrow> ob_tenant r = t \<and> counted r"

definition drafts_of :: "uuid \<Rightarrow> uuid \<Rightarrow> outbound_row \<Rightarrow> bool" where
  "drafts_of t i r \<longleftrightarrow> ob_tenant r = t \<and> ob_connection r = i \<and> ob_kind r = ''draft'' \<and> ob_status r \<noteq> ''refused''"

lemma counted_keeps:
  assumes "row_step r r'" "counted r'"
  shows "counted r"
proof (cases "r' = r")
  case False
  with assms(1) have "ob_status r = ''sending'' \<or> ob_status r' = ''sending'' \<and> ob_kind r = ''draft''
      \<or> ob_status r' \<in> {''discarded'', ''expired'', ''revoked''}"
    unfolding row_step_def by blast
  moreover have "ob_kind r' = ob_kind r" using assms(1) by (rule step_keeps)
  ultimately show ?thesis using assms(2) unfolding counted_def by auto
qed (use assms(2) in simp)

lemma draft_keeps: "row_step r r' \<Longrightarrow> ob_status r' \<noteq> ''refused'' \<Longrightarrow> ob_status r \<noteq> ''refused''"
  by (auto simp: row_step_def)

interpretation connection_sends: window_log "sends_of t i" for t i
  by unfold_locales (auto simp: sends_of_def step_keeps dest: counted_keeps)

interpretation workspace_sends: window_log "sends_in t" for t
  by unfold_locales (auto simp: sends_in_def step_keeps dest: counted_keeps)

interpretation connection_drafts: window_log "drafts_of t i" for t i
  by unfold_locales (auto simp: drafts_of_def step_keeps draft_keeps)

definition limits_hold :: "send_limits \<Rightarrow> outbound_row list \<Rightarrow> bool" where
  "limits_hold l rs \<longleftrightarrow> (\<forall>t i. windows_hold (sends_of t i) day (sl_day l) rs \<and> spaced (sends_of t i) (sl_interval l) rs
     \<and> windows_hold (sends_in t) day (sl_tenant_day l) rs \<and> windows_hold (drafts_of t i) hour (sl_drafts_hour l) rs)"

lemma ages_limits: "ages rs rs' \<Longrightarrow> limits_hold l rs \<Longrightarrow> limits_hold l rs'"
  unfolding limits_hold_def
  by (simp add: connection_sends.ages_windows [of rs rs'] connection_sends.ages_spaced [of rs rs']
      workspace_sends.ages_windows [of rs rs'] connection_drafts.ages_windows [of rs rs'])

text \<open>What a passed limit says of the ledger.\<close>

lemma limited_never_passes [simp]: "limited_until ts k \<noteq> Inr u"
  by (simp add: limited_until_def nth_time_def)

lemma fold_max_ge: "(m :: int) \<le> fold max xs m"
proof (induction xs arbitrary: m)
  case (Cons a xs)
  have "m \<le> max a m" by simp
  also have "\<dots> \<le> fold max xs (max a m)" by (rule Cons)
  finally show ?case by simp
qed simp

lemma fold_max_bound: "(x :: int) \<in> set xs \<or> x \<le> m \<Longrightarrow> x \<le> fold max xs m"
proof (induction xs arbitrary: m)
  case (Cons a xs)
  then consider "x = a" | "x \<in> set xs" | "x \<le> m" by (metis set_ConsD)
  then have "x \<in> set xs \<or> x \<le> max a m" by cases (simp_all add: le_max_iff_disj)
  from Cons.IH [OF this] show ?case by simp
qed simp

lemma last_send_bound:
  assumes "p \<in> set rs" "counted p"
  obtains at where "last_send rs = Some at" "ob_created p \<le> at"
proof -
  have p: "p \<in> set (filter counted rs)" using assms by simp
  then obtain s ss where c: "filter counted rs = s # ss" by (cases "filter counted rs") auto
  have "ob_created p \<le> fold max (map ob_created ss) (ob_created s)"
    using p unfolding c by (auto intro: fold_max_bound)
  with c that show ?thesis by (simp add: last_send_def)
qed

lemma send_limits_pass:
  assumes "send_limits_check now check i (ledger t db) l = Inr ()"
  shows "int (length (filter (\<lambda>p. sends_of t i p \<and> now - day < ob_created p) (db_outbound db))) < sl_day l"
    "int (length (filter (\<lambda>p. sends_in t p \<and> now - day < ob_created p) (db_outbound db))) < sl_tenant_day l"
    "\<forall>p\<in>set (db_outbound db). sends_of t i p \<longrightarrow> ob_created p + sl_interval l \<le> check"
proof -
  have eq: "sends_since (now - day) (of_connection i (ledger t db))
        = filter (\<lambda>p. sends_of t i p \<and> now - day < ob_created p) (db_outbound db)"
      "sends_since (now - day) (ledger t db) = filter (\<lambda>p. sends_in t p \<and> now - day < ob_created p) (db_outbound db)"
    unfolding sends_since_def of_connection_def ledger_def filter_filter
    by (rule filter_cong; auto simp: sends_of_def sends_in_def)+
  show "int (length (filter (\<lambda>p. sends_of t i p \<and> now - day < ob_created p) (db_outbound db))) < sl_day l"
    "int (length (filter (\<lambda>p. sends_in t p \<and> now - day < ob_created p) (db_outbound db))) < sl_tenant_day l"
    using assms unfolding send_limits_check_def Let_def eq by (auto split: if_splits)
  show "\<forall>p\<in>set (db_outbound db). sends_of t i p \<longrightarrow> ob_created p + sl_interval l \<le> check"
  proof clarify
    fix p assume "p \<in> set (db_outbound db)" "sends_of t i p"
    then have "p \<in> set (of_connection i (ledger t db))" "counted p"
      by (auto simp: of_connection_def ledger_def sends_of_def)
    then obtain at where "last_send (of_connection i (ledger t db)) = Some at" "ob_created p \<le> at"
      by (rule last_send_bound)
    then show "ob_created p + sl_interval l \<le> check"
      using assms unfolding send_limits_check_def Let_def by (auto split: if_splits)
  qed
qed

lemma draft_limits_pass:
  assumes "draft_limits now i (ledger t db) l = Inr ()"
  shows "int (length (filter (\<lambda>p. drafts_of t i p \<and> now - hour < ob_created p) (db_outbound db))) < sl_drafts_hour l"
    "int (length (drafts_waiting now i (ledger t db))) < sl_pending l"
proof -
  have eq: "drafts_since (now - hour) i (ledger t db) = filter (\<lambda>p. drafts_of t i p \<and> now - hour < ob_created p) (db_outbound db)"
    unfolding drafts_since_def ledger_def filter_filter by (rule filter_cong) (auto simp: drafts_of_def)
  show "int (length (filter (\<lambda>p. drafts_of t i p \<and> now - hour < ob_created p) (db_outbound db))) < sl_drafts_hour l"
    "int (length (drafts_waiting now i (ledger t db))) < sl_pending l"
    using assms unfolding draft_limits_def Let_def eq by (auto split: if_splits)
qed

text \<open>A run keeps the limits it ran under.\<close>

lemma enter_limits:
  assumes hold: "limits_hold l rs"
    and sends: "counted r \<Longrightarrow> \<exists>since. since \<le> ob_created r - day
        \<and> int (length (filter (\<lambda>p. sends_of (ob_tenant r) (ob_connection r) p \<and> since < ob_created p) rs)) < sl_day l
        \<and> int (length (filter (\<lambda>p. sends_in (ob_tenant r) p \<and> since < ob_created p) rs)) < sl_tenant_day l
        \<and> (\<forall>p\<in>set rs. sends_of (ob_tenant r) (ob_connection r) p \<longrightarrow> ob_created p + sl_interval l \<le> ob_created r)"
    and drafts: "drafts_of (ob_tenant r) (ob_connection r) r \<Longrightarrow>
        int (length (filter (\<lambda>p. drafts_of (ob_tenant r) (ob_connection r) p \<and> ob_created r - hour < ob_created p) rs)) < sl_drafts_hour l"
  shows "limits_hold l (rs @ [r])"
proof -
  obtain since where since: "since \<le> ob_created r - day" "counted r \<Longrightarrow>
        int (length (filter (\<lambda>p. sends_of (ob_tenant r) (ob_connection r) p \<and> since < ob_created p) rs)) < sl_day l
        \<and> int (length (filter (\<lambda>p. sends_in (ob_tenant r) p \<and> since < ob_created p) rs)) < sl_tenant_day l"
    using sends by (cases "counted r") auto
  have "windows_hold (sends_of t i) day (sl_day l) (rs @ [r]) \<and> spaced (sends_of t i) (sl_interval l) (rs @ [r])
     \<and> windows_hold (sends_in t) day (sl_tenant_day l) (rs @ [r])
     \<and> windows_hold (drafts_of t i) hour (sl_drafts_hour l) (rs @ [r])" for t i
  proof (intro conjI)
    show "windows_hold (sends_of t i) day (sl_day l) (rs @ [r])"
      using hold since by (intro connection_sends.enter_windows [where since = since]) (auto simp: limits_hold_def sends_of_def)
    show "windows_hold (sends_in t) day (sl_tenant_day l) (rs @ [r])"
      using hold since by (intro workspace_sends.enter_windows [where since = since]) (auto simp: limits_hold_def sends_in_def)
    show "spaced (sends_of t i) (sl_interval l) (rs @ [r])"
      using hold sends by (intro connection_sends.enter_spaced) (auto simp: limits_hold_def sends_of_def)
    show "windows_hold (drafts_of t i) hour (sl_drafts_hour l) (rs @ [r])"
      using hold drafts by (intro connection_drafts.enter_windows [where since = "ob_created r - hour"])
        (auto simp: limits_hold_def drafts_of_def)
  qed
  then show ?thesis by (simp add: limits_hold_def)
qed

lemma run_send_limits:
  assumes "run_send j l x op db = Inr db'" "ledger_valid (db_outbound db)" "clocks_ok x" "limits_hold l (db_outbound db)"
  shows "limits_hold l (db_outbound db')"
  using assms(1) valid_unique [OF assms(2)]
proof (cases rule: run_send_cases)
  case aged
  then show ?thesis using assms(4) by (rule ages_limits)
next
  case (draft t i key q)
  show ?thesis unfolding draft(4)
    by (rule enter_limits [OF assms(4)])
      (use draft_limits_pass [OF draft(2)] in \<open>simp_all add: draft_row_of_def counted_def\<close>)
next
  case (refusal w t i f)
  show ?thesis unfolding refusal(3)
    by (rule enter_limits [OF assms(4)]) (simp_all add: refused_row_def counted_def drafts_of_def)
next
  case (send w t i key q chat)
  note pass = send_limits_pass [OF send(3)]
  from assms(3) have c: "sx_now x \<le> sx_clock x" "sx_check x \<le> sx_clock x" by (auto simp: clocks_ok_def)
  show ?thesis unfolding send(5)
  proof (rule enter_limits [OF assms(4)], intro exI [of _ "sx_now x - day"] conjI)
    show "\<forall>p\<in>set (db_outbound db). sends_of (ob_tenant (send_row_of (sx_clock x) w t i chat q))
        (ob_connection (send_row_of (sx_clock x) w t i chat q)) p
      \<longrightarrow> ob_created p + sl_interval l \<le> ob_created (send_row_of (sx_clock x) w t i chat q)"
      using pass(3) c by (auto simp: send_row_of_def intro: order_trans)
  qed (use pass c send(2) in \<open>simp_all add: send_row_of_def drafts_of_def\<close>)
qed

lemma send_run_limits:
  assumes "send_run j l db ops db'" "ledger_valid (db_outbound db)" "limits_hold l (db_outbound db)"
  shows "limits_hold l (db_outbound db')"
  using assms
proof (induction rule: send_run.induct)
  case (next_op db ops db' x op db'')
  then show ?case using send_run_valid run_send_limits by blast
qed

section \<open>Waiting drafts\<close>

definition waiting :: "timestamp \<Rightarrow> uuid \<Rightarrow> uuid \<Rightarrow> outbound_row \<Rightarrow> bool" where
  "waiting at t i r \<longleftrightarrow> ob_tenant r = t \<and> ob_connection r = i \<and> ob_kind r = ''draft'' \<and> ob_status r = ''pending''
     \<and> future (ob_expires r) at"

definition waiting_id :: "uuid \<Rightarrow> outbound_row \<Rightarrow> bool" where
  "waiting_id i r \<longleftrightarrow> ob_id r = i \<and> ob_status r = ''pending''"

lemma drafts_waiting_eq: "drafts_waiting at i (ledger t db) = filter (waiting at t i) (db_outbound db)"
  unfolding drafts_waiting_def ledger_def filter_filter by (rule filter_cong) (auto simp: waiting_def)

text \<open>Waiting is left and never entered, so what waits only becomes fewer until a draft is recorded.\<close>

lemma pending_keeps: "row_step r r' \<Longrightarrow> ob_status r' = ''pending'' \<Longrightarrow> r' = r"
  by (auto simp: row_step_def)

lemma fewer_steps:
  assumes "list_all2 row_step rs rs'" "\<And>r r'. row_step r r' \<Longrightarrow> P r' \<Longrightarrow> P r"
  shows "length (filter P rs') \<le> length (filter P rs)"
  using assms by (induction rule: list_all2_induct) (auto simp: le_SucI)

lemma fewer_ages:
  assumes "ages rs rs'" "\<And>r r'. row_step r r' \<Longrightarrow> P r' \<Longrightarrow> P r"
  shows "length (filter P rs') \<le> length (filter P rs)"
  using assms
proof (induction rule: ages.induct)
  case (moves rs rs' rs'')
  with fewer_steps [OF moves(2), of P] show ?case by (auto intro: order_trans)
next
  case (goes rs rs' keep)
  have "length (filter P (filter keep rs')) \<le> length (filter P rs')"
    by (induction rs') (auto simp: le_SucI)
  with goes show ?case by (auto intro: order_trans)
qed simp

lemma waiting_step:
  assumes "row_step r r'" "waiting at t i r'"
  shows "waiting at t i r"
proof -
  have "r' = r" using pending_keeps [OF assms(1)] assms(2) by (simp add: waiting_def)
  with assms(2) show ?thesis by simp
qed

lemma waiting_id_step:
  assumes "row_step r r'" "waiting_id i r'"
  shows "waiting_id i r"
proof -
  have "r' = r" using pending_keeps [OF assms(1)] assms(2) by (simp add: waiting_id_def)
  with assms(2) show ?thesis by simp
qed

lemma run_send_waiting:
  assumes "run_send j l x op db = Inr db'" "ledger_valid (db_outbound db)" "sx_now x \<le> at"
    and "int (length (filter (waiting at t i) (db_outbound db))) \<le> max 0 (sl_pending l)"
  shows "int (length (filter (waiting at t i) (db_outbound db'))) \<le> max 0 (sl_pending l)"
  using assms(1) valid_unique [OF assms(2)]
proof (cases rule: run_send_cases)
  case aged
  from fewer_ages [OF this, of "waiting at t i"] waiting_step assms(4) show ?thesis by force
next
  case (draft v n key q)
  have "length (filter (waiting at v n) (db_outbound db)) \<le> length (filter (waiting (sx_now x) v n) (db_outbound db))"
    by (rule length_filter_mono) (use assms(3) in \<open>auto simp: waiting_def future_def split: option.splits\<close>)
  with draft_limits_pass(2) [OF draft(2)] have "int (length (filter (waiting at v n) (db_outbound db))) < sl_pending l"
    by (simp add: drafts_waiting_eq)
  moreover have "waiting at t i (draft_row_of (sx_now x) v n q) \<Longrightarrow> t = v \<and> i = n"
    by (simp add: waiting_def draft_row_of_def)
  ultimately show ?thesis using assms(4) draft(4) by auto
next
  case refusal
  then show ?thesis using assms(4) by (simp add: waiting_def refused_row_def)
next
  case send
  then show ?thesis using assms(4) by (simp add: waiting_def send_row_of_def)
qed

lemma send_run_waiting:
  assumes "send_run j l db ops db'" "ledger_valid (db_outbound db)" "\<forall>(x, op)\<in>set ops. sx_now x \<le> at"
    and "int (length (filter (waiting at t i) (db_outbound db))) \<le> max 0 (sl_pending l)"
  shows "int (length (filter (waiting at t i) (db_outbound db'))) \<le> max 0 (sl_pending l)"
  using assms
proof (induction rule: send_run.induct)
  case (next_op db ops db' x op db'')
  have "ledger_valid (db_outbound db')" using next_op.hyps(1) next_op.prems(1) by (rule send_run_valid)
  with next_op show ?case by (auto intro!: run_send_waiting [OF next_op.hyps(3)])
qed

section \<open>Claims\<close>

fun claims_draft :: "uuid \<Rightarrow> send_tx \<times> send_op \<Rightarrow> bool" where
  "claims_draft i (x, ClaimDraft m t u n d chat) \<longleftrightarrow> n = i"
| "claims_draft i (x, _) \<longleftrightarrow> False"

fun creates_draft :: "uuid \<Rightarrow> send_tx \<times> send_op \<Rightarrow> bool" where
  "creates_draft i (x, CreateDraft t n key q) \<longleftrightarrow> nd_id q = i"
| "creates_draft i (x, _) \<longleftrightarrow> False"

definition how_many :: "('a \<Rightarrow> bool) \<Rightarrow> 'a list \<Rightarrow> nat" where
  "how_many P xs = length (filter P xs)"

lemma claim_takes:
  assumes "claim_draft x m t u i d chat db = Inr (n, db')" "ledger_valid (db_outbound db)"
  shows "how_many (waiting_id i) (db_outbound db') < how_many (waiting_id i) (db_outbound db)"
  using assms(1)
proof (rule claim_draft_elim)
  fix r c
  assume r: "draft_for t db i = Some (r, c)" "ob_status r = ''pending''"
  let ?f = "\<lambda>p. p\<lparr>ob_status := ''sending'', ob_sealed := None, ob_decider := Some u, ob_decided := Some (sx_now x)\<rparr>"
  assume "update_outbound t (\<lambda>p. ob_id p = i) ?f db = Inr db'"
  then have rows: "db_outbound db' = map (\<lambda>p. if ob_tenant p = t \<and> ob_id p = i then ?f p else p) (db_outbound db)"
    by (simp add: update_outbound_Inr)
  note in_r = draft_for_Some [OF r(1)]
  have "\<not> waiting_id i p" if "p \<in> set (db_outbound db')" for p
    using that in_r unique_id [OF valid_unique [OF assms(2)]] unfolding rows by (auto simp: waiting_id_def)
  then have "how_many (waiting_id i) (db_outbound db') = 0" by (simp add: how_many_def filter_empty_conv)
  moreover have "r \<in> set (filter (waiting_id i) (db_outbound db))" using in_r r(2) by (simp add: waiting_id_def)
  then have "how_many (waiting_id i) (db_outbound db) > 0"
    unfolding how_many_def by (metis length_greater_0_conv list.set(1) empty_iff)
  ultimately show ?thesis by simp
qed

lemma run_send_claims:
  assumes "run_send j l x op db = Inr db'" "ledger_valid (db_outbound db)"
  shows "how_many (waiting_id i) (db_outbound db') + of_bool (claims_draft i (x, op))
      \<le> how_many (waiting_id i) (db_outbound db) + of_bool (creates_draft i (x, op))"
proof (cases "\<exists>m t u d chat. op = ClaimDraft m t u i d chat")
  case True
  then obtain m t u d chat where "op = ClaimDraft m t u i d chat" by blast
  moreover from this assms(1) obtain n where "claim_draft x m t u i d chat db = Inr (n, db')" by auto
  ultimately show ?thesis using claim_takes [OF _ assms(2)] by fastforce
next
  case False
  then have no: "\<not> claims_draft i (x, op)" by (cases op) auto
  from assms(1) valid_unique [OF assms(2)] show ?thesis
  proof (cases rule: run_send_cases)
    case aged
    from fewer_ages [OF this, of "waiting_id i"] waiting_id_step no show ?thesis by (force simp: how_many_def)
  next
    case (draft v n key q)
    then show ?thesis using no by (simp add: how_many_def waiting_id_def draft_row_of_def)
  next
    case refusal
    then show ?thesis using no by (simp add: how_many_def waiting_id_def refused_row_def)
  next
    case send
    then show ?thesis using no by (simp add: how_many_def waiting_id_def send_row_of_def)
  qed
qed

lemma send_run_claims:
  assumes "send_run j l db ops db'" "ledger_valid (db_outbound db)"
  shows "how_many (waiting_id i) (db_outbound db') + how_many (claims_draft i) ops
      \<le> how_many (waiting_id i) (db_outbound db) + how_many (creates_draft i) ops"
  using assms
proof (induction rule: send_run.induct)
  case (next_op db ops db' x op db'')
  have "ledger_valid (db_outbound db')" using next_op.hyps(1) next_op.prems by (rule send_run_valid)
  from run_send_claims [OF next_op.hyps(3) this, of i] next_op show ?case by (auto simp: how_many_def)
qed (simp add: how_many_def)

section \<open>Outcomes\<close>

definition final :: "outbound_row \<Rightarrow> bool" where
  "final r \<longleftrightarrow> ob_status r \<noteq> ''pending'' \<and> ob_status r \<noteq> ''sending''"

lemma final_step: "row_step r r' \<Longrightarrow> final r \<Longrightarrow> r' = r"
  by (auto simp: row_step_def final_def)

lemma final_moves:
  assumes "list_all2 row_step rs rs'" "r \<in> set rs" "final r"
  shows "r \<in> set rs'"
  using assms by (induction rule: list_all2_induct) (auto dest: final_step)

text \<open>The janitor deletes nothing that was written less than the retention ago.\<close>

definition retained :: "outbound_row \<Rightarrow> (send_tx \<times> send_op) list \<Rightarrow> bool" where
  "retained r ops \<longleftrightarrow> (\<forall>(x, op)\<in>set ops. op = Settle (ob_tenant r) \<longrightarrow> sx_now x \<le> ob_created r + retention)"

lemma run_send_keeps:
  assumes "run_send j l x op db = Inr db'" "ledger_valid (db_outbound db)" "r \<in> set (db_outbound db)" "final r"
    and "op = Settle (ob_tenant r) \<Longrightarrow> sx_now x \<le> ob_created r + retention"
  shows "r \<in> set (db_outbound db')"
  using assms(1) valid_unique [OF assms(2)]
proof (cases rule: run_send_moves)
  case moved
  then show ?thesis using assms(3,4) by (rule final_moves)
next
  case (settled t rs1 rs2)
  from final_moves [OF settled(3) final_moves [OF settled(2) assms(3,4)] assms(4)] settled(1,4) assms(5)
  show ?thesis by auto
qed (use assms(3) in auto)

lemma send_run_keeps:
  assumes "send_run j l db ops db'" "ledger_valid (db_outbound db)" "r \<in> set (db_outbound db)" "final r" "retained r ops"
  shows "r \<in> set (db_outbound db')"
  using assms
proof (induction rule: send_run.induct)
  case (next_op db ops db' x op db'')
  have "ledger_valid (db_outbound db')" using next_op.hyps(1) next_op.prems(1) by (rule send_run_valid)
  with next_op show ?case by (auto simp: retained_def intro: run_send_keeps [OF next_op.hyps(3)])
qed

section \<open>References\<close>

text \<open>The row a connection recorded under a reference stays the only one under it, whatever becomes of it.\<close>

definition recorded_as :: "outbound_row \<Rightarrow> outbound_row \<Rightarrow> bool" where
  "recorded_as r p \<longleftrightarrow> ob_id p = ob_id r \<and> ob_tenant p = ob_tenant r \<and> ob_connection p = ob_connection r
     \<and> ob_ref p = ob_ref r \<and> ob_created p = ob_created r"

lemma recorded_step: "row_step p p' \<Longrightarrow> recorded_as r p \<Longrightarrow> recorded_as r p'"
  by (simp add: recorded_as_def step_keeps)

lemma recorded_moves:
  assumes "list_all2 row_step rs rs'" "\<exists>p\<in>set rs. recorded_as r p"
  shows "\<exists>p\<in>set rs'. recorded_as r p"
  using assms by (induction rule: list_all2_induct) (auto dest: recorded_step)

lemma run_send_recorded:
  assumes "run_send j l x op db = Inr db'" "ledger_valid (db_outbound db)" "\<exists>p\<in>set (db_outbound db). recorded_as r p"
    and "op = Settle (ob_tenant r) \<Longrightarrow> sx_now x \<le> ob_created r + retention"
  shows "\<exists>p\<in>set (db_outbound db'). recorded_as r p"
  using assms(1) valid_unique [OF assms(2)]
proof (cases rule: run_send_moves)
  case moved
  then show ?thesis using assms(3) by (rule recorded_moves)
next
  case (settled t rs1 rs2)
  from recorded_moves [OF settled(3) recorded_moves [OF settled(2) assms(3)]] obtain p
    where "p \<in> set rs2" "recorded_as r p" by blast
  with settled(1,4) assms(4) show ?thesis by (auto simp: recorded_as_def intro!: bexI [of _ p])
qed (use assms(3) in auto)

lemma send_run_recorded:
  assumes "send_run j l db ops db'" "ledger_valid (db_outbound db)" "\<exists>p\<in>set (db_outbound db). recorded_as r p" "retained r ops"
  shows "\<exists>p\<in>set (db_outbound db'). recorded_as r p"
  using assms
proof (induction rule: send_run.induct)
  case (next_op db ops db' x op db'')
  have "ledger_valid (db_outbound db')" using next_op.hyps(1) next_op.prems(1) by (rule send_run_valid)
  with next_op show ?case by (auto simp: retained_def intro!: run_send_recorded [OF next_op.hyps(3)])
qed

lemma recorded_found:
  assumes "ledger_valid (db_outbound db)" "p \<in> set (db_outbound db)" "ob_tenant p = t" "ob_connection p = i" "ob_ref p = Some w"
  shows "outbound_by_ref now i w (ledger t db) = Some (read_row now p)"
proof -
  let ?Q = "\<lambda>r. ob_connection r = i \<and> ob_ref r = Some w"
  have unique: "q = p" if "q \<in> set (db_outbound db)" "?Q q" for q
  proof -
    have "inj_on (\<lambda>r. (ob_connection r, ob_ref r)) (set (filter (\<lambda>r. ob_ref r \<noteq> None) (db_outbound db)))"
      using assms(1) by (simp add: ledger_valid_def refs_unique_def distinct_map)
    from inj_onD [OF this, of q p] that assms show ?thesis by auto
  qed
  obtain q where q: "find ?Q (ledger t db) = Some q"
    using assms by (cases "find ?Q (ledger t db)") (auto simp: find_None_iff ledger_def)
  from find_in [OF this] unique have "q = p" by (auto simp: ledger_def)
  with q show ?thesis by (simp add: outbound_by_ref_def)
qed

section \<open>Connections and members\<close>

text \<open>Along a run a connection keeps its terms; only its pause is switched.\<close>

definition connection_runs :: "connection_row \<Rightarrow> connection_row \<Rightarrow> bool" where
  "connection_runs c c' \<longleftrightarrow> cn_id c' = cn_id c \<and> cn_tenant c' = cn_tenant c \<and> cn_creator c' = cn_creator c"

lemma runs_refl [simp]: "list_all2 connection_runs cs cs"
  by (simp add: list.rel_refl connection_runs_def)

lemma update_keeps:
  "update_outbound t P f db = Inr db' \<Longrightarrow> db_connections db' = db_connections db \<and> db_members db' = db_members db"
  by (auto simp: update_outbound_Inr)

lemma settle_frame:
  assumes "settle_tenant now t db = Inr (s, db')"
  shows "db_connections db' = db_connections db \<and> db_members db' = db_members db \<or> Q"
  using assms
proof (rule settle_elim)
  fix db1 db2
  assume "update_outbound t (ran_out now) (\<lambda>r. r\<lparr>ob_status := ''expired'', ob_sealed := None, ob_decided := ob_expires r\<rparr>) db = Inr db1"
    "update_outbound t (lost now) (\<lambda>r. r\<lparr>ob_status := ''uncertain'', ob_decided := Some now\<rparr>) db1 = Inr db2"
    and 3: "db' = db2\<lparr>db_outbound := filter (\<lambda>r. \<not> (ob_tenant r = t \<and> ob_created r < now - retention)) (db_outbound db2)\<rparr>"
  from this(1,2) [THEN update_keeps] show ?thesis by (simp add: 3)
qed

lemma run_send_frame:
  assumes "run_send j l x op db = Inr db'" "\<forall>t u i p. op \<noteq> SetSendPaused t u i p"
  shows "list_all2 connection_ages (db_connections db) (db_connections db')" "member_keys db' \<subseteq> member_keys db"
proof -
  have "db_connections db' = db_connections db \<and> db_members db' = db_members db
    \<or> list_all2 connection_ages (db_connections db) (db_connections db') \<and> member_keys db' \<subseteq> member_keys db"
  proof (cases op)
    case (CreateDraft t i key q)
    with assms(1) show ?thesis by (auto elim!: create_draft_elim)
  next
    case (RecordRefusal w t i f)
    with assms(1) show ?thesis by (auto simp: record_refusal_def split: if_splits)
  next
    case (StartSend w t i key q)
    with assms(1) show ?thesis by (auto elim!: start_send_elim)
  next
    case (FinishSend t i e)
    with assms(1) show ?thesis by (auto simp: finish_send_def update_outbound_Inr split: if_splits)
  next
    case (ClaimDraft m t u i d chat)
    with assms(1) show ?thesis by (auto simp: update_outbound_Inr elim!: claim_draft_elim)
  next
    case (FinishDraft t i e)
    with assms(1) show ?thesis by (auto simp: finish_draft_def update_outbound_Inr split: if_splits)
  next
    case (DiscardDraft t u i)
    with assms(1) show ?thesis by (auto simp: update_outbound_Inr elim!: discard_draft_elim)
  next
    case (Settle t)
    with assms(1) obtain s where "settle_tenant (sx_now x) t db = Inr (s, db')" by auto
    then show ?thesis by (rule settle_frame)
  next
    case (AccessChange y op')
    with assms(1) have "run_op y op' db = Inr db'" by (auto split: sum.splits)
    from sending.S_run_op [OF this] show ?thesis by (simp add: sending_ages_def)
  qed (use assms(2) in simp)
  then show "list_all2 connection_ages (db_connections db) (db_connections db')" "member_keys db' \<subseteq> member_keys db"
    by (auto simp: member_keys_def)
qed

section \<open>When a limit frees\<close>

text \<open>The \<open>n\<close>-th latest of some times is the moment from which fewer than \<open>n\<close> of them are later.\<close>

lemma nth_latest:
  fixes ts :: "int list"
  assumes "0 < n" "n \<le> length ts"
  shows "length (filter (\<lambda>t. x < t) ts) < n \<longleftrightarrow> sort ts ! (length ts - n) \<le> x"
proof -
  let ?s = "sort ts" and ?k = "length ts - n" and ?P = "\<lambda>t. x < t"
  have k: "?k < length ?s" using assms by simp
  have "length (filter ?P ts) = size (filter_mset ?P (mset ts))" by (simp only: mset_filter [symmetric] size_mset)
  also have "\<dots> = length (filter ?P ?s)" by (metis mset_filter mset_sort size_mset)
  also have "\<dots> = length (filter ?P (take ?k ?s)) + length (filter ?P (drop ?k ?s))"
    by (metis append_take_drop_id filter_append length_append)
  finally have len: "length (filter ?P ts) = length (filter ?P (take ?k ?s)) + length (filter ?P (drop ?k ?s))" .
  have early: "t \<le> ?s ! ?k" if t: "t \<in> set (take ?k ?s)" for t
  proof -
    obtain m where m: "m < ?k" "m < length ts" "t = ?s ! m" using t by (auto simp: in_set_conv_nth)
    then show ?thesis using sorted_nth_mono [of ?s m ?k] k by simp
  qed
  have late: "?s ! ?k \<le> t" if t: "t \<in> set (drop ?k ?s)" for t
  proof -
    obtain m where m: "m < length (drop ?k ?s)" "t = drop ?k ?s ! m" using t by (auto simp: in_set_conv_nth)
    then have "t = ?s ! (?k + m)" "?k + m < length ?s" using k by auto
    then show ?thesis using sorted_nth_mono [of ?s ?k "?k + m"] by simp
  qed
  show ?thesis
  proof
    assume "length (filter ?P ts) < n"
    then have "length (filter ?P (drop ?k ?s)) < length (drop ?k ?s)" using len assms(2) by simp
    then obtain t where "t \<in> set (drop ?k ?s)" "\<not> x < t"
      by (metis filter_True less_irrefl)
    then show "?s ! ?k \<le> x" using late by force
  next
    assume a: "?s ! ?k \<le> x"
    have "filter ?P (take ?k ?s) = []" using early a by (fastforce simp: filter_empty_conv)
    moreover have "drop ?k ?s = ?s ! ?k # drop (Suc ?k) ?s" using k by (simp add: Cons_nth_drop_Suc)
    then have "length (filter ?P (drop ?k ?s)) = length (filter ?P (drop (Suc ?k) ?s))" using a by simp
    then have "length (filter ?P (drop ?k ?s)) \<le> length (drop (Suc ?k) ?s)" by (metis length_filter_le)
    ultimately show "length (filter ?P ts) < n" using len assms by simp
  qed
qed

lemma limited_untilD:
  assumes "limited_until ts (int (length ts) - n) = Inl (RateLimited at)" "0 < n" "n \<le> int (length ts)"
  shows "n \<le> int (length (filter (\<lambda>t. x < t) ts)) \<longleftrightarrow> x < at"
proof -
  have k: "nat (int (length ts) - n) = length ts - nat n" using assms(2) by simp
  from assms(1) have "at = sort ts ! (length ts - nat n)"
    unfolding k limited_until_def nth_time_def by (auto simp: k split: if_splits)
  with nth_latest [of "nat n" ts x] assms(2,3) show ?thesis by (auto simp: nat_le_iff not_less not_le zless_nat_conj)
qed

text \<open>The four limits as predicates.\<close>

definition day_full :: "timestamp \<Rightarrow> uuid \<Rightarrow> outbound_row list \<Rightarrow> send_limits \<Rightarrow> bool" where
  "day_full now i rs l \<longleftrightarrow> sl_day l \<le> int (length (sends_since (now - day) (of_connection i rs)))"

definition too_soon :: "timestamp \<Rightarrow> uuid \<Rightarrow> outbound_row list \<Rightarrow> send_limits \<Rightarrow> bool" where
  "too_soon check i rs l \<longleftrightarrow> (case last_send (of_connection i rs) of None \<Rightarrow> False | Some at \<Rightarrow> check < at + sl_interval l)"

definition workspace_full :: "timestamp \<Rightarrow> outbound_row list \<Rightarrow> send_limits \<Rightarrow> bool" where
  "workspace_full now rs l \<longleftrightarrow> sl_tenant_day l \<le> int (length (sends_since (now - day) rs))"

lemma since_later: "now \<le> now' \<Longrightarrow> length (sends_since (now' - w) rs)
    = length (filter (\<lambda>t. now' < t) (map (\<lambda>r. ob_created r + w) (sends_since (now - w) rs)))"
  by (induction rs) (auto simp: sends_since_def)

lemma since_until:
  assumes "limited_until (map (\<lambda>r. ob_created r + w) (sends_since (now - w) rs)) (int (length (sends_since (now - w) rs)) - n) = Inl (RateLimited at)"
    and "n \<le> int (length (sends_since (now - w) rs))" "0 < n" "now \<le> now'"
  shows "n \<le> int (length (sends_since (now' - w) rs)) \<longleftrightarrow> now' < at"
  using limited_untilD [of "map (\<lambda>r. ob_created r + w) (sends_since (now - w) rs)" n at now'] assms since_later [of now now' w rs]
  by simp

end
