(* ===== verification/Outbound_Claims.thy ===== *)
theory Outbound_Claims
  imports Outbound_Props Access_Claims
begin

text \<open>
  The claims about drafts and sends, each with a run of the model on the small workspace of
  \<open>Access_Claims\<close>, whose content connection may draft and send to the number's own chat.
\<close>

section \<open>A small ledger\<close>

definition plain_jids :: jids where
  "plain_jids = \<lparr>jd_user = (\<lambda>s. s), jd_lid = (\<lambda>u. u @ ''@lid''), jd_pn = (\<lambda>u. u @ ''@s'')\<rparr>"

definition sample_limits :: send_limits where
  "sample_limits = \<lparr>sl_drafts_hour = 2, sl_pending = 2, sl_day = 2, sl_chat_day = 2, sl_interval = 5, sl_tenant_day = 3\<rparr>"

definition clocks_at :: "timestamp \<Rightarrow> send_tx" where
  "clocks_at n = \<lparr>sx_now = n, sx_wall = n, sx_check = n, sx_clock = n\<rparr>"

definition send_db :: db where
  "send_db = sample_db\<lparr>db_key_devices := [(30, 20)],
     db_chats := [\<lparr>ct_tenant = 1, ct_device = 20, ct_key = ''77@s'', ct_group = False, ct_pn = Some ''77''\<rparr>],
     db_messages := [\<lparr>me_tenant = 1, me_uid = 90, me_device = 20, me_chat = ''77@s'', me_kind = ''message'', me_from_me = False\<rparr>]\<rparr>"

definition sample_draft :: new_draft where
  "sample_draft = \<lparr>nd_id = 70, nd_device = 20, nd_chat = ''77@s'', nd_reply = Some 90, nd_epoch = 1, nd_sealed = ''sealed''\<rparr>"

definition sample_ref :: string where
  "sample_ref = ''abcdefghijklmnopqrstuv''"

definition sample_send :: new_send where
  "sample_send = \<lparr>ns_kind = ''self'', ns_device = 20, ns_ref = sample_ref, ns_text_ok = True\<rparr>"

definition sent_outcome :: send_outcome where
  "sent_outcome = \<lparr>so_status = ''sent'', so_code = '''', so_message = None, so_wa = ''w'', so_at = 130\<rparr>"

definition sample_ops :: "(send_tx \<times> send_op) list" where
  "sample_ops = [(clocks_at 100, CreateDraft 1 50 30 sample_draft),
     (clocks_at 110, ClaimDraft (Some (\<lambda>_. True)) 1 12 70 20 ''77@s''),
     (clocks_at 120, StartSend 71 1 50 30 sample_send),
     (clocks_at 130, FinishSend 1 71 sent_outcome)]"

fun run_all :: "jids \<Rightarrow> send_limits \<Rightarrow> (send_tx \<times> send_op) list \<Rightarrow> db \<Rightarrow> send_error + db" where
  "run_all j l [] db = Inr db"
| "run_all j l ((x, op) # ops) db = (if clocks_ok x then and_then (run_send j l x op db) (run_all j l ops) else Inl BadQuery)"

lemma run_all_appends:
  "send_run j l db done_ops db' \<Longrightarrow> run_all j l ops db' = Inr db'' \<Longrightarrow> send_run j l db (done_ops @ ops) db''"
proof (induction ops arbitrary: done_ops db')
  case (Cons y ops)
  obtain x op where y: "y = (x, op)" by (cases y)
  with Cons.prems obtain db1 where 1: "clocks_ok x" "run_send j l x op db' = Inr db1" "run_all j l ops db1 = Inr db''"
    by (auto split: if_splits)
  from next_op [OF Cons.prems(1) 1(1,2)] have "send_run j l db (done_ops @ [(x, op)]) db1" .
  from Cons.IH [OF this 1(3)] show ?case by (simp add: y)
qed simp

lemma run_all_run: "run_all j l ops db = Inr db' \<Longrightarrow> send_run j l db ops db'"
  using run_all_appends [OF start] by fastforce

definition sent_db :: db where
  "sent_db = (case run_all plain_jids sample_limits sample_ops send_db of Inr db \<Rightarrow> db | Inl _ \<Rightarrow> send_db)"

lemma sample_run: "send_run plain_jids sample_limits send_db sample_ops sent_db"
proof (rule run_all_run)
  have "case run_all plain_jids sample_limits sample_ops send_db of Inr _ \<Rightarrow> True | Inl _ \<Rightarrow> False" by code_simp
  then show "run_all plain_jids sample_limits sample_ops send_db = Inr sent_db"
    by (simp add: sent_db_def split: sum.splits)
qed

lemma empty_ledger: "db_outbound send_db = []"
  by (simp add: send_db_def sample_db_def)

lemma empty_valid: "ledger_valid []" "limits_hold l []"
  by (simp_all add: ledger_valid_def ids_unique_def refs_unique_def limits_hold_def windows_hold_def in_window_def spaced_def)

section \<open>The ledger and its limits\<close>

text \<open>C16: Whatever is drafted, sent, refused, claimed, discarded, paused, aged and changed in the workspace's
  access, the limits hold over every window of time, not only at the moments they are checked: in the day up to
  any moment a connection has at most its sends a day and the workspace at most its own, two sends of a
  connection are at least the interval apart, in any hour a connection drafts at most its drafts an hour, and
  at no moment after the run's operations do more drafts wait than may.\<close>

theorem limits_hold_over_every_window:
  assumes "db_outbound db = []" "send_run j l db ops db'"
  shows "int (length (in_window (sends_of t i) day at (db_outbound db'))) \<le> max 0 (sl_day l)
    \<and> int (length (in_window (sends_in t) day at (db_outbound db'))) \<le> max 0 (sl_tenant_day l)
    \<and> sorted_wrt (\<lambda>a b. ob_created a + sl_interval l \<le> ob_created b) (filter (sends_of t i) (db_outbound db'))
    \<and> int (length (in_window (drafts_of t i) hour at (db_outbound db'))) \<le> max 0 (sl_drafts_hour l)
    \<and> ((\<forall>(x, op)\<in>set ops. sx_now x \<le> at) \<longrightarrow> int (length (drafts_waiting at i (ledger t db'))) \<le> max 0 (sl_pending l))"
proof (intro conjI impI)
  have "limits_hold l (db_outbound db')"
    using send_run_limits [OF assms(2)] assms(1) empty_valid by simp
  then show "int (length (in_window (sends_of t i) day at (db_outbound db'))) \<le> max 0 (sl_day l)"
    "int (length (in_window (sends_in t) day at (db_outbound db'))) \<le> max 0 (sl_tenant_day l)"
    "sorted_wrt (\<lambda>a b. ob_created a + sl_interval l \<le> ob_created b) (filter (sends_of t i) (db_outbound db'))"
    "int (length (in_window (drafts_of t i) hour at (db_outbound db'))) \<le> max 0 (sl_drafts_hour l)"
    unfolding limits_hold_def windows_hold_def spaced_def by blast+
next
  assume moment: "\<forall>(x, op)\<in>set ops. sx_now x \<le> at"
  show "int (length (drafts_waiting at i (ledger t db'))) \<le> max 0 (sl_pending l)"
    using send_run_waiting [OF assms(2) _ moment, of t i] assms(1) empty_valid by (simp add: drafts_waiting_eq)
qed

theorem limits_hold_over_every_window_witness:
  "int (length (in_window (sends_of 1 50) day 120 (db_outbound sent_db))) \<le> 2
   \<and> int (length (drafts_waiting 130 50 (ledger 1 sent_db))) \<le> 2"
  using limits_hold_over_every_window [OF empty_ledger sample_run, of 1 50]
  by (simp add: sample_limits_def sample_ops_def clocks_at_def)

text \<open>An envelope is held only while its draft waits: along any run every row passes the table's checks,
  so a row that carries sealed text is a draft, pending, with an epoch and an expiry, a refused row has its code,
  and no two rows share an id or a connection's reference.\<close>

theorem envelopes_only_while_waiting:
  assumes "send_run j l db ops db'" "ledger_valid (db_outbound db)"
  shows "ledger_valid (db_outbound db') \<and> (\<forall>r\<in>set (db_outbound db'). ob_sealed r \<noteq> None
      \<longrightarrow> ob_kind r = ''draft'' \<and> ob_status r = ''pending'' \<and> ob_epoch r \<noteq> None \<and> ob_expires r \<noteq> None)"
proof (intro conjI ballI impI)
  show valid: "ledger_valid (db_outbound db')" using send_run_valid [OF assms] .
  fix r assume r: "r \<in> set (db_outbound db')" "ob_sealed r \<noteq> None"
  have "row_ok r" using valid r(1) by (simp add: ledger_valid_def list_all_iff)
  from row_ok_sealed [OF this r(2)] show "ob_kind r = ''draft''" "ob_status r = ''pending''" "ob_epoch r \<noteq> None"
    "ob_expires r \<noteq> None" by blast+
qed

theorem envelopes_only_while_waiting_witness: "ledger_valid (db_outbound sent_db)"
  using envelopes_only_while_waiting [OF sample_run] empty_ledger empty_valid by simp

text \<open>A draft is sent at most once: in any run no more confirmations of a draft's id succeed than drafts
  were recorded under it, so for a draft recorded once at most one person's send takes it, whatever else claims,
  discards, expires or revokes it in between.\<close>

theorem a_draft_is_claimed_once:
  assumes "db_outbound db = []" "send_run j l db ops db'"
  shows "how_many (claims_draft i) ops \<le> how_many (creates_draft i) ops"
  using send_run_claims [OF assms(2), of i] assms(1) empty_valid by (simp add: how_many_def)

theorem a_draft_is_claimed_once_witness: "how_many (claims_draft 70) sample_ops \<le> 1"
proof -
  have "how_many (creates_draft 70) sample_ops = 1" by code_simp
  with a_draft_is_claimed_once [OF empty_ledger sample_run, of 70] show ?thesis by simp
qed

text \<open>C17: An outcome is never rewritten: a row that is sent, uncertain, discarded, expired, revoked or refused
  stays in the ledger exactly as it is, through any run in which the janitor does not reach the end of its 365
  days. A purge of the number, which takes its rows along earlier, is not one of these runs.\<close>

theorem outcomes_are_kept:
  assumes "send_run j l db ops db'" "ledger_valid (db_outbound db)" "r \<in> set (db_outbound db)"
    and "ob_status r \<noteq> ''pending''" "ob_status r \<noteq> ''sending''"
    and "\<forall>(x, op)\<in>set ops. op = Settle (ob_tenant r) \<longrightarrow> sx_now x \<le> ob_created r + retention"
  shows "r \<in> set (db_outbound db')"
  using send_run_keeps [OF assms(1-3)] assms(4-6) by (simp add: final_def retained_def)

text \<open>A reference sends once: after a send was taken under a reference, asking again under it, at any later
  point of any run within the retention, never takes another; it either fails before the ledger is asked or
  answers the row recorded first, and writes nothing.\<close>

theorem a_reference_sends_once:
  assumes "ledger_valid (db_outbound db)" "start_send j x w t i key q l db = Inr (Started w chat, db1)"
    and "send_run j l db1 ops db2"
    and "\<forall>(y, op)\<in>set ops. op = Settle t \<longrightarrow> sx_now y \<le> sx_clock x + retention"
    and "start_send j y v t i key' q' l db2 = Inr (s, db3)" "ns_ref q' = ns_ref q"
  shows "db3 = db2 \<and> (\<exists>r. s = Prior r \<and> ob_id r = w)"
proof -
  let ?r = "send_row_of (sx_clock x) w t i chat q"
  from assms(2) have ins: "insert_outbound ?r db = Inr db1"
    by (rule start_send_elim) auto
  note entered = insert_enters [OF ins]
  have step: "enters (db_outbound db) ?r" "db_outbound db1 = db_outbound db @ [?r]"
    by (rule entered; simp add: send_row_of_def)+
  then have valid1: "ledger_valid (db_outbound db1)" using enters_valid assms(1) by simp
  have r: "ob_tenant ?r = t" "ob_connection ?r = i" "ob_ref ?r = Some (ns_ref q)" "ob_created ?r = sx_clock x" "ob_id ?r = w"
    by (simp_all add: send_row_of_def)
  have "\<exists>p\<in>set (db_outbound db2). recorded_as ?r p"
    using step(2) assms(4) r
    by (intro send_run_recorded [OF assms(3) valid1]) (auto simp: retained_def recorded_as_def)
  then obtain p where p: "p \<in> set (db_outbound db2)" "recorded_as ?r p" by blast
  have valid2: "ledger_valid (db_outbound db2)" using send_run_valid [OF assms(3) valid1] .
  have "outbound_by_ref (sx_now y) i (ns_ref q') (ledger t db2) = Some (read_row (sx_now y) p)"
    using recorded_found [OF valid2 p(1)] p(2) r assms(6) by (simp add: recorded_as_def)
  moreover have "ob_id (read_row (sx_now y) p) = w" using p(2) r by (simp add: recorded_as_def read_row_def)
  ultimately show ?thesis using assms(5) by (auto elim!: start_send_elim)
qed

text \<open>Witnesses: the sample's sent row, and the sample's reference asked again.\<close>

definition claimed_db :: db where
  "claimed_db = (case run_all plain_jids sample_limits (take 2 sample_ops) send_db of Inr db \<Rightarrow> db | Inl _ \<Rightarrow> send_db)"

lemma claimed_run: "send_run plain_jids sample_limits send_db (take 2 sample_ops) claimed_db"
proof (rule run_all_run)
  have "case run_all plain_jids sample_limits (take 2 sample_ops) send_db of Inr _ \<Rightarrow> True | Inl _ \<Rightarrow> False" by code_simp
  then show "run_all plain_jids sample_limits (take 2 sample_ops) send_db = Inr claimed_db"
    by (simp add: claimed_db_def split: sum.splits)
qed

definition sent_row :: outbound_row where
  "sent_row = last (db_outbound sent_db)"

theorem outcomes_are_kept_witness: "sent_row \<in> set (db_outbound sent_db)"
proof (rule outcomes_are_kept [OF start])
  show "ledger_valid (db_outbound sent_db)" using send_run_valid [OF sample_run] empty_ledger empty_valid by simp
  have "db_outbound sent_db \<noteq> []" by code_simp
  then show "sent_row \<in> set (db_outbound sent_db)" by (simp add: sent_row_def)
  show "ob_status sent_row \<noteq> ''pending''" by code_simp
  show "ob_status sent_row \<noteq> ''sending''" by code_simp
qed simp

definition ask :: "timestamp \<Rightarrow> uuid \<Rightarrow> db \<Rightarrow> send_error + (started \<times> db)" where
  "ask n w db = start_send plain_jids (clocks_at n) w 1 50 30 sample_send sample_limits db"

theorem a_reference_sends_once_witness:
  "\<exists>chat db1 s. ask 120 71 claimed_db = Inr (Started 71 chat, db1) \<and> ask 140 72 db1 = Inr (s, db1)
     \<and> (\<exists>r. s = Prior r \<and> ob_id r = 71)"
proof -
  have first: "case ask 120 71 claimed_db of Inr (Started w chat, db1) \<Rightarrow> w = 71 \<and> (case ask 140 72 db1 of Inr _ \<Rightarrow> True | _ \<Rightarrow> False)
      | _ \<Rightarrow> False"
    by code_simp
  then obtain st db1 where st: "ask 120 71 claimed_db = Inr (st, db1)" by (cases "ask 120 71 claimed_db") auto
  with first obtain chat where "st = Started 71 chat" and again: "case ask 140 72 db1 of Inr _ \<Rightarrow> True | _ \<Rightarrow> False"
    by (cases st) auto
  moreover from again obtain s db3 where "ask 140 72 db1 = Inr (s, db3)" by (cases "ask 140 72 db1") auto
  ultimately have 1: "ask 120 71 claimed_db = Inr (Started 71 chat, db1)" "ask 140 72 db1 = Inr (s, db3)"
    using st by simp_all
  have valid: "ledger_valid (db_outbound claimed_db)" using send_run_valid [OF claimed_run] empty_ledger empty_valid by simp
  from a_reference_sends_once [OF valid 1(1) [unfolded ask_def] start _ 1(2) [unfolded ask_def]] 1 show ?thesis by auto
qed

section \<open>A connection that may not send\<close>

lemma find_rel:
  "list_all2 R xs ys \<Longrightarrow> (\<And>x y. R x y \<Longrightarrow> P y = P x) \<Longrightarrow> find P xs = Some x \<Longrightarrow> \<exists>y. find P ys = Some y \<and> R x y"
  by (induction rule: list_all2_induct) (auto split: if_splits)

lemma find_map_key:
  "(\<And>x. P (f x) = P x) \<Longrightarrow> find P xs = Some x \<Longrightarrow> find P (map f xs) = Some (f x)"
  by (simp add: find_map)

text \<open>A pause stays until the person who consented takes it off.\<close>

definition paused_by :: "uuid \<Rightarrow> uuid \<Rightarrow> uuid \<Rightarrow> db \<Rightarrow> bool" where
  "paused_by t i u db \<longleftrightarrow> (\<exists>c. connection_of t db i = Some c \<and> cn_creator c = u \<and> cn_paused c \<noteq> None)"

lemma paused_stays:
  assumes "run_send j l x op db = Inr db'" "paused_by t i u db" "op \<noteq> SetSendPaused t u i False"
  shows "paused_by t i u db'"
proof -
  obtain c where c: "connection_of t db i = Some c" "cn_creator c = u" "cn_paused c \<noteq> None"
    using assms(2) by (auto simp: paused_by_def)
  show ?thesis
  proof (cases "\<exists>v w n p. op = SetSendPaused v w n p")
    case False
    then have "list_all2 connection_ages (db_connections db) (db_connections db')"
      using run_send_frame(1) [OF assms(1)] by blast
    from find_rel [OF this _ c(1) [unfolded connection_of_def]] c show ?thesis
      by (fastforce simp: paused_by_def connection_of_def connection_ages_def)
  next
    case True
    then obtain v w n p where op: "op = SetSendPaused v w n p" by blast
    with assms(1) have "set_send_paused x v w n p db = Inr db'" by simp
    then obtain f where db': "db_connections db' = map f (db_connections db)" and creator: "p \<or> (\<forall>c. connection_of v db n = Some c \<longrightarrow> cn_creator c = w)"
      and f: "f = (\<lambda>c. if cn_id c = n \<and> cn_tenant c = v
        then c\<lparr>cn_paused := (if p then (case cn_paused c of None \<Rightarrow> Some (sx_now x) | Some q \<Rightarrow> Some q) else None)\<rparr> else c)"
      by (auto simp: set_send_paused_def connection_reader_def split: option.splits)
    have "connection_of t db' i = Some (f c)"
      using find_map_key [OF _ c(1) [unfolded connection_of_def], of f] by (simp add: connection_of_def db' f)
    moreover have "cn_creator (f c) = u \<and> cn_paused (f c) \<noteq> None"
    proof (cases "cn_id c = n \<and> cn_tenant c = v")
      case True
      with find_in [OF c(1) [unfolded connection_of_def]] have "v = t" "n = i" by auto
      with creator c assms(3) op have p by auto
      then show ?thesis using c True by (auto simp: f split: option.splits)
    qed (use c in \<open>auto simp: f\<close>)
    ultimately show ?thesis by (auto simp: paused_by_def)
  qed
qed

text \<open>C18: A pause holds: while a connection is paused, nothing is drafted or sent through it and none of its
  drafts is claimed, at any point of any run in which the person who consented does not take the pause off;
  nobody else can.\<close>

theorem paused_connection_sends_nothing:
  assumes "connection_of t db i = Some c" "cn_paused c \<noteq> None" "send_run j l db ops db'"
    and "\<forall>(x, op)\<in>set ops. op \<noteq> SetSendPaused t (cn_creator c) i False"
  shows "create_draft j y t i key q l db' \<noteq> Inr (e, db1) \<and> start_send j y w t i key p l db' \<noteq> Inr (s, db1)
    \<and> claim_draft y m t u n d chat db' \<noteq> Inr (i, db1)"
proof -
  have "paused_by t i (cn_creator c) db" using assms(1,2) by (auto simp: paused_by_def)
  with assms(3,4) have "paused_by t i (cn_creator c) db'"
  proof (induction rule: send_run.induct)
    case (next_op db ops db' x op db'')
    then show ?case by (auto intro!: paused_stays [OF next_op.hyps(3)])
  qed simp
  then obtain c' where c': "connection_of t db' i = Some c'" "cn_paused c' \<noteq> None" by (auto simp: paused_by_def)
  have "create_draft j y t i key q l db' \<noteq> Inr (e, db1)"
    using c' by (auto elim!: create_draft_elim)
  moreover have "start_send j y w t i key p l db' \<noteq> Inr (s, db1)"
    using c' by (auto elim!: start_send_elim)
  moreover have "claim_draft y m t u n d chat db' \<noteq> Inr (i, db1)"
  proof
    assume "claim_draft y m t u n d chat db' = Inr (i, db1)"
    then show False
    proof (rule claim_draft_elim)
      fix r c2
      assume "draft_for t db' n = Some (r, c2)" "cn_paused c2 = None" "i = ob_connection r"
      with draft_for_Some(5) c' show ?thesis by fastforce
    qed
  qed
  ultimately show ?thesis by blast
qed

lemma member_keys_run: "send_run j l db ops db' \<Longrightarrow> member_keys db' \<subseteq> member_keys db"
proof (induction rule: send_run.induct)
  case (next_op db ops db' x op db'')
  have "member_keys db'' \<subseteq> member_keys db'"
  proof (cases "\<exists>v w n p. op = SetSendPaused v w n p")
    case True
    then obtain v w n p where "set_send_paused x v w n p db' = Inr db''" using next_op.hyps(3) by auto
    from pause_frame(2) [OF this] show ?thesis by (simp add: member_keys_def)
  next
    case False
    then show ?thesis using run_send_frame(2) [OF next_op.hyps(3)] by blast
  qed
  with next_op.IH show ?case by blast
qed simp

text \<open>C19: Whoever is removed from a workspace stops sending through assistants there: from the removal on, at any
  point of any later run, no connection they consented to drafts or sends, whether or not it was still live, and
  they claim no draft.\<close>

theorem removed_member_sends_nothing:
  assumes "remove_member x t actor u b db = Inr db1" "send_run j l db1 ops db2"
    and "connection_of t db2 i = Some c" "cn_creator c = u"
  shows "create_draft j y t i key q l db2 \<noteq> Inr (e, db3) \<and> start_send j y w t i key p l db2 \<noteq> Inr (s, db3)
    \<and> claim_draft y m t u n d chat db2 \<noteq> Inr (k, db3)"
proof -
  have "member_of db1 t u = None"
    using assms(1) by (cases rule: remove_cases) (simp add: erased(1))
  then have "member_of db2 t u = None"
    using member_keys_run [OF assms(2)] no_member by blast
  then have no: "send_permitted now db2 t u d \<noteq> Inr True" for now d
    by (simp add: send_permitted_def device_permission_tx_def)
  show "create_draft j y t i key q l db2 \<noteq> Inr (e, db3) \<and> start_send j y w t i key p l db2 \<noteq> Inr (s, db3)
    \<and> claim_draft y m t u n d chat db2 \<noteq> Inr (k, db3)"
    using assms(3,4) no by (auto elim!: create_draft_elim start_send_elim claim_draft_elim)
qed

definition paused_db :: db where
  "paused_db = (case set_send_paused (clocks_at 90) 1 10 50 True send_db of Inr db \<Rightarrow> db | Inl _ \<Rightarrow> send_db)"

theorem paused_connection_sends_nothing_witness:
  "(\<exists>z. create_draft plain_jids (clocks_at 100) 1 50 30 sample_draft sample_limits send_db = Inr z)
   \<and> (\<forall>e db. create_draft plain_jids (clocks_at 100) 1 50 30 sample_draft sample_limits paused_db \<noteq> Inr (e, db))"
proof -
  have "case create_draft plain_jids (clocks_at 100) 1 50 30 sample_draft sample_limits send_db of Inr _ \<Rightarrow> True | Inl _ \<Rightarrow> False"
    by code_simp
  then have 1: "\<exists>z. create_draft plain_jids (clocks_at 100) 1 50 30 sample_draft sample_limits send_db = Inr z"
    by (simp split: sum.splits)
  have "case connection_of 1 paused_db 50 of None \<Rightarrow> False | Some c \<Rightarrow> cn_paused c = Some 90" by code_simp
  then obtain c where c: "connection_of 1 paused_db 50 = Some c" "cn_paused c = Some 90" by (auto split: option.splits)
  from c(2) have "cn_paused c \<noteq> None" by simp
  from paused_connection_sends_nothing [OF c(1) this start, of plain_jids "clocks_at 100" 30 sample_draft sample_limits] 1
  show ?thesis by auto
qed

definition removed_sender_db :: db where
  "removed_sender_db = (case remove_member sample_tx 1 10 12 False send_db of Inr db \<Rightarrow> db | Inl _ \<Rightarrow> send_db)"

theorem removed_member_sends_nothing_witness:
  "\<forall>e db. create_draft plain_jids (clocks_at 110) 1 50 30 sample_draft sample_limits removed_sender_db \<noteq> Inr (e, db)"
proof -
  have "case remove_member sample_tx 1 10 12 False send_db of Inr _ \<Rightarrow> True | Inl _ \<Rightarrow> False" by code_simp
  then have 1: "remove_member sample_tx 1 10 12 False send_db = Inr removed_sender_db"
    by (simp add: removed_sender_db_def split: sum.splits)
  have "case connection_of 1 removed_sender_db 50 of None \<Rightarrow> False | Some c \<Rightarrow> cn_creator c = 12" by code_simp
  then obtain c where c: "connection_of 1 removed_sender_db 50 = Some c" "cn_creator c = 12" by (auto split: option.splits)
  from removed_member_sends_nothing [OF 1 start c] show ?thesis by blast
qed

section \<open>When to ask again\<close>

text \<open>The moment a refused send is told to come back at is exact: of the three limits, the one that refused
  refuses at every moment before it and at no moment from it on, while nothing else is sent, and a send passes
  when none of the three refuses.\<close>

theorem retry_at_is_exact:
  assumes "0 < sl_day l" "0 < sl_tenant_day l"
  shows "(send_limits_check now check i rs l = Inl (RateLimited at) \<longrightarrow>
      day_full now i rs l \<and> (\<forall>n\<ge>now. day_full n i rs l \<longleftrightarrow> n < at)
      \<or> too_soon check i rs l \<and> (\<forall>n. too_soon n i rs l \<longleftrightarrow> n < at)
      \<or> workspace_full now rs l \<and> (\<forall>n\<ge>now. workspace_full n rs l \<longleftrightarrow> n < at))
    \<and> (send_limits_check now check i rs l = Inr () \<longleftrightarrow>
      \<not> day_full now i rs l \<and> \<not> too_soon check i rs l \<and> \<not> workspace_full now rs l)"
proof (rule conjI, rule impI)
  assume r: "send_limits_check now check i rs l = Inl (RateLimited at)"
  consider (today) "day_full now i rs l" | (soon) "\<not> day_full now i rs l" "too_soon check i rs l"
    | (everyone) "\<not> day_full now i rs l" "\<not> too_soon check i rs l" by blast
  then show "day_full now i rs l \<and> (\<forall>n\<ge>now. day_full n i rs l \<longleftrightarrow> n < at)
      \<or> too_soon check i rs l \<and> (\<forall>n. too_soon n i rs l \<longleftrightarrow> n < at)
      \<or> workspace_full now rs l \<and> (\<forall>n\<ge>now. workspace_full n rs l \<longleftrightarrow> n < at)"
  proof cases
    case today
    then have "limited_until (map (\<lambda>r. ob_created r + day) (sends_since (now - day) (of_connection i rs)))
        (int (length (sends_since (now - day) (of_connection i rs))) - sl_day l) = Inl (RateLimited at)"
      using r by (simp add: send_limits_check_def Let_def day_full_def)
    from since_until [OF this _ assms(1)] today show ?thesis by (simp add: day_full_def)
  next
    case soon
    then show ?thesis
      using r by (auto simp: send_limits_check_def Let_def day_full_def too_soon_def require_def split: option.splits)
  next
    case everyone
    then have full: "workspace_full now rs l" and "limited_until (map (\<lambda>r. ob_created r + day) (sends_since (now - day) rs))
        (int (length (sends_since (now - day) rs)) - sl_tenant_day l) = Inl (RateLimited at)"
      using r by (auto simp: send_limits_check_def Let_def day_full_def too_soon_def workspace_full_def require_def
        split: option.splits if_splits)
    from since_until [OF this(2) _ assms(2)] full show ?thesis by (simp add: workspace_full_def)
  qed
next
  show "send_limits_check now check i rs l = Inr () \<longleftrightarrow>
      \<not> day_full now i rs l \<and> \<not> too_soon check i rs l \<and> \<not> workspace_full now rs l"
    by (auto simp: send_limits_check_def Let_def day_full_def too_soon_def workspace_full_def split: option.splits)
qed

theorem retry_at_is_exact_witness:
  "\<forall>n. too_soon n 50 (db_outbound sent_db) sample_limits \<longleftrightarrow> n < 125"
proof -
  have r: "send_limits_check 121 121 50 (db_outbound sent_db) sample_limits = Inl (RateLimited 125)" by code_simp
  have no: "\<not> day_full 121 50 (db_outbound sent_db) sample_limits" "\<not> workspace_full 121 (db_outbound sent_db) sample_limits"
    by code_simp+
  have "0 < sl_day sample_limits" "0 < sl_tenant_day sample_limits" by (simp_all add: sample_limits_def)
  from retry_at_is_exact [OF this, THEN conjunct1, rule_format, OF r] no show ?thesis by blast
qed

section \<open>The janitor\<close>

text \<open>What a round leaves of a workspace: no draft waits past its expiry, no send is in flight longer than any send
  takes, and no row is older than its retention.\<close>

definition settled_at :: "timestamp \<Rightarrow> uuid \<Rightarrow> db \<Rightarrow> bool" where
  "settled_at now t db \<longleftrightarrow> (\<forall>r\<in>set (ledger t db). \<not> ran_out now r \<and> \<not> lost now r \<and> now - retention \<le> ob_created r)"

lemma row_ok_uncertain:
  assumes "row_ok r" "ob_status r = ''sending''"
  shows "row_ok (r\<lparr>ob_status := ''uncertain'', ob_decided := w\<rparr>)"
proof -
  have "ob_sealed r = None"
  proof (rule ccontr)
    assume "ob_sealed r \<noteq> None"
    from row_ok_sealed [OF assms(1) this] assms(2) show False by simp
  qed
  with assms show ?thesis unfolding row_ok_def by (simp add: outbound_statuses_def)
qed

definition expired_row :: "timestamp \<Rightarrow> uuid \<Rightarrow> outbound_row \<Rightarrow> outbound_row" where
  "expired_row now t r = (if ob_tenant r = t \<and> ran_out now r
     then r\<lparr>ob_status := ''expired'', ob_sealed := None, ob_decided := ob_expires r\<rparr> else r)"

definition lose_row :: "timestamp \<Rightarrow> uuid \<Rightarrow> outbound_row \<Rightarrow> outbound_row" where
  "lose_row now t r = (if ob_tenant r = t \<and> lost now r then r\<lparr>ob_status := ''uncertain'', ob_decided := Some now\<rparr> else r)"

lemma aged_row:
  "ob_tenant r = t \<Longrightarrow> \<not> ran_out now (expired_row now t r)"
  "ob_tenant r = t \<Longrightarrow> \<not> ran_out now r \<Longrightarrow> \<not> ran_out now (lose_row now t r) \<and> \<not> lost now (lose_row now t r)"
  "ob_tenant (expired_row now t r) = ob_tenant r" "ob_tenant (lose_row now t r) = ob_tenant r"
  by (simp_all add: expired_row_def lose_row_def ran_out_def lost_def)

lemma settle_works:
  assumes "ledger_valid (db_outbound db)"
  shows "\<exists>s db'. settle_tenant now t db = Inr (s, db') \<and> settled_at now t db' \<and> ledger_valid (db_outbound db')
    \<and> (\<forall>v. v \<noteq> t \<longrightarrow> ledger v db' = ledger v db)"
proof -
  let ?f = "\<lambda>r. r\<lparr>ob_status := ''expired'', ob_sealed := None, ob_decided := ob_expires r\<rparr>"
    and ?g = "\<lambda>r. r\<lparr>ob_status := ''uncertain'', ob_decided := Some now\<rparr>"
  let ?F = "expired_row now t" and ?G = "lose_row now t"
  let ?db1 = "db\<lparr>db_outbound := map ?F (db_outbound db)\<rparr>"
  let ?db2 = "?db1\<lparr>db_outbound := map ?G (db_outbound ?db1)\<rparr>"
  have ok: "row_ok r" if "r \<in> set (db_outbound db)" for r using assms that by (simp add: ledger_valid_def list_all_iff)
  have 1: "update_outbound t (ran_out now) ?f db = Inr ?db1"
    unfolding update_outbound_Inr expired_row_def using ok by (auto intro: row_ok_closed(1))
  have "row_ok r" if "r \<in> set (db_outbound ?db1)" for r using that ok by (auto simp: expired_row_def intro: row_ok_closed(1))
  then have 2: "update_outbound t (lost now) ?g ?db1 = Inr ?db2"
    unfolding update_outbound_Inr lose_row_def by (auto simp: lost_def intro: row_ok_uncertain)
  obtain s db' where s: "settle_tenant now t db = Inr (s, db')"
    and rows: "db_outbound db' = filter (\<lambda>r. \<not> (ob_tenant r = t \<and> ob_created r < now - retention)) (map ?G (map ?F (db_outbound db)))"
    unfolding settle_tenant_def 1 and_then.simps 2 Let_def by simp
  have "ledger_valid (db_outbound db')"
    using run_send_valid [of undefined undefined "clocks_at now" "Settle t" db db'] s assms by (simp add: clocks_at_def)
  moreover have "settled_at now t db'"
    unfolding settled_at_def
  proof
    fix r assume "r \<in> set (ledger t db')"
    then obtain p where p: "r = ?G (?F p)" "ob_tenant r = t" "now - retention \<le> ob_created r"
      by (auto simp: ledger_def rows)
    then have "ob_tenant p = t" by (simp add: aged_row(3,4))
    then have "\<not> ran_out now r \<and> \<not> lost now r" using p(1) by (simp add: aged_row)
    with p(3) show "\<not> ran_out now r \<and> \<not> lost now r \<and> now - retention \<le> ob_created r" by simp
  qed
  moreover have "ledger v db' = ledger v db" if "v \<noteq> t" for v
  proof -
    have "filter (\<lambda>r. ob_tenant r = v) (filter (\<lambda>r. \<not> (ob_tenant r = t \<and> ob_created r < now - retention)) (map ?G (map ?F rs)))
        = filter (\<lambda>r. ob_tenant r = v) rs" for rs
    proof (induction rs)
      case (Cons r rs)
      have "ob_tenant r \<noteq> t \<Longrightarrow> lose_row now t (expired_row now t r) = r" by (simp add: lose_row_def expired_row_def)
      with Cons that show ?case by (cases "ob_tenant r = t") (simp_all add: aged_row(3,4))
    qed simp
    then show ?thesis unfolding ledger_def rows .
  qed
  ultimately show ?thesis using s by blast
qed

lemma settle_each_works:
  "distinct ts \<Longrightarrow> ledger_valid (db_outbound db) \<Longrightarrow> \<exists>s db'. settle_each now ts db = (s, [], db')
    \<and> (\<forall>t\<in>set ts. settled_at (now t) t db') \<and> (\<forall>v. v \<notin> set ts \<longrightarrow> ledger v db' = ledger v db)"
proof (induction ts arbitrary: db)
  case (Cons t ts)
  obtain s1 db1 where 1: "settle_tenant (now t) t db = Inr (s1, db1)" "settled_at (now t) t db1" "ledger_valid (db_outbound db1)"
      "\<forall>v. v \<noteq> t \<longrightarrow> ledger v db1 = ledger v db"
    using settle_works [OF Cons.prems(2), of "now t" t] by blast
  obtain s db' where 2: "settle_each now ts db1 = (s, [], db')" "\<forall>t\<in>set ts. settled_at (now t) t db'"
      "\<forall>v. v \<notin> set ts \<longrightarrow> ledger v db' = ledger v db1"
    using Cons.IH [OF _ 1(3)] Cons.prems(1) by auto
  have "settled_at (now t) t db'" using 1(2) 2(3) Cons.prems(1) by (simp add: settled_at_def)
  with 1 2 show ?case by auto
qed simp

text \<open>C20: A janitor's round always ends, and settles every workspace that can have a ledger: no transaction of it
  fails against the table's checks, and afterwards no draft waits past its expiry, no send is in flight for more
  than ten minutes since it started or was claimed, and no row is past its 365 days.\<close>

theorem janitor_settles_every_ledger:
  assumes "ledger_valid (db_outbound db)"
  shows "\<exists>s db'. settle_outbound now db = (s, [], db') \<and> (\<forall>t\<in>set (sending_tenants db). settled_at (now t) t db')"
proof -
  have "distinct (sending_tenants db)" by (simp add: sending_tenants_def)
  from settle_each_works [OF this assms, of now] show ?thesis unfolding settle_outbound_def by blast
qed

theorem janitor_settles_every_ledger_witness:
  "\<exists>s db'. settle_outbound (\<lambda>_. 500) sent_db = (s, [], db') \<and> settled_at 500 1 db'"
proof -
  have "ledger_valid (db_outbound sent_db)" using send_run_valid [OF sample_run] empty_ledger empty_valid by simp
  from janitor_settles_every_ledger [OF this, of "\<lambda>_. 500"]
  have "\<exists>s db'. settle_outbound (\<lambda>_. 500) sent_db = (s, [], db') \<and> (\<forall>t\<in>set (sending_tenants sent_db). settled_at 500 t db')" .
  moreover have "1 \<in> set (sending_tenants sent_db)" by code_simp
  ultimately show ?thesis by blast
qed

end
