(* ===== verification/Textrules.thy ===== *)
theory Textrules
  imports Prelude
begin

text \<open>
  The text rules a send is put to (internal/mcpauth/textrules.go, with \<^verbatim>\<open>trimName\<close> of mcpauth.go): newlines
  made one kind, controls and text directions refused, the exact reading of a JSON string. What they use of
  Go's library is written out: runes of UTF-8 (unicode/utf8), the length in UTF-16 (unicode/utf16) and how
  encoding/json reads a string, which replaces what it cannot represent by U+FFFD without an error.
\<close>

section \<open>UTF-8\<close>

type_synonym rune = int

definition code_of :: "char \<Rightarrow> int" where
  "code_of c = of_char c"

definition of_code :: "int \<Rightarrow> char" where
  "of_code b = char_of b"

definition continues :: "int \<Rightarrow> int \<Rightarrow> char \<Rightarrow> bool" where
  "continues lo hi c \<longleftrightarrow> lo \<le> code_of c \<and> code_of c \<le> hi"

text \<open>\<^verbatim>\<open>utf8.DecodeRune\<close>: the rune a string starts with and its width, or \<open>None\<close> where it answers
  \<^verbatim>\<open>RuneError\<close> with width one.\<close>

definition rune_at :: "string \<Rightarrow> (rune \<times> nat) option" where
  "rune_at s = (case s of
      [] \<Rightarrow> None
    | a # s1 \<Rightarrow> let b = code_of a in
        if b < 128 then Some (b, 1)
        else if 194 \<le> b \<and> b \<le> 223 then
          (case s1 of c1 # _ \<Rightarrow>
             if continues 128 191 c1 then Some ((b - 192) * 64 + (code_of c1 - 128), 2) else None
           | [] \<Rightarrow> None)
        else if 224 \<le> b \<and> b \<le> 239 then
          (case s1 of c1 # c2 # _ \<Rightarrow>
             if continues (if b = 224 then 160 else 128) (if b = 237 then 159 else 191) c1 \<and> continues 128 191 c2
             then Some ((b - 224) * 4096 + (code_of c1 - 128) * 64 + (code_of c2 - 128), 3) else None
           | _ \<Rightarrow> None)
        else if 240 \<le> b \<and> b \<le> 244 then
          (case s1 of c1 # c2 # c3 # _ \<Rightarrow>
             if continues (if b = 240 then 144 else 128) (if b = 244 then 143 else 191) c1 \<and> continues 128 191 c2
               \<and> continues 128 191 c3
             then Some ((b - 240) * 262144 + (code_of c1 - 128) * 4096 + (code_of c2 - 128) * 64 + (code_of c3 - 128), 4) else None
           | _ \<Rightarrow> None)
        else None)"

lemma rune_at_width: "rune_at s = Some (r, n) \<Longrightarrow> 0 < n \<and> n \<le> length s"
  by (auto simp: rune_at_def Let_def split: list.splits if_splits)

text \<open>Ranging over a string, and \<^verbatim>\<open>utf8.ValidString\<close>.\<close>

function runes :: "string \<Rightarrow> rune list" where
  "runes [] = []"
| "runes (c # cs) = (case rune_at (c # cs) of None \<Rightarrow> 65533 # runes cs | Some (r, n) \<Rightarrow> r # runes (drop n (c # cs)))"
  by pat_completeness auto
termination
  by (relation "measure length") (auto dest: rune_at_width)

function utf8_valid :: "string \<Rightarrow> bool" where
  "utf8_valid [] = True"
| "utf8_valid (c # cs) = (case rune_at (c # cs) of None \<Rightarrow> False | Some (r, n) \<Rightarrow> utf8_valid (drop n (c # cs)))"
  by pat_completeness auto
termination
  by (relation "measure length") (auto dest: rune_at_width)

text \<open>\<^verbatim>\<open>utf8.AppendRune\<close>.\<close>

definition encode_rune :: "rune \<Rightarrow> string" where
  "encode_rune r =
     (if 0 \<le> r \<and> r < 128 then [of_code r]
      else if 128 \<le> r \<and> r < 2048 then [of_code (192 + r div 64), of_code (128 + r mod 64)]
      else if 2048 \<le> r \<and> r < 65536 \<and> \<not> (55296 \<le> r \<and> r \<le> 57343) then
        [of_code (224 + r div 4096), of_code (128 + r div 64 mod 64), of_code (128 + r mod 64)]
      else if 65536 \<le> r \<and> r \<le> 1114111 then
        [of_code (240 + r div 262144), of_code (128 + r div 4096 mod 64), of_code (128 + r div 64 mod 64), of_code (128 + r mod 64)]
      else [of_code 239, of_code 191, of_code 189])"

definition scalar :: "rune \<Rightarrow> bool" where
  "scalar r \<longleftrightarrow> 0 \<le> r \<and> r \<le> 1114111 \<and> \<not> (55296 \<le> r \<and> r \<le> 57343)"

section \<open>JSON strings\<close>

definition hex_digit :: "char \<Rightarrow> int option" where
  "hex_digit c = (let b = code_of c in
     if 48 \<le> b \<and> b \<le> 57 then Some (b - 48)
     else if 97 \<le> b \<and> b \<le> 102 then Some (b - 97 + 10)
     else if 65 \<le> b \<and> b \<le> 70 then Some (b - 65 + 10) else None)"

fun hex_value :: "int \<Rightarrow> string \<Rightarrow> int option" where
  "hex_value v [] = Some v"
| "hex_value v (c # cs) = (case hex_digit c of None \<Rightarrow> None | Some d \<Rightarrow> hex_value (v * 16 + d) cs)"

text \<open>\<^verbatim>\<open>hex4\<close>: the four digits at an offset.\<close>

definition hex4 :: "string \<Rightarrow> nat \<Rightarrow> rune option" where
  "hex4 raw at = (if length raw < at + 4 then None else hex_value 0 (take 4 (drop at raw)))"

definition high_surrogate :: "rune \<Rightarrow> bool" where
  "high_surrogate r \<longleftrightarrow> 55296 \<le> r \<and> r \<le> 56319"

definition low_surrogate :: "rune \<Rightarrow> bool" where
  "low_surrogate r \<longleftrightarrow> 56320 \<le> r \<and> r \<le> 57343"

text \<open>\<^verbatim>\<open>utf16.DecodeRune\<close> of a pair.\<close>

definition joined :: "rune \<Rightarrow> rune \<Rightarrow> rune" where
  "joined h l = (h - 55296) * 1024 + (l - 56320) + 65536"

text \<open>The low half that follows a high one as an escape of its own.\<close>

definition low_follows :: "rune \<Rightarrow> string \<Rightarrow> rune option" where
  "low_follows h s = (case s of
       a # u # r \<Rightarrow> if a = CHR 0x5C \<and> u = CHR ''u'' then
           (case hex4 r 0 of Some l \<Rightarrow> if high_surrogate h \<and> low_surrogate l then Some (joined h l) else None | None \<Rightarrow> None)
         else None
     | _ \<Rightarrow> None)"

definition escaped :: "char \<Rightarrow> char option" where
  "escaped e = (if e = CHR 0x22 \<or> e = CHR 0x5C \<or> e = CHR ''/'' then Some e
     else if e = CHR ''b'' then Some (CHR 0x08) else if e = CHR ''f'' then Some (CHR 0x0C)
     else if e = CHR ''n'' then Some (CHR 0x0A) else if e = CHR ''r'' then Some (CHR 0x0D)
     else if e = CHR ''t'' then Some (CHR 0x09) else None)"

text \<open>How encoding/json reads a string once its opening quote is read: the closing quote is the last byte, and
  a surrogate without its half, or a byte that is not UTF-8, reads as U+FFFD.\<close>

function unquote :: "string \<Rightarrow> string option" where
  "unquote [] = None"
| "unquote (c # cs) =
    (if c = CHR 0x22 then (if cs = [] then Some [] else None)
     else if c = CHR 0x5C then
       (case cs of
          [] \<Rightarrow> None
        | e # s \<Rightarrow>
            if e = CHR ''u'' then
              (case hex4 s 0 of
                 None \<Rightarrow> None
               | Some h \<Rightarrow>
                   if high_surrogate h \<or> low_surrogate h then
                     (case low_follows h (drop 4 s) of
                        Some p \<Rightarrow> map_option ((@) (encode_rune p)) (unquote (drop 10 s))
                      | None \<Rightarrow> map_option ((@) (encode_rune 65533)) (unquote (drop 4 s)))
                   else map_option ((@) (encode_rune h)) (unquote (drop 4 s)))
            else (case escaped e of None \<Rightarrow> None | Some d \<Rightarrow> map_option (Cons d) (unquote s)))
     else if code_of c < 32 then None
     else if code_of c < 128 then map_option (Cons c) (unquote cs)
     else (case rune_at (c # cs) of
        Some (r, n) \<Rightarrow> map_option ((@) (encode_rune r)) (unquote (drop n (c # cs)))
      | None \<Rightarrow> map_option ((@) (encode_rune 65533)) (unquote cs)))"
  by pat_completeness auto
termination
  by (relation "measure length") (auto dest: rune_at_width)

definition json_space :: "char \<Rightarrow> bool" where
  "json_space c \<longleftrightarrow> c = CHR '' '' \<or> c = CHR 0x09 \<or> c = CHR 0x0A \<or> c = CHR 0x0D"

definition strip_space :: "string \<Rightarrow> string" where
  "strip_space s = rev (dropWhile json_space (rev (dropWhile json_space s)))"

text \<open>\<^verbatim>\<open>json.Unmarshal\<close> into an empty string variable.\<close>

definition unmarshal_string :: "string \<Rightarrow> string option" where
  "unmarshal_string raw = (let s = strip_space raw in
     if s = ''null'' then Some []
     else case s of c # cs \<Rightarrow> if c = CHR 0x22 then unquote cs else None | [] \<Rightarrow> None)"

text \<open>The loop of \<^verbatim>\<open>jsonString\<close> over the bytes, from \<open>i\<close>: whether every escape of a surrogate is half of a pair.
  It is a loop, so not returning would be \<open>None\<close>.\<close>

partial_function (option) escapes_from :: "string \<Rightarrow> nat \<Rightarrow> bool option" where
  "escapes_from raw i =
     (if length raw \<le> i then Some True
      else if raw ! i \<noteq> CHR 0x5C then escapes_from raw (i + 1)
      else if length raw \<le> i + 1 then Some False
      else if raw ! (i + 1) \<noteq> CHR ''u'' then escapes_from raw (i + 2)
      else case hex4 raw (i + 2) of
        None \<Rightarrow> Some False
      | Some high \<Rightarrow>
          if low_surrogate high then Some False
          else if high_surrogate high then
            (if length raw \<le> i + 11 \<or> raw ! (i + 6) \<noteq> CHR 0x5C \<or> raw ! (i + 7) \<noteq> CHR ''u'' then Some False
             else case hex4 raw (i + 8) of
               None \<Rightarrow> Some False
             | Some low \<Rightarrow> if \<not> low_surrogate low then Some False else escapes_from raw (i + 12))
          else escapes_from raw (i + 6))"

declare escapes_from.simps [code]

definition json_string :: "string \<Rightarrow> string option option" where
  "json_string raw =
     (if \<not> utf8_valid raw then Some None
      else case unmarshal_string raw of
        None \<Rightarrow> Some None
      | Some s \<Rightarrow> (case escapes_from raw 0 of
            None \<Rightarrow> None
          | Some ok \<Rightarrow> Some (if ok then Some s else None)))"

section \<open>The rules\<close>

text \<open>\<^verbatim>\<open>normalizeNewlines\<close>: two \<^verbatim>\<open>strings.ReplaceAll\<close>.\<close>

fun replace_crlf :: "string \<Rightarrow> string" where
  "replace_crlf (a # b # s) = (if a = CHR 0x0D \<and> b = CHR 0x0A then CHR 0x0A # replace_crlf s
     else a # replace_crlf (b # s))"
| "replace_crlf s = s"

definition normalize_newlines :: "string \<Rightarrow> string" where
  "normalize_newlines text = map (\<lambda>c. if c = CHR 0x0D then CHR 0x0A else c) (replace_crlf text)"

definition control_char :: "rune \<Rightarrow> bool" where
  "control_char r \<longleftrightarrow> r < 32 \<and> r \<noteq> 9 \<and> r \<noteq> 10 \<or> 127 \<le> r \<and> r \<le> 159 \<or> 55296 \<le> r \<and> r \<le> 57343"

definition direction_control :: "rune \<Rightarrow> bool" where
  "direction_control r \<longleftrightarrow> 8234 \<le> r \<and> r \<le> 8238 \<or> 8294 \<le> r \<and> r \<le> 8297"

text \<open>\<^verbatim>\<open>unicode.IsSpace\<close> and the byte order mark; \<^verbatim>\<open>TrimFunc\<close> leaves nothing of a text exactly when every rune is
  trimmed.\<close>

definition is_space :: "rune \<Rightarrow> bool" where
  "is_space r \<longleftrightarrow> r \<in> {9, 10, 11, 12, 13, 32, 133, 160, 5760, 8232, 8233, 8239, 8287, 12288} \<or> 8192 \<le> r \<and> r \<le> 8202"

definition trim_name :: "rune list \<Rightarrow> rune list" where
  "trim_name rs = (let trimmed = (\<lambda>r. is_space r \<or> r = 65279) in
     rev (dropWhile trimmed (rev (dropWhile trimmed rs))))"

text \<open>\<^verbatim>\<open>linkPattern\<close>, ignoring case: Go folds \<^verbatim>\<open>s\<close> with the long s as well.\<close>

definition fold_case :: "rune \<Rightarrow> rune" where
  "fold_case r = (if 65 \<le> r \<and> r \<le> 90 then r + 32 else if r = 383 then 115 else r)"

definition link_starts :: "rune list list" where
  "link_starts = map (map code_of) [''http://'', ''https://'', ''www.'']"

definition has_link :: "rune list \<Rightarrow> bool" where
  "has_link rs \<longleftrightarrow> list_ex (\<lambda>s. list_ex (\<lambda>p. prefix p (map fold_case s)) link_starts) (suffixes rs)"

definition utf16_length :: "rune list \<Rightarrow> int" where
  "utf16_length rs = sum_list (map (\<lambda>r. if 65536 \<le> r then 2 else 1) rs)"

text \<open>\<^verbatim>\<open>textRefusal\<close>, the empty string when a text passes.\<close>

definition text_refusal :: "string \<Rightarrow> bool \<Rightarrow> int \<Rightarrow> string" where
  "text_refusal raw links max_units =
     (let text = normalize_newlines raw; rs = runes text in
      if 0 < max_units \<and> max_units < utf16_length rs then ''length''
      else if \<not> utf8_valid text \<or> list_ex control_char rs then ''control characters''
      else if list_ex direction_control rs then ''text-direction controls''
      else if trim_name rs = [] then ''empty''
      else if links \<and> has_link rs then ''links''
      else '''')"

section \<open>The image's rules\<close>

text \<open>The other implementation of the same table, the enclave's (packages/mcp-http/enclave/send/textrules.mjs), over the
  code points of a text that has no lone surrogate: what \<^verbatim>\<open>trim()\<close> trims is ECMAScript's WhiteSpace and
  LineTerminator, and its \<^verbatim>\<open>/i\<close> folds ASCII letters only.\<close>

function image_newlines :: "rune list \<Rightarrow> rune list" where
  "image_newlines [] = []"
| "image_newlines (r # rs) = (if r = 13 then 10 # image_newlines (if rs \<noteq> [] \<and> hd rs = 10 then tl rs else rs) else r # image_newlines rs)"
  by pat_completeness auto
termination
  by (relation "measure length") auto

definition image_control :: "rune \<Rightarrow> bool" where
  "image_control r \<longleftrightarrow> 0 \<le> r \<and> r \<le> 8 \<or> r = 11 \<or> r = 12 \<or> 14 \<le> r \<and> r \<le> 31 \<or> 127 \<le> r \<and> r \<le> 159"

definition image_space :: "rune \<Rightarrow> bool" where
  "image_space r \<longleftrightarrow> r \<in> {9, 11, 12, 32, 160, 65279, 10, 13, 8232, 8233, 5760, 8239, 8287, 12288} \<or> 8192 \<le> r \<and> r \<le> 8202"

definition image_fold :: "rune \<Rightarrow> rune" where
  "image_fold r = (if 65 \<le> r \<and> r \<le> 90 then r + 32 else r)"

definition image_link :: "rune list \<Rightarrow> bool" where
  "image_link rs \<longleftrightarrow> list_ex (\<lambda>s. list_ex (\<lambda>p. prefix p (map image_fold s)) link_starts) (suffixes rs)"

definition image_refusal :: "rune list \<Rightarrow> bool \<Rightarrow> string option" where
  "image_refusal text links =
     (let rs = image_newlines text in
      if list_ex image_control rs then Some ''control characters''
      else if list_ex direction_control rs then Some ''text-direction controls''
      else if list_all image_space rs then Some ''empty''
      else if links \<and> image_link rs then Some ''links''
      else None)"

end
