(* ===== verification/Textrules_Facts.thy ===== *)
theory Textrules_Facts
  imports Textrules
begin

text \<open>
  The text rules proved: the loop over a JSON string's escapes returns, and with it the two-pass reading of
  the code is the exact decoding of the grammar; what is quoted is read back; and what the rules pass.
\<close>

section \<open>The loop over the escapes\<close>

text \<open>The loop by structural recursion on what is left of the string.\<close>

function escapes_ok :: "string \<Rightarrow> bool" where
  "escapes_ok [] = True"
| "escapes_ok (c # cs) =
    (if c \<noteq> CHR 0x5C then escapes_ok cs
     else case cs of
       [] \<Rightarrow> False
     | e # s \<Rightarrow> if e \<noteq> CHR ''u'' then escapes_ok s
         else case hex4 s 0 of
           None \<Rightarrow> False
         | Some h \<Rightarrow>
             if low_surrogate h then False
             else if high_surrogate h then (case low_follows h (drop 4 s) of None \<Rightarrow> False | Some p \<Rightarrow> escapes_ok (drop 10 s))
             else escapes_ok (drop 4 s))"
  by pat_completeness auto
termination
  by (relation "measure length") auto

lemma hex4_drop: "hex4 raw (i + k) = hex4 (drop i raw) k"
  by (cases "i \<le> length raw") (auto simp: hex4_def add.commute)

lemma low_follows_at:
  assumes "high_surrogate h"
  shows "low_follows h (drop n raw) =
    (if length raw \<le> n + 5 \<or> raw ! n \<noteq> CHR 0x5C \<or> raw ! (n + 1) \<noteq> CHR ''u'' then None
     else case hex4 raw (n + 2) of None \<Rightarrow> None | Some l \<Rightarrow> if low_surrogate l then Some (joined h l) else None)"
proof (cases "length raw \<le> n + 5")
  case True
  have "hex4 r 0 = None" if "drop n raw = a # u # r" for a u r
  proof -
    have "length (drop n raw) = Suc (Suc (length r))" using that by simp
    with True have "length r < 4" by simp
    then show ?thesis by (simp add: hex4_def)
  qed
  with True show ?thesis by (auto simp: low_follows_def split: list.split)
next
  case False
  have "drop n raw = raw ! n # raw ! (n + 1) # drop (n + 2) raw"
  proof -
    have "n < length raw" "Suc n < length raw" using False by simp_all
    from Cons_nth_drop_Suc [OF this(1)] Cons_nth_drop_Suc [OF this(2)] show ?thesis by simp
  qed
  with False assms show ?thesis using hex4_drop [of raw "n + 2" 0] by (auto simp: low_follows_def split: option.split)
qed

lemma escapes_from_list: "escapes_from raw i = Some (escapes_ok (drop i raw))"
proof (induction "length raw - i" arbitrary: i rule: less_induct)
  case less
  show ?case
  proof (cases "length raw \<le> i")
    case True
    then show ?thesis by (simp add: escapes_from.simps)
  next
    case False
    then have c: "drop i raw = raw ! i # drop (i + 1) raw" by (simp add: Cons_nth_drop_Suc)
    have step: "escapes_from raw n = Some (escapes_ok (drop n raw))" if "i < n" for n
      using less that False by simp
    show ?thesis
    proof (cases "raw ! i = CHR 0x5C \<and> i + 1 < length raw")
      case False
      then show ?thesis using step [of "i + 1"] \<open>\<not> length raw \<le> i\<close>
        by (subst escapes_from.simps) (auto simp: c)
    next
      case True
      let ?e = "raw ! (i + 1)"
      have e: "drop (i + 1) raw = ?e # drop (i + 2) raw"
        using True by (metis Cons_nth_drop_Suc Suc_eq_plus1 add_2_eq_Suc')
      have h: "hex4 (drop (i + 2) raw) 0 = hex4 raw (i + 2)" using hex4_drop [of raw "i + 2" 0] by simp
      have list: "escapes_ok (drop i raw) = (if ?e \<noteq> CHR ''u'' then escapes_ok (drop (i + 2) raw)
         else case hex4 raw (i + 2) of
           None \<Rightarrow> False
         | Some h \<Rightarrow>
             if low_surrogate h then False
             else if high_surrogate h then
               (case low_follows h (drop (i + 6) raw) of None \<Rightarrow> False | Some p \<Rightarrow> escapes_ok (drop (i + 12) raw))
             else escapes_ok (drop (i + 6) raw))"
      proof -
        define s where "s = drop (i + 2) raw"
        have s: "drop (i + 6) raw = drop 4 s" "drop (i + 12) raw = drop 10 s"
          by (simp_all add: s_def add.commute)
        have "hex4 raw (i + 2) = hex4 s 0" by (simp only: s_def h)
        note s = s this
        show ?thesis using True unfolding c e s unfolding s_def [symmetric] by simp
      qed
      have loop: "escapes_from raw i = (if ?e \<noteq> CHR ''u'' then escapes_from raw (i + 2)
         else case hex4 raw (i + 2) of
           None \<Rightarrow> Some False
         | Some high \<Rightarrow>
             if low_surrogate high then Some False
             else if high_surrogate high then
               (if length raw \<le> i + 11 \<or> raw ! (i + 6) \<noteq> CHR 0x5C \<or> raw ! (i + 7) \<noteq> CHR ''u'' then Some False
                else case hex4 raw (i + 8) of
                  None \<Rightarrow> Some False
                | Some low \<Rightarrow> if \<not> low_surrogate low then Some False else escapes_from raw (i + 12))
             else escapes_from raw (i + 6))"
        using True \<open>\<not> length raw \<le> i\<close> by (subst escapes_from.simps) (simp only: if_True if_False simp_thms not_less [symmetric])
      have pair: "low_follows h (drop (i + 6) raw) =
          (if length raw \<le> i + 11 \<or> raw ! (i + 6) \<noteq> CHR 0x5C \<or> raw ! (i + 7) \<noteq> CHR ''u'' then None
           else case hex4 raw (i + 8) of None \<Rightarrow> None | Some l \<Rightarrow> if low_surrogate l then Some (joined h l) else None)"
        if "high_surrogate h" for h
        using low_follows_at [OF that, of "i + 6" raw] by (simp add: numeral_eq_Suc)
      show ?thesis
      proof (cases "?e = CHR ''u'' \<and> hex4 raw (i + 2) \<noteq> None")
        case False
        then show ?thesis unfolding loop list using step [of "i + 2"] by auto
      next
        case True
        then obtain h where h: "?e = CHR ''u''" "hex4 raw (i + 2) = Some h" by auto
        show ?thesis
          unfolding loop list using h step [of "i + 6"] step [of "i + 12"] pair [of h]
          by (cases "hex4 raw (i + 8)") simp_all
      qed
    qed
  qed
qed

section \<open>The exact reading\<close>

text \<open>The grammar of a JSON string after its opening quote, with nothing replaced: a surrogate is half of a pair of
  escapes and the bytes are UTF-8, or there is no reading.\<close>

function unquote_exact :: "string \<Rightarrow> string option" where
  "unquote_exact [] = None"
| "unquote_exact (c # cs) =
    (if c = CHR 0x22 then (if cs = [] then Some [] else None)
     else if c = CHR 0x5C then
       (case cs of
          [] \<Rightarrow> None
        | e # s \<Rightarrow>
            if e = CHR ''u'' then
              (case hex4 s 0 of
                 None \<Rightarrow> None
               | Some h \<Rightarrow>
                   if high_surrogate h \<or> low_surrogate h then
                     (case low_follows h (drop 4 s) of
                        Some p \<Rightarrow> map_option ((@) (encode_rune p)) (unquote_exact (drop 10 s))
                      | None \<Rightarrow> None)
                   else map_option ((@) (encode_rune h)) (unquote_exact (drop 4 s)))
            else (case escaped e of None \<Rightarrow> None | Some d \<Rightarrow> map_option (Cons d) (unquote_exact s)))
     else if code_of c < 32 then None
     else if code_of c < 128 then map_option (Cons c) (unquote_exact cs)
     else (case rune_at (c # cs) of
        Some (r, n) \<Rightarrow> map_option ((@) (encode_rune r)) (unquote_exact (drop n (c # cs)))
      | None \<Rightarrow> None))"
  by pat_completeness auto
termination
  by (relation "measure length") (auto dest: rune_at_width)

definition exact_string :: "string \<Rightarrow> string option" where
  "exact_string raw = (let s = strip_space raw in
     if \<not> utf8_valid raw then None
     else if s = ''null'' then Some []
     else case s of c # cs \<Rightarrow> if c = CHR 0x22 then unquote_exact cs else None | [] \<Rightarrow> None)"

lemma exact_unquotes: "unquote_exact s = Some t \<Longrightarrow> unquote s = Some t"
proof (induction s arbitrary: t rule: unquote_exact.induct)
  case (2 c cs)
  then show ?case by (auto split: if_splits list.splits option.splits)
qed simp

text \<open>Bytes below 128 stand alone in UTF-8.\<close>

lemma rune_at_ascii: "code_of c < 128 \<Longrightarrow> rune_at (c # cs) = Some (code_of c, 1)"
  by (simp add: rune_at_def)

lemma valid_tail: "code_of c < 128 \<Longrightarrow> utf8_valid (c # cs) = utf8_valid cs"
  by (simp add: rune_at_ascii)

lemma valid_drop:
  "(\<And>c. c \<in> set (take n s) \<Longrightarrow> code_of c < 128) \<Longrightarrow> utf8_valid s \<Longrightarrow> utf8_valid (drop n s)"
proof (induction n arbitrary: s)
  case (Suc n)
  show ?case
  proof (cases s)
    case (Cons c cs)
    with Suc.prems have "utf8_valid cs" "\<And>d. d \<in> set (take n cs) \<Longrightarrow> code_of d < 128"
      using valid_tail [of c cs] by auto
    with Suc.IH Cons show ?thesis by simp
  qed simp
qed simp

lemma hex_value_ascii: "hex_value v s = Some h \<Longrightarrow> c \<in> set s \<Longrightarrow> code_of c < 128"
  by (induction v s rule: hex_value.induct) (auto simp: hex_digit_def Let_def split: option.splits if_splits)

lemma hex4_valid: "hex4 s 0 = Some h \<Longrightarrow> utf8_valid s \<Longrightarrow> utf8_valid (drop 4 s)"
  by (rule valid_drop) (auto simp: hex4_def split: if_splits dest: hex_value_ascii)

lemma low_follows_Some:
  assumes "low_follows h s = Some p"
  obtains r l where "s = CHR 0x5C # CHR ''u'' # r" "hex4 r 0 = Some l" "high_surrogate h" "low_surrogate l" "p = joined h l"
  using assms by (auto simp: low_follows_def split: list.splits if_splits option.splits)

lemma code_backslash [simp]: "code_of (CHR 0x5C) = 92" "code_of (CHR ''u'') = 117"
  by (simp_all add: code_of_def)

lemma low_follows_valid: "low_follows h s = Some p \<Longrightarrow> utf8_valid s \<Longrightarrow> utf8_valid (drop 6 s)"
  by (erule low_follows_Some) (auto simp: rune_at_ascii dest: hex4_valid)

lemma rune_at_high:
  assumes "rune_at (c # cs) = Some (r, n)" "128 \<le> code_of c" "x \<in> set (take n (c # cs))"
  shows "128 \<le> code_of x"
  using assms by (auto simp: rune_at_def continues_def Let_def split: list.splits if_splits)

lemma escapes_ok_skip:
  "(\<And>x. x \<in> set (take n s) \<Longrightarrow> x \<noteq> CHR 0x5C) \<Longrightarrow> escapes_ok (drop n s) = escapes_ok s"
proof (induction n arbitrary: s)
  case (Suc n)
  show ?case
  proof (cases s)
    case (Cons c cs)
    with Suc.prems have "escapes_ok s = escapes_ok cs" "\<And>d. d \<in> set (take n cs) \<Longrightarrow> d \<noteq> CHR 0x5C" by auto
    with Suc.IH Cons show ?thesis by simp
  qed simp
qed simp

lemma escapes_ok_high:
  assumes "rune_at (c # cs) = Some (r, n)" "128 \<le> code_of c"
  shows "escapes_ok (drop n (c # cs) @ ys) = escapes_ok ((c # cs) @ ys)"
proof -
  have "n \<le> length (c # cs)" using rune_at_width [OF assms(1)] by simp
  then have "drop n ((c # cs) @ ys) = drop n (c # cs) @ ys" "take n ((c # cs) @ ys) = take n (c # cs)"
    by (simp_all del: append_Cons)
  moreover have "x \<noteq> CHR 0x5C" if "x \<in> set (take n (c # cs))" for x
    using rune_at_high [OF assms that] by auto
  ultimately show ?thesis using escapes_ok_skip [of n "(c # cs) @ ys"] by simp
qed

text \<open>What follows a string that reads, a line's white space say, does not change how its escapes are judged; and
  they are judged whole exactly when the exact reading exists.\<close>

lemma hex4_append: "hex4 s 0 = Some h \<Longrightarrow> hex4 (s @ ys) 0 = Some h"
  by (auto simp: hex4_def split: if_splits)

lemma hex4_length: "hex4 s 0 = Some h \<Longrightarrow> 4 \<le> length s"
  by (auto simp: hex4_def split: if_splits)

lemma low_follows_append:
  assumes "unquote s = Some t"
  shows "low_follows h (s @ ys) = low_follows h s"
proof (cases "\<exists>r. s = CHR 0x5C # CHR ''u'' # r")
  case True
  then obtain r where r: "s = CHR 0x5C # CHR ''u'' # r" by blast
  with assms obtain l where "hex4 r 0 = Some l" by (auto split: option.splits)
  with r show ?thesis by (simp add: low_follows_def hex4_append)
next
  case False
  from assms obtain c cs where s: "s = c # cs" by (cases s) auto
  show ?thesis
  proof (cases cs)
    case Nil
    with assms s have "c \<noteq> CHR 0x5C" by auto
    then show ?thesis using s Nil by (simp add: low_follows_def split: list.split)
  next
    case (Cons e r)
    with s False show ?thesis by (auto simp: low_follows_def)
  qed
qed

lemma escapes_judge:
  "unquote s = Some t \<Longrightarrow> utf8_valid s \<Longrightarrow> (\<And>y. y \<in> set ys \<Longrightarrow> y \<noteq> CHR 0x5C)
   \<Longrightarrow> escapes_ok (s @ ys) \<longleftrightarrow> unquote_exact s \<noteq> None"
proof (induction "length s" arbitrary: s t rule: less_induct)
  case less
  note some = less.prems(1) and valid = less.prems(2) and tail = less.prems(3)
  have plain: "escapes_ok ys" using escapes_ok_skip [of "length ys" ys] tail by (simp add: subset_iff)
  have judge: "escapes_ok (u @ ys) \<longleftrightarrow> unquote_exact u \<noteq> None" if "length u < length s" "unquote u = Some v" "utf8_valid u" for u v
    using less.hyps [OF that tail] .
  from some obtain c cs where s: "s = c # cs" by (cases s) auto
  consider (quote) "c = CHR 0x22" "cs = []" | (escape) "c = CHR 0x5C" | (ascii) "c \<noteq> CHR 0x5C" "c \<noteq> CHR 0x22" "\<not> code_of c < 32" "code_of c < 128"
    | (high) "c \<noteq> CHR 0x5C" "c \<noteq> CHR 0x22" "128 \<le> code_of c"
    using some s by (auto split: if_splits)
  then show ?case
  proof cases
    case quote
    then show ?thesis using plain s by simp
  next
    case ascii
    with some s obtain t' where "unquote cs = Some t'" by auto
    with judge [OF _ this] ascii valid s show ?thesis by (simp add: rune_at_ascii)
  next
    case high
    then obtain r n where rn: "rune_at (c # cs) = Some (r, n)" using valid s by (auto split: option.splits)
    with high some s obtain t' where u: "unquote (drop n (c # cs)) = Some t'" by auto
    have "length (drop n (c # cs)) < length s" using rune_at_width [OF rn] s by simp
    moreover have "utf8_valid (drop n (c # cs))" using valid s rn by simp
    ultimately have "escapes_ok (drop n (c # cs) @ ys) \<longleftrightarrow> unquote_exact (drop n (c # cs)) \<noteq> None" using judge u by blast
    with high rn s escapes_ok_high [OF rn high(3), of ys] show ?thesis by simp
  next
    case escape
    then obtain e u where cs: "cs = e # u" using some s by (auto split: list.splits)
    have valid_cs: "utf8_valid (e # u)" using valid escape s cs by (simp add: rune_at_ascii)
    show ?thesis
    proof (cases "e = CHR ''u''")
      case False
      with some s cs escape obtain d t' where d: "escaped e = Some d" "unquote u = Some t'" by (auto split: option.splits)
      have "code_of e < 128" using d(1) by (auto simp: escaped_def code_of_def split: if_splits)
      with valid_cs have "utf8_valid u" by (simp add: rune_at_ascii)
      with judge [OF _ d(2)] d s cs escape False show ?thesis by simp
    next
      case True
      have valid_u: "utf8_valid u" using valid_cs True by (simp add: rune_at_ascii)
      from True some s cs escape obtain h where h: "hex4 u 0 = Some h" by (auto split: option.splits)
      note more_than = hex4_length [OF h] and rest = hex4_valid [OF h valid_u]
      have app: "hex4 (u @ ys) 0 = Some h" "drop 4 (u @ ys) = drop 4 u @ ys" using hex4_append [OF h] more_than by simp_all
      show ?thesis
      proof (cases "high_surrogate h \<or> low_surrogate h")
        case False
        with True some s cs escape h obtain t' where t': "unquote (drop 4 u) = Some t'" by auto
        have "length (drop 4 u) < length s" using s cs by simp
        from judge [OF this t' rest] True False s cs escape h app show ?thesis by simp
      next
        case surrogate: True
        show ?thesis
        proof (cases "low_follows h (drop 4 u)")
          case None
          with True surrogate some s cs escape h obtain t' where t': "unquote (drop 4 u) = Some t'" by auto
          with low_follows_append [OF t', of h ys] None have "low_follows h (drop 4 (u @ ys)) = None" by (simp only: app(2))
          with True surrogate s cs escape h app(1) None show ?thesis by (cases "low_surrogate h") simp_all
        next
          case (Some p)
          with True surrogate some s cs escape h obtain t' where t': "unquote (drop 10 u) = Some t'" by auto
          from Some obtain r l where r: "drop 4 u = CHR 0x5C # CHR ''u'' # r" "hex4 r 0 = Some l" "high_surrogate h"
              "low_surrogate l" "p = joined h l" by (rule low_follows_Some)
          have ten: "drop 10 u = drop 4 r"
          proof -
            have "drop 10 u = drop 6 (drop 4 u)" by simp
            then show ?thesis unfolding r(1) by simp
          qed
          have "low_follows h (drop 4 (u @ ys)) = Some p"
            unfolding app(2) r(1) using r(2-5) by (simp add: low_follows_def hex4_append)
          moreover have "\<not> low_surrogate h" using r(3) by (simp add: high_surrogate_def low_surrogate_def)
          moreover have "drop 10 (u @ ys) = drop 10 u @ ys"
          proof -
            have "length (drop 4 u) \<ge> 6" unfolding r(1) using hex4_length [OF r(2)] by simp
            then show ?thesis by simp
          qed
          moreover have "length (drop 10 u) < length s" using s cs by simp
          moreover have "utf8_valid (drop 10 u)" using low_follows_valid [OF Some rest] by simp
          ultimately show ?thesis using judge [OF _ t'] True s cs escape h app r(3) Some by simp
        qed
      qed
    qed
  qed
qed

text \<open>The code reads a string in two passes, encoding/json's and then the loop; together they are the exact reading.\<close>

lemma valid_strip_front: "utf8_valid (dropWhile json_space s) = utf8_valid s"
  by (induction s) (auto simp: json_space_def rune_at_ascii code_of_def)

lemma rune_at_append:
  assumes "\<And>y. y \<in> set ys \<Longrightarrow> code_of y < 128"
  shows "rune_at ((c # cs) @ ys) = rune_at (c # cs)"
proof -
  have low: "\<not> continues lo hi y" if "y \<in> set ys" "128 \<le> lo" for y lo hi
    using assms [OF that(1)] that(2) by (simp add: continues_def)
  consider (none) "cs = []" | (one) c1 where "cs = [c1]" | (two) c1 c2 where "cs = [c1, c2]"
    | (more) c1 c2 c3 r where "cs = c1 # c2 # c3 # r"
    by (metis list.exhaust)
  then show ?thesis
    by cases (auto simp: rune_at_def Let_def low split: list.split)
qed

lemma valid_prefix:
  "(\<And>y. y \<in> set ys \<Longrightarrow> code_of y < 128) \<Longrightarrow> utf8_valid (u @ ys) \<Longrightarrow> utf8_valid u"
proof (induction u rule: utf8_valid.induct)
  case (2 c cs)
  from 2 obtain r n where rn: "rune_at (c # cs) = Some (r, n)" using rune_at_append [of ys c cs] by (auto split: option.splits)
  with 2 rune_at_append [of ys c cs] have "utf8_valid (drop n ((c # cs) @ ys))" by simp
  moreover have "drop n ((c # cs) @ ys) = drop n (c # cs) @ ys" using rune_at_width [OF rn] by (simp del: append_Cons)
  ultimately have "utf8_valid (drop n (c # cs))" using "2.IH" [OF rn refl "2.prems"(1)] by simp
  with rn show ?case by simp
qed simp

lemma space_ascii: "json_space c \<Longrightarrow> code_of c < 128 \<and> c \<noteq> CHR 0x5C"
  by (auto simp: json_space_def code_of_def)

lemma stripped_string:
  obtains front spaces where "s = front @ strip_space s @ spaces" "\<And>c. c \<in> set front \<union> set spaces \<Longrightarrow> json_space c"
proof
  let ?d = "dropWhile json_space s"
  let ?spaces = "rev (takeWhile json_space (rev ?d))"
  have "?d = rev (rev ?d)" by simp
  then have "?d = rev (takeWhile json_space (rev ?d) @ dropWhile json_space (rev ?d))" by (simp only: takeWhile_dropWhile_id)
  then have "?d = strip_space s @ ?spaces" by (simp only: rev_append strip_space_def)
  then show "s = takeWhile json_space s @ strip_space s @ ?spaces" using takeWhile_dropWhile_id [of json_space s] by simp
  show "json_space c" if "c \<in> set (takeWhile json_space s) \<union> set ?spaces" for c
    using that by (auto dest: set_takeWhileD)
qed

lemma escapes_ok_front: "(\<And>c. c \<in> set u \<Longrightarrow> c \<noteq> CHR 0x5C) \<Longrightarrow> escapes_ok (u @ s) = escapes_ok s"
  using escapes_ok_skip [of "length u" "u @ s"] by simp

lemma valid_front: "(\<And>c. c \<in> set u \<Longrightarrow> code_of c < 128) \<Longrightarrow> utf8_valid (u @ s) = utf8_valid s"
  by (induction u) (simp_all add: rune_at_ascii)

text \<open>The two passes together are the exact reading.\<close>

lemma two_passes: "json_string raw = Some (exact_string raw)"
proof (cases "utf8_valid raw")
  case True
  obtain front spaces where raw: "raw = front @ strip_space raw @ spaces"
      and space: "\<And>c. c \<in> set front \<union> set spaces \<Longrightarrow> json_space c" by (rule stripped_string [of raw]) blast
  let ?s = "strip_space raw"
  have escapes: "escapes_ok raw = escapes_ok (?s @ spaces)"
    using escapes_ok_front [of front "?s @ spaces"] space space_ascii raw by (metis Un_iff)
  have valid: "utf8_valid ?s"
    using valid_prefix [of spaces ?s] valid_front [of front "?s @ spaces"] True space space_ascii raw by (metis Un_iff)
  have spaces: "c \<noteq> CHR 0x5C" if "c \<in> set spaces" for c using space [of c] space_ascii that by blast
  show ?thesis
  proof (cases "unmarshal_string raw")
    case None
    have "unquote_exact cs = None" if "unquote cs = None" for cs using exact_unquotes that by (cases "unquote_exact cs") auto
    with None have "exact_string raw = None"
      by (auto simp: exact_string_def unmarshal_string_def Let_def split: if_splits list.splits)
    with None True show ?thesis by (simp add: json_string_def)
  next
    case (Some t)
    consider (null) "?s = ''null''" | (quote) cs where "?s = CHR 0x22 # cs" "?s \<noteq> ''null''" "unquote cs = Some t"
      using Some by (auto simp: unmarshal_string_def Let_def split: if_splits list.splits)
    then show ?thesis
    proof cases
      case null
      have "escapes_ok (''null'' @ spaces)" using escapes_ok_front [of spaces "[]"] spaces by simp
      with null Some True escapes show ?thesis
        by (simp add: json_string_def escapes_from_list exact_string_def unmarshal_string_def)
    next
      case quote
      have "utf8_valid cs" using valid quote(1) by (simp add: rune_at_ascii code_of_def)
      from escapes_judge [OF quote(3) this spaces]
      have "escapes_ok raw \<longleftrightarrow> unquote_exact cs \<noteq> None" using escapes quote(1) by simp
      moreover have "unquote_exact cs = Some u \<Longrightarrow> u = t" for u using exact_unquotes quote(3) by fastforce
      ultimately show ?thesis using quote True Some
        by (cases "unquote_exact cs") (auto simp: json_string_def escapes_from_list exact_string_def Let_def)
    qed
  qed
qed (simp add: json_string_def exact_string_def Let_def)

section \<open>UTF-8 there and back\<close>

lemma code_of_code: "0 \<le> b \<Longrightarrow> b < 256 \<Longrightarrow> code_of (of_code b) = b"
  by (simp add: code_of_def of_code_def)

lemma of_code_of: "of_code (code_of c) = c"
  by (simp add: code_of_def of_code_def)

lemma three_parts: "(r::int) = r div 4096 * 4096 + r div 64 mod 64 * 64 + r mod 64"
proof -
  have "r div 64 = r div 64 div 64 * 64 + r div 64 mod 64" by simp
  moreover have "r div 64 div 64 = r div 4096" using zdiv_zmult2_eq [of 64 r 64] by simp
  moreover have "r = r div 64 * 64 + r mod 64" by simp
  ultimately show ?thesis by presburger
qed

lemma four_parts: "(r::int) = r div 262144 * 262144 + r div 4096 mod 64 * 4096 + r div 64 mod 64 * 64 + r mod 64"
proof -
  have "r div 4096 = r div 4096 div 64 * 64 + r div 4096 mod 64" by simp
  moreover have "r div 4096 div 64 = r div 262144" using zdiv_zmult2_eq [of 64 r 4096] by simp
  ultimately show ?thesis using three_parts [of r] by presburger
qed

lemma decode_two:
  "2 \<le> a \<Longrightarrow> a \<le> 31 \<Longrightarrow> 0 \<le> b \<Longrightarrow> b \<le> 63
   \<Longrightarrow> rune_at (of_code (192 + a) # of_code (128 + b) # s) = Some (a * 64 + b, 2)"
  by (simp add: rune_at_def continues_def code_of_code)

lemma decode_three:
  "0 \<le> a \<Longrightarrow> a \<le> 15 \<Longrightarrow> 0 \<le> b \<Longrightarrow> b \<le> 63 \<Longrightarrow> 0 \<le> c \<Longrightarrow> c \<le> 63 \<Longrightarrow> (a = 0 \<Longrightarrow> 32 \<le> b) \<Longrightarrow> (a = 13 \<Longrightarrow> b \<le> 31)
   \<Longrightarrow> rune_at (of_code (224 + a) # of_code (128 + b) # of_code (128 + c) # s) = Some (a * 4096 + b * 64 + c, 3)"
  by (simp add: rune_at_def continues_def code_of_code)

lemma decode_four:
  "0 \<le> a \<Longrightarrow> a \<le> 4 \<Longrightarrow> 0 \<le> b \<Longrightarrow> b \<le> 63 \<Longrightarrow> 0 \<le> c \<Longrightarrow> c \<le> 63 \<Longrightarrow> 0 \<le> d \<Longrightarrow> d \<le> 63
   \<Longrightarrow> (a = 0 \<Longrightarrow> 16 \<le> b) \<Longrightarrow> (a = 4 \<Longrightarrow> b \<le> 15)
   \<Longrightarrow> rune_at (of_code (240 + a) # of_code (128 + b) # of_code (128 + c) # of_code (128 + d) # s)
     = Some (a * 262144 + b * 4096 + c * 64 + d, 4)"
  by (simp add: rune_at_def continues_def code_of_code)

lemma rune_at_encode:
  assumes "scalar r"
  shows "rune_at (encode_rune r @ s) = Some (r, length (encode_rune r))"
proof -
  have r: "0 \<le> r" "r \<le> 1114111" "\<not> (55296 \<le> r \<and> r \<le> 57343)" using assms by (auto simp: scalar_def)
  consider (one) "r < 128" | (two) "128 \<le> r" "r < 2048" | (three) "2048 \<le> r" "r < 65536" | (four) "65536 \<le> r" by linarith
  then show ?thesis
  proof cases
    case one
    with r show ?thesis by (simp add: encode_rune_def rune_at_def code_of_code)
  next
    case two
    have "rune_at (of_code (192 + r div 64) # of_code (128 + r mod 64) # s) = Some (r div 64 * 64 + r mod 64, 2)"
      by (rule decode_two) (use two in auto)
    with two r show ?thesis by (simp add: encode_rune_def)
  next
    case three
    obtain a b c where abc: "a = r div 4096" "b = r div 64 mod 64" "c = r mod 64" by blast
    have range: "0 \<le> a" "a \<le> 15" "0 \<le> b" "b \<le> 63" "0 \<le> c" "c \<le> 63" unfolding abc using three by auto
    have parts: "r = a * 4096 + b * 64 + c" using three_parts [of r] unfolding abc by linarith
    have "rune_at (of_code (224 + a) # of_code (128 + b) # of_code (128 + c) # s) = Some (a * 4096 + b * 64 + c, 3)"
      by (rule decode_three) (use parts range three r(3) in linarith)+
    moreover have "encode_rune r = [of_code (224 + a), of_code (128 + b), of_code (128 + c)]"
      using three r unfolding abc by (simp add: encode_rune_def)
    ultimately show ?thesis by (simp add: parts)
  next
    case four
    obtain a b c d where abcd: "a = r div 262144" "b = r div 4096 mod 64" "c = r div 64 mod 64" "d = r mod 64" by blast
    have range: "0 \<le> a" "a \<le> 4" "0 \<le> b" "b \<le> 63" "0 \<le> c" "c \<le> 63" "0 \<le> d" "d \<le> 63" unfolding abcd using four r by auto
    have parts: "r = a * 262144 + b * 4096 + c * 64 + d" using four_parts [of r] unfolding abcd by linarith
    have "rune_at (of_code (240 + a) # of_code (128 + b) # of_code (128 + c) # of_code (128 + d) # s)
        = Some (a * 262144 + b * 4096 + c * 64 + d, 4)"
      by (rule decode_four) (use parts range four r(2) in linarith)+
    moreover have "encode_rune r = [of_code (240 + a), of_code (128 + b), of_code (128 + c), of_code (128 + d)]"
      using four r unfolding abcd by (simp add: encode_rune_def)
    ultimately show ?thesis by (simp add: parts)
  qed
qed

lemma encode_nonempty: "encode_rune r \<noteq> []"
  by (simp add: encode_rune_def)

definition utf8 :: "rune list \<Rightarrow> string" where
  "utf8 rs = concat (map encode_rune rs)"

lemma runes_encode: "scalar r \<Longrightarrow> runes (encode_rune r @ s) = r # runes s"
proof -
  assume "scalar r"
  moreover obtain c cs where "encode_rune r = c # cs" using encode_nonempty [of r] by (cases "encode_rune r") auto
  ultimately show ?thesis using rune_at_encode [of r s] by simp
qed

lemma valid_encode: "scalar r \<Longrightarrow> utf8_valid (encode_rune r @ s) = utf8_valid s"
proof -
  assume "scalar r"
  moreover obtain c cs where "encode_rune r = c # cs" using encode_nonempty [of r] by (cases "encode_rune r") auto
  ultimately show ?thesis using rune_at_encode [of r s] by simp
qed

lemma runes_utf8: "list_all scalar rs \<Longrightarrow> runes (utf8 rs) = rs \<and> utf8_valid (utf8 rs)"
  by (induction rs) (simp_all add: utf8_def runes_encode valid_encode)

lemma encode_ascii: "0 \<le> r \<Longrightarrow> r < 128 \<Longrightarrow> encode_rune r = [of_code r]"
  by (simp add: encode_rune_def)

lemma encode_head:
  assumes "scalar r" "encode_rune r = c # cs"
  shows "code_of c = r \<and> cs = [] \<or> 128 \<le> r \<and> 128 \<le> code_of c"
proof -
  from rune_at_encode [OF assms(1), of "[]"] assms(2) have at: "rune_at (c # cs) = Some (r, Suc (length cs))" by simp
  show ?thesis
  proof (cases "code_of c < 128")
    case True
    with at show ?thesis by (simp add: rune_at_ascii)
  next
    case False
    have "code_of c < 128" if "r < 128" using assms encode_ascii [of r] code_of_code [of r] that by (simp add: scalar_def)
    with False have "128 \<le> r" by linarith
    with False show ?thesis by simp
  qed
qed

lemma encode_high: "scalar r \<Longrightarrow> 128 \<le> r \<Longrightarrow> x \<in> set (encode_rune r) \<Longrightarrow> 128 \<le> code_of x"
proof -
  assume r: "scalar r" "128 \<le> r" "x \<in> set (encode_rune r)"
  obtain c cs where e: "encode_rune r = c # cs" using encode_nonempty [of r] by (cases "encode_rune r") auto
  from rune_at_encode [OF r(1), of "[]"] e have at: "rune_at (c # cs) = Some (r, Suc (length cs))" by simp
  moreover have "128 \<le> code_of c" using encode_head [OF r(1) e] r(2) by auto
  ultimately show ?thesis using rune_at_high [OF at] r(3) e by simp
qed

lemma encode_byte: "scalar r \<Longrightarrow> x \<in> set (encode_rune r) \<Longrightarrow> code_of x < 128 \<Longrightarrow> code_of x = r"
  using encode_high [of r x] encode_ascii [of r] by (cases "128 \<le> r") (auto simp: scalar_def code_of_code)

text \<open>The ways a rune is written in a JSON string (RFC 8259): as itself where the grammar lets it, with a short escape
  where it has one, or as one \<^verbatim>\<open>\u\<close> escape or a pair of them, each hexadecimal letter in either case.\<close>

datatype way = Plain | Short | Hex "nat \<Rightarrow> bool"

definition hex_char :: "bool \<Rightarrow> int \<Rightarrow> char" where
  "hex_char upper d = of_code (if d < 10 then 48 + d else if upper then 55 + d else 87 + d)"

definition hex_quad :: "(nat \<Rightarrow> bool) \<Rightarrow> int \<Rightarrow> string" where
  "hex_quad up r = [hex_char (up 0) (r div 4096), hex_char (up 1) (r div 256 mod 16), hex_char (up 2) (r div 16 mod 16),
     hex_char (up 3) (r mod 16)]"

definition unicode_escape :: "(nat \<Rightarrow> bool) \<Rightarrow> int \<Rightarrow> string" where
  "unicode_escape up r = CHR 0x5C # CHR ''u'' # hex_quad up r"

definition short_escapes :: "(rune \<times> char) list" where
  "short_escapes = [(34, CHR 0x22), (92, CHR 0x5C), (47, CHR ''/''), (8, CHR ''b''), (9, CHR ''t''), (10, CHR ''n''),
     (12, CHR ''f''), (13, CHR ''r'')]"

definition short_escape :: "rune \<Rightarrow> char option" where
  "short_escape = map_of short_escapes"

definition can_write :: "way \<Rightarrow> rune \<Rightarrow> bool" where
  "can_write w r = (case w of Plain \<Rightarrow> 32 \<le> r \<and> r \<noteq> 34 \<and> r \<noteq> 92 | Short \<Rightarrow> short_escape r \<noteq> None | Hex up \<Rightarrow> True)"

definition written :: "way \<Rightarrow> rune \<Rightarrow> string" where
  "written w r = (case w of Plain \<Rightarrow> encode_rune r | Short \<Rightarrow> (case short_escape r of None \<Rightarrow> [] | Some c \<Rightarrow> [CHR 0x5C, c])
     | Hex up \<Rightarrow> if r < 65536 then unicode_escape up r
         else unicode_escape up (55296 + (r - 65536) div 1024) @ unicode_escape (\<lambda>k. up (k + 4)) (56320 + (r - 65536) mod 1024))"

definition quoted :: "(way \<times> rune) list \<Rightarrow> string" where
  "quoted ps = CHR 0x22 # concat (map (\<lambda>(w, r). written w r) ps) @ [CHR 0x22]"

lemma hex_digit_char: "0 \<le> d \<Longrightarrow> d < 16 \<Longrightarrow> hex_digit (hex_char upper d) = Some d"
  by (simp add: hex_digit_def hex_char_def code_of_code)

lemma hex_parts: "(r::int) = r div 4096 * 4096 + r div 256 mod 16 * 256 + r div 16 mod 16 * 16 + r mod 16"
proof -
  have "r div 256 = r div 256 div 16 * 16 + r div 256 mod 16" "r div 16 = r div 16 div 16 * 16 + r div 16 mod 16" by simp_all
  moreover have "r div 256 div 16 = r div 4096" "r div 16 div 16 = r div 256"
    using zdiv_zmult2_eq [of 16 r 256] zdiv_zmult2_eq [of 16 r 16] by simp_all
  moreover have "r = r div 16 * 16 + r mod 16" by simp
  ultimately show ?thesis by presburger
qed

lemma hex4_quad:
  assumes "0 \<le> r" "r < 65536"
  shows "hex4 (hex_quad up r @ s) 0 = Some r" "drop 4 (hex_quad up r @ s) = s"
proof -
  have "hex4 (hex_quad up r @ s) 0 = Some (((r div 4096 * 16 + r div 256 mod 16) * 16 + r div 16 mod 16) * 16 + r mod 16)"
    using assms by (simp add: hex4_def hex_quad_def hex_digit_char)
  then show "hex4 (hex_quad up r @ s) 0 = Some r" using hex_parts [of r] by simp
  show "drop 4 (hex_quad up r @ s) = s" by (simp add: hex_quad_def)
qed

lemma surrogate_halves:
  assumes "65536 \<le> r" "r \<le> 1114111"
  defines "h \<equiv> 55296 + (r - 65536) div 1024" and "l \<equiv> 56320 + (r - 65536) mod 1024"
  shows "high_surrogate h" "low_surrogate l" "joined h l = r"
proof -
  define d where "d = r - 65536"
  have "0 \<le> d div 1024" "d div 1024 \<le> 1023" "0 \<le> d mod 1024" "d mod 1024 \<le> 1023" "d = d div 1024 * 1024 + d mod 1024"
    using assms(1,2) by (simp_all add: d_def)
  then show "high_surrogate h" "low_surrogate l" "joined h l = r"
    by (simp_all add: h_def l_def high_surrogate_def low_surrogate_def joined_def d_def [symmetric]) (simp add: d_def)
qed

lemma exact_escape:
  assumes "scalar r" "r < 65536"
  shows "unquote_exact (unicode_escape up r @ s) = map_option ((@) (encode_rune r)) (unquote_exact s)"
proof -
  have r: "0 \<le> r" "\<not> high_surrogate r" "\<not> low_surrogate r"
    using assms(1) by (auto simp: scalar_def high_surrogate_def low_surrogate_def)
  show ?thesis using hex4_quad [OF r(1) assms(2), of up s] r(2,3) by (simp add: unicode_escape_def)
qed

lemma exact_pair:
  assumes "65536 \<le> r" "scalar r"
  shows "unquote_exact (unicode_escape up (55296 + (r - 65536) div 1024) @ unicode_escape up' (56320 + (r - 65536) mod 1024) @ s)
    = map_option ((@) (encode_rune r)) (unquote_exact s)"
proof -
  define h l where hl: "h = 55296 + (r - 65536) div 1024" "l = 56320 + (r - 65536) mod 1024"
  have top: "r \<le> 1114111" using assms(2) by (simp add: scalar_def)
  note halves = surrogate_halves [OF assms(1) top, folded hl]
  have range: "0 \<le> h" "h < 65536" "0 \<le> l" "l < 65536"
    using halves(1,2) by (auto simp: high_surrogate_def low_surrogate_def)
  let ?low = "unicode_escape up' l @ s"
  have h: "hex4 (hex_quad up h @ ?low) 0 = Some h" "drop 4 (hex_quad up h @ ?low) = ?low"
    using hex4_quad [OF range(1,2)] by blast+
  have low: "low_follows h ?low = Some r"
    using hex4_quad [OF range(3,4), of up' s] halves by (simp add: low_follows_def unicode_escape_def)
  have "drop 10 u = drop 6 (drop 4 u)" for u :: string by simp
  then have "drop 10 (hex_quad up h @ ?low) = drop 6 (drop 4 (hex_quad up h @ ?low))" .
  also have "\<dots> = s" unfolding h(2) by (simp add: unicode_escape_def hex_quad_def)
  finally have rest: "drop 10 (hex_quad up h @ ?low) = s" .
  have step: "unquote_exact (CHR 0x5C # CHR ''u'' # u) = map_option ((@) (encode_rune r)) (unquote_exact (drop 10 u))"
    if "hex4 u 0 = Some h" "low_follows h (drop 4 u) = Some r" for u
    using that halves(1) by simp
  have "low_follows h (drop 4 (hex_quad up h @ ?low)) = Some r" unfolding h(2) by (rule low)
  from step [OF h(1) this]
  have "unquote_exact (CHR 0x5C # CHR ''u'' # hex_quad up h @ ?low) = map_option ((@) (encode_rune r)) (unquote_exact s)"
    unfolding rest .
  then show ?thesis unfolding hl [symmetric] by (simp add: unicode_escape_def)
qed

lemma exact_plain:
  assumes "scalar r" "32 \<le> r" "r \<noteq> 34" "r \<noteq> 92"
  shows "unquote_exact (encode_rune r @ s) = map_option ((@) (encode_rune r)) (unquote_exact s)"
proof (cases "r < 128")
  case True
  then have e: "encode_rune r = [of_code r]" "code_of (of_code r) = r" using assms by (simp_all add: encode_ascii code_of_code)
  moreover have "of_code r \<noteq> CHR 0x22" "of_code r \<noteq> CHR 0x5C"
    using e(2) assms(3,4) by (auto simp: code_of_def)
  ultimately show ?thesis using True assms(2) by (cases "unquote_exact s") simp_all
next
  case False
  obtain c cs where e: "encode_rune r = c # cs" using encode_nonempty [of r] by (cases "encode_rune r") auto
  from encode_head [OF assms(1) e] False have c: "128 \<le> code_of c" by auto
  have at: "rune_at (c # cs @ s) = Some (r, Suc (length cs))" using rune_at_encode [OF assms(1), of s] e by simp
  have "c \<noteq> CHR 0x22" "c \<noteq> CHR 0x5C" using c by (auto simp: code_of_def)
  with c at e show ?thesis by simp
qed

lemma short_escaped:
  assumes "short_escape r = Some c"
  shows "escaped c = Some (of_code r) \<and> 0 \<le> r \<and> r < 128 \<and> c \<noteq> CHR ''u'' \<and> code_of c < 128"
proof -
  have "list_all (\<lambda>(r, c). escaped c = Some (of_code r) \<and> 0 \<le> r \<and> r < 128 \<and> c \<noteq> CHR ''u'' \<and> code_of c < 128) short_escapes"
    by code_simp
  with assms show ?thesis by (auto simp: short_escape_def list_all_iff dest!: map_of_SomeD)
qed

lemma exact_short: "short_escape r = Some c \<Longrightarrow> unquote_exact (CHR 0x5C # c # s) = map_option ((@) (encode_rune r)) (unquote_exact s)"
  using short_escaped [of r c] by (cases "unquote_exact s") (simp_all add: encode_ascii)

lemma exact_written:
  assumes "scalar r" "can_write w r"
  shows "unquote_exact (written w r @ s) = map_option ((@) (encode_rune r)) (unquote_exact s)"
proof (cases w)
  case Plain
  then show ?thesis using assms by (simp add: written_def can_write_def exact_plain)
next
  case Short
  then obtain c where "short_escape r = Some c" using assms(2) by (auto simp: can_write_def)
  with Short exact_short [OF this] show ?thesis by (simp add: written_def)
next
  case (Hex up)
  then show ?thesis using assms(1) by (simp add: written_def exact_escape exact_pair)
qed

lemma hex_quad_ascii: "0 \<le> r \<Longrightarrow> r < 65536 \<Longrightarrow> c \<in> set (hex_quad up r) \<Longrightarrow> code_of c < 128"
  by (auto simp: hex_quad_def hex_char_def code_of_code)

lemma escape_valid: "0 \<le> r \<Longrightarrow> r < 65536 \<Longrightarrow> utf8_valid (unicode_escape up r @ s) = utf8_valid s"
  by (rule valid_front) (auto simp: unicode_escape_def dest: hex_quad_ascii)

lemma written_valid:
  assumes "scalar r" "can_write w r"
  shows "utf8_valid (written w r @ s) = utf8_valid s"
proof (cases w)
  case Plain
  then show ?thesis using assms(1) by (simp add: written_def valid_encode)
next
  case Short
  then obtain c where c: "short_escape r = Some c" using assms(2) by (auto simp: can_write_def)
  have "utf8_valid ([CHR 0x5C, c] @ s) = utf8_valid s"
    by (rule valid_front) (use short_escaped [OF c] in \<open>auto simp: code_of_def\<close>)
  with Short c show ?thesis by (simp add: written_def)
next
  case (Hex up)
  have pair: "0 \<le> r" "65536 \<le> r \<Longrightarrow> 0 \<le> (r - 65536) div 1024 \<and> (r - 65536) div 1024 \<le> 1023"
    using assms(1) by (auto simp: scalar_def)
  show ?thesis
    using Hex pair by (auto simp: written_def escape_valid pos_mod_bound
        intro!: order_less_le_trans [OF add_strict_left_mono [OF pos_mod_bound]])
qed

text \<open>White space around the string is cut.\<close>

lemma strip_around:
  assumes "list_all json_space before" "list_all json_space after" "s \<noteq> []" "\<not> json_space (hd s)" "\<not> json_space (last s)"
  shows "strip_space (before @ s @ after) = s"
proof -
  have front: "dropWhile json_space (xs @ s') = s'" if "list_all json_space xs" "s' \<noteq> []" "\<not> json_space (hd s')" for xs s'
    using that by (induction xs) (auto simp: dropWhile_eq_self_iff)
  have "dropWhile json_space (before @ s @ after) = s @ after" using assms by (intro front) auto
  moreover have "dropWhile json_space (rev after @ rev s) = rev s"
    using assms by (intro front) (auto simp: list_all_iff hd_rev)
  ultimately show ?thesis by (simp add: strip_space_def)
qed

end
