(* ===== verification/Textrules_Claims.thy ===== *)
theory Textrules_Claims
  imports Textrules_Facts
begin

text \<open>
  What the text rules come to: the exact reading of a JSON string returns and is the grammar's, every way a text is
  written reads back, and the two implementations of the one table agree.
\<close>

section \<open>Newlines over runes\<close>

lemma replace_crlf_front: "CHR 0x0D \<notin> set u \<Longrightarrow> replace_crlf (u @ s) = u @ replace_crlf s"
proof (induction u)
  case (Cons c u)
  then show ?case by (cases "u @ s") auto
qed simp

lemma utf8_Cons: "utf8 (r # rs) = encode_rune r @ utf8 rs"
  by (simp add: utf8_def)

lemma byte_in_rune: "scalar r \<Longrightarrow> of_code b \<in> set (encode_rune r) \<Longrightarrow> 0 \<le> b \<Longrightarrow> b < 128 \<Longrightarrow> r = b"
  using encode_byte [of r "of_code b"] by (simp add: code_of_code)

lemma byte_codes: "of_code 13 = CHR 0x0D" "of_code 10 = CHR 0x0A"
  by (simp_all add: of_code_def char_of_def)

lemma newline_head: "list_all scalar rs \<Longrightarrow> utf8 rs = CHR 0x0A # s \<Longrightarrow> rs \<noteq> [] \<and> hd rs = 10 \<and> utf8 (tl rs) = s"
proof -
  assume rs: "list_all scalar rs" "utf8 rs = CHR 0x0A # s"
  then obtain r rs' where r: "rs = r # rs'" "scalar r" by (cases rs) (auto simp: utf8_def)
  obtain c cs where e: "encode_rune r = c # cs" using encode_nonempty [of r] by (cases "encode_rune r") auto
  with rs r have c: "c = of_code 10" by (simp add: utf8_Cons byte_codes)
  with byte_in_rune [OF r(2), of 10] e have "r = 10" by simp
  with rs r show ?thesis by (simp add: utf8_Cons encode_ascii byte_codes)
qed

lemma normalize_utf8: "list_all scalar rs \<Longrightarrow> normalize_newlines (utf8 rs) = utf8 (image_newlines rs)"
proof (induction rs rule: image_newlines.induct)
  case (2 r rs)
  have r: "scalar r" "list_all scalar rs" using 2 by simp_all
  show ?case
  proof (cases "r = 13")
    case False
    then have "CHR 0x0D \<notin> set (encode_rune r)" using byte_in_rune [OF r(1), of 13] by (auto simp: byte_codes)
    then have "normalize_newlines (encode_rune r @ utf8 rs) = encode_rune r @ normalize_newlines (utf8 rs)"
      by (auto simp: normalize_newlines_def replace_crlf_front intro!: map_idI)
    with 2 False r show ?thesis by (simp add: utf8_Cons)
  next
    case True
    let ?rest = "if rs \<noteq> [] \<and> hd rs = 10 then tl rs else rs"
    have rest: "list_all scalar ?rest" using r(2) by (cases rs) auto
    have "normalize_newlines (CHR 0x0D # utf8 rs) = CHR 0x0A # normalize_newlines (utf8 ?rest)"
    proof (cases "utf8 rs")
      case Nil
      then have "rs = []" by (cases rs) (simp_all add: utf8_Cons encode_nonempty)
      then show ?thesis unfolding Nil by (simp add: normalize_newlines_def utf8_def)
    next
      case (Cons c s)
      show ?thesis
      proof (cases "c = CHR 0x0A")
        case True
        with newline_head [OF r(2)] Cons have "utf8 ?rest = s" by simp
        with Cons True show ?thesis by (simp only: normalize_newlines_def replace_crlf.simps) simp
      next
        case False
        have "rs \<noteq> [] \<and> hd rs = 10 \<Longrightarrow> c = CHR 0x0A" using Cons by (cases rs) (auto simp: utf8_Cons encode_ascii byte_codes)
        with False have "?rest = rs" by auto
        with False Cons show ?thesis by (simp only: normalize_newlines_def replace_crlf.simps) simp
      qed
    qed
    moreover have "encode_rune 13 = [CHR 0x0D]" "encode_rune 10 = [CHR 0x0A]" by (simp_all add: encode_ascii byte_codes)
    ultimately show ?thesis using "2.IH"(1) [OF True rest] True by (simp only: utf8_Cons image_newlines.simps refl if_True append.simps)
  qed
qed (simp add: normalize_newlines_def utf8_def)

lemma image_newlines_set: "r \<in> set (image_newlines rs) \<Longrightarrow> r = 10 \<or> r \<in> set rs"
proof (induction rs rule: image_newlines.induct)
  case (2 a rs)
  then show ?case by (cases rs) (auto split: if_splits)
qed simp

lemma scalar_newline: "scalar 10"
  by (simp add: scalar_def)

lemma image_newlines_scalar: "list_all scalar rs \<Longrightarrow> list_all scalar (image_newlines rs)"
  unfolding list_all_iff using image_newlines_set scalar_newline by blast

lemma image_newlines_no_cr: "13 \<notin> set (image_newlines rs)"
  by (induction rs rule: image_newlines.induct) simp_all

section \<open>The two implementations\<close>

lemma trimmed_away: "rev (dropWhile P (rev (dropWhile P xs))) = [] \<longleftrightarrow> list_all P xs"
proof
  assume "rev (dropWhile P (rev (dropWhile P xs))) = []"
  then have rest: "\<forall>x\<in>set (dropWhile P xs). P x" by simp
  have "dropWhile P xs = []"
  proof (rule ccontr)
    assume some: "dropWhile P xs \<noteq> []"
    with rest have "P (hd (dropWhile P xs))" by (meson list.set_sel(1))
    with hd_dropWhile [OF some] show False by contradiction
  qed
  then show "list_all P xs" by (simp add: list_all_iff)
next
  assume "list_all P xs"
  then have "dropWhile P xs = []" by (simp add: list_all_iff)
  then show "rev (dropWhile P (rev (dropWhile P xs))) = []" by (metis dropWhile.simps(1) rev.simps(1))
qed

lemma same_control: "scalar r \<Longrightarrow> r \<noteq> 13 \<Longrightarrow> control_char r = image_control r"
  unfolding scalar_def control_char_def image_control_def by presburger

lemma same_space: "\<not> image_control r \<Longrightarrow> scalar r \<Longrightarrow> (is_space r \<or> r = 65279) = image_space r"
  by (auto simp: scalar_def image_control_def is_space_def image_space_def)

lemma same_link: "383 \<notin> set rs \<Longrightarrow> has_link rs = image_link rs"
proof -
  assume long_s: "383 \<notin> set rs"
  have "map fold_case s = map image_fold s" if "s \<in> set (suffixes rs)" for s
  proof -
    have "set s \<subseteq> set rs" using that by (auto simp: in_set_suffixes dest: set_mono_suffix)
    with long_s show ?thesis by (auto simp: fold_case_def image_fold_def)
  qed
  then show ?thesis unfolding has_link_def image_link_def list_ex_iff by (metis (no_types, lifting))
qed

lemma refusal_of_runes:
  assumes "list_all scalar rs"
  shows "text_refusal (utf8 rs) links 0 =
    (let ns = image_newlines rs in
     if list_ex control_char ns then ''control characters''
     else if list_ex direction_control ns then ''text-direction controls''
     else if trim_name ns = [] then ''empty''
     else if links \<and> has_link ns then ''links'' else '''')"
  using runes_utf8 [OF image_newlines_scalar [OF assms]] normalize_utf8 [OF assms]
  by (simp add: text_refusal_def Let_def)

lemma same_refusal:
  assumes "list_all scalar rs" "links \<Longrightarrow> 383 \<notin> set rs"
  shows "text_refusal (utf8 rs) links 0 = (case image_refusal rs links of None \<Rightarrow> '''' | Some w \<Rightarrow> w)"
proof -
  let ?ns = "image_newlines rs"
  have ns: "list_all scalar ?ns" using assms(1) by (rule image_newlines_scalar)
  have controls: "list_ex control_char ?ns = list_ex image_control ?ns"
    using ns same_control image_newlines_no_cr [of rs] unfolding list_ex_iff list_all_iff by metis
  have spaces: "trim_name ?ns = [] \<longleftrightarrow> list_all image_space ?ns" if "\<not> list_ex image_control ?ns"
    using that ns same_space unfolding trim_name_def Let_def trimmed_away list_ex_iff list_all_iff by blast
  have "has_link ?ns = image_link ?ns" if "links"
    using same_link [of ?ns] image_newlines_set [of 383 rs] assms(2) [OF that] by auto
  then show ?thesis
    unfolding refusal_of_runes [OF assms(1)] image_refusal_def Let_def controls using spaces
    by (cases "list_ex image_control ?ns"; cases "list_ex direction_control ?ns"; cases "list_all image_space ?ns"; cases links) simp_all
qed

lemma written_runes:
  "list_all (\<lambda>(w, r). scalar r \<and> can_write w r) ps
   \<Longrightarrow> unquote_exact (concat (map (\<lambda>(w, r). written w r) ps) @ [CHR 0x22]) = Some (utf8 (map snd ps))"
  by (induction ps) (auto simp: utf8_def exact_written)

lemma written_runes_valid:
  "list_all (\<lambda>(w, r). scalar r \<and> can_write w r) ps \<Longrightarrow> utf8_valid (concat (map (\<lambda>(w, r). written w r) ps) @ s) = utf8_valid s"
proof (induction ps)
  case (Cons p ps)
  obtain w r where p: "p = (w, r)" by (cases p)
  have "scalar r" "can_write w r" using Cons.prems p by simp_all
  from written_valid [OF this] show ?case using Cons p by simp
qed simp

section \<open>What it comes to\<close>

text \<open>C21: \<^verbatim>\<open>jsonString\<close> reads a JSON string exactly. The code reads in two passes, encoding/json's, which puts U+FFFD for
  what it cannot represent, and a loop over the escapes; on every input both return and together they are the
  grammar's reading, with no reading at all for a lone surrogate or bytes that are not UTF-8.\<close>

theorem json_string_is_exact: "json_string raw = Some (exact_string raw)"
  by (rule two_passes)

text \<open>C23: Every way to write a text in a JSON string is read back as the text, in UTF-8: each rune as itself where the
  grammar lets it, with its short escape (quote, backslash, slash, backspace, form feed, newline, return, tab), or as
  an escape of four digits, a pair of them past the Basic Multilingual Plane, every hexadecimal letter in either
  case; with any white space around the string.\<close>

theorem quoted_reads_back:
  assumes "list_all (\<lambda>(w, r). scalar r \<and> can_write w r) ps" "list_all json_space before" "list_all json_space after"
  shows "json_string (before @ quoted ps @ after) = Some (Some (utf8 (map snd ps)))"
proof -
  have strip: "strip_space (before @ quoted ps @ after) = quoted ps"
    using assms(2,3) by (rule strip_around) (simp_all add: quoted_def json_space_def)
  have spaces: "utf8_valid (before @ s) = utf8_valid s" "utf8_valid after" for s
    using assms(2,3) space_ascii valid_front [of before s] valid_front [of after "[]"] by (auto simp: list_all_iff)
  have "utf8_valid (quoted ps @ after)"
    using written_runes_valid [OF assms(1)] spaces(2) by (simp add: quoted_def rune_at_ascii code_of_def)
  then show ?thesis
    using written_runes [OF assms(1)] by (simp add: two_passes exact_string_def Let_def strip spaces(1)) (simp add: quoted_def)
qed

theorem quoted_reads_back_witness:
  "json_string (''  '' @ quoted [(Plain, 233), (Short, 10), (Hex (\<lambda>k. k = 2), 171), (Hex (\<lambda>k. True), 128578)] @ '' '')
     = Some (Some (utf8 [233, 10, 171, 128578]))"
  using quoted_reads_back [of "[(Plain, 233), (Short, 10), (Hex (\<lambda>k. k = 2), 171), (Hex (\<lambda>k. True), 128578)]" "''  ''" "'' ''"]
  by (simp add: scalar_def can_write_def short_escape_def short_escapes_def json_space_def)

text \<open>C22: Outside the long s, the server and the console's image judge a text alike. On every well-formed text that, where
  links are refused, does not contain U+017F, they give the same reason or both let it pass, though one replaces
  newlines in bytes in two passes and trims by Unicode and the other works on code points and trims by ECMAScript.
  With U+017F and links refused they do part: Go's pattern takes it for an s (\<open>long_s_parts_them\<close>).\<close>

theorem refusals_agree:
  assumes "list_all scalar rs" "links \<Longrightarrow> 383 \<notin> set rs"
  shows "text_refusal (utf8 rs) links 0 = (case image_refusal rs links of None \<Rightarrow> '''' | Some w \<Rightarrow> w)"
  using assms by (rule same_refusal)

theorem refusals_agree_witness:
  "text_refusal (utf8 [9, 13, 10, 87, 119, 119, 46, 8364]) True 0 = ''links''"
proof -
  have "image_refusal [9, 13, 10, 87, 119, 119, 46, 8364] True = Some ''links''" by code_simp
  then show ?thesis using refusals_agree [of "[9, 13, 10, 87, 119, 119, 46, 8364]" True] by (simp add: scalar_def)
qed

text \<open>The long s is where they part.\<close>

lemma long_s_parts_them:
  "text_refusal (utf8 [104, 116, 116, 112, 383, 58, 47, 47]) True 0 = ''links''
   \<and> image_refusal [104, 116, 116, 112, 383, 58, 47, 47] True = None"
  by code_simp

end
