(* ===== verification/Sendgate.thy ===== *)
theory Sendgate
  imports Outbound Textrules Netguard
begin

text \<open>
  The routes a connection drafts and sends through, and the console's (internal/mcpauth/send.go), with the
  person's confirmation of a draft over the socket (internal/wsapi/mcpsend.go), on top of the ledger and of the
  text rules. A handler is the transactions it makes, one after another, each under its own clocks; what happens
  between two of them is the relation \<open>gate_step\<close> at the end. A request arrives decoded: \<open>None\<close> is a body that is
  not one JSON object of known fields. The signature, the session and the router come before. Arguments stand for
  the uuid library (\<open>ids\<close>), the JID library, the key's hash comparison and \<^verbatim>\<open>SendText\<close>'s answer. Messages for a
  person are left out of replies, their codes are kept.
\<close>

section \<open>Configuration\<close>

record ids =
  id_parse :: "string \<Rightarrow> uuid option"
  id_text :: "uuid \<Rightarrow> string"

record attested =
  at_id :: string
  at_tenants :: "uuid list"
  at_all :: bool

record reader =
  rd_id :: string
  rd_attested :: "attested option"

record gate =
  gt_readers :: "reader list"
  gt_content :: string
  gt_content_on :: "(uuid \<Rightarrow> bool) option"
  gt_send_on :: "(uuid \<Rightarrow> bool) option"
  gt_self_on :: "(uuid \<Rightarrow> bool) option"
  gt_text :: bool
  gt_keys :: bool
  gt_limits :: send_limits

text \<open>A switch that is not set is off.\<close>

definition on :: "(uuid \<Rightarrow> bool) option \<Rightarrow> uuid \<Rightarrow> bool" where
  "on s t = (case s of None \<Rightarrow> False | Some f \<Rightarrow> f t)"

definition tenant_allowed :: "attested \<Rightarrow> uuid \<Rightarrow> bool" where
  "tenant_allowed a t \<longleftrightarrow> at_all a \<or> t \<in> set (at_tenants a)"

definition content_allowed :: "gate \<Rightarrow> reader \<Rightarrow> uuid \<Rightarrow> bool" where
  "content_allowed g rd t \<longleftrightarrow> (case rd_attested rd of None \<Rightarrow> False | Some a \<Rightarrow>
     gt_content g \<noteq> '''' \<and> rd_id rd = gt_content g \<and> tenant_allowed a t \<and> on (gt_content_on g) t)"

definition send_allowed :: "gate \<Rightarrow> reader \<Rightarrow> uuid \<Rightarrow> bool" where
  "send_allowed g rd t \<longleftrightarrow> content_allowed g rd t \<and> on (gt_send_on g) t"

definition send_self_allowed :: "gate \<Rightarrow> reader \<Rightarrow> uuid \<Rightarrow> bool" where
  "send_self_allowed g rd t \<longleftrightarrow> send_allowed g rd t \<and> on (gt_self_on g) t"

definition reader_by_id :: "gate \<Rightarrow> string \<Rightarrow> reader option" where
  "reader_by_id g i = find (\<lambda>rd. rd_id rd = i) (gt_readers g)"

definition default_limits :: send_limits where
  "default_limits = \<lparr>sl_drafts_hour = 30, sl_pending = 20, sl_day = 20, sl_chat_day = 5, sl_interval = 30 * second,
     sl_tenant_day = 100\<rparr>"

definition or_default :: "int \<Rightarrow> int \<Rightarrow> int" where
  "or_default n d = (if n = 0 then d else n)"

definition gate_limits :: "gate \<Rightarrow> send_limits" where
  "gate_limits g = (let l = gt_limits g; d = default_limits in
     \<lparr>sl_drafts_hour = or_default (sl_drafts_hour l) (sl_drafts_hour d), sl_pending = or_default (sl_pending l) (sl_pending d),
       sl_day = or_default (sl_day l) (sl_day d), sl_chat_day = or_default (sl_chat_day l) (sl_chat_day d),
       sl_interval = or_default (sl_interval l) (sl_interval d), sl_tenant_day = or_default (sl_tenant_day l) (sl_tenant_day d)\<rparr>)"

definition draft_sealed_max :: nat where
  "draft_sealed_max = 16384"

definition self_text_max :: int where
  "self_text_max = 1000"

definition chat_key_max :: nat where
  "chat_key_max = 128"

definition outbound_page_default :: int where
  "outbound_page_default = 20"

section \<open>Replies\<close>

datatype reply =
    Fail int string
  | LimitReply timestamp
  | DraftReply uuid timestamp
  | SentReply uuid "uuid option" string timestamp bool
  | DuplicateReply int string
  | NoContent
  | Drafts "outbound_row list"
  | OneDraft outbound_row
  | SentMessages "sent_message list"
  | PauseReply connection_row

section \<open>Reading a request\<close>

definition parse_id :: "ids \<Rightarrow> string \<Rightarrow> uuid option" where
  "parse_id u raw = (case id_parse u raw of None \<Rightarrow> None
     | Some i \<Rightarrow> if i \<noteq> uuid_nil \<and> id_text u i = raw then Some i else None)"

definition connection_id :: "ids \<Rightarrow> string \<Rightarrow> uuid option" where
  "connection_id u raw = (case id_parse u raw of None \<Rightarrow> None
     | Some i \<Rightarrow> if length raw = 36 \<and> i \<noteq> uuid_nil then Some i else None)"

definition bearer_token :: "string \<Rightarrow> string option" where
  "bearer_token header = (if prefix ''Bearer '' header
     then (let token = trim_space (drop 7 header) in if token = '''' then None else Some token) else None)"

definition valid_chat_key :: "string \<Rightarrow> bool" where
  "valid_chat_key k \<longleftrightarrow> utf8_valid k \<and> k \<noteq> '''' \<and> length (runes k) \<le> chat_key_max
     \<and> \<not> list_ex (\<lambda>r. r \<le> 32 \<or> r = 44 \<or> r = 127 \<or> 128 \<le> r \<and> r \<le> 160) (runes k)"

text \<open>encoding/base64's \<^verbatim>\<open>RawURLEncoding\<close>, strict: carriage returns and newlines are passed over, and the bits a
  short end leaves must be zero.\<close>

definition b64_digit :: "char \<Rightarrow> int option" where
  "b64_digit c = (let b = code_of c in
     if 65 \<le> b \<and> b \<le> 90 then Some (b - 65)
     else if 97 \<le> b \<and> b \<le> 122 then Some (b - 71)
     else if 48 \<le> b \<and> b \<le> 57 then Some (b + 4)
     else if b = 45 then Some 62 else if b = 95 then Some 63 else None)"

definition b64_char :: "int \<Rightarrow> char" where
  "b64_char d = of_code (if d < 26 then d + 65 else if d < 52 then d + 71 else if d < 62 then d - 4
     else if d = 62 then 45 else 95)"

fun b64_bytes :: "int list \<Rightarrow> string option" where
  "b64_bytes (a # b # c # d # ds) =
     map_option (\<lambda>s. of_code (a * 4 + b div 16) # of_code (b mod 16 * 16 + c div 4) # of_code (c mod 4 * 64 + d) # s) (b64_bytes ds)"
| "b64_bytes [a, b, c] = (if c mod 4 = 0 then Some [of_code (a * 4 + b div 16), of_code (b mod 16 * 16 + c div 4)] else None)"
| "b64_bytes [a, b] = (if b mod 16 = 0 then Some [of_code (a * 4 + b div 16)] else None)"
| "b64_bytes [a] = None"
| "b64_bytes [] = Some []"

fun b64_digits :: "string \<Rightarrow> int list option" where
  "b64_digits [] = Some []"
| "b64_digits (c # s) = (if c = CHR 0x0A \<or> c = CHR 0x0D then b64_digits s
     else case b64_digit c of None \<Rightarrow> None | Some d \<Rightarrow> map_option (Cons d) (b64_digits s))"

definition b64_decode :: "string \<Rightarrow> string option" where
  "b64_decode s = (case b64_digits s of None \<Rightarrow> None | Some ds \<Rightarrow> b64_bytes ds)"

fun b64_encode :: "string \<Rightarrow> string" where
  "b64_encode (x # y # z # s) = (let a = code_of x; b = code_of y; c = code_of z in
     map b64_char [a div 4, a mod 4 * 16 + b div 16, b mod 16 * 4 + c div 64, c mod 64] @ b64_encode s)"
| "b64_encode [x, y] = (let a = code_of x; b = code_of y in
     map b64_char [a div 4, a mod 4 * 16 + b div 16, b mod 16 * 4])"
| "b64_encode [x] = (let a = code_of x in map b64_char [a div 4, a mod 4 * 16])"
| "b64_encode [] = []"

record draft_request =
  dr_id :: string
  dr_device :: string
  dr_chat :: string
  dr_reply :: "string option"
  dr_epoch :: int
  dr_sealed :: string

definition check_draft :: "ids \<Rightarrow> draft_request \<Rightarrow> new_draft option" where
  "check_draft u q =
     (case parse_id u (dr_id q) of None \<Rightarrow> None | Some i \<Rightarrow>
      case parse_id u (dr_device q) of None \<Rightarrow> None | Some d \<Rightarrow>
      if \<not> valid_chat_key (dr_chat q) then None
      else case (case dr_reply q of None \<Rightarrow> Some None | Some raw \<Rightarrow> map_option Some (parse_id u raw)) of None \<Rightarrow> None | Some reply \<Rightarrow>
      if dr_epoch q < 1 \<or> 65535 < dr_epoch q then None
      else case b64_decode (dr_sealed q) of None \<Rightarrow> None | Some sealed \<Rightarrow>
      if sealed = '''' \<or> draft_sealed_max < length sealed then None
      else Some \<lparr>nd_id = i, nd_device = d, nd_chat = dr_chat q, nd_reply = reply, nd_epoch = dr_epoch q, nd_sealed = sealed\<rparr>)"

record send_request =
  sq_ref :: string
  sq_kind :: string
  sq_device :: string
  sq_text :: string
  sq_chat :: "string option"
  sq_reply :: "string option"
  sq_reply_body :: "string option"

text \<open>\<^verbatim>\<open>checkSend\<close>: the number, the text as it would leave and whether the rules let it.\<close>

definition check_send :: "ids \<Rightarrow> send_request \<Rightarrow> (uuid \<times> string \<times> bool) option" where
  "check_send u q =
     (if \<not> client_ref_pattern (sq_ref q) then None
      else case parse_id u (sq_device q) of None \<Rightarrow> None | Some d \<Rightarrow>
      if sq_text q = '''' \<or> hd (sq_text q) \<noteq> CHR 0x22 \<or> unmarshal_string (sq_text q) = None then None
      else if \<not> (if sq_kind q = ''self'' then sq_chat q = None \<and> sq_reply q = None \<and> sq_reply_body q = None
          else sq_kind q = ''send'' \<and> (case sq_chat q of None \<Rightarrow> False | Some k \<Rightarrow> valid_chat_key k)) then None
      else case json_string (sq_text q) of
          Some (Some exact) \<Rightarrow> Some (d, normalize_newlines exact, text_refusal exact True self_text_max = '''')
        | _ \<Rightarrow> Some (d, '''', False))"

section \<open>The reader's routes\<close>

text \<open>One request: the server's configuration, what the libraries answer, the clocks of the request's transactions,
  the ids the database would draw, the reader that signed it, and its path, header and body.\<close>

record 'b call =
  cl_gate :: gate
  cl_ids :: ids
  cl_jids :: jids
  cl_match :: "string \<Rightarrow> string \<Rightarrow> bool"
  cl_now :: timestamp
  cl_tx :: send_tx
  cl_refusal_tx :: send_tx
  cl_fresh :: uuid
  cl_refused :: uuid
  cl_caller :: string
  cl_path :: string
  cl_header :: string
  cl_body :: "'b option"

text \<open>\<^verbatim>\<open>sendingConnection\<close>: the reader's connection, asked for with the connection's own live key.\<close>

definition sending_connection :: "'b call \<Rightarrow> db \<Rightarrow> reply + (connection_row \<times> uuid)" where
  "sending_connection k db =
     (case connection_id (cl_ids k) (cl_path k) of None \<Rightarrow> Inl (Fail 404 ''not_found'') | Some i \<Rightarrow>
      case send_connection db (cl_caller k) i of
        Inl e \<Rightarrow> Inl (if e = Access ConnectionNotFound then Fail 404 ''not_found'' else Fail 500 ''internal'')
      | Inr c \<Rightarrow>
        (case bearer_token (cl_header k) of None \<Rightarrow> Inl (Fail 404 ''not_found'') | Some token \<Rightarrow>
         if \<not> gt_keys (cl_gate k) then Inl (Fail 404 ''not_found'')
         else case verify_key (cl_match k) (cl_now k) db token of
           Inl _ \<Rightarrow> Inl (Fail 404 ''not_found'')
         | Inr v \<Rightarrow> if vf_id v = cn_key c \<and> vf_tenant v = cn_tenant c then Inr (c, vf_id v) else Inl (Fail 404 ''not_found'')))"

text \<open>\<^verbatim>\<open>refuseSend\<close>'s answer to an error, and the code it is recorded under, if it is.\<close>

definition refusal_answer :: "send_error \<Rightarrow> reply \<times> string option" where
  "refusal_answer e = (case e of
       Access ConnectionNotFound \<Rightarrow> (Fail 404 ''not_found'', None)
     | ConnectionState \<Rightarrow> (Fail 409 ''connection_state'', Some ''connection_state'')
     | SendNotAllowed \<Rightarrow> (Fail 403 ''send_not_allowed'', Some ''send_not_allowed'')
     | ChatNotEligible \<Rightarrow> (Fail 422 ''chat_not_eligible'', Some ''chat_not_eligible'')
     | GroupNotAllowed \<Rightarrow> (Fail 422 ''group_not_allowed'', Some ''group_not_allowed'')
     | ReplyNotFound \<Rightarrow> (Fail 422 ''reply_not_found'', Some ''reply_not_found'')
     | TextNotAllowed \<Rightarrow> (Fail 422 ''text_not_allowed'', Some ''text_not_allowed'')
     | RateLimited at \<Rightarrow> (LimitReply at, Some ''rate_limited'')
     | _ \<Rightarrow> (Fail 500 ''internal'', None))"

text \<open>\<^verbatim>\<open>recordRefusal\<close>: a connection without sending has no ledger, and a failure is only logged. \<open>x\<close> is the
  refusal's own transaction and \<open>fresh\<close> the id it draws.\<close>

definition record_gate_refusal :: "send_tx \<Rightarrow> uuid \<Rightarrow> connection_row \<Rightarrow> new_refusal \<Rightarrow> db \<Rightarrow> db" where
  "record_gate_refusal x fresh c f db =
     (if cn_mode c = '''' then db
      else case record_refusal x fresh (cn_tenant c) (cn_id c) f db of Inl _ \<Rightarrow> db | Inr (_, db') \<Rightarrow> db')"

definition refuse_send :: "send_tx \<Rightarrow> uuid \<Rightarrow> connection_row \<Rightarrow> new_refusal \<Rightarrow> send_error \<Rightarrow> db \<Rightarrow> reply \<times> db" where
  "refuse_send x fresh c f e db =
     (case refusal_answer e of
        (r, None) \<Rightarrow> (r, db)
      | (r, Some code) \<Rightarrow> (r, record_gate_refusal x fresh c (f\<lparr>rf_code := code\<rparr>) db))"

definition enclave_draft :: "draft_request call \<Rightarrow> db \<Rightarrow> reply \<times> db" where
  "enclave_draft k db =
     (case sending_connection k db of
        Inl r \<Rightarrow> (r, db)
      | Inr (c, key) \<Rightarrow>
        (case cl_body k of None \<Rightarrow> (Fail 400 ''bad_request'', db) | Some req \<Rightarrow>
         case check_draft (cl_ids k) req of None \<Rightarrow> (Fail 400 ''bad_request'', db) | Some q \<Rightarrow>
         (let f = \<lparr>rf_kind = ''draft'', rf_device = nd_device q, rf_chat = nd_chat q, rf_code = '''', rf_ref = ''''\<rparr>;
              refuse = (\<lambda>e. refuse_send (cl_refusal_tx k) (cl_refused k) c f e db);
              allowed = (case reader_by_id (cl_gate k) (cl_caller k) of None \<Rightarrow> False
                | Some rd \<Rightarrow> send_allowed (cl_gate k) rd (cn_tenant c)) in
          if \<not> allowed then refuse SendNotAllowed
          else case create_draft (cl_jids k) (cl_tx k) (cn_tenant c) (cn_id c) key q (gate_limits (cl_gate k)) db of
              Inl e \<Rightarrow> if e = DraftExists then (Fail 409 ''draft_exists'', db) else refuse e
            | Inr (expires, db') \<Rightarrow> (DraftReply (nd_id q) expires, db'))))"

text \<open>\<^verbatim>\<open>enclaveSend\<close> in two halves, before and after the text is handed to \<^verbatim>\<open>SendText\<close>: a flight is a text on its way,
  its row already in the ledger. A person's confirmation of a draft (below) makes one too.\<close>

record flight =
  fl_tenant :: uuid
  fl_connection :: uuid
  fl_id :: uuid
  fl_device :: uuid
  fl_chat :: string
  fl_body :: string
  fl_ref :: "string option"
  fl_draft :: bool
  fl_edited :: bool

datatype begun = Answered reply | Flying flight

datatype text_failure = DeviceOffline | StoragePaused | OtherFailure

datatype text_result = TextSent string timestamp "uuid option" | TextNotSent text_failure | TextLost

definition refused_status :: "string \<Rightarrow> int" where
  "refused_status code =
     (if code = ''send_not_allowed'' then 403
      else if code = ''connection_state'' \<or> code = ''device_offline'' \<or> code = ''storage_paused'' then 409
      else if code = ''rate_limited'' then 429
      else if code = ''internal'' then 500
      else 422)"

definition recorded_send :: "outbound_row \<Rightarrow> reply" where
  "recorded_send r =
     (if ob_status r = ''sent'' then SentReply (ob_id r) (ob_message r) (ob_wa r)
         (case ob_decided r of None \<Rightarrow> 0 | Some at \<Rightarrow> at) True
      else if ob_status r = ''uncertain'' then DuplicateReply 502 ''send_uncertain''
      else if ob_status r = ''refused'' then DuplicateReply (refused_status (ob_code r)) (ob_code r)
      else DuplicateReply 409 ''send_in_progress'')"

definition send_begin :: "send_request call \<Rightarrow> db \<Rightarrow> begun \<times> db" where
  "send_begin k db =
     (case sending_connection k db of
        Inl r \<Rightarrow> (Answered r, db)
      | Inr (c, key) \<Rightarrow>
        (case cl_body k of None \<Rightarrow> (Answered (Fail 400 ''bad_request''), db) | Some req \<Rightarrow>
         case check_send (cl_ids k) req of None \<Rightarrow> (Answered (Fail 400 ''bad_request''), db) | Some (d, text, text_ok) \<Rightarrow>
         (let refuse = (\<lambda>chat e. apfst Answered (refuse_send (cl_refusal_tx k) (cl_refused k) c
                \<lparr>rf_kind = sq_kind req, rf_device = d, rf_chat = chat, rf_code = '''', rf_ref = ''''\<rparr> e db));
              allowed = (sq_kind req = ''self'' \<and> gt_text (cl_gate k)
                \<and> (case reader_by_id (cl_gate k) (cl_caller k) of None \<Rightarrow> False
                  | Some rd \<Rightarrow> send_self_allowed (cl_gate k) rd (cn_tenant c))) in
          if \<not> allowed then
            refuse (if sq_kind req = ''send'' then (case sq_chat req of None \<Rightarrow> '''' | Some chat \<Rightarrow> chat) else '''') SendNotAllowed
          else case start_send (cl_jids k) (cl_tx k) (cl_fresh k) (cn_tenant c) (cn_id c) key
              \<lparr>ns_kind = sq_kind req, ns_device = d, ns_ref = sq_ref req, ns_text_ok = text_ok\<rparr> (gate_limits (cl_gate k)) db of
              Inl e \<Rightarrow> refuse '''' e
            | Inr (Prior p, db') \<Rightarrow> (Answered (recorded_send p), db')
            | Inr (Started i chat, db') \<Rightarrow>
                (Flying \<lparr>fl_tenant = cn_tenant c, fl_connection = cn_id c, fl_id = i, fl_device = d, fl_chat = chat,
                   fl_body = text, fl_ref = Some (sq_ref req), fl_draft = False, fl_edited = False\<rparr>, db'))))"

text \<open>\<^verbatim>\<open>finishSend\<close>: a failure leaves the row sending.\<close>

definition finish_gate_send :: "uuid \<Rightarrow> uuid \<Rightarrow> send_outcome \<Rightarrow> db \<Rightarrow> db" where
  "finish_gate_send t i e db = (case finish_send t i e db of Inl _ \<Rightarrow> db | Inr db' \<Rightarrow> db')"

definition failure_code :: "text_failure \<Rightarrow> int \<times> string" where
  "failure_code w = (case w of DeviceOffline \<Rightarrow> (409, ''device_offline'') | StoragePaused \<Rightarrow> (409, ''storage_paused'')
     | OtherFailure \<Rightarrow> (500, ''internal''))"

definition send_end :: "timestamp \<Rightarrow> flight \<Rightarrow> text_result \<Rightarrow> db \<Rightarrow> reply \<times> db" where
  "send_end now f result db =
     (let finish = (\<lambda>e. finish_gate_send (fl_tenant f) (fl_id f) e db) in
      case result of
        TextNotSent w \<Rightarrow> (let (status, code) = failure_code w in (Fail status code,
          finish \<lparr>so_status = ''refused'', so_code = code, so_message = None, so_wa = '''', so_at = now\<rparr>))
      | TextLost \<Rightarrow> (Fail 502 ''send_uncertain'',
          finish \<lparr>so_status = ''uncertain'', so_code = '''', so_message = None, so_wa = '''', so_at = now\<rparr>)
      | TextSent wa stamp uid \<Rightarrow> (let at = (if is_zero_time stamp then now else stamp) in (SentReply (fl_id f) uid wa at False,
          finish \<lparr>so_status = ''sent'', so_code = '''', so_message = uid, so_wa = wa, so_at = at\<rparr>)))"

definition enclave_send :: "send_request call \<Rightarrow> (flight \<Rightarrow> text_result) \<Rightarrow> timestamp \<Rightarrow> db \<Rightarrow> reply \<times> db" where
  "enclave_send k send_text after db =
     (case send_begin k db of
        (Answered r, db') \<Rightarrow> (r, db')
      | (Flying f, db') \<Rightarrow> send_end after f (send_text f) db')"

record refusal_request =
  rq_kind :: string
  rq_device :: string
  rq_chat :: "string option"
  rq_code :: string

definition reader_refusal_codes :: "string list" where
  "reader_refusal_codes = [''text_not_allowed'', ''cross_chat_blocked'', ''chat_not_allowed'', ''recipient_mismatch'',
     ''rate_limited'', ''chat_not_eligible'', ''group_not_allowed'']"

definition enclave_refusal :: "refusal_request call \<Rightarrow> db \<Rightarrow> reply \<times> db" where
  "enclave_refusal k db =
     (case sending_connection k db of
        Inl r \<Rightarrow> (r, db)
      | Inr (c, key) \<Rightarrow>
        (case cl_body k of None \<Rightarrow> (Fail 400 ''bad_request'', db) | Some q \<Rightarrow>
         case parse_id (cl_ids k) (rq_device q) of None \<Rightarrow> (Fail 400 ''bad_request'', db) | Some d \<Rightarrow>
          if rq_kind q \<notin> {''draft'', ''self'', ''send''}
             \<or> (if rq_kind q = ''self'' then rq_chat q \<noteq> None
                else case rq_chat q of None \<Rightarrow> True | Some chat \<Rightarrow> \<not> valid_chat_key chat)
             \<or> rq_code q \<notin> set reader_refusal_codes then (Fail 400 ''bad_request'', db)
          else if cn_mode c = '''' then (Fail 404 ''not_found'', db)
          else case record_refusal (cl_refusal_tx k) (cl_refused k) (cn_tenant c) (cn_id c)
              \<lparr>rf_kind = rq_kind q, rf_device = d, rf_chat = (case rq_chat q of None \<Rightarrow> '''' | Some chat \<Rightarrow> chat),
                 rf_code = rq_code q, rf_ref = ''''\<rparr> db of
              Inl e \<Rightarrow> (if e = ChatNotEligible then Fail 400 ''bad_request'' else Fail 500 ''internal'', db)
            | Inr (_, db') \<Rightarrow> (NoContent, db')))"

section \<open>Pages of the ledger\<close>

record outbound_item =
  it_id :: uuid
  it_kind :: string
  it_status :: string
  it_code :: "string option"
  it_device :: uuid
  it_chat :: "string option"
  it_reply :: "uuid option"
  it_created :: timestamp
  it_decided :: "timestamp option"
  it_edited :: bool
  it_message :: "uuid option"

definition optional :: "string \<Rightarrow> string option" where
  "optional s = (if s = '''' then None else Some s)"

definition item_of :: "outbound_row \<Rightarrow> outbound_item" where
  "item_of r = \<lparr>it_id = ob_id r, it_kind = ob_kind r, it_status = ob_status r, it_code = optional (ob_code r),
     it_device = ob_device r, it_chat = optional (ob_chat r), it_reply = ob_reply r, it_created = ob_created r,
     it_decided = ob_decided r, it_edited = ob_edited r, it_message = ob_message r\<rparr>"

text \<open>The cursor: the time in microseconds since 1970 in eight bytes, most significant first, and the id in sixteen.\<close>

definition unix_epoch :: timestamp where
  "unix_epoch = 62135596800 * second"

fun be_bytes :: "nat \<Rightarrow> int \<Rightarrow> string" where
  "be_bytes 0 v = []"
| "be_bytes (Suc n) v = be_bytes n (v div 256) @ [of_code (v mod 256)]"

definition be_value :: "string \<Rightarrow> int" where
  "be_value s = foldl (\<lambda>v c. v * 256 + code_of c) 0 s"

definition encode_cursor :: "timestamp \<times> uuid \<Rightarrow> string" where
  "encode_cursor r = (let micros = (fst r - unix_epoch) div 1000 in
     b64_encode (be_bytes 8 (micros mod 2 ^ 64) @ be_bytes 16 (int (snd r))))"

definition decode_cursor :: "string \<Rightarrow> (timestamp \<times> uuid) option" where
  "decode_cursor s = (case b64_decode s of None \<Rightarrow> None | Some raw \<Rightarrow>
     if length raw \<noteq> 24 then None
     else (let v = be_value (take 8 raw); micros = (if v < 2 ^ 63 then v else v - 2 ^ 64) in
       if micros \<le> 0 then None else Some (unix_epoch + micros * 1000, nat (be_value (drop 8 raw)))))"

text \<open>\<^verbatim>\<open>outboundQuery\<close> over the parsed query, \<open>None\<close> where it does not parse; \<open>None\<close> is a bad request.\<close>

type_synonym query_values = "(string \<times> string list) list"

definition first_value :: "query_values \<Rightarrow> string \<Rightarrow> string option" where
  "first_value vs name = (case map_of vs name of Some (v # _) \<Rightarrow> Some v | _ \<Rightarrow> None)"

definition limit_value :: "query_values \<Rightarrow> int option" where
  "limit_value vs = (case first_value vs ''limit'' of None \<Rightarrow> Some outbound_page_default
     | Some raw \<Rightarrow> (case atoi raw of None \<Rightarrow> None | Some n \<Rightarrow> if n < 1 \<or> max_outbound_page < n then None else Some n))"

definition before_value :: "query_values \<Rightarrow> (timestamp \<times> uuid) option option" where
  "before_value vs = (case first_value vs ''before'' of None \<Rightarrow> Some None
     | Some raw \<Rightarrow> (case decode_cursor raw of None \<Rightarrow> None | Some k \<Rightarrow> if 64 < length raw then None else Some (Some k)))"

definition status_value :: "query_values \<Rightarrow> string option" where
  "status_value vs = (case first_value vs ''status'' of None \<Rightarrow> Some ''''
     | Some raw \<Rightarrow> if raw \<in> set outbound_statuses then Some raw else None)"

definition device_value :: "ids \<Rightarrow> query_values \<Rightarrow> uuid option option" where
  "device_value u vs = (case first_value vs ''device_id'' of None \<Rightarrow> Some None | Some raw \<Rightarrow> map_option Some (parse_id u raw))"

definition known_parameter :: "bool \<Rightarrow> string \<times> string list \<Rightarrow> bool" where
  "known_parameter narrow p \<longleftrightarrow> length (snd p) = 1
     \<and> (fst p = ''limit'' \<or> fst p = ''before'' \<or> narrow \<and> (fst p = ''status'' \<or> fst p = ''device_id''))"

definition query_of :: "ids \<Rightarrow> bool \<Rightarrow> query_values option \<Rightarrow> outbound_query option" where
  "query_of u narrow parsed =
     (case parsed of None \<Rightarrow> None | Some vs \<Rightarrow>
      if \<not> list_all (known_parameter narrow) vs then None
      else case (limit_value vs, before_value vs, status_value vs, device_value u vs) of
        (Some limit, Some from_here, Some status, Some device) \<Rightarrow>
          Some \<lparr>oq_limit = limit, oq_before = from_here, oq_status = status, oq_device = device\<rparr>
      | _ \<Rightarrow> None)"

definition next_cursor :: "outbound_row list \<Rightarrow> bool \<Rightarrow> string option" where
  "next_cursor rows follows = (if follows then Some (encode_cursor (ob_created (last rows), ob_id (last rows))) else None)"

datatype page_reply = PageFail int string | PageItems "outbound_item list" "string option"
  | ConsoleItems "(outbound_item \<times> uuid option) list" "string option"

definition enclave_outbound :: "query_values call \<Rightarrow> db \<Rightarrow> page_reply" where
  "enclave_outbound k db =
     (case sending_connection k db of
        Inl r \<Rightarrow> (case r of Fail status code \<Rightarrow> PageFail status code | _ \<Rightarrow> PageFail 500 ''internal'')
      | Inr (c, key) \<Rightarrow>
        (case query_of (cl_ids k) True (cl_body k) of None \<Rightarrow> PageFail 400 ''bad_request'' | Some q \<Rightarrow>
         case list_outbound (sx_now (cl_tx k)) (cn_tenant c) (cn_id c) q db of
           Inl _ \<Rightarrow> PageFail 500 ''internal''
         | Inr (rows, follows) \<Rightarrow> PageItems (map item_of rows) (next_cursor rows follows)))"

section \<open>The console's routes\<close>

text \<open>\<^verbatim>\<open>authenticate\<close>: the workspace and the person of a live session; \<open>digest\<close> reads and hashes its token.\<close>

definition authenticate_person :: "(string \<Rightarrow> string option) \<Rightarrow> timestamp \<Rightarrow> db \<Rightarrow> string \<Rightarrow> (uuid \<times> uuid) option" where
  "authenticate_person digest now db header =
     (case bearer_token header of None \<Rightarrow> None | Some token \<Rightarrow>
      case active_session digest now db token of Inl _ \<Rightarrow> None | Inr (t, who, _) \<Rightarrow> Some (t, who))"

text \<open>\<^verbatim>\<open>consoleSendError\<close>.\<close>

definition console_send_error :: "send_error \<Rightarrow> int \<times> string" where
  "console_send_error e = (case e of
       Access ConnectionNotFound \<Rightarrow> (404, ''not_found'')
     | Access MembershipForbidden \<Rightarrow> (403, ''not_authorized'')
     | ConnectionState \<Rightarrow> (409, ''connection_state'')
     | _ \<Rightarrow> (500, ''internal''))"

definition fail_with :: "int \<times> string \<Rightarrow> reply" where
  "fail_with p = Fail (fst p) (snd p)"

definition console_draft :: "ids \<Rightarrow> (uuid \<times> uuid) option \<Rightarrow> timestamp \<Rightarrow> string \<Rightarrow> db \<Rightarrow> reply" where
  "console_draft u person at path db =
     (case person of None \<Rightarrow> Fail 401 ''unauthorized'' | Some (t, who) \<Rightarrow>
      case parse_id u path of None \<Rightarrow> Fail 404 ''not_found'' | Some i \<Rightarrow>
      case read_draft at t who i db of
        Inl e \<Rightarrow> if e = OutboundNotFound then Fail 404 ''not_found'' else Fail 500 ''internal''
      | Inr r \<Rightarrow> OneDraft r)"

definition console_discard :: "ids \<Rightarrow> (uuid \<times> uuid) option \<Rightarrow> send_tx \<Rightarrow> string \<Rightarrow> db \<Rightarrow> reply \<times> db" where
  "console_discard u person x path db =
     (case person of None \<Rightarrow> (Fail 401 ''unauthorized'', db) | Some (t, who) \<Rightarrow>
      case parse_id u path of None \<Rightarrow> (Fail 404 ''not_found'', db) | Some i \<Rightarrow>
      case discard_draft x t who i db of
        Inl e \<Rightarrow> (if e = OutboundNotFound then Fail 404 ''not_found''
           else if e = DraftState then Fail 409 ''draft_state'' else Fail 500 ''internal'', db)
      | Inr (_, db') \<Rightarrow> (NoContent, db'))"

definition console_pending :: "ids \<Rightarrow> (uuid \<times> uuid) option \<Rightarrow> timestamp \<Rightarrow> string \<Rightarrow> query_values option \<Rightarrow> db \<Rightarrow> reply" where
  "console_pending u person at path query db =
     (case person of None \<Rightarrow> Fail 401 ''unauthorized'' | Some (t, who) \<Rightarrow>
      case connection_id u path of None \<Rightarrow> Fail 404 ''not_found'' | Some i \<Rightarrow>
      if query \<noteq> Some [] \<and> query \<noteq> Some [(''status'', [''pending''])] then Fail 400 ''bad_request''
      else case pending_drafts at t who i db of
        Inl e \<Rightarrow> fail_with (console_send_error e)
      | Inr rows \<Rightarrow> Drafts rows)"

definition console_page :: "ids \<Rightarrow> (uuid \<times> uuid) option \<Rightarrow> timestamp \<Rightarrow> string \<Rightarrow> query_values option \<Rightarrow> db \<Rightarrow> page_reply" where
  "console_page u person at path query db =
     (case person of None \<Rightarrow> PageFail 401 ''unauthorized'' | Some (t, who) \<Rightarrow>
      case connection_id u path of None \<Rightarrow> PageFail 404 ''not_found'' | Some i \<Rightarrow>
      case query_of u False query of None \<Rightarrow> PageFail 400 ''bad_request'' | Some q \<Rightarrow>
      case console_outbound at t who i q db of
        Inl e \<Rightarrow> PageFail (fst (console_send_error e)) (snd (console_send_error e))
      | Inr (rows, follows) \<Rightarrow> ConsoleItems (map (\<lambda>r. (item_of r, ob_decider r)) rows) (next_cursor rows follows))"

text \<open>\<^verbatim>\<open>consolePause\<close>: the body's \<^verbatim>\<open>paused\<close>, and whether \<^verbatim>\<open>remove_chats\<close> is present. The reply is the connection as it
  now stands.\<close>

definition console_pause :: "ids \<Rightarrow> (uuid \<times> uuid) option \<Rightarrow> send_tx \<Rightarrow> string \<Rightarrow> (bool option \<times> bool) option \<Rightarrow> db \<Rightarrow> reply \<times> db" where
  "console_pause u person x path body db =
     (case person of None \<Rightarrow> (Fail 401 ''unauthorized'', db) | Some (t, who) \<Rightarrow>
      case connection_id u path of None \<Rightarrow> (Fail 404 ''not_found'', db) | Some i \<Rightarrow>
      case body of None \<Rightarrow> (Fail 400 ''bad_request'', db) | Some (_, True) \<Rightarrow> (Fail 400 ''bad_request'', db)
      | Some (None, False) \<Rightarrow> (Fail 400 ''bad_request'', db)
      | Some (Some paused, False) \<Rightarrow>
        (case set_send_paused x t who i paused db of
           Inl e \<Rightarrow> (fail_with (console_send_error e), db)
         | Inr db' \<Rightarrow> (case connection_of t db' i of None \<Rightarrow> Fail 404 ''not_found'' | Some c \<Rightarrow> PauseReply c, db')))"

definition max_outbound_uids :: nat where
  "max_outbound_uids = 100"

definition via_messages :: "ids \<Rightarrow> (uuid \<times> uuid) option \<Rightarrow> timestamp \<Rightarrow> query_values option \<Rightarrow> db \<Rightarrow> reply" where
  "via_messages u person at query db =
     (case person of None \<Rightarrow> Fail 401 ''unauthorized'' | Some (t, who) \<Rightarrow>
      case query of None \<Rightarrow> Fail 400 ''bad_request'' | Some vs \<Rightarrow>
      case (map_of vs ''device_id'', map_of vs ''uids'') of
        (Some [raw], Some [list]) \<Rightarrow>
          (if length vs \<noteq> 2 then Fail 400 ''bad_request''
           else case parse_id u raw of None \<Rightarrow> Fail 400 ''bad_request'' | Some d \<Rightarrow>
           (let parts = split_on (CHR '','') list; uids = map (parse_id u) parts in
            if max_outbound_uids < length parts \<or> None \<in> set uids then Fail 400 ''bad_request''
            else case device_permission_tx at db t who d of
              Inl e \<Rightarrow> if e = RowNotFound then Fail 403 ''not_authorized'' else Fail 500 ''internal''
            | Inr p \<Rightarrow> if perm_allows p ActionRead then SentMessages (outbound_messages t d (List.map_filter id uids) db)
                else Fail 403 ''not_authorized''))
      | _ \<Rightarrow> Fail 400 ''bad_request'')"

section \<open>A person's confirmation\<close>

text \<open>\<^verbatim>\<open>handleDraftSend\<close>: the frame, what \<^verbatim>\<open>resolveSend\<close> made of its number and chat (the workspace and the number, or
  an error's code) and what \<^verbatim>\<open>sendOptions\<close> answered; \<open>ledger_on\<close> is whether the server holds drafts.\<close>

record confirmation =
  cf_draft :: string
  cf_chat :: string
  cf_body :: string
  cf_edited :: bool
  cf_view_once :: bool
  cf_preview_url :: "string option"

definition confirm_error :: "send_error \<Rightarrow> string" where
  "confirm_error e = (case e of
       OutboundNotFound \<Rightarrow> ''not_authorized''
     | Access w \<Rightarrow> if w = MembershipForbidden then ''not_authorized'' else ''internal''
     | DraftState \<Rightarrow> ''draft_state''
     | SendNotAllowed \<Rightarrow> ''send_not_allowed''
     | DraftMismatch \<Rightarrow> ''bad_request''
     | _ \<Rightarrow> ''internal'')"

definition confirm_begin :: "ids \<Rightarrow> send_tx \<Rightarrow> (uuid \<Rightarrow> bool) option \<Rightarrow> uuid option \<Rightarrow> bool \<Rightarrow> string + (uuid \<times> uuid) \<Rightarrow> string option
    \<Rightarrow> confirmation \<Rightarrow> db \<Rightarrow> string + (flight \<times> db)" where
  "confirm_begin u x may_send person ledger_on resolved options_error q db =
     (case person of None \<Rightarrow> Inl ''not_authorized'' | Some who \<Rightarrow>
      case id_parse u (cf_draft q) of None \<Rightarrow> Inl ''bad_request'' | Some i \<Rightarrow>
      if i = uuid_nil then Inl ''bad_request''
      else if \<not> ledger_on then Inl ''send_not_allowed''
      else if cf_view_once q then Inl ''bad_request''
      else case resolved of Inl code \<Rightarrow> Inl code | Inr (t, d) \<Rightarrow>
        (case options_error of Some code \<Rightarrow> Inl code | None \<Rightarrow>
         if cf_preview_url q = Some '''' then Inl ''bad_request''
         else case claim_draft x may_send t who i d (cf_chat q) db of
          Inl e \<Rightarrow> Inl (confirm_error e)
        | Inr (c, db') \<Rightarrow> Inr (\<lparr>fl_tenant = t, fl_connection = c, fl_id = i, fl_device = d, fl_chat = cf_chat q,
            fl_body = cf_body q, fl_ref = None, fl_draft = True, fl_edited = cf_edited q\<rparr>, db')))"

text \<open>Whatever \<^verbatim>\<open>sendText\<close>'s error says, a draft taken and not known to have left is uncertain.\<close>

definition finish_gate_draft :: "uuid \<Rightarrow> uuid \<Rightarrow> draft_outcome \<Rightarrow> db \<Rightarrow> db" where
  "finish_gate_draft t i e db = (case finish_draft t i e db of Inl _ \<Rightarrow> db | Inr db' \<Rightarrow> db')"

definition confirm_end :: "timestamp \<Rightarrow> flight \<Rightarrow> text_result \<Rightarrow> db \<Rightarrow> string option \<times> db" where
  "confirm_end now f result db =
     (let finish = (\<lambda>e. finish_gate_draft (fl_tenant f) (fl_id f) e db) in
      case result of
        TextSent wa stamp uid \<Rightarrow> (None, finish \<lparr>do_status = ''sent'', do_message = uid, do_wa = wa, do_edited = fl_edited f,
          do_at = (if is_zero_time stamp then now else stamp)\<rparr>)
      | _ \<Rightarrow> (Some ''internal'', finish \<lparr>do_status = ''uncertain'', do_message = None, do_wa = '''', do_edited = fl_edited f,
          do_at = now\<rparr>))"

section \<open>Steps\<close>

text \<open>The server at work: its ledger, the texts on their way, and every text handed to WhatsApp so far. Between the two
  halves of a send anything may happen: other requests, confirmations, the janitor, changes of access, and the
  process may end, which forgets what is on its way. A run lasts for a year at most, from \<open>since\<close>.\<close>

record world =
  wd_db :: db
  wd_flying :: "flight list"
  wd_left :: "flight list"

definition timely :: "timestamp \<Rightarrow> send_tx \<Rightarrow> bool" where
  "timely since x \<longleftrightarrow> clocks_ok x \<and> since \<le> sx_now x \<and> sx_now x \<le> since + retention"

definition takes_off :: "flight \<Rightarrow> db \<Rightarrow> world \<Rightarrow> world" where
  "takes_off f db w = \<lparr>wd_db = db, wd_flying = wd_flying w @ [f], wd_left = wd_left w @ [f]\<rparr>"

inductive gate_step :: "timestamp \<Rightarrow> world \<Rightarrow> world \<Rightarrow> bool" for since where
  drafted: "timely since (cl_tx k) \<Longrightarrow> timely since (cl_refusal_tx k) \<Longrightarrow> enclave_draft k (wd_db w) = (r, db)
    \<Longrightarrow> gate_step since w (w\<lparr>wd_db := db\<rparr>)"
| answered: "timely since (cl_tx k) \<Longrightarrow> timely since (cl_refusal_tx k) \<Longrightarrow> send_begin k (wd_db w) = (Answered r, db)
    \<Longrightarrow> gate_step since w (w\<lparr>wd_db := db\<rparr>)"
| flies: "timely since (cl_tx k) \<Longrightarrow> send_begin k (wd_db w) = (Flying f, db)
    \<Longrightarrow> gate_step since w (takes_off f db w)"
| lands: "f \<in> set (wd_flying w) \<Longrightarrow> \<not> fl_draft f \<Longrightarrow> send_end now f result (wd_db w) = (r, db)
    \<Longrightarrow> gate_step since w (w\<lparr>wd_db := db, wd_flying := remove1 f (wd_flying w)\<rparr>)"
| confirmed: "timely since x \<Longrightarrow> confirm_begin u x may_send person ledger_on resolved options_error q (wd_db w) = Inr (f, db)
    \<Longrightarrow> gate_step since w (takes_off f db w)"
| confirmed_lands: "f \<in> set (wd_flying w) \<Longrightarrow> fl_draft f \<Longrightarrow> confirm_end now f result (wd_db w) = (e, db)
    \<Longrightarrow> gate_step since w (w\<lparr>wd_db := db, wd_flying := remove1 f (wd_flying w)\<rparr>)"
| refused: "timely since (cl_refusal_tx n) \<Longrightarrow> enclave_refusal n (wd_db w) = (r, db)
    \<Longrightarrow> gate_step since w (w\<lparr>wd_db := db\<rparr>)"
| other: "timely since x \<Longrightarrow> run_send j l x op (wd_db w) = Inr db
    \<Longrightarrow> gate_step since w (w\<lparr>wd_db := db\<rparr>)"
| ends: "gate_step since w (w\<lparr>wd_flying := []\<rparr>)"

inductive gate_run :: "timestamp \<Rightarrow> world \<Rightarrow> world \<Rightarrow> bool" for since where
  starts: "gate_run since w w"
| goes_on: "gate_run since w w' \<Longrightarrow> gate_step since w' w'' \<Longrightarrow> gate_run since w w''"

end
