(* ===== verification/Sendgate_Facts.thy ===== *)
theory Sendgate_Facts
  imports Sendgate Outbound_Props Textrules_Claims
begin

text \<open>
  The send routes proved: every handler is a run of the ledger's operations, what leaves the server is in the ledger
  first, a page's cursor reads back as the row it names, and a checked draft fits the table.
\<close>

section \<open>Handlers are ledger operations\<close>

lemma refuse_send_step:
  assumes "refuse_send x fresh c f e db = (r, db')" "db' \<noteq> db"
  obtains code where "snd (refusal_answer e) = Some code" "cn_mode c \<noteq> ''''"
    "run_send j l x (RecordRefusal fresh (cn_tenant c) (cn_id c) (f\<lparr>rf_code := code\<rparr>)) db = Inr db'"
proof (cases "snd (refusal_answer e)")
  case None
  with assms show ?thesis by (auto simp: refuse_send_def split: prod.splits)
next
  case (Some code)
  with assms have "record_gate_refusal x fresh c (f\<lparr>rf_code := code\<rparr>) db = db'"
    by (auto simp: refuse_send_def split: prod.splits)
  with assms(2) Some show ?thesis
    by (intro that [of code]) (auto simp: record_gate_refusal_def split: if_splits sum.splits)
qed

lemma enclave_draft_step:
  assumes "enclave_draft k db = (r, db')" "db' \<noteq> db"
  obtains j l x op where "x = cl_tx k \<or> x = cl_refusal_tx k" "run_send j l x op db = Inr db'"
proof -
  from assms obtain c key req q where cq: "sending_connection k db = Inr (c, key)" "cl_body k = Some req"
      "check_draft (cl_ids k) req = Some q"
    by (auto simp: enclave_draft_def split: sum.splits prod.splits option.splits)
  let ?create = "create_draft (cl_jids k) (cl_tx k) (cn_tenant c) (cn_id c) key q (gate_limits (cl_gate k)) db"
  let ?f = "\<lparr>rf_kind = ''draft'', rf_device = nd_device q, rf_chat = nd_chat q, rf_code = '''', rf_ref = ''''\<rparr>"
  have "(\<exists>e. refuse_send (cl_refusal_tx k) (cl_refused k) c ?f e db = (r, db')) \<or> (\<exists>expires. ?create = Inr (expires, db'))"
    using assms cq by (auto simp: enclave_draft_def Let_def split: if_splits sum.splits option.splits)
  then show ?thesis
  proof (elim disjE exE)
    fix e assume "refuse_send (cl_refusal_tx k) (cl_refused k) c ?f e db = (r, db')"
    then show ?thesis by (rule refuse_send_step) (use assms(2) that in blast)+
  next
    fix expires assume "?create = Inr (expires, db')"
    then have "run_send (cl_jids k) (gate_limits (cl_gate k)) (cl_tx k) (CreateDraft (cn_tenant c) (cn_id c) key q) db = Inr db'"
      by simp
    with that show ?thesis by blast
  qed
qed

lemma enclave_refusal_step:
  assumes "enclave_refusal k db = (r, db')" "db' \<noteq> db"
  obtains op where "run_send j l (cl_refusal_tx k) op db = Inr db'"
proof -
  from assms have "\<exists>(c :: connection_row) f b. record_refusal (cl_refusal_tx k) (cl_refused k) (cn_tenant c) (cn_id c) f db = Inr (b, db')"
    by (auto simp: enclave_refusal_def split: sum.splits prod.splits option.splits if_splits)
  then obtain c :: connection_row and f b where "record_refusal (cl_refusal_tx k) (cl_refused k) (cn_tenant c) (cn_id c) f db = Inr (b, db')" by blast
  then have "run_send j l (cl_refusal_tx k) (RecordRefusal (cl_refused k) (cn_tenant c) (cn_id c) f) db = Inr db'" by simp
  with that show ?thesis .
qed

text \<open>A send that flies: what was checked on the way.\<close>

lemma send_begin_flies:
  assumes "send_begin k db = (Flying f, db')"
  obtains c key req rd where "sending_connection k db = Inr (c, key)" "cl_body k = Some req"
    "check_send (cl_ids k) req = Some (fl_device f, fl_body f, True)" "reader_by_id (cl_gate k) (cl_caller k) = Some rd"
    "send_self_allowed (cl_gate k) rd (cn_tenant c)" "sq_kind req = ''self''"
    "fl_tenant f = cn_tenant c" "fl_connection f = cn_id c" "fl_ref f = Some (sq_ref req)" "\<not> fl_draft f"
    "start_send (cl_jids k) (cl_tx k) (cl_fresh k) (cn_tenant c) (cn_id c) key
      \<lparr>ns_kind = ''self'', ns_device = fl_device f, ns_ref = sq_ref req, ns_text_ok = True\<rparr> (gate_limits (cl_gate k)) db
      = Inr (Started (fl_id f) (fl_chat f), db')"
proof -
  from assms obtain c key req d body allowed where cq: "sending_connection k db = Inr (c, key)" "cl_body k = Some req"
      "check_send (cl_ids k) req = Some (d, body, allowed)"
    by (auto simp: send_begin_def split: sum.splits prod.splits option.splits)
  let ?s = "\<lparr>ns_kind = sq_kind req, ns_device = d, ns_ref = sq_ref req, ns_text_ok = allowed\<rparr>"
  let ?start = "start_send (cl_jids k) (cl_tx k) (cl_fresh k) (cn_tenant c) (cn_id c) key ?s (gate_limits (cl_gate k)) db"
  from assms cq obtain rd where rd: "sq_kind req = ''self''" "reader_by_id (cl_gate k) (cl_caller k) = Some rd"
      "send_self_allowed (cl_gate k) rd (cn_tenant c)"
    by (auto simp: send_begin_def Let_def apfst_def map_prod_def split: if_splits option.splits prod.splits)
  from assms cq rd obtain i chat where "?start = Inr (Started i chat, db')"
    "f = \<lparr>fl_tenant = cn_tenant c, fl_connection = cn_id c, fl_id = i, fl_device = d, fl_chat = chat, fl_body = body,
       fl_ref = Some (sq_ref req), fl_draft = False, fl_edited = False\<rparr>"
    by (auto simp: send_begin_def Let_def apfst_def map_prod_def split: if_splits option.splits prod.splits sum.splits started.splits)
  moreover from this(1) have allowed by (rule start_send_elim) simp
  ultimately show ?thesis using cq rd by (intro that [of c key req rd]) simp_all
qed

lemma send_begin_step:
  assumes "send_begin k db = (b, db')" "db' \<noteq> db"
  obtains j l x op where "x = cl_tx k \<or> (\<exists>r. b = Answered r) \<and> x = cl_refusal_tx k" "run_send j l x op db = Inr db'"
proof (cases b)
  case (Flying f)
  with assms(1) have "send_begin k db = (Flying f, db')" by simp
  then obtain c :: connection_row and key and req :: send_request where
    "start_send (cl_jids k) (cl_tx k) (cl_fresh k) (cn_tenant c) (cn_id c) key
      \<lparr>ns_kind = ''self'', ns_device = fl_device f, ns_ref = sq_ref req, ns_text_ok = True\<rparr> (gate_limits (cl_gate k)) db
      = Inr (Started (fl_id f) (fl_chat f), db')"
    by (rule send_begin_flies) blast
  then have "run_send (cl_jids k) (gate_limits (cl_gate k)) (cl_tx k) (StartSend (cl_fresh k) (cn_tenant c) (cn_id c) key
      \<lparr>ns_kind = ''self'', ns_device = fl_device f, ns_ref = sq_ref req, ns_text_ok = True\<rparr>) db = Inr db'" by simp
  with that show ?thesis by blast
next
  case (Answered r)
  with assms obtain c key req d body allowed where cq: "sending_connection k db = Inr (c, key)" "cl_body k = Some req"
      "check_send (cl_ids k) req = Some (d, body, allowed)"
    by (auto simp: send_begin_def split: sum.splits prod.splits option.splits)
  have "\<exists>f e. refuse_send (cl_refusal_tx k) (cl_refused k) c f e db = (r, db')"
  proof (rule ccontr)
    assume none: "\<not> ?thesis"
    have "db' = db"
      using assms(1) cq none Answered
      by (auto simp: send_begin_def Let_def apfst_def map_prod_def split: if_splits option.splits prod.splits sum.splits started.splits
          elim: start_send_elim)
    with assms(2) show False by simp
  qed
  then obtain f e where "refuse_send (cl_refusal_tx k) (cl_refused k) c f e db = (r, db')" by blast
  then show ?thesis by (rule refuse_send_step) (use assms(2) that Answered in blast)+
qed

section \<open>A year of steps\<close>

text \<open>Within the retention the janitor deletes nothing, so every row that ever entered is still there.\<close>

abbreviation row_steps :: "outbound_row \<Rightarrow> outbound_row \<Rightarrow> bool" where
  "row_steps \<equiv> row_step\<^sup>*\<^sup>*"

definition grows :: "timestamp \<Rightarrow> outbound_row list \<Rightarrow> outbound_row list \<Rightarrow> bool" where
  "grows since rs rs' \<longleftrightarrow> (\<exists>ms new. rs' = ms @ new \<and> list_all2 row_steps rs ms \<and> (\<forall>r\<in>set new. since \<le> ob_created r))"

definition young :: "timestamp \<Rightarrow> outbound_row list \<Rightarrow> bool" where
  "young since rs \<longleftrightarrow> (\<forall>r\<in>set rs. since \<le> ob_created r)"

lemma row_steps_keep:
  "row_steps r r' \<Longrightarrow> same_send r r' \<and> (ob_status r \<noteq> ''pending'' \<longrightarrow> ob_status r' \<noteq> ''pending'')"
proof (induction rule: rtranclp_induct)
  case (step p q)
  have "same_send p q" using step(2) by (rule row_step_same)
  moreover have "ob_status p \<noteq> ''pending'' \<longrightarrow> ob_status q \<noteq> ''pending''"
    using step(2) unfolding row_step_def by (elim disjE conjE) auto
  ultimately show ?case using step(3) by (simp add: same_send_def)
qed (simp add: same_send_def)

lemma moves_steps: "list_all2 row_step rs rs' \<Longrightarrow> list_all2 row_steps rs rs'"
  by (erule list_all2_mono) auto

lemma steps_trans: "list_all2 row_steps as bs \<Longrightarrow> list_all2 row_steps bs cs \<Longrightarrow> list_all2 row_steps as cs"
  by (rule list_all2_trans [of row_steps row_steps row_steps]) auto

lemma steps_refl: "list_all2 row_steps rs rs"
  by (simp add: list.rel_refl)

lemma young_steps: "list_all2 row_steps rs rs' \<Longrightarrow> young since rs \<Longrightarrow> young since rs'"
  by (induction rule: list_all2_induct) (auto simp: young_def same_send_def dest!: row_steps_keep)

lemma grows_young: "grows since rs rs' \<Longrightarrow> young since rs \<Longrightarrow> young since rs'"
  by (auto simp: grows_def dest!: young_steps) (auto simp: young_def)

lemma grows_steps: "list_all2 row_steps rs rs' \<Longrightarrow> grows since rs rs'"
  unfolding grows_def by (rule exI [of _ rs'], rule exI [of _ "[]"]) simp

lemma grows_enters: "since \<le> ob_created r \<Longrightarrow> grows since rs (rs @ [r])"
  unfolding grows_def by (rule exI [of _ rs], rule exI [of _ "[r]"]) (simp add: steps_refl)

lemma run_send_grows:
  assumes "run_send j l x op db = Inr db'" "ledger_valid (db_outbound db)" "timely since x" "young since (db_outbound db)"
  shows "grows since (db_outbound db) (db_outbound db')"
  using assms(1) valid_unique [OF assms(2)]
proof (cases rule: run_send_moves)
  case moved
  then show ?thesis by (intro grows_steps moves_steps)
next
  case (settled t rs1 rs2)
  from steps_trans [OF moves_steps [OF settled(2)] moves_steps [OF settled(3)]]
  have two: "list_all2 row_steps (db_outbound db) rs2" .
  have "young since rs2" using young_steps [OF two assms(4)] .
  with settled(4) assms(3) have "db_outbound db' = rs2" by (auto simp: young_def timely_def intro!: filter_True)
  with two show ?thesis by (simp add: grows_steps)
qed (use assms(3) in \<open>auto simp: timely_def clocks_ok_def draft_row_of_def refused_row_def send_row_of_def intro!: grows_enters\<close>)

text \<open>What left has its row, and the row no longer waits.\<close>

definition accounted :: "outbound_row list \<Rightarrow> flight \<Rightarrow> bool" where
  "accounted rs f \<longleftrightarrow> (\<exists>p\<in>set rs. ob_id p = fl_id f \<and> ob_status p \<noteq> ''pending''
     \<and> (\<not> fl_draft f \<longrightarrow> ob_connection p = fl_connection f \<and> ob_ref p = fl_ref f \<and> fl_ref f \<noteq> None))"

definition gate_inv :: "timestamp \<Rightarrow> world \<Rightarrow> bool" where
  "gate_inv since w \<longleftrightarrow> ledger_valid (db_outbound (wd_db w)) \<and> young since (db_outbound (wd_db w))
     \<and> distinct (map fl_id (wd_left w)) \<and> (\<forall>f\<in>set (wd_left w). accounted (db_outbound (wd_db w)) f)"

lemma accounted_grows: "grows since rs rs' \<Longrightarrow> accounted rs f \<Longrightarrow> accounted rs' f"
proof -
  assume g: "grows since rs rs'" and a: "accounted rs f"
  from g obtain ms new where ms: "rs' = ms @ new" "list_all2 row_steps rs ms" by (auto simp: grows_def)
  from a obtain p where p: "p \<in> set rs" "ob_id p = fl_id f" "ob_status p \<noteq> ''pending''"
      "\<not> fl_draft f \<longrightarrow> ob_connection p = fl_connection f \<and> ob_ref p = fl_ref f \<and> fl_ref f \<noteq> None"
    by (auto simp: accounted_def)
  from ms(2) p(1) obtain q where q: "q \<in> set ms" "row_steps p q"
    by (metis in_set_conv_nth list_all2_lengthD list_all2_nthD2 list_all2_nthD)
  from row_steps_keep [OF q(2)] p q(1) ms(1) show ?thesis
    unfolding accounted_def by (intro bexI [of _ q]) (auto simp: same_send_def)
qed

lemma gate_inv_step:
  assumes "gate_inv since w" "timely since x" "run_send j l x op (wd_db w) = Inr db"
  shows "gate_inv since (w\<lparr>wd_db := db\<rparr>)" "grows since (db_outbound (wd_db w)) (db_outbound db)"
proof -
  show g: "grows since (db_outbound (wd_db w)) (db_outbound db)"
    using assms by (intro run_send_grows [OF assms(3)]) (auto simp: gate_inv_def)
  have "ledger_valid (db_outbound db)" using assms by (intro run_send_valid [OF assms(3)]) (auto simp: gate_inv_def)
  then show "gate_inv since (w\<lparr>wd_db := db\<rparr>)"
    using assms(1) g by (auto simp: gate_inv_def intro: grows_young accounted_grows)
qed

lemma gate_inv_takes_off:
  assumes "gate_inv since w" "timely since x" "run_send j l x op (wd_db w) = Inr db"
    and "fl_id f \<notin> fl_id ` set (wd_left w)" "accounted (db_outbound db) f"
  shows "gate_inv since (takes_off f db w)"
  using gate_inv_step [OF assms(1-3)] assms(4,5) by (auto simp: gate_inv_def takes_off_def)

lemma flies_facts:
  assumes "send_begin k db = (Flying f, db')" "ledger_valid (db_outbound db)"
  obtains j l op where "run_send j l (cl_tx k) op db = Inr db'" "accounted (db_outbound db') f"
    "\<forall>p\<in>set (db_outbound db). ob_id p \<noteq> fl_id f"
proof -
  from assms(1) obtain c :: connection_row and key and req :: send_request where c:
      "fl_connection f = cn_id c" "fl_ref f = Some (sq_ref req)" "\<not> fl_draft f" and start:
      "start_send (cl_jids k) (cl_tx k) (cl_fresh k) (cn_tenant c) (cn_id c) key
        \<lparr>ns_kind = ''self'', ns_device = fl_device f, ns_ref = sq_ref req, ns_text_ok = True\<rparr> (gate_limits (cl_gate k)) db
        = Inr (Started (fl_id f) (fl_chat f), db')"
    by (rule send_begin_flies) blast
  let ?q = "\<lparr>ns_kind = ''self'', ns_device = fl_device f, ns_ref = sq_ref req, ns_text_ok = True\<rparr>"
  from start have ins: "insert_outbound (send_row_of (sx_clock (cl_tx k)) (fl_id f) (cn_tenant c) (cn_id c) (fl_chat f) ?q) db = Inr db'"
    by (rule start_send_elim) auto
  from start have "run_send (cl_jids k) (gate_limits (cl_gate k)) (cl_tx k) (StartSend (cl_fresh k) (cn_tenant c) (cn_id c) key ?q) db
      = Inr db'" by simp
  moreover have "accounted (db_outbound db') f" using ins c by (auto simp: accounted_def send_row_of_def)
  moreover have "\<forall>p\<in>set (db_outbound db). ob_id p \<noteq> fl_id f" using ins by (auto simp: list_ex_iff send_row_of_def)
  ultimately show ?thesis by (rule that)
qed

lemma confirmed_facts:
  assumes "confirm_begin u x may_send person ledger_on resolved options_error q db = Inr (f, db')" "ledger_valid (db_outbound db)"
  obtains j l op where "run_send j l x op db = Inr db'" "accounted (db_outbound db') f"
    "\<forall>p\<in>set (db_outbound db). ob_id p = fl_id f \<longrightarrow> ob_status p = ''pending''"
proof -
  from assms(1) obtain t who d c where claim: "claim_draft x may_send t who (fl_id f) d (cf_chat q) db = Inr (c, db')" and draft: "fl_draft f"
    by (auto simp: confirm_begin_def split: option.splits sum.splits if_splits)
  from claim obtain r where r: "draft_for t db (fl_id f) = Some r" "ob_status (fst r) = ''pending''" and
      upd: "update_outbound t (\<lambda>p. ob_id p = fl_id f) (\<lambda>p. p\<lparr>ob_status := ''sending'', ob_sealed := None,
        ob_decider := Some who, ob_decided := Some (sx_now x)\<rparr>) db = Inr db'"
    by (rule claim_draft_elim) auto
  from r(1) obtain cc where cc: "draft_for t db (fl_id f) = Some (fst r, cc)" by (cases r) auto
  note found = draft_for_Some [OF cc]
  have "run_send undefined undefined x (ClaimDraft may_send t who (fl_id f) d (cf_chat q)) db = Inr db'" using claim by simp
  moreover have "accounted (db_outbound db') f"
  proof -
    let ?q = "(fst r)\<lparr>ob_status := ''sending'', ob_sealed := None, ob_decider := Some who, ob_decided := Some (sx_now x)\<rparr>"
    have "?q \<in> set (db_outbound db')" using upd found by (auto simp: update_outbound_Inr intro!: image_eqI [of _ _ "fst r"])
    moreover have "ob_id ?q = fl_id f" "ob_status ?q \<noteq> ''pending''" using found by simp_all
    ultimately show ?thesis using draft unfolding accounted_def by blast
  qed
  moreover have "\<forall>p\<in>set (db_outbound db). ob_id p = fl_id f \<longrightarrow> ob_status p = ''pending''"
    using found r(2) unique_id [OF valid_unique [OF assms(2)]] by metis
  ultimately show ?thesis by (rule that)
qed

lemma send_end_step:
  assumes "send_end now f result db = (r, db')"
  shows "db' = db \<or> (\<exists>op. \<forall>j l x. run_send j l x op db = Inr db')"
proof -
  from assms obtain e where e: "db' = finish_gate_send (fl_tenant f) (fl_id f) e db" "so_status e \<in> {''sent'', ''uncertain'', ''refused''}"
    by (cases result) (auto simp: send_end_def Let_def split: prod.splits)
  then have "db' = db \<or> (\<forall>j l x. run_send j l x (FinishSend (fl_tenant f) (fl_id f) e) db = Inr db')"
    by (auto simp: finish_gate_send_def split: sum.splits)
  then show ?thesis by blast
qed

lemma confirm_end_step:
  assumes "confirm_end now f result db = (r, db')"
  shows "db' = db \<or> (\<exists>op. \<forall>j l x. run_send j l x op db = Inr db')"
proof -
  from assms obtain e where e: "db' = finish_gate_draft (fl_tenant f) (fl_id f) e db" "do_status e \<in> {''sent'', ''uncertain''}"
    by (cases result) (auto simp: confirm_end_def Let_def)
  then have "db' = db \<or> (\<forall>j l x. run_send j l x (FinishDraft (fl_tenant f) (fl_id f) e) db = Inr db')"
    by (auto simp: finish_gate_draft_def split: sum.splits)
  then show ?thesis by blast
qed

lemma gate_step_inv:
  assumes "gate_step since w w'" "gate_inv since w"
  shows "gate_inv since w'"
proof -
  have valid: "ledger_valid (db_outbound (wd_db w))" using assms(2) by (simp add: gate_inv_def)
  have same: "w\<lparr>wd_db := wd_db w\<rparr> = w" by simp
  have step: "gate_inv since (w\<lparr>wd_db := db\<rparr>)" if "timely since x" "run_send j l x op (wd_db w) = Inr db" for j l x op db
    using gate_inv_step(1) [OF assms(2) that] .
  have new: "fl_id f \<notin> fl_id ` set (wd_left w)"
    if "\<And>p. p \<in> set (db_outbound (wd_db w)) \<Longrightarrow> ob_id p = fl_id f \<Longrightarrow> ob_status p = ''pending''" for f
    using that assms(2) by (fastforce simp: gate_inv_def accounted_def)
  have flying: "gate_inv since (w'\<lparr>wd_flying := fs\<rparr>) = gate_inv since w'" for fs w' by (simp add: gate_inv_def)
  have finish: "gate_inv since (w\<lparr>wd_db := db\<rparr>)"
    if db: "db = wd_db w \<or> (\<exists>op. \<forall>j l x. run_send j l x op (wd_db w) = Inr db)" for db
  proof (cases "db = wd_db w")
    case True
    then show ?thesis using assms(2) same by simp
  next
    case False
    then obtain op where op: "\<And>j l x. run_send j l x op (wd_db w) = Inr db" using db by blast
    have "timely since \<lparr>sx_now = since, sx_wall = since, sx_check = since, sx_clock = since\<rparr>"
      by (simp add: timely_def clocks_ok_def retention_def)
    from step [OF this op] show ?thesis .
  qed
  from assms(1) show ?thesis
  proof (cases rule: gate_step.cases)
    case (drafted k r db)
    show ?thesis
    proof (cases "db = wd_db w")
      case False
      from enclave_draft_step [OF drafted(4) this] step drafted show ?thesis by metis
    qed (use drafted assms(2) same in simp)
  next
    case (answered k r db)
    show ?thesis
    proof (cases "db = wd_db w")
      case False
      from send_begin_step [OF answered(4) this] step answered show ?thesis by metis
    qed (use answered assms(2) same in simp)
  next
    case (flies k f db)
    from flies_facts [OF flies(3) valid] obtain j l op where
      "run_send j l (cl_tx k) op (wd_db w) = Inr db" "accounted (db_outbound db) f" "\<forall>p\<in>set (db_outbound (wd_db w)). ob_id p \<noteq> fl_id f" .
    with gate_inv_takes_off [OF assms(2) flies(2)] new flies(1) show ?thesis by metis
  next
    case (lands f result now r db)
    then show ?thesis using finish [OF send_end_step] by (simp add: flying)
  next
    case (confirmed x u m p lo res oe q f db)
    from confirmed_facts [OF confirmed(3) valid] obtain j l op where
      "run_send j l x op (wd_db w) = Inr db" "accounted (db_outbound db) f"
      "\<forall>p\<in>set (db_outbound (wd_db w)). ob_id p = fl_id f \<longrightarrow> ob_status p = ''pending''" .
    with gate_inv_takes_off [OF assms(2) confirmed(2)] new confirmed(1) show ?thesis by metis
  next
    case (confirmed_lands f now result e db)
    then show ?thesis using finish [OF confirm_end_step] by (simp add: flying)
  next
    case (refused n r db)
    show ?thesis
    proof (cases "db = wd_db w")
      case False
      from enclave_refusal_step [OF refused(3) this] step refused show ?thesis by metis
    qed (use refused assms(2) same in simp)
  next
    case (other x j l op db)
    then show ?thesis using step by metis
  next
    case ends
    then show ?thesis using assms(2) by (simp add: flying)
  qed
qed

lemma gate_run_inv: "gate_run since w w' \<Longrightarrow> gate_inv since w \<Longrightarrow> gate_inv since w'"
  by (induction rule: gate_run.induct) (auto intro: gate_step_inv)

text \<open>Two texts under one reference would be two rows with one reference.\<close>

lemma references_apart:
  assumes "gate_inv since w"
  shows "distinct (map (\<lambda>f. (fl_connection f, fl_ref f)) (filter (\<lambda>f. \<not> fl_draft f) (wd_left w)))"
proof -
  let ?O = "db_outbound (wd_db w)"
  have refs: "inj_on (\<lambda>r. (ob_connection r, ob_ref r)) (set (filter (\<lambda>r. ob_ref r \<noteq> None) ?O))"
    using assms by (simp add: gate_inv_def ledger_valid_def refs_unique_def distinct_map)
  have left: "inj_on fl_id (set (wd_left w))" "distinct (wd_left w)" using assms by (auto simp: gate_inv_def distinct_map)
  have "f = g" if fg: "f \<in> set (wd_left w)" "g \<in> set (wd_left w)" "\<not> fl_draft f" "\<not> fl_draft g"
      "fl_connection f = fl_connection g" "fl_ref f = fl_ref g" for f g
  proof -
    from assms fg have "accounted ?O f" "accounted ?O g" by (auto simp: gate_inv_def)
    with fg obtain p q where pq: "p \<in> set ?O" "q \<in> set ?O" "ob_id p = fl_id f" "ob_id q = fl_id g" "ob_ref p \<noteq> None"
        "(ob_connection p, ob_ref p) = (ob_connection q, ob_ref q)"
      unfolding accounted_def by fastforce
    then have "p = q" by (intro inj_onD [OF refs]) auto
    with pq have "fl_id f = fl_id g" by simp
    with left(1) fg(1,2) show ?thesis by (auto dest: inj_onD)
  qed
  then show ?thesis using left(2) by (auto simp: distinct_map inj_on_def)
qed

section \<open>Cursors\<close>

lemma b64_char_digit: "0 \<le> d \<Longrightarrow> d < 64 \<Longrightarrow> b64_digit (b64_char d) = Some d \<and> b64_char d \<noteq> CHR 0x0A \<and> b64_char d \<noteq> CHR 0x0D"
proof -
  assume d: "0 \<le> d" "d < 64"
  let ?v = "if d < 26 then d + 65 else if d < 52 then d + 71 else if d < 62 then d - 4 else if d = 62 then 45 else 95"
  have v: "code_of (b64_char d) = ?v" unfolding b64_char_def by (rule code_of_code) (use d in auto)
  have "code_of (CHR 0x0A) = 10" "code_of (CHR 0x0D) = 13" by (simp_all add: code_of_def)
  then have "b64_char d \<noteq> CHR 0x0A \<and> b64_char d \<noteq> CHR 0x0D" using v d by (auto split: if_splits)
  moreover have "b64_digit (b64_char d) = Some d" unfolding b64_digit_def v Let_def using d by simp
  ultimately show ?thesis by simp
qed

fun b64_ints :: "string \<Rightarrow> int list" where
  "b64_ints (x # y # z # s) = (let a = code_of x; b = code_of y; c = code_of z in
     [a div 4, a mod 4 * 16 + b div 16, b mod 16 * 4 + c div 64, c mod 64] @ b64_ints s)"
| "b64_ints [x, y] = (let a = code_of x; b = code_of y in [a div 4, a mod 4 * 16 + b div 16, b mod 16 * 4])"
| "b64_ints [x] = (let a = code_of x in [a div 4, a mod 4 * 16])"
| "b64_ints [] = []"

lemma b64_encode_ints: "b64_encode s = map b64_char (b64_ints s)"
  by (induction s rule: b64_ints.induct) (simp_all add: Let_def)

lemma code_range: "0 \<le> code_of c" "code_of c < 256"
proof -
  have "code_of c = code_of c mod 256" by (simp add: code_of_def)
  then show "0 \<le> code_of c" "code_of c < 256" by (metis pos_mod_bound pos_mod_sign zero_less_numeral)+
qed

lemma code_parts:
  "0 \<le> code_of x div 4" "code_of x div 4 < 64" "0 \<le> code_of x div 16" "code_of x div 16 < 16"
  "0 \<le> code_of x div 64" "code_of x div 64 < 4"
proof -
  have "code_of x div 4 \<le> 255 div 4" "code_of x div 16 \<le> 255 div 16" "code_of x div 64 \<le> 255 div 64"
    using code_range [of x] by (intro zdiv_mono1; simp)+
  then show "0 \<le> code_of x div 4" "code_of x div 4 < 64" "0 \<le> code_of x div 16" "code_of x div 16 < 16"
    "0 \<le> code_of x div 64" "code_of x div 64 < 4" using code_range [of x] by (simp_all add: pos_imp_zdiv_nonneg_iff)
qed

lemma mod_parts: "0 \<le> (a :: int) mod 4" "a mod 4 < 4" "0 \<le> a mod 16" "a mod 16 < 16" "0 \<le> a mod 64" "a mod 64 < 64"
  by simp_all

lemma digit_ranges:
  "0 \<le> code_of x mod 4 * 16 + code_of y div 16" "code_of x mod 4 * 16 + code_of y div 16 < 64"
  "0 \<le> code_of x mod 16 * 4 + code_of y div 64" "code_of x mod 16 * 4 + code_of y div 64 < 64"
  "0 \<le> code_of x mod 4 * 16" "code_of x mod 4 * 16 < 64" "0 \<le> code_of x mod 16 * 4" "code_of x mod 16 * 4 < 64"
  using code_parts [of y] mod_parts [of "code_of x"] by linarith+

lemma b64_ints_range: "d \<in> set (b64_ints s) \<Longrightarrow> 0 \<le> d \<and> d < 64"
  by (induction s rule: b64_ints.induct) (auto simp: Let_def digit_ranges code_parts)

lemma b64_digits_chars: "(\<And>d. d \<in> set ds \<Longrightarrow> 0 \<le> d \<and> d < 64) \<Longrightarrow> b64_digits (map b64_char ds) = Some ds"
  by (induction ds) (simp_all add: b64_char_digit)

lemma join16: "0 \<le> k \<Longrightarrow> k < 16 \<Longrightarrow> (x * 16 + k) div 16 = (x :: int) \<and> (x * 16 + k) mod 16 = k"
  by (simp add: div_pos_pos_trivial mod_pos_pos_trivial)

lemma join4: "0 \<le> k \<Longrightarrow> k < 4 \<Longrightarrow> (x * 4 + k) div 4 = (x :: int) \<and> (x * 4 + k) mod 4 = k"
  by (simp add: div_pos_pos_trivial mod_pos_pos_trivial)

lemma regroup:
  "code_of x div 4 * 4 + (code_of x mod 4 * 16 + code_of y div 16) div 16 = code_of x"
  "(code_of x mod 4 * 16 + code_of y div 16) mod 16 * 16 + (code_of y mod 16 * 4 + code_of z div 64) div 4 = code_of y"
  "(code_of y mod 16 * 4 + code_of z div 64) mod 4 * 64 + code_of z mod 64 = code_of z"
  "code_of x div 4 * 4 + code_of x mod 4 * 16 div 16 = code_of x" "code_of x mod 4 * 16 mod 16 = 0"
  "(code_of x mod 4 * 16 + code_of y div 16) mod 16 * 16 + code_of y mod 16 * 4 div 4 = code_of y" "code_of y mod 16 * 4 mod 4 = 0"
  using join16 [OF code_parts(3,4) [of y], of "code_of x mod 4"] join4 [OF code_parts(5,6) [of z], of "code_of y mod 16"] by simp_all

lemma b64_bytes_ints: "b64_bytes (b64_ints s) = Some s"
proof (induction s rule: b64_ints.induct)
  case (1 x y z s)
  then show ?case unfolding b64_ints.simps Let_def append.simps b64_bytes.simps regroup by (simp add: of_code_of)
next
  case (2 x y)
  then show ?case unfolding b64_ints.simps Let_def b64_bytes.simps regroup by (simp add: of_code_of)
next
  case (3 x)
  then show ?case unfolding b64_ints.simps Let_def b64_bytes.simps regroup by (simp add: of_code_of)
qed simp

lemma b64_round_trip: "b64_decode (b64_encode s) = Some s"
  by (simp add: b64_decode_def b64_encode_ints b64_digits_chars b64_ints_range b64_bytes_ints)

lemma be_length [simp]: "length (be_bytes n v) = n"
  by (induction n arbitrary: v) simp_all

lemma be_value_append: "be_value (s @ [c]) = be_value s * 256 + code_of c"
  by (simp add: be_value_def)

lemma be_round_trip: "0 \<le> v \<Longrightarrow> v < 256 ^ n \<Longrightarrow> be_value (be_bytes n v) = v"
proof (induction n arbitrary: v)
  case (Suc n)
  have "v div 256 < 256 ^ n" using Suc.prems by (simp add: div_less_iff_less_mult mult.commute)
  with Suc have "be_value (be_bytes n (v div 256)) = v div 256" by (simp add: pos_imp_zdiv_nonneg_iff)
  then show ?case by (simp add: be_value_append code_of_code)
qed (simp add: be_value_def)

text \<open>A moment the ledger stores: whole microseconds after 1970, in the range of an int64 of them.\<close>

definition stored_moment :: "timestamp \<Rightarrow> bool" where
  "stored_moment at \<longleftrightarrow> (at - unix_epoch) mod 1000 = 0 \<and> 0 < (at - unix_epoch) div 1000 \<and> (at - unix_epoch) div 1000 < 2 ^ 63"

lemma cursor_round_trip:
  assumes "stored_moment at" "i < 2 ^ 128"
  shows "decode_cursor (encode_cursor (at, i)) = Some (at, i)"
proof -
  let ?m = "(at - unix_epoch) div 1000"
  have m: "0 < ?m" "?m < 2 ^ 63" "?m * 1000 = at - unix_epoch" using assms(1) by (auto simp: stored_moment_def)
  have "?m mod 2 ^ 64 = ?m" using m(1,2) by (simp add: mod_pos_pos_trivial)
  moreover have "be_value (be_bytes 8 ?m) = ?m" by (rule be_round_trip) (use m in simp_all)
  moreover have "be_value (be_bytes 16 (int i)) = int i"
  proof (rule be_round_trip)
    have "int i < int (2 ^ 128)" using assms(2) by (simp only: of_nat_less_iff)
    then show "int i < 256 ^ 16" by simp
  qed simp
  moreover have "unix_epoch + ?m * 1000 = at" using m(3) by simp
  ultimately show ?thesis using m(1,2) by (simp add: encode_cursor_def decode_cursor_def b64_round_trip Let_def)
qed

section \<open>A checked draft fits the table\<close>

text \<open>What the table counts as characters are the runes of a valid text.\<close>

lemma rune_at_counts:
  assumes "rune_at s = Some (r, n)"
  shows "length (filter (\<lambda>c. of_char c div 64 \<noteq> (2 :: int)) (take n s)) = 1"
proof -
  have low: "0 \<le> (of_char c :: int)" for c using code_range [of c] by (simp add: code_of_def)
  have tail: "(of_char c :: int) div 64 = 2" if "continues lo hi c" "128 \<le> lo" "hi \<le> 191" for c lo hi
  proof -
    have "128 \<le> (of_char c :: int)" "(of_char c :: int) < 192" using that by (simp_all add: continues_def code_of_def)
    then show ?thesis by presburger
  qed
  have head: "(of_char c :: int) div 64 \<noteq> 2" if "code_of c < 128 \<or> 194 \<le> code_of c" for c
    using that unfolding code_of_def by presburger
  show ?thesis
    using assms by (auto simp: rune_at_def Let_def tail head split: list.splits if_splits)
qed

lemma characters_runes: "utf8_valid s \<Longrightarrow> characters s = int (length (runes s))"
proof (induction s rule: utf8_valid.induct)
  case (2 c cs)
  from 2(2) obtain r n where rn: "rune_at (c # cs) = Some (r, n)" by (auto split: option.splits)
  with 2 have rest: "characters (drop n (c # cs)) = int (length (runes (drop n (c # cs))))" by simp
  have "characters (c # cs) = characters (take n (c # cs)) + characters (drop n (c # cs))"
    unfolding characters_def by (subst append_take_drop_id [of n "c # cs", symmetric]) (simp only: filter_append length_append of_nat_add)
  with rest rn rune_at_counts [OF rn] show ?case by (simp add: characters_def)
qed (simp add: characters_def)

lemma check_draft_fits:
  assumes "check_draft u req = Some q"
  shows "row_ok (draft_row_of now t i q)"
proof -
  have "valid_chat_key (nd_chat q)" "1 \<le> nd_epoch q" "nd_epoch q \<le> 65535" "length (nd_sealed q) \<le> draft_sealed_max"
    using assms by (auto simp: check_draft_def split: option.splits if_splits)
  moreover from this(1) have "characters (nd_chat q) \<le> 128" "nd_chat q \<noteq> ''''"
    by (auto simp: valid_chat_key_def chat_key_max_def characters_runes)
  ultimately show ?thesis
    by (simp add: row_ok_def draft_row_of_def outbound_statuses_def draft_sealed_max_def characters_def)
qed

section \<open>Pages\<close>

text \<open>The ledger by time and id, and what a page leaves for the next one.\<close>

definition later :: "outbound_row \<Rightarrow> outbound_row \<Rightarrow> bool" where
  "later r p \<longleftrightarrow> ob_created p < ob_created r \<or> ob_created p = ob_created r \<and> ob_id p < ob_id r"

lemma sorted_wrt_lexicographic:
  assumes "\<And>c. sorted_wrt Q (filter (\<lambda>x. f x = c) zs)" "sorted (map f zs)"
  shows "sorted_wrt (\<lambda>x y. f x < f y \<or> f x = f y \<and> Q x y) zs"
  using assms
proof (induction zs)
  case (Cons z zs)
  have "sorted_wrt Q (filter (\<lambda>x. f x = c) zs)" for c
    using Cons.prems(1) [of c] by (auto split: if_splits)
  moreover have "f z < f y \<or> f z = f y \<and> Q z y" if "y \<in> set zs" for y
    using Cons.prems(1) [of "f z"] Cons.prems(2) that by (cases "f z = f y") (auto simp: le_less)
  ultimately show ?case using Cons.IH Cons.prems(2) by simp
qed simp

lemma by_time_sorted: "sorted_wrt (\<lambda>x y. ob_created x < ob_created y \<or> ob_created x = ob_created y \<and> ob_id x \<le> ob_id y) (by_time rs)"
  unfolding by_time_def
proof (rule sorted_wrt_lexicographic)
  fix c
  have "sorted_wrt (\<lambda>x y. ob_id x \<le> ob_id y) (filter (\<lambda>x. ob_created x = c) (sort_key ob_id rs))"
    by (rule sorted_wrt_filter) (metis sorted_map sorted_sort_key)
  then show "sorted_wrt (\<lambda>x y. ob_id x \<le> ob_id y) (filter (\<lambda>x. ob_created x = c) (sort_key ob_created (sort_key ob_id rs)))"
    by (simp only: sort_key_stable)
qed simp

lemma by_time_set: "set (by_time rs) = set rs"
  by (simp add: by_time_def)

lemma by_time_filter: "filter P (by_time rs) = by_time (filter P rs)"
  by (simp add: by_time_def filter_sort)

definition newest_first :: "outbound_row list \<Rightarrow> outbound_row list" where
  "newest_first rs = rev (by_time rs)"

lemma newest_first_filter: "newest_first (filter P rs) = filter P (newest_first rs)"
  by (simp add: newest_first_def by_time_filter [symmetric] rev_filter)

lemma newest_first_sorted:
  assumes "distinct (map ob_id rs)"
  shows "sorted_wrt later (newest_first rs)"
proof -
  have "distinct (map ob_id (by_time rs))"
    using assms unfolding by_time_def by (metis distinct_map distinct_sort mset_sort set_sort mset_map mset_eq_imp_distinct_iff)
  then have "sorted_wrt (\<lambda>x y. ob_id x \<noteq> ob_id y) (by_time rs)" by (simp add: distinct_map sorted_wrt_iff_nth_less distinct_conv_nth inj_on_def)
  with by_time_sorted [of rs] have "sorted_wrt (\<lambda>x y. later y x) (by_time rs)"
    unfolding sorted_wrt_iff_nth_less later_def by (metis nat_less_le)
  then show ?thesis by (simp add: newest_first_def sorted_wrt_rev)
qed

lemma after_page:
  assumes "sorted_wrt later xs" "n < length xs" "0 < n"
  shows "filter (later (xs ! (n - 1))) xs = drop n xs"
proof -
  have "xs = take n xs @ drop n xs" by simp
  moreover have "filter (later (xs ! (n - 1))) (take n xs) = []"
  proof -
    have "\<not> later (xs ! (n - 1)) (xs ! m)" if "m < n" for m
    proof (cases "m = n - 1")
      case True
      then show ?thesis by (simp add: later_def)
    next
      case False
      with that assms have "later (xs ! m) (xs ! (n - 1))" by (auto simp: sorted_wrt_iff_nth_less)
      then show ?thesis by (auto simp: later_def)
    qed
    then show ?thesis using assms(2) by (auto simp: filter_empty_conv in_set_conv_nth)
  qed
  moreover have "filter (later (xs ! (n - 1))) (drop n xs) = drop n xs"
    using assms by (auto simp: sorted_wrt_iff_nth_less in_set_conv_nth intro!: filter_True)
  ultimately show ?thesis by (metis append_Nil filter_append)
qed

text \<open>A reader that follows the cursors.\<close>

fun read_all :: "nat \<Rightarrow> query_values call \<Rightarrow> query_values \<Rightarrow> string option \<Rightarrow> db \<Rightarrow> outbound_item list option" where
  "read_all 0 k vs s db = None"
| "read_all (Suc n) k vs s db =
     (case enclave_outbound (k\<lparr>cl_body := Some (vs @ (case s of None \<Rightarrow> [] | Some c \<Rightarrow> [(''before'', [c])]))\<rparr>) db of
        PageItems items None \<Rightarrow> Some items
      | PageItems items (Some c) \<Rightarrow> map_option ((@) items) (read_all n k vs (Some c) db)
      | _ \<Rightarrow> None)"

lemma b64_length: "length s = 3 * n \<Longrightarrow> length (b64_encode s) = 4 * n"
proof (induction n arbitrary: s)
  case (Suc n)
  then obtain x y z s' where "s = x # y # z # s'" "length s' = 3 * n" by (auto simp: length_Suc_conv eval_nat_numeral)
  with Suc.IH show ?case by (simp add: Let_def)
qed simp

lemma cursor_length: "length (encode_cursor r) = 32"
  by (simp add: encode_cursor_def b64_length [of _ 8])

lemma first_value_append:
  "name \<noteq> ''before'' \<Longrightarrow> first_value (vs @ [(''before'', [s])]) name = first_value vs name"
  "''before'' \<notin> fst ` set vs \<Longrightarrow> first_value (vs @ [(''before'', [s])]) ''before'' = Some s"
  by (auto simp: first_value_def map_add_def map_of_eq_None_iff [symmetric] split: option.splits)

lemma query_parts:
  "query_of u narrow (Some vs) = Some q \<longleftrightarrow> list_all (known_parameter narrow) vs \<and> limit_value vs = Some (oq_limit q)
     \<and> before_value vs = Some (oq_before q) \<and> status_value vs = Some (oq_status q) \<and> device_value u vs = Some (oq_device q)"
  by (auto simp: query_of_def split: option.splits)

lemma query_before:
  assumes "query_of u narrow (Some vs) = Some q" "''before'' \<notin> fst ` set vs" "decode_cursor s = Some k" "length s \<le> 64"
  shows "query_of u narrow (Some (vs @ [(''before'', [s])])) = Some (q\<lparr>oq_before := Some k\<rparr>)"
proof -
  let ?vs = "vs @ [(''before'', [s])]"
  have "before_value ?vs = Some (Some k)" using assms(2-4) by (simp add: before_value_def first_value_append)
  moreover have "limit_value ?vs = limit_value vs" "status_value ?vs = status_value vs" "device_value u ?vs = device_value u vs"
    by (simp_all add: limit_value_def status_value_def device_value_def first_value_append)
  ultimately show ?thesis using assms(1) by (simp add: query_parts known_parameter_def)
qed

lemma query_no_before: "query_of u narrow (Some vs) = Some q \<Longrightarrow> ''before'' \<notin> fst ` set vs \<Longrightarrow> oq_before q = None"
  by (auto simp: query_parts before_value_def first_value_def map_of_eq_None_iff [symmetric])

lemma query_limit: "query_of u narrow (Some vs) = Some q \<Longrightarrow> 1 \<le> oq_limit q \<and> oq_limit q \<le> max_outbound_page
    \<and> (oq_status q = '''' \<or> oq_status q \<in> set outbound_statuses)"
proof -
  assume q: "query_of u narrow (Some vs) = Some q"
  then have "1 \<le> oq_limit q \<and> oq_limit q \<le> max_outbound_page"
    by (auto simp: query_parts limit_value_def outbound_page_default_def max_outbound_page_def split: option.splits if_splits)
  moreover have "oq_status q = '''' \<or> oq_status q \<in> set outbound_statuses"
    using q by (auto simp: query_parts status_value_def split: option.splits if_splits)
  ultimately show ?thesis by simp
qed

lemma listed_before:
  assumes "r \<in> set (listed at t i q db)"
  shows "listed at t i (q\<lparr>oq_before := Some (ob_created r, ob_id r)\<rparr>) db = filter (later r) (listed at t i q db)"
  using assms by (auto simp: listed_def later_def intro!: filter_cong split: option.splits)

lemma page_of:
  fixes at t i db
  assumes "query_of u narrow (Some vs) = Some q'" "oq_limit q = oq_limit q'" "oq_status q = oq_status q'"
  defines "all \<equiv> newest_first (listed at t i q db)" and "n \<equiv> nat (oq_limit q)"
  shows "list_outbound at t i q db = Inr (map (read_row at) (take n all), n < length all)"
proof -
  have n: "nat (oq_limit q + 1) = Suc n" "1 \<le> oq_limit q" "oq_limit q \<le> max_outbound_page"
    "\<not> (oq_status q \<noteq> '''' \<and> oq_status q \<notin> set outbound_statuses)"
    using query_limit [OF assms(1)] assms(2,3) by (auto simp: n_def)
  have "oq_limit q < int (length (take (Suc n) (map (read_row at) all))) \<longleftrightarrow> n < length all"
    using n(2) by (auto simp: n_def)
  with n show ?thesis unfolding list_outbound_def
    by (auto simp: newest_first_def all_def Let_def take_map n_def [symmetric])
qed

lemma read_row_key: "ob_created (read_row at r) = ob_created r" "ob_id (read_row at r) = ob_id r"
  by (simp_all add: read_row_def)

lemma same_connection: "sending_connection (k\<lparr>cl_body := b\<rparr>) db = sending_connection k db"
  by (cases k) (simp add: sending_connection_def cong: option.case_cong sum.case_cong if_cong)

lemma reads_all:
  assumes c: "sending_connection k db = Inr (c, key)" and q: "query_of (cl_ids k) True (Some vs) = Some q"
    and b: "''before'' \<notin> fst ` set vs" and ledger: "ids_unique (db_outbound db)"
    and stored: "\<And>r. r \<in> set (db_outbound db) \<Longrightarrow> stored_moment (ob_created r) \<and> ob_id r < 2 ^ 128"
    and token: "s = map_option encode_cursor k'"
    and decodes: "\<And>j. k' = Some j \<Longrightarrow> decode_cursor (encode_cursor j) = Some j"
  defines "at \<equiv> sx_now (cl_tx k)" and "q' \<equiv> q\<lparr>oq_before := k'\<rparr>"
  assumes fuel: "length (listed at (cn_tenant c) (cn_id c) q' db) < n"
  shows "read_all n k vs s db = Some (map (item_of \<circ> read_row at) (newest_first (listed at (cn_tenant c) (cn_id c) q' db)))"
  using token decodes fuel unfolding q'_def
proof (induction n arbitrary: s k')
  case (Suc n)
  let ?q = "q\<lparr>oq_before := k'\<rparr>"
  let ?all = "newest_first (listed at (cn_tenant c) (cn_id c) ?q db)"
  let ?m = "nat (oq_limit q)"
  let ?vs = "vs @ (case s of None \<Rightarrow> [] | Some c \<Rightarrow> [(''before'', [c])])"
  have plain: "q\<lparr>oq_before := None\<rparr> = q" using query_no_before [OF q b] by simp
  have query: "query_of (cl_ids k) True (Some ?vs) = Some ?q"
    using Suc.prems(1,2) q b plain query_before [OF q b] cursor_length by (cases k') (simp_all del: length_0_conv)
  have page: "enclave_outbound (k\<lparr>cl_body := Some ?vs\<rparr>) db = PageItems (map item_of (map (read_row at) (take ?m ?all)))
      (next_cursor (map (read_row at) (take ?m ?all)) (?m < length ?all))"
    using c query page_of [OF q, of ?q at "cn_tenant c" "cn_id c" db]
    by (simp add: enclave_outbound_def same_connection at_def)
  show ?case
  proof (cases "?m < length ?all")
    case False
    then show ?thesis using page by (simp add: next_cursor_def)
  next
    case True
    have m: "0 < ?m" using query_limit [OF q] by simp
    let ?r = "?all ! (?m - 1)"
    have set_all: "set ?all \<subseteq> set (listed at (cn_tenant c) (cn_id c) ?q db)" by (simp add: newest_first_def by_time_set)
    have "?r \<in> set ?all" using True m by (intro nth_mem) simp
    with set_all have r: "?r \<in> set (listed at (cn_tenant c) (cn_id c) ?q db)" by blast
    then have in_ledger: "?r \<in> set (db_outbound db)" by (simp add: listed_def ledger_def)
    let ?j = "(ob_created ?r, ob_id ?r)"
    have last: "last (map (read_row at) (take ?m ?all)) = read_row at ?r"
    proof -
      have "length (take ?m ?all) = ?m" "take ?m ?all \<noteq> []" using True m by auto
      then show ?thesis using m by (simp add: last_map last_conv_nth)
    qed
    have next_token: "next_cursor (map (read_row at) (take ?m ?all)) True = Some (encode_cursor ?j)"
      by (simp add: next_cursor_def last read_row_key)
    have distinct: "distinct (map ob_id (listed at (cn_tenant c) (cn_id c) ?q db))"
      using ledger by (auto simp: ids_unique_def listed_def ledger_def intro!: distinct_map_filter)
    have next_listed: "listed at (cn_tenant c) (cn_id c) (q\<lparr>oq_before := Some ?j\<rparr>) db
        = filter (later ?r) (listed at (cn_tenant c) (cn_id c) ?q db)"
      using listed_before [OF r] by simp
    have rest: "newest_first (listed at (cn_tenant c) (cn_id c) (q\<lparr>oq_before := Some ?j\<rparr>) db) = drop ?m ?all"
      unfolding next_listed newest_first_filter by (rule after_page [OF newest_first_sorted [OF distinct] True m])
    have shorter: "length (listed at (cn_tenant c) (cn_id c) (q\<lparr>oq_before := Some ?j\<rparr>) db) < n"
    proof -
      have "\<not> later ?r ?r" by (simp add: later_def)
      then have "length (filter (later ?r) (listed at (cn_tenant c) (cn_id c) ?q db)) < length (listed at (cn_tenant c) (cn_id c) ?q db)"
        by (rule length_filter_less [OF r])
      then show ?thesis unfolding next_listed using Suc.prems(3) by linarith
    qed
    have "read_all n k vs (Some (encode_cursor ?j)) db = Some (map (item_of \<circ> read_row at) (drop ?m ?all))"
      using Suc.IH [of "Some (encode_cursor ?j)" "Some ?j"] shorter rest stored [OF in_ledger] cursor_round_trip by simp
    moreover have "read_all (Suc n) k vs s db = map_option ((@) (map (item_of \<circ> read_row at) (take ?m ?all)))
        (read_all n k vs (Some (encode_cursor ?j)) db)"
      using page True next_token by simp
    ultimately show ?thesis by (simp add: map_append [symmetric] del: map_append)
  qed
qed simp

end
