(* ===== verification/Sendgate_Claims.thy ===== *)
theory Sendgate_Claims
  imports Sendgate_Facts Outbound_Claims
begin

text \<open>
  The claims about the send routes, each with a run of the model on the small workspace of \<open>Outbound_Claims\<close>.
\<close>

section \<open>What passed\<close>

lemma newlines_no_cr: "CHR 0x0D \<notin> set (normalize_newlines s)"
  by (auto simp: normalize_newlines_def)

lemma normalize_again: "normalize_newlines (normalize_newlines s) = normalize_newlines s"
proof -
  have "replace_crlf (normalize_newlines s) = normalize_newlines s"
    using replace_crlf_front [OF newlines_no_cr [of s], of "[]"] by simp
  then show ?thesis using newlines_no_cr [of s] by (auto simp: normalize_newlines_def [of "normalize_newlines s"] intro!: map_idI)
qed

lemma refusal_normalized: "text_refusal (normalize_newlines s) links n = text_refusal s links n"
  by (simp add: text_refusal_def normalize_again Let_def)

lemma check_send_text:
  assumes "check_send u req = Some (d, body, True)"
  shows "\<exists>exact. json_string (sq_text req) = Some (Some exact) \<and> body = normalize_newlines exact
      \<and> text_refusal exact True self_text_max = ''''"
    "text_refusal body True self_text_max = ''''" "CHR 0x0D \<notin> set body"
  using assms by (auto simp: check_send_def refusal_normalized newlines_no_cr split: option.splits if_splits)

section \<open>A repeat\<close>

fun as_duplicate :: "reply \<Rightarrow> reply" where
  "as_duplicate (SentReply i m wa at d) = SentReply i m wa at True"
| "as_duplicate (Fail status code) = DuplicateReply status code"
| "as_duplicate r = r"

lemma failure_repeats: "failure_code w = (status, code) \<Longrightarrow> refused_status code = status \<and> code \<noteq> ''''"
  by (cases w) (auto simp: failure_code_def refused_status_def)

lemma send_end_outcome:
  assumes "send_end now f answer db = (r, db')" "db' \<noteq> db"
  obtains e where "finish_send (fl_tenant f) (fl_id f) e db = Inr db'"
    "\<And>p. ob_id p = fl_id f \<Longrightarrow> ob_status p = so_status e \<Longrightarrow> ob_code p = so_code e \<Longrightarrow> ob_message p = so_message e
      \<Longrightarrow> ob_wa p = so_wa e \<Longrightarrow> ob_decided p = Some (so_at e) \<Longrightarrow> recorded_send p = as_duplicate r"
    "so_status e \<in> {''sent'', ''uncertain'', ''refused''}"
proof -
  have finished: "finish_send (fl_tenant f) (fl_id f) e db = Inr db'" if "finish_gate_send (fl_tenant f) (fl_id f) e db = db'" for e
    using that assms(2) by (auto simp: finish_gate_send_def split: sum.splits)
  show ?thesis
  proof (cases answer)
    case (TextSent wa stamp uid)
    let ?e = "\<lparr>so_status = ''sent'', so_code = '''', so_message = uid, so_wa = wa, so_at = if is_zero_time stamp then now else stamp\<rparr>"
    show ?thesis by (rule that [of ?e]) (use TextSent assms(1) finished in \<open>auto simp: send_end_def Let_def recorded_send_def\<close>)
  next
    case (TextNotSent w)
    obtain status code where w: "failure_code w = (status, code)" by (cases "failure_code w")
    let ?e = "\<lparr>so_status = ''refused'', so_code = code, so_message = None, so_wa = '''', so_at = now\<rparr>"
    show ?thesis by (rule that [of ?e])
        (use TextNotSent assms(1) finished w failure_repeats [OF w] in \<open>auto simp: send_end_def Let_def recorded_send_def\<close>)
  next
    case TextLost
    let ?e = "\<lparr>so_status = ''uncertain'', so_code = '''', so_message = None, so_wa = '''', so_at = now\<rparr>"
    show ?thesis by (rule that [of ?e]) (use TextLost assms(1) finished in \<open>auto simp: send_end_def Let_def recorded_send_def\<close>)
  qed
qed

lemma recorded_reads: "ob_status p \<noteq> ''pending'' \<Longrightarrow> recorded_send (read_row at p) = recorded_send p"
  by (simp add: recorded_send_def read_row_def)

section \<open>What a draft's answer says\<close>

definition answer_matches :: "reply \<Rightarrow> outbound_row \<Rightarrow> bool" where
  "answer_matches r row \<longleftrightarrow> (case r of
       DraftReply i expires \<Rightarrow> ob_id row = i \<and> ob_status row = ''pending'' \<and> ob_expires row = Some expires
     | Fail status code \<Rightarrow> ob_status row = ''refused'' \<and> ob_code row = code \<and> status = refused_status code
     | LimitReply at \<Rightarrow> ob_status row = ''refused'' \<and> ob_code row = ''rate_limited''
     | _ \<Rightarrow> False)"

lemma refusal_answer_code:
  assumes "snd (refusal_answer e) = Some code"
  shows "fst (refusal_answer e) = Fail (refused_status code) code \<or> code = ''rate_limited'' \<and> (\<exists>at. fst (refusal_answer e) = LimitReply at)"
  using assms by (cases e) (simp_all add: refusal_answer_def split: access_error.splits, auto simp: refused_status_def)

lemma record_refusal_row:
  "record_refusal x fresh t i f db = Inr (b, db') \<Longrightarrow> db' \<noteq> db \<Longrightarrow>
   \<exists>row. db' = db\<lparr>db_outbound := db_outbound db @ [row]\<rparr> \<and> ob_status row = ''refused'' \<and> ob_code row = rf_code f"
  by (auto simp: record_refusal_def refused_row_def Let_def split: if_splits)

lemma refused_matches:
  assumes "refuse_send x fresh c f e db = (r, db')" "db' \<noteq> db"
  shows "\<exists>row. db' = db\<lparr>db_outbound := db_outbound db @ [row]\<rparr> \<and> answer_matches r row"
proof -
  obtain a code where a: "refusal_answer e = (a, code)" by (cases "refusal_answer e")
  with assms obtain w where w: "code = Some w" "r = a" by (cases code) (auto simp: refuse_send_def)
  with a assms have "record_gate_refusal x fresh c (f\<lparr>rf_code := w\<rparr>) db = db'" by (simp add: refuse_send_def)
  with assms(2) obtain b where "record_refusal x fresh (cn_tenant c) (cn_id c) (f\<lparr>rf_code := w\<rparr>) db = Inr (b, db')"
    by (auto simp: record_gate_refusal_def split: if_splits sum.splits)
  from record_refusal_row [OF this assms(2)] refusal_answer_code [of e w] a w show ?thesis
    by (auto simp: answer_matches_def)
qed

lemma created_matches:
  assumes "create_draft j x t i key q l db = Inr (expires, db')"
  shows "\<exists>row. db' = db\<lparr>db_outbound := db_outbound db @ [row]\<rparr> \<and> answer_matches (DraftReply (nd_id q) expires) row"
  using assms by (rule create_draft_elim) (auto simp: answer_matches_def draft_row_of_def)

section \<open>A small server\<close>

definition padded :: "string \<Rightarrow> string" where
  "padded s = ''00000000-0000-4000-8000-000000000'' @ s"

definition sample_ids :: ids where
  "sample_ids = \<lparr>id_parse = map_of [(padded ''050'', 50), (padded ''020'', 20), (padded ''070'', 70)],
     id_text = (\<lambda>i. padded (if i = 50 then ''050'' else if i = 20 then ''020'' else ''070''))\<rparr>"

definition sample_gate :: gate where
  "sample_gate = \<lparr>gt_readers = [\<lparr>rd_id = ''r'', rd_attested = Some \<lparr>at_id = ''r'', at_tenants = [1], at_all = False\<rparr>\<rparr>],
     gt_content = ''r'', gt_content_on = Some (\<lambda>_. True), gt_send_on = Some (\<lambda>_. True), gt_self_on = Some (\<lambda>_. True),
     gt_text = True, gt_keys = True, gt_limits = sample_limits\<rparr>"

definition sample_call :: "timestamp \<Rightarrow> uuid \<Rightarrow> 'b option \<Rightarrow> 'b call" where
  "sample_call n fresh body = \<lparr>cl_gate = sample_gate, cl_ids = sample_ids, cl_jids = plain_jids, cl_match = (\<lambda>s h. s = ''s'' \<and> h = ''h''),
     cl_now = n, cl_tx = clocks_at n, cl_refusal_tx = clocks_at n, cl_fresh = fresh, cl_refused = fresh + 100, cl_caller = ''r'',
     cl_path = padded ''050'', cl_header = ''Bearer aaaaaaaa.s'', cl_body = body\<rparr>"

definition sample_request :: send_request where
  "sample_request = \<lparr>sq_ref = sample_ref, sq_kind = ''self'', sq_device = padded ''020'',
     sq_text = [CHR 0x22, CHR ''o'', CHR 0x5C, CHR ''r'', CHR ''i'', CHR 0x22], sq_chat = None, sq_reply = None, sq_reply_body = None\<rparr>"

definition sample_flight :: flight where
  "sample_flight = \<lparr>fl_tenant = 1, fl_connection = 50, fl_id = 71, fl_device = 20, fl_chat = ''55@s'',
     fl_body = [CHR ''o'', CHR 0x0A, CHR ''i''], fl_ref = Some sample_ref, fl_draft = False, fl_edited = False\<rparr>"

definition flying_db :: db where
  "flying_db = snd (send_begin (sample_call 120 71 (Some sample_request)) send_db)"

lemma sample_flies: "send_begin (sample_call 120 71 (Some sample_request)) send_db = (Flying sample_flight, flying_db)"
proof -
  have "fst (send_begin (sample_call 120 71 (Some sample_request)) send_db) = Flying sample_flight" by code_simp
  then show ?thesis by (simp add: flying_db_def prod_eq_iff)
qed

section \<open>The claims\<close>

text \<open>C4: Nothing leaves twice. Within a year of the server's work, with requests, confirmations, refusals, the janitor
  and changes of access interleaved with texts on their way, lost answers and restarts, no ledger row is handed to
  WhatsApp twice, and no reference of a connection is either: a repeated request never makes a second message.\<close>

theorem nothing_leaves_twice:
  assumes "gate_run since w w'" "db_outbound (wd_db w) = []" "wd_left w = []"
  shows "distinct (map fl_id (wd_left w'))
    \<and> distinct (map (\<lambda>f. (fl_connection f, fl_ref f)) (filter (\<lambda>f. \<not> fl_draft f) (wd_left w')))"
proof -
  have "gate_inv since w" using assms(2,3) empty_valid by (simp add: gate_inv_def young_def)
  from gate_run_inv [OF assms(1) this] references_apart show ?thesis by (auto simp: gate_inv_def)
qed

definition idle_world :: world where
  "idle_world = \<lparr>wd_db = send_db, wd_flying = [], wd_left = []\<rparr>"

lemma sample_timely: "timely 100 (clocks_at 120)"
  by (simp add: timely_def clocks_ok_def clocks_at_def retention_def)

lemma sample_takes_off: "gate_run 100 idle_world (takes_off sample_flight flying_db idle_world)"
proof (rule goes_on [OF starts], rule flies)
  show "timely 100 (cl_tx (sample_call 120 71 (Some sample_request)))" using sample_timely by (simp add: sample_call_def)
  show "send_begin (sample_call 120 71 (Some sample_request)) (wd_db idle_world) = (Flying sample_flight, flying_db)"
    using sample_flies by (simp add: idle_world_def)
qed

theorem nothing_leaves_twice_witness: "distinct (map fl_id (wd_left (takes_off sample_flight flying_db idle_world)))"
  using nothing_leaves_twice [OF sample_takes_off] by (simp add: idle_world_def empty_ledger)

text \<open>C12: What leaves passed every check: the request came from the connection's reader with the connection's own live
  key, the switches allow the workspace to send to itself, the connection is active, in time, sends and is not
  paused, the person who consented may still send on the number, the number is one of the key's, the chat is the
  number's own, the text is the exact reading of the request's with its newlines made one kind and passes the rules,
  and its row is in the ledger, in flight, before it leaves.\<close>

theorem what_leaves_passed_every_check:
  assumes "send_begin k db = (Flying f, db')"
  shows "\<exists>c v rd req. c \<in> set (db_connections db) \<and> cn_id c = fl_connection f \<and> cn_reader c = cl_caller k
    \<and> verify_key (cl_match k) (cl_now k) db (the (bearer_token (cl_header k))) = Inr v \<and> vf_id v = cn_key c
    \<and> reader_by_id (cl_gate k) (cl_caller k) = Some rd \<and> send_self_allowed (cl_gate k) rd (fl_tenant f)
    \<and> (\<exists>l. connection_of (fl_tenant f) db (fl_connection f) = Some l \<and> cn_status l = ''active''
        \<and> sx_wall (cl_tx k) < cn_expires l \<and> cn_mode l \<noteq> '''' \<and> cn_paused l = None \<and> cn_self l
        \<and> send_permitted (sx_now (cl_tx k)) db (fl_tenant f) (cn_creator l) (fl_device f) = Inr True
        \<and> fl_device f \<in> set (key_devices db (cn_key l)))
    \<and> fl_chat f = snd (own_chats (cl_jids k) (fl_tenant f) db (fl_device f))
    \<and> cl_body k = Some req \<and> (\<exists>exact. json_string (sq_text req) = Some (Some exact)
        \<and> fl_body f = normalize_newlines exact \<and> text_refusal exact True self_text_max = '''')
    \<and> text_refusal (fl_body f) True self_text_max = '''' \<and> CHR 0x0D \<notin> set (fl_body f)
    \<and> (\<exists>r\<in>set (db_outbound db'). ob_id r = fl_id f \<and> ob_status r = ''sending'' \<and> ob_ref r = fl_ref f)"
proof -
  from assms obtain c :: connection_row and key rd and req :: send_request where
    c: "sending_connection k db = Inr (c, key)" "cl_body k = Some req"
      "check_send (cl_ids k) req = Some (fl_device f, fl_body f, True)" "reader_by_id (cl_gate k) (cl_caller k) = Some rd"
      "send_self_allowed (cl_gate k) rd (cn_tenant c)" "fl_tenant f = cn_tenant c" "fl_connection f = cn_id c"
      "fl_ref f = Some (sq_ref req)" and start: "start_send (cl_jids k) (cl_tx k) (cl_fresh k) (cn_tenant c) (cn_id c) key
      \<lparr>ns_kind = ''self'', ns_device = fl_device f, ns_ref = sq_ref req, ns_text_ok = True\<rparr> (gate_limits (cl_gate k)) db
      = Inr (Started (fl_id f) (fl_chat f), db')"
    by (rule send_begin_flies) blast
  from c(1) obtain v where v: "verify_key (cl_match k) (cl_now k) db (the (bearer_token (cl_header k))) = Inr v"
      "vf_id v = cn_key c" "c \<in> set (db_connections db)" "cn_reader c = cl_caller k"
    by (auto simp: sending_connection_def send_connection_def split: option.splits sum.splits if_splits dest!: find_in)
  from start obtain l where l: "connection_of (cn_tenant c) db (cn_id c) = Some l"
      "live_for_sending (sx_wall (cl_tx k)) l key = Inr ()" "cn_self l"
      "send_permitted (sx_now (cl_tx k)) db (cn_tenant c) (cn_creator l) (fl_device f) = Inr True"
      "fl_device f \<in> set (key_devices db (cn_key l))"
      "fl_chat f = snd (own_chats (cl_jids k) (cn_tenant c) db (fl_device f))"
      "insert_outbound (send_row_of (sx_clock (cl_tx k)) (fl_id f) (cn_tenant c) (cn_id c) (fl_chat f)
        \<lparr>ns_kind = ''self'', ns_device = fl_device f, ns_ref = sq_ref req, ns_text_ok = True\<rparr>) db = Inr db'"
    by (rule start_send_elim) auto
  have live: "cn_status l = ''active''" "sx_wall (cl_tx k) < cn_expires l" "cn_mode l \<noteq> ''''" "cn_paused l = None"
    using l(2) by (auto simp: live_for_sending_def split: if_splits)
  have row: "\<exists>r\<in>set (db_outbound db'). ob_id r = fl_id f \<and> ob_status r = ''sending'' \<and> ob_ref r = fl_ref f"
    using l(7) c(8) by (auto simp: send_row_of_def)
  show ?thesis
    using c v l live row check_send_text [OF c(3)] by (intro exI [of _ c] exI [of _ v] exI [of _ rd] exI [of _ req]) auto
qed

theorem what_leaves_passed_every_check_witness: "text_refusal (fl_body sample_flight) True self_text_max = ''''"
  using what_leaves_passed_every_check [OF sample_flies] by blast

text \<open>C14: A repeat is answered as the first was: once the outcome of a send is recorded, whatever asks again under its
  reference gets the same status, code and ids, marked as a duplicate, and the time as the ledger holds it (here as it was
  written; the database keeps it to the microsecond).\<close>

theorem repeat_is_answered_as_the_first:
  assumes "send_end now f answer db = (r, db')" "db' \<noteq> db" "ledger_valid (db_outbound db)"
    and "p \<in> set (db_outbound db)" "ob_id p = fl_id f" "ob_tenant p = fl_tenant f" "ob_status p = ''sending''" "ob_ref p = Some w"
  shows "\<exists>q. outbound_by_ref at (ob_connection p) w (ledger (fl_tenant f) db') = Some q \<and> recorded_send q = as_duplicate r"
proof -
  from send_end_outcome [OF assms(1,2)] obtain e where e: "finish_send (fl_tenant f) (fl_id f) e db = Inr db'"
      "\<And>p. ob_id p = fl_id f \<Longrightarrow> ob_status p = so_status e \<Longrightarrow> ob_code p = so_code e \<Longrightarrow> ob_message p = so_message e
        \<Longrightarrow> ob_wa p = so_wa e \<Longrightarrow> ob_decided p = Some (so_at e) \<Longrightarrow> recorded_send p = as_duplicate r"
      "so_status e \<in> {''sent'', ''uncertain'', ''refused''}"
    by metis
  let ?q = "p\<lparr>ob_status := so_status e, ob_code := so_code e, ob_message := so_message e, ob_wa := so_wa e, ob_decided := Some (so_at e)\<rparr>"
  have q: "?q \<in> set (db_outbound db')"
    using e(1) assms(4-7) by (auto simp: finish_send_def update_outbound_Inr intro!: image_eqI [of _ _ p])
  from e(3) have "run_send undefined undefined undefined (FinishSend (fl_tenant f) (fl_id f) e) db = Inr db'" using e(1) by simp
  then have "ledger_valid (db_outbound db')" by (rule run_send_valid) (rule assms(3))
  from recorded_found [OF this q, of "fl_tenant f" "ob_connection p" w at] assms(5,6,8)
  have "outbound_by_ref at (ob_connection p) w (ledger (fl_tenant f) db') = Some (read_row at ?q)" by simp
  moreover have "recorded_send (read_row at ?q) = as_duplicate r"
    using e(2) [of ?q] e(3) assms(5) by (auto simp: recorded_reads)
  ultimately show ?thesis by blast
qed

definition landed :: "reply \<times> db" where
  "landed = send_end 130 sample_flight (TextSent ''w'' 125 None) flying_db"

definition flying_row :: outbound_row where
  "flying_row = last (db_outbound flying_db)"

theorem repeat_is_answered_as_the_first_witness:
  "\<exists>q. outbound_by_ref 140 50 sample_ref (ledger 1 (snd landed)) = Some q \<and> recorded_send q = SentReply 71 None ''w'' 125 True"
proof -
  have row: "ob_id flying_row = 71 \<and> ob_tenant flying_row = 1 \<and> ob_status flying_row = ''sending'' \<and> ob_connection flying_row = 50
      \<and> ob_ref flying_row = Some sample_ref \<and> db_outbound flying_db \<noteq> [] \<and> fst landed = SentReply 71 None ''w'' 125 False
      \<and> map ob_status (db_outbound (snd landed)) = [''sent''] \<and> map ob_status (db_outbound flying_db) = [''sending'']"
    by code_simp
  have "gate_inv 100 idle_world" by (simp add: gate_inv_def idle_world_def empty_ledger empty_valid young_def)
  from gate_run_inv [OF sample_takes_off this] have valid: "ledger_valid (db_outbound flying_db)"
    by (simp add: gate_inv_def takes_off_def)
  have changed: "snd landed \<noteq> flying_db" using row by auto
  have member: "flying_row \<in> set (db_outbound flying_db)" using row by (simp add: flying_row_def)
  have pair: "send_end 130 sample_flight (TextSent ''w'' 125 None) flying_db = (fst landed, snd landed)" by (simp add: landed_def)
  from repeat_is_answered_as_the_first [OF pair changed valid member, of sample_ref 140] row
  show ?thesis by (simp add: sample_flight_def)
qed

text \<open>C15: The answer to a draft is what the ledger says: either nothing is written and no draft is promised, or one
  row is, which waits under the id and until the time answered, or is refused under the code answered and with the
  status that code is answered with later. Nothing else of the database changes.\<close>

theorem draft_answers_match_the_ledger:
  assumes "enclave_draft k db = (r, db')"
  shows "db' = db \<and> (\<nexists>i expires. r = DraftReply i expires)
    \<or> (\<exists>row. db' = db\<lparr>db_outbound := db_outbound db @ [row]\<rparr> \<and> answer_matches r row)"
proof (cases "\<exists>i expires. r = DraftReply i expires")
  case True
  then obtain i expires where r: "r = DraftReply i expires" by blast
  have "\<exists>(c :: connection_row) key q. create_draft (cl_jids k) (cl_tx k) (cn_tenant c) (cn_id c) key q (gate_limits (cl_gate k)) db
      = Inr (expires, db') \<and> i = nd_id q"
    using assms unfolding r
    by (auto simp: enclave_draft_def Let_def refuse_send_def refusal_answer_def sending_connection_def
        split: sum.splits prod.splits option.splits if_splits send_error.splits access_error.splits)
  then show ?thesis using created_matches r by blast
next
  case False
  show ?thesis
  proof (cases "db' = db")
    case changed: False
    from assms obtain c key req q where cq: "sending_connection k db = Inr (c, key)" "cl_body k = Some req"
        "check_draft (cl_ids k) req = Some q"
      using changed by (auto simp: enclave_draft_def split: sum.splits prod.splits option.splits)
    let ?f = "\<lparr>rf_kind = ''draft'', rf_device = nd_device q, rf_chat = nd_chat q, rf_code = '''', rf_ref = ''''\<rparr>"
    have "\<exists>e. refuse_send (cl_refusal_tx k) (cl_refused k) c ?f e db = (r, db')"
      using assms cq changed False by (auto simp: enclave_draft_def Let_def split: if_splits sum.splits option.splits)
    with refused_matches changed show ?thesis by blast
  qed (use False in simp)
qed

definition sample_draft_request :: draft_request where
  "sample_draft_request = \<lparr>dr_id = padded ''070'', dr_device = padded ''020'', dr_chat = ''77@s'', dr_reply = None, dr_epoch = 1,
     dr_sealed = ''c2VhbA''\<rparr>"

definition drafted_now :: "reply \<times> db" where
  "drafted_now = enclave_draft (sample_call 120 71 (Some sample_draft_request)) send_db"

theorem draft_answers_match_the_ledger_witness:
  "\<exists>row. snd drafted_now = send_db\<lparr>db_outbound := db_outbound send_db @ [row]\<rparr> \<and> answer_matches (fst drafted_now) row"
proof -
  have "fst drafted_now = DraftReply 70 (120 + draft_ttl)" by code_simp
  with draft_answers_match_the_ledger [of "sample_call 120 71 (Some sample_draft_request)" send_db "fst drafted_now" "snd drafted_now"]
  show ?thesis by (simp add: drafted_now_def)
qed

text \<open>C13: Following the cursors reads the whole ledger, and ends: a reader that asks for pages of any size and status
  and follows each page's cursor gets every row the first question names once, newest first, and never an envelope,
  in no more requests than there are rows, however many rows share a moment. Nothing is written between the pages.\<close>

theorem cursors_read_the_whole_ledger:
  assumes "sending_connection k db = Inr (c, key)" "query_of (cl_ids k) True (Some vs) = Some q" "''before'' \<notin> fst ` set vs"
    and "ids_unique (db_outbound db)" "\<forall>r\<in>set (db_outbound db). stored_moment (ob_created r) \<and> ob_id r < 2 ^ 128"
  shows "read_all (Suc (length (db_outbound db))) k vs None db
    = Some (map (item_of \<circ> read_row (sx_now (cl_tx k))) (newest_first (listed (sx_now (cl_tx k)) (cn_tenant c) (cn_id c) q db)))"
proof -
  have "oq_before q = None" using query_no_before [OF assms(2,3)] .
  then have plain: "q\<lparr>oq_before := None\<rparr> = q" by simp
  have "length (listed (sx_now (cl_tx k)) (cn_tenant c) (cn_id c) q db) \<le> length (db_outbound db)"
    by (simp add: listed_def ledger_def length_filter_bound)
  then show ?thesis
    using reads_all [OF assms(1-4), where s = None and k' = None and n = "Suc (length (db_outbound db))"] assms(5)
    by (simp add: plain)
qed

definition paged_row :: "timestamp \<Rightarrow> uuid \<Rightarrow> outbound_row" where
  "paged_row micros i = send_row_of (unix_epoch + micros * 1000) i 1 50 ''55@s'' sample_send\<lparr>ob_ref := None\<rparr>"

definition paged_db :: db where
  "paged_db = send_db\<lparr>db_outbound := [paged_row 5 71, paged_row 5 72, paged_row 4 73]\<rparr>"

definition page_call :: "query_values call" where
  "page_call = sample_call 120 71 None"

theorem cursors_read_the_whole_ledger_witness:
  "\<exists>items. read_all 4 page_call [(''limit'', [''1''])] None paged_db = Some items \<and> length items = 3"
proof -
  let ?q = "\<lparr>oq_limit = 1, oq_before = None, oq_status = '''', oq_device = None\<rparr>"
  have "case sending_connection page_call paged_db of Inr (c, _) \<Rightarrow> length (listed 120 (cn_tenant c) (cn_id c) ?q paged_db) = 3 | _ \<Rightarrow> False"
    by code_simp
  then obtain c key where c: "sending_connection page_call paged_db = Inr (c, key)"
      "length (listed 120 (cn_tenant c) (cn_id c) ?q paged_db) = 3"
    by (auto split: sum.splits)
  have q: "query_of (cl_ids page_call) True (Some [(''limit'', [''1''])]) = Some ?q" by code_simp
  have ids: "ids_unique (db_outbound paged_db)" by (simp add: ids_unique_def paged_db_def paged_row_def send_row_of_def)
  have moments: "\<forall>r\<in>set (db_outbound paged_db). stored_moment (ob_created r) \<and> ob_id r < 2 ^ 128"
    by (simp add: paged_db_def paged_row_def send_row_of_def stored_moment_def)
  have three: "length (db_outbound paged_db) = 3" by (simp add: paged_db_def)
  have now: "sx_now (cl_tx page_call) = 120" by (simp add: page_call_def sample_call_def clocks_at_def)
  from cursors_read_the_whole_ledger [OF c(1) q _ ids moments] three now c(2) show ?thesis
    by (simp add: newest_first_def by_time_def eval_nat_numeral)
qed

text \<open>A draft that passes the route's checks fits the table: whatever its request says, its row satisfies every
  CHECK of the ledger, though the route counts a chat key's runes where the table counts characters and bounds the
  envelope below the table's bound. So recording it fails on a taken id alone.\<close>

theorem checked_draft_fits_the_table:
  assumes "check_draft u req = Some q"
  shows "row_ok (draft_row_of now t i q)
    \<and> (\<forall>e. insert_outbound (draft_row_of now t i q) db = Inl e \<longrightarrow> e = Access (Constraint ''unique''))"
  using check_draft_fits [OF assms] by (auto simp: insert_outbound_def and_then_Inl)

theorem checked_draft_fits_the_table_witness:
  "\<exists>q. check_draft sample_ids sample_draft_request = Some q \<and> row_ok (draft_row_of 120 1 50 q)"
proof -
  have "check_draft sample_ids sample_draft_request \<noteq> None" by code_simp
  then obtain q where "check_draft sample_ids sample_draft_request = Some q" by blast
  with checked_draft_fits_the_table [OF this] show ?thesis by blast
qed

end
