(* ===== verification/Numbers.thy ===== *)
theory Numbers
  imports Access_Members Textrules
begin

text \<open>
  A number's row, its pauses and the notices people see about it (internal/store/devices.go and
  device_notices.go, with the triggers and constraints of 0028, 0050 and 0051).

  An UPDATE of a number's row goes through \<open>write_device\<close>: the row-level policies (the workspace, and the
  quarantine of deleted numbers unless the scope is open), the trigger on the pause's cause, the table's
  checks, and the unique identities of live numbers.
\<close>

section \<open>Writing a number's row\<close>

text \<open>\<^verbatim>\<open>devices_pause_cause\<close> (0051), and the checks of 0050 and 0051. The trigger fires on an update of the pause,
  its cause or the deletion only; here it is applied to every update, which is the same on a row that
  satisfies the checks.\<close>

definition pause_trigger :: "device_row \<Rightarrow> device_row" where
  "pause_trigger v =
     (if \<not> dv_paused v then v\<lparr>dv_cause := None\<rparr>
      else if dv_cause v = None then v\<lparr>dv_cause := Some (if dv_deleted v \<noteq> None then ''deletion'' else ''person'')\<rparr>
      else v)"

definition deletion_shape :: "device_row \<Rightarrow> bool" where
  "deletion_shape v \<longleftrightarrow> (dv_deleted v = None) = (dv_purge v = None)
     \<and> (dv_deleted v = None \<or> dv_paused v) \<and> (dv_purge_started v = None \<or> dv_deleted v \<noteq> None)"

definition pause_shape :: "device_row \<Rightarrow> bool" where
  "pause_shape v \<longleftrightarrow> (dv_cause v \<noteq> None) = dv_paused v
     \<and> (dv_cause v = None \<or> dv_cause v \<in> Some ` {''person'', ''move'', ''deletion''})"

text \<open>The unique indexes \<^verbatim>\<open>devices_lid\<close> and \<^verbatim>\<open>devices_pn\<close> leave deleted numbers out.\<close>

definition same_identity :: "device_row \<Rightarrow> device_row \<Rightarrow> bool" where
  "same_identity v w \<longleftrightarrow> dv_id v \<noteq> dv_id w \<and> dv_tenant v = dv_tenant w \<and> dv_deleted v = None \<and> dv_deleted w = None
     \<and> (dv_lid v \<noteq> [] \<and> dv_lid v = dv_lid w \<or> dv_pn v \<noteq> [] \<and> dv_pn v = dv_pn w)"

definition unique_identity :: string where
  "unique_identity = ''23505''"

definition write_device :: "bool \<Rightarrow> uuid \<Rightarrow> uuid \<Rightarrow> (device_row \<Rightarrow> device_row) \<Rightarrow> db \<Rightarrow> access_error + db" where
  "write_device quarantine t d f db =
     (case device_of quarantine db t d of None \<Rightarrow> Inl RowNotFound
      | Some v \<Rightarrow> let w = pause_trigger (f v) in
          if \<not> deletion_shape w \<or> \<not> pause_shape w \<or> \<not> sees_device quarantine t w then Inl (Constraint ''devices'')
          else if list_ex (same_identity w) (db_devices db) then Inl (Constraint unique_identity)
          else Inr (db\<lparr>db_devices := map (\<lambda>r. if dv_id r = d then w else r) (db_devices db)\<rparr>))"

section \<open>The number's row\<close>

text \<open>A date for ordering rows; the rows ordered have one.\<close>

definition date_or_zero :: "timestamp option \<Rightarrow> timestamp" where
  "date_or_zero d = (case d of None \<Rightarrow> 0 | Some at \<Rightarrow> at)"

definition status_online :: string where "status_online = ''online''"

definition set_status :: "timestamp \<Rightarrow> uuid \<Rightarrow> uuid \<Rightarrow> string \<Rightarrow> string \<Rightarrow> db \<Rightarrow> access_error + db" where
  "set_status now t d status reason = write_device False t d (\<lambda>v. v\<lparr>dv_status := status, dv_reason := reason,
     dv_connected := (if status = status_online then Some now else dv_connected v)\<rparr>)"

text \<open>Only the halves of an identity that are there are written.\<close>

definition coalesce :: "string \<Rightarrow> string \<Rightarrow> string" where
  "coalesce new old = (if new \<noteq> [] then new else old)"

definition set_identity :: "uuid \<Rightarrow> uuid \<Rightarrow> string \<Rightarrow> string \<Rightarrow> string \<Rightarrow> db \<Rightarrow> access_error + db" where
  "set_identity t d lid pn push = write_device False t d (\<lambda>v. v\<lparr>dv_lid := coalesce lid (dv_lid v),
     dv_pn := coalesce pn (dv_pn v), dv_push := coalesce push (dv_push v)\<rparr>)"

text \<open>\<^verbatim>\<open>workspace_device_usage\<close> counts the numbers the transaction sees, so with the quarantine scope open the
  deleted ones too. \<^verbatim>\<open>check_device_capacity\<close> is the trigger of an INSERT.\<close>

definition device_usage :: "bool \<Rightarrow> db \<Rightarrow> uuid \<Rightarrow> nat" where
  "device_usage quarantine db t = length (filter (sees_device quarantine t) (db_devices db))"

definition max_devices :: "db \<Rightarrow> uuid \<Rightarrow> nat option" where
  "max_devices db t = (case find (\<lambda>(w, n). w = t) (db_capacity db) of None \<Rightarrow> None | Some (_, n) \<Rightarrow> n)"

definition new_device :: "uuid \<Rightarrow> uuid \<Rightarrow> string \<Rightarrow> device_row" where
  "new_device t i label = \<lparr>dv_id = i, dv_tenant = t, dv_archive = t, dv_epoch = 0, dv_deleted = None, dv_purge = None,
     dv_label = label, dv_push = '''', dv_pn = '''', dv_lid = '''', dv_status = ''new'', dv_reason = '''',
     dv_paused = False, dv_cause = None, dv_pauses = 0, dv_connected = None, dv_deleted_by = None,
     dv_purge_started = None, dv_leftover = None\<rparr>"

definition create_device :: "uuid \<Rightarrow> uuid \<Rightarrow> string \<Rightarrow> db \<Rightarrow> access_error + db" where
  "create_device t i label db =
     (if (case max_devices db t of None \<Rightarrow> False | Some n \<Rightarrow> n \<le> device_usage False db t)
      then Inl (Constraint ''workspace_device_capacity'')
      else if tenant_of db t = None \<or> list_ex (\<lambda>v. dv_id v = i) (db_devices db) then Inl (Constraint ''devices'')
      else Inr (db\<lparr>db_devices := db_devices db @ [new_device t i label]\<rparr>))"

definition max_label_runes :: nat where "max_label_runes = 100"

definition rename_device :: "uuid \<Rightarrow> uuid \<Rightarrow> string \<Rightarrow> db \<Rightarrow> access_error + db" where
  "rename_device t d label db =
     (let name = trim_space label in
      if name = [] \<or> max_label_runes < length (runes name) then Inl BadDeviceName
      else write_device False t d (\<lambda>v. v\<lparr>dv_label := name\<rparr>) db)"

definition write_pause :: "uuid \<Rightarrow> uuid \<Rightarrow> bool \<Rightarrow> string \<Rightarrow> db \<Rightarrow> access_error + db" where
  "write_pause t d paused cause = write_device False t d (\<lambda>v. v\<lparr>dv_paused := paused,
     dv_cause := (if paused then Some cause else None), dv_pauses := dv_pauses v + (if paused then 1 else 0)\<rparr>)"

definition set_paused :: "uuid \<Rightarrow> uuid \<Rightarrow> bool \<Rightarrow> db \<Rightarrow> access_error + db" where
  "set_paused t d paused = write_pause t d paused (if paused then ''person'' else '''')"

definition restore_pause :: "uuid \<Rightarrow> uuid \<Rightarrow> string \<Rightarrow> db \<Rightarrow> access_error + db" where
  "restore_pause t d cause = write_pause t d True (if cause = [] then ''person'' else cause)"

text \<open>DELETE of numbers, with what the foreign keys take along: the archive, the keys and their copies, the
  permissions, preferences, drafts and transfers. Deleting a copy or a permission raises its member's access
  version, and deleting a key's restriction to a number keeps the key restricted (0026).\<close>

definition delete_key_devices :: "(uuid \<times> uuid \<Rightarrow> bool) \<Rightarrow> db \<Rightarrow> db" where
  "delete_key_devices P db = db\<lparr>db_key_devices := filter (\<lambda>p. \<not> P p) (db_key_devices db),
     db_keys := map (\<lambda>k. let n = length (filter (\<lambda>p. P p \<and> fst p = ky_id k) (db_key_devices db)) in
       if n = 0 then k else k\<lparr>ky_restricted := True, ky_version := ky_version k + int n\<rparr>) (db_keys db)\<rparr>"

definition delete_messages :: "(archived_row \<Rightarrow> bool) \<Rightarrow> db \<Rightarrow> db" where
  "delete_messages P db =
     (let gone = map me_uid (filter P (db_messages db)) in
      db\<lparr>db_messages := filter (\<lambda>m. \<not> P m) (db_messages db),
        db_media := filter (\<lambda>f. md_message f \<notin> set gone) (db_media db),
        db_archive := filter (\<lambda>e. case ae_message e of None \<Rightarrow> True | Some u \<Rightarrow> u \<notin> set gone) (db_archive db)\<rparr>)"

definition cascade_device :: "uuid \<Rightarrow> db \<Rightarrow> db" where
  "cascade_device d db =
     (let db1 = delete_key_devices (\<lambda>(k, v). v = d) (delete_perms (\<lambda>p. pm_device p = d)
            (delete_grants (\<lambda>g. gr_device g = d) (delete_messages (\<lambda>m. me_device m = d) db))) in
      db1\<lparr>db_archive := filter (\<lambda>e. ae_device e \<noteq> d) (db_archive db1),
        db_chats := filter (\<lambda>c. ct_device c \<noteq> d) (db_chats db1),
        db_archive_keys := filter (\<lambda>k. ak_device k \<noteq> d) (db_archive_keys db1),
        db_prefs := filter (\<lambda>(w, u, v). v \<noteq> d) (db_prefs db1),
        db_outbound := filter (\<lambda>r. ob_device r \<noteq> d) (db_outbound db1),
        db_transfers := filter (\<lambda>(v, s, w). v \<noteq> d) (db_transfers db1)\<rparr>)"

definition delete_device :: "bool \<Rightarrow> uuid \<Rightarrow> uuid \<Rightarrow> (device_row \<Rightarrow> bool) \<Rightarrow> db \<Rightarrow> db" where
  "delete_device quarantine t d P db =
     (if list_ex (\<lambda>v. dv_id v = d \<and> sees_device quarantine t v \<and> P v) (db_devices db)
      then cascade_device d (db\<lparr>db_devices := filter (\<lambda>v. dv_id v \<noteq> d) (db_devices db)\<rparr>) else db)"

definition never_linked :: "device_row \<Rightarrow> bool" where
  "never_linked v \<longleftrightarrow> dv_lid v = [] \<and> dv_pn v = [] \<and> dv_connected v = None"

definition delete_unpaired :: "uuid \<Rightarrow> uuid \<Rightarrow> db \<Rightarrow> db" where
  "delete_unpaired t d = delete_device False t d never_linked"

definition delete_number :: "uuid \<Rightarrow> uuid \<Rightarrow> db \<Rightarrow> access_error + db" where
  "delete_number t d db = (if device_of False db t d = None then Inl RowNotFound
     else Inr (delete_device False t d (\<lambda>_. True) db))"

section \<open>Notices\<close>

text \<open>Whether a person reads the live number now, as a pause's notice and its housekeeping ask.\<close>

definition reads_live :: "timestamp \<Rightarrow> db \<Rightarrow> uuid \<Rightarrow> uuid \<Rightarrow> uuid \<Rightarrow> bool" where
  "reads_live now db t d u =
     (case (member_of db t u, device_of False db t d) of
        (Some m, Some v) \<Rightarrow> mb_status m = ''active'' \<and> status_active db u \<and> tenant_active db t
          \<and> before now (mb_expires m) \<and> can_read_flag db t d u \<and> holds_key db t u v
      | _ \<Rightarrow> False)"

text \<open>The name an owner reads: a person's name, else their address, else a former member's.\<close>

definition display_name :: "db \<Rightarrow> uuid \<Rightarrow> uuid option \<Rightarrow> string" where
  "display_name db t who =
     (case who of None \<Rightarrow> ''''
      | Some u \<Rightarrow> (case user_of db u of
            Some r \<Rightarrow> if us_name r \<noteq> [] then us_name r else us_email r
          | None \<Rightarrow> (case find (\<lambda>h. hs_tenant h = t \<and> hs_user h = u) (db_history db) of
                Some h \<Rightarrow> hs_email h | None \<Rightarrow> '''')))"

definition notices_of :: "timestamp \<Rightarrow> db \<Rightarrow> uuid \<Rightarrow> uuid \<Rightarrow> notice_row list" where
  "notices_of now db t u =
     sort_key nt_raised_at (sort_key nt_id (filter (\<lambda>n. nt_tenant n = t \<and> nt_user n = u \<and> nt_seen n = None
       \<and> (nt_kind n \<noteq> ''sync_paused'' \<or> reads_live now db t (nt_device n) u)) (db_notices db)))"

text \<open>A notice as its person saw it: its id and how many pauses it said.\<close>

definition see_notices :: "tx \<Rightarrow> uuid \<Rightarrow> uuid \<Rightarrow> (nat \<times> int) list \<Rightarrow> db \<Rightarrow> notice_row list \<times> db" where
  "see_notices x t u seen db =
     (let db' = db\<lparr>db_notices := map (\<lambda>n. if nt_tenant n = t \<and> nt_user n = u \<and> nt_seen n = None
            \<and> list_ex (\<lambda>(i, pauses). nt_id n = i \<and> (nt_kind n \<noteq> ''sync_paused'' \<or> nt_pauses n = pauses)) seen
          then n\<lparr>nt_seen := Some (tx_clock x)\<rparr> else n) (db_notices db)\<rparr> in
      (notices_of (tx_now x) db' t u, db'))"

section \<open>A pause somebody asks for\<close>

text \<open>Who asks: a person, or an API key, whose act is its creator's.\<close>

record pause_actor =
  pa_user :: uuid
  pa_key :: uuid

record paused =
  ps_changed :: bool
  ps_kind :: string
  ps_user :: "uuid option"
  ps_notices :: "notice_row list"
  ps_recorded :: bool

definition not_paused :: paused where
  "not_paused = \<lparr>ps_changed = False, ps_kind = '''', ps_user = None, ps_notices = [], ps_recorded = False\<rparr>"

definition pause_by :: "db \<Rightarrow> uuid \<Rightarrow> pause_actor \<Rightarrow> access_error + (string \<times> uuid option)" where
  "pause_by db t who =
     (if pa_key who \<noteq> uuid_nil
      then Inr (''key'', case find (\<lambda>k. ky_id k = pa_key who \<and> ky_tenant k = t) (db_keys db) of
          None \<Rightarrow> None | Some k \<Rightarrow> ky_creator k)
      else if pa_user who \<noteq> uuid_nil then Inr (''person'', Some (pa_user who)) else Inl NoActor)"

text \<open>A reader's one unseen pause notice for the number: a new one, or the one still unseen with one more pause.\<close>

definition open_notice :: "uuid \<Rightarrow> uuid \<Rightarrow> uuid \<Rightarrow> string \<Rightarrow> notice_row \<Rightarrow> bool" where
  "open_notice t d u kind n \<longleftrightarrow> nt_tenant n = t \<and> nt_device n = d \<and> nt_user n = u \<and> nt_kind n = kind \<and> nt_seen n = None"

definition fold_pause :: "timestamp \<Rightarrow> string \<Rightarrow> uuid option \<Rightarrow> string option \<Rightarrow> string option \<Rightarrow> notice_row \<Rightarrow> notice_row" where
  "fold_pause at kind actor label hint n = n\<lparr>nt_pauses := nt_pauses n + 1, nt_last := Some at, nt_resumed := None,
     nt_several := (nt_several n \<or> (nt_raised_by n, nt_raised_kind n) \<noteq> (actor, kind)),
     nt_raised_by := actor, nt_raised_kind := kind, nt_label := label, nt_hint := hint\<rparr>"

definition raise_pause :: "timestamp \<Rightarrow> uuid \<Rightarrow> uuid \<Rightarrow> string \<Rightarrow> uuid option \<Rightarrow> string option \<Rightarrow> string option \<Rightarrow> uuid \<Rightarrow> db \<Rightarrow> db" where
  "raise_pause at t d kind actor label hint u db =
     (let found = open_notice t d u ''sync_paused'' in
      db\<lparr>db_notices := (if list_ex found (db_notices db)
          then map (\<lambda>n. if found n then fold_pause at kind actor label hint n else n) (db_notices db)
          else db_notices db @ [\<lparr>nt_id = db_notice_seq db, nt_tenant = t, nt_device = d, nt_user = u,
            nt_kind = ''sync_paused'', nt_label = label, nt_hint = hint, nt_raised_at = at, nt_last = None,
            nt_pauses = 1, nt_raised_by = actor, nt_raised_kind = kind, nt_several = False, nt_until = None,
            nt_resumed = None, nt_purged = None, nt_seen = None\<rparr>]),
        db_notice_seq := db_notice_seq db + 1\<rparr>)"

definition raised_notices :: "uuid \<Rightarrow> uuid \<Rightarrow> uuid list \<Rightarrow> db \<Rightarrow> notice_row list" where
  "raised_notices t d told db = sort_key nt_id (filter (\<lambda>n. nt_user n \<in> set told
     \<and> open_notice t d (nt_user n) ''sync_paused'' n) (db_notices db))"

text \<open>An event about a number, with what every type writes; a pause is never exported to the ledger, so it is
  written as if it were there.\<close>

definition item_event :: "tx \<Rightarrow> uuid \<Rightarrow> string \<Rightarrow> device_row \<Rightarrow> timestamp \<Rightarrow> user_row list \<Rightarrow> event_row" where
  "item_event x t kind v at rs = \<lparr>ev_id = tx_event x (dv_id v), ev_tenant = t, ev_type = kind, ev_item = dv_id v,
     ev_dedupe = (kind, dv_id v, None, at), ev_occurred = tx_clock x, ev_actor_kind = ''app'', ev_actor_sub = None,
     ev_actor_user = None, ev_reader_subs = List.map_filter us_sub rs, ev_reader_users = map us_id rs,
     ev_label = None, ev_hint = None, ev_person = None, ev_cause = None, ev_deleted = None, ev_purge = None,
     ev_to = None, ev_ledgered = (if kind = ''sync_paused'' then Some (tx_clock x) else None), ev_replayed = None\<rparr>"

definition item_label :: "tx \<Rightarrow> device_row \<Rightarrow> string option" where
  "item_label x v = tx_label x (dv_id v) (dv_label v) (dv_push v) (dv_pn v)"

definition by_actor :: "db \<Rightarrow> string \<Rightarrow> uuid option \<Rightarrow> event_row \<Rightarrow> event_row" where
  "by_actor db kind actor e = e\<lparr>ev_actor_kind := kind, ev_actor_user := actor,
     ev_actor_sub := (case actor of None \<Rightarrow> None | Some u \<Rightarrow> sub_of db u)\<rparr>"

definition named_event :: "tx \<Rightarrow> device_row \<Rightarrow> event_row \<Rightarrow> event_row" where
  "named_event x v e = e\<lparr>ev_label := item_label x v, ev_hint := hint_from_pn (dv_pn v)\<rparr>"

definition tell_pause :: "tx \<Rightarrow> uuid \<Rightarrow> device_row \<Rightarrow> string \<Rightarrow> uuid option \<Rightarrow> db \<Rightarrow> paused \<times> db" where
  "tell_pause x t v kind actor db =
     (let d = dv_id v; rs = readers (tx_now x) db t d;
          told = filter (\<lambda>u. actor \<noteq> Some u) (map us_id rs) in
      if told = [] then (not_paused\<lparr>ps_changed := True, ps_kind := kind, ps_user := actor\<rparr>, db)
      else let db1 = fold (raise_pause (tx_clock x) t d kind actor (item_label x v) (hint_from_pn (dv_pn v))) told db;
               e = named_event x v (by_actor db kind actor (item_event x t ''sync_paused'' v (tx_clock x) rs))
           in (\<lparr>ps_changed = True, ps_kind = kind, ps_user = actor, ps_notices = raised_notices t d told db1,
                ps_recorded = True\<rparr>, record_event e db1))"

definition pause_row :: "device_row \<Rightarrow> device_row" where
  "pause_row v = v\<lparr>dv_paused := True, dv_cause := Some ''person'', dv_pauses := dv_pauses v + 1\<rparr>"

definition pause_number :: "tx \<Rightarrow> uuid \<Rightarrow> uuid \<Rightarrow> pause_actor \<Rightarrow> db \<Rightarrow> access_error + (paused \<times> db)" where
  "pause_number x t d who db =
     (case device_of False db t d of None \<Rightarrow> Inl RowNotFound
      | Some v \<Rightarrow> and_then (write_device False t d pause_row db) (\<lambda>db1.
          if dv_paused v then Inr (not_paused, db1)
          else and_then (pause_by db1 t who) (\<lambda>(kind, actor). Inr (tell_pause x t v kind actor db1))))"

definition mark_resumed :: "tx \<Rightarrow> uuid \<Rightarrow> uuid \<Rightarrow> db \<Rightarrow> db" where
  "mark_resumed x t d db =
     (if (case device_of False db t d of None \<Rightarrow> False | Some v \<Rightarrow> \<not> dv_paused v)
      then db\<lparr>db_notices := map (\<lambda>n. if nt_tenant n = t \<and> nt_device n = d \<and> nt_kind n = ''sync_paused''
            \<and> nt_resumed n = None \<and> nt_seen n = None then n\<lparr>nt_resumed := Some (tx_clock x)\<rparr> else n) (db_notices db)\<rparr>
      else db)"

end
