(* ===== verification/Deletion.thy ===== *)
theory Deletion
  imports Numbers
begin

text \<open>
  Deleting a number and recovering it (internal/store/device_deletion.go). A deletion excludes the number: its
  row stays for thirty days, hidden by the quarantine, and an owner may recover it until the purge starts.

  Every operation is one transaction. The WhatsApp library's session store is in the same database, as in
  every deployment. The device lock of \<^verbatim>\<open>pg.TryLockTx\<close> is an argument of \<open>recover\<close>: whether it was free.
  Display columns that only a console reads (a key's name, the bytes a number holds) are left out.
\<close>

section \<open>Who may, and who reads\<close>

definition require_owner :: "db \<Rightarrow> uuid \<Rightarrow> uuid \<Rightarrow> access_error + unit" where
  "require_owner db t actor =
     (case lock_workspace_manager db t actor of
        Inl e \<Rightarrow> Inl (if e = MembershipForbidden then OwnerOnly else e)
      | Inr role \<Rightarrow> require (role = ''owner'') OwnerOnly)"

definition owner_now :: "db \<Rightarrow> uuid \<Rightarrow> uuid \<Rightarrow> access_error + unit" where
  "owner_now db t actor = require (tenant_active db t \<and> status_active db actor
     \<and> (case member_of db t actor of None \<Rightarrow> False | Some m \<Rightarrow> mb_role m = ''owner'' \<and> mb_status m = ''active'')) OwnerOnly"

type_synonym person = "uuid \<times> string \<times> string"

definition person_of :: "user_row \<Rightarrow> person" where
  "person_of r = (us_id r, us_name r, us_email r)"

definition other_readers :: "timestamp \<Rightarrow> db \<Rightarrow> uuid \<Rightarrow> uuid \<Rightarrow> uuid \<Rightarrow> user_row list" where
  "other_readers now db t actor d = filter (\<lambda>r. us_id r \<noteq> actor) (readers now db t d)"

definition service_domain :: string where "service_domain = ''@service.''"

fun cut_before :: "string \<Rightarrow> string \<Rightarrow> string" where
  "cut_before sep [] = []"
| "cut_before sep (c # cs) = (if prefix sep (c # cs) then [] else c # cut_before sep cs)"

definition service_name :: "user_row \<Rightarrow> string" where
  "service_name r = (if us_role r = ''service'' then cut_before service_domain (us_email r) else us_email r)"

text \<open>The standing service accounts that read the number: no deadline, named by no connection.\<close>

definition service_reads :: "db \<Rightarrow> uuid \<Rightarrow> device_row \<Rightarrow> user_row \<Rightarrow> bool" where
  "service_reads db t v r =
     (case member_of db t (us_id r) of None \<Rightarrow> False
      | Some m \<Rightarrow> mb_role m = ''service'' \<and> mb_status m = ''active'' \<and> us_status r = ''active'' \<and> mb_expires m = None
          \<and> \<not> named_by_connection db (us_id r) \<and> can_read_flag db t (dv_id v) (us_id r) \<and> holds_key db t (us_id r) v)"

definition service_readers :: "db \<Rightarrow> uuid \<Rightarrow> uuid \<Rightarrow> (uuid \<times> string) list" where
  "service_readers db t d =
     (case device_of True db t d of None \<Rightarrow> []
      | Some v \<Rightarrow> map (\<lambda>r. (us_id r, service_name r))
          (sort_key us_email (sort_key us_id (filter (service_reads db t v) (db_users db)))))"

text \<open>The working keys for every number, in the order they were made.\<close>

definition all_number_keys :: "timestamp \<Rightarrow> db \<Rightarrow> uuid \<Rightarrow> (string \<times> string) list" where
  "all_number_keys now db t = map (\<lambda>k. (ky_prefix k, display_name db t (ky_creator k)))
     (filter (\<lambda>k. ky_tenant k = t \<and> \<not> ky_restricted k \<and> ky_acts k = None \<and> ky_revoked k = None
        \<and> before now (ky_expires k) \<and> \<not> list_ex (\<lambda>c. cn_key c = ky_id k) (db_connections db)) (db_keys db))"

definition session_exists :: "db \<Rightarrow> string \<Rightarrow> int option \<Rightarrow> bool" where
  "session_exists db jid reg \<longleftrightarrow> jid \<noteq> [] \<and>
     list_ex (\<lambda>(j, r). j = jid \<and> (case reg of None \<Rightarrow> True | Some g \<Rightarrow> r = g)) (db_wa_sessions db)"

definition holder_grants :: "db \<Rightarrow> uuid \<Rightarrow> device_row \<Rightarrow> grant_row list" where
  "holder_grants db t v = filter (\<lambda>g. gr_tenant g = t \<and> gr_device g = dv_id v \<and> gr_epoch g = dv_epoch v
     \<and> unretired db t (dv_id v) (gr_epoch g) \<and> standing db t (gr_user g) \<and> status_active db (gr_user g)
     \<and> can_read_flag db t (dv_id v) (gr_user g) \<and> \<not> named_by_connection db (gr_user g)) (db_grants db)"

definition key_holders :: "db \<Rightarrow> uuid \<Rightarrow> uuid \<Rightarrow> nat" where
  "key_holders db t d = (case device_of True db t d of None \<Rightarrow> 0
     | Some v \<Rightarrow> card (gr_user ` set (holder_grants db t v)))"

section \<open>The preflight of a deletion\<close>

definition assistant_kind :: "string \<Rightarrow> string" where
  "assistant_kind kind = (if kind = ''ai'' then ''ai'' else ''assistant'')"

text \<open>The live connections whose key names the number.\<close>

definition assistants_of :: "db \<Rightarrow> uuid \<Rightarrow> uuid \<Rightarrow> connection_row list" where
  "assistants_of db t d = filter (\<lambda>c. cn_tenant c = t \<and> (cn_key c, d) \<in> set (db_key_devices db)
     \<and> live_status (cn_status c)) (db_connections db)"

record deletion_check =
  dc_readers :: "person list"
  dc_services :: "(uuid \<times> string) list"
  dc_assistants :: "(uuid \<times> string \<times> string \<times> string) list"
  dc_keys :: "(string \<times> bool) list"
  dc_all_keys :: "(string \<times> string) list"
  dc_session :: bool
  dc_checked :: timestamp
  dc_until :: timestamp

definition thirty_days :: duration where
  "thirty_days = 30 * 24 * 60 * minute"

definition narrowed_by :: "timestamp \<Rightarrow> db \<Rightarrow> uuid \<Rightarrow> uuid \<Rightarrow> (string \<times> bool) list" where
  "narrowed_by now db t d = map (\<lambda>k. (ky_prefix k, list_all (\<lambda>(i, v). i = ky_id k \<longrightarrow> v = d) (db_key_devices db)))
     (filter (\<lambda>k. ky_tenant k = t \<and> (ky_id k, d) \<in> set (db_key_devices db) \<and> ky_revoked k = None
        \<and> before now (ky_expires k) \<and> \<not> list_ex (\<lambda>c. cn_key c = ky_id k) (db_connections db)) (db_keys db))"

definition delete_check :: "tx \<Rightarrow> uuid \<Rightarrow> uuid \<Rightarrow> uuid \<Rightarrow> db \<Rightarrow> access_error + deletion_check" where
  "delete_check x t actor d db =
     and_then (owner_now db t actor) (\<lambda>_.
       case device_of False db t d of None \<Rightarrow> Inl RowNotFound
       | Some v \<Rightarrow> Inr \<lparr>dc_readers = map person_of (other_readers (tx_now x) db t actor d),
           dc_services = service_readers db t d,
           dc_assistants = map (\<lambda>c. (cn_id c, cn_client c, display_name db t (Some (cn_creator c)), assistant_kind (cn_kind c)))
             (assistants_of db t d),
           dc_keys = narrowed_by (tx_now x) db t d, dc_all_keys = all_number_keys (tx_now x) db t,
           dc_session = session_exists db (dv_pn v) None,
           dc_checked = tx_clock x, dc_until = tx_clock x + thirty_days\<rparr>)"

section \<open>Deleting\<close>

definition note_unconfirmed :: string where "note_unconfirmed = ''unlink_unconfirmed''"
definition note_disconnected :: string where "note_disconnected = ''already_disconnected''"
definition reason_deleted :: string where "reason_deleted = ''deleted''"
definition reason_no_session :: string where "reason_no_session = ''no session at deletion''"
definition reason_unlinked :: string where "reason_unlinked = ''unlinked when deleted''"

definition note_code :: "bool \<Rightarrow> string \<Rightarrow> string" where
  "note_code leftover reason = (if leftover then note_unconfirmed
     else if reason = reason_no_session then note_disconnected else '''')"

record quarantined =
  qu_already :: bool
  qu_deleted :: timestamp
  qu_purge :: timestamp
  qu_session :: "(string \<times> int) option"
  qu_unlinked :: bool
  qu_note :: string
  qu_ended :: "(uuid \<times> string \<times> string) list"
  qu_narrowed :: "string list"

definition dead_status :: "string \<Rightarrow> bool" where
  "dead_status s \<longleftrightarrow> s = ''logged_out'' \<or> s = ''banned''"

definition session_of :: "db \<Rightarrow> device_row \<Rightarrow> (string \<times> int) option" where
  "session_of db v = (if dv_pn v = [] then None else find (\<lambda>(j, r). j = dv_pn v) (db_wa_sessions db))"

definition fingerprint :: "string \<times> int \<Rightarrow> leftover_row" where
  "fingerprint w = \<lparr>lo_jid = fst w, lo_reg = snd w, lo_attempts = 0\<rparr>"

definition exclude_row :: "timestamp \<Rightarrow> uuid \<Rightarrow> (string \<times> int) option \<Rightarrow> device_row \<Rightarrow> device_row" where
  "exclude_row at actor session v = v\<lparr>dv_deleted := Some at, dv_deleted_by := Some actor,
     dv_purge := Some (at + thirty_days), dv_paused := True, dv_cause := Some ''deletion'',
     dv_status := (if session = None \<and> dv_status v \<noteq> ''banned'' then ''logged_out''
        else if dead_status (dv_status v) then dv_status v else ''offline''),
     dv_reason := (if session = None then reason_no_session
        else if dead_status (dv_status v) then dv_reason v else reason_deleted),
     dv_leftover := map_option fingerprint session\<rparr>"

text \<open>The connections end one after another, in the order of their ids.\<close>

fun end_listed :: "timestamp \<Rightarrow> uuid \<Rightarrow> uuid list \<Rightarrow> db \<Rightarrow> access_error + db" where
  "end_listed now t [] db = Inr db"
| "end_listed now t (i # is) db =
     and_then (end_connection now t i ''revoked'' ''access_lost'' db) (\<lambda>(_, db'). end_listed now t is db')"

definition off_keys :: "uuid \<Rightarrow> uuid list \<Rightarrow> db \<Rightarrow> string list \<times> db" where
  "off_keys d ended_keys db =
     (let narrowed = filter (\<lambda>k. (ky_id k, d) \<in> set (db_key_devices db) \<and> ky_revoked k = None \<and> ky_id k \<notin> set ended_keys)
            (db_keys db) in
      (map ky_prefix narrowed, delete_key_devices (\<lambda>(k, v). v = d) db))"

definition requeue_downloads :: "uuid \<Rightarrow> db \<Rightarrow> db" where
  "requeue_downloads d db =
     (let theirs = map me_uid (filter (\<lambda>m. me_device m = d) (db_messages db)) in
      db\<lparr>db_media := map (\<lambda>f. if md_status f = ''downloading'' \<and> md_message f \<in> set theirs
        then f\<lparr>md_status := ''pending'', md_claimed := None\<rparr> else f) (db_media db)\<rparr>)"

text \<open>Who is told in Wappie's own pages: the readers, and the workspace's other owners.\<close>

definition other_owners :: "db \<Rightarrow> uuid \<Rightarrow> uuid \<Rightarrow> uuid list" where
  "other_owners db t actor = map mb_user (filter (\<lambda>m. mb_tenant m = t \<and> mb_role m = ''owner'' \<and> mb_status m = ''active''
     \<and> status_active db (mb_user m) \<and> mb_user m \<noteq> actor) (db_members db))"

definition deletion_notice :: "tx \<Rightarrow> uuid \<Rightarrow> uuid \<Rightarrow> device_row \<Rightarrow> uuid \<Rightarrow> notice_row" where
  "deletion_notice x t actor v u = \<lparr>nt_id = 0, nt_tenant = t, nt_device = dv_id v, nt_user = u, nt_kind = ''number_deleted'',
     nt_label = item_label x v, nt_hint = hint_from_pn (dv_pn v), nt_raised_at = tx_clock x, nt_last = None,
     nt_pauses = 1, nt_raised_by = Some actor, nt_raised_kind = ''person'', nt_several = False,
     nt_until = Some (tx_clock x + thirty_days), nt_resumed = None, nt_purged = None, nt_seen = None\<rparr>"

definition drop_notices :: "uuid \<Rightarrow> uuid \<Rightarrow> string \<Rightarrow> db \<Rightarrow> db" where
  "drop_notices t d kind db = db\<lparr>db_notices := filter (\<lambda>n. \<not> (nt_tenant n = t \<and> nt_device n = d \<and> nt_kind n = kind))
     (db_notices db)\<rparr>"

definition tell_deletion :: "tx \<Rightarrow> uuid \<Rightarrow> uuid \<Rightarrow> device_row \<Rightarrow> uuid list \<Rightarrow> db \<Rightarrow> db" where
  "tell_deletion x t actor v told db =
     fold (\<lambda>u. put_notice (deletion_notice x t actor v u)) (remdups (told @ other_owners db t actor))
       (drop_notices t (dv_id v) ''sync_paused'' db)"

text \<open>Everyone else who holds a key copy or a permission reconnects.\<close>

definition bump_holders :: "uuid \<Rightarrow> uuid \<Rightarrow> uuid \<Rightarrow> db \<Rightarrow> db" where
  "bump_holders t actor d db = db\<lparr>db_members := bump (\<lambda>w u. if w = t \<and> u \<noteq> actor
       \<and> (list_ex (\<lambda>g. gr_tenant g = t \<and> gr_device g = d \<and> gr_user g = u) (db_grants db)
          \<or> list_ex (\<lambda>p. pm_tenant p = t \<and> pm_device p = d \<and> pm_user p = u) (db_perms db)) then 1 else 0) (db_members db)\<rparr>"

definition deleted_event :: "tx \<Rightarrow> uuid \<Rightarrow> uuid \<Rightarrow> device_row \<Rightarrow> user_row list \<Rightarrow> db \<Rightarrow> event_row" where
  "deleted_event x t actor v rs db =
     (named_event x v (by_actor db ''person'' (Some actor) (item_event x t ''deleted'' v (tx_clock x) rs)))
       \<lparr>ev_deleted := Some (tx_clock x), ev_purge := Some (tx_clock x + thirty_days)\<rparr>"

definition exclude_number :: "tx \<Rightarrow> uuid \<Rightarrow> uuid \<Rightarrow> device_row \<Rightarrow> db \<Rightarrow> access_error + (quarantined \<times> db)" where
  "exclude_number x t actor v db =
     (let d = dv_id v; rs = readers (tx_now x) db t d; told = map us_id (other_readers (tx_now x) db t actor d);
          ending = sort_key cn_id (assistants_of db t d) in
      and_then (end_listed (tx_now x) t (map cn_id ending) db) (\<lambda>db1.
      let (narrowed, db2) = off_keys d (map cn_key ending) db1;
          db3 = requeue_downloads d db2; session = session_of db3 v in
      and_then (write_device True t d (exclude_row (tx_clock x) actor session) db3) (\<lambda>db4.
      let db5 = bump_holders t actor d (tell_deletion x t actor v told db4) in
      Inr (\<lparr>qu_already = False, qu_deleted = tx_clock x, qu_purge = tx_clock x + thirty_days, qu_session = session,
          qu_unlinked = False, qu_note = '''',
          qu_ended = map (\<lambda>c. (cn_id c, cn_client c, assistant_kind (cn_kind c))) ending, qu_narrowed = narrowed\<rparr>,
        record_event (deleted_event x t actor v rs db5) db5))))"

definition already_excluded :: "device_row \<Rightarrow> timestamp \<Rightarrow> timestamp \<Rightarrow> quarantined" where
  "already_excluded v at purge = \<lparr>qu_already = True, qu_deleted = at, qu_purge = purge, qu_session = None,
     qu_unlinked = (dv_leftover v = None), qu_note = note_code (dv_leftover v \<noteq> None) (dv_reason v),
     qu_ended = [], qu_narrowed = []\<rparr>"

definition quarantine :: "tx \<Rightarrow> uuid \<Rightarrow> uuid \<Rightarrow> uuid \<Rightarrow> uuid list \<Rightarrow> db \<Rightarrow> access_error + (quarantined \<times> db)" where
  "quarantine x t actor d acknowledged db =
     and_then (require_owner db t actor) (\<lambda>_.
       case device_of True db t d of None \<Rightarrow> Inl RowNotFound
       | Some v \<Rightarrow> (case dv_deleted v of
           Some at \<Rightarrow> Inr (already_excluded v at (case dv_purge v of None \<Rightarrow> at | Some p \<Rightarrow> p), db)
         | None \<Rightarrow>
             if never_linked v then Inl PendingDevice
             else let others = other_readers (tx_now x) db t actor d in
               if list_ex (\<lambda>r. us_id r \<notin> set acknowledged) others then Inl (DeviceHasReaders (map person_of others))
               else exclude_number x t actor v db))"

end
