(* ===== verification/Recovery.thy ===== *)
theory Recovery
  imports Deletion
begin

text \<open>
  What follows a deletion (the second half of internal/store/device_deletion.go): the record of the WhatsApp
  logout, the sessions left over for the janitor, what an owner is shown, and the recovery.
\<close>

section \<open>A deleted number as an owner sees it\<close>

record excluded =
  ex_deleted :: timestamp
  ex_purge :: timestamp
  ex_unlinked :: bool
  ex_note :: string

definition deleted_of :: "db \<Rightarrow> uuid \<Rightarrow> uuid \<Rightarrow> (device_row \<times> timestamp) option" where
  "deleted_of db t d = (case device_of True db t d of None \<Rightarrow> None
     | Some v \<Rightarrow> map_option (Pair v) (dv_deleted v))"

definition purge_date :: "device_row \<Rightarrow> timestamp" where
  "purge_date v = (case dv_purge v of None \<Rightarrow> 0 | Some p \<Rightarrow> p)"

definition get_excluded :: "uuid \<Rightarrow> uuid \<Rightarrow> uuid \<Rightarrow> db \<Rightarrow> access_error + excluded" where
  "get_excluded t actor d db =
     (case owner_now db t actor of Inl e \<Rightarrow> Inl (if e = OwnerOnly then RowNotFound else e)
      | Inr _ \<Rightarrow> (case deleted_of db t d of None \<Rightarrow> Inl RowNotFound
          | Some (v, at) \<Rightarrow> Inr \<lparr>ex_deleted = at, ex_purge = purge_date v, ex_unlinked = (dv_leftover v = None),
              ex_note = note_code (dv_leftover v \<noteq> None) (dv_reason v)\<rparr>))"

section \<open>The record of the logout\<close>

record unlink_record =
  ur_unlinked :: bool
  ur_note :: string

definition logged_out_status :: "string \<Rightarrow> string" where
  "logged_out_status s = (if s = ''banned'' then s else ''logged_out'')"

text \<open>The privacy tokens of a session that has gone, unless a session is there under its JID again.\<close>

definition delete_privacy_tokens :: "string \<Rightarrow> db \<Rightarrow> db" where
  "delete_privacy_tokens jid db =
     (if list_ex (\<lambda>(j, r). j = jid) (db_wa_sessions db) then db
      else db\<lparr>db_wa_tokens := filter (\<lambda>j. j \<noteq> jid) (db_wa_tokens db)\<rparr>)"

definition unlinked_row :: "device_row \<Rightarrow> device_row" where
  "unlinked_row v = v\<lparr>dv_status := logged_out_status (dv_status v), dv_reason := reason_unlinked, dv_leftover := None\<rparr>"

definition one_more_attempt :: "device_row \<Rightarrow> device_row" where
  "one_more_attempt v = v\<lparr>dv_leftover := map_option (\<lambda>l. l\<lparr>lo_attempts := lo_attempts l + 1\<rparr>) (dv_leftover v)\<rparr>"

definition record_unlink :: "uuid \<Rightarrow> uuid \<Rightarrow> timestamp \<Rightarrow> bool \<Rightarrow> db \<Rightarrow> access_error + (unlink_record \<times> db)" where
  "record_unlink t d deleted_at acknowledged db =
     (case deleted_of db t d of None \<Rightarrow> Inl RowNotFound
      | Some (v, at) \<Rightarrow>
          if at \<noteq> deleted_at then Inl RowNotFound
          else case dv_leftover v of
            None \<Rightarrow> Inr (\<lparr>ur_unlinked = True, ur_note = note_code False (dv_reason v)\<rparr>, db)
          | Some l \<Rightarrow>
              if acknowledged \<and> \<not> session_exists db (lo_jid l) (Some (lo_reg l))
              then and_then (write_device True t d unlinked_row db) (\<lambda>db1.
                Inr (\<lparr>ur_unlinked = True, ur_note = ''''\<rparr>, delete_privacy_tokens (lo_jid l) db1))
              else and_then (write_device True t d one_more_attempt db) (\<lambda>db1.
                Inr (\<lparr>ur_unlinked = False, ur_note = note_unconfirmed\<rparr>, db1)))"

text \<open>What every logout asks right before WhatsApp: is the number still excluded by this deletion, and, for the
  janitor's retry, is the session still exactly the fingerprinted one.\<close>

definition still_excluded :: "uuid \<Rightarrow> uuid \<Rightarrow> timestamp \<Rightarrow> int option \<Rightarrow> db \<Rightarrow> bool" where
  "still_excluded t d deleted_at reg db =
     (case deleted_of db t d of None \<Rightarrow> False
      | Some (v, at) \<Rightarrow> at = deleted_at \<and> (case reg of None \<Rightarrow> True
          | Some g \<Rightarrow> (case dv_leftover v of None \<Rightarrow> False
              | Some l \<Rightarrow> lo_reg l = g \<and> session_exists db (lo_jid l) (Some g))))"

section \<open>Sessions left over\<close>

definition max_unlink_attempts :: nat where "max_unlink_attempts = 3"

record leftover =
  lf_device :: uuid
  lf_deleted :: timestamp
  lf_row :: leftover_row
  lf_present :: bool

definition left_over :: "device_row \<Rightarrow> bool" where
  "left_over v \<longleftrightarrow> dv_deleted v \<noteq> None \<and> dv_purge_started v = None \<and> dv_status v \<noteq> ''logged_out''
     \<and> (case dv_leftover v of None \<Rightarrow> False | Some l \<Rightarrow> lo_attempts l < max_unlink_attempts)"

definition leftover_of :: "db \<Rightarrow> device_row \<Rightarrow> leftover option" where
  "leftover_of db v = (case (dv_deleted v, dv_leftover v) of
       (Some at, Some l) \<Rightarrow> Some \<lparr>lf_device = dv_id v, lf_deleted = at, lf_row = l,
          lf_present = session_exists db (lo_jid l) (Some (lo_reg l))\<rparr>
     | _ \<Rightarrow> None)"

definition leftover_sessions :: "uuid \<Rightarrow> db \<Rightarrow> leftover list" where
  "leftover_sessions t db = List.map_filter (leftover_of db)
     (sort_key (\<lambda>v. date_or_zero (dv_deleted v)) (sort_key dv_id (filter (\<lambda>v. dv_tenant v = t \<and> left_over v) (db_devices db))))"

section \<open>What an owner is shown\<close>

record recovery_state =
  rs_status :: string
  rs_reason :: string
  rs_logged_out :: bool
  rs_can_resume :: bool
  rs_holders :: nat

definition recovery_state_of :: "db \<Rightarrow> uuid \<Rightarrow> device_row \<Rightarrow> bool \<Rightarrow> recovery_state" where
  "recovery_state_of db t v present = \<lparr>rs_status = dv_status v, rs_reason = dv_reason v,
     rs_logged_out = (dv_status v = ''logged_out''), rs_can_resume = (\<not> dead_status (dv_status v) \<and> present),
     rs_holders = key_holders db t (dv_id v)\<rparr>"

definition leftover_present :: "db \<Rightarrow> device_row \<Rightarrow> bool" where
  "leftover_present db v = (case dv_leftover v of None \<Rightarrow> False | Some l \<Rightarrow> session_exists db (lo_jid l) (Some (lo_reg l)))"

record deleted_number =
  dn_device :: uuid
  dn_label :: string
  dn_push :: string
  dn_pn :: string
  dn_deleted :: timestamp
  dn_by :: string
  dn_until :: timestamp
  dn_recoverable :: bool
  dn_purging :: bool
  dn_unlinked :: bool
  dn_note :: string
  dn_state :: recovery_state

definition recoverable :: "timestamp \<Rightarrow> device_row \<Rightarrow> bool" where
  "recoverable clock v \<longleftrightarrow> dv_purge_started v = None \<and> clock < purge_date v"

definition deleted_number_of :: "timestamp \<Rightarrow> db \<Rightarrow> uuid \<Rightarrow> device_row \<Rightarrow> timestamp \<Rightarrow> deleted_number" where
  "deleted_number_of clock db t v at = \<lparr>dn_device = dv_id v, dn_label = dv_label v, dn_push = dv_push v, dn_pn = dv_pn v,
     dn_deleted = at, dn_by = display_name db t (dv_deleted_by v), dn_until = purge_date v,
     dn_recoverable = recoverable clock v, dn_purging = (dv_purge_started v \<noteq> None),
     dn_unlinked = (dv_leftover v = None), dn_note = note_code (dv_leftover v \<noteq> None) (dv_reason v),
     dn_state = recovery_state_of db t v (leftover_present db v)\<rparr>"

definition list_deleted :: "tx \<Rightarrow> uuid \<Rightarrow> uuid \<Rightarrow> db \<Rightarrow> access_error + deleted_number list" where
  "list_deleted x t actor db =
     and_then (owner_now db t actor) (\<lambda>_.
       Inr (List.map_filter (\<lambda>v. map_option (deleted_number_of (tx_clock x) db t v) (dv_deleted v))
         (sort_key (\<lambda>v. - date_or_zero (dv_deleted v)) (sort_key dv_id
           (filter (\<lambda>v. dv_tenant v = t \<and> dv_deleted v \<noteq> None) (db_devices db))))))"

text \<open>Who a recovery gives the number back to without reading it: a sender, or a member who manages it.\<close>

record other_access =
  oa_id :: uuid
  oa_service :: bool
  oa_name :: string
  oa_email :: string
  oa_why :: "string list"

definition other_holder :: "timestamp \<Rightarrow> db \<Rightarrow> uuid \<Rightarrow> uuid \<Rightarrow> user_row \<Rightarrow> member_row \<Rightarrow> perm_row \<Rightarrow> bool" where
  "other_holder now db t actor r m p \<longleftrightarrow> us_id r \<noteq> actor \<and> mb_status m = ''active'' \<and> us_status r = ''active''
     \<and> (pm_send p \<or> pm_manage p \<and> \<not> manager_role (mb_role m))
     \<and> (mb_role m \<noteq> ''service'' \<and> us_role r \<noteq> ''service'' \<and> before now (mb_expires m)
        \<or> mb_role m = ''service'' \<and> mb_expires m = None \<and> \<not> named_by_connection db (us_id r))"

definition other_access_of :: "user_row \<Rightarrow> member_row \<Rightarrow> perm_row \<Rightarrow> other_access" where
  "other_access_of r m p = (let service = mb_role m = ''service'' in
     \<lparr>oa_id = us_id r, oa_service = service, oa_name = (if service then cut_before service_domain (us_email r) else us_name r),
      oa_email = (if service then '''' else us_email r),
      oa_why = (if pm_send p then [''send''] else []) @ (if pm_manage p \<and> \<not> manager_role (mb_role m) then [''manage''] else [])\<rparr>)"

definition recovery_others :: "timestamp \<Rightarrow> db \<Rightarrow> uuid \<Rightarrow> uuid \<Rightarrow> uuid \<Rightarrow> uuid list \<Rightarrow> other_access list" where
  "recovery_others now db t d actor listed =
     (if device_of True db t d = None then []
      else filter (\<lambda>a. oa_id a \<notin> set listed) (List.map_filter
        (\<lambda>r. case (member_of db t (us_id r), perm_of db t d (us_id r)) of
           (Some m, Some p) \<Rightarrow> if other_holder now db t actor r m p then Some (other_access_of r m p) else None
         | _ \<Rightarrow> None)
        (sort_key (\<lambda>r. case member_of db t (us_id r) of Some m \<Rightarrow> mb_role m = ''service'' | None \<Rightarrow> False)
          (sort_key (\<lambda>r. ascii_lower (us_email r)) (sort_key us_id (db_users db))))))"

record recovery_check =
  rc_readers :: "person list"
  rc_services :: "(uuid \<times> string) list"
  rc_others :: "other_access list"
  rc_all_keys :: "(string \<times> string) list"
  rc_recoverable :: bool
  rc_state :: recovery_state

definition recover_check :: "tx \<Rightarrow> uuid \<Rightarrow> uuid \<Rightarrow> uuid \<Rightarrow> db \<Rightarrow> access_error + recovery_check" where
  "recover_check x t actor d db =
     and_then (owner_now db t actor) (\<lambda>_.
       case deleted_of db t d of None \<Rightarrow> Inl RowNotFound
       | Some (v, at) \<Rightarrow>
           let rs = other_readers (tx_now x) db t actor d; services = service_readers db t d in
           Inr \<lparr>rc_readers = map person_of rs, rc_services = services,
             rc_others = recovery_others (tx_now x) db t d actor (map us_id rs @ map fst services),
             rc_all_keys = all_number_keys (tx_now x) db t, rc_recoverable = recoverable (tx_clock x) v,
             rc_state = recovery_state_of db t v (leftover_present db v)\<rparr>)"

section \<open>Recovering\<close>

record recovered =
  rd_already :: bool
  rd_state :: recovery_state

definition recover_row :: "bool \<Rightarrow> device_row \<Rightarrow> device_row" where
  "recover_row gone v = v\<lparr>dv_deleted := None, dv_deleted_by := None, dv_purge := None, dv_leftover := None,
     dv_cause := Some ''person'', dv_status := (if gone then logged_out_status (dv_status v) else dv_status v),
     dv_reason := (if gone then reason_unlinked else dv_reason v)\<rparr>"

text \<open>A fingerprinted session that is gone was logged out, and only its record is missing.\<close>

definition session_gone :: "db \<Rightarrow> device_row \<Rightarrow> bool" where
  "session_gone db v = (case dv_leftover v of None \<Rightarrow> False | Some l \<Rightarrow> \<not> session_exists db (lo_jid l) (Some (lo_reg l)))"

definition tokens_of_gone :: "device_row \<Rightarrow> db \<Rightarrow> db" where
  "tokens_of_gone v db = (case dv_leftover v of None \<Rightarrow> db
     | Some l \<Rightarrow> if session_gone db v then delete_privacy_tokens (lo_jid l) db else db)"

definition identity_in_use :: "access_error + 'a \<Rightarrow> access_error + 'a" where
  "identity_in_use r = (case r of Inl e \<Rightarrow> Inl (if e = Constraint unique_identity then IdentityInUse else e) | Inr y \<Rightarrow> Inr y)"

definition recovered_stranded :: "uuid \<Rightarrow> uuid \<Rightarrow> db \<Rightarrow> db" where
  "recovered_stranded t d db = db\<lparr>db_notices := map (\<lambda>n. if nt_tenant n = t \<and> nt_device n = d \<and> nt_kind n = ''number_stranded''
     then n\<lparr>nt_until := None\<rparr> else n) (db_notices db)\<rparr>"

definition recovered_event :: "tx \<Rightarrow> uuid \<Rightarrow> uuid \<Rightarrow> device_row \<Rightarrow> timestamp \<Rightarrow> db \<Rightarrow> event_row" where
  "recovered_event x t actor v deleted_at db =
     (named_event x v (by_actor db ''person'' (Some actor)
       (item_event x t ''recovered'' v deleted_at (readers (tx_now x) db t (dv_id v)))))\<lparr>ev_deleted := Some deleted_at\<rparr>"

definition bring_back :: "tx \<Rightarrow> uuid \<Rightarrow> uuid \<Rightarrow> device_row \<Rightarrow> timestamp \<Rightarrow> db \<Rightarrow> access_error + (recovered \<times> db)" where
  "bring_back x t actor v deleted_at db =
     (let d = dv_id v; gone = session_gone db v in
      and_then (identity_in_use (write_device True t d (recover_row gone) db)) (\<lambda>db1.
      let db2 = tokens_of_gone v db1;
          state = recovery_state_of db2 t (recover_row gone v) (session_exists db2 (dv_pn v) None);
          db3 = bump_holders t actor d (recovered_stranded t d (drop_notices t d ''number_deleted'' db2)) in
      Inr (\<lparr>rd_already = False, rd_state = state\<rparr>, record_event (recovered_event x t actor v deleted_at db3) db3)))"

definition recover :: "tx \<Rightarrow> uuid \<Rightarrow> uuid \<Rightarrow> uuid \<Rightarrow> bool \<Rightarrow> db \<Rightarrow> access_error + (recovered \<times> db)" where
  "recover x t actor d lock_free db =
     and_then (require_owner db t actor) (\<lambda>_.
       case device_of True db t d of None \<Rightarrow> Inl RowNotFound
       | Some v \<Rightarrow> (case dv_deleted v of
           None \<Rightarrow> Inr (\<lparr>rd_already = True, rd_state = recovery_state_of db t v (session_exists db (dv_pn v) None)\<rparr>, db)
         | Some at \<Rightarrow>
             if dv_purge_started v \<noteq> None \<or> purge_date v \<le> tx_clock x then Inl RecoveryClosed
             else if \<not> lock_free then Inl DeviceBusy
             else if (case max_devices db t of None \<Rightarrow> False | Some n \<Rightarrow> n \<le> device_usage False db t) then Inl CapacityReached
             else bring_back x t actor v at db))"

end
