(* ===== verification/Purge.thy ===== *)
theory Purge
  imports Recovery
begin

text \<open>
  The purge of a deleted number (internal/store/purge.go) with the deletion of the objects it releases
  (DeleteObject of storage.go, Unreferenced of retention.go).

  Each transaction is a definition of its own; \<open>purge_device\<close> composes them as PurgeDevice does. The budget of
  its context is the number of times the context is found alive: it is asked before each batch and before each
  object. A LIMIT with no order takes the first rows of the table.
\<close>

section \<open>What is due\<close>

definition due_numbers :: "timestamp \<Rightarrow> uuid \<Rightarrow> db \<Rightarrow> device_row list" where
  "due_numbers clock t db = sort_key purge_date (sort_key dv_id (filter (\<lambda>v. dv_tenant v = t \<and> dv_deleted v \<noteq> None
     \<and> (case dv_purge v of None \<Rightarrow> False | Some p \<Rightarrow> p \<le> clock)) (db_devices db)))"

definition due_deletions :: "timestamp \<Rightarrow> uuid \<Rightarrow> nat \<Rightarrow> db \<Rightarrow> (uuid \<times> duration) list \<times> nat" where
  "due_deletions clock t limit db =
     (let due = due_numbers clock t db in (map (\<lambda>v. (dv_id v, clock - purge_date v)) (take limit due), length due))"

record operator_deleted =
  od_device :: uuid
  od_deleted :: timestamp
  od_purge :: timestamp
  od_started :: bool
  od_due :: bool
  od_due_for :: duration
  od_status :: string
  od_leftover :: bool

definition list_all_deleted :: "timestamp \<Rightarrow> uuid \<Rightarrow> db \<Rightarrow> operator_deleted list" where
  "list_all_deleted clock t db = map (\<lambda>v. \<lparr>od_device = dv_id v, od_deleted = date_or_zero (dv_deleted v),
       od_purge = purge_date v, od_started = (dv_purge_started v \<noteq> None), od_due = (purge_date v \<le> clock),
       od_due_for = max (clock - purge_date v) 0, od_status = dv_status v, od_leftover = (dv_leftover v \<noteq> None)\<rparr>)
     (sort_key purge_date (sort_key dv_id (filter (\<lambda>v. dv_tenant v = t \<and> dv_deleted v \<noteq> None) (db_devices db))))"

section \<open>Objects\<close>

text \<open>\<^verbatim>\<open>DeleteObject\<close>: an object of the workspace that none of its attachments names. The bucket is asked only when
  no other workspace owns the same ciphertext; what it answers is the argument \<open>bucket\<close>.\<close>

definition names_object :: "uuid \<Rightarrow> string \<Rightarrow> media_row \<Rightarrow> bool" where
  "names_object t k f \<longleftrightarrow> md_tenant f = t \<and> (md_object f = Some k \<or> md_content f = Some k)"

definition owned_elsewhere :: "uuid \<Rightarrow> string \<Rightarrow> db \<Rightarrow> bool" where
  "owned_elsewhere t k db \<longleftrightarrow> list_ex (\<lambda>(w, j). j = k \<and> w \<noteq> t) (db_objects db)"

definition asks_bucket :: "uuid \<Rightarrow> string \<Rightarrow> db \<Rightarrow> bool" where
  "asks_bucket t k db \<longleftrightarrow> (t, k) \<in> set (db_objects db) \<and> \<not> list_ex (names_object t k) (db_media db) \<and> \<not> owned_elsewhere t k db"

definition delete_object :: "(string \<Rightarrow> bool) \<Rightarrow> uuid \<Rightarrow> string \<Rightarrow> db \<Rightarrow> db option" where
  "delete_object bucket t k db =
     (if (t, k) \<notin> set (db_objects db) \<or> list_ex (names_object t k) (db_media db) then Some db
      else if \<not> owned_elsewhere t k db \<and> \<not> bucket k then None
      else Some (db\<lparr>db_objects := filter (\<lambda>e. e \<noteq> (t, k)) (db_objects db)\<rparr>))"

definition unreferenced :: "uuid \<Rightarrow> string list \<Rightarrow> db \<Rightarrow> string list" where
  "unreferenced t keys db = filter (\<lambda>k. \<not> list_ex (\<lambda>f. md_tenant f = t \<and> md_object f = Some k) (db_media db)) keys"

text \<open>\<^verbatim>\<open>ObjectDeletes\<close>: after \<open>trip\<close> failures in a row every later delete of the pass is skipped.\<close>

record breaker =
  br_trip :: nat
  br_failures :: nat
  br_tripped :: bool
  br_skipped :: nat

definition default_trip :: nat where "default_trip = 3"

definition new_breaker :: "int \<Rightarrow> breaker" where
  "new_breaker trip = \<lparr>br_trip = (if trip \<le> 0 then default_trip else nat trip), br_failures = 0, br_tripped = False,
     br_skipped = 0\<rparr>"

datatype object_outcome = ObjectRemoved | ObjectFailed | ObjectSkipped

definition breaker_delete :: "(string \<Rightarrow> bool) \<Rightarrow> uuid \<Rightarrow> string \<Rightarrow> breaker \<times> db \<Rightarrow> object_outcome \<times> breaker \<times> db" where
  "breaker_delete bucket t k s =
     (case s of (b, db) \<Rightarrow>
       if br_tripped b then (ObjectSkipped, b\<lparr>br_skipped := br_skipped b + 1\<rparr>, db)
       else case delete_object bucket t k db of
         Some db' \<Rightarrow> (ObjectRemoved, b\<lparr>br_failures := 0\<rparr>, db')
       | None \<Rightarrow> (ObjectFailed, b\<lparr>br_failures := br_failures b + 1, br_tripped := (br_trip b \<le> br_failures b + 1)\<rparr>, db))"

section \<open>The start\<close>

record purge_dates =
  pd_deleted :: timestamp
  pd_purge :: timestamp

datatype purge_begun = PurgeBusy | PurgeBegun purge_dates bool

definition start_row :: "timestamp \<Rightarrow> bool \<Rightarrow> device_row \<Rightarrow> device_row" where
  "start_row clock now v = v\<lparr>dv_purge_started := (case dv_purge_started v of None \<Rightarrow> Some clock | Some s \<Rightarrow> Some s),
     dv_purge := (if now then map_option (min clock) (dv_purge v) else dv_purge v)\<rparr>"

text \<open>The leftover session goes by its exact fingerprint, with its privacy tokens.\<close>

definition remove_session :: "leftover_row \<Rightarrow> db \<Rightarrow> bool \<times> db" where
  "remove_session l db =
     (if (lo_jid l, lo_reg l) \<in> set (db_wa_sessions db)
      then (True, delete_privacy_tokens (lo_jid l)
        (db\<lparr>db_wa_sessions := filter (\<lambda>w. w \<noteq> (lo_jid l, lo_reg l)) (db_wa_sessions db)\<rparr>))
      else (False, db))"

definition remove_leftover :: "device_row \<Rightarrow> db \<Rightarrow> bool \<times> db" where
  "remove_leftover v db = (case dv_leftover v of None \<Rightarrow> (False, db) | Some l \<Rightarrow> remove_session l db)"

definition purge_start :: "timestamp \<Rightarrow> uuid \<Rightarrow> uuid \<Rightarrow> bool \<Rightarrow> bool \<Rightarrow> db \<Rightarrow> access_error + (purge_begun \<times> db)" where
  "purge_start clock t d now lock_free db =
     (case deleted_of db t d of None \<Rightarrow> Inl RowNotFound
      | Some (v, at) \<Rightarrow>
          if clock < purge_date v \<and> dv_purge_started v = None \<and> \<not> now then Inl NotDue
          else if \<not> lock_free then Inr (PurgeBusy, db)
          else and_then (write_device True t d (start_row clock now) db) (\<lambda>db1.
            let (removed, db2) = remove_leftover v db1 in
            Inr (PurgeBegun \<lparr>pd_deleted = at, pd_purge = purge_date (start_row clock now v)\<rparr> removed, db2)))"

section \<open>The batches\<close>

fun drop_first :: "nat \<Rightarrow> ('a \<Rightarrow> bool) \<Rightarrow> 'a list \<Rightarrow> 'a list" where
  "drop_first n P [] = []"
| "drop_first n P (x # xs) = (if P x \<and> n \<noteq> 0 then drop_first (n - 1) P xs else x # drop_first n P xs)"

fun take_first :: "nat \<Rightarrow> ('a \<Rightarrow> bool) \<Rightarrow> 'a list \<Rightarrow> 'a list" where
  "take_first n P [] = []"
| "take_first n P (x # xs) = (if P x \<and> n \<noteq> 0 then x # take_first (n - 1) P xs else take_first n P xs)"

definition purge_tables :: "string list" where
  "purge_tables = [''ai_derived'', ''messages'', ''receipts'', ''group_changes'', ''group_participants'', ''contacts'',
     ''chats'', ''events'']"

definition purge_messages :: "uuid \<Rightarrow> uuid \<Rightarrow> nat \<Rightarrow> db \<Rightarrow> nat \<times> string list \<times> db" where
  "purge_messages t d n db =
     (let gone = map me_uid (take_first n (\<lambda>m. me_device m = d) (db_messages db));
          keys = remdups (List.map_filter md_object (filter (\<lambda>f. md_tenant f = t \<and> md_message f \<in> set gone) (db_media db))) in
      (length gone, keys, delete_messages (\<lambda>m. me_uid m \<in> set gone) db))"

definition purge_table :: "uuid \<Rightarrow> uuid \<Rightarrow> nat \<Rightarrow> string \<Rightarrow> db \<Rightarrow> nat \<times> string list \<times> db" where
  "purge_table t d n table db =
     (if table = ''messages'' then purge_messages t d n db
      else if table = ''chats'' then (length (take_first n (\<lambda>c. ct_device c = d) (db_chats db)), [],
          db\<lparr>db_chats := drop_first n (\<lambda>c. ct_device c = d) (db_chats db)\<rparr>)
      else let theirs = (\<lambda>e. ae_table e = table \<and> ae_device e = d) in
        (length (take_first n theirs (db_archive db)), [], db\<lparr>db_archive := drop_first n theirs (db_archive db)\<rparr>))"

text \<open>One batch: the rows of the first table that still has some.\<close>

fun purge_first :: "uuid \<Rightarrow> uuid \<Rightarrow> nat \<Rightarrow> string list \<Rightarrow> db \<Rightarrow> (string \<times> nat \<times> string list \<times> db) option" where
  "purge_first t d n [] db = None"
| "purge_first t d n (table # tables) db =
     (case purge_table t d n table db of (rows, keys, db') \<Rightarrow>
        if rows \<noteq> 0 then Some (table, rows, keys, db') else purge_first t d n tables db)"

datatype batch = BatchGone | BatchNone | Batch string nat "string list" db

definition purging :: "db \<Rightarrow> uuid \<Rightarrow> uuid \<Rightarrow> (device_row \<times> timestamp) option" where
  "purging db t d = (case deleted_of db t d of None \<Rightarrow> None
     | Some (v, at) \<Rightarrow> if dv_purge_started v = None then None else Some (v, at))"

definition purge_batch :: "uuid \<Rightarrow> uuid \<Rightarrow> nat \<Rightarrow> db \<Rightarrow> batch" where
  "purge_batch t d n db =
     (if purging db t d = None then BatchGone
      else case purge_first t d n purge_tables db of None \<Rightarrow> BatchNone
      | Some (table, rows, keys, db') \<Rightarrow> Batch table rows keys db')"

section \<open>The end\<close>

definition scrub_events :: "uuid \<Rightarrow> uuid \<Rightarrow> db \<Rightarrow> db" where
  "scrub_events t d db = db\<lparr>db_events := map (\<lambda>e. if ev_tenant e = t \<and> ev_item e = d then e\<lparr>ev_label := None, ev_hint := None\<rparr>
     else e) (db_events db)\<rparr>"

definition scrub_notices :: "uuid \<Rightarrow> uuid \<Rightarrow> string \<Rightarrow> db \<Rightarrow> db" where
  "scrub_notices t d kind db = db\<lparr>db_notices := map (\<lambda>n. if nt_tenant n = t \<and> nt_device n = d \<and> nt_kind n = kind
     then n\<lparr>nt_label := None, nt_hint := None\<rparr> else n) (db_notices db)\<rparr>"

definition former_workspaces :: "uuid \<Rightarrow> uuid \<Rightarrow> db \<Rightarrow> uuid list" where
  "former_workspaces t d db = remdups (List.map_filter (\<lambda>(v, source, target).
     if v = d \<and> source \<noteq> t \<and> target = t then Some source else None) (db_transfers db))"

definition scrub_former :: "uuid \<Rightarrow> uuid \<Rightarrow> db \<Rightarrow> db" where
  "scrub_former t d db = fold (\<lambda>w b. scrub_notices w d ''number_moved_out'' (scrub_events w d b)) (former_workspaces t d db) db"

definition close_notices :: "timestamp \<Rightarrow> uuid \<Rightarrow> uuid \<Rightarrow> db \<Rightarrow> db" where
  "close_notices clock t d db = db\<lparr>db_notices := map (\<lambda>n. if nt_tenant n = t \<and> nt_device n = d
       then n\<lparr>nt_label := None, nt_hint := None, nt_purged := Some clock\<rparr> else n)
     (filter (\<lambda>n. \<not> (nt_tenant n = t \<and> nt_device n = d \<and> nt_kind n \<noteq> ''number_deleted'')) (db_notices db))\<rparr>"

definition purged_event :: "tx \<Rightarrow> uuid \<Rightarrow> device_row \<Rightarrow> timestamp \<Rightarrow> event_row" where
  "purged_event x t v at = (item_event x t ''purged'' v at [])\<lparr>ev_deleted := Some at, ev_purge := Some (purge_date v)\<rparr>"

definition purge_end :: "tx \<Rightarrow> uuid \<Rightarrow> uuid \<Rightarrow> db \<Rightarrow> bool \<times> db" where
  "purge_end x t d db =
     (case purging db t d of None \<Rightarrow> (False, db)
      | Some (v, at) \<Rightarrow> (True, delete_device True t d (\<lambda>_. True) (record_event (purged_event x t v at)
          (scrub_former t d (scrub_events t d (close_notices (tx_clock x) t d db))))))"

section \<open>A purge\<close>

record purge_result =
  pr_done :: bool
  pr_final :: bool
  pr_batches :: nat
  pr_rows :: nat
  pr_session :: bool
  pr_removed :: nat
  pr_failed :: nat
  pr_skipped :: nat

definition no_result :: purge_result where
  "no_result = \<lparr>pr_done = False, pr_final = False, pr_batches = 0, pr_rows = 0, pr_session = False, pr_removed = 0,
     pr_failed = 0, pr_skipped = 0\<rparr>"

definition count_object :: "object_outcome \<Rightarrow> purge_result \<Rightarrow> purge_result" where
  "count_object out r = (case out of ObjectRemoved \<Rightarrow> r\<lparr>pr_removed := pr_removed r + 1\<rparr>
     | ObjectFailed \<Rightarrow> r\<lparr>pr_failed := pr_failed r + 1\<rparr> | ObjectSkipped \<Rightarrow> r\<lparr>pr_skipped := pr_skipped r + 1\<rparr>)"

text \<open>The objects a batch released; with no storage at hand, and when the context ends, they are left for the
  orphan pass. The Boolean of the result is whether the context is still alive.\<close>

record purge_state =
  pg_db :: db
  pg_breaker :: breaker
  pg_result :: purge_result
  pg_budget :: nat

fun delete_each :: "(string \<Rightarrow> bool) \<Rightarrow> uuid \<Rightarrow> string list \<Rightarrow> purge_state \<Rightarrow> bool \<times> purge_state" where
  "delete_each bucket t [] s = (True, s)"
| "delete_each bucket t (k # ks) s =
     (case pg_budget s of
        0 \<Rightarrow> (False, s\<lparr>pg_result := (pg_result s)\<lparr>pr_skipped := pr_skipped (pg_result s) + length (k # ks)\<rparr>\<rparr>)
      | Suc n \<Rightarrow> (case breaker_delete bucket t k (pg_breaker s, pg_db s) of (out, b, db) \<Rightarrow>
          delete_each bucket t ks (s\<lparr>pg_db := db, pg_breaker := b, pg_budget := n,
            pg_result := count_object out (pg_result s)\<rparr>)))"

definition delete_released :: "(string \<Rightarrow> bool) option \<Rightarrow> uuid \<Rightarrow> string list \<Rightarrow> purge_state \<Rightarrow> bool \<times> purge_state" where
  "delete_released objects t keys s =
     (if keys = [] then (True, s)
      else case objects of
        None \<Rightarrow> (True, s\<lparr>pg_result := (pg_result s)\<lparr>pr_skipped := pr_skipped (pg_result s) + length keys\<rparr>\<rparr>)
      | Some bucket \<Rightarrow> delete_each bucket t (unreferenced t keys (pg_db s)) s)"

datatype purge_stop = PurgeCut | PurgeGone | PurgeEmptied

lemma delete_each_budget: "pg_budget (snd (delete_each bucket t ks s)) \<le> pg_budget s"
  by (induction bucket t ks s rule: delete_each.induct) (force split: nat.split prod.split)+

lemma delete_released_budget: "delete_released objects t keys s = (alive, s') \<Longrightarrow> pg_budget s' \<le> pg_budget s"
  using delete_each_budget [of _ t "unreferenced t keys (pg_db s)" s]
  by (auto simp: delete_released_def split: if_splits option.splits) (metis snd_conv)

function purge_batches :: "(string \<Rightarrow> bool) option \<Rightarrow> uuid \<Rightarrow> uuid \<Rightarrow> nat \<Rightarrow> purge_state \<Rightarrow> purge_stop \<times> purge_state" where
  "purge_batches objects t d n s =
     (case pg_budget s of 0 \<Rightarrow> (PurgeCut, s)
      | Suc k \<Rightarrow> (case purge_batch t d n (pg_db s) of
          BatchGone \<Rightarrow> (PurgeGone, s\<lparr>pg_budget := k\<rparr>)
        | BatchNone \<Rightarrow> (PurgeEmptied, s\<lparr>pg_budget := k\<rparr>)
        | Batch table rows keys db \<Rightarrow>
            (case delete_released objects t keys (s\<lparr>pg_budget := k, pg_db := db,
                pg_result := (pg_result s)\<lparr>pr_batches := pr_batches (pg_result s) + 1, pr_rows := pr_rows (pg_result s) + rows\<rparr>\<rparr>) of
              (alive, s') \<Rightarrow> if alive then purge_batches objects t d n s' else (PurgeCut, s'))))"
  by pat_completeness auto

termination
  by (relation "measure (\<lambda>(objects, t, d, n, s). pg_budget s)") (auto dest!: delete_released_budget [OF sym])

declare purge_batches.simps [simp del]

definition batch_size :: "int \<Rightarrow> nat" where
  "batch_size n = (if n \<le> 0 then 2000 else nat n)"

text \<open>PurgeDevice: the start, the batches, the end. \<open>clock\<close> is the start's clock, \<open>x\<close> the end's transaction.\<close>

datatype purge_answer = PurgeError access_error | PurgeHeld | PurgeRan purge_stop

definition purge_device ::
  "(string \<Rightarrow> bool) option \<Rightarrow> timestamp \<Rightarrow> tx \<Rightarrow> uuid \<Rightarrow> uuid \<Rightarrow> bool \<Rightarrow> int \<Rightarrow> bool \<Rightarrow> nat \<Rightarrow> breaker \<times> db
    \<Rightarrow> purge_answer \<times> purge_state" where
  "purge_device objects clock x t d now n lock_free budget s =
     (let s0 = \<lparr>pg_db = snd s, pg_breaker = fst s, pg_result = no_result, pg_budget = budget\<rparr> in
      case purge_start clock t d now lock_free (snd s) of
        Inl e \<Rightarrow> (PurgeError e, s0)
      | Inr (PurgeBusy, db) \<Rightarrow> (PurgeHeld, s0)
      | Inr (PurgeBegun dates removed, db) \<Rightarrow>
          (case purge_batches objects t d (batch_size n) (s0\<lparr>pg_db := db, pg_result := no_result\<lparr>pr_session := removed\<rparr>\<rparr>) of
             (PurgeEmptied, s1) \<Rightarrow> (case purge_end x t d (pg_db s1) of (final, db') \<Rightarrow>
                (PurgeRan PurgeEmptied, s1\<lparr>pg_db := db', pg_result := (pg_result s1)\<lparr>pr_done := True, pr_final := final\<rparr>\<rparr>))
           | (PurgeGone, s1) \<Rightarrow> (PurgeRan PurgeGone, s1\<lparr>pg_result := (pg_result s1)\<lparr>pr_done := True\<rparr>\<rparr>)
           | (PurgeCut, s1) \<Rightarrow> (PurgeRan PurgeCut, s1)))"

end
