(* ===== verification/Restore.thy ===== *)
theory Restore
  imports Purge Ledger_File
begin

text \<open>
  The deletion ledger's two ends in the database: the export of the events (internal/store/ledger.go) and the
  replay over a restored database (internal/store/replay.go).

  The replay runs while the server is stopped, so nothing else writes between the reads that decide and the
  transactions that act; \<open>x\<close> gives its clocks. The report's text is left out.
\<close>

section \<open>The export\<close>

definition ledgered_type :: "string \<Rightarrow> line_type option" where
  "ledgered_type s = (if s = ''deleted'' then Some TypeDeleted else if s = ''recovered'' then Some TypeRecovered
     else if s = ''purged'' then Some TypePurged else if s = ''moved_out'' then Some TypeMovedOut else None)"

definition line_of_event :: "event_row \<Rightarrow> line option" where
  "line_of_event e = map_option (\<lambda>k. \<lparr>ln_v = ledger_version, ln_event = ev_id e, ln_type = k, ln_workspace = ev_tenant e,
     ln_device = ev_item e, ln_deleted_at = ev_deleted e, ln_purge_after = ev_purge e,
     ln_deleted_by = (if k = TypeDeleted then ev_actor_user e else None), ln_to = ev_to e, ln_occurred = ev_occurred e\<rparr>)
     (ledgered_type (ev_type e))"

definition unexported :: "uuid \<Rightarrow> event_row \<Rightarrow> bool" where
  "unexported t e \<longleftrightarrow> ev_tenant e = t \<and> ev_ledgered e = None \<and> ledgered_type (ev_type e) \<noteq> None"

definition mark_ledgered :: "timestamp \<Rightarrow> line list \<Rightarrow> db \<Rightarrow> db" where
  "mark_ledgered clock ls db = db\<lparr>db_events := map (\<lambda>e. if ev_id e \<in> ln_event ` set ls \<and> ev_ledgered e = None
     then e\<lparr>ev_ledgered := Some clock\<rparr> else e) (db_events db)\<rparr>"

text \<open>The lines are written and synced before the rows are marked; when the commit fails after that, the next
  export writes them again.\<close>

definition export_ledger ::
  "encoder \<Rightarrow> append_env \<Rightarrow> bool \<Rightarrow> timestamp \<Rightarrow> uuid \<Rightarrow> db \<times> string option \<Rightarrow> (append_error option + nat) \<times> db \<times> string option" where
  "export_ledger enc env committed clock t s =
     (case s of (db, file) \<Rightarrow>
       let ls = List.map_filter line_of_event (filter (unexported t) (db_events db)) in
       if ls = [] then (Inr 0, db, file)
       else case append_lines enc env ls file of
         (Some e, file') \<Rightarrow> (Inl (Some e), db, file')
       | (None, file') \<Rightarrow> if committed then (Inr (length ls), mark_ledgered clock ls db, file')
           else (Inl None, db, file'))"

text \<open>What a restored database already knew: its newest event from its own ledger, never a replay's row.\<close>

definition newest_ledgered :: "db \<Rightarrow> timestamp" where
  "newest_ledgered db = fold (\<lambda>e newest. max (ev_occurred e) newest)
     (filter (\<lambda>e. tenant_of db (ev_tenant e) \<noteq> None \<and> ev_ledgered e \<noteq> None \<and> ev_replayed e = None
        \<and> ledgered_type (ev_type e) \<noteq> None) (db_events db)) 0"

section \<open>What each number needs\<close>

record replay_options =
  ro_dry_run :: bool
  ro_snapshot :: timestamp
  ro_adds_nothing :: bool
  ro_leave :: "uuid list"

datatype replay_action = ReplayExcluded | ReplayPurgeDue | ReplayRecovered | ReplayLeftExcluded

record replay_change =
  ry_device :: uuid
  ry_workspace :: uuid
  ry_action :: replay_action
  ry_deleted :: timestamp
  ry_purge :: timestamp

datatype replay_refusal = RefuseFold uuid fold_problem | RefuseWindow uuid | RefuseElsewhere uuid uuid uuid
  | RefusePurging uuid | RefuseIdentity uuid

record replay_report =
  rr_ledger :: timestamp
  rr_restored :: timestamp
  rr_changes :: "replay_change list"
  rr_unchanged :: nat
  rr_missing :: "uuid list"
  rr_kept :: "uuid list"
  rr_refusals :: "replay_refusal list"
  rr_over :: "uuid list"

definition empty_replay :: replay_report where
  "empty_replay = \<lparr>rr_ledger = 0, rr_restored = 0, rr_changes = [], rr_unchanged = 0, rr_missing = [], rr_kept = [],
     rr_refusals = [], rr_over = []\<rparr>"

record replay_step =
  rp_device :: ledger_device
  rp_row :: device_row
  rp_action :: replay_action
  rp_reversal :: "reversal option"
  rp_only_moved :: bool

datatype need = Unchanged | Kept | Refuse replay_refusal | Need replay_step

definition step_for :: "ledger_device \<Rightarrow> device_row \<Rightarrow> replay_action \<Rightarrow> replay_step" where
  "step_for d v a = \<lparr>rp_device = d, rp_row = v, rp_action = a, rp_reversal = None, rp_only_moved = False\<rparr>"

definition same_deletion :: "ledger_device \<Rightarrow> device_row \<Rightarrow> bool" where
  "same_deletion d v \<longleftrightarrow> dv_deleted v = Some (ld_deleted_at d)"

definition need_live :: "ledger_device \<Rightarrow> device_row \<Rightarrow> need" where
  "need_live d v =
     (case dv_deleted v of None \<Rightarrow> Unchanged
      | Some at \<Rightarrow> (case find (\<lambda>r. rv_deleted_at r = at) (ld_reversed d) of None \<Rightarrow> Kept
          | Some r \<Rightarrow> if dv_purge_started v \<noteq> None then Refuse (RefusePurging (ld_id d))
              else Need ((step_for d v ReplayRecovered)\<lparr>rp_reversal := Some r\<rparr>)))"

definition need_elsewhere :: "uuid list \<Rightarrow> ledger_device \<Rightarrow> device_row \<Rightarrow> need" where
  "need_elsewhere leave d v =
     (if ld_id d \<notin> set leave then Refuse (RefuseElsewhere (ld_id d) (dv_tenant v) (ld_workspace d))
      else if ld_state d = StateExcluded \<and> same_deletion d v then Unchanged
      else if ld_state d = StateLive \<and> dv_deleted v \<noteq> None then Unchanged
      else Need ((step_for d v ReplayLeftExcluded)\<lparr>rp_only_moved := (ld_state d = StateLive)\<rparr>))"

definition need_of :: "uuid list \<Rightarrow> ledger_device \<Rightarrow> device_row \<Rightarrow> need" where
  "need_of leave d v =
     (if dv_tenant v \<noteq> ld_workspace d then need_elsewhere leave d v
      else case ld_state d of
        StatePurged \<Rightarrow> Need (step_for d v ReplayPurgeDue)
      | StateExcluded \<Rightarrow> if same_deletion d v then Unchanged else Need (step_for d v ReplayExcluded)
      | StateLive \<Rightarrow> need_live d v)"

definition found_row :: "db \<Rightarrow> uuid \<Rightarrow> device_row option" where
  "found_row db i = find (\<lambda>v. dv_id v = i \<and> tenant_of db (dv_tenant v) \<noteq> None) (db_devices db)"

section \<open>One step\<close>

definition replayed_event :: "tx \<Rightarrow> uuid \<Rightarrow> string \<Rightarrow> uuid \<Rightarrow> uuid \<Rightarrow> timestamp \<Rightarrow> timestamp \<Rightarrow> event_row" where
  "replayed_event x t kind d i at occurred = \<lparr>ev_id = i, ev_tenant = t, ev_type = kind, ev_item = d,
     ev_dedupe = (kind, d, None, at), ev_occurred = occurred, ev_actor_kind = ''person'', ev_actor_sub = None,
     ev_actor_user = None, ev_reader_subs = [], ev_reader_users = [], ev_label = None, ev_hint = None,
     ev_person = None, ev_cause = None, ev_deleted = Some at, ev_purge = None, ev_to = None,
     ev_ledgered = Some (tx_clock x), ev_replayed = Some (tx_clock x)\<rparr>"

definition replay_recover_row :: "device_row \<Rightarrow> device_row" where
  "replay_recover_row v = v\<lparr>dv_deleted := None, dv_deleted_by := None, dv_purge := None, dv_leftover := None,
     dv_cause := Some ''person''\<rparr>"

definition change_of :: "uuid \<Rightarrow> replay_step \<Rightarrow> timestamp \<Rightarrow> timestamp \<Rightarrow> replay_change" where
  "change_of t s deleted purge = \<lparr>ry_device = ld_id (rp_device s), ry_workspace = t, ry_action = rp_action s,
     ry_deleted = deleted, ry_purge = purge\<rparr>"

definition replay_recover :: "tx \<Rightarrow> uuid \<Rightarrow> replay_step \<Rightarrow> reversal \<Rightarrow> db \<Rightarrow> access_error + (replay_change \<times> db)" where
  "replay_recover x t s r db =
     (let d = ld_id (rp_device s); at = rv_deleted_at r in
      case deleted_of db t d of None \<Rightarrow> Inl RowNotFound
      | Some (v, found) \<Rightarrow>
          if found \<noteq> at \<or> dv_purge_started v \<noteq> None then Inl RowNotFound
          else and_then (write_device True t d replay_recover_row db) (\<lambda>db1.
            Inr (change_of t s at 0, record_event (replayed_event x t ''recovered'' d (rv_event r) at (rv_occurred r))
              (recovered_stranded t d (drop_notices t d ''number_deleted'' db1)))))"

definition purge_due_row :: "timestamp \<Rightarrow> timestamp \<Rightarrow> device_row \<Rightarrow> device_row" where
  "purge_due_row clock p v = v\<lparr>dv_purge := map_option (\<lambda>q. min q (min p clock)) (dv_purge v)\<rparr>"

definition replay_exclude_row ::
  "db \<Rightarrow> timestamp \<Rightarrow> ledger_device \<Rightarrow> timestamp \<Rightarrow> timestamp \<Rightarrow> (string \<times> int) option \<Rightarrow> device_row \<Rightarrow> device_row" where
  "replay_exclude_row db clock d at p session v = v\<lparr>dv_deleted := Some at,
     dv_purge := Some (if ld_state d = StatePurged then min p clock else p),
     dv_deleted_by := (case ld_deleted_by d of None \<Rightarrow> None | Some u \<Rightarrow> if user_of db u = None then None else Some u),
     dv_paused := True, dv_cause := Some ''deletion'',
     dv_status := (if dead_status (dv_status v) then dv_status v else ''offline''),
     dv_reason := (if dead_status (dv_status v) then dv_reason v else reason_deleted),
     dv_leftover := (if dv_deleted v \<noteq> None then dv_leftover v else map_option fingerprint session)\<rparr>"

text \<open>The fingerprint is taken only of a number restored live.\<close>

definition restored_session :: "db \<Rightarrow> uuid \<Rightarrow> replay_step \<Rightarrow> (string \<times> int) option" where
  "restored_session db t s = (if dv_deleted (rp_row s) \<noteq> None then None
     else case device_of True db t (ld_id (rp_device s)) of None \<Rightarrow> None | Some v \<Rightarrow> session_of db v)"

definition replay_exclude :: "tx \<Rightarrow> uuid \<Rightarrow> replay_step \<Rightarrow> timestamp \<Rightarrow> timestamp \<Rightarrow> db \<Rightarrow> access_error + db" where
  "replay_exclude x t s at p db =
     (let d = rp_device s; session = restored_session db t s in
      if dv_deleted (rp_row s) = Some at then write_device True t (ld_id d) (purge_due_row (tx_clock x) p) db
      else and_then (end_listed (tx_now x) t (map cn_id (sort_key cn_id (assistants_of db t (ld_id d)))) db) (\<lambda>db1.
        write_device True t (ld_id d) (replay_exclude_row db (tx_clock x) d at p session)
          (drop_notices t (ld_id d) ''sync_paused'' (delete_key_devices (\<lambda>(k, v). v = ld_id d) db1))))"

definition replay_records :: "tx \<Rightarrow> uuid \<Rightarrow> replay_step \<Rightarrow> bool \<Rightarrow> db \<Rightarrow> db" where
  "replay_records x t s same db =
     (let d = rp_device s; actor = (case ld_deleted_by d of None \<Rightarrow> None
            | Some u \<Rightarrow> if user_of db u = None then None else Some u);
          deleted = (replayed_event x t ''deleted'' (ld_id d) (ld_event d) (ld_deleted_at d) (ld_occurred d))
            \<lparr>ev_actor_user := actor, ev_purge := Some (ld_purge_after d)\<rparr>;
          purged = (replayed_event x t ''purged'' (ld_id d) (ld_event d) (ld_deleted_at d) (ld_occurred d))
            \<lparr>ev_actor_kind := ''app'', ev_purge := Some (ld_purge_after d)\<rparr> in
      if rp_only_moved s then db
      else if ld_state d = StatePurged then record_event purged db
      else if ld_state d = StateExcluded \<and> \<not> same then record_event deleted db
      else db)"

definition replay_step_tx :: "tx \<Rightarrow> uuid \<Rightarrow> replay_step \<Rightarrow> db \<Rightarrow> access_error + (replay_change \<times> db)" where
  "replay_step_tx x t s db =
     (case rp_reversal s of
        Some r \<Rightarrow> replay_recover x t s r db
      | None \<Rightarrow>
          let d = rp_device s; at = (if rp_only_moved s then tx_clock x else ld_deleted_at d);
              p = (if rp_only_moved s then tx_clock x + thirty_days else ld_purge_after d) in
          and_then (replay_exclude x t s at p db) (\<lambda>db1.
            Inr (change_of t s at (case device_of True db1 t (ld_id d) of None \<Rightarrow> 0 | Some v \<Rightarrow> purge_date v),
              replay_records x t s (dv_deleted (rp_row s) = Some at) db1)))"

section \<open>A workspace, and all of them\<close>

fun replay_steps :: "tx \<Rightarrow> uuid \<Rightarrow> replay_step list \<Rightarrow> db \<Rightarrow> access_error + (replay_change list \<times> db)" where
  "replay_steps x t [] db = Inr ([], db)"
| "replay_steps x t (s # ss) db = and_then (replay_step_tx x t s db) (\<lambda>(c, db1).
     and_then (replay_steps x t ss db1) (\<lambda>(cs, db2). Inr (c # cs, db2)))"

text \<open>Exclusions and purges first, recoveries after.\<close>

definition in_replay_order :: "replay_step list \<Rightarrow> replay_step list" where
  "in_replay_order ss = filter (\<lambda>s. rp_action s \<noteq> ReplayRecovered) ss @ filter (\<lambda>s. rp_action s = ReplayRecovered) ss"

text \<open>Whether the workspace is over its plan is counted inside the quarantine scope.\<close>

definition over_plan :: "uuid \<Rightarrow> replay_step list \<Rightarrow> db \<Rightarrow> bool" where
  "over_plan t ss db \<longleftrightarrow> list_ex (\<lambda>s. rp_action s = ReplayRecovered) ss
     \<and> (case max_devices db t of None \<Rightarrow> False | Some n \<Rightarrow> n < device_usage True db t)"

datatype replay_error = ReplayRefused | LedgerAddsNothing | ReplayFailed uuid access_error

fun replay_workspaces ::
  "tx \<Rightarrow> bool \<Rightarrow> (uuid \<Rightarrow> replay_step list) \<Rightarrow> uuid list \<Rightarrow> replay_report \<Rightarrow> db \<Rightarrow> replay_error option \<times> replay_report \<times> db" where
  "replay_workspaces x dry of_tenant [] r db = (None, r, db)"
| "replay_workspaces x dry of_tenant (t # ts) r db =
     (let ss = in_replay_order (of_tenant t) in
      case replay_steps x t ss db of
        Inl e \<Rightarrow> if e = Constraint unique_identity
          then replay_workspaces x dry of_tenant ts (r\<lparr>rr_refusals := rr_refusals r @ [RefuseIdentity t]\<rparr>) db
          else (Some (ReplayFailed t e), r, db)
      | Inr (cs, db1) \<Rightarrow> replay_workspaces x dry of_tenant ts
          (r\<lparr>rr_changes := rr_changes r @ cs, rr_over := rr_over r @ (if over_plan t ss db1 then [t] else [])\<rparr>)
          (if dry then db else db1))"

definition bad_window :: "line list \<Rightarrow> uuid list" where
  "bad_window ls = map ln_event (filter (\<lambda>l. ln_type l = TypeDeleted
     \<and> date_of (ln_deleted_at l) + thirty_days \<noteq> date_of (ln_purge_after l)) ls)"

definition needs_of :: "uuid list \<Rightarrow> db \<Rightarrow> ledger_device list \<Rightarrow> (ledger_device \<times> need) list" where
  "needs_of leave db ds = List.map_filter (\<lambda>d. map_option (\<lambda>v. (d, need_of leave d v)) (found_row db (ld_id d))) ds"

fun refusal_of :: "ledger_device \<times> need \<Rightarrow> replay_refusal option" where
  "refusal_of (d, Refuse r) = Some r"
| "refusal_of _ = None"

fun step_of :: "ledger_device \<times> need \<Rightarrow> replay_step option" where
  "step_of (d, Need s) = Some s"
| "step_of _ = None"

definition replay_plan :: "uuid list \<Rightarrow> db \<Rightarrow> ledger_device list \<Rightarrow> replay_report \<Rightarrow> replay_report" where
  "replay_plan leave db ds r =
     (let needs = needs_of leave db ds in
      r\<lparr>rr_missing := map ld_id (filter (\<lambda>d. found_row db (ld_id d) = None) ds),
        rr_unchanged := length (filter (\<lambda>p. snd p = Unchanged) needs),
        rr_kept := map (\<lambda>p. ld_id (fst p)) (filter (\<lambda>p. snd p = Kept) needs),
        rr_refusals := List.map_filter refusal_of needs\<rparr>)"

definition steps_in :: "replay_step list \<Rightarrow> uuid \<Rightarrow> replay_step list" where
  "steps_in ss t = filter (\<lambda>s. dv_tenant (rp_row s) = t) ss"

definition replay_ledger ::
  "tx \<Rightarrow> replay_options \<Rightarrow> line list \<Rightarrow> db \<Rightarrow> replay_error option \<times> replay_report \<times> db" where
  "replay_ledger x opts ls db =
     (let (ds, problems) = fold_ledger ls;
          early = map (\<lambda>(i, p). RefuseFold i p) problems @ map RefuseWindow (bad_window ls);
          r0 = empty_replay\<lparr>rr_ledger := fold (\<lambda>l. max (ln_occurred l)) ls 0, rr_refusals := early\<rparr>;
          r1 = r0\<lparr>rr_restored := max (newest_ledgered db) (ro_snapshot opts)\<rparr>;
          r2 = replay_plan (ro_leave opts) db ds r1;
          ss = List.map_filter step_of (needs_of (ro_leave opts) db ds) in
      if early \<noteq> [] then (Some ReplayRefused, r0, db)
      else if rr_ledger r1 \<le> rr_restored r1 \<and> \<not> ro_adds_nothing opts then (Some LedgerAddsNothing, r1, db)
      else if rr_refusals r2 \<noteq> [] then (Some ReplayRefused, r2, db)
      else case replay_workspaces x (ro_dry_run opts) (steps_in ss) (sort (remdups (map (dv_tenant \<circ> rp_row) ss))) r2 db of
        (Some e, r3, db') \<Rightarrow> (Some e, r3, db')
      | (None, r3, db') \<Rightarrow> (if rr_refusals r3 \<noteq> [] then Some ReplayRefused else None, r3, db'))"

end
