(* ===== verification/Lifecycle.thy ===== *)
theory Lifecycle
  imports Restore Access_Frame
begin

text \<open>
  The operations of a number's life, as one step each: its creation and pairing, its status and names, its
  pauses and their notices, its deletion, recovery and purge, and the changes of access around them; and what
  every step keeps: the shape of the rows, their identities, and the order of the events. \<open>Row_Ops\<close> adds the
  outright deletion of a row and the replay of a ledger. A number's move to another workspace
  (internal/store/device_transfer.go) and the reset of a workspace (internal/store/reset.go) write the rows too
  and are not modelled.
\<close>

section \<open>The operations\<close>

datatype life_op =
    AccessChange access_op
  | SetStatus uuid uuid string string
  | SetIdentity uuid uuid string string string
  | RenameNumber uuid uuid string
  | CreateNumber uuid uuid string
  | DropUnpaired uuid uuid
  | SetPaused uuid uuid bool
  | RestorePause uuid uuid string
  | PauseNumber uuid uuid pause_actor
  | MarkResumed uuid uuid
  | SeeNotices uuid uuid "(nat \<times> int) list"
  | DeleteNumber uuid uuid uuid "uuid list"
  | RecordUnlink uuid uuid timestamp bool
  | RecoverNumber uuid uuid uuid bool
  | StartPurge uuid uuid bool bool
  | PurgeRows uuid uuid nat
  | DropObject "string \<Rightarrow> bool" uuid string
  | EndPurge uuid uuid
  | SessionPaired string int
  | SessionLost string int

definition state_of :: "'e + ('a \<times> 'b) \<Rightarrow> 'e + 'b" where
  "state_of r = (case r of Inl e \<Rightarrow> Inl e | Inr (_, b) \<Rightarrow> Inr b)"

fun run_life :: "tx \<Rightarrow> life_op \<Rightarrow> db \<Rightarrow> access_error + db" where
  "run_life x (AccessChange op) db = run_op x op db"
| "run_life x (SetStatus t d s r) db = set_status (tx_now x) t d s r db"
| "run_life x (SetIdentity t d lid pn push) db = set_identity t d lid pn push db"
| "run_life x (RenameNumber t d l) db = rename_device t d l db"
| "run_life x (CreateNumber t d l) db = create_device t d l db"
| "run_life x (DropUnpaired t d) db = Inr (delete_unpaired t d db)"
| "run_life x (SetPaused t d p) db = set_paused t d p db"
| "run_life x (RestorePause t d c) db = restore_pause t d c db"
| "run_life x (PauseNumber t d who) db = state_of (pause_number x t d who db)"
| "run_life x (MarkResumed t d) db = Inr (mark_resumed x t d db)"
| "run_life x (SeeNotices t u seen) db = Inr (snd (see_notices x t u seen db))"
| "run_life x (DeleteNumber t actor d ack) db = state_of (quarantine x t actor d ack db)"
| "run_life x (RecordUnlink t d at ok) db = state_of (record_unlink t d at ok db)"
| "run_life x (RecoverNumber t actor d free) db = state_of (recover x t actor d free db)"
| "run_life x (StartPurge t d now free) db = state_of (purge_start (tx_clock x) t d now free db)"
| "run_life x (PurgeRows t d n) db = Inr (case purge_batch t d n db of Batch _ _ _ db' \<Rightarrow> db' | _ \<Rightarrow> db)"
| "run_life x (DropObject bucket t k) db = Inr (case delete_object bucket t k db of None \<Rightarrow> db | Some db' \<Rightarrow> db')"
| "run_life x (EndPurge t d) db = Inr (snd (purge_end x t d db))"
| "run_life x (SessionPaired j r) db = Inr (db\<lparr>db_wa_sessions := (j, r) # filter (\<lambda>w. fst w \<noteq> j) (db_wa_sessions db)\<rparr>)"
| "run_life x (SessionLost j r) db = Inr (db\<lparr>db_wa_sessions := filter (\<lambda>w. w \<noteq> (j, r)) (db_wa_sessions db)\<rparr>)"

lemma state_of_Inr [simp]: "state_of r = Inr b \<longleftrightarrow> (\<exists>a. r = Inr (a, b))"
  by (auto simp: state_of_def split: sum.splits)

text \<open>A run of operations: one that fails leaves the database as it was.\<close>

fun life_run :: "(tx \<times> life_op) list \<Rightarrow> db \<Rightarrow> db" where
  "life_run [] db = db"
| "life_run ((x, op) # ops) db = life_run ops (case run_life x op db of Inl _ \<Rightarrow> db | Inr db' \<Rightarrow> db')"

lemma life_run_invariant:
  assumes "\<And>x op db db'. (x, op) \<in> set ops \<Longrightarrow> I db \<Longrightarrow> run_life x op db = Inr db' \<Longrightarrow> I db'" "I db"
  shows "I (life_run ops db)"
  using assms
proof (induction ops db rule: life_run.induct)
  case (2 x op ops db)
  have "I (case run_life x op db of Inl _ \<Rightarrow> db | Inr db' \<Rightarrow> db')"
    using 2(2) [of x op db] 2(3) by (auto split: sum.splits)
  then have "I (life_run ops (case run_life x op db of Inl _ \<Rightarrow> db | Inr db' \<Rightarrow> db'))"
    by (rule 2(1) [rotated]) (rule 2(2), auto)
  then show ?case by simp
qed simp

section \<open>Writing a number's row\<close>

lemma write_device_cases [consumes 1, case_names written]:
  assumes "write_device q t d f db = Inr db'"
  obtains v where "device_of q db t d = Some v"
    "deletion_shape (pause_trigger (f v))" "pause_shape (pause_trigger (f v))" "sees_device q t (pause_trigger (f v))"
    "\<not> list_ex (same_identity (pause_trigger (f v))) (db_devices db)"
    "db' = db\<lparr>db_devices := map (\<lambda>r. if dv_id r = d then pause_trigger (f v) else r) (db_devices db)\<rparr>"
  using assms unfolding write_device_def by (cases "device_of q db t d") (auto simp: Let_def split: if_splits)

lemma device_of_in: "device_of q db t d = Some v \<Longrightarrow> v \<in> set (db_devices db) \<and> dv_id v = d \<and> sees_device q t v"
  unfolding device_of_def by (drule find_in) auto

lemma device_of_key:
  assumes "distinct (map dv_id (db_devices db))" "v \<in> set (db_devices db)" "sees_device q t v"
  shows "device_of q db t (dv_id v) = Some v"
proof -
  have "find (\<lambda>r. dv_id r = dv_id v \<and> sees_device q t r) xs = Some v"
    if "distinct (map dv_id xs)" "v \<in> set xs" for xs
    using that assms(3) by (induction xs) (auto simp: image_iff)
  with assms show ?thesis by (simp add: device_of_def)
qed

lemma deleted_of_Some:
  "deleted_of db t d = Some (v, at) \<longleftrightarrow> device_of True db t d = Some v \<and> dv_deleted v = Some at"
  by (auto simp: deleted_of_def split: option.splits)

text \<open>The row an update leaves is the one found afterwards.\<close>

lemma device_of_updated:
  assumes "device_of q db t d = Some v" "dv_id w = d" "sees_device p t w"
  shows "device_of p (db\<lparr>db_devices := map (\<lambda>r. if dv_id r = d then w else r) (db_devices db)\<rparr>) t d = Some w"
proof -
  have "find (\<lambda>r. dv_id r = d \<and> sees_device p t r) (map (\<lambda>r. if dv_id r = d then w else r) xs) = Some w"
    if "v \<in> set xs" "dv_id v = d" for xs
    using that assms(2,3) by (induction xs) auto
  with device_of_in [OF assms(1)] show ?thesis by (simp add: device_of_def)
qed

section \<open>The invariant of the rows\<close>

text \<open>A number waiting for its purge is due within thirty days of its deletion; only such a number has a session
  left over; and in one workspace no two live numbers share an identity.\<close>

definition number_row_ok :: "device_row \<Rightarrow> bool" where
  "number_row_ok v \<longleftrightarrow> deletion_shape v \<and> pause_shape v \<and> (dv_leftover v = None \<or> dv_deleted v \<noteq> None)
     \<and> (case (dv_deleted v, dv_purge v) of (Some at, Some p) \<Rightarrow> p \<le> at + thirty_days | _ \<Rightarrow> True)"

definition numbers_ok :: "db \<Rightarrow> bool" where
  "numbers_ok db \<longleftrightarrow> distinct (map dv_id (db_devices db)) \<and> list_all number_row_ok (db_devices db)
     \<and> (\<forall>v\<in>set (db_devices db). \<forall>w\<in>set (db_devices db). \<not> same_identity v w)"

lemma numbers_ok_same: "db_devices db' = db_devices db \<Longrightarrow> numbers_ok db \<Longrightarrow> numbers_ok db'"
  by (simp add: numbers_ok_def)

lemma numbers_ok_filter: "db_devices db' = filter P (db_devices db) \<Longrightarrow> numbers_ok db \<Longrightarrow> numbers_ok db'"
  by (auto simp: numbers_ok_def list_all_iff distinct_map intro: inj_on_subset)

lemma same_identity_sym: "same_identity v w \<Longrightarrow> same_identity w v"
  by (auto simp: same_identity_def)

lemma pause_trigger_keeps [simp]:
  "dv_id (pause_trigger v) = dv_id v" "dv_tenant (pause_trigger v) = dv_tenant v" "dv_deleted (pause_trigger v) = dv_deleted v"
  "dv_purge (pause_trigger v) = dv_purge v" "dv_leftover (pause_trigger v) = dv_leftover v" "dv_lid (pause_trigger v) = dv_lid v"
  "dv_pn (pause_trigger v) = dv_pn v" "dv_connected (pause_trigger v) = dv_connected v" "dv_epoch (pause_trigger v) = dv_epoch v"
  "dv_status (pause_trigger v) = dv_status v" "dv_reason (pause_trigger v) = dv_reason v" "dv_paused (pause_trigger v) = dv_paused v"
  "dv_purge_started (pause_trigger v) = dv_purge_started v" "dv_label (pause_trigger v) = dv_label v"
  "dv_push (pause_trigger v) = dv_push v" "dv_archive (pause_trigger v) = dv_archive v"
  by (simp_all add: pause_trigger_def)

definition timely_row :: "device_row \<Rightarrow> bool" where
  "timely_row v \<longleftrightarrow> (dv_leftover v = None \<or> dv_deleted v \<noteq> None)
     \<and> (case (dv_deleted v, dv_purge v) of (Some at, Some p) \<Rightarrow> p \<le> at + thirty_days | _ \<Rightarrow> True)"

lemma timely_row_trigger [simp]: "timely_row (pause_trigger v) = timely_row v"
  by (simp add: timely_row_def)

lemma number_row_ok_alt: "number_row_ok v \<longleftrightarrow> deletion_shape v \<and> pause_shape v \<and> timely_row v"
  by (auto simp: number_row_ok_def timely_row_def)

lemma replaced_ids: "dv_id w = d \<Longrightarrow> map dv_id (map (\<lambda>r. if dv_id r = d then w else r) rs) = map dv_id rs"
  by (induction rs) auto

lemma numbers_ok_replace:
  assumes "numbers_ok db" "dv_id w = d" "number_row_ok w" "\<And>r. r \<in> set (db_devices db) \<Longrightarrow> \<not> same_identity w r"
    "db_devices db' = map (\<lambda>r. if dv_id r = d then w else r) (db_devices db)"
  shows "numbers_ok db'"
proof -
  let ?g = "\<lambda>r. if dv_id r = d then w else r"
  have "\<not> same_identity a b" if "a \<in> set (map ?g (db_devices db))" "b \<in> set (map ?g (db_devices db))" for a b
  proof -
    have self: "\<not> same_identity w w" by (simp add: same_identity_def)
    have other: "\<not> same_identity r w" if "r \<in> set (db_devices db)" for r
      using assms(4) [OF that] same_identity_sym by blast
    from that assms(1,4) self other show ?thesis by (auto simp: numbers_ok_def split: if_splits)
  qed
  moreover have "distinct (map dv_id (map ?g (db_devices db)))"
    unfolding replaced_ids [OF assms(2)] using assms(1) by (simp add: numbers_ok_def)
  moreover have "list_all number_row_ok (map ?g (db_devices db))" using assms(1,3) by (auto simp: numbers_ok_def list_all_iff)
  ultimately show ?thesis unfolding numbers_ok_def assms(5) by (simp only: Ball_def) blast
qed

lemma numbers_ok_update:
  assumes "write_device q t d f db = Inr db'" "numbers_ok db" "\<And>v. dv_id (f v) = dv_id v"
    "\<And>v. device_of q db t d = Some v \<Longrightarrow> number_row_ok v \<Longrightarrow> timely_row (f v)"
  shows "numbers_ok db'"
  using assms(1)
proof (cases rule: write_device_cases)
  case (written v)
  have v: "v \<in> set (db_devices db)" "dv_id v = d" using device_of_in [OF written(1)] by auto
  have "number_row_ok v" using v assms(2) by (simp add: numbers_ok_def list_all_iff)
  then have "number_row_ok (pause_trigger (f v))" using written(2,3) assms(4) [OF written(1)] by (simp add: number_row_ok_alt)
  moreover have "dv_id (pause_trigger (f v)) = d" using assms(3) v(2) by simp
  ultimately show ?thesis using written(5,6) by (intro numbers_ok_replace [OF assms(2)]) (auto simp: list_ex_iff)
qed

section \<open>Quiet steps\<close>

text \<open>The events as the ledger sees them: the labels are not in it.\<close>

definition scrubbed :: "event_row \<Rightarrow> event_row" where
  "scrubbed e = e\<lparr>ev_label := None, ev_hint := None\<rparr>"

definition views :: "db \<Rightarrow> event_row set" where
  "views db = scrubbed ` set (db_events db)"

definition other_event :: "event_row \<Rightarrow> bool" where
  "other_event e \<longleftrightarrow> ledgered_type (ev_type e) = None \<and> fst (ev_dedupe e) = ev_type e"

definition event_ids :: "db \<Rightarrow> uuid list" where
  "event_ids db = map ev_id (db_events db)"

definition follows :: "device_row \<Rightarrow> device_row \<Rightarrow> bool" where
  "follows v w \<longleftrightarrow> dv_id w = dv_id v \<and> dv_tenant w = dv_tenant v \<and> dv_deleted w = dv_deleted v
     \<and> (never_linked w \<longrightarrow> never_linked v)"

definition quiet_step :: "db \<Rightarrow> db \<Rightarrow> bool" where
  "quiet_step db db' \<longleftrightarrow> (\<forall>w\<in>set (db_devices db'). \<exists>v\<in>set (db_devices db). follows v w)
     \<and> dv_id ` set (db_devices db') = dv_id ` set (db_devices db)
     \<and> (\<exists>N. views db' = views db \<union> N \<and> Ball N other_event)
     \<and> (distinct (event_ids db) \<longrightarrow> distinct (event_ids db'))"

lemma scrubbed_keeps [simp]:
  "ev_id (scrubbed e) = ev_id e" "ev_type (scrubbed e) = ev_type e" "ev_dedupe (scrubbed e) = ev_dedupe e"
  "ev_tenant (scrubbed e) = ev_tenant e" "ev_item (scrubbed e) = ev_item e" "ev_ledgered (scrubbed e) = ev_ledgered e"
  "ev_deleted (scrubbed e) = ev_deleted e" "ev_replayed (scrubbed e) = ev_replayed e" "ev_occurred (scrubbed e) = ev_occurred e"
  "line_of_event (scrubbed e) = line_of_event e" "other_event (scrubbed e) = other_event e"
  by (cases "ledgered_type (ev_type e)"; simp add: scrubbed_def line_of_event_def other_event_def)+

lemma follows_refl [simp]: "follows v v"
  by (simp add: follows_def)

lemma followed [intro]: "w \<in> S \<Longrightarrow> \<exists>v\<in>S. follows v w"
  by (rule bexI [of _ w]) simp_all

lemma quiet_step_trans: "quiet_step a b \<Longrightarrow> quiet_step b c \<Longrightarrow> quiet_step a c"
proof -
  assume a: "quiet_step a b" and b: "quiet_step b c"
  obtain N M where "views b = views a \<union> N" "Ball N other_event" "views c = views b \<union> M" "Ball M other_event"
    using a b by (auto simp: quiet_step_def)
  then have "\<exists>N. views c = views a \<union> N \<and> Ball N other_event" by (intro exI [of _ "N \<union> M"]) auto
  moreover have "\<exists>v\<in>set (db_devices a). follows v w" if "w \<in> set (db_devices c)" for w
  proof -
    from that b obtain u where u: "u \<in> set (db_devices b)" "follows u w" by (auto simp: quiet_step_def)
    with a obtain v where "v \<in> set (db_devices a)" "follows v u" by (auto simp: quiet_step_def)
    with u show ?thesis by (auto simp: follows_def)
  qed
  ultimately show ?thesis using a b by (simp add: quiet_step_def)
qed

lemma quiet_step_same: "db_devices db' = db_devices db \<Longrightarrow> db_events db' = db_events db \<Longrightarrow> quiet_step db db'"
  by (auto simp: quiet_step_def views_def event_ids_def intro!: exI [of _ "{}"])

lemma quiet_step_device:
  assumes "write_device q t d f db = Inr db'" "\<And>v. device_of q db t d = Some v \<Longrightarrow> follows v (f v)"
  shows "quiet_step db db'"
  using assms(1)
proof (cases rule: write_device_cases)
  case (written v)
  have v: "v \<in> set (db_devices db)" "dv_id v = d" using device_of_in [OF written(1)] by auto
  have "follows v (pause_trigger (f v))" using assms(2) [OF written(1)] by (simp add: follows_def never_linked_def)
  moreover have "map dv_id (db_devices db') = map dv_id (db_devices db)"
    using v calculation by (simp add: written(6) follows_def replaced_ids del: map_map)
  then have "dv_id ` set (db_devices db') = dv_id ` set (db_devices db)" by (metis list.set_map)
  moreover have "\<exists>r\<in>set (db_devices db). follows r w" if "w \<in> set (db_devices db')" for w
  proof (cases "w = pause_trigger (f v)")
    case True
    with v(1) calculation(1) show ?thesis by blast
  next
    case False
    with that show ?thesis by (auto simp: written(6) split: if_splits)
  qed
  moreover have "db_events db' = db_events db" by (simp add: written(6))
  ultimately show ?thesis by (auto simp: quiet_step_def views_def event_ids_def intro!: exI [of _ "{}"])
qed

lemma views_record: "views (record_event e db) = views db \<union> (if list_ex (same_event e) (db_events db) then {} else {scrubbed e})"
  by (simp add: views_def record_event_def)

lemma ids_record: "distinct (event_ids db) \<Longrightarrow> distinct (event_ids (record_event e db))"
  by (auto simp: event_ids_def record_event_def list_ex_iff same_event_def image_iff)

lemma quiet_step_record: "other_event e \<Longrightarrow> quiet_step db (record_event e db)"
proof -
  assume o: "other_event e"
  let ?N = "if list_ex (same_event e) (db_events db) then {} else {scrubbed e}"
  have "views (record_event e db) = views db \<union> ?N \<and> Ball ?N other_event" unfolding views_record using o by simp
  then have "\<exists>N. views (record_event e db) = views db \<union> N \<and> Ball N other_event" by blast
  moreover have "db_devices (record_event e db) = db_devices db" by (simp add: record_event_def)
  ultimately show ?thesis using ids_record [of db e] unfolding quiet_step_def by auto
qed

lemma quiet_step_access:
  assumes "quiet db db'"
  shows "quiet_step db db'"
proof -
  from assms obtain new where new: "db_events db' = db_events db @ new" "list_all stranding new"
    "distinct (map ev_id (db_events db)) \<longrightarrow> distinct (map ev_id (db_events db'))" "db_devices db' = db_devices db"
    by (auto simp: quiet_def strandings_def same_base_def)
  have "Ball (scrubbed ` set new) other_event"
    using new(2) by (auto simp: list_all_iff stranding_def other_event_def ledgered_type_def)
  moreover have "views db' = views db \<union> scrubbed ` set new" by (simp add: views_def new(1) image_Un)
  ultimately have "\<exists>N. views db' = views db \<union> N \<and> Ball N other_event" by blast
  moreover have "\<forall>w\<in>set (db_devices db'). \<exists>v\<in>set (db_devices db). follows v w" using new(4) by auto
  ultimately show ?thesis using new(3,4) by (simp add: quiet_step_def event_ids_def)
qed

end
