(* ===== verification/Deletion_Facts.thy ===== *)
theory Deletion_Facts
  imports Lifecycle Access_Props
begin

text \<open>
  What the statements of a deletion, a recovery and a purge leave alone, and the invariant of the numbers'
  rows.
\<close>

section \<open>Ending connections\<close>

text \<open>People keep what they hold: only service accounts lose theirs.\<close>

definition unversioned :: "member_row \<Rightarrow> member_row" where
  "unversioned m = m\<lparr>mb_version := 0\<rparr>"

definition is_service :: "db \<Rightarrow> uuid \<Rightarrow> bool" where
  "is_service db u = (case user_of db u of None \<Rightarrow> False | Some r \<Rightarrow> us_role r = ''service'')"

definition same_people :: "db \<Rightarrow> db \<Rightarrow> bool" where
  "same_people db db' \<longleftrightarrow> db_users db' = db_users db \<and> db_tenants db' = db_tenants db \<and>
     (\<forall>u. \<not> is_service db u \<longrightarrow>
       (\<forall>t. map_option unversioned (member_of db' t u) = map_option unversioned (member_of db t u)
          \<and> (\<forall>d. perm_of db' t d u = perm_of db t d u))
       \<and> filter (\<lambda>g. gr_user g = u) (db_grants db') = filter (\<lambda>g. gr_user g = u) (db_grants db))"

lemma same_people_refl [simp]: "same_people db db"
  by (simp add: same_people_def)

lemma same_people_trans: "same_people a b \<Longrightarrow> same_people b c \<Longrightarrow> same_people a c"
  unfolding same_people_def is_service_def user_of_def by simp

lemma map_unversioned_bump: "find (\<lambda>m. mb_tenant m = t \<and> mb_user m = u) (bump n ms)
    = map_option (\<lambda>m. m\<lparr>mb_version := mb_version m + int (n (mb_tenant m) (mb_user m))\<rparr>) (find (\<lambda>m. mb_tenant m = t \<and> mb_user m = u) ms)"
  unfolding bump_def by (rule find_map) simp

lemma unversioned_version [simp]: "unversioned (m\<lparr>mb_version := k\<rparr>) = unversioned m"
  by (simp add: unversioned_def)

lemma same_people_bump:
  assumes "db_users db' = db_users db" "db_tenants db' = db_tenants db" "db_members db' = bump n (db_members db)"
    "db_perms db' = db_perms db" "db_grants db' = db_grants db"
  shows "same_people db db'"
  using assms
  by (simp add: same_people_def member_of_def perm_of_def map_unversioned_bump option.map_comp comp_def)

lemma same_people_same:
  assumes "db_users db' = db_users db" "db_tenants db' = db_tenants db" "db_members db' = db_members db"
    "db_perms db' = db_perms db" "db_grants db' = db_grants db"
  shows "same_people db db'"
  using assms by (simp add: same_people_def member_of_def perm_of_def)

lemma same_people_service:
  assumes "remove_service_account now t s db = Inr db'"
  shows "same_people db db'"
  using assms
proof (cases rule: remove_service_cases)
  case (removed r)
  have svc: "is_service db s" using removed(1,2) by (simp add: is_service_def)
  let ?db1 = "revoke_keys now (\<lambda>k. ky_tenant k = t \<and> ky_acts k = Some s) db"
  let ?db2 = "delete_grants (\<lambda>g. gr_tenant g = t \<and> gr_user g = s) ?db1"
  let ?db3 = "delete_perms (\<lambda>p. pm_tenant p = t \<and> pm_user p = s) ?db2"
  have 1: "same_people db ?db1" by (rule same_people_same) (simp_all add: revoke_keys_def)
  have 2: "same_people ?db1 ?db2"
    using svc by (auto simp: same_people_def delete_grants_def revoke_keys_def member_of_def perm_of_def map_unversioned_bump
        is_service_def user_of_def option.map_comp comp_def intro!: filter_cong)
  have 3: "same_people ?db2 ?db3"
    using svc by (auto simp: same_people_def delete_perms_def delete_grants_def revoke_keys_def member_of_def perm_of_def
        map_unversioned_bump is_service_def user_of_def option.map_comp comp_def intro!: find_filter)
  have 4: "same_people ?db3 db'"
    using svc unfolding removed(3)
    by (auto simp: same_people_def delete_member_def delete_perms_def delete_grants_def revoke_keys_def member_of_def perm_of_def
        is_service_def user_of_def intro!: find_filter arg_cong [where f = "map_option unversioned"])
  show ?thesis using same_people_trans [OF same_people_trans [OF same_people_trans [OF 1 2] 3] 4] .
qed

lemma end_connection_kept:
  assumes "end_connection now t i status reason db = Inr (b, db')"
  shows "same_base db db'" "same_people db db'" "db_key_devices db' = db_key_devices db" "db_events db' = db_events db"
    "list_all2 connection_ended (db_connections db) (db_connections db')"
    "list_all2 key_revoked (db_keys db) (db_keys db')"
proof -
  have close: "quiet db (close_rows now t status reason c db)" "same_people db (close_rows now t status reason c db)"
    "db_events (close_rows now t status reason c db) = db_events db"
    if "status = ''revoked'' \<or> status = ''expired''" for c
    using quiet_close [OF that] by (auto simp: close_rows_def Let_def intro!: same_people_same)
  have "same_base db db' \<and> same_people db db' \<and> db_key_devices db' = db_key_devices db \<and> db_events db' = db_events db
      \<and> list_all2 connection_ended (db_connections db) (db_connections db') \<and> list_all2 key_revoked (db_keys db) (db_keys db')"
    using assms
  proof (cases rule: end_connection_cases)
    case (rows c)
    then show ?thesis using close by (simp add: quiet_def)
  next
    case (service c s)
    let ?db1 = "close_rows now t status reason c db"
    have q: "quiet db ?db1" using close service(1) by simp
    have base: "same_base ?db1 db'" by (rule base_remove_service [OF service(4)])
    have rest: "db_key_devices db' = db_key_devices ?db1" "db_events db' = db_events ?db1"
      "db_connections db' = db_connections ?db1"
      "db_keys db' = db_keys (revoke_keys now (\<lambda>k. ky_tenant k = t \<and> ky_acts k = Some s) ?db1)"
      using service(4) by (cases rule: remove_service_cases;
        simp add: delete_member_def delete_perms_def delete_grants_def revoke_keys_def)+
    have "list_all2 key_revoked (db_keys db) (db_keys db')"
    proof -
      have "list_all2 key_revoked (db_keys ?db1) (db_keys db')"
        unfolding rest(4) using quiet_revoke by (simp add: quiet_def)
      moreover have "list_all2 key_revoked (db_keys db) (db_keys ?db1)" using q by (simp add: quiet_def)
      moreover have "key_revoked a b \<Longrightarrow> key_revoked b c \<Longrightarrow> key_revoked a c" for a b c
        by (auto simp: key_revoked_def)
      ultimately show ?thesis by - (rule list_all2_trans [of key_revoked key_revoked key_revoked], blast)
    qed
    note r = rest close(2,3) [OF service(1)]
    have "same_base db db'" by (rule same_base_trans [OF _ base]) (use q in \<open>simp add: quiet_def\<close>)
    moreover have "same_people db db'" by (rule same_people_trans [OF r(5) same_people_service [OF service(4)]])
    moreover have "list_all2 connection_ended (db_connections db) (db_connections db')" "db_key_devices db' = db_key_devices db"
      using q r(1,3) by (simp_all add: quiet_def)
    ultimately show ?thesis using r(2,6) \<open>list_all2 key_revoked (db_keys db) (db_keys db')\<close> by simp
  qed
  then show "same_base db db'" "same_people db db'" "db_key_devices db' = db_key_devices db" "db_events db' = db_events db"
    "list_all2 connection_ended (db_connections db) (db_connections db')"
    "list_all2 key_revoked (db_keys db) (db_keys db')" by simp_all
qed

lemma end_listed_kept:
  assumes "end_listed now t is db = Inr db'"
  shows "same_base db db' \<and> same_people db db' \<and> db_key_devices db' = db_key_devices db \<and> db_events db' = db_events db"
  using assms
proof (induction now t "is" db arbitrary: db' rule: end_listed.induct)
  case (2 now t i "is" db)
  from 2(2) obtain b db1 where e: "end_connection now t i ''revoked'' ''access_lost'' db = Inr (b, db1)"
    "end_listed now t is db1 = Inr db'" by auto
  from end_connection_kept(1-4) [OF e(1)] 2(1) [OF e(2)] show ?case
    by (auto intro: same_base_trans same_people_trans)
qed (simp add: same_base_refl)

section \<open>Notices and events\<close>

lemma put_notice_only: "\<exists>ns k. put_notice n db = db\<lparr>db_notices := ns, db_notice_seq := k\<rparr>"
  by (auto simp: put_notice_def Let_def)

lemma notices_fold:
  assumes "\<And>u b. \<exists>ns k. f u b = b\<lparr>db_notices := ns, db_notice_seq := k\<rparr>"
  shows "\<exists>ns k. fold f us db = db\<lparr>db_notices := ns, db_notice_seq := k\<rparr>"
proof (induction us arbitrary: db)
  case Nil
  have "fold f [] db = db\<lparr>db_notices := db_notices db, db_notice_seq := db_notice_seq db\<rparr>" by simp
  then show ?case by blast
next
  case (Cons u us)
  obtain ns k where "f u db = db\<lparr>db_notices := ns, db_notice_seq := k\<rparr>" using assms by blast
  moreover obtain ns' k' where "fold f us (f u db) = (f u db)\<lparr>db_notices := ns', db_notice_seq := k'\<rparr>" using Cons by blast
  ultimately have "fold f (u # us) db = db\<lparr>db_notices := ns', db_notice_seq := k'\<rparr>" by simp
  then show ?case by blast
qed

lemma put_notices_only: "\<exists>ns k. fold (\<lambda>u. put_notice (f u)) us db = db\<lparr>db_notices := ns, db_notice_seq := k\<rparr>"
  by (rule notices_fold) (rule put_notice_only)

lemma raise_pauses_only: "\<exists>ns k. fold (raise_pause at t d kind actor label hint) us db = db\<lparr>db_notices := ns, db_notice_seq := k\<rparr>"
  by (rule notices_fold) (auto simp: raise_pause_def Let_def)

lemma pause_number_cases [consumes 1, case_names again first]:
  assumes "pause_number x t d who db = Inr (p, db')"
  obtains v where "device_of False db t d = Some v" "dv_paused v" "write_device False t d pause_row db = Inr db'" "p = not_paused"
  | v db1 kind actor where "device_of False db t d = Some v" "\<not> dv_paused v" "write_device False t d pause_row db = Inr db1"
    "pause_by db1 t who = Inr (kind, actor)" "(p, db') = tell_pause x t v kind actor db1"
  using assms unfolding pause_number_def
  by (cases "device_of False db t d"; cases "write_device False t d pause_row db") (auto split: if_splits)

lemma record_event_only: "record_event e db = db\<lparr>db_events := db_events (record_event e db)\<rparr>"
  by (simp add: record_event_def)

lemma tell_deletion_only: "\<exists>ns k. tell_deletion x t actor v told db = db\<lparr>db_notices := ns, db_notice_seq := k\<rparr>"
proof -
  obtain ns k where "tell_deletion x t actor v told db
      = (drop_notices t (dv_id v) ''sync_paused'' db)\<lparr>db_notices := ns, db_notice_seq := k\<rparr>"
    unfolding tell_deletion_def
    using put_notices_only [of "deletion_notice x t actor v" "remdups (told @ other_owners db t actor)"
        "drop_notices t (dv_id v) ''sync_paused'' db"] by blast
  then show ?thesis by (auto simp: drop_notices_def)
qed

section \<open>A deletion\<close>

lemma exclude_row_trigger [simp]: "pause_trigger (exclude_row at actor w v) = exclude_row at actor w v"
  by (simp add: pause_trigger_def exclude_row_def)

definition mark_excluded :: "uuid \<Rightarrow> device_row \<Rightarrow> db \<Rightarrow> db" where
  "mark_excluded d w db = db\<lparr>db_devices := map (\<lambda>r. if dv_id r = d then w else r) (db_devices db)\<rparr>"

lemma exclude_number_cases [consumes 2, case_names excluded]:
  assumes "exclude_number x t actor v db = Inr (q, db')" "device_of True db t (dv_id v) = Some v"
  obtains db1 ns k n where
    "end_listed (tx_now x) t (map cn_id (sort_key cn_id (assistants_of db t (dv_id v)))) db = Inr db1"
    "qu_session q = session_of db v" "\<not> qu_already q" "qu_deleted q = tx_clock x" "qu_purge q = tx_clock x + thirty_days"
    "db' = record_event (deleted_event x t actor v (readers (tx_now x) db t (dv_id v)) db)
       ((mark_excluded (dv_id v) (exclude_row (tx_clock x) actor (session_of db v) v)
         (requeue_downloads (dv_id v) (delete_key_devices (\<lambda>(k, r). r = dv_id v) db1)))
        \<lparr>db_members := bump n (db_members db1), db_notices := ns, db_notice_seq := k\<rparr>)"
proof -
  let ?d = "dv_id v"
  let ?ending = "sort_key cn_id (assistants_of db t ?d)"
  obtain db1 where e: "end_listed (tx_now x) t (map cn_id ?ending) db = Inr db1"
    using assms(1) by (cases "end_listed (tx_now x) t (map cn_id ?ending) db") (auto simp: exclude_number_def Let_def)
  obtain narrowed db2 where off: "off_keys ?d (map cn_key ?ending) db1 = (narrowed, db2)" by fastforce
  let ?db3 = "requeue_downloads ?d db2"
  have db2: "db2 = delete_key_devices (\<lambda>(k, r). r = ?d) db1" using off by (simp add: off_keys_def Let_def)
  have base: "same_base db db1" using end_listed_kept [OF e] by blast
  have sess: "session_of ?db3 v = session_of db v"
    using base by (simp add: session_of_def requeue_downloads_def db2 delete_key_devices_def same_base_def Let_def)
  have dev3: "device_of True ?db3 t ?d = Some v"
    using assms(2) same_base_reads(3) [OF base, of True t ?d]
    by (simp add: device_of_def requeue_downloads_def db2 delete_key_devices_def Let_def)
  obtain db4 where u: "write_device True t ?d (exclude_row (tx_clock x) actor (session_of db v)) ?db3 = Inr db4"
    and rest: "q = \<lparr>qu_already = False, qu_deleted = tx_clock x, qu_purge = tx_clock x + thirty_days,
       qu_session = session_of db v, qu_unlinked = False, qu_note = '''',
       qu_ended = map (\<lambda>c. (cn_id c, cn_client c, assistant_kind (cn_kind c))) ?ending, qu_narrowed = narrowed\<rparr>"
      "db' = (let db5 = bump_holders t actor ?d (tell_deletion x t actor v (map us_id (other_readers (tx_now x) db t actor ?d)) db4)
        in record_event (deleted_event x t actor v (readers (tx_now x) db t ?d) db5) db5)"
    using assms(1) e off sess unfolding exclude_number_def Let_def by auto
  from u have db4: "db4 = mark_excluded ?d (exclude_row (tx_clock x) actor (session_of db v) v) ?db3"
    by (cases rule: write_device_cases) (simp add: dev3 mark_excluded_def)
  let ?told = "map us_id (other_readers (tx_now x) db t actor ?d)"
  obtain ns k where told: "tell_deletion x t actor v ?told db4 = db4\<lparr>db_notices := ns, db_notice_seq := k\<rparr>"
    using tell_deletion_only by blast
  define n where "n = (\<lambda>w u. if w = t \<and> u \<noteq> actor \<and> (list_ex (\<lambda>g. gr_tenant g = t \<and> gr_device g = ?d \<and> gr_user g = u) (db_grants db4)
     \<or> list_ex (\<lambda>p. pm_tenant p = t \<and> pm_device p = ?d \<and> pm_user p = u) (db_perms db4)) then 1 else (0 :: nat))"
  let ?db5 = "db4\<lparr>db_members := bump n (db_members db4), db_notices := ns, db_notice_seq := k\<rparr>"
  have db5: "bump_holders t actor ?d (tell_deletion x t actor v ?told db4) = ?db5"
    unfolding told bump_holders_def n_def by simp
  have "deleted_event x t actor v rs ?db5 = deleted_event x t actor v rs db" for rs
  proof -
    have "db_users ?db5 = db_users db"
      using base by (simp add: db4 mark_excluded_def requeue_downloads_def db2 delete_key_devices_def Let_def same_base_def)
    then show ?thesis by (simp add: deleted_event_def by_actor_def sub_of_def user_of_def)
  qed
  with rest(2) have fin: "db' = record_event (deleted_event x t actor v (readers (tx_now x) db t ?d) db) ?db5"
    unfolding Let_def db5 by simp
  have m4: "db_members db4 = db_members db1"
    by (simp add: db4 mark_excluded_def requeue_downloads_def db2 delete_key_devices_def Let_def)
  have q: "qu_session q = session_of db v" "\<not> qu_already q" "qu_deleted q = tx_clock x" "qu_purge q = tx_clock x + thirty_days"
    by (simp_all add: rest(1))
  show thesis by (rule that [OF e q fin [unfolded m4, unfolded db4 db2]])
qed

section \<open>Who reads, before and after\<close>

lemma find_distinct_user:
  assumes "distinct (map us_id (db_users db))" "r \<in> set (db_users db)"
  shows "user_of db (us_id r) = Some r"
  unfolding user_of_def by (rule find_key_eq [OF assms]) simp

lemma holds_key_user: "holds_key db t u v =
    list_ex (\<lambda>g. gr_tenant g = t \<and> gr_device g = dv_id v \<and> gr_user g = u \<and> gr_epoch g = dv_epoch v)
      (filter (\<lambda>g. gr_user g = u) (db_grants db))"
  by (auto simp: holds_key_def list_ex_iff)

definition reading_member :: "timestamp \<Rightarrow> member_row \<Rightarrow> bool" where
  "reading_member now m \<longleftrightarrow> mb_role m \<noteq> ''service'' \<and> mb_status m = ''active'' \<and> before now (mb_expires m)"

lemma reading_unversioned: "reading_member now (unversioned m) = reading_member now m"
  by (simp add: reading_member_def unversioned_def)

definition reads_number :: "timestamp \<Rightarrow> db \<Rightarrow> uuid \<Rightarrow> device_row \<Rightarrow> user_row \<Rightarrow> bool" where
  "reads_number now db t v r \<longleftrightarrow> us_role r \<noteq> ''service'' \<and> us_status r = ''active'' \<and> tenant_active db t
     \<and> (\<exists>m. map_option unversioned (member_of db t (us_id r)) = Some m \<and> reading_member now m)
     \<and> can_read_flag db t (dv_id v) (us_id r) \<and> holds_key db t (us_id r) v"

lemma reads_number_alt: "reads_number now db t v r \<longleftrightarrow>
    (case member_of db t (us_id r) of None \<Rightarrow> False
       | Some m \<Rightarrow> mb_role m \<noteq> ''service'' \<and> us_role r \<noteq> ''service'' \<and> mb_status m = ''active''
          \<and> us_status r = ''active'' \<and> tenant_active db t \<and> before now (mb_expires m)
          \<and> can_read_flag db t (dv_id v) (us_id r) \<and> holds_key db t (us_id r) v)"
  by (cases "member_of db t (us_id r)") (auto simp: reads_number_def unversioned_def reading_member_def)

lemma readers_by_view:
  assumes "device_of True db t d = Some v"
  shows "readers now db t d = sort_key (\<lambda>r. ascii_lower (us_email r)) (sort_key us_id
    (filter (reads_number now db t v) (db_users db)))"
proof -
  have d: "d = dv_id v" using device_of_in [OF assms] by simp
  show ?thesis using assms unfolding d by (simp add: readers_def reads_number_alt cong: filter_cong)
qed

lemma readers_kept:
  assumes "distinct (map us_id (db_users db))" "same_people db db'"
    and "device_of True db t d = Some v" "device_of True db' t d = Some w" "dv_id w = dv_id v" "dv_epoch w = dv_epoch v"
  shows "readers now db' t d = readers now db t d"
proof -
  have users: "db_users db' = db_users db" and ten: "tenant_active db' t = tenant_active db t"
    using assms(2) by (simp_all add: same_people_def tenant_active_def tenant_of_def)
  have "reads_number now db' t w r = reads_number now db t v r" if "r \<in> set (db_users db)" for r
  proof (cases "us_role r = ''service''")
    case False
    with that have "\<not> is_service db (us_id r)" using find_distinct_user [OF assms(1)] by (simp add: is_service_def)
    with assms(2) have "map_option unversioned (member_of db' t (us_id r)) = map_option unversioned (member_of db t (us_id r))"
      "perm_of db' t (dv_id v) (us_id r) = perm_of db t (dv_id v) (us_id r)"
      "filter (\<lambda>g. gr_user g = us_id r) (db_grants db') = filter (\<lambda>g. gr_user g = us_id r) (db_grants db)"
      unfolding same_people_def by blast+
    then show ?thesis unfolding reads_number_def holds_key_user by (simp add: can_read_flag_def assms(5,6) ten)
  qed (simp add: reads_number_def)
  then show ?thesis
    unfolding readers_by_view [OF assms(3)] readers_by_view [OF assms(4)] users
    by (simp cong: filter_cong)
qed

section \<open>A recovery\<close>

lemma bring_back_cases [consumes 2, case_names brought]:
  assumes "bring_back x t actor v at db = Inr (r, db')" "device_of True db t (dv_id v) = Some v"
  obtains n ns toks e where
    "db' = record_event e ((mark_excluded (dv_id v) (pause_trigger (recover_row (session_gone db v) v)) db)
       \<lparr>db_wa_tokens := toks, db_members := bump n (db_members db), db_notices := ns\<rparr>)"
    "ev_type e = ''recovered''" "ev_item e = dv_id v" "ev_tenant e = t" "ev_deleted e = Some at" "ev_ledgered e = None"
    "ev_dedupe e = (''recovered'', dv_id v, None, at)" "ev_id e = tx_event x (dv_id v)" "ev_occurred e = tx_clock x"
    "ev_to e = None" "ev_purge e = None" "rd_already r = False"
    "rs_status (rd_state r) = dv_status (recover_row (session_gone db v) v)"
    "rs_can_resume (rd_state r) \<Longrightarrow> session_exists db (dv_pn v) None"
    "deletion_shape (pause_trigger (recover_row (session_gone db v) v))"
    "pause_shape (pause_trigger (recover_row (session_gone db v) v))"
    "\<not> list_ex (same_identity (pause_trigger (recover_row (session_gone db v) v))) (db_devices db)" "ev_replayed e = None"
proof -
  let ?d = "dv_id v"
  let ?w = "pause_trigger (recover_row (session_gone db v) v)"
  obtain db1 where u: "write_device True t ?d (recover_row (session_gone db v)) db = Inr db1"
    and rest: "r = \<lparr>rd_already = False, rd_state = recovery_state_of (tokens_of_gone v db1) t (recover_row (session_gone db v) v)
       (session_exists (tokens_of_gone v db1) (dv_pn v) None)\<rparr>"
    "db' = (let db3 = bump_holders t actor ?d (recovered_stranded t ?d (drop_notices t ?d ''number_deleted'' (tokens_of_gone v db1)))
       in record_event (recovered_event x t actor v at db3) db3)"
    using assms(1) unfolding bring_back_def Let_def identity_in_use_def
    by (cases "write_device True t ?d (recover_row (session_gone db v)) db") auto
  from u have shape: "deletion_shape ?w" "pause_shape ?w" "\<not> list_ex (same_identity ?w) (db_devices db)"
    and db1: "db1 = mark_excluded ?d ?w db"
    by (cases rule: write_device_cases; simp add: assms(2) mark_excluded_def)+
  obtain toks where toks: "tokens_of_gone v db1 = db1\<lparr>db_wa_tokens := toks\<rparr>"
  proof -
    have "tokens_of_gone v db1 = db1\<lparr>db_wa_tokens := db_wa_tokens (tokens_of_gone v db1)\<rparr>"
      by (simp add: tokens_of_gone_def delete_privacy_tokens_def split: option.splits)
    then show thesis by (rule that)
  qed
  define n where "n = (\<lambda>w u. if w = t \<and> u \<noteq> actor \<and> (list_ex (\<lambda>g. gr_tenant g = t \<and> gr_device g = ?d \<and> gr_user g = u) (db_grants db)
     \<or> list_ex (\<lambda>p. pm_tenant p = t \<and> pm_device p = ?d \<and> pm_user p = u) (db_perms db)) then 1 else (0 :: nat))"
  define ns where "ns = db_notices (recovered_stranded t ?d (drop_notices t ?d ''number_deleted'' (db1\<lparr>db_wa_tokens := toks\<rparr>)))"
  let ?db3 = "(mark_excluded ?d ?w db)\<lparr>db_wa_tokens := toks, db_members := bump n (db_members db), db_notices := ns\<rparr>"
  have db3: "bump_holders t actor ?d (recovered_stranded t ?d (drop_notices t ?d ''number_deleted'' (db1\<lparr>db_wa_tokens := toks\<rparr>))) = ?db3"
    unfolding ns_def n_def by (simp add: bump_holders_def recovered_stranded_def drop_notices_def db1 mark_excluded_def)
  define e where "e = recovered_event x t actor v at ?db3"
  have fin: "db' = record_event e ?db3" using rest(2) unfolding Let_def toks db3 e_def .
  have "session_exists (db1\<lparr>db_wa_tokens := toks\<rparr>) (dv_pn v) None = session_exists db (dv_pn v) None"
    by (simp add: session_exists_def db1 mark_excluded_def)
  then have st: "rd_already r = False" "rs_status (rd_state r) = dv_status (recover_row (session_gone db v) v)"
    "rs_can_resume (rd_state r) \<Longrightarrow> session_exists db (dv_pn v) None"
    by (simp_all add: rest(1) toks recovery_state_of_def)
  have ev: "ev_type e = ''recovered''" "ev_item e = ?d" "ev_tenant e = t" "ev_deleted e = Some at" "ev_ledgered e = None"
    "ev_dedupe e = (''recovered'', ?d, None, at)" "ev_id e = tx_event x ?d" "ev_occurred e = tx_clock x" "ev_to e = None" "ev_purge e = None"
    by (simp_all add: e_def recovered_event_def named_event_def by_actor_def item_event_def)
  have new: "ev_replayed e = None"
    by (simp add: e_def recovered_event_def named_event_def by_actor_def item_event_def)
  show thesis by (rule that [OF fin ev st shape new])
qed

lemma recover_cases [consumes 1, case_names already brought]:
  assumes "recover x t actor d free db = Inr (r, db')"
  obtains v where "require_owner db t actor = Inr ()" "device_of True db t d = Some v" "dv_deleted v = None"
    "rd_already r" "db' = db"
  | v at where "require_owner db t actor = Inr ()" "device_of True db t d = Some v" "dv_deleted v = Some at"
    "dv_purge_started v = None" "tx_clock x < purge_date v" "free"
    "case max_devices db t of None \<Rightarrow> True | Some n \<Rightarrow> device_usage False db t < n"
    "bring_back x t actor v at db = Inr (r, db')"
  using assms unfolding recover_def
  by (auto split: option.splits if_splits simp: not_le)

section \<open>The other operations\<close>

lemma record_unlink_cases [consumes 1, case_names nothing confirmed tried]:
  assumes "record_unlink t d at acked db = Inr (r, db')"
  obtains v where "deleted_of db t d = Some (v, at)" "dv_leftover v = None" "db' = db" "ur_unlinked r"
      "ur_note r = note_code False (dv_reason v)"
  | v l db1 where "deleted_of db t d = Some (v, at)" "dv_leftover v = Some l" "acked"
      "\<not> session_exists db (lo_jid l) (Some (lo_reg l))" "write_device True t d unlinked_row db = Inr db1"
      "db' = delete_privacy_tokens (lo_jid l) db1" "ur_unlinked r" "ur_note r = ''''"
  | v l where "deleted_of db t d = Some (v, at)" "dv_leftover v = Some l"
      "write_device True t d one_more_attempt db = Inr db'" "\<not> (acked \<and> \<not> session_exists db (lo_jid l) (Some (lo_reg l)))"
      "\<not> ur_unlinked r" "ur_note r = note_unconfirmed"
proof (cases "deleted_of db t d")
  case (Some va)
  then obtain v where v: "deleted_of db t d = Some (v, at)"
    using assms by (cases va) (auto simp: record_unlink_def split: if_splits)
  show thesis
  proof (cases "dv_leftover v")
    case None
    with assms v have "r = \<lparr>ur_unlinked = True, ur_note = note_code False (dv_reason v)\<rparr> \<and> db' = db"
      by (simp add: record_unlink_def)
    then show thesis using that(1) [OF v None] by simp
  next
    case (Some l)
    show thesis
    proof (cases "acked \<and> \<not> session_exists db (lo_jid l) (Some (lo_reg l))")
      case True
      with assms v Some obtain db1 where "write_device True t d unlinked_row db = Inr db1"
        "r = \<lparr>ur_unlinked = True, ur_note = ''''\<rparr>" "db' = delete_privacy_tokens (lo_jid l) db1"
        by (auto simp: record_unlink_def)
      with True show thesis using that(2) [OF v Some] by simp
    next
      case False
      with assms v Some have "write_device True t d one_more_attempt db = Inr db'"
        "r = \<lparr>ur_unlinked = False, ur_note = note_unconfirmed\<rparr>"
        by (auto simp: record_unlink_def)
      with False show thesis using that(3) [OF v Some] by simp
    qed
  qed
qed (use assms in \<open>simp add: record_unlink_def\<close>)

lemma purge_start_cases [consumes 1, case_names held begun]:
  assumes "purge_start clock t d now free db = Inr (r, db')"
  obtains v at where "deleted_of db t d = Some (v, at)" "\<not> free" "r = PurgeBusy" "db' = db"
  | v at db1 where "deleted_of db t d = Some (v, at)" "purge_date v \<le> clock \<or> dv_purge_started v \<noteq> None \<or> now" "free"
      "write_device True t d (start_row clock now) db = Inr db1" "db' = snd (remove_leftover v db1)"
      "r = PurgeBegun \<lparr>pd_deleted = at, pd_purge = purge_date (start_row clock now v)\<rparr> (fst (remove_leftover v db1))"
proof (cases "deleted_of db t d")
  case (Some va)
  then obtain v at where v: "deleted_of db t d = Some (v, at)" by (cases va) auto
  show thesis
  proof (cases free)
    case False
    with assms v that(1) show thesis by (auto simp: purge_start_def split: if_splits)
  next
    case True
    then obtain db1 where "write_device True t d (start_row clock now) db = Inr db1"
      using assms v by (auto simp: purge_start_def split: if_splits)
    with True assms v that(2) show thesis
      by (cases "remove_leftover v db1") (auto simp: purge_start_def not_less split: if_splits)
  qed
qed (use assms in \<open>simp add: purge_start_def\<close>)

lemma quarantine_cases [consumes 1, case_names already excluded]:
  assumes "quarantine x t actor d ack db = Inr (q, db')"
  obtains v at where "require_owner db t actor = Inr ()" "device_of True db t d = Some v" "dv_deleted v = Some at"
      "q = already_excluded v at (case dv_purge v of None \<Rightarrow> at | Some p \<Rightarrow> p)" "db' = db"
  | v where "require_owner db t actor = Inr ()" "device_of True db t d = Some v" "dv_deleted v = None"
      "\<not> never_linked v" "\<forall>r\<in>set (other_readers (tx_now x) db t actor d). us_id r \<in> set ack"
      "exclude_number x t actor v db = Inr (q, db')" "dv_id v = d"
  using assms unfolding quarantine_def
  by (auto split: option.splits if_splits simp: Let_def list_ex_iff dest: device_of_in)

end
