(* ===== verification/Life_Inv.thy ===== *)
theory Life_Inv
  imports Deletion_Facts
begin

text \<open>
  Every step of a number's life, by what it does to the rows and the events, and the invariant of the rows.
\<close>

section \<open>The access code\<close>

interpretation life_access: access_statements quiet_step
proof unfold_locales
  show "quiet_step db db" for db by (rule quiet_step_same) simp_all
  show "quiet_step a b \<Longrightarrow> quiet_step b c \<Longrightarrow> quiet_step a c" for a b c by (rule quiet_step_trans)
  show "quiet db db' \<Longrightarrow> quiet_step db db'" for db db' by (rule quiet_step_access)
qed (auto simp: delete_grants_def delete_perms_def delete_member_def put_perm_def put_grant_row_def extend_key_def issue_key_def
    set_member_def Let_def split: option.splits if_splits intro!: quiet_step_same)

section \<open>Quiet operations\<close>

lemma tell_pause_quiet: "quiet_step db (snd (tell_pause x t v kind actor db))"
proof -
  let ?rs = "readers (tx_now x) db t (dv_id v)"
  let ?told = "filter (\<lambda>u. actor \<noteq> Some u) (map us_id ?rs)"
  let ?e = "named_event x v (by_actor db kind actor (item_event x t ''sync_paused'' v (tx_clock x) ?rs))"
  obtain ns k where ns: "fold (raise_pause (tx_clock x) t (dv_id v) kind actor (item_label x v) (hint_from_pn (dv_pn v))) ?told db
      = db\<lparr>db_notices := ns, db_notice_seq := k\<rparr>" using raise_pauses_only by blast
  have "quiet_step db (record_event ?e (db\<lparr>db_notices := ns, db_notice_seq := k\<rparr>))"
    by (rule quiet_step_trans [OF quiet_step_same quiet_step_record])
      (simp_all add: other_event_def named_event_def by_actor_def item_event_def ledgered_type_def)
  then show ?thesis by (simp add: tell_pause_def Let_def ns life_access.R_refl)
qed

lemma quiet_pause:
  assumes "pause_number x t d who db = Inr (p, db')"
  shows "quiet_step db db'"
proof -
  have 1: "write_device False t d pause_row db = Inr b \<Longrightarrow> quiet_step db b" for b
    by (rule quiet_step_device, assumption) (simp add: follows_def pause_row_def never_linked_def)
  from assms show ?thesis
    by (cases rule: pause_number_cases) (metis 1, metis 1 tell_pause_quiet quiet_step_trans snd_conv)
qed

lemma quiet_updates:
  "set_status now t d s r db = Inr db' \<Longrightarrow> quiet_step db db'"
  "set_identity t d lid pn push db = Inr db' \<Longrightarrow> quiet_step db db'"
  "rename_device t d l db = Inr db' \<Longrightarrow> quiet_step db db'"
  "write_pause t d p c db = Inr db' \<Longrightarrow> quiet_step db db'"
  unfolding set_status_def set_identity_def rename_device_def write_pause_def Let_def
  by (auto split: if_splits elim!: quiet_step_device simp: follows_def never_linked_def coalesce_def)

lemma quiet_tokens: "quiet_step db (delete_privacy_tokens jid db)"
  by (auto simp: delete_privacy_tokens_def intro!: quiet_step_same)

lemma quiet_unlink:
  assumes "record_unlink t d at acked db = Inr (r, db')"
  shows "quiet_step db db'"
  using assms
proof (cases rule: record_unlink_cases)
  case (confirmed v l db1)
  have "quiet_step db db1"
    by (rule quiet_step_device [OF confirmed(5)]) (simp add: follows_def never_linked_def unlinked_row_def)
  then show ?thesis unfolding confirmed(6) by (rule quiet_step_trans [OF _ quiet_tokens])
next
  case (tried v l)
  then show ?thesis
    by (intro quiet_step_device [OF tried(3)]) (simp add: follows_def never_linked_def one_more_attempt_def)
qed (simp add: life_access.R_refl)

lemma quiet_purge_start:
  assumes "purge_start clock t d now free db = Inr (r, db')"
  shows "quiet_step db db'"
  using assms
proof (cases rule: purge_start_cases)
  case (begun v at db1)
  have "quiet_step db db1"
    by (rule quiet_step_device [OF begun(4)]) (simp add: follows_def never_linked_def start_row_def)
  moreover have "quiet_step db1 db'"
    unfolding begun(5)
    by (auto simp: remove_leftover_def remove_session_def delete_privacy_tokens_def intro!: quiet_step_same split: option.splits)
  ultimately show ?thesis by (rule quiet_step_trans)
qed (simp add: life_access.R_refl)

lemma purge_table_same:
  assumes "purge_table t d n table db = (rows, keys, db')"
  shows "db_devices db' = db_devices db \<and> db_events db' = db_events db"
  using assms by (auto simp: purge_table_def purge_messages_def delete_messages_def Let_def split: if_splits)

lemma purge_first_same:
  "purge_first t d n tables db = Some (table, rows, keys, db') \<Longrightarrow> db_devices db' = db_devices db \<and> db_events db' = db_events db"
  by (induction t d n tables db rule: purge_first.induct) (auto split: prod.splits if_splits dest: purge_table_same)

lemma quiet_rows: "quiet_step db (case purge_batch t d n db of Batch _ _ _ db' \<Rightarrow> db' | _ \<Rightarrow> db)"
  by (auto simp: purge_batch_def split: option.splits dest!: purge_first_same intro!: quiet_step_same)

lemma quiet_object: "delete_object bucket t k db = Some db' \<Longrightarrow> quiet_step db db'"
  by (auto simp: delete_object_def split: if_splits intro!: quiet_step_same)

lemma cascade_same [simp]: "db_devices (cascade_device d db) = db_devices db" "db_events (cascade_device d db) = db_events db"
  by (simp_all add: cascade_device_def delete_key_devices_def delete_perms_def delete_grants_def delete_messages_def Let_def)

lemma record_event_devices [simp]: "db_devices (record_event e db) = db_devices db"
  by (simp add: record_event_def)

section \<open>The invariant of the rows\<close>

lemma timely_row_same: "timely_row v \<Longrightarrow> dv_leftover w = dv_leftover v \<Longrightarrow> dv_deleted w = dv_deleted v \<Longrightarrow> dv_purge w = dv_purge v \<Longrightarrow> timely_row w"
  by (simp add: timely_row_def)

lemma numbers_ok_updates:
  "numbers_ok db \<Longrightarrow> set_status now t d s r db = Inr db' \<Longrightarrow> numbers_ok db'"
  "numbers_ok db \<Longrightarrow> set_identity t d lid pn push db = Inr db' \<Longrightarrow> numbers_ok db'"
  "numbers_ok db \<Longrightarrow> rename_device t d l db = Inr db' \<Longrightarrow> numbers_ok db'"
  "numbers_ok db \<Longrightarrow> write_pause t d p c db = Inr db' \<Longrightarrow> numbers_ok db'"
  unfolding set_status_def set_identity_def rename_device_def write_pause_def Let_def
  by (auto split: if_splits elim!: numbers_ok_update simp: number_row_ok_alt intro: timely_row_same)

lemma numbers_ok_pause:
  assumes "numbers_ok db" "pause_number x t d who db = Inr (p, db')"
  shows "numbers_ok db'"
proof -
  have 1: "write_device False t d pause_row db = Inr b \<Longrightarrow> numbers_ok b" for b
    by (rule numbers_ok_update [OF _ assms(1)], assumption) (auto simp: pause_row_def number_row_ok_alt intro: timely_row_same)
  have 2: "db_devices (snd (tell_pause x t v kind actor b)) = db_devices b" for v kind actor b
  proof -
    let ?rs = "readers (tx_now x) b t (dv_id v)"
    obtain ns k where "fold (raise_pause (tx_clock x) t (dv_id v) kind actor (item_label x v) (hint_from_pn (dv_pn v)))
        (filter (\<lambda>u. actor \<noteq> Some u) (map us_id ?rs)) b = b\<lparr>db_notices := ns, db_notice_seq := k\<rparr>"
      using raise_pauses_only by blast
    then show ?thesis by (simp add: tell_pause_def Let_def)
  qed
  from assms(2) show ?thesis
  proof (cases rule: pause_number_cases)
    case (again v)
    then show ?thesis using 1 by simp
  next
    case (first v db1 kind actor)
    have "db' = snd (tell_pause x t v kind actor db1)" using first(5) by (metis snd_conv)
    then show ?thesis using numbers_ok_same [OF _ 1 [OF first(3)]] 2 by simp
  qed
qed

lemma numbers_ok_unlink:
  assumes "numbers_ok db" "record_unlink t d at acked db = Inr (r, db')"
  shows "numbers_ok db'"
  using assms(2)
proof (cases rule: record_unlink_cases)
  case (confirmed v l db1)
  have "numbers_ok db1"
    by (rule numbers_ok_update [OF confirmed(5) assms(1)]) (auto simp: unlinked_row_def number_row_ok_alt timely_row_def)
  then show ?thesis by (rule numbers_ok_same [rotated]) (simp add: confirmed(6) delete_privacy_tokens_def)
next
  case (tried v l)
  show ?thesis
    by (rule numbers_ok_update [OF tried(3) assms(1)]) (auto simp: one_more_attempt_def number_row_ok_alt timely_row_def)
qed (use assms(1) in simp)

lemma numbers_ok_purge_start:
  assumes "numbers_ok db" "purge_start clock t d now free db = Inr (r, db')"
  shows "numbers_ok db'"
  using assms(2)
proof (cases rule: purge_start_cases)
  case (begun v at db1)
  have "numbers_ok db1"
    by (rule numbers_ok_update [OF begun(4) assms(1)]) (auto simp: start_row_def number_row_ok_alt timely_row_def split: option.splits)
  then show ?thesis
    by (rule numbers_ok_same [rotated])
      (simp add: begun(5) remove_leftover_def remove_session_def delete_privacy_tokens_def split: option.splits)
qed (use assms(1) in simp)

lemma exclude_row_ok: "number_row_ok (exclude_row at actor w v)"
  by (simp add: number_row_ok_def exclude_row_def deletion_shape_def pause_shape_def split: option.splits)

lemma excluded_no_identity: "\<not> same_identity (exclude_row at actor w v) r"
  by (simp add: same_identity_def exclude_row_def)

lemma exclude_devices:
  assumes "exclude_number x t actor v db = Inr (q, db')" "device_of True db t (dv_id v) = Some v"
  shows "db_devices db' = map (\<lambda>r. if dv_id r = dv_id v then exclude_row (tx_clock x) actor (session_of db v) v else r) (db_devices db)"
  using assms
proof (cases rule: exclude_number_cases)
  case (excluded db1 ns k n)
  have "db_devices db1 = db_devices db" using end_listed_kept [OF excluded(1)] by (simp add: same_base_def)
  then show ?thesis unfolding excluded(6) record_event_devices
    by (simp add: mark_excluded_def requeue_downloads_def delete_key_devices_def Let_def)
qed

lemma numbers_ok_quarantine:
  assumes "numbers_ok db" "quarantine x t actor d ack db = Inr (q, db')"
  shows "numbers_ok db'"
  using assms(2)
proof (cases rule: quarantine_cases)
  case (excluded v)
  show ?thesis
    by (rule numbers_ok_replace [OF assms(1) _ exclude_row_ok _ exclude_devices [OF excluded(6)]])
      (use excluded excluded_no_identity in \<open>simp_all add: exclude_row_def\<close>)
qed (use assms(1) in simp)

lemma bring_back_devices:
  assumes "bring_back x t actor v at db = Inr (r, db')" "device_of True db t (dv_id v) = Some v"
  shows "db_devices db' = map (\<lambda>r. if dv_id r = dv_id v then pause_trigger (recover_row (session_gone db v) v) else r) (db_devices db)"
  using assms
proof (cases rule: bring_back_cases)
  case (brought n ns toks e)
  show ?thesis unfolding brought(1) record_event_devices by (simp add: mark_excluded_def)
qed

lemma numbers_ok_recover:
  assumes "numbers_ok db" "recover x t actor d free db = Inr (r, db')"
  shows "numbers_ok db'"
  using assms(2)
proof (cases rule: recover_cases)
  case (brought v at)
  have d: "dv_id v = d" using device_of_in [OF brought(2)] by simp
  from brought(8) brought(2) [folded d] show ?thesis
  proof (cases rule: bring_back_cases)
    case undone: (brought n ns toks e)
    have "number_row_ok (pause_trigger (recover_row (session_gone db v) v))"
      using undone(15,16) by (simp add: number_row_ok_alt timely_row_def recover_row_def)
    then show ?thesis
      using undone(17) by (intro numbers_ok_replace [OF assms(1) _ _ _ bring_back_devices [OF brought(8)]])
        (auto simp: list_ex_iff recover_row_def d brought(2))
  qed
qed (use assms(1) in simp)

lemma scrub_keeps [simp]: "db_devices (scrub_events t d db) = db_devices db" "db_devices (scrub_notices t d k db) = db_devices db"
  "db_devices (close_notices c t d db) = db_devices db" "db_events (scrub_notices t d k db) = db_events db"
  "db_events (close_notices c t d db) = db_events db"
  by (simp_all add: scrub_events_def scrub_notices_def close_notices_def)

lemma scrub_former_devices [simp]: "db_devices (scrub_former t d db) = db_devices db"
proof -
  have "db_devices (fold (\<lambda>w b. scrub_notices w d k (scrub_events w d b)) ws b) = db_devices b" for ws b and k :: string
    by (induction ws arbitrary: b) simp_all
  then show ?thesis by (simp add: scrub_former_def)
qed

lemma delete_device_devices:
  "db_devices (delete_device q t d P db) =
     (if list_ex (\<lambda>v. dv_id v = d \<and> sees_device q t v \<and> P v) (db_devices db) then filter (\<lambda>v. dv_id v \<noteq> d) (db_devices db)
      else db_devices db)"
  by (simp add: delete_device_def)

lemma numbers_ok_delete: "numbers_ok db \<Longrightarrow> db_devices db' = db_devices (delete_device q t d P db) \<Longrightarrow> numbers_ok db'"
  unfolding delete_device_devices by (auto split: if_splits intro: numbers_ok_filter numbers_ok_same)

lemma numbers_ok_create:
  assumes "numbers_ok db" "create_device t i l db = Inr db'"
  shows "numbers_ok db'"
proof -
  have new: "db_devices db' = db_devices db @ [new_device t i l]" "i \<notin> dv_id ` set (db_devices db)"
    using assms(2) by (auto simp: create_device_def list_ex_iff split: if_splits)
  have "number_row_ok (new_device t i l)" by (simp add: new_device_def number_row_ok_def deletion_shape_def pause_shape_def)
  moreover have "\<not> same_identity (new_device t i l) r" "\<not> same_identity r (new_device t i l)" for r
    by (simp_all add: new_device_def same_identity_def)
  moreover have "dv_id (new_device t i l) = i" by (simp add: new_device_def)
  ultimately show ?thesis using assms(1) new by (auto simp: numbers_ok_def)
qed

lemma numbers_ok_quiet_ops:
  assumes "numbers_ok db"
  shows "numbers_ok (mark_resumed x t d db)" "numbers_ok (snd (see_notices x t u seen db))"
    "numbers_ok (case purge_batch t d n db of Batch _ _ _ db' \<Rightarrow> db' | _ \<Rightarrow> db)"
    "numbers_ok (case delete_object bucket t k db of None \<Rightarrow> db | Some db' \<Rightarrow> db')"
    "numbers_ok (delete_unpaired t d db)" "numbers_ok (snd (purge_end x t d db))"
proof -
  show "numbers_ok (mark_resumed x t d db)"
    by (rule numbers_ok_same [OF _ assms]) (simp add: mark_resumed_def)
  show "numbers_ok (snd (see_notices x t u seen db))"
    by (rule numbers_ok_same [OF _ assms]) (simp add: see_notices_def Let_def)
  show "numbers_ok (case purge_batch t d n db of Batch _ _ _ db' \<Rightarrow> db' | _ \<Rightarrow> db)"
    by (rule numbers_ok_same [OF _ assms]) (auto simp: purge_batch_def split: option.splits dest!: purge_first_same)
  show "numbers_ok (case delete_object bucket t k db of None \<Rightarrow> db | Some db' \<Rightarrow> db')"
    by (rule numbers_ok_same [OF _ assms]) (simp add: delete_object_def)
  show "numbers_ok (delete_unpaired t d db)"
    unfolding delete_unpaired_def by (rule numbers_ok_delete [OF assms]) simp
  show "numbers_ok (snd (purge_end x t d db))"
  proof (cases "purging db t d")
    case None
    with assms show ?thesis by (simp add: purge_end_def)
  next
    case (Some va)
    have "numbers_ok (delete_device True t d (\<lambda>_. True) b)" if "db_devices b = db_devices db" for b
      by (rule numbers_ok_delete [OF numbers_ok_same [OF that assms]]) simp
    with Some show ?thesis by (cases va) (simp add: purge_end_def)
  qed
qed

lemma life_step_ok:
  assumes "numbers_ok db" "run_life x op db = Inr db'"
  shows "numbers_ok db'"
proof (cases op)
  case (AccessChange a)
  then have "same_base db db'" using assms(2) by (simp add: base.S_run_op)
  then show ?thesis using assms(1) by (intro numbers_ok_same [of db' db]) (simp_all add: same_base_def)
next
  case (SetStatus t d s r)
  then show ?thesis using assms numbers_ok_updates(1) by simp
next
  case (SetIdentity t d lid pn push)
  then show ?thesis using assms numbers_ok_updates(2) by simp
next
  case (RenameNumber t d l)
  then show ?thesis using assms numbers_ok_updates(3) by simp
next
  case (CreateNumber t d l)
  then show ?thesis using assms numbers_ok_create by simp
next
  case (SetPaused t d p)
  then show ?thesis using assms numbers_ok_updates(4) by (simp add: set_paused_def)
next
  case (RestorePause t d c)
  then show ?thesis using assms numbers_ok_updates(4) by (simp add: restore_pause_def)
next
  case (PauseNumber t d who)
  then show ?thesis using assms numbers_ok_pause by auto
next
  case (DeleteNumber t actor d ack)
  then show ?thesis using assms numbers_ok_quarantine by auto
next
  case (RecordUnlink t d at ok)
  then show ?thesis using assms numbers_ok_unlink by auto
next
  case (RecoverNumber t actor d free)
  then show ?thesis using assms numbers_ok_recover by auto
next
  case (StartPurge t d now free)
  then show ?thesis using assms numbers_ok_purge_start by auto
next
  case (SessionPaired j r)
  then show ?thesis using assms by (auto simp: numbers_ok_def)
next
  case (SessionLost j r)
  then show ?thesis using assms by (auto simp: numbers_ok_def)
qed (use assms numbers_ok_quiet_ops in auto)

lemma life_run_ok: "numbers_ok db \<Longrightarrow> numbers_ok (life_run ops db)"
  by (rule life_run_invariant [where I = numbers_ok]) (auto intro: life_step_ok)

section \<open>What a step does to the rows and the events\<close>

lemma views_scrub_events [simp]: "views (scrub_events t d db) = views db" "event_ids (scrub_events t d db) = event_ids db"
proof -
  have "map scrubbed (map (\<lambda>e. if P e then e\<lparr>ev_label := None, ev_hint := None\<rparr> else e) es) = map scrubbed es" for P es
    by (induction es) (simp_all add: scrubbed_def)
  from arg_cong [OF this, of set] show "views (scrub_events t d db) = views db"
    by (simp add: views_def scrub_events_def del: map_map set_map add: list.set_map [symmetric])
  show "event_ids (scrub_events t d db) = event_ids db" by (simp add: event_ids_def scrub_events_def)
qed

lemma views_events: "db_events db' = db_events db \<Longrightarrow> views db' = views db \<and> event_ids db' = event_ids db"
  by (simp add: views_def event_ids_def)

lemma scrub_former_views [simp]: "views (scrub_former t d db) = views db" "event_ids (scrub_former t d db) = event_ids db"
proof -
  have "views (scrub_notices w d k b) = views b" "event_ids (scrub_notices w d k b) = event_ids b" for w b and k :: string
    by (simp_all add: views_def event_ids_def)
  then have "views (fold (\<lambda>w b. scrub_notices w d k (scrub_events w d b)) ws b) = views b
      \<and> event_ids (fold (\<lambda>w b. scrub_notices w d k (scrub_events w d b)) ws b) = event_ids b" for ws b and k :: string
    by (induction ws arbitrary: b) simp_all
  then show "views (scrub_former t d db) = views db" "event_ids (scrub_former t d db) = event_ids db"
    by (simp_all add: scrub_former_def)
qed

text \<open>An event recorded under an id and a dedupe key nothing carries yet.\<close>

definition records :: "event_row \<Rightarrow> db \<Rightarrow> db \<Rightarrow> bool" where
  "records e db db' \<longleftrightarrow> (distinct (event_ids db) \<longrightarrow> distinct (event_ids db'))
     \<and> views db' = views db \<union> (if \<exists>f\<in>views db. same_event e f then {} else {scrubbed e})"

lemma records_event:
  assumes "views b = views db" "event_ids b = event_ids db" "db_events db' = db_events (record_event e b)"
  shows "records e db db'"
proof -
  have "list_ex (same_event e) (db_events b) \<longleftrightarrow> (\<exists>f\<in>views b. same_event e f)"
    by (auto simp: views_def list_ex_iff same_event_def)
  moreover have "views db' = views (record_event e b)" "event_ids db' = event_ids (record_event e b)"
    using assms(3) by (simp_all add: views_def event_ids_def)
  ultimately show ?thesis using assms(1,2) ids_record [of b e] by (simp add: records_def views_record)
qed

lemma purge_end_cases [case_names nothing ended]:
  obtains "purge_end x t d db = (False, db)"
  | v at where "device_of True db t d = Some v" "dv_deleted v = Some at" "dv_purge_started v \<noteq> None" "fst (purge_end x t d db)"
      "db_devices (snd (purge_end x t d db)) = filter (\<lambda>v. dv_id v \<noteq> d) (db_devices db)"
      "records (purged_event x t v at) db (snd (purge_end x t d db))"
proof (cases "purging db t d")
  case None
  then show thesis using that(1) by (simp add: purge_end_def)
next
  case (Some va)
  obtain v at where va: "va = (v, at)" by (cases va)
  have v: "device_of True db t d = Some v" "dv_deleted v = Some at" "dv_purge_started v \<noteq> None"
    using Some unfolding va by (auto simp: purging_def deleted_of_Some split: option.splits if_splits)
  let ?b = "scrub_former t d (scrub_events t d (close_notices (tx_clock x) t d db))"
  have e: "purge_end x t d db = (True, delete_device True t d (\<lambda>_. True) (record_event (purged_event x t v at) ?b))"
    using Some va by (simp add: purge_end_def)
  have "list_ex (\<lambda>v. dv_id v = d \<and> sees_device True t v) (db_devices db)"
    using device_of_in [OF v(1)] by (auto simp: list_ex_iff)
  then have "db_devices (snd (purge_end x t d db)) = filter (\<lambda>v. dv_id v \<noteq> d) (db_devices db)"
    by (simp add: e delete_device_devices)
  moreover have "views ?b = views db" "event_ids ?b = event_ids db"
    unfolding scrub_former_views views_scrub_events by (simp_all add: views_def event_ids_def)
  then have "records (purged_event x t v at) db (snd (purge_end x t d db))"
    by (rule records_event) (simp add: e delete_device_def)
  ultimately show thesis using that(2) v e by simp
qed

lemma exclude_records:
  assumes "exclude_number x t actor v db = Inr (q, db')" "device_of True db t (dv_id v) = Some v"
  shows "records (deleted_event x t actor v (readers (tx_now x) db t (dv_id v)) db) db db'"
  using assms
proof (cases rule: exclude_number_cases)
  case (excluded db1 ns k n)
  let ?b = "(mark_excluded (dv_id v) (exclude_row (tx_clock x) actor (session_of db v) v)
     (requeue_downloads (dv_id v) (delete_key_devices (\<lambda>(k, r). r = dv_id v) db1)))
    \<lparr>db_members := bump n (db_members db1), db_notices := ns, db_notice_seq := k\<rparr>"
  have "db_events ?b = db_events db"
    using end_listed_kept [OF excluded(1)] by (simp add: mark_excluded_def requeue_downloads_def delete_key_devices_def Let_def)
  from views_events [OF this] show ?thesis by (intro records_event [of ?b]) (simp_all add: excluded(6))
qed

definition recovery_record :: "tx \<Rightarrow> uuid \<Rightarrow> uuid \<Rightarrow> timestamp \<Rightarrow> event_row \<Rightarrow> bool" where
  "recovery_record x t d at e \<longleftrightarrow> ev_type e = ''recovered'' \<and> ev_item e = d \<and> ev_tenant e = t \<and> ev_deleted e = Some at
     \<and> ev_ledgered e = None \<and> ev_dedupe e = (''recovered'', d, None, at) \<and> ev_id e = tx_event x d \<and> ev_occurred e = tx_clock x
     \<and> ev_replayed e = None"

lemma bring_back_records:
  assumes "bring_back x t actor v at db = Inr (r, db')" "device_of True db t (dv_id v) = Some v"
  shows "\<exists>e. recovery_record x t (dv_id v) at e \<and> records e db db'"
  using assms
proof (cases rule: bring_back_cases)
  case (brought n ns toks e)
  let ?b = "(mark_excluded (dv_id v) (pause_trigger (recover_row (session_gone db v) v)) db)
    \<lparr>db_wa_tokens := toks, db_members := bump n (db_members db), db_notices := ns\<rparr>"
  have "db_events ?b = db_events db" by (simp add: mark_excluded_def)
  from views_events [OF this] have "records e db db'" by (intro records_event [of ?b]) (simp_all add: brought(1))
  moreover have "recovery_record x t (dv_id v) at e" using brought(2-9,18) by (simp add: recovery_record_def)
  ultimately show ?thesis by blast
qed

text \<open>A step either leaves the deletions and the ledgered events alone, or is one of five.\<close>

lemma life_cases [consumes 1, case_names quiet created dropped deleted recovered purged]:
  assumes "run_life x op db = Inr db'"
  obtains "quiet_step db db'"
  | t i l where "op = CreateNumber t i l" "db_devices db' = db_devices db @ [new_device t i l]" "db_events db' = db_events db"
      "i \<notin> dv_id ` set (db_devices db)" "tenant_of db t \<noteq> None"
  | t d v where "op = DropUnpaired t d" "v \<in> set (db_devices db)" "dv_id v = d" "never_linked v" "dv_deleted v = None"
      "db_devices db' = filter (\<lambda>v. dv_id v \<noteq> d) (db_devices db)" "db_events db' = db_events db"
  | t actor d ack v where "op = DeleteNumber t actor d ack" "device_of True db t d = Some v" "dv_deleted v = None" "\<not> never_linked v"
      "db_devices db' = map (\<lambda>r. if dv_id r = d then exclude_row (tx_clock x) actor (session_of db v) v else r) (db_devices db)"
      "records (deleted_event x t actor v (readers (tx_now x) db t d) db) db db'"
  | t actor d free v at e where "op = RecoverNumber t actor d free" "device_of True db t d = Some v" "dv_deleted v = Some at"
      "dv_purge_started v = None"
      "db_devices db' = map (\<lambda>r. if dv_id r = d then pause_trigger (recover_row (session_gone db v) v) else r) (db_devices db)"
      "recovery_record x t d at e" "records e db db'"
  | t d v at where "op = EndPurge t d" "device_of True db t d = Some v" "dv_deleted v = Some at" "dv_purge_started v \<noteq> None"
      "db_devices db' = filter (\<lambda>v. dv_id v \<noteq> d) (db_devices db)" "records (purged_event x t v at) db db'"
proof (cases op)
  case (AccessChange a)
  then show thesis using assms that(1) life_access.S_run_op by simp
next
  case (SetStatus t d s r)
  then show thesis using assms that(1) quiet_updates(1) by simp
next
  case (SetIdentity t d lid pn push)
  then show thesis using assms that(1) quiet_updates(2) by simp
next
  case (RenameNumber t d l)
  then show thesis using assms that(1) quiet_updates(3) by simp
next
  case (CreateNumber t i l)
  have "db_devices db' = db_devices db @ [new_device t i l] \<and> db_events db' = db_events db \<and> i \<notin> dv_id ` set (db_devices db)
      \<and> tenant_of db t \<noteq> None"
    using assms CreateNumber by (auto simp: create_device_def list_ex_iff split: if_splits)
  then show thesis using that(2) [OF CreateNumber] by blast
next
  case (DropUnpaired t d)
  have e: "db' = delete_device False t d never_linked db" using assms DropUnpaired by (simp add: delete_unpaired_def)
  show thesis
  proof (cases "list_ex (\<lambda>v. dv_id v = d \<and> sees_device False t v \<and> never_linked v) (db_devices db)")
    case True
    then obtain v where v: "v \<in> set (db_devices db)" "dv_id v = d" "sees_device False t v" "never_linked v"
      by (auto simp: list_ex_iff)
    have "db_devices db' = filter (\<lambda>v. dv_id v \<noteq> d) (db_devices db)" "db_events db' = db_events db"
      using True by (simp_all add: e delete_device_def)
    with v show thesis using that(3) [OF DropUnpaired] by (simp add: sees_device_def)
  next
    case False
    then have "db' = db" by (simp add: e delete_device_def)
    then show thesis using that(1) life_access.R_refl by simp
  qed
next
  case (SetPaused t d p)
  then show thesis using assms that(1) quiet_updates(4) by (simp add: set_paused_def)
next
  case (RestorePause t d c)
  then show thesis using assms that(1) quiet_updates(4) by (simp add: restore_pause_def)
next
  case (PauseNumber t d who)
  then show thesis using assms that(1) quiet_pause by auto
next
  case (MarkResumed t d)
  then have "db_devices db' = db_devices db" "db_events db' = db_events db" using assms by (auto simp: mark_resumed_def)
  then show thesis using that(1) quiet_step_same by blast
next
  case (SeeNotices t u seen)
  then have "db_devices db' = db_devices db" "db_events db' = db_events db" using assms by (auto simp: see_notices_def Let_def)
  then show thesis using that(1) quiet_step_same by blast
next
  case (DeleteNumber t actor d ack)
  then obtain q where "quarantine x t actor d ack db = Inr (q, db')" using assms by auto
  then show thesis
  proof (cases rule: quarantine_cases)
    case (already v at)
    then show thesis using that(1) life_access.R_refl by simp
  next
    case (excluded v)
    then have v: "device_of True db t (dv_id v) = Some v" by simp
    show thesis
      using that(4) [OF DeleteNumber excluded(2-4)] exclude_devices [OF excluded(6) v] exclude_records [OF excluded(6) v]
      by (simp add: excluded(7))
  qed
next
  case (RecordUnlink t d at ok)
  then show thesis using assms that(1) quiet_unlink by auto
next
  case (RecoverNumber t actor d free)
  then obtain r where "recover x t actor d free db = Inr (r, db')" using assms by auto
  then show thesis
  proof (cases rule: recover_cases)
    case (already v)
    then show thesis using that(1) life_access.R_refl by simp
  next
    case (brought v at)
    then have v: "device_of True db t (dv_id v) = Some v" "dv_id v = d" using device_of_in [OF brought(2)] by simp_all
    obtain e where "recovery_record x t (dv_id v) at e" "records e db db'" using bring_back_records [OF brought(8) v(1)] by blast
    then show thesis
      using that(5) [OF RecoverNumber brought(2-4)] bring_back_devices [OF brought(8) v(1)] by (simp add: v(2))
  qed
next
  case (StartPurge t d now free)
  then show thesis using assms that(1) quiet_purge_start by auto
next
  case (PurgeRows t d n)
  then show thesis using assms that(1) quiet_rows [of db t d n] by simp
next
  case (DropObject bucket t k)
  then show thesis using assms that(1) quiet_object life_access.R_refl by (auto split: option.splits)
next
  case (EndPurge t d)
  then have e: "db' = snd (purge_end x t d db)" using assms by simp
  show thesis
  proof (cases rule: purge_end_cases [of x t d db])
    case nothing
    then show thesis using that(1) e life_access.R_refl by simp
  next
    case (ended v at)
    then show thesis using that(6) [OF EndPurge ended(1-3)] e by simp
  qed
next
  case (SessionPaired j r)
  then have "db_devices db' = db_devices db" "db_events db' = db_events db" using assms by auto
  then show thesis using that(1) quiet_step_same by blast
next
  case (SessionLost j r)
  then have "db_devices db' = db_devices db" "db_events db' = db_events db" using assms by auto
  then show thesis using that(1) quiet_step_same by blast
qed

end
