(* ===== verification/Deletion_Props.thy ===== *)
theory Deletion_Props
  imports Life_Inv
begin

text \<open>
  What a deletion takes away and for how long, and what a recovery gives back.
\<close>

section \<open>A deletion\<close>

lemma require_owner_Inr:
  "require_owner db t a = Inr () \<longleftrightarrow> tenant_active db t \<and> status_active db a \<and> t \<noteq> uuid_nil
     \<and> (\<exists>m. member_of db t a = Some m \<and> mb_role m = ''owner'' \<and> mb_status m = ''active'')"
  by (auto simp: require_owner_def lock_workspace_manager_def tenant_active_def manager_role_def split: option.splits if_splits sum.splits)

text \<open>The connections listed end for good, with their keys.\<close>

definition connection_over :: "uuid \<Rightarrow> db \<Rightarrow> uuid \<Rightarrow> bool" where
  "connection_over t db i \<longleftrightarrow> (\<forall>c\<in>set (db_connections db). cn_id c = i \<and> cn_tenant c = t \<longrightarrow> \<not> live_status (cn_status c))"

lemma connection_ended_over:
  assumes "list_all2 connection_ended (db_connections db) (db_connections db')" "connection_over t db i"
  shows "connection_over t db' i"
  unfolding connection_over_def
proof
  fix c' assume "c' \<in> set (db_connections db')"
  then obtain c where c: "c \<in> set (db_connections db)" "connection_ended c c'"
    using assms(1) by (auto simp: list_all2_conv_all_nth in_set_conv_nth) metis
  then show "cn_id c' = i \<and> cn_tenant c' = t \<longrightarrow> \<not> live_status (cn_status c')"
    using assms(2) by (auto simp: connection_over_def connection_ended_def end_row_def live_status_def)
qed

lemma end_connection_over:
  assumes "end_connection now t i status reason db = Inr (b, db')" "distinct (map cn_id (db_connections db))"
  shows "connection_over t db' i"
proof -
  have close: "connection_over t (close_rows now t status reason c db) i"
    if "status = ''revoked'' \<or> status = ''expired''" "find (\<lambda>c. cn_id c = i \<and> cn_tenant c = t) (db_connections db) = Some c" for c
  proof -
    have c: "c \<in> set (db_connections db)" "cn_id c = i" "cn_tenant c = t" using find_in [OF that(2)] by auto
    have same: "r = c" if "r \<in> set (db_connections db)" "cn_id r = i" for r
      using that c(1,2) assms(2) by (auto simp: distinct_map inj_on_def)
    have ended: "\<not> live_status (cn_status (end_row now status reason r))" for r
      using that(1) by (auto simp: end_row_def live_status_def)
    show ?thesis
    proof (cases "live_status (cn_status c)")
      case True
      then have "db_connections (close_rows now t status reason c db)
          = map (\<lambda>r. if cn_id r = i \<and> cn_tenant r = t then end_row now status reason r else r) (db_connections db)"
        by (simp add: close_rows_def Let_def c(2))
      with ended show ?thesis by (auto simp: connection_over_def)
    next
      case False
      then have "db_connections (close_rows now t status reason c db) = db_connections db"
        by (simp add: close_rows_def Let_def)
      with False same show ?thesis by (auto simp: connection_over_def)
    qed
  qed
  from assms(1) show ?thesis
  proof (cases rule: end_connection_cases)
    case (rows c)
    then show ?thesis using close by simp
  next
    case (service c s)
    have "db_connections db' = db_connections (close_rows now t status reason c db)"
      using service(4) by (cases rule: remove_service_cases) (simp add: delete_member_def delete_perms_def delete_grants_def revoke_keys_def)
    then show ?thesis using close [OF service(1,2)] by (simp add: connection_over_def)
  qed
qed

lemma end_listed_over:
  assumes "end_listed now t is db = Inr db'" "distinct (map cn_id (db_connections db))"
  shows "\<forall>i\<in>set is. connection_over t db' i"
  using assms
proof (induction now t "is" db arbitrary: db' rule: end_listed.induct)
  case (2 now t i "is" db)
    from 2(2) obtain b db1 where e: "end_connection now t i ''revoked'' ''access_lost'' db = Inr (b, db1)"
      "end_listed now t is db1 = Inr db'" by auto
    have ids: "map cn_id (db_connections db1) = map cn_id (db_connections db)"
      using base_connection_ids [OF end_connection_kept(1) [OF e(1)]] .
    have "connection_over t b i \<Longrightarrow> end_listed now t js b = Inr b' \<Longrightarrow> connection_over t b' i" for js b b'
    proof (induction js arbitrary: b)
      case (Cons j js)
      then obtain c b1 where "end_connection now t j ''revoked'' ''access_lost'' b = Inr (c, b1)" "end_listed now t js b1 = Inr b'" by auto
      with Cons show ?case using connection_ended_over [OF end_connection_kept(5)] by blast
    qed simp
    with end_connection_over [OF e(1) 2(3)] e(2) 2(1) [OF e(2)] ids 2(3) show ?case by simp
qed simp

section \<open>Out of reach\<close>

definition hidden :: "uuid \<Rightarrow> db \<Rightarrow> bool" where
  "hidden d db \<longleftrightarrow> (\<forall>v\<in>set (db_devices db). dv_id v = d \<longrightarrow> dv_deleted v \<noteq> None)"

lemma hidden_reads:
  assumes "hidden d db"
  shows "device_of False db w d = None" "device_permission_tx now db w u d = Inl RowNotFound" "\<not> has_grant db w d u"
    "\<not> allows_device db k w d" "\<not> reads_live now db w d u"
proof -
  show none: "device_of False db w d = None"
    using assms by (auto simp: device_of_def find_None_iff sees_device_def hidden_def)
  show "device_permission_tx now db w u d = Inl RowNotFound" "\<not> has_grant db w d u" "\<not> reads_live now db w d u"
    by (simp_all add: device_permission_tx_def has_grant_def reads_live_def none split: option.splits)
  show "\<not> allows_device db k w d" using assms by (auto simp: allows_device_def list_ex_iff sees_device_def hidden_def)
qed

text \<open>Only a recovery brings a number back; a new number has an id of its own.\<close>

fun revives :: "uuid \<Rightarrow> life_op \<Rightarrow> bool" where
  "revives d (RecoverNumber t a i f) = (i = d)"
| "revives d (CreateNumber t i l) = (i = d)"
| "revives d _ = False"

lemma hidden_step:
  assumes "run_life x op db = Inr db'" "hidden d db" "\<not> revives d op"
  shows "hidden d db'"
  using assms(1)
proof (cases rule: life_cases)
  case quiet
  show ?thesis unfolding hidden_def
  proof (intro ballI impI)
    fix w assume w: "w \<in> set (db_devices db')" "dv_id w = d"
    with quiet obtain v where "v \<in> set (db_devices db)" "follows v w" by (auto simp: quiet_step_def)
    with w(2) assms(2) show "dv_deleted w \<noteq> None" by (auto simp: hidden_def follows_def)
  qed
next
  case (created t i l)
  then show ?thesis using assms(2,3) by (auto simp: hidden_def new_device_def)
next
  case (dropped t i v)
  then show ?thesis using assms(2) by (auto simp: hidden_def)
next
  case (deleted t actor i ack v)
  have "dv_deleted (exclude_row (tx_clock x) actor (session_of db v) v) \<noteq> None" by (simp add: exclude_row_def)
  then show ?thesis using deleted(5) assms(2) by (auto simp: hidden_def)
next
  case (recovered t actor i free v at e)
  have "dv_id (pause_trigger (recover_row (session_gone db v) v)) = i"
    using device_of_in [OF recovered(2)] by (simp add: recover_row_def)
  moreover have "i \<noteq> d" using assms(3) recovered(1) by simp
  ultimately show ?thesis using recovered(5) assms(2) by (auto simp: hidden_def)
next
  case (purged t i v at)
  then show ?thesis using assms(2) by (auto simp: hidden_def)
qed

lemma quarantine_hides:
  assumes "quarantine x t actor d ack db = Inr (q, db')" "distinct (map dv_id (db_devices db))"
  shows "hidden d db'"
  using assms(1)
proof (cases rule: quarantine_cases)
  case (already v at)
  have "w = v" if "w \<in> set (db_devices db)" "dv_id w = d" for w
    using that device_of_in [OF already(2)] assms(2) by (auto simp: distinct_map inj_on_def)
  then show ?thesis using already(3,5) by (auto simp: hidden_def)
next
  case (excluded v)
  then show ?thesis using exclude_devices [OF excluded(6)]
    by (auto simp: hidden_def exclude_row_def)
qed

lemma hidden_run:
  assumes "hidden d db" "\<forall>(x, op)\<in>set ops. \<not> revives d op"
  shows "hidden d (life_run ops db)"
  using assms by (intro life_run_invariant [where I = "hidden d"]) (auto intro: hidden_step)

section \<open>What a deletion leaves\<close>

lemma same_base_devices: "same_base db db' \<Longrightarrow> db_devices db' = db_devices db"
  by (simp add: same_base_def)

lemma exclude_rest:
  assumes "exclude_number x t actor v db = Inr (q, db')" "device_of True db t (dv_id v) = Some v"
    "distinct (map cn_id (db_connections db))"
  shows "\<forall>k. (k, dv_id v) \<notin> set (db_key_devices db')" "\<forall>c\<in>set (assistants_of db t (dv_id v)). connection_over t db' (cn_id c)"
    "same_people db db'" "db_chats db' = db_chats db" "db_messages db' = db_messages db" "db_archive db' = db_archive db"
    "db_archive_keys db' = db_archive_keys db" "db_capacity db' = db_capacity db"
    "map md_message (db_media db') = map md_message (db_media db)" "map md_object (db_media db') = map md_object (db_media db)"
    "db_wa_sessions db' = db_wa_sessions db"
proof -
  obtain db1 ns k n where e: "end_listed (tx_now x) t (map cn_id (sort_key cn_id (assistants_of db t (dv_id v)))) db = Inr db1"
    "db' = record_event (deleted_event x t actor v (readers (tx_now x) db t (dv_id v)) db)
       ((mark_excluded (dv_id v) (exclude_row (tx_clock x) actor (session_of db v) v)
         (requeue_downloads (dv_id v) (delete_key_devices (\<lambda>(k, r). r = dv_id v) db1)))
        \<lparr>db_members := bump n (db_members db1), db_notices := ns, db_notice_seq := k\<rparr>)"
    using assms(1,2) by (cases rule: exclude_number_cases) blast
  have kept: "same_base db db1" "same_people db db1" "db_key_devices db1 = db_key_devices db"
    using end_listed_kept [OF e(1)] by auto
  have same: "db_connections db' = db_connections db1" "db_users db' = db_users db1" "db_tenants db' = db_tenants db1"
    "db_perms db' = db_perms db1" "db_grants db' = db_grants db1" "db_members db' = bump n (db_members db1)"
    "db_chats db' = db_chats db1" "db_messages db' = db_messages db1" "db_archive db' = db_archive db1"
    "db_archive_keys db' = db_archive_keys db1" "db_capacity db' = db_capacity db1" "db_wa_sessions db' = db_wa_sessions db1"
    "db_key_devices db' = filter (\<lambda>p. \<not> (case p of (k, r) \<Rightarrow> r = dv_id v)) (db_key_devices db1)"
    unfolding e(2) record_event_def
    by (simp_all add: mark_excluded_def requeue_downloads_def delete_key_devices_def Let_def)
  have "db_media db' = db_media (requeue_downloads (dv_id v) db1)"
    unfolding e(2) record_event_def
    by (simp add: mark_excluded_def requeue_downloads_def delete_key_devices_def Let_def)
  then show "map md_message (db_media db') = map md_message (db_media db)" "map md_object (db_media db') = map md_object (db_media db)"
    using kept(1) by (simp_all add: requeue_downloads_def Let_def same_base_def)
  show "\<forall>k. (k, dv_id v) \<notin> set (db_key_devices db')" by (auto simp: same(13))
  show "\<forall>c\<in>set (assistants_of db t (dv_id v)). connection_over t db' (cn_id c)"
    using end_listed_over [OF e(1) assms(3)] by (simp add: connection_over_def same(1))
  show "same_people db db'" by (rule same_people_trans [OF kept(2) same_people_bump]) (fact same)+
  show "db_chats db' = db_chats db" "db_messages db' = db_messages db" "db_archive db' = db_archive db"
    "db_archive_keys db' = db_archive_keys db" "db_capacity db' = db_capacity db" "db_wa_sessions db' = db_wa_sessions db"
    using kept(1) same by (simp_all add: same_base_def)
qed

section \<open>Between a deletion and a recovery\<close>

text \<open>What goes on outside the workspace's people: logouts recorded, sessions made and lost.\<close>

fun logouts_only :: "life_op \<Rightarrow> bool" where
  "logouts_only (RecordUnlink t d at ok) = True"
| "logouts_only (SessionPaired j r) = True"
| "logouts_only (SessionLost j r) = True"
| "logouts_only _ = False"

definition apart_from_logouts :: "db \<Rightarrow> db" where
  "apart_from_logouts db = db\<lparr>db_wa_sessions := [], db_wa_tokens := [],
     db_devices := map (\<lambda>v. v\<lparr>dv_status := '''', dv_reason := '''', dv_leftover := None\<rparr>) (db_devices db)\<rparr>"

lemma logout_row:
  assumes "write_device True t d f db = Inr db'"
    "\<And>v. (f v)\<lparr>dv_status := '''', dv_reason := '''', dv_leftover := None\<rparr> = v\<lparr>dv_status := '''', dv_reason := '''', dv_leftover := None\<rparr>"
    "\<And>v. v \<in> set (db_devices db) \<Longrightarrow> pause_shape v" "distinct (map dv_id (db_devices db))"
  shows "apart_from_logouts db' = apart_from_logouts db"
  using assms(1)
proof (cases rule: write_device_cases)
  case (written v)
  let ?clear = "\<lambda>v. v\<lparr>dv_status := '''', dv_reason := '''', dv_leftover := None\<rparr>"
  have v: "v \<in> set (db_devices db)" "dv_id v = d" using device_of_in [OF written(1)] by auto
  have shape: "pause_shape v" using assms(3) v(1) .
  have keep: "dv_paused (f v) = dv_paused v" "dv_cause (f v) = dv_cause v"
    using arg_cong [OF assms(2) [of v], of dv_paused] arg_cong [OF assms(2) [of v], of dv_cause] by simp_all
  have "pause_trigger (f v) = f v"
    using shape by (cases "f v") (auto simp: pause_trigger_def pause_shape_def keep [symmetric])
  then have "?clear (pause_trigger (f v)) = ?clear v" using assms(2) by simp
  moreover have "r = v" if "r \<in> set (db_devices db)" "dv_id r = d" for r
    using that v assms(4) by (auto simp: distinct_map inj_on_def)
  ultimately have "map ?clear (map (\<lambda>r. if dv_id r = d then pause_trigger (f v) else r) (db_devices db)) = map ?clear (db_devices db)"
    by auto
  then show ?thesis by (simp add: apart_from_logouts_def written(6) del: map_map)
qed

lemma logout_step:
  assumes "run_life x op db = Inr db'" "logouts_only op" "numbers_ok db"
  shows "apart_from_logouts db' = apart_from_logouts db"
proof -
  have shape: "v \<in> set (db_devices db) \<Longrightarrow> pause_shape v" for v
    using assms(3) by (simp add: numbers_ok_def list_all_iff number_row_ok_def)
  have ids: "distinct (map dv_id (db_devices db))" using assms(3) by (simp add: numbers_ok_def)
  consider t d at ok where "op = RecordUnlink t d at ok" | j r where "op = SessionPaired j r \<or> op = SessionLost j r"
    using assms(2) by (cases op) auto
  then show ?thesis
  proof cases
    case 1
    then obtain u where "record_unlink t d at ok db = Inr (u, db')" using assms(1) by auto
    then show ?thesis
    proof (cases rule: record_unlink_cases)
      case (confirmed v l db1)
      have "apart_from_logouts db1 = apart_from_logouts db"
        by (rule logout_row [OF confirmed(5) _ shape ids]) (simp_all add: unlinked_row_def)
      then show ?thesis by (simp add: confirmed(6) delete_privacy_tokens_def apart_from_logouts_def)
    next
      case (tried v l)
      show ?thesis by (rule logout_row [OF tried(3) _ shape ids]) (simp_all add: one_more_attempt_def)
    qed simp
  next
    case 2
    then show ?thesis using assms(1) by (auto simp: apart_from_logouts_def)
  qed
qed

lemma logouts_run:
  assumes "numbers_ok db" "\<forall>(x, op)\<in>set ops. logouts_only op"
  shows "apart_from_logouts (life_run ops db) = apart_from_logouts db \<and> numbers_ok (life_run ops db)"
  using assms
  by (intro life_run_invariant [where I = "\<lambda>b. apart_from_logouts b = apart_from_logouts db \<and> numbers_ok b"])
    (auto dest: logout_step intro: life_step_ok)

section \<open>What a recovery finds and leaves\<close>

definition same_row :: "device_row \<Rightarrow> device_row \<Rightarrow> bool" where
  "same_row v w \<longleftrightarrow> v\<lparr>dv_status := '''', dv_reason := '''', dv_leftover := None\<rparr> = w\<lparr>dv_status := '''', dv_reason := '''', dv_leftover := None\<rparr>"

lemma same_row_fields:
  assumes "same_row v w"
  shows "dv_id v = dv_id w" "dv_tenant v = dv_tenant w" "dv_archive v = dv_archive w" "dv_epoch v = dv_epoch w"
    "dv_deleted v = dv_deleted w" "dv_purge v = dv_purge w" "dv_label v = dv_label w" "dv_push v = dv_push w" "dv_pn v = dv_pn w"
    "dv_lid v = dv_lid w" "dv_paused v = dv_paused w" "dv_cause v = dv_cause w" "dv_pauses v = dv_pauses w"
    "dv_connected v = dv_connected w" "dv_deleted_by v = dv_deleted_by w" "dv_purge_started v = dv_purge_started w"
  using assms by (cases v; cases w; simp add: same_row_def)+

lemma apart_fields:
  assumes "apart_from_logouts b = apart_from_logouts a"
  shows "db_users b = db_users a" "db_tenants b = db_tenants a" "db_members b = db_members a" "db_perms b = db_perms a"
    "db_grants b = db_grants a" "db_chats b = db_chats a" "db_messages b = db_messages a" "db_archive b = db_archive a"
    "db_archive_keys b = db_archive_keys a" "db_capacity b = db_capacity a" "db_media b = db_media a"
    "list_all2 same_row (db_devices b) (db_devices a)"
proof -
  have "db_users (apart_from_logouts b) = db_users (apart_from_logouts a)" "db_tenants (apart_from_logouts b) = db_tenants (apart_from_logouts a)"
    "db_members (apart_from_logouts b) = db_members (apart_from_logouts a)" "db_perms (apart_from_logouts b) = db_perms (apart_from_logouts a)"
    "db_grants (apart_from_logouts b) = db_grants (apart_from_logouts a)" "db_chats (apart_from_logouts b) = db_chats (apart_from_logouts a)"
    "db_messages (apart_from_logouts b) = db_messages (apart_from_logouts a)" "db_archive (apart_from_logouts b) = db_archive (apart_from_logouts a)"
    "db_archive_keys (apart_from_logouts b) = db_archive_keys (apart_from_logouts a)"
    "db_capacity (apart_from_logouts b) = db_capacity (apart_from_logouts a)" "db_media (apart_from_logouts b) = db_media (apart_from_logouts a)"
    by (simp_all only: assms)
  then show "db_users b = db_users a" "db_tenants b = db_tenants a" "db_members b = db_members a" "db_perms b = db_perms a"
    "db_grants b = db_grants a" "db_chats b = db_chats a" "db_messages b = db_messages a" "db_archive b = db_archive a"
    "db_archive_keys b = db_archive_keys a" "db_capacity b = db_capacity a" "db_media b = db_media a"
    by (simp_all add: apart_from_logouts_def)
  have "db_devices (apart_from_logouts b) = db_devices (apart_from_logouts a)" by (simp only: assms)
  then have "map (\<lambda>v. v\<lparr>dv_status := '''', dv_reason := '''', dv_leftover := None\<rparr>) (db_devices b)
      = map (\<lambda>v. v\<lparr>dv_status := '''', dv_reason := '''', dv_leftover := None\<rparr>) (db_devices a)"
    by (simp add: apart_from_logouts_def)
  then have "list_all2 (=) (map (\<lambda>v. v\<lparr>dv_status := '''', dv_reason := '''', dv_leftover := None\<rparr>) (db_devices b))
      (map (\<lambda>v. v\<lparr>dv_status := '''', dv_reason := '''', dv_leftover := None\<rparr>) (db_devices a))"
    by (simp only: list.rel_eq)
  then show "list_all2 same_row (db_devices b) (db_devices a)" by (simp add: list_all2_map1 list_all2_map2 same_row_def [abs_def])
qed

lemma list_all2_partner: "list_all2 R xs ys \<Longrightarrow> y \<in> set ys \<Longrightarrow> \<exists>x\<in>set xs. R x y"
  by (induction rule: list_all2_induct) auto

lemma list_all2_source: "list_all2 R xs ys \<Longrightarrow> x \<in> set xs \<Longrightarrow> \<exists>y\<in>set ys. R x y"
  by (induction rule: list_all2_induct) auto

lemma usage_same: "list_all2 same_row xs ys \<Longrightarrow> length (filter (sees_device q t) xs) = length (filter (sees_device q t) ys)"
  by (induction rule: list_all2_induct) (auto simp: sees_device_def dest: same_row_fields)

lemma usage_freed:
  assumes "v \<in> set xs" "P v" "\<not> P w" "\<forall>r\<in>set xs. dv_id r = dv_id v \<longrightarrow> r = v"
  shows "length (filter P (map (\<lambda>r. if dv_id r = dv_id v then w else r) xs)) < length (filter P xs)"
proof -
  let ?g = "\<lambda>r. if dv_id r = dv_id v then w else r"
  have le: "length (filter P (map ?g ys)) \<le> length (filter P ys)" if "set ys \<subseteq> set xs" for ys
    using that assms(3,4) by (induction ys) auto
  have "length (filter P (map ?g ys)) < length (filter P ys)" if "set ys \<subseteq> set xs" "v \<in> set ys" for ys
    using that
  proof (induction ys)
    case (Cons y ys)
    show ?case
    proof (cases "y = v")
      case True
      then show ?thesis using le [of ys] Cons.prems assms(2,3) by simp
    next
      case False
      then have "dv_id y \<noteq> dv_id v" using Cons.prems assms(4) by auto
      with False Cons show ?thesis by simp
    qed
  qed simp
  with assms(1) show ?thesis by blast
qed

lemma bring_back_total:
  assumes "write_device True t (dv_id v) (recover_row (session_gone db v)) db = Inr b"
  shows "\<exists>r db'. bring_back x t actor v at db = Inr (r, db')"
  using assms by (simp add: bring_back_def Let_def identity_in_use_def)

text \<open>The number as a recovery finds it: excluded by the deletion, and nothing else of it has changed.\<close>

lemma excluded_between:
  assumes "quarantine x t a d ack db = Inr (q, db1)" "\<not> qu_already q" "numbers_ok db" "\<forall>(x, op)\<in>set ops. logouts_only op"
    and "mid = life_run ops db1"
  obtains v u where "device_of False db t d = Some v" "device_of True db t d = Some v" "dv_id v = d" "dv_deleted v = None"
    "exclude_number x t a v db = Inr (q, db1)" "device_of True mid t d = Some u"
    "same_row u (exclude_row (tx_clock x) a (session_of db v) v)" "numbers_ok mid"
    "apart_from_logouts mid = apart_from_logouts db1"
    "list_all2 same_row (db_devices mid)
       (map (\<lambda>r. if dv_id r = d then exclude_row (tx_clock x) a (session_of db v) v else r) (db_devices db))"
  using assms(1)
proof (cases rule: quarantine_cases)
  case (already v at)
  then show thesis using assms(2) by (simp add: already_excluded_def)
next
  case (excluded v)
  let ?w = "exclude_row (tx_clock x) a (session_of db v) v"
  have v: "v \<in> set (db_devices db)" "dv_id v = d" "dv_tenant v = t" "sees_device True t v"
    using device_of_in [OF excluded(2)] by (auto simp: sees_device_def)
  have live: "device_of False db t d = Some v"
    using device_of_key [of db v False t] assms(3) v excluded(3) by (simp add: numbers_ok_def sees_device_def)
  have ok1: "numbers_ok db1" using numbers_ok_quarantine [OF assms(3,1)] .
  have mid: "apart_from_logouts mid = apart_from_logouts db1" "numbers_ok mid"
    using logouts_run [OF ok1 assms(4)] assms(5) by simp_all
  have devs: "db_devices db1 = map (\<lambda>r. if dv_id r = d then ?w else r) (db_devices db)"
    using exclude_devices [OF excluded(6)] excluded(2) v(2) by simp
  have rows: "list_all2 same_row (db_devices mid) (db_devices db1)" by (rule apart_fields(12) [OF mid(1)])
  have "?w \<in> set (db_devices db1)" using v by (auto simp: devs)
  then obtain u where u: "u \<in> set (db_devices mid)" "same_row u ?w"
    using list_all2_partner [OF rows] by blast
  have "dv_id u = d" "dv_tenant u = t" using same_row_fields(1,2) [OF u(2)] v by (simp_all add: exclude_row_def)
  then have "device_of True mid t d = Some u"
    using device_of_key [of mid u True t] mid(2) u(1) by (simp add: numbers_ok_def sees_device_def)
  then show thesis
    using that [OF live excluded(2) v(2) excluded(3,6) _ u(2) mid(2,1)] rows devs by simp
qed

text \<open>The recovery succeeds: the number's slot is free again and nobody took its identity.\<close>

lemma recovery_possible:
  assumes "quarantine x t a d ack db = Inr (q, db1)" "\<not> qu_already q" "numbers_ok db" "\<forall>(x, op)\<in>set ops. logouts_only op"
    and "distinct (map cn_id (db_connections db))"
    and "require_owner (life_run ops db1) t b = Inr ()" "tx_clock y < tx_clock x + thirty_days"
    and "case max_devices db t of None \<Rightarrow> True | Some n \<Rightarrow> device_usage False db t \<le> n"
  shows "\<exists>r db2 u. recover y t b d True (life_run ops db1) = Inr (r, db2) \<and> device_of True (life_run ops db1) t d = Some u
    \<and> bring_back y t b u (tx_clock x) (life_run ops db1) = Inr (r, db2)"
proof -
  define mid where "mid = life_run ops db1"
  obtain v u where e: "device_of False db t d = Some v" "device_of True db t d = Some v" "dv_id v = d" "dv_deleted v = None"
    "exclude_number x t a v db = Inr (q, db1)" "device_of True mid t d = Some u"
    "same_row u (exclude_row (tx_clock x) a (session_of db v) v)" "numbers_ok mid" "apart_from_logouts mid = apart_from_logouts db1"
    "list_all2 same_row (db_devices mid)
       (map (\<lambda>r. if dv_id r = d then exclude_row (tx_clock x) a (session_of db v) v else r) (db_devices db))"
    by (rule excluded_between [OF assms(1-4) mid_def])
  let ?w = "exclude_row (tx_clock x) a (session_of db v) v"
  note fields = same_row_fields [OF e(7)]
  have v: "v \<in> set (db_devices db)" "dv_tenant v = t" "sees_device False t v"
    using device_of_in [OF e(1)] by (auto simp: sees_device_def)
  have uniq: "\<forall>r\<in>set (db_devices db). dv_id r = dv_id v \<longrightarrow> r = v"
    using assms(3) v(1) by (auto simp: numbers_ok_def distinct_map inj_on_def)
  have vok: "number_row_ok v" using assms(3) v(1) by (simp add: numbers_ok_def list_all_iff)
  then have started: "dv_purge_started u = None" "dv_deleted u = Some (tx_clock x)" "dv_purge u = Some (tx_clock x + thirty_days)"
    using fields e(4) by (auto simp: exclude_row_def number_row_ok_def deletion_shape_def)
  have "device_usage False mid t = length (filter (sees_device False t) (map (\<lambda>r. if dv_id r = dv_id v then ?w else r) (db_devices db)))"
    using usage_same [OF e(10)] by (simp add: device_usage_def e(3))
  also have "\<dots> < device_usage False db t"
    unfolding device_usage_def
    by (rule usage_freed [where P = "sees_device False t", OF v(1,3) _ uniq]) (simp add: sees_device_def exclude_row_def)
  finally have "case max_devices mid t of None \<Rightarrow> True | Some n \<Rightarrow> device_usage False mid t < n"
    using assms(8) exclude_rest(8) [OF e(5) _ assms(5)] e(2,3) apart_fields(10) [OF e(9)]
    by (auto simp: max_devices_def split: option.splits)
  moreover have "purge_date u = tx_clock x + thirty_days" using started by (simp add: purge_date_def)
  ultimately have r: "recover y t b d True mid = bring_back y t b u (tx_clock x) mid"
    using assms(6,7) e(6) started by (auto simp: recover_def mid_def split: option.splits)
  let ?n = "pause_trigger (recover_row (session_gone mid u) u)"
  have n: "dv_id ?n = d" "dv_tenant ?n = t" "dv_deleted ?n = None" "dv_lid ?n = dv_lid v" "dv_pn ?n = dv_pn v"
    using fields e(3) v(2) by (simp_all add: recover_row_def exclude_row_def)
  have shape: "deletion_shape ?n" "pause_shape ?n"
    using started fields by (simp_all add: deletion_shape_def pause_shape_def recover_row_def pause_trigger_def exclude_row_def)
  have "\<not> same_identity ?n r" if mem: "r \<in> set (db_devices mid)" for r
  proof -
    obtain r1 where r1: "r1 \<in> set (db_devices db)" "same_row r (if dv_id r1 = d then ?w else r1)"
      using list_all2_source [OF e(10) mem] by auto
    have "\<not> same_identity v r1" using assms(3) v(1) r1(1) by (simp add: numbers_ok_def)
    then show ?thesis
      using n same_row_fields [OF r1(2)] e(3,4) v(2) by (auto simp: same_identity_def exclude_row_def split: if_splits)
  qed
  then have "write_device True t (dv_id u) (recover_row (session_gone mid u)) mid
      = Inr (mid\<lparr>db_devices := map (\<lambda>r. if dv_id r = dv_id u then ?n else r) (db_devices mid)\<rparr>)"
    using e(6) shape n device_of_in [OF e(6)]
    by (auto simp: write_device_def sees_device_def Let_def list_ex_iff)
  from bring_back_total [OF this] r e(6) show ?thesis by (auto simp: mid_def)
qed

text \<open>What the recovery leaves: the row as it was, paused for its owner, and everything it had.\<close>

lemma recovery_effects:
  assumes "quarantine x t a d ack db = Inr (q, db1)" "\<not> qu_already q" "numbers_ok db" "\<forall>(x, op)\<in>set ops. logouts_only op"
    and "distinct (map cn_id (db_connections db))" "distinct (map us_id (db_users db))"
    and "device_of True (life_run ops db1) t d = Some u" "bring_back y t b u (tx_clock x) (life_run ops db1) = Inr (r, db2)"
  shows "\<exists>v w. device_of False db t d = Some v \<and> device_of False db2 t d = Some w
    \<and> w = v\<lparr>dv_paused := True, dv_cause := Some ''person'', dv_deleted_by := None, dv_status := dv_status w, dv_reason := dv_reason w\<rparr>
    \<and> same_people db db2 \<and> (\<forall>now. readers now db2 t d = readers now db t d)
    \<and> db_chats db2 = db_chats db \<and> db_messages db2 = db_messages db \<and> db_archive db2 = db_archive db
    \<and> db_archive_keys db2 = db_archive_keys db \<and> map md_message (db_media db2) = map md_message (db_media db)
    \<and> map md_object (db_media db2) = map md_object (db_media db)"
proof -
  define mid where "mid = life_run ops db1"
  obtain v u' where e: "device_of False db t d = Some v" "device_of True db t d = Some v" "dv_id v = d" "dv_deleted v = None"
    "exclude_number x t a v db = Inr (q, db1)" "device_of True mid t d = Some u'"
    "same_row u' (exclude_row (tx_clock x) a (session_of db v) v)" "numbers_ok mid" "apart_from_logouts mid = apart_from_logouts db1"
    "list_all2 same_row (db_devices mid)
       (map (\<lambda>r. if dv_id r = d then exclude_row (tx_clock x) a (session_of db v) v else r) (db_devices db))"
    by (rule excluded_between [OF assms(1-4) mid_def])
  have u: "u' = u" "dv_id u = d" using e(6) assms(7) device_of_in [OF assms(7)] by (simp_all add: mid_def)
  let ?w = "pause_trigger (recover_row (session_gone mid u) u)"
  have bb: "bring_back y t b u (tx_clock x) mid = Inr (r, db2)" "device_of True mid t (dv_id u) = Some u"
    using assms(7,8) u(2) by (simp_all add: mid_def)
  then obtain n ns toks ev where db2: "db2 = record_event ev ((mark_excluded (dv_id u) ?w mid)
       \<lparr>db_wa_tokens := toks, db_members := bump n (db_members mid), db_notices := ns\<rparr>)"
    by (cases rule: bring_back_cases) blast
  note rest = exclude_rest [OF e(5) _ assms(5)]
  have d: "device_of True db t (dv_id v) = Some v" using e(2,3) by simp
  note fields = same_row_fields [OF e(7) [unfolded u(1)]]
  have vok: "number_row_ok v" using assms(3) device_of_in [OF e(1)] by (simp add: numbers_ok_def list_all_iff)
  then have dates: "dv_purge v = None" "dv_purge_started v = None" "dv_leftover v = None"
    using e(4) by (auto simp: number_row_ok_def deletion_shape_def)
  have w: "?w = v\<lparr>dv_paused := True, dv_cause := Some ''person'', dv_deleted_by := None, dv_status := dv_status ?w, dv_reason := dv_reason ?w\<rparr>"
    using fields dates e(4)
    by (intro device_row.equality) (simp_all add: recover_row_def exclude_row_def pause_trigger_def)
  have n: "dv_id ?w = d" "dv_tenant ?w = t" "dv_deleted ?w = None" "dv_epoch ?w = dv_epoch v"
    using fields e(3) device_of_in [OF e(1)] by (simp_all add: recover_row_def exclude_row_def sees_device_def)
  have found: "device_of p db2 t d = Some ?w" for p
    using device_of_updated [OF bb(2), of ?w p] n u(2)
    unfolding db2 by (simp add: device_of_def mark_excluded_def sees_device_def)
  have mid: "same_people db1 mid" by (rule same_people_same) (simp_all add: apart_fields [OF e(9)])
  have "same_people mid db2" unfolding db2
    by (rule same_people_bump [of _ _ n]) (simp_all add: record_event_def mark_excluded_def)
  then have people: "same_people db db2" using same_people_trans [OF same_people_trans [OF rest(3) [OF d] mid]] by blast
  have "readers now db2 t d = readers now db t d" for now
    by (rule readers_kept [OF assms(6) people e(2) found]) (use n e(3) in simp_all)
  moreover have "db_chats db2 = db_chats mid" "db_messages db2 = db_messages mid" "db_archive db2 = db_archive mid"
    "db_archive_keys db2 = db_archive_keys mid" "db_media db2 = db_media mid"
    by (simp_all add: db2 record_event_def mark_excluded_def)
  ultimately show ?thesis
    using e(1) found w people rest(4-7,9,10) [OF d] apart_fields [OF e(9)] by (intro exI [of _ v] exI [of _ ?w]) simp
qed

end
