(* ===== verification/Ledger_World.thy ===== *)
theory Ledger_World
  imports Life_Inv
begin

text \<open>
  The deletions in the database and the lines on the file, together: a number's life and the exports of its
  events run one after another, every export may fail or tear the file at any byte, and the file is read at any
  moment.
\<close>

section \<open>The file of an interrupted export\<close>

definition contents :: "string option \<Rightarrow> string" where
  "contents file = (case file of None \<Rightarrow> [] | Some c \<Rightarrow> c)"

text \<open>Whole lines of \<open>L\<close>, those of \<open>M\<close> among them, and at most the front of one more.\<close>

definition torn_part :: "encoder \<Rightarrow> decoder \<Rightarrow> line set \<Rightarrow> string \<Rightarrow> bool" where
  "torn_part enc dec L r \<longleftrightarrow> r = [] \<or> (\<exists>l\<in>L. \<exists>s j. good_line enc dec l \<and> enc l = Some s \<and> r = take j s)"

definition lines_held :: "encoder \<Rightarrow> decoder \<Rightarrow> line set \<Rightarrow> line set \<Rightarrow> string \<Rightarrow> bool" where
  "lines_held enc dec M L c \<longleftrightarrow> (\<exists>ls buf r. list_all (good_line enc dec) ls \<and> M \<subseteq> set ls \<and> set ls \<subseteq> L
     \<and> marshal_all enc ls = Inr buf \<and> c = buf @ r \<and> torn_part enc dec L r)"

lemma torn_part_newline: "torn_part enc dec L r \<Longrightarrow> newline \<notin> set r"
  unfolding torn_part_def using marshal_good by (fastforce dest: in_set_takeD)

lemma torn_part_mono: "torn_part enc dec L r \<Longrightarrow> L \<subseteq> L' \<Longrightarrow> torn_part enc dec L' r"
  by (auto simp: torn_part_def)

lemma held_mono:
  assumes "lines_held enc dec M L c" "M' \<subseteq> M" "L \<subseteq> L'"
  shows "lines_held enc dec M' L' c"
proof -
  obtain ls buf r where w: "list_all (good_line enc dec) ls" "M \<subseteq> set ls" "set ls \<subseteq> L" "marshal_all enc ls = Inr buf"
    "c = buf @ r" "torn_part enc dec L r" using assms(1) by (auto simp: lines_held_def)
  have "M' \<subseteq> set ls" "set ls \<subseteq> L'" "torn_part enc dec L' r"
    using w(2,3) assms(2,3) torn_part_mono [OF w(6)] by blast+
  with w(1,4,5) show ?thesis unfolding lines_held_def by blast
qed

lemma cut_exact:
  assumes "buf = [] \<or> last buf = newline" "newline \<notin> set r"
  shows "cut_torn_tail (buf @ r) = buf"
proof -
  let ?p = "cut_torn_tail (buf @ r)"
  have p: "prefix ?p (buf @ r)" "?p = [] \<or> last ?p = newline" "newline \<notin> set (drop (length ?p) (buf @ r))"
    using torn_tail_cut_exactly [of "buf @ r"] by blast+
  have "\<not> length buf < length ?p"
  proof
    assume "length buf < length ?p"
    with p(1) obtain q where q: "?p = buf @ q" "q \<noteq> []" "prefix q r"
      by (auto simp: prefix_append dest: prefix_length_le)
    with p(2) have "newline \<in> set q" by (metis append_is_Nil_conv last_appendR last_in_set)
    then show False using q(3) assms(2) set_mono_prefix by blast
  qed
  moreover have "\<not> length ?p < length buf"
  proof
    assume l: "length ?p < length buf"
    then have "last buf \<in> set (drop (length ?p) buf)" by (metis drop_eq_Nil last_drop last_in_set not_le)
    then have "newline \<in> set (drop (length ?p) (buf @ r))" using assms(1) l by (auto simp: gr0_conv_Suc)
    with p(3) show False by blast
  qed
  ultimately have "length ?p = length buf" by linarith
  with p(1) show ?thesis by (metis append_eq_append_conv prefix_def append_eq_append_conv2)
qed

lemma marshal_all_append:
  "marshal_all enc (xs @ ys) = (case marshal_all enc xs of Inl e \<Rightarrow> Inl e
     | Inr a \<Rightarrow> (case marshal_all enc ys of Inl e \<Rightarrow> Inl e | Inr b \<Rightarrow> Inr (a @ b)))"
  by (induction xs) (auto split: sum.splits)

text \<open>The front of a write is whole lines and the front of the next.\<close>

lemma front_of_write:
  assumes "list_all (good_line enc dec) ls" "marshal_all enc ls = Inr buf"
  shows "\<exists>k a r. marshal_all enc (take k ls) = Inr a \<and> take n buf = a @ r \<and> torn_part enc dec (set ls) r"
  using assms
proof (induction ls arbitrary: buf n)
  case Nil
  then show ?case by (auto simp: torn_part_def)
next
  case (Cons l ls)
  obtain s where s: "marshal enc l = Inr (s @ [newline])" "enc l = Some s"
    using marshal_good [of enc dec l] Cons.prems(1) by auto
  obtain b where b: "marshal_all enc ls = Inr b" "buf = (s @ [newline]) @ b"
    using Cons.prems(2) s(1) by (auto split: sum.splits)
  show ?case
  proof (cases "n \<le> length s")
    case True
    then have "take n buf = [] @ take n s" by (simp add: b(2))
    moreover have "torn_part enc dec (set (l # ls)) (take n s)" using Cons.prems(1) s(2) by (auto simp: torn_part_def)
    ultimately show ?thesis by (intro exI [of _ 0] exI [of _ "[]"] exI [of _ "take n s"]) simp
  next
    case False
    obtain k a r where k: "marshal_all enc (take k ls) = Inr a" "take (n - Suc (length s)) b = a @ r"
      "torn_part enc dec (set ls) r" using Cons.IH [OF _ b(1), of "n - Suc (length s)"] Cons.prems(1)
      by (simp; blast)
    have "take n buf = (s @ [newline] @ a) @ r" using False k(2) by (simp add: b(2) take_Cons')
    moreover have "marshal_all enc (take (Suc k) (l # ls)) = Inr (s @ [newline] @ a)" using s(1) k(1) by simp
    moreover have "torn_part enc dec (set (l # ls)) r" by (rule torn_part_mono [OF k(3)]) auto
    ultimately show ?thesis by blast
  qed
qed

lemma held_append:
  assumes "lines_held enc dec M L (contents file)" "list_all (good_line enc dec) new" "set new \<subseteq> L" "new \<noteq> []"
    and "append_lines enc e new file = (err, file')"
  shows "lines_held enc dec M L (contents file')" "err = None \<Longrightarrow> lines_held enc dec (M \<union> set new) L (contents file')"
proof -
  let ?c = "contents file"
  obtain ls buf r where w: "list_all (good_line enc dec) ls" "M \<subseteq> set ls" "set ls \<subseteq> L" "marshal_all enc ls = Inr buf"
    "?c = buf @ r" "torn_part enc dec L r" using assms(1) by (auto simp: lines_held_def)
  have clean: "buf = [] \<or> last buf = newline" using marshal_all_good [OF w(1)] w(4) by (metis Inr_inject)
  obtain b where b: "marshal_all enc new = Inr b" using marshal_all_good [OF assms(2)] by metis
  have c1: "(if ?c = [] then ?c else cut_torn_tail ?c) = buf"
    using cut_exact [OF clean torn_part_newline [OF w(6)]] w(5) by simp
  have whole: "lines_held enc dec (M \<union> set new) L (buf @ b)"
    unfolding lines_held_def using w assms(2,3) b
    by (intro exI [of _ "ls @ new"] exI [of _ "buf @ b"] exI [of _ "[]"]) (auto simp: marshal_all_append torn_part_def)
  have front: "lines_held enc dec M L (buf @ take n b)" for n
  proof -
    obtain k a q where k: "marshal_all enc (take k new) = Inr a" "take n b = a @ q" "torn_part enc dec (set new) q"
      using front_of_write [OF assms(2) b] by blast
    have "list_all (good_line enc dec) (take k new)" "set (take k new) \<subseteq> L"
      using assms(2,3) set_take_subset [of k new] by (auto simp: list_all_iff)
    then show ?thesis
      unfolding lines_held_def using w k torn_part_mono [OF k(3) assms(3)]
      by (intro exI [of _ "ls @ take k new"] exI [of _ "buf @ a"] exI [of _ q]) (auto simp: marshal_all_append)
  qed
  have kept: "lines_held enc dec M L buf" using front [of 0] by simp
  have all: "lines_held enc dec M L (buf @ b)" by (rule held_mono [OF whole]) auto
  have "err = None \<and> contents file' = buf @ b \<or> err \<noteq> None \<and> (contents file' = ?c \<or> contents file' = buf
      \<or> contents file' = buf @ b \<or> (\<exists>n. contents file' = buf @ take n b))"
    using assms(4,5) b c1 unfolding append_lines_def contents_def Let_def
    by (auto split: if_splits option.splits)
  then show "lines_held enc dec M L (contents file')" "err = None \<Longrightarrow> lines_held enc dec (M \<union> set new) L (contents file')"
    using whole front kept all assms(1) by auto
qed

section \<open>Reading it\<close>

lemma add_events_lines:
  assumes "inj_on ln_event L" "set (lr_lines rep) \<subseteq> L" "set ls \<subseteq> L"
  shows "set (lr_lines (fold add_event ls rep)) = set (lr_lines rep) \<union> set ls"
  using assms(2,3)
proof (induction ls arbitrary: rep)
  case (Cons l ls)
  have "set (lr_lines (add_event l rep)) = insert l (set (lr_lines rep))"
    using Cons.prems assms(1) by (auto simp: add_event_def inj_on_def)
  with Cons show ?case by auto
qed simp

lemma read_lines_held:
  assumes "lines_held enc dec M L c" "inj_on ln_event L"
  shows "\<exists>rep. read_ledger dec c = Inr rep \<and> M \<subseteq> set (lr_lines rep) \<and> set (lr_lines rep) \<subseteq> L"
proof -
  obtain ls buf r where w: "list_all (good_line enc dec) ls" "M \<subseteq> set ls" "set ls \<subseteq> L" "marshal_all enc ls = Inr buf"
    "c = buf @ r" "torn_part enc dec L r" using assms(1) by (auto simp: lines_held_def)
  obtain b where b: "marshal_all enc ls = Inr b" "b = [] \<or> last b = newline"
    "\<forall>n rep. read_loop dec (n, None, rep) (lines_of b) = Inr (n + length ls, None, fold add_event ls rep)"
    by (rule marshal_all_good [OF w(1)])
  then have buf: "buf = b" using w(4) by simp
  let ?rep = "fold add_event ls empty_report"
  have "read_loop dec (0, None, empty_report) (lines_of buf) = Inr (length ls, None, ?rep)" using b(3) buf by simp
  moreover have lines: "lines_of c = lines_of buf @ lines_of r" using b(2) unfolding w(5) buf by (rule lines_of_append)
  ultimately have read: "read_loop dec (0, None, empty_report) (lines_of c) = read_loop dec (length ls, None, ?rep) (lines_of r)"
    by (simp add: read_loop_append)
  have rep: "set (lr_lines ?rep) = set ls"
    using add_events_lines [OF assms(2), of empty_report ls] w(3) by (simp add: empty_report_def)
  show ?thesis
  proof (cases "r = []")
    case True
    then show ?thesis using read rep w(2,3) by (simp add: read_ledger_def)
  next
    case False
    then obtain l s j where l: "l \<in> L" "good_line enc dec l" "enc l = Some s" "r = take j s"
      using w(6) by (auto simp: torn_part_def)
    obtain s' where s': "marshal enc l = Inr (s' @ [newline])" "enc l = Some s'" using marshal_good [OF l(2)] by blast
    have "marshal_all enc [l] = Inr (s @ [newline])" using s' l(3) by simp
    from read_torn_write [OF _ this, of dec "length ls" ?rep "min j (length s)"] l(2)
    obtain m bad k where "read_loop dec (length ls, None, ?rep) (lines_of (take (min j (length s)) (s @ [newline])))
        = Inr (m, bad, fold add_event (take k [l]) ?rep)" by auto
    moreover have "take (min j (length s)) (s @ [newline]) = r" by (simp add: l(4) min_def)
    ultimately have "read_loop dec (0, None, empty_report) (lines_of c) = Inr (m, bad, fold add_event (take k [l]) ?rep)"
      using read by simp
    moreover have "set (lr_lines (fold add_event (take k [l]) ?rep)) = set ls \<union> set (take k [l])"
      using rep w(3) l(1) set_take_subset [of k "[l]"] by (subst add_events_lines [OF assms(2)]) auto
    ultimately show ?thesis
      using w(2,3) l(1) set_take_subset [of k "[l]"] by (auto simp: read_ledger_def)
  qed
qed

section \<open>The world\<close>

text \<open>A new transaction: its clock is later than every deletion recorded, and the ids it makes are new.\<close>

definition fresh_tx :: "tx \<Rightarrow> db \<Rightarrow> bool" where
  "fresh_tx x db \<longleftrightarrow> 0 < tx_clock x \<and> (\<forall>d. tx_event x d \<noteq> uuid_nil \<and> tx_event x d \<notin> set (event_ids db))
     \<and> (\<forall>e\<in>set (db_events db). \<forall>at. ev_deleted e = Some at \<longrightarrow> at < tx_clock x)"

fun new_number :: "life_op \<Rightarrow> db \<Rightarrow> bool" where
  "new_number (CreateNumber t i l) db = (t \<noteq> uuid_nil \<and> i \<noteq> uuid_nil \<and> i \<notin> ev_item ` set (db_events db))"
| "new_number _ db = True"

text \<open>Numbers live and the ledger is exported, in any order. The lines the codec carries round-trip; an export may
  meet any error, tear the file anywhere, and lose its commit after the file is synced.\<close>

inductive ledger_world :: "encoder \<Rightarrow> decoder \<Rightarrow> db \<Rightarrow> string option \<Rightarrow> bool" for enc dec where
  start: "db_devices db = [] \<Longrightarrow> db_events db = [] \<Longrightarrow> ledger_world enc dec db None"
| life: "ledger_world enc dec db file \<Longrightarrow> fresh_tx x db \<Longrightarrow> new_number op db \<Longrightarrow> run_life x op db = Inr db'
    \<Longrightarrow> ledger_world enc dec db' file"
| export: "ledger_world enc dec db file
    \<Longrightarrow> list_all (good_line enc dec) (List.map_filter line_of_event (filter (unexported t) (db_events db)))
    \<Longrightarrow> export_ledger enc env committed clock t (db, file) = (r, db', file') \<Longrightarrow> ledger_world enc dec db' file'"

section \<open>What the events say\<close>

definition event_lines :: "db \<Rightarrow> line set" where
  "event_lines db = {l. \<exists>e\<in>views db. line_of_event e = Some l}"

definition marked_lines :: "db \<Rightarrow> line set" where
  "marked_lines db = {l. \<exists>e\<in>views db. ev_ledgered e \<noteq> None \<and> line_of_event e = Some l}"

definition lines_about :: "uuid \<Rightarrow> line set \<Rightarrow> line set" where
  "lines_about i L = {l \<in> L. ln_device l = i}"

definition deleted_in :: "line set \<Rightarrow> timestamp set" where
  "deleted_in L = (\<lambda>l. date_of (ln_deleted_at l)) ` {l \<in> L. ln_type l = TypeDeleted}"

definition recovered_in :: "line set \<Rightarrow> timestamp set" where
  "recovered_in L = (\<lambda>l. date_of (ln_deleted_at l)) ` {l \<in> L. ln_type l = TypeRecovered}"

definition purged_in :: "line set \<Rightarrow> bool" where
  "purged_in L \<longleftrightarrow> (\<exists>l\<in>L. ln_type l = TypePurged)"

text \<open>The events agree with the row, or with there being none.\<close>

definition row_told :: "device_row \<Rightarrow> line set \<Rightarrow> bool" where
  "row_told v L \<longleftrightarrow> deleted_in L - recovered_in L = set_option (dv_deleted v) \<and> \<not> purged_in L
     \<and> (\<forall>l\<in>L. ln_workspace l = dv_tenant v) \<and> (never_linked v \<longrightarrow> L = {})"

definition absence_told :: "line set \<Rightarrow> bool" where
  "absence_told L \<longleftrightarrow> L = {} \<or> purged_in L \<and> (\<exists>w. \<forall>l\<in>L. ln_workspace l = w)"

definition rows_told :: "db \<Rightarrow> bool" where
  "rows_told db \<longleftrightarrow> (\<forall>v\<in>set (db_devices db). row_told v (lines_about (dv_id v) (event_lines db)) \<and> dv_tenant v \<noteq> uuid_nil \<and> dv_id v \<noteq> uuid_nil)
     \<and> (\<forall>i. i \<notin> dv_id ` set (db_devices db) \<longrightarrow> absence_told (lines_about i (event_lines db)))"

definition event_told :: "event_row \<Rightarrow> bool" where
  "event_told e \<longleftrightarrow> fst (ev_dedupe e) = ev_type e \<and> (ledgered_type (ev_type e) \<noteq> None \<longrightarrow> ev_replayed e = None
     \<and> (\<exists>at. ev_deleted e = Some at \<and> ev_dedupe e = (ev_type e, ev_item e, None, at))
     \<and> (\<forall>l. line_of_event e = Some l \<longrightarrow> check_line l = None \<and> ln_type l \<noteq> TypeMovedOut
        \<and> (ln_type l = TypeDeleted \<longrightarrow> date_of (ln_deleted_at l) + thirty_days = date_of (ln_purge_after l))))"

definition events_told :: "db \<Rightarrow> bool" where
  "events_told db \<longleftrightarrow> distinct (event_ids db) \<and> (\<forall>e\<in>views db. event_told e)"

lemma told_nothing: "row_told v {} \<Longrightarrow> dv_deleted v = None"
  by (cases "dv_deleted v") (simp_all add: row_told_def deleted_in_def)

lemma other_event_no_line: "other_event e \<Longrightarrow> line_of_event e = None"
  by (simp add: other_event_def line_of_event_def)

lemma event_lines_Un: "views db' = views db \<union> N \<Longrightarrow> event_lines db' = event_lines db \<union> {l. \<exists>e\<in>N. line_of_event e = Some l}"
  "views db' = views db \<union> N \<Longrightarrow> marked_lines db' = marked_lines db \<union> {l. \<exists>e\<in>N. ev_ledgered e \<noteq> None \<and> line_of_event e = Some l}"
  by (auto simp: event_lines_def marked_lines_def)

lemma line_kind: "line_of_event e = Some l \<Longrightarrow> ledgered_type (ev_type e) = Some (ln_type l) \<and> ln_event l = ev_id e
    \<and> ln_device l = ev_item e \<and> ln_workspace l = ev_tenant e \<and> ln_deleted_at l = ev_deleted e"
  by (auto simp: line_of_event_def)

lemma events_inj:
  assumes "distinct (event_ids db)"
  shows "inj_on ln_event (event_lines db)"
proof (rule inj_onI)
  fix l m assume lm: "l \<in> event_lines db" "m \<in> event_lines db" "ln_event l = ln_event m"
  then obtain e f where e: "e \<in> set (db_events db)" "line_of_event e = Some l" and f: "f \<in> set (db_events db)" "line_of_event f = Some m"
    by (auto simp: event_lines_def views_def)
  then have "ev_id e = ev_id f" using lm(3) line_kind [OF e(2)] line_kind [OF f(2)] by simp
  then have "e = f" using assms e(1) f(1) by (auto simp: event_ids_def distinct_map inj_on_def)
  with e f show "l = m" by simp
qed

text \<open>A quiet step.\<close>

lemma quiet_lines:
  assumes "quiet_step db db'"
  shows "event_lines db' = event_lines db" "marked_lines db' = marked_lines db" "events_told db \<Longrightarrow> events_told db'"
proof -
  from assms obtain N where N: "views db' = views db \<union> N" "Ball N other_event" by (auto simp: quiet_step_def)
  have none: "line_of_event e = None" if "e \<in> N" for e using N(2) other_event_no_line that by blast
  show "event_lines db' = event_lines db" "marked_lines db' = marked_lines db"
    using event_lines_Un [OF N(1)] none by auto
  have "event_told e" if "e \<in> N" for e using N(2) that by (auto simp: event_told_def other_event_def)
  then show "events_told db \<Longrightarrow> events_told db'"
    using assms N(1) by (auto simp: events_told_def quiet_step_def)
qed

lemma quiet_rows_told:
  assumes "quiet_step db db'" "rows_told db"
  shows "rows_told db'"
proof -
  have row: "row_told w L" if "follows v w" "row_told v L" for v w L
    using that by (auto simp: row_told_def follows_def)
  have "row_told w (lines_about (dv_id w) (event_lines db')) \<and> dv_tenant w \<noteq> uuid_nil \<and> dv_id w \<noteq> uuid_nil"
    if "w \<in> set (db_devices db')" for w
  proof -
    obtain v where v: "v \<in> set (db_devices db)" "follows v w" using assms(1) \<open>w \<in> _\<close> by (auto simp: quiet_step_def)
    have "row_told v (lines_about (dv_id v) (event_lines db)) \<and> dv_tenant v \<noteq> uuid_nil \<and> dv_id v \<noteq> uuid_nil"
      using assms(2) v(1) by (simp add: rows_told_def)
    with row [OF v(2)] v(2) show ?thesis by (simp add: quiet_lines(1) [OF assms(1)] follows_def)
  qed
  moreover have "dv_id ` set (db_devices db') = dv_id ` set (db_devices db)" using assms(1) by (simp add: quiet_step_def)
  ultimately show ?thesis using assms(2) by (simp add: rows_told_def quiet_lines(1) [OF assms(1)])
qed

text \<open>A step that records a deletion, a recovery or a purge.\<close>

lemma views_ids: "ev_id ` views db = set (event_ids db)"
  by (auto simp: views_def event_ids_def image_image)

lemma line_recorded:
  assumes "records e db db'" "events_told db" "event_told e" "line_of_event e = Some l" "ev_ledgered e = None"
    "ev_id e \<notin> set (event_ids db)"
    "\<not> (\<exists>m\<in>event_lines db. ln_type m = ln_type l \<and> ln_device m = ln_device l \<and> ln_deleted_at m = ln_deleted_at l)"
  shows "event_lines db' = insert l (event_lines db)" "marked_lines db' = marked_lines db" "events_told db'"
proof -
  have "\<not> same_event e f" if f: "f \<in> views db" for f
  proof
    assume "same_event e f"
    moreover have "ev_id f \<noteq> ev_id e" using assms(6) f by (metis imageI views_ids)
    ultimately have d: "ev_dedupe f = ev_dedupe e" by (simp add: same_event_def)
    have k: "ledgered_type (ev_type e) = Some (ln_type l)" using line_kind [OF assms(4)] by simp
    have f': "event_told f" using assms(2) f by (simp add: events_told_def)
    have type: "ev_type f = ev_type e" using d f' assms(3) by (simp add: event_told_def)
    obtain m where m: "line_of_event f = Some m" using type k by (simp add: line_of_event_def)
    have "ev_item f = ev_item e \<and> ev_deleted f = ev_deleted e"
      using f' assms(3) k type d by (auto simp: event_told_def)
    then have "ln_type m = ln_type l \<and> ln_device m = ln_device l \<and> ln_deleted_at m = ln_deleted_at l"
      using line_kind [OF m] line_kind [OF assms(4)] type by simp
    moreover have "m \<in> event_lines db" using m f by (auto simp: event_lines_def)
    ultimately show False using assms(7) by blast
  qed
  then have v: "views db' = views db \<union> {scrubbed e}" using assms(1) by (auto simp: records_def)
  show "event_lines db' = insert l (event_lines db)" "marked_lines db' = marked_lines db"
    using event_lines_Un [OF v] assms(4,5) by auto
  have "event_told (scrubbed e)" using assms(3) by (simp add: event_told_def)
  moreover have "distinct (event_ids db')" using assms(1,2) unfolding records_def events_told_def by blast
  ultimately show "events_told db'" using assms(2) unfolding events_told_def v by blast
qed

lemma about_insert: "lines_about i (insert l L) = (if ln_device l = i then insert l (lines_about i L) else lines_about i L)"
  by (auto simp: lines_about_def)

lemma dates_insert:
  "deleted_in (insert l L) = (if ln_type l = TypeDeleted then insert (date_of (ln_deleted_at l)) (deleted_in L) else deleted_in L)"
  "recovered_in (insert l L) = (if ln_type l = TypeRecovered then insert (date_of (ln_deleted_at l)) (recovered_in L) else recovered_in L)"
  "purged_in (insert l L) = (ln_type l = TypePurged \<or> purged_in L)"
  by (auto simp: deleted_in_def recovered_in_def purged_in_def)

text \<open>The rows of the other numbers are not touched.\<close>

lemma replaced_row_told:
  assumes "rows_told db" "event_lines db' = insert l (event_lines db)" "ln_device l = d"
    "db_devices db' = map (\<lambda>r. if dv_id r = d then w else r) (db_devices db)" "v \<in> set (db_devices db)" "dv_id v = d"
    "dv_id w = d" "dv_tenant w = dv_tenant v" "row_told w (insert l (lines_about d (event_lines db)))"
  shows "rows_told db'"
proof -
  have v: "dv_tenant v \<noteq> uuid_nil" "d \<noteq> uuid_nil" using assms(1,5,6) by (auto simp: rows_told_def)
  have "row_told u (lines_about (dv_id u) (event_lines db')) \<and> dv_tenant u \<noteq> uuid_nil \<and> dv_id u \<noteq> uuid_nil"
    if "u \<in> set (db_devices db')" for u
  proof (cases "dv_id u = d")
    case True
    then have "u = w" using \<open>u \<in> _\<close> assms(7) by (auto simp: assms(4) split: if_splits)
    then show ?thesis using assms(3,7,8,9) v by (simp add: assms(2) about_insert)
  next
    case False
    then have "u \<in> set (db_devices db)" using \<open>u \<in> _\<close> assms(7) by (auto simp: assms(4) split: if_splits)
    then show ?thesis using assms(1,3) False by (simp add: assms(2) about_insert rows_told_def)
  qed
  moreover have "dv_id ` set (db_devices db') = dv_id ` set (db_devices db)"
    using replaced_ids [OF assms(7)] unfolding assms(4) by (metis list.set_map)
  moreover have "d \<in> dv_id ` set (db_devices db)" using assms(5,6) by blast
  ultimately show ?thesis using assms(1,3) by (auto simp: rows_told_def assms(2) about_insert)
qed

lemma row_of:
  assumes "device_of True db t d = Some v" "rows_told db"
  shows "v \<in> set (db_devices db)" "dv_id v = d" "dv_tenant v = t" "t \<noteq> uuid_nil" "d \<noteq> uuid_nil"
    "row_told v (lines_about d (event_lines db))"
proof -
  show v: "v \<in> set (db_devices db)" "dv_id v = d" "dv_tenant v = t"
    using device_of_in [OF assms(1)] by (auto simp: sees_device_def)
  with assms(2) show "t \<noteq> uuid_nil" "d \<noteq> uuid_nil" "row_told v (lines_about d (event_lines db))"
    by (auto simp: rows_told_def)
qed

lemma older_dates:
  assumes "fresh_tx x db" "l \<in> event_lines db" "ln_deleted_at l = Some at"
  shows "at < tx_clock x"
  using assms line_kind by (fastforce simp: event_lines_def fresh_tx_def views_def)

lemma told_deleted:
  assumes "fresh_tx x db" "events_told db" "rows_told db" "device_of True db t d = Some v" "dv_deleted v = None" "\<not> never_linked v"
    "db_devices db' = map (\<lambda>r. if dv_id r = d then exclude_row (tx_clock x) actor (session_of db v) v else r) (db_devices db)"
    "records (deleted_event x t actor v rs b) db db'"
  shows "rows_told db'" "events_told db'" "marked_lines db' = marked_lines db" "event_lines db \<subseteq> event_lines db'"
proof -
  note v = row_of [OF assms(4,3)]
  let ?e = "deleted_event x t actor v rs b"
  have e: "ev_type ?e = ''deleted''" "ev_item ?e = d" "ev_tenant ?e = t" "ev_deleted ?e = Some (tx_clock x)"
    "ev_purge ?e = Some (tx_clock x + thirty_days)" "ev_ledgered ?e = None" "ev_id ?e = tx_event x d"
    "ev_occurred ?e = tx_clock x" "ev_dedupe ?e = (''deleted'', d, None, tx_clock x)" "ev_replayed ?e = None"
    by (simp_all add: deleted_event_def named_event_def by_actor_def item_event_def v(2))
  obtain l where l: "line_of_event ?e = Some l" "ln_type l = TypeDeleted" "ln_device l = d" "ln_workspace l = t"
    "ln_deleted_at l = Some (tx_clock x)"
    using e(1-5) by (simp add: line_of_event_def ledgered_type_def)
  have x: "0 < tx_clock x" "tx_event x d \<noteq> uuid_nil" "tx_event x d \<notin> set (event_ids db)" using assms(1) by (simp_all add: fresh_tx_def)
  have "check_line l = None" using l(1) x e v(4,5) by (auto simp: line_of_event_def ledgered_type_def check_line_def)
  moreover have "date_of (ln_deleted_at l) + thirty_days = date_of (ln_purge_after l)"
    using l(1) e(1,4,5) by (auto simp: line_of_event_def ledgered_type_def date_of_def)
  ultimately have told: "event_told ?e" using l(1,2) by (simp add: event_told_def e(1-5,9,10))
  have new: "\<not> (\<exists>m\<in>event_lines db. ln_type m = ln_type l \<and> ln_device m = ln_device l \<and> ln_deleted_at m = ln_deleted_at l)"
    using older_dates [OF assms(1)] l(5) by fastforce
  have id: "ev_id ?e \<notin> set (event_ids db)" using x(3) e(7) by simp
  note r = line_recorded [OF assms(8,2) told l(1) e(6) id new]
  show "events_told db'" "marked_lines db' = marked_lines db" "event_lines db \<subseteq> event_lines db'" using r by auto
  have "tx_clock x \<notin> recovered_in (event_lines db)"
  proof
    assume "tx_clock x \<in> recovered_in (event_lines db)"
    then obtain m where m: "m \<in> event_lines db" "date_of (ln_deleted_at m) = tx_clock x" by (auto simp: recovered_in_def)
    then have "ln_deleted_at m = Some (tx_clock x)" using x(1) by (cases "ln_deleted_at m") (auto simp: date_of_def)
    then show False using older_dates [OF assms(1) m(1)] by simp
  qed
  then have "tx_clock x \<notin> recovered_in (lines_about d (event_lines db))" by (auto simp: recovered_in_def lines_about_def)
  moreover have "date_of (ln_deleted_at l) = tx_clock x" by (simp add: l(5) date_of_def)
  ultimately have "row_told (exclude_row (tx_clock x) actor (session_of db v) v) (insert l (lines_about d (event_lines db)))"
    using v(3,6) l assms(5,6) by (auto simp: row_told_def dates_insert exclude_row_def never_linked_def)
  then show "rows_told db'"
    using replaced_row_told [OF assms(3) r(1) l(3) assms(7) v(1,2)] v(2) by (simp add: exclude_row_def)
qed

lemma told_recovered:
  assumes "fresh_tx x db" "events_told db" "rows_told db" "device_of True db t d = Some v" "dv_deleted v = Some at"
    "db_devices db' = map (\<lambda>r. if dv_id r = d then pause_trigger (recover_row g v) else r) (db_devices db)"
    "recovery_record x t d at e" "records e db db'"
  shows "rows_told db'" "events_told db'" "marked_lines db' = marked_lines db" "event_lines db \<subseteq> event_lines db'"
proof -
  note v = row_of [OF assms(4,3)]
  note e = assms(7) [unfolded recovery_record_def]
  obtain l where l: "line_of_event e = Some l" "ln_type l = TypeRecovered" "ln_device l = d" "ln_workspace l = t"
    "ln_deleted_at l = Some at"
    using e by (simp add: line_of_event_def ledgered_type_def)
  have x: "0 < tx_clock x" "tx_event x d \<noteq> uuid_nil" "tx_event x d \<notin> set (event_ids db)" using assms(1) by (simp_all add: fresh_tx_def)
  have "check_line l = None" using l(1) x e v(4,5) by (auto simp: line_of_event_def ledgered_type_def check_line_def)
  then have told: "event_told e" using l(1,2) e by (simp add: event_told_def)
  have open_at: "deleted_in (lines_about d (event_lines db)) - recovered_in (lines_about d (event_lines db)) = {at}"
    using v(6) assms(5) by (simp add: row_told_def)
  have "at \<in> recovered_in (lines_about d (event_lines db))"
    if "m \<in> event_lines db" "ln_type m = TypeRecovered" "ln_device m = d" "ln_deleted_at m = Some at" for m
    using that by (auto simp: recovered_in_def lines_about_def date_of_def intro!: image_eqI [of _ _ m])
  then have new: "\<not> (\<exists>m\<in>event_lines db. ln_type m = ln_type l \<and> ln_device m = ln_device l \<and> ln_deleted_at m = ln_deleted_at l)"
    using open_at l by auto
  have id: "ev_id e \<notin> set (event_ids db)" using x(3) e by simp
  have unmarked: "ev_ledgered e = None" using e by simp
  note r = line_recorded [OF assms(8,2) told l(1) unmarked id new]
  show "events_told db'" "marked_lines db' = marked_lines db" "event_lines db \<subseteq> event_lines db'" using r by auto
  have "lines_about d (event_lines db) \<noteq> {}" using open_at by (auto simp: deleted_in_def)
  then have linked: "\<not> never_linked v" using v(6) by (auto simp: row_told_def)
  have date: "date_of (ln_deleted_at l) = at" by (simp add: l(5) date_of_def)
  have "row_told (pause_trigger (recover_row g v)) (insert l (lines_about d (event_lines db)))"
    using v(3,6) l linked open_at date by (auto simp: row_told_def dates_insert recover_row_def never_linked_def)
  then show "rows_told db'"
    using replaced_row_told [OF assms(3) r(1) l(3) assms(6) v(1,2)] v(2) by (simp add: recover_row_def)
qed

lemma told_purged:
  assumes "fresh_tx x db" "events_told db" "rows_told db" "device_of True db t d = Some v" "dv_deleted v = Some at"
    "db_devices db' = filter (\<lambda>v. dv_id v \<noteq> d) (db_devices db)" "records (purged_event x t v at) db db'"
  shows "rows_told db'" "events_told db'" "marked_lines db' = marked_lines db" "event_lines db \<subseteq> event_lines db'"
proof -
  note v = row_of [OF assms(4,3)]
  let ?e = "purged_event x t v at"
  have e: "ev_type ?e = ''purged''" "ev_item ?e = d" "ev_tenant ?e = t" "ev_deleted ?e = Some at"
    "ev_purge ?e = Some (purge_date v)" "ev_ledgered ?e = None" "ev_id ?e = tx_event x d"
    "ev_occurred ?e = tx_clock x" "ev_dedupe ?e = (''purged'', d, None, at)" "ev_replayed ?e = None"
    by (simp_all add: purged_event_def item_event_def v(2))
  obtain l where l: "line_of_event ?e = Some l" "ln_type l = TypePurged" "ln_device l = d" "ln_workspace l = t"
    using e(1-5) by (simp add: line_of_event_def ledgered_type_def)
  have x: "0 < tx_clock x" "tx_event x d \<noteq> uuid_nil" "tx_event x d \<notin> set (event_ids db)" using assms(1) by (simp_all add: fresh_tx_def)
  have "check_line l = None" using l(1) x e v(4,5) by (auto simp: line_of_event_def ledgered_type_def check_line_def)
  then have told: "event_told ?e" using l(1,2) by (simp add: event_told_def e(1-5,9,10))
  have "\<not> purged_in (lines_about d (event_lines db))" using v(6) by (simp add: row_told_def)
  then have new: "\<not> (\<exists>m\<in>event_lines db. ln_type m = ln_type l \<and> ln_device m = ln_device l \<and> ln_deleted_at m = ln_deleted_at l)"
    using l by (auto simp: purged_in_def lines_about_def)
  have id: "ev_id ?e \<notin> set (event_ids db)" using x(3) e(7) by simp
  note r = line_recorded [OF assms(7,2) told l(1) e(6) id new]
  show "events_told db'" "marked_lines db' = marked_lines db" "event_lines db \<subseteq> event_lines db'" using r by auto
  have gone: "absence_told (insert l (lines_about d (event_lines db)))"
    using v(3,6) l(2,4) by (auto simp: absence_told_def dates_insert row_told_def)
  have "absence_told (lines_about i (event_lines db'))" if "i \<notin> dv_id ` set (db_devices db')" for i
  proof (cases "i = d")
    case True
    then show ?thesis using gone l(3) by (simp add: r(1) about_insert)
  next
    case False
    then have "i \<notin> dv_id ` set (db_devices db)" using that by (auto simp: assms(6))
    then show ?thesis using assms(3) False l(3) by (simp add: rows_told_def r(1) about_insert)
  qed
  then show "rows_told db'" using assms(3) l(3) by (auto simp: rows_told_def assms(6) r(1) about_insert)
qed

lemma same_events_lines:
  assumes "db_events db' = db_events db"
  shows "event_lines db' = event_lines db" "marked_lines db' = marked_lines db" "events_told db' = events_told db"
  using views_events [OF assms] by (simp_all add: event_lines_def marked_lines_def events_told_def)

lemma told_step:
  assumes "fresh_tx x db" "new_number op db" "events_told db" "rows_told db" "run_life x op db = Inr db'"
  shows "rows_told db' \<and> events_told db' \<and> marked_lines db' = marked_lines db \<and> event_lines db \<subseteq> event_lines db'"
  using assms(5)
proof (cases rule: life_cases)
  case quiet
  show ?thesis using quiet_rows_told [OF quiet assms(4)] quiet_lines(3) [OF quiet assms(3)]
    by (simp add: quiet_lines(1,2) [OF quiet])
next
  case (created t i l)
  have "t \<noteq> uuid_nil" "i \<noteq> uuid_nil" "i \<notin> ev_item ` set (db_events db)" using assms(2) created(1) by simp_all
  moreover from this(3) have "lines_about i (event_lines db) = {}"
    using line_kind by (fastforce simp: lines_about_def event_lines_def views_def)
  ultimately have new: "row_told (new_device t i l) (lines_about i (event_lines db)) \<and> t \<noteq> uuid_nil \<and> i \<noteq> uuid_nil"
    by (simp add: row_told_def new_device_def deleted_in_def purged_in_def)
  have "dv_id (new_device t i l) = i" "dv_tenant (new_device t i l) = t" by (simp_all add: new_device_def)
  with new assms(3,4) show ?thesis using same_events_lines [OF created(3)] by (auto simp: rows_told_def created(2))
next
  case (dropped t d v)
  have "lines_about d (event_lines db) = {}" using assms(4) dropped(2-4) by (auto simp: rows_told_def row_told_def)
  then have "absence_told (lines_about d (event_lines db))" by (simp add: absence_told_def)
  with assms(3,4) show ?thesis using same_events_lines [OF dropped(7)] by (auto simp: rows_told_def dropped(6))
next
  case (deleted t actor d ack v)
  then show ?thesis using told_deleted [OF assms(1,3,4) deleted(2-6)] by blast
next
  case (recovered t actor d free v at e)
  then show ?thesis using told_recovered [OF assms(1,3,4) recovered(2,3,5-7)] by blast
next
  case (purged t d v at)
  then show ?thesis using told_purged [OF assms(1,3,4) purged(2,3,5,6)] by blast
qed

section \<open>An export\<close>

lemma scrubbed_marked: "scrubbed (e\<lparr>ev_ledgered := m\<rparr>) = (scrubbed e)\<lparr>ev_ledgered := m\<rparr>"
  by (simp add: scrubbed_def)

lemma line_unmarked [simp]: "line_of_event (e\<lparr>ev_ledgered := m\<rparr>) = line_of_event e" "event_told (e\<lparr>ev_ledgered := m\<rparr>) = event_told e"
proof -
  show "line_of_event (e\<lparr>ev_ledgered := m\<rparr>) = line_of_event e"
    by (cases "ledgered_type (ev_type e)") (simp_all add: line_of_event_def)
  then show "event_told (e\<lparr>ev_ledgered := m\<rparr>) = event_told e" by (simp add: event_told_def)
qed

lemma mark_lines:
  assumes "events_told db" "set ls \<subseteq> event_lines db"
  shows "event_lines (mark_ledgered clock ls db) = event_lines db" "events_told (mark_ledgered clock ls db)"
    "marked_lines (mark_ledgered clock ls db) \<subseteq> marked_lines db \<union> set ls" "rows_told (mark_ledgered clock ls db) = rows_told db"
proof -
  let ?db = "mark_ledgered clock ls db"
  define f :: "event_row \<Rightarrow> event_row" where "f e = (if ev_id e \<in> ln_event ` set ls \<and> ev_ledgered e = None then e\<lparr>ev_ledgered := Some clock\<rparr> else e)" for e
  have ev: "db_events ?db = map f (db_events db)" by (simp add: mark_ledgered_def f_def)
  have f: "line_of_event (f e) = line_of_event e" "event_told (scrubbed (f e)) = event_told (scrubbed e)" "ev_id (f e) = ev_id e" for e
    by (simp_all add: f_def scrubbed_marked)
  show lines: "event_lines ?db = event_lines db" by (simp add: event_lines_def views_def ev f)
  have "event_ids ?db = event_ids db" by (simp add: event_ids_def ev f comp_def)
  then show "events_told ?db" using assms(1) by (auto simp: events_told_def views_def ev f)
  show "rows_told ?db = rows_told db" by (simp add: rows_told_def lines) (simp add: mark_ledgered_def)
  show "marked_lines ?db \<subseteq> marked_lines db \<union> set ls"
  proof
    fix l assume "l \<in> marked_lines ?db"
    then obtain e where e: "e \<in> set (db_events db)" "ev_ledgered (f e) \<noteq> None" "line_of_event e = Some l"
      by (auto simp: marked_lines_def views_def ev f)
    show "l \<in> marked_lines db \<union> set ls"
    proof (cases "ev_ledgered e = None")
      case True
      then have "ev_id e \<in> ln_event ` set ls" using e(2) by (auto simp: f_def split: if_splits)
      then obtain m where m: "m \<in> set ls" "ln_event m = ev_id e" by auto
      have inj: "inj_on ln_event (event_lines db)" using assms(1) by (simp add: events_told_def events_inj)
      have "l \<in> event_lines db" using e by (auto simp: event_lines_def views_def)
      moreover have "ln_event m = ln_event l" using m(2) line_kind [OF e(3)] by simp
      ultimately have "m = l" using inj m(1) assms(2) by (auto simp: inj_on_def)
      with m(1) show ?thesis by blast
    next
      case False
      with e(1,3) show ?thesis by (auto simp: marked_lines_def views_def)
    qed
  qed
qed

lemma exported_lines: "set (List.map_filter line_of_event (filter (unexported t) (db_events db))) \<subseteq> event_lines db"
  by (auto simp: event_lines_def views_def List.map_filter_def)

lemma world_told:
  assumes "ledger_world enc dec db file"
  shows "events_told db \<and> rows_told db \<and> lines_held enc dec (marked_lines db) (event_lines db) (contents file)"
  using assms
proof (induction rule: ledger_world.induct)
  case (start db)
  have none: "event_lines db = {}" "marked_lines db = {}" using start by (simp_all add: event_lines_def marked_lines_def views_def)
  then have "lines_held enc dec (marked_lines db) (event_lines db) (contents None)"
    by (auto simp: lines_held_def contents_def torn_part_def intro!: exI [of _ "[]"])
  with start none show ?case
    by (simp add: events_told_def rows_told_def views_def event_ids_def lines_about_def absence_told_def)
next
  case (life db fl x op db')
  then have "rows_told db' \<and> events_told db' \<and> marked_lines db' = marked_lines db \<and> event_lines db \<subseteq> event_lines db'"
    by (intro told_step) auto
  with life.IH show ?case
    using held_mono [OF _ order_refl, of enc dec "marked_lines db" "event_lines db" "contents fl" "event_lines db'"] by simp
next
  case (export db fl t env committed clock r db' fl')
  let ?ls = "List.map_filter line_of_event (filter (unexported t) (db_events db))"
  have told: "events_told db" "rows_told db" "lines_held enc dec (marked_lines db) (event_lines db) (contents fl)"
    using export.IH by blast+
  show ?case
  proof (cases "?ls = []")
    case True
    with export.hyps(3) told show ?thesis by (simp add: export_ledger_def Let_def)
  next
    case False
    obtain err f1 where app: "append_lines enc env ?ls fl = (err, f1)" by fastforce
    note w = held_append [OF told(3) export.hyps(2) exported_lines False app]
    consider "db' = db" "fl' = f1" | "err = None" "db' = mark_ledgered clock ?ls db" "fl' = f1"
      using export.hyps(3) False app by (auto simp: export_ledger_def Let_def split: option.splits if_splits)
    then show ?thesis
    proof cases
      case 1
      with told w(1) show ?thesis by simp
    next
      case 2
      note m = mark_lines [OF told(1) exported_lines [of t], of clock]
      show ?thesis using told m held_mono [OF w(2) [OF 2(1)] m(3) order_refl] by (simp add: 2(2,3))
    qed
  qed
qed

section \<open>Reading the lines back\<close>

lemma one_workspace:
  assumes "ls \<noteq> []" "\<forall>l\<in>set ls. ln_type l \<noteq> TypeMovedOut" "\<forall>l\<in>set ls. ln_workspace l = w"
  shows "where_is ls = Inr (w, False)"
proof -
  have "set (fold (\<lambda>l. add_new (ln_workspace l)) ls []) = {w}"
    using assms(1,3) by (auto simp: set_fold_add_new image_iff neq_Nil_conv)
  then have "fold (\<lambda>l. add_new (ln_workspace l)) ls [] = [w]"
    by (intro singleton_list distinct_fold_add_new) simp_all
  then show ?thesis using assms(2) by (simp add: where_is_def filter_empty_conv)
qed

lemma dates_in_set: "deletion_dates ls = deleted_in (set ls)" "recovered_dates ls = recovered_in (set ls)"
  by (auto simp: deletion_dates_def deleted_in_def recovered_dates_def recovered_in_def)

lemma fold_row_told:
  assumes "ls \<noteq> []" "\<forall>l\<in>set ls. ln_type l \<noteq> TypeMovedOut" "row_told v (set ls)"
  shows "\<exists>d. fold_device i ls = Inr d \<and> ld_workspace d = dv_tenant v
    \<and> (case dv_deleted v of None \<Rightarrow> ld_state d = StateLive | Some at \<Rightarrow> ld_state d = StateExcluded \<and> ld_deleted_at d = at)"
proof -
  have w: "where_is ls = Inr (dv_tenant v, False)" using assms by (intro one_workspace) (auto simp: row_told_def)
  have none: "first_purge ls None = None" using assms(3) by (auto simp: first_purge_none list_all_iff row_told_def purged_in_def)
  obtain rv op where sp: "split_deletions (recoveries ls) ls {} ([], []) = (rv, op)" by fastforce
  note f = split_deletions_start [OF sp]
  have dates: "set (map (\<lambda>l. date_of (ln_deleted_at l)) op) = set_option (dv_deleted v)"
    using f(3) assms(3) by (simp add: dates_in_set row_told_def)
  show ?thesis
  proof (cases "dv_deleted v")
    case None
    with dates have "op = []" by simp
    then show ?thesis using None by (simp add: fold_device_open [OF w none sp] live_device_def)
  next
    case (Some at)
    with dates f(2) have "map (\<lambda>l. date_of (ln_deleted_at l)) op = [at]" by (intro singleton_list) simp_all
    then obtain l where "op = [l]" "date_of (ln_deleted_at l) = at" by auto
    then show ?thesis using Some by (simp add: fold_device_open [OF w none sp] live_device_def)
  qed
qed

lemma fold_absence_told:
  assumes "ls \<noteq> []" "\<forall>l\<in>set ls. ln_type l \<noteq> TypeMovedOut" "absence_told (set ls)"
  shows "\<exists>d. fold_device i ls = Inr d \<and> ld_state d = StatePurged"
proof -
  obtain w where p: "purged_in (set ls)" "\<forall>l\<in>set ls. ln_workspace l = w" using assms(1,3) by (auto simp: absence_told_def)
  have w: "where_is ls = Inr (w, False)" using assms(1,2) p(2) by (rule one_workspace)
  have "first_purge ls None \<noteq> None" using p(1) by (auto simp: first_purge_none list_all_iff purged_in_def)
  then show ?thesis by (auto simp: fold_device_def w Let_def)
qed

text \<open>The lines of a number whose events are all exported.\<close>

lemma exported_read:
  assumes "ledger_world enc dec db file" "\<forall>e\<in>set (db_events db). ev_item e = i \<and> ledgered_type (ev_type e) \<noteq> None \<longrightarrow> ev_ledgered e \<noteq> None"
  obtains rep where "read_ledger dec (contents file) = Inr rep" "set (lr_lines rep) \<subseteq> event_lines db"
    "set (filter (\<lambda>l. ln_device l = i) (lr_lines rep)) = lines_about i (event_lines db)"
proof -
  have told: "events_told db" "lines_held enc dec (marked_lines db) (event_lines db) (contents file)"
    using world_told [OF assms(1)] by blast+
  have "inj_on ln_event (event_lines db)" using told(1) by (simp add: events_told_def events_inj)
  then obtain rep where rep: "read_ledger dec (contents file) = Inr rep" "marked_lines db \<subseteq> set (lr_lines rep)"
    "set (lr_lines rep) \<subseteq> event_lines db" using read_lines_held [OF told(2)] by blast
  have "l \<in> marked_lines db" if l: "l \<in> event_lines db" "ln_device l = i" for l
  proof -
    obtain e where e: "e \<in> set (db_events db)" "line_of_event e = Some l" using l(1) by (auto simp: event_lines_def views_def)
    then have "ev_ledgered e \<noteq> None" using assms(2) l(2) line_kind [OF e(2)] by simp
    with e show ?thesis by (auto simp: marked_lines_def views_def)
  qed
  then have "set (filter (\<lambda>l. ln_device l = i) (lr_lines rep)) = lines_about i (event_lines db)"
    using rep(2,3) by (auto simp: lines_about_def)
  with that rep show thesis by blast
qed

lemma line_never_moved: "events_told db \<Longrightarrow> l \<in> event_lines db \<Longrightarrow> ln_type l \<noteq> TypeMovedOut"
  using line_kind by (fastforce simp: events_told_def event_told_def event_lines_def)

section \<open>The whole ledger, and its replay\<close>

text \<open>What a number's lines fold to.\<close>

lemma lines_told:
  assumes "ledger_world enc dec db file" "set ls = lines_about i (event_lines db)" "ls \<noteq> []"
  shows "\<exists>d. fold_device i ls = Inr d
    \<and> (i \<notin> dv_id ` set (db_devices db) \<longrightarrow> ld_state d = StatePurged)
    \<and> (\<forall>v\<in>set (db_devices db). dv_id v = i \<longrightarrow> ld_workspace d = dv_tenant v
        \<and> (case dv_deleted v of None \<Rightarrow> ld_state d = StateLive | Some at \<Rightarrow> ld_state d = StateExcluded \<and> ld_deleted_at d = at))"
proof -
  have told: "events_told db" "rows_told db" using world_told [OF assms(1)] by blast+
  have moves: "\<forall>l\<in>set ls. ln_type l \<noteq> TypeMovedOut"
    using line_never_moved [OF told(1)] assms(2) by (auto simp: lines_about_def)
  show ?thesis
  proof (cases "i \<in> dv_id ` set (db_devices db)")
    case True
    have row: "\<exists>d. fold_device i ls = Inr d \<and> ld_workspace d = dv_tenant v
        \<and> (case dv_deleted v of None \<Rightarrow> ld_state d = StateLive | Some at \<Rightarrow> ld_state d = StateExcluded \<and> ld_deleted_at d = at)"
      if "v \<in> set (db_devices db)" "dv_id v = i" for v
      using told(2) that assms(2) by (intro fold_row_told [OF assms(3) moves]) (auto simp: rows_told_def)
    obtain v d where d: "v \<in> set (db_devices db)" "dv_id v = i" "fold_device i ls = Inr d" using True row by blast
    with row True show ?thesis by fastforce
  next
    case False
    then have "absence_told (set ls)" using told(2) assms(2) by (simp add: rows_told_def)
    with fold_absence_told [OF assms(3) moves, of i] False show ?thesis by blast
  qed
qed

lemma fold_ledger_all:
  assumes "\<And>i. i \<in> ln_device ` set ls \<Longrightarrow> \<exists>d. fold_device i (filter (\<lambda>l. ln_device l = i) ls) = Inr d"
  shows "snd (fold_ledger ls) = []"
    "\<forall>d\<in>set (fst (fold_ledger ls)). ld_id d \<in> ln_device ` set ls \<and> fold_device (ld_id d) (filter (\<lambda>l. ln_device l = ld_id d) ls) = Inr d"
proof -
  have order: "set (device_order ls) = ln_device ` set ls" by (simp add: device_order_def set_fold_add_new)
  show "snd (fold_ledger ls) = []"
    using assms order by (fastforce simp: fold_ledger_def Let_def)
  show "\<forall>d\<in>set (fst (fold_ledger ls)). ld_id d \<in> ln_device ` set ls \<and> fold_device (ld_id d) (filter (\<lambda>l. ln_device l = ld_id d) ls) = Inr d"
    using order fold_device_id by (fastforce simp: fold_ledger_def Let_def split: sum.splits)
qed

lemma windows_kept:
  assumes "events_told db" "set ls \<subseteq> event_lines db"
  shows "bad_window ls = []"
proof -
  have "date_of (ln_deleted_at l) + thirty_days = date_of (ln_purge_after l)" if "l \<in> set ls" "ln_type l = TypeDeleted" for l
  proof -
    obtain e where e: "e \<in> views db" "line_of_event e = Some l" using assms(2) \<open>l \<in> set ls\<close> by (auto simp: event_lines_def)
    then show ?thesis using assms(1) that(2) line_kind [OF e(2)] by (auto simp: events_told_def event_told_def)
  qed
  then show ?thesis by (auto simp: bad_window_def filter_empty_conv)
qed

lemma all_exported:
  assumes "ledger_world enc dec db file" "\<forall>e\<in>set (db_events db). ledgered_type (ev_type e) \<noteq> None \<longrightarrow> ev_ledgered e \<noteq> None"
  obtains rep where "read_ledger dec (contents file) = Inr rep" "set (lr_lines rep) = event_lines db"
proof -
  obtain rep where rep: "read_ledger dec (contents file) = Inr rep" "set (lr_lines rep) \<subseteq> event_lines db"
    using exported_read [OF assms(1), of 0] assms(2) by metis
  have "l \<in> set (lr_lines rep)" if l: "l \<in> event_lines db" for l
  proof -
    obtain rep' where "read_ledger dec (contents file) = Inr rep'"
      "set (filter (\<lambda>m. ln_device m = ln_device l) (lr_lines rep')) = lines_about (ln_device l) (event_lines db)"
      using exported_read [OF assms(1), of "ln_device l"] assms(2) by metis
    with rep(1) l show ?thesis by (auto simp: lines_about_def)
  qed
  with that rep show thesis by blast
qed

lemma own_ledger_needs_nothing:
  assumes "ledger_world enc dec db file" "set ls = event_lines db"
  shows "snd (fold_ledger ls) = []" "bad_window ls = []" "\<forall>(d, n)\<in>set (needs_of leave db (fst (fold_ledger ls))). n = Unchanged"
proof -
  have about: "set (filter (\<lambda>l. ln_device l = i) ls) = lines_about i (event_lines db)" for i
    using assms(2) by (auto simp: lines_about_def)
  have some: "filter (\<lambda>l. ln_device l = i) ls \<noteq> []" if "i \<in> ln_device ` set ls" for i
    using that by (auto simp: filter_empty_conv)
  have total: "\<exists>d. fold_device i (filter (\<lambda>l. ln_device l = i) ls) = Inr d" if "i \<in> ln_device ` set ls" for i
    using lines_told [OF assms(1) about some [OF that]] by blast
  note folded = fold_ledger_all [OF total]
  show "snd (fold_ledger ls) = []" using folded(1) by blast
  show "bad_window ls = []" using windows_kept world_told [OF assms(1)] assms(2) by blast
  have "need_of leave d v = Unchanged" if d: "d \<in> set (fst (fold_ledger ls))" and v: "found_row db (ld_id d) = Some v" for d v
  proof -
    have d: "ld_id d \<in> ln_device ` set ls" "fold_device (ld_id d) (filter (\<lambda>l. ln_device l = ld_id d) ls) = Inr d"
      using folded(2) d by blast+
    have v: "v \<in> set (db_devices db)" "dv_id v = ld_id d" using find_in [OF v [unfolded found_row_def]] by auto
    from lines_told [OF assms(1) about some [OF d(1)]] d(2) v
    have "ld_workspace d = dv_tenant v"
      "case dv_deleted v of None \<Rightarrow> ld_state d = StateLive | Some at \<Rightarrow> ld_state d = StateExcluded \<and> ld_deleted_at d = at"
      by auto
    then show ?thesis by (cases "dv_deleted v") (simp_all add: need_of_def need_live_def same_deletion_def)
  qed
  then show "\<forall>(d, n)\<in>set (needs_of leave db (fst (fold_ledger ls))). n = Unchanged"
    by (auto simp: needs_of_def List.map_filter_def)
qed

text \<open>The ledger's newest line is no newer than the newest event the database knows to be on it.\<close>

lemma fold_max_le: "fold (\<lambda>a m. max (f a) m) xs b \<le> c \<longleftrightarrow> b \<le> c \<and> (\<forall>a\<in>set xs. f a \<le> c)" for c :: timestamp
  by (induction xs arbitrary: b) auto

lemma own_ledger_adds_nothing:
  assumes "ledger_world enc dec db file" "set ls = event_lines db"
    and "\<forall>e\<in>set (db_events db). ledgered_type (ev_type e) \<noteq> None \<longrightarrow> ev_ledgered e \<noteq> None"
    and "\<forall>e\<in>set (db_events db). tenant_of db (ev_tenant e) \<noteq> None"
  shows "fold (\<lambda>l. max (ln_occurred l)) ls 0 \<le> newest_ledgered db"
proof -
  let ?es = "filter (\<lambda>e. tenant_of db (ev_tenant e) \<noteq> None \<and> ev_ledgered e \<noteq> None \<and> ev_replayed e = None
      \<and> ledgered_type (ev_type e) \<noteq> None) (db_events db)"
  have newest: "0 \<le> newest_ledgered db" "\<forall>e\<in>set ?es. ev_occurred e \<le> newest_ledgered db"
    using fold_max_le [of ev_occurred ?es 0 "newest_ledgered db"] by (simp_all add: newest_ledgered_def)
  have "ln_occurred l \<le> newest_ledgered db" if l: "l \<in> set ls" for l
  proof -
    obtain e where e: "e \<in> set (db_events db)" "line_of_event e = Some l"
      using l unfolding assms(2) by (auto simp: event_lines_def views_def)
    have k: "ledgered_type (ev_type e) \<noteq> None" "ln_occurred l = ev_occurred e" using e(2) by (auto simp: line_of_event_def)
    have "event_told (scrubbed e)" using world_told [OF assms(1)] e(1) by (auto simp: events_told_def views_def)
    then have "ev_replayed e = None" using k(1) by (simp add: event_told_def)
    then have "e \<in> set ?es" using e(1) k(1) assms(3,4) by simp
    then show ?thesis using newest(2) k(2) by auto
  qed
  then show ?thesis using newest(1) by (simp add: fold_max_le)
qed

lemma replay_nothing:
  assumes "snd (fold_ledger ls) = []" "bad_window ls = []" "\<forall>(d, n)\<in>set (needs_of (ro_leave opts) db (fst (fold_ledger ls))). n = Unchanged"
    and "fold (\<lambda>l. max (ln_occurred l)) ls 0 \<le> newest_ledgered db"
  shows "\<exists>r. replay_ledger x opts ls db = (if ro_adds_nothing opts then None else Some LedgerAddsNothing, r, db)
    \<and> rr_changes r = [] \<and> rr_refusals r = [] \<and> rr_kept r = [] \<and> rr_over r = []"
proof -
  let ?needs = "needs_of (ro_leave opts) db (fst (fold_ledger ls))"
  have un: "n = Unchanged" if "(d, n) \<in> set ?needs" for d n using assms(3) that by blast
  have none: "step_of p = None \<and> refusal_of p = None \<and> snd p \<noteq> Kept" if "p \<in> set ?needs" for p
    using un [of "fst p" "snd p"] that by (cases p) simp
  then have steps: "List.map_filter step_of ?needs = []" and refusals: "List.map_filter refusal_of ?needs = []"
    by (auto simp: List.map_filter_def filter_empty_conv)
  have kept: "filter (\<lambda>p. snd p = Kept) ?needs = []" using none by (auto simp: filter_empty_conv)
  obtain ds where f: "fold_ledger ls = (ds, [])" using assms(1) by (cases "fold_ledger ls") simp
  show ?thesis
    using steps refusals kept assms(2,4) by (simp add: replay_ledger_def f Let_def replay_plan_def empty_replay_def le_max_iff_disj)
qed

end
