(* ===== verification/Row_Ops.thy ===== *)
theory Row_Ops
  imports Life_Inv
begin

text \<open>
  The operations on a number's row together: the steps of its life, the outright deletion of a row
  (\<^verbatim>\<open>Devices.Delete\<close>, internal/store/devices.go) and the replay of a ledger over the database. A number's move
  between workspaces (internal/store/device_transfer.go) and the reset of a workspace (internal/store/reset.go)
  are not modelled.
\<close>

section \<open>The operations\<close>

datatype row_op = Life life_op | HardDelete uuid uuid | Replay replay_options "line list"

text \<open>A statement that fails leaves the database as it was; a replay that stops keeps the workspaces it has done.\<close>

fun run_row :: "tx \<Rightarrow> row_op \<Rightarrow> db \<Rightarrow> db" where
  "run_row x (Life op) db = (case run_life x op db of Inl _ \<Rightarrow> db | Inr db' \<Rightarrow> db')"
| "run_row x (HardDelete t d) db = (case delete_number t d db of Inl _ \<Rightarrow> db | Inr db' \<Rightarrow> db')"
| "run_row x (Replay opts ls) db = (case replay_ledger x opts ls db of (_, _, db') \<Rightarrow> db')"

fun rows_run :: "(tx \<times> row_op) list \<Rightarrow> db \<Rightarrow> db" where
  "rows_run [] db = db"
| "rows_run ((x, op) # ops) db = rows_run ops (run_row x op db)"

text \<open>The replay checks the thirty days of a deleted line and takes a purged line's date as it is. The lines the
  export writes are timely, since the rows are.\<close>

definition timely_line :: "line \<Rightarrow> bool" where
  "timely_line l \<longleftrightarrow> ln_type l \<in> {TypeDeleted, TypePurged} \<longrightarrow>
     date_of (ln_purge_after l) \<le> date_of (ln_deleted_at l) + thirty_days"

fun timely_op :: "row_op \<Rightarrow> bool" where
  "timely_op (Replay opts ls) = list_all (\<lambda>l. ln_type l = TypePurged \<longrightarrow> timely_line l) ls"
| "timely_op _ = True"

lemma purged_line_timely:
  assumes "number_row_ok v" "dv_deleted v = Some at" "line_of_event (purged_event x t v at) = Some l"
  shows "timely_line l"
  using assms
  by (auto simp: line_of_event_def ledgered_type_def purged_event_def item_event_def timely_line_def number_row_ok_def
      deletion_shape_def purge_date_def date_of_def split: option.splits)

section \<open>The fold's dates\<close>

definition timely_device :: "ledger_device \<Rightarrow> bool" where
  "timely_device d \<longleftrightarrow> ld_state d = StateLive \<or> ld_purge_after d \<le> ld_deleted_at d + thirty_days"

lemma fold_timely:
  assumes "fold_device i lines = Inr d" "list_all timely_line lines"
  shows "timely_device d"
proof -
  obtain w moved where w: "where_is lines = Inr (w, moved)"
    using assms by (auto simp: fold_device_def split: sum.splits)
  show ?thesis
  proof (cases "first_purge lines None")
    case (Some p)
    have "p \<in> set lines" "ln_type p = TypePurged" using first_purge_some(1) [OF Some] by simp_all
    with assms w Some show ?thesis
      by (auto simp: fold_device_def live_device_def timely_device_def list_all_iff timely_line_def)
  next
    case None
    obtain rv op where sp: "split_deletions (recoveries lines) lines {} ([], []) = (rv, op)" by fastforce
    have "timely_line l" "ln_type l = TypeDeleted" if "l \<in> set op" for l
      using split_deletions_start(1,5) [OF sp] that assms(2) by (auto simp: list_all_iff)
    with assms(1) show ?thesis unfolding fold_device_open [OF w None sp]
      by (auto simp: timely_device_def timely_line_def live_device_def split: list.splits)
  qed
qed

lemma fold_ledger_timely:
  assumes "list_all timely_line ls" "d \<in> set (fst (fold_ledger ls))"
  shows "timely_device d"
proof -
  obtain i where "fold_device i (filter (\<lambda>l. ln_device l = i) ls) = Inr d"
    using assms(2) by (auto simp: fold_ledger_def Let_def split: sum.splits)
  then show ?thesis by (rule fold_timely) (use assms(1) in \<open>simp add: list_all_iff\<close>)
qed

lemma windows_timely:
  assumes "bad_window ls = []" "timely_op (Replay opts ls)"
  shows "list_all timely_line ls"
proof -
  have "timely_line l" if "l \<in> set ls" for l
    using assms that by (cases "ln_type l") (auto simp: bad_window_def filter_empty_conv list_all_iff timely_line_def)
  then show ?thesis by (simp add: list_all_iff)
qed

section \<open>A replay keeps the rows well-formed\<close>

definition timely_step :: "replay_step \<Rightarrow> bool" where
  "timely_step s \<longleftrightarrow> rp_reversal s = None \<longrightarrow>
     rp_only_moved s \<or> ld_purge_after (rp_device s) \<le> ld_deleted_at (rp_device s) + thirty_days"

lemma need_timely:
  assumes "timely_device d" "need_of leave d v = Need s"
  shows "timely_step s"
  using assms
  by (auto simp: need_of_def need_elsewhere_def need_live_def step_for_def timely_step_def timely_device_def
      split: if_splits option.splits device_state.splits)

lemma numbers_ok_replay_recover:
  assumes "numbers_ok db" "replay_recover x t s r db = Inr (c, db')"
  shows "numbers_ok db'"
proof -
  obtain db1 where w: "write_device True t (ld_id (rp_device s)) replay_recover_row db = Inr db1" "db_devices db' = db_devices db1"
    using assms(2)
    by (auto simp: replay_recover_def Let_def recovered_stranded_def drop_notices_def split: option.splits if_splits)
  have "numbers_ok db1"
    by (rule numbers_ok_update [OF w(1) assms(1)]) (simp_all add: replay_recover_row_def timely_row_def)
  with w(2) show ?thesis by (rule numbers_ok_same)
qed

lemma numbers_ok_replay_exclude:
  assumes "numbers_ok db" "replay_exclude x t s at p db = Inr db'" "p \<le> at + thirty_days"
  shows "numbers_ok db'"
proof (cases "dv_deleted (rp_row s) = Some at")
  case True
  then have w: "write_device True t (ld_id (rp_device s)) (purge_due_row (tx_clock x) p) db = Inr db'"
    using assms(2) by (simp add: replay_exclude_def Let_def)
  show ?thesis
    by (rule numbers_ok_update [OF w assms(1)])
      (auto simp: purge_due_row_def number_row_ok_alt timely_row_def split: option.splits)
next
  case False
  let ?d = "rp_device s"
  obtain js db1 where e: "end_listed (tx_now x) t js db = Inr db1"
    "write_device True t (ld_id ?d) (replay_exclude_row db (tx_clock x) ?d at p (restored_session db t s))
      (drop_notices t (ld_id ?d) ''sync_paused'' (delete_key_devices (\<lambda>(k, v). v = ld_id ?d) db1)) = Inr db'"
    using assms(2) False by (auto simp: replay_exclude_def Let_def)
  have "db_devices db1 = db_devices db" using end_listed_kept [OF e(1)] by (simp add: same_base_def)
  then have ok: "numbers_ok (drop_notices t (ld_id ?d) ''sync_paused'' (delete_key_devices (\<lambda>(k, v). v = ld_id ?d) db1))"
    by (intro numbers_ok_same [OF _ assms(1)]) (simp add: drop_notices_def delete_key_devices_def)
  show ?thesis
    by (rule numbers_ok_update [OF e(2) ok]) (use assms(3) in \<open>simp_all add: replay_exclude_row_def timely_row_def min_le_iff_disj\<close>)
qed

lemma replay_records_devices [simp]: "db_devices (replay_records x t s same db) = db_devices db"
  by (simp add: replay_records_def Let_def)

lemma numbers_ok_replay_step:
  assumes "numbers_ok db" "replay_step_tx x t s db = Inr (c, db')" "timely_step s"
  shows "numbers_ok db'"
proof (cases "rp_reversal s")
  case (Some r)
  with assms show ?thesis by (auto simp: replay_step_tx_def intro: numbers_ok_replay_recover)
next
  case None
  let ?at = "if rp_only_moved s then tx_clock x else ld_deleted_at (rp_device s)"
  let ?p = "if rp_only_moved s then tx_clock x + thirty_days else ld_purge_after (rp_device s)"
  obtain db1 where e: "replay_exclude x t s ?at ?p db = Inr db1" "db_devices db' = db_devices db1"
    using assms(2) None by (auto simp: replay_step_tx_def Let_def)
  have "?p \<le> ?at + thirty_days" using assms(3) None by (auto simp: timely_step_def)
  with numbers_ok_replay_exclude [OF assms(1) e(1)] e(2) show ?thesis by (blast intro: numbers_ok_same)
qed

lemma numbers_ok_replay_steps:
  "numbers_ok db \<Longrightarrow> replay_steps x t ss db = Inr (cs, db') \<Longrightarrow> list_all timely_step ss \<Longrightarrow> numbers_ok db'"
proof (induction ss arbitrary: db cs)
  case (Cons s ss)
  obtain c db1 cs' where "replay_step_tx x t s db = Inr (c, db1)" "replay_steps x t ss db1 = Inr (cs', db')"
    using Cons.prems(2) by auto
  with Cons show ?case by (auto intro: numbers_ok_replay_step)
qed simp

lemma numbers_ok_replay_workspaces:
  "numbers_ok db \<Longrightarrow> (\<And>t. list_all timely_step (of_tenant t)) \<Longrightarrow> replay_workspaces x dry of_tenant ts r db = (e, r', db')
    \<Longrightarrow> numbers_ok db'"
proof (induction ts arbitrary: r db)
  case (Cons t ts)
  have timely: "list_all timely_step (in_replay_order (of_tenant t))"
    using Cons.prems(2) by (auto simp: in_replay_order_def list_all_iff)
  show ?case
  proof (cases "replay_steps x t (in_replay_order (of_tenant t)) db")
    case (Inl f)
    with Cons show ?thesis by (auto simp: Let_def split: if_splits)
  next
    case (Inr b)
    then obtain cs db1 where b: "replay_steps x t (in_replay_order (of_tenant t)) db = Inr (cs, db1)" by (cases b) simp
    have "numbers_ok (if dry then db else db1)" using numbers_ok_replay_steps [OF Cons.prems(1) b timely] Cons.prems(1) by simp
    from Cons.IH [OF this Cons.prems(2)] Cons.prems(3) show ?thesis by (simp add: b Let_def)
  qed
qed simp

lemma numbers_ok_replay:
  assumes "numbers_ok db" "timely_op (Replay opts ls)" "replay_ledger x opts ls db = (e, r, db')"
  shows "numbers_ok db'"
proof (cases "db' = db")
  case False
  obtain ds problems where f: "fold_ledger ls = (ds, problems)" by fastforce
  let ?ss = "List.map_filter step_of (needs_of (ro_leave opts) db ds)"
  have "bad_window ls = []" using assms(3) False by (auto simp: replay_ledger_def f Let_def split: if_splits)
  then have "list_all timely_line ls" using assms(2) by (rule windows_timely)
  then have dev: "timely_device d" if "d \<in> set ds" for d using fold_ledger_timely [of ls d] that f by simp
  have "timely_step s" if s: "s \<in> set ?ss" for s
  proof -
    obtain n where n: "n \<in> set (needs_of (ro_leave opts) db ds)" "step_of n = Some s"
      using s by (auto simp: List.map_filter_def)
    obtain d v where "d \<in> set ds" "n = (d, need_of (ro_leave opts) d v)"
      using n(1) by (auto simp: needs_of_def List.map_filter_def)
    with n(2) need_timely [OF dev, of d "ro_leave opts" v s] show ?thesis by (cases "need_of (ro_leave opts) d v") auto
  qed
  then have steps: "list_all timely_step (steps_in ?ss t)" for t by (auto simp: steps_in_def list_all_iff)
  obtain q ts e2 r2 where "replay_workspaces x (ro_dry_run opts) (steps_in ?ss) ts q db = (e2, r2, db')"
    using assms(3) False by (auto simp: replay_ledger_def f Let_def split: if_splits prod.splits option.splits)
  from numbers_ok_replay_workspaces [OF assms(1) steps this] show ?thesis .
qed (use assms(1) in simp)

section \<open>Every operation keeps them\<close>

lemma run_row_ok:
  assumes "numbers_ok db" "timely_op op"
  shows "numbers_ok (run_row x op db)"
proof (cases op)
  case (Life l)
  then show ?thesis using life_step_ok [OF assms(1)] assms(1) by (auto split: sum.splits)
next
  case (HardDelete t d)
  then show ?thesis using assms(1) numbers_ok_delete [OF assms(1) refl] by (simp add: delete_number_def)
next
  case (Replay opts ls)
  obtain e r db' where "replay_ledger x opts ls db = (e, r, db')" by (meson prod_cases3)
  with numbers_ok_replay [OF assms(1)] assms(2) Replay show ?thesis by simp
qed

lemma rows_run_ok: "numbers_ok db \<Longrightarrow> \<forall>(x, op)\<in>set ops. timely_op op \<Longrightarrow> numbers_ok (rows_run ops db)"
  by (induction ops db rule: rows_run.induct) (auto intro: run_row_ok)

end
