(* ===== verification/Purge_Props.thy ===== *)
theory Purge_Props
  imports Life_Inv
begin

text \<open>
  A purge with enough budget ends, with nothing left of its number and everything of the others as it was.
\<close>

section \<open>Whose rows are whose\<close>

definition others_uids :: "uuid \<Rightarrow> db \<Rightarrow> uuid set" where
  "others_uids d db = me_uid ` set (filter (\<lambda>m. me_device m \<noteq> d) (db_messages db))"

definition others_entry :: "uuid \<Rightarrow> db \<Rightarrow> archive_entry \<Rightarrow> bool" where
  "others_entry d db e \<longleftrightarrow> ae_device e \<noteq> d \<and> (case ae_message e of None \<Rightarrow> True | Some u \<Rightarrow> u \<in> others_uids d db)"

text \<open>The database without a number: its rows left out, with what a purge also writes in rows that are not its own
  (the versions of keys and members, the events' and notices' labels, the objects of the bucket, the session store).\<close>

definition without :: "uuid \<Rightarrow> db \<Rightarrow> db" where
  "without d db = db\<lparr>db_devices := filter (\<lambda>v. dv_id v \<noteq> d) (db_devices db),
     db_messages := filter (\<lambda>m. me_device m \<noteq> d) (db_messages db), db_chats := filter (\<lambda>c. ct_device c \<noteq> d) (db_chats db),
     db_media := filter (\<lambda>f. md_message f \<in> others_uids d db) (db_media db), db_archive := filter (others_entry d db) (db_archive db),
     db_archive_keys := filter (\<lambda>k. ak_device k \<noteq> d) (db_archive_keys db), db_grants := filter (\<lambda>g. gr_device g \<noteq> d) (db_grants db),
     db_perms := filter (\<lambda>p. pm_device p \<noteq> d) (db_perms db), db_key_devices := filter (\<lambda>(k, v). v \<noteq> d) (db_key_devices db),
     db_prefs := filter (\<lambda>(w, u, v). v \<noteq> d) (db_prefs db), db_outbound := filter (\<lambda>r. ob_device r \<noteq> d) (db_outbound db),
     db_transfers := filter (\<lambda>(v, s, w). v \<noteq> d) (db_transfers db),
     db_keys := [], db_members := [], db_events := [], db_notices := [], db_objects := [], db_wa_sessions := [], db_wa_tokens := []\<rparr>"

definition nothing_of :: "uuid \<Rightarrow> db \<Rightarrow> bool" where
  "nothing_of d db \<longleftrightarrow> d \<notin> dv_id ` set (db_devices db) \<and> d \<notin> me_device ` set (db_messages db) \<and> d \<notin> ct_device ` set (db_chats db)
     \<and> d \<notin> ae_device ` set (db_archive db) \<and> d \<notin> ak_device ` set (db_archive_keys db) \<and> d \<notin> gr_device ` set (db_grants db)
     \<and> d \<notin> pm_device ` set (db_perms db) \<and> d \<notin> snd ` set (db_key_devices db) \<and> d \<notin> ob_device ` set (db_outbound db)
     \<and> d \<notin> (\<lambda>(w, u, v). v) ` set (db_prefs db) \<and> d \<notin> fst ` set (db_transfers db)
     \<and> (\<forall>f\<in>set (db_media db). \<exists>m\<in>set (db_messages db). me_uid m = md_message f \<and> me_device m \<noteq> d)"

text \<open>The workspace's events and notices about the number no longer say its name, and only the notices of the
  deletion itself are left.\<close>

definition unnamed :: "uuid \<Rightarrow> uuid \<Rightarrow> db \<Rightarrow> bool" where
  "unnamed t d db \<longleftrightarrow> (\<forall>e\<in>set (db_events db). ev_tenant e = t \<and> ev_item e = d \<longrightarrow> ev_label e = None \<and> ev_hint e = None)
     \<and> (\<forall>n\<in>set (db_notices db). nt_tenant n = t \<and> nt_device n = d \<longrightarrow>
          nt_kind n = ''number_deleted'' \<and> nt_label n = None \<and> nt_hint n = None)"

text \<open>How much a purge has to do: each row, and each object a message lets go.\<close>

definition purge_work :: "uuid \<Rightarrow> db \<Rightarrow> nat" where
  "purge_work d db = length (filter (\<lambda>m. me_device m = d) (db_messages db)) + length (filter (\<lambda>c. ct_device c = d) (db_chats db))
     + length (filter (\<lambda>e. ae_device e = d) (db_archive db)) + length (db_media db)"

text \<open>A message's id is its own, and every attachment is some message's.\<close>

definition uids_once :: "db \<Rightarrow> bool" where
  "uids_once db \<longleftrightarrow> distinct (map me_uid (db_messages db)) \<and> (\<forall>f\<in>set (db_media db). md_message f \<in> me_uid ` set (db_messages db))"

lemma others_same:
  assumes "db_messages db' = db_messages db"
  shows "others_uids d db' = others_uids d db" "others_entry d db' = others_entry d db"
proof -
  show u: "others_uids d db' = others_uids d db" by (simp add: others_uids_def assms)
  show "others_entry d db' = others_entry d db" unfolding others_entry_def [abs_def] u ..
qed

lemmas without_parts = without_def others_same [of "db\<lparr>db_chats := x\<rparr>" db for db x] others_same [of "db\<lparr>db_archive := x\<rparr>" db for db x]
  others_same [of "db\<lparr>db_objects := x\<rparr>" db for db x]

section \<open>A batch\<close>

lemma length_map_filter: "length (List.map_filter f xs) \<le> length xs"
  by (induction xs) (auto simp: List.map_filter_simps split: option.splits)

lemma drop_first_within:
  "(\<And>x. P x \<Longrightarrow> Q x) \<Longrightarrow> length (filter Q (drop_first n P xs)) + length (take_first n P xs) \<le> length (filter Q xs)"
  by (induction n P xs rule: drop_first.induct) auto

lemma drop_first_rest: "filter (\<lambda>x. \<not> P x) (drop_first n P xs) = filter (\<lambda>x. \<not> P x) xs"
  by (induction n P xs rule: drop_first.induct) auto

lemma drop_first_length: "length (filter P (drop_first n P xs)) + length (take_first n P xs) = length (filter P xs)"
  by (induction n P xs rule: drop_first.induct) auto

lemma drop_first_kept: "(\<And>x. Q x \<Longrightarrow> \<not> P x) \<Longrightarrow> filter Q (drop_first n P xs) = filter Q xs"
  by (induction n P xs rule: drop_first.induct) auto

lemma drop_first_less: "length (filter Q (drop_first n P xs)) \<le> length (filter Q xs)"
  by (induction n P xs rule: drop_first.induct) (auto simp: le_SucI)

lemma take_first_take: "take_first n P xs = take n (filter P xs)"
proof (induction n P xs rule: take_first.induct)
  case (2 n P x xs)
  then show ?case by (cases n) auto
qed simp

lemma uid_device:
  assumes "uids_once db" "m \<in> set (db_messages db)" "k \<in> set (db_messages db)" "me_uid m = me_uid k"
  shows "m = k"
  using assms by (auto simp: uids_once_def distinct_map inj_on_def)

lemma filter_covered: "(\<And>x. Q x \<Longrightarrow> R x) \<Longrightarrow> filter Q (filter R xs) = filter Q xs"
  by (induction xs) auto

text \<open>Messages of the number go, and no other's.\<close>

lemma messages_gone:
  assumes "uids_once db" "set gone \<subseteq> me_uid ` {m \<in> set (db_messages db). me_device m = d}" "\<And>m. m \<in> set (db_messages db) \<Longrightarrow> P m \<longleftrightarrow> me_uid m \<in> set gone"
  shows "without d (delete_messages P db) = without d db" "uids_once (delete_messages P db)"
proof -
  let ?gone = "map me_uid (filter P (db_messages db))"
  have theirs: "me_device m = d" if "m \<in> set (db_messages db)" "P m" for m
  proof -
    have "me_uid m \<in> set gone" using that assms(3) by blast
    then obtain k where k: "k \<in> set (db_messages db)" "me_device k = d" "me_uid k = me_uid m" using assms(2) by auto
    then have "k = m" using uid_device [OF assms(1)] that(1) by blast
    with k show ?thesis by simp
  qed
  then have ms: "filter (\<lambda>m. me_device m \<noteq> d) (filter (\<lambda>m. \<not> P m) (db_messages db)) = filter (\<lambda>m. me_device m \<noteq> d) (db_messages db)"
    by (auto intro!: filter_cong)
  then have uids: "others_uids d (delete_messages P db) = others_uids d db"
    by (simp add: others_uids_def delete_messages_def Let_def del: filter_filter)
  have apart: "u \<notin> set ?gone" if "u \<in> others_uids d db" for u
    using that theirs uid_device [OF assms(1)] by (auto simp: others_uids_def)
  have "filter (\<lambda>f. md_message f \<in> others_uids d db) (filter (\<lambda>f. md_message f \<notin> set ?gone) (db_media db))
      = filter (\<lambda>f. md_message f \<in> others_uids d db) (db_media db)"
    using apart by (auto intro!: filter_cong)
  moreover have "filter (others_entry d db) (filter (\<lambda>e. case ae_message e of None \<Rightarrow> True | Some u \<Rightarrow> u \<notin> set ?gone) (db_archive db))
      = filter (others_entry d db) (db_archive db)"
  proof (rule filter_covered)
    show "case ae_message e of None \<Rightarrow> True | Some u \<Rightarrow> u \<notin> set ?gone" if "others_entry d db e" for e
      using that apart by (cases "ae_message e") (simp_all add: others_entry_def)
  qed
  moreover have "others_entry d (delete_messages P db) = others_entry d db" unfolding others_entry_def [abs_def] uids ..
  ultimately show "without d (delete_messages P db) = without d db"
    using ms uids by (simp add: without_def delete_messages_def Let_def del: filter_filter)
  show "uids_once (delete_messages P db)"
    using assms(1) by (auto simp: uids_once_def delete_messages_def Let_def distinct_map_filter image_iff)
qed

lemma length_filter_shrinks: "length (filter P (filter Q xs)) \<le> length (filter P xs)"
  by (induction xs) (auto simp: le_SucI)

text \<open>What a batch takes: its rows, and at least an attachment for each object it names.\<close>

lemma purge_messages_step:
  assumes "purge_messages t d n db = (rows, keys, db')" "uids_once db"
  shows "without d db' = without d db" "uids_once db'" "purge_work d db' + rows + length keys \<le> purge_work d db"
    "db_devices db' = db_devices db"
proof -
  let ?ms = "filter (\<lambda>m. me_device m = d) (db_messages db)"
  let ?gone = "map me_uid (take n ?ms)"
  let ?F = "filter (\<lambda>f. md_tenant f = t \<and> md_message f \<in> set ?gone) (db_media db)"
  have p: "rows = length ?gone" "keys = remdups (List.map_filter md_object ?F)" "db' = delete_messages (\<lambda>m. me_uid m \<in> set ?gone) db"
    using assms(1) by (simp_all add: purge_messages_def Let_def take_first_take)
  have sub: "set ?gone \<subseteq> me_uid ` {m \<in> set (db_messages db). me_device m = d}" by (auto dest: in_set_takeD)
  show "without d db' = without d db" "uids_once db'"
    unfolding p(3) by (rule messages_gone [OF assms(2) sub refl])+
  show "db_devices db' = db_devices db" by (simp add: p(3) delete_messages_def Let_def)
  have dead: "set (map me_uid (filter (\<lambda>m. me_uid m \<in> set ?gone) (db_messages db))) = set ?gone"
    using set_take_subset [of n ?ms] by (auto simp: image_iff)
  have "filter (\<lambda>m. me_uid m \<notin> set ?gone) (take n ?ms) = []" by (simp add: filter_empty_conv)
  then have "filter (\<lambda>m. me_uid m \<notin> set ?gone) ?ms = filter (\<lambda>m. me_uid m \<notin> set ?gone) (drop n ?ms)"
    by (metis append_Nil append_take_drop_id filter_append)
  then have "length (filter (\<lambda>m. me_uid m \<notin> set ?gone) ?ms) \<le> length (drop n ?ms)" by (metis length_filter_le)
  moreover have "length ?ms = length ?gone + length (drop n ?ms)" by simp
  ultimately have 1: "length (filter (\<lambda>m. me_uid m \<notin> set ?gone) ?ms) + length ?gone \<le> length ?ms" by linarith
  have "length keys \<le> length (List.map_filter md_object ?F)" unfolding p(2) by simp
  also have "\<dots> \<le> length ?F" by (rule length_map_filter)
  also have "length ?F \<le> length (filter (\<lambda>f. md_message f \<in> set ?gone) (db_media db))"
    by (rule length_filter_mono) blast
  finally have 2: "length keys + length (filter (\<lambda>f. md_message f \<notin> set ?gone) (db_media db)) \<le> length (db_media db)"
    using sum_length_filter_compl [of "\<lambda>f. md_message f \<in> set ?gone" "db_media db"] by linarith
  have 3: "length (filter (\<lambda>e. ae_device e = d) (db_archive db')) \<le> length (filter (\<lambda>e. ae_device e = d) (db_archive db))"
    unfolding p(3) delete_messages_def Let_def by (simp del: filter_filter add: length_filter_shrinks)
  have "db_media db' = filter (\<lambda>f. md_message f \<notin> set ?gone) (db_media db)" "db_chats db' = db_chats db"
    "filter (\<lambda>m. me_device m = d) (db_messages db') = filter (\<lambda>m. me_uid m \<notin> set ?gone) ?ms"
    unfolding p(3) delete_messages_def Let_def using dead by (simp_all add: conj_commute)
  with 1 2 3 show "purge_work d db' + rows + length keys \<le> purge_work d db" by (simp add: purge_work_def p(1))
qed

lemma purge_table_step:
  assumes "purge_table t d n table db = (rows, keys, db')" "uids_once db"
  shows "without d db' = without d db" "uids_once db'" "purge_work d db' + rows + length keys \<le> purge_work d db"
    "db_devices db' = db_devices db"
proof -
  consider "table = ''messages''" | "table = ''chats''" | "table \<noteq> ''messages''" "table \<noteq> ''chats''" by blast
  then have "without d db' = without d db \<and> uids_once db' \<and> purge_work d db' + rows + length keys \<le> purge_work d db
      \<and> db_devices db' = db_devices db"
  proof cases
    case 1
    then have "purge_messages t d n db = (rows, keys, db')" using assms(1) by (simp add: purge_table_def)
    from purge_messages_step [OF this assms(2)] show ?thesis by simp
  next
    case 2
    then have p: "rows = length (take_first n (\<lambda>c. ct_device c = d) (db_chats db))" "keys = []"
      "db' = db\<lparr>db_chats := drop_first n (\<lambda>c. ct_device c = d) (db_chats db)\<rparr>"
      using assms(1) by (simp_all add: purge_table_def)
    have "without d db' = without d db"
      by (simp add: p(3) without_parts drop_first_rest)
    then show ?thesis
      using assms(2) drop_first_length [of "\<lambda>c. ct_device c = d" n "db_chats db"] by (simp add: p uids_once_def purge_work_def)
  next
    case 3
    let ?P = "\<lambda>e. ae_table e = table \<and> ae_device e = d"
    have p: "rows = length (take_first n ?P (db_archive db))" "keys = []"
      "db' = db\<lparr>db_archive := drop_first n ?P (db_archive db)\<rparr>"
      using assms(1) 3 by (simp_all add: purge_table_def Let_def)
    have "filter (others_entry d db) (drop_first n ?P (db_archive db)) = filter (others_entry d db) (db_archive db)"
      by (rule drop_first_kept) (simp add: others_entry_def)
    then have "without d db' = without d db"
      by (simp add: p(3) without_parts)
    moreover have "length (filter (\<lambda>e. ae_device e = d) (drop_first n ?P (db_archive db))) + length (take_first n ?P (db_archive db))
        \<le> length (filter (\<lambda>e. ae_device e = d) (db_archive db))" by (rule drop_first_within) simp
    ultimately show ?thesis using assms(2) by (simp add: p uids_once_def purge_work_def)
  qed
  then show "without d db' = without d db" "uids_once db'" "purge_work d db' + rows + length keys \<le> purge_work d db"
    "db_devices db' = db_devices db" by blast+
qed

lemma purge_first_step:
  "purge_first t d n tables db = Some (table, rows, keys, db') \<Longrightarrow> 0 < rows \<and> purge_table t d n table db = (rows, keys, db')"
  by (induction t d n tables db rule: purge_first.induct) (auto split: prod.splits if_splits)

lemma purging_same: "db_devices db' = db_devices db \<Longrightarrow> purging db' t d = purging db t d"
  by (simp add: purging_def deleted_of_def device_of_def)

lemma purge_batch_step:
  assumes "purge_batch t d n db = Batch table rows keys db'" "uids_once db"
  shows "without d db' = without d db" "uids_once db'" "purge_work d db' + length keys < purge_work d db"
    "purging db' t d = purging db t d"
proof -
  have "0 < rows \<and> purge_table t d n table db = (rows, keys, db')"
    using assms(1) by (auto simp: purge_batch_def split: if_splits option.splits dest: purge_first_step)
  then have rows: "0 < rows" "purge_table t d n table db = (rows, keys, db')" by blast+
  note p = purge_table_step [OF rows(2) assms(2)]
  show "without d db' = without d db" "uids_once db'" "purging db' t d = purging db t d" using p purging_same by blast+
  show "purge_work d db' + length keys < purge_work d db" using p(3) rows(1) by linarith
qed

section \<open>The objects\<close>

lemma without_objects [simp]: "without d (db\<lparr>db_objects := os\<rparr>) = without d db" "uids_once (db\<lparr>db_objects := os\<rparr>) = uids_once db"
  "purge_work d (db\<lparr>db_objects := os\<rparr>) = purge_work d db" "purging (db\<lparr>db_objects := os\<rparr>) t e = purging db t e"
  by (simp_all add: without_parts uids_once_def purge_work_def purging_def
      deleted_of_def device_of_def)

lemma breaker_objects: "\<exists>out b' os. breaker_delete bucket t k (b, db) = (out, b', db\<lparr>db_objects := os\<rparr>)"
proof -
  have same: "db = db\<lparr>db_objects := db_objects db\<rparr>" by simp
  show ?thesis
  proof (cases "br_tripped b \<or> delete_object bucket t k db = None")
    case True
    then have "\<exists>out b'. breaker_delete bucket t k (b, db) = (out, b', db)" by (auto simp: breaker_delete_def)
    then show ?thesis using same by metis
  next
    case False
    then obtain db' where d: "delete_object bucket t k db = Some db'" by auto
    then have "db' = db \<or> db' = db\<lparr>db_objects := filter (\<lambda>e. e \<noteq> (t, k)) (db_objects db)\<rparr>"
      by (auto simp: delete_object_def split: if_splits)
    then have "\<exists>os. db' = db\<lparr>db_objects := os\<rparr>" using same by metis
    then obtain os where os: "db' = db\<lparr>db_objects := os\<rparr>" by blast
    then have "\<exists>out b'. breaker_delete bucket t k (b, db) = (out, b', db\<lparr>db_objects := os\<rparr>)"
      using False d by (simp add: breaker_delete_def)
    then show ?thesis by blast
  qed
qed

lemma delete_each_alive:
  "length ks \<le> pg_budget s \<Longrightarrow> \<exists>s' os. delete_each bucket t ks s = (True, s') \<and> pg_budget s' + length ks = pg_budget s
     \<and> pg_db s' = (pg_db s)\<lparr>db_objects := os\<rparr>"
proof (induction ks arbitrary: s)
  case Nil
  show ?case by (rule exI [of _ s], rule exI [of _ "db_objects (pg_db s)"]) simp
next
  case (Cons k ks)
  obtain m where m: "pg_budget s = Suc m" using Cons.prems by (cases "pg_budget s") auto
  obtain out b os where b: "breaker_delete bucket t k (pg_breaker s, pg_db s) = (out, b, (pg_db s)\<lparr>db_objects := os\<rparr>)"
    using breaker_objects by blast
  let ?s = "s\<lparr>pg_db := (pg_db s)\<lparr>db_objects := os\<rparr>, pg_breaker := b, pg_budget := m, pg_result := count_object out (pg_result s)\<rparr>"
  obtain s' os' where "delete_each bucket t ks ?s = (True, s')" "pg_budget s' + length ks = m"
    "pg_db s' = (pg_db s)\<lparr>db_objects := os'\<rparr>"
    using Cons.IH [of ?s] Cons.prems m by auto
  then show ?case using m b by (auto intro: exI [of _ os'])
qed

lemma released_alive:
  assumes "length keys \<le> pg_budget s"
  shows "\<exists>s' os. delete_released objects t keys s = (True, s') \<and> pg_budget s \<le> pg_budget s' + length keys
     \<and> pg_db s' = (pg_db s)\<lparr>db_objects := os\<rparr>"
proof -
  have same: "pg_db s = (pg_db s)\<lparr>db_objects := db_objects (pg_db s)\<rparr>" by simp
  show ?thesis
  proof (cases "keys = [] \<or> objects = None")
    case True
    then have "delete_released objects t keys s = (True, snd (delete_released objects t keys s)) \<and> pg_budget s \<le> pg_budget (snd (delete_released objects t keys s)) + length keys
        \<and> pg_db (snd (delete_released objects t keys s)) = pg_db s" by (auto simp: delete_released_def)
    then show ?thesis using same by metis
  next
    case False
    then obtain bucket where o: "objects = Some bucket" by auto
    let ?ks = "unreferenced t keys (pg_db s)"
    have few: "length ?ks \<le> length keys" by (simp add: unreferenced_def)
    with assms have le: "length ?ks \<le> pg_budget s" by linarith
    obtain s' os where "delete_each bucket t ?ks s = (True, s')" "pg_budget s' + length ?ks = pg_budget s"
      "pg_db s' = (pg_db s)\<lparr>db_objects := os\<rparr>" using delete_each_alive [OF le, of bucket t] by blast
    then show ?thesis using False o few by (auto simp: delete_released_def)
  qed
qed

section \<open>The batches, to the last\<close>

lemma purge_batches_finish:
  assumes "uids_once (pg_db s)" "purging (pg_db s) t d = Some va" "purge_work d (pg_db s) < pg_budget s"
  shows "\<exists>s'. purge_batches objects t d n s = (PurgeEmptied, s') \<and> without d (pg_db s') = without d (pg_db s)
    \<and> uids_once (pg_db s') \<and> purging (pg_db s') t d = Some va"
  using assms
proof (induction "pg_budget s" arbitrary: s rule: less_induct)
  case less
  obtain k where k: "pg_budget s = Suc k" using less.prems(3) by (cases "pg_budget s") auto
  show ?case
  proof (cases "purge_batch t d n (pg_db s)")
    case BatchGone
    then show ?thesis using less.prems(2) by (simp add: purge_batch_def split: option.splits prod.splits)
  next
    case BatchNone
    then show ?thesis using less.prems k by (simp add: purge_batches.simps [of objects t d n s])
  next
    case (Batch table rows keys db)
    note b = purge_batch_step [OF Batch less.prems(1)]
    let ?s = "s\<lparr>pg_budget := k, pg_db := db, pg_result := (pg_result s)\<lparr>pr_batches := pr_batches (pg_result s) + 1,
        pr_rows := pr_rows (pg_result s) + rows\<rparr>\<rparr>"
    have room: "length keys \<le> pg_budget ?s" using b(3) less.prems(3) k by simp
    obtain s1 os where s1: "delete_released objects t keys ?s = (True, s1)" "k \<le> pg_budget s1 + length keys"
      "pg_db s1 = db\<lparr>db_objects := os\<rparr>" using released_alive [OF room, of objects t] by auto
    have go: "purge_batches objects t d n s = purge_batches objects t d n s1"
      using k Batch s1(1) by (simp add: purge_batches.simps [of objects t d n s])
    have less_budget: "pg_budget s1 < pg_budget s" using delete_released_budget [OF s1(1)] k by simp
    have "purge_work d (pg_db s1) < pg_budget s1" using b(3) less.prems(3) k s1(2) by (simp add: s1(3))
    from less.hyps [OF less_budget _ _ this] show ?thesis using b(1,2,4) less.prems(2) go by (simp add: s1(3))
  qed
qed

section \<open>The start and the end\<close>

lemma write_rest:
  assumes "write_device True t d f db = Inr db'" "\<And>v. dv_id (f v) = dv_id v"
  shows "without d db' = without d db" "uids_once db' = uids_once db" "purge_work d db' = purge_work d db"
  using assms(1)
proof -
  obtain v where w: "device_of True db t d = Some v"
    "db' = db\<lparr>db_devices := map (\<lambda>r. if dv_id r = d then pause_trigger (f v) else r) (db_devices db)\<rparr>"
    using assms(1) by (cases rule: write_device_cases) blast
  have id: "dv_id (f v) = d" using device_of_in [OF w(1)] assms(2) by simp
  have "filter (\<lambda>v. dv_id v \<noteq> d) (map (\<lambda>r. if dv_id r = d then pause_trigger (f v) else r) rs) = filter (\<lambda>v. dv_id v \<noteq> d) rs" for rs
    by (induction rs) (simp_all add: id)
  moreover have "others_uids d db' = others_uids d db" "others_entry d db' = others_entry d db" by (rule others_same; simp add: w(2))+
  ultimately show "without d db' = without d db" by (simp add: without_def w(2))
  show "uids_once db' = uids_once db" "purge_work d db' = purge_work d db" by (simp_all add: w(2) uids_once_def purge_work_def)
qed

lemma leftover_rest:
  "without d (snd (remove_leftover v db)) = without d db" "uids_once (snd (remove_leftover v db)) = uids_once db"
  "purge_work d (snd (remove_leftover v db)) = purge_work d db" "db_devices (snd (remove_leftover v db)) = db_devices db"
proof -
  obtain ws ts where r: "snd (remove_leftover v db) = db\<lparr>db_wa_sessions := ws, db_wa_tokens := ts\<rparr>"
  proof (cases "dv_leftover v")
    case None
    then show thesis using that [where ws = "db_wa_sessions db" and ts = "db_wa_tokens db"] by (simp add: remove_leftover_def)
  next
    case (Some l)
    then have "\<exists>ws ts. snd (remove_leftover v db) = db\<lparr>db_wa_sessions := ws, db_wa_tokens := ts\<rparr>"
    proof (cases "(lo_jid l, lo_reg l) \<in> set (db_wa_sessions db)")
      case True
      have toks: "delete_privacy_tokens j b = b\<lparr>db_wa_tokens := db_wa_tokens (delete_privacy_tokens j b)\<rparr>" for j b
        by (simp add: delete_privacy_tokens_def)
      let ?b = "db\<lparr>db_wa_sessions := filter (\<lambda>w. w \<noteq> (lo_jid l, lo_reg l)) (db_wa_sessions db)\<rparr>"
      have "snd (remove_leftover v db) = delete_privacy_tokens (lo_jid l) ?b"
        using Some True by (simp add: remove_leftover_def remove_session_def)
      then show ?thesis using toks [of "lo_jid l" ?b] by metis
    next
      case False
      then show ?thesis using Some
        by (intro exI [of _ "db_wa_sessions db"] exI [of _ "db_wa_tokens db"]) (simp add: remove_leftover_def remove_session_def)
    qed
    then show thesis using that by blast
  qed
  have "others_uids d (snd (remove_leftover v db)) = others_uids d db" "others_entry d (snd (remove_leftover v db)) = others_entry d db"
    by (rule others_same; simp add: r)+
  then show "without d (snd (remove_leftover v db)) = without d db" by (simp add: without_def r)
  show "uids_once (snd (remove_leftover v db)) = uids_once db" "purge_work d (snd (remove_leftover v db)) = purge_work d db"
    "db_devices (snd (remove_leftover v db)) = db_devices db" by (simp_all add: r uids_once_def purge_work_def)
qed

text \<open>A purge that is due starts: the row it writes passes the table's checks.\<close>

lemma start_write:
  assumes "numbers_ok db" "deleted_of db t d = Some (v, at)"
  obtains db1 where "write_device True t d (start_row clock now) db = Inr db1"
    "purging db1 t d = Some (pause_trigger (start_row clock now v), at)"
proof -
  let ?w = "pause_trigger (start_row clock now v)"
  have v: "device_of True db t d = Some v" "dv_deleted v = Some at" using assms(2) by (simp_all add: deleted_of_Some)
  have in_db: "v \<in> set (db_devices db)" "dv_id v = d" "sees_device True t v" using device_of_in [OF v(1)] by auto
  have "number_row_ok v" using assms(1) in_db(1) by (simp add: numbers_ok_def list_all_iff)
  then have shape: "deletion_shape ?w" "pause_shape ?w"
    using v(2) by (auto simp: number_row_ok_def deletion_shape_def pause_shape_def pause_trigger_def start_row_def)
  have sees: "sees_device True t ?w" using in_db(3) by (simp add: sees_device_def start_row_def)
  have "\<not> same_identity ?w r" for r using v(2) by (simp add: same_identity_def start_row_def)
  then have clear: "\<not> list_ex (same_identity ?w) (db_devices db)" by (simp add: list_ex_iff)
  let ?db1 = "db\<lparr>db_devices := map (\<lambda>r. if dv_id r = d then ?w else r) (db_devices db)\<rparr>"
  have id: "dv_id ?w = d" using in_db(2) by (simp add: start_row_def)
  have "device_of True ?db1 t d = Some ?w" by (rule device_of_updated [OF v(1) id sees])
  moreover have "dv_deleted ?w = Some at" "dv_purge_started ?w \<noteq> None" using v(2) by (simp_all add: start_row_def split: option.splits)
  ultimately have "purging ?db1 t d = Some (?w, at)" by (simp add: purging_def deleted_of_def)
  moreover have "write_device True t d (start_row clock now) db = Inr ?db1"
    using v(1) shape sees clear by (simp add: write_device_def Let_def)
  ultimately show thesis by (rule that [rotated])
qed

lemma unnamed_end: "unnamed t d (record_event (purged_event x t v at) (scrub_former t d (scrub_events t d (close_notices c t d db))))"
proof -
  have one: "unnamed t d (scrub_notices w d k (scrub_events w d b))" if u: "unnamed t d b" for w k b
  proof -
    define f where "f e = (if ev_tenant e = w \<and> ev_item e = d then e\<lparr>ev_label := None, ev_hint := None\<rparr> else e)" for e :: event_row
    define g where "g n = (if nt_tenant n = w \<and> nt_device n = d \<and> nt_kind n = k then n\<lparr>nt_label := None, nt_hint := None\<rparr> else n)"
      for n :: notice_row
    have maps: "db_events (scrub_notices w d k (scrub_events w d b)) = map f (db_events b)"
      "db_notices (scrub_notices w d k (scrub_events w d b)) = map g (db_notices b)"
      by (simp_all add: scrub_notices_def scrub_events_def f_def [abs_def] g_def [abs_def])
    have fe: "ev_tenant (f e) = ev_tenant e" "ev_item (f e) = ev_item e" "ev_label e = None \<Longrightarrow> ev_label (f e) = None"
      "ev_hint e = None \<Longrightarrow> ev_hint (f e) = None" for e by (simp_all add: f_def)
    have gn: "nt_tenant (g n) = nt_tenant n" "nt_device (g n) = nt_device n" "nt_kind (g n) = nt_kind n"
      "nt_label n = None \<Longrightarrow> nt_label (g n) = None" "nt_hint n = None \<Longrightarrow> nt_hint (g n) = None" for n by (simp_all add: g_def)
    show ?thesis using u unfolding unnamed_def maps by (simp add: fe gn)
  qed
  have all: "unnamed t d b \<Longrightarrow> unnamed t d (fold (\<lambda>w b. scrub_notices w d k (scrub_events w d b)) ws b)" for ws b and k :: string
    by (induction ws arbitrary: b) (simp_all add: one)
  have ev: "ev_label e = None \<and> ev_hint e = None" if e: "e \<in> set (db_events (scrub_events t d b))" "ev_tenant e = t" "ev_item e = d" for e b
  proof -
    define f where "f e = (if ev_tenant e = t \<and> ev_item e = d then e\<lparr>ev_label := None, ev_hint := None\<rparr> else e)" for e :: event_row
    have fe: "ev_tenant (f e) = ev_tenant e" "ev_item (f e) = ev_item e" for e by (simp_all add: f_def)
    have "db_events (scrub_events t d b) = map f (db_events b)" by (simp add: scrub_events_def f_def [abs_def])
    with e(1) obtain k where k: "e = f k" by (simp only: set_map) blast
    then show ?thesis using e(2,3) unfolding k fe by (simp add: f_def)
  qed
  have kept: "db_notices (scrub_events t d b) = db_notices b" for b by (simp add: scrub_events_def)
  have nt: "nt_kind n = ''number_deleted'' \<and> nt_label n = None \<and> nt_hint n = None"
    if n: "n \<in> set (db_notices (close_notices c t d db))" "nt_tenant n = t" "nt_device n = d" for n
  proof -
    define h where "h m = (if nt_tenant m = t \<and> nt_device m = d then m\<lparr>nt_label := None, nt_hint := None, nt_purged := Some c\<rparr> else m)"
      for m :: notice_row
    have hm: "nt_tenant (h m) = nt_tenant m" "nt_device (h m) = nt_device m" "nt_kind (h m) = nt_kind m" for m by (simp_all add: h_def)
    have "db_notices (close_notices c t d db)
        = map h (filter (\<lambda>n. \<not> (nt_tenant n = t \<and> nt_device n = d \<and> nt_kind n \<noteq> ''number_deleted'')) (db_notices db))"
      by (simp add: close_notices_def h_def [abs_def])
    then have "n \<in> h ` {m. \<not> (nt_tenant m = t \<and> nt_device m = d \<and> nt_kind m \<noteq> ''number_deleted'')}"
      using n(1) by (simp only: set_map set_filter) blast
    then obtain m where m: "n = h m" "\<not> (nt_tenant m = t \<and> nt_device m = d \<and> nt_kind m \<noteq> ''number_deleted'')" by (elim imageE CollectE)
    have own: "nt_tenant m = t" "nt_device m = d" using n(2,3) unfolding m(1) hm .
    then have "nt_label (h m) = None" "nt_hint (h m) = None" by (simp_all add: h_def)
    with own m show ?thesis by (simp add: hm)
  qed
  have "unnamed t d (scrub_events t d (close_notices c t d db))"
    unfolding unnamed_def kept using nt ev by blast
  then have "unnamed t d (scrub_former t d (scrub_events t d (close_notices c t d db)))" unfolding scrub_former_def by (rule all)
  moreover have "unnamed t d b \<Longrightarrow> ev_label e = None \<Longrightarrow> ev_hint e = None \<Longrightarrow> unnamed t d (record_event e b)" for e b
    by (simp add: unnamed_def record_event_def)
  moreover have "ev_label (purged_event x t v at) = None" "ev_hint (purged_event x t v at) = None"
    by (simp_all add: purged_event_def item_event_def)
  ultimately show ?thesis by blast
qed

lemma scrub_former_only: "\<exists>es ns. scrub_former t d db = db\<lparr>db_events := es, db_notices := ns\<rparr>"
proof -
  have "\<exists>es ns. fold (\<lambda>w b. scrub_notices w d k (scrub_events w d b)) ws b = b\<lparr>db_events := es, db_notices := ns\<rparr>" for ws b and k :: string
  proof (induction ws arbitrary: b)
    case Nil
    show ?case by (rule exI [of _ "db_events b"], rule exI [of _ "db_notices b"]) simp
  next
    case (Cons w ws)
    obtain es ns where "fold (\<lambda>w b. scrub_notices w d k (scrub_events w d b)) ws (scrub_notices w d k (scrub_events w d b))
        = (scrub_notices w d k (scrub_events w d b))\<lparr>db_events := es, db_notices := ns\<rparr>" using Cons.IH by blast
    then have "fold (\<lambda>w b. scrub_notices w d k (scrub_events w d b)) (w # ws) b = b\<lparr>db_events := es, db_notices := ns\<rparr>"
      by (simp add: scrub_notices_def scrub_events_def)
    then show ?case by blast
  qed
  then show ?thesis unfolding scrub_former_def by blast
qed

text \<open>The row's deletion takes everything the foreign keys name.\<close>

lemma cascade_leaves:
  assumes "uids_once db"
  shows "nothing_of d (cascade_device d (db\<lparr>db_devices := filter (\<lambda>v. dv_id v \<noteq> d) (db_devices db)\<rparr>))"
    "without d (cascade_device d (db\<lparr>db_devices := filter (\<lambda>v. dv_id v \<noteq> d) (db_devices db)\<rparr>)) = without d db"
proof -
  let ?b = "db\<lparr>db_devices := filter (\<lambda>v. dv_id v \<noteq> d) (db_devices db)\<rparr>"
  let ?m = "delete_messages (\<lambda>m. me_device m = d) ?b"
  let ?gone = "map me_uid (filter (\<lambda>m. me_device m = d) (db_messages ?b))"
  have once: "uids_once ?b" using assms by (simp add: uids_once_def)
  have member: "me_device m = d \<longleftrightarrow> me_uid m \<in> set ?gone" if "m \<in> set (db_messages ?b)" for m
    using that uid_device [OF once] by auto
  have "set ?gone \<subseteq> me_uid ` {m \<in> set (db_messages ?b). me_device m = d}" by auto
  note m = messages_gone [OF once this member]
  have b: "without d ?b = without d db"
    using others_same [of ?b db d] by (simp add: without_def)
  let ?c = "cascade_device d ?b"
  have same: "db_messages ?c = db_messages ?m" "db_media ?c = db_media ?m"
    by (simp_all add: cascade_device_def Let_def delete_key_devices_def delete_perms_def delete_grants_def)
  have u: "others_uids d ?c = others_uids d ?m" "others_entry d ?c = others_entry d ?m" using others_same [OF same(1)] by blast+
  have parts: "filter (\<lambda>v. dv_id v \<noteq> d) (db_devices ?c) = filter (\<lambda>v. dv_id v \<noteq> d) (db_devices ?m)"
    "filter (\<lambda>c. ct_device c \<noteq> d) (db_chats ?c) = filter (\<lambda>c. ct_device c \<noteq> d) (db_chats ?m)"
    "db_archive ?c = filter (\<lambda>e. ae_device e \<noteq> d) (db_archive ?m)"
    by (simp_all add: cascade_device_def Let_def delete_key_devices_def delete_perms_def delete_grants_def)
  have entries: "filter (others_entry d ?m) (db_archive ?c) = filter (others_entry d ?m) (db_archive ?m)"
    unfolding parts(3) by (rule filter_covered) (simp add: others_entry_def)
  have "without d ?c = without d ?m"
    unfolding without_def u same parts(1,2) entries
    by (simp add: cascade_device_def Let_def delete_key_devices_def delete_perms_def delete_grants_def delete_messages_def
        case_prod_beta')
  then show "without d ?c = without d db" using m(1) b by simp
  have "\<exists>m\<in>set (db_messages ?c). me_uid m = md_message f \<and> me_device m \<noteq> d" if "f \<in> set (db_media ?c)" for f
  proof -
    have "md_message f \<in> me_uid ` set (db_messages ?m)" using m(2) that unfolding same uids_once_def by blast
    then obtain k where "k \<in> set (db_messages ?m)" "me_uid k = md_message f" by auto
    moreover from this(1) have "me_device k \<noteq> d" by (simp add: delete_messages_def Let_def)
    ultimately show ?thesis unfolding same by blast
  qed
  then show "nothing_of d ?c"
    by (auto simp: nothing_of_def cascade_device_def Let_def delete_key_devices_def delete_perms_def delete_grants_def delete_messages_def)
qed

lemma purge_end_leaves:
  assumes "uids_once db" "purging db t d = Some (v, at)"
  obtains db' where "purge_end x t d db = (True, db')" "nothing_of d db'" "without d db' = without d db" "unnamed t d db'"
proof -
  let ?s = "scrub_events t d (close_notices (tx_clock x) t d db)"
  obtain es ns where f: "scrub_former t d ?s = ?s\<lparr>db_events := es, db_notices := ns\<rparr>" using scrub_former_only by blast
  have rec: "record_event e b = b\<lparr>db_events := db_events (record_event e b)\<rparr>" for e b by (simp add: record_event_def)
  have f': "scrub_former t d ?s = db\<lparr>db_events := es, db_notices := ns\<rparr>" using f by (simp add: scrub_events_def close_notices_def)
  obtain es' ns' where r: "record_event (purged_event x t v at) (scrub_former t d ?s) = db\<lparr>db_events := es', db_notices := ns'\<rparr>"
  proof -
    let ?es = "db_events (record_event (purged_event x t v at) (db\<lparr>db_events := es, db_notices := ns\<rparr>))"
    have "record_event (purged_event x t v at) (scrub_former t d ?s) = (db\<lparr>db_events := es, db_notices := ns\<rparr>)\<lparr>db_events := ?es\<rparr>"
      unfolding f' by (rule rec)
    then show thesis using that [where es' = ?es and ns' = ns] by simp
  qed
  let ?r = "db\<lparr>db_events := es', db_notices := ns'\<rparr>"
  have "device_of True db t d = Some v" using assms(2) by (auto simp: purging_def deleted_of_Some split: option.splits if_splits prod.splits)
  then have "list_ex (\<lambda>v. dv_id v = d \<and> sees_device True t v) (db_devices ?r)" using device_of_in [of True db t d v] by (auto simp: list_ex_iff)
  then have e: "purge_end x t d db = (True, cascade_device d (?r\<lparr>db_devices := filter (\<lambda>v. dv_id v \<noteq> d) (db_devices ?r)\<rparr>))"
    using assms(2) r by (simp add: purge_end_def delete_device_def)
  have once: "uids_once ?r" using assms(1) by (simp add: uids_once_def)
  have "without d ?r = without d db" using others_same [of ?r db d] by (simp add: without_def)
  moreover have "db_notices (cascade_device d b) = db_notices b" for b
    by (simp add: cascade_device_def Let_def delete_key_devices_def delete_perms_def delete_grants_def delete_messages_def)
  then have "unnamed t d (cascade_device d (?r\<lparr>db_devices := filter (\<lambda>v. dv_id v \<noteq> d) (db_devices ?r)\<rparr>))"
    using unnamed_end [of t d x v at "tx_clock x" db] unfolding r by (simp add: unnamed_def)
  ultimately show thesis using that [OF e] cascade_leaves [OF once, of d] by simp
qed

lemma purge_finishes:
  assumes "numbers_ok db" "uids_once db" "deleted_of db t d = Some (v, at)" "purge_work d db < budget"
    and "if clock < purge_date v then now \<or> dv_purge_started v \<noteq> None else True"
  shows "\<exists>s. purge_device objects clock x t d now n True budget (b, db) = (PurgeRan PurgeEmptied, s)
    \<and> pr_done (pg_result s) \<and> pr_final (pg_result s) \<and> nothing_of d (pg_db s) \<and> unnamed t d (pg_db s)
    \<and> without d (pg_db s) = without d db"
proof -
  obtain db1 where w: "write_device True t d (start_row clock now) db = Inr db1"
    "purging db1 t d = Some (pause_trigger (start_row clock now v), at)" by (rule start_write [OF assms(1,3)])
  obtain gone db2 where l: "remove_leftover v db1 = (gone, db2)" by fastforce
  have start: "purge_start clock t d now True db = Inr (PurgeBegun \<lparr>pd_deleted = at, pd_purge = purge_date (start_row clock now v)\<rparr> gone, db2)"
    using assms(3,5) w(1) l by (auto simp: purge_start_def split: if_splits)
  have rest: "without d db1 = without d db" "uids_once db1" "purge_work d db1 = purge_work d db"
    using write_rest [OF w(1)] assms(2) by (simp_all add: start_row_def)
  have rest2: "without d db2 = without d db" "uids_once db2" "purge_work d db2 < budget" "purging db2 t d = purging db1 t d"
    using leftover_rest(1,3) [of d v db1] leftover_rest(2,4) [of v db1] rest assms(4) purging_same [of db2 db1] l by simp_all
  let ?s = "\<lparr>pg_db = db2, pg_breaker = b, pg_result = no_result\<lparr>pr_session := gone\<rparr>, pg_budget = budget\<rparr>"
  obtain s1 where s1: "purge_batches objects t d (batch_size n) ?s = (PurgeEmptied, s1)" "without d (pg_db s1) = without d db2"
    "uids_once (pg_db s1)" "purging (pg_db s1) t d = Some (pause_trigger (start_row clock now v), at)"
    using purge_batches_finish [of ?s t d "(pause_trigger (start_row clock now v), at)" objects "batch_size n"] rest2 w(2) by auto
  obtain db' where e: "purge_end x t d (pg_db s1) = (True, db')" "nothing_of d db'" "without d db' = without d (pg_db s1)"
    "unnamed t d db'" by (rule purge_end_leaves [OF s1(3,4)])
  show ?thesis using start s1(1,2) e rest2(1) by (simp add: purge_device_def Let_def)
qed

end
