(* ===== verification/Deletion_Claims.thy ===== *)
theory Deletion_Claims
  imports Deletion_Props Ledger_World Row_Ops Purge_Props Access_Claims
begin

text \<open>
  What holds of a number's deletion, recovery and purge, with witnesses on a sample workspace.
\<close>

section \<open>The rows\<close>

text \<open>C5: A number's row stays well-formed. Numbers are created and paired, renamed, paused and resumed, deleted,
  recovered and purged, deleted outright, and ledgers are replayed over the database, in any order, with the
  changes of access around them. After any such run a row's deletion date and its purge date are there together or
  not at all, the purge is due at most thirty days after the deletion, a deleted number is paused, and only a
  deleted number has a purge begun or a session left over. A paused number has a known cause and a number that
  runs has none. Two live numbers of a workspace never share a LID or a phone number. The thirty days rest on the
  purged lines of the ledgers replayed, whose date the replay takes as it is: they name a purge at most thirty days
  after the deletion, as every line an export writes does. Moves between workspaces and resets are not among
  the operations.\<close>

theorem rows_stay_well_formed:
  assumes "db_devices db = []" "\<forall>(x, op)\<in>set ops. timely_op op" "v \<in> set (db_devices (rows_run ops db))"
  shows "(case (dv_deleted v, dv_purge v) of (Some at, Some p) \<Rightarrow> p \<le> at + thirty_days \<and> dv_paused v
       | (None, None) \<Rightarrow> dv_purge_started v = None \<and> dv_leftover v = None | _ \<Rightarrow> False)
    \<and> (if dv_paused v then dv_cause v \<in> Some ` {''person'', ''move'', ''deletion''} else dv_cause v = None)
    \<and> (\<forall>w\<in>set (db_devices (rows_run ops db)). dv_id w \<noteq> dv_id v \<and> dv_tenant w = dv_tenant v
         \<and> dv_deleted w = None \<and> dv_deleted v = None \<longrightarrow>
         (dv_lid v \<noteq> [] \<longrightarrow> dv_lid w \<noteq> dv_lid v) \<and> (dv_pn v \<noteq> [] \<longrightarrow> dv_pn w \<noteq> dv_pn v))"
proof -
  have "numbers_ok db" using assms(1) by (simp add: numbers_ok_def)
  then have ok: "numbers_ok (rows_run ops db)" using assms(2) by (rule rows_run_ok)
  then have row: "number_row_ok v" using assms(3) by (simp add: numbers_ok_def list_all_iff)
  have "\<not> same_identity v w" if "w \<in> set (db_devices (rows_run ops db))" for w
    using ok assms(3) that by (simp add: numbers_ok_def)
  then have "\<forall>w\<in>set (db_devices (rows_run ops db)). dv_id w \<noteq> dv_id v \<and> dv_tenant w = dv_tenant v
      \<and> dv_deleted w = None \<and> dv_deleted v = None \<longrightarrow>
      (dv_lid v \<noteq> [] \<longrightarrow> dv_lid w \<noteq> dv_lid v) \<and> (dv_pn v \<noteq> [] \<longrightarrow> dv_pn w \<noteq> dv_pn v)"
    unfolding same_identity_def by metis
  moreover have "if dv_paused v then dv_cause v \<in> Some ` {''person'', ''move'', ''deletion''} else dv_cause v = None"
    using row by (cases "dv_cause v") (auto simp: number_row_ok_def pause_shape_def)
  moreover have "case (dv_deleted v, dv_purge v) of (Some at, Some p) \<Rightarrow> p \<le> at + thirty_days \<and> dv_paused v
       | (None, None) \<Rightarrow> dv_purge_started v = None \<and> dv_leftover v = None | _ \<Rightarrow> False"
    using row by (cases "dv_deleted v"; cases "dv_purge v") (auto simp: number_row_ok_def deletion_shape_def)
  ultimately show ?thesis by blast
qed

definition bare_sample :: db where
  "bare_sample = sample_db\<lparr>db_devices := []\<rparr>"

definition line_21 :: line where
  "line_21 = \<lparr>ln_v = 1, ln_event = 521, ln_type = TypeDeleted, ln_workspace = 1, ln_device = 21, ln_deleted_at = Some 101,
     ln_purge_after = Some (101 + thirty_days), ln_deleted_by = Some 10, ln_to = None, ln_occurred = 101\<rparr>"

text \<open>A number is created and paired, and a ledger that says it was deleted and purged is replayed over it.\<close>

definition replayed_run :: "(tx \<times> row_op) list" where
  "replayed_run = [(sample_tx, Life (CreateNumber 1 21 ''n'')), (sample_tx, Life (SetIdentity 1 21 ''l'' ''55'' '''')),
     (sample_tx, Replay \<lparr>ro_dry_run = False, ro_snapshot = 0, ro_adds_nothing = False, ro_leave = []\<rparr>
        [line_21, line_21\<lparr>ln_event := 522, ln_type := TypePurged, ln_deleted_by := None\<rparr>])]"

theorem rows_stay_well_formed_witness:
  "\<exists>v p. v \<in> set (db_devices (rows_run replayed_run bare_sample)) \<and> dv_deleted v = Some 101 \<and> dv_purge v = Some p
     \<and> p \<le> 101 + thirty_days"
proof -
  have "list_ex (\<lambda>v. dv_deleted v = Some 101 \<and> dv_purge v \<noteq> None) (db_devices (rows_run replayed_run bare_sample))"
    by code_simp
  then obtain v where v: "v \<in> set (db_devices (rows_run replayed_run bare_sample))" "dv_deleted v = Some 101" "dv_purge v \<noteq> None"
    by (auto simp: list_ex_iff)
  have bare: "db_devices bare_sample = []" by (simp add: bare_sample_def)
  have "\<forall>(x, op)\<in>set replayed_run. timely_op op"
    by (simp add: replayed_run_def line_21_def timely_line_def date_of_def)
  from rows_stay_well_formed [OF bare this v(1)] v show ?thesis by auto
qed

section \<open>Deleting and recovering\<close>

text \<open>C6: Only an active owner of an active workspace deletes a number, and only after acknowledging every other
  person who reads it now. The deletion takes the number off every key restricted to it, ends every live
  assistant connection whose key names it, and leaves its row paused and offline, to be purged in thirty days;
  the fingerprint of its WhatsApp session is in the same commit whenever it had one.\<close>

theorem deletion_asks_and_takes_everything:
  assumes "quarantine x t a d ack db = Inr (q, db')" "\<not> qu_already q" "keyed db"
  shows "tenant_active db t \<and> status_active db a \<and> (\<exists>m. member_of db t a = Some m \<and> mb_role m = ''owner'' \<and> mb_status m = ''active'')
    \<and> (\<forall>r\<in>set (readers (tx_now x) db t d). us_id r \<noteq> a \<longrightarrow> us_id r \<in> set ack)
    \<and> (\<forall>k. (k, d) \<notin> set (db_key_devices db'))
    \<and> (\<forall>c\<in>set (db_connections db). cn_tenant c = t \<and> (cn_key c, d) \<in> set (db_key_devices db) \<and> live_status (cn_status c) \<longrightarrow>
         (\<forall>c'\<in>set (db_connections db'). cn_id c' = cn_id c \<and> cn_tenant c' = t \<longrightarrow> \<not> live_status (cn_status c')))
    \<and> (\<exists>v w. device_of False db t d = Some v \<and> device_of True db' t d = Some w \<and> dv_deleted w = Some (tx_clock x)
         \<and> dv_purge w = Some (tx_clock x + thirty_days) \<and> dv_paused w \<and> dv_status w \<in> {''logged_out'', ''banned'', ''offline''}
         \<and> dv_leftover w = map_option (\<lambda>(jid, reg). \<lparr>lo_jid = jid, lo_reg = reg, lo_attempts = 0\<rparr>)
              (if dv_pn v = [] then None else find (\<lambda>(jid, reg). jid = dv_pn v) (db_wa_sessions db)))"
  using assms(1)
proof (cases rule: quarantine_cases)
  case (already v at)
  then show ?thesis using assms(2) by (simp add: already_excluded_def)
next
  case (excluded v)
  let ?w = "exclude_row (tx_clock x) a (session_of db v) v"
  have d: "device_of True db t (dv_id v) = Some v" "dv_id v = d" "distinct (map cn_id (db_connections db))" "distinct (map dv_id (db_devices db))"
    using excluded assms(3) by (simp_all add: keyed_def)
  note rest = exclude_rest [OF excluded(6) d(1,3)]
  have live: "device_of False db t d = Some v"
    using device_of_key [of db v False t] d(2,4) device_of_in [OF excluded(2)] excluded(3) by (simp add: sees_device_def)
  have t: "dv_tenant v = t" using device_of_in [OF excluded(2)] by (simp add: sees_device_def)
  have "device_of True db' t d = Some ?w"
    using device_of_updated [OF d(1), of ?w True] t d(2) exclude_devices [OF excluded(6) d(1)]
    by (simp add: device_of_def exclude_row_def sees_device_def)
  moreover have "dv_leftover ?w = map_option (\<lambda>(jid, reg). \<lparr>lo_jid = jid, lo_reg = reg, lo_attempts = 0\<rparr>)
      (if dv_pn v = [] then None else find (\<lambda>(jid, reg). jid = dv_pn v) (db_wa_sessions db))"
    by (simp add: exclude_row_def session_of_def fingerprint_def [abs_def] case_prod_beta')
  moreover have "dv_deleted ?w = Some (tx_clock x) \<and> dv_purge ?w = Some (tx_clock x + thirty_days) \<and> dv_paused ?w"
    by (simp add: exclude_row_def)
  moreover have "dv_status ?w \<in> {''logged_out'', ''banned'', ''offline''}" by (simp add: exclude_row_def dead_status_def)
  ultimately have row: "\<exists>v w. device_of False db t d = Some v \<and> device_of True db' t d = Some w \<and> dv_deleted w = Some (tx_clock x)
      \<and> dv_purge w = Some (tx_clock x + thirty_days) \<and> dv_paused w \<and> dv_status w \<in> {''logged_out'', ''banned'', ''offline''}
      \<and> dv_leftover w = map_option (\<lambda>(jid, reg). \<lparr>lo_jid = jid, lo_reg = reg, lo_attempts = 0\<rparr>)
           (if dv_pn v = [] then None else find (\<lambda>(jid, reg). jid = dv_pn v) (db_wa_sessions db))"
    using live by blast
  have "us_id r \<in> set ack" if "r \<in> set (readers (tx_now x) db t d)" "us_id r \<noteq> a" for r
    using excluded(5) that by (auto simp: other_readers_def)
  moreover have "\<forall>c'\<in>set (db_connections db'). cn_id c' = cn_id c \<and> cn_tenant c' = t \<longrightarrow> \<not> live_status (cn_status c')"
    if "c \<in> set (db_connections db)" "cn_tenant c = t" "(cn_key c, d) \<in> set (db_key_devices db)" "live_status (cn_status c)" for c
    using rest(2) that by (auto simp: assistants_of_def d(2) connection_over_def)
  ultimately show ?thesis
    using excluded(1) rest(1) row unfolding require_owner_Inr d(2) by blast
qed

definition deletes :: "(quarantined \<Rightarrow> db \<Rightarrow> bool) \<Rightarrow> bool" where
  "deletes P = (case quarantine sample_tx 1 10 20 [12] sample_db of Inl _ \<Rightarrow> False | Inr (q, db') \<Rightarrow> \<not> qu_already q \<and> P q db')"

lemma deletes_obtain:
  assumes "deletes P"
  obtains q db' where "quarantine sample_tx 1 10 20 [12] sample_db = Inr (q, db')" "\<not> qu_already q" "P q db'"
  using assms that by (auto simp: deletes_def split: sum.splits)

theorem deletion_asks_and_takes_everything_witness:
  "\<exists>q db'. quarantine sample_tx 1 10 20 [12] sample_db = Inr (q, db') \<and> (\<forall>k. (k, 20) \<notin> set (db_key_devices db'))
     \<and> (\<exists>r\<in>set (readers 100 sample_db 1 20). us_id r = 12)"
proof -
  have "deletes (\<lambda>q db'. True)" by code_simp
  then obtain q db' where q: "quarantine sample_tx 1 10 20 [12] sample_db = Inr (q, db')" "\<not> qu_already q" by (rule deletes_obtain)
  have "list_ex (\<lambda>r. us_id r = 12) (readers 100 sample_db 1 20)" by code_simp
  with deletion_asks_and_takes_everything [OF q sample_keyed] q(1) show ?thesis by (auto simp: list_ex_iff)
qed

text \<open>C7: A deleted number stays out of reach. Whatever operations of \<open>life_run\<close> follow, in any order and of anybody, until a
  recovery of that number: no person holds a permission on it or a copy of its key that counts, no API key
  reaches it, and no notice says that somebody reads it.\<close>

theorem deleted_number_stays_out_of_reach:
  assumes "quarantine x t a d ack db = Inr (q, db1)" "keyed db" "\<forall>(y, op)\<in>set ops. \<not> revives d op"
  shows "device_permission_tx now (life_run ops db1) w u d = Inl RowNotFound \<and> \<not> has_grant (life_run ops db1) w d u
    \<and> \<not> allows_device (life_run ops db1) k w d \<and> \<not> reads_live now (life_run ops db1) w d u"
proof -
  have "hidden d db1" by (rule quarantine_hides [OF assms(1)]) (use assms(2) in \<open>simp add: keyed_def\<close>)
  then have h: "hidden d (life_run ops db1)" using assms(3) by (rule hidden_run)
  show ?thesis using hidden_reads [OF h] by simp
qed

theorem deleted_number_stays_out_of_reach_witness:
  "\<exists>q db1. quarantine sample_tx 1 10 20 [12] sample_db = Inr (q, db1)
     \<and> device_permission_tx 100 (life_run [(sample_tx, RecordUnlink 1 20 101 True)] db1) 1 12 20 = Inl RowNotFound
     \<and> device_permission_tx 100 sample_db 1 12 20 \<noteq> Inl RowNotFound"
proof -
  have "deletes (\<lambda>q db'. True)" by code_simp
  then obtain q db1 where q: "quarantine sample_tx 1 10 20 [12] sample_db = Inr (q, db1)" by (rule deletes_obtain)
  have "device_permission_tx 100 sample_db 1 12 20 \<noteq> Inl RowNotFound" by code_simp
  with deleted_number_stays_out_of_reach [OF q sample_keyed, of "[(sample_tx, RecordUnlink 1 20 101 True)]"] q
  show ?thesis by simp
qed

text \<open>C8: A recovery undoes a deletion. Suppose logouts were recorded and WhatsApp sessions came and went meanwhile, the
  workspace was within its plan at the deletion, and the lock of the number's connection is free when the recovery
  runs. Then an owner's recovery inside the thirty days succeeds (without the lock it answers \<^verbatim>\<open>device_busy\<close>, in a
  workspace that is full \<^verbatim>\<open>capacity_reached\<close>), and gives the number back: its row as it was but paused for its owner and with the status the logout left, the same readers at every moment, the
  permissions, key copies and standing of every person, and its whole archive.\<close>

theorem recovery_undoes_the_deletion:
  assumes "quarantine x t a d ack db = Inr (q, db1)" "\<not> qu_already q" "numbers_ok db" "keyed db" "distinct (map us_id (db_users db))"
    and "\<forall>(z, op)\<in>set ops. logouts_only op" "case max_devices db t of None \<Rightarrow> True | Some n \<Rightarrow> device_usage False db t \<le> n"
    and "require_owner (life_run ops db1) t b = Inr ()" "tx_clock y < tx_clock x + thirty_days"
  shows "\<exists>r db2 v w. recover y t b d True (life_run ops db1) = Inr (r, db2) \<and> device_of False db t d = Some v
    \<and> device_of False db2 t d = Some w
    \<and> w = v\<lparr>dv_paused := True, dv_cause := Some ''person'', dv_deleted_by := None, dv_status := dv_status w, dv_reason := dv_reason w\<rparr>
    \<and> (\<forall>now. readers now db2 t d = readers now db t d) \<and> same_people db db2
    \<and> db_chats db2 = db_chats db \<and> db_messages db2 = db_messages db \<and> db_archive db2 = db_archive db
    \<and> db_archive_keys db2 = db_archive_keys db \<and> map md_object (db_media db2) = map md_object (db_media db)"
proof -
  have conns: "distinct (map cn_id (db_connections db))" using assms(4) by (simp add: keyed_def)
  obtain r db2 u where r: "recover y t b d True (life_run ops db1) = Inr (r, db2)" "device_of True (life_run ops db1) t d = Some u"
    "bring_back y t b u (tx_clock x) (life_run ops db1) = Inr (r, db2)"
    using recovery_possible [OF assms(1-3,6) conns assms(8,9,7)] by blast
  from recovery_effects [OF assms(1-3,6) conns assms(5) r(2,3)] r(1) show ?thesis by blast
qed

theorem recovery_undoes_the_deletion_witness:
  "\<exists>q db1 r db2. quarantine sample_tx 1 10 20 [12] sample_db = Inr (q, db1)
     \<and> recover (sample_tx\<lparr>tx_clock := 500\<rparr>) 1 10 20 True
         (life_run [(sample_tx, SessionLost ''55'' 7), (sample_tx, RecordUnlink 1 20 101 True)] db1) = Inr (r, db2)
     \<and> readers 100 db2 1 20 = readers 100 sample_db 1 20"
proof -
  let ?ops = "[(sample_tx, SessionLost ''55'' 7), (sample_tx, RecordUnlink 1 20 101 True)]"
  have "deletes (\<lambda>q db'. require_owner (life_run ?ops db') 1 10 = Inr ())" by code_simp
  then obtain q db1 where q: "quarantine sample_tx 1 10 20 [12] sample_db = Inr (q, db1)" "\<not> qu_already q"
    "require_owner (life_run ?ops db1) 1 10 = Inr ()" by (rule deletes_obtain)
  have ok: "numbers_ok sample_db" by code_simp
  have users: "distinct (map us_id (db_users sample_db))" by code_simp
  have fits: "case max_devices sample_db 1 of None \<Rightarrow> True | Some n \<Rightarrow> device_usage False sample_db 1 \<le> n" by code_simp
  have later: "tx_clock (sample_tx\<lparr>tx_clock := 500\<rparr>) < tx_clock sample_tx + thirty_days"
    by (simp add: sample_tx_def thirty_days_def)
  have "\<forall>(z, op)\<in>set ?ops. logouts_only op" by simp
  from recovery_undoes_the_deletion [OF q(1,2) ok sample_keyed users this fits q(3) later] q(1) show ?thesis by blast
qed

section \<open>A purge\<close>

text \<open>C9: A purge that may start and is given time ends with nothing left of its number. The number is deleted, its
  purge is due, was begun before or is asked for now, nobody holds the number's connection, and the context lives
  for more checks than the number has messages, chats and archive entries and the database attachments, together,
  whatever the size of a batch, whatever the bucket answers and however often the purge was cut before. The rows are
  well-formed, messages have ids of their own and every attachment is some message's, as the schema's keys demand.
  Then the purge reports itself done: no row, message, attachment, chat, archive entry, archive key, key copy, permission, key's list, preference, draft,
  send or record of a
  move is the number's any more, the workspace's events and notices about it name it no longer, and the rows of every
  other number are as they were.\<close>

theorem purge_leaves_nothing:
  assumes "numbers_ok db" "uids_once db" "deleted_of db t d = Some (v, at)" "purge_work d db < budget"
    and "if clock < purge_date v then now \<or> dv_purge_started v \<noteq> None else True"
  shows "\<exists>s. purge_device objects clock x t d now n True budget (b, db) = (PurgeRan PurgeEmptied, s)
    \<and> pr_done (pg_result s) \<and> pr_final (pg_result s) \<and> nothing_of d (pg_db s) \<and> unnamed t d (pg_db s)
    \<and> without d (pg_db s) = without d db"
  using assms by (rule purge_finishes)

definition purged_sample :: db where
  "purged_sample = sample_db\<lparr>db_devices := [(new_device 1 7 ''n'')\<lparr>dv_lid := ''l'', dv_connected := Some 5, dv_paused := True,
     dv_cause := Some ''deletion'', dv_deleted := Some 5, dv_purge := Some (5 + thirty_days)\<rparr>],
     db_chats := [\<lparr>ct_tenant = 1, ct_device = 7, ct_key = ''c'', ct_group = False, ct_pn = None\<rparr>], db_messages := [], db_media := []\<rparr>"

theorem purge_leaves_nothing_witness:
  "\<exists>s. purge_device None 50 sample_tx 1 7 True 1 True 40 (new_breaker 0, purged_sample) = (PurgeRan PurgeEmptied, s)
     \<and> nothing_of 7 (pg_db s) \<and> \<not> nothing_of 7 purged_sample"
proof -
  have ok: "numbers_ok purged_sample" by code_simp
  have once: "uids_once purged_sample" by (simp add: uids_once_def purged_sample_def)
  have work: "purge_work 7 purged_sample < 40" by code_simp
  obtain v at where v: "deleted_of purged_sample 1 7 = Some (v, at)"
    by (simp add: purged_sample_def deleted_of_def device_of_def sees_device_def new_device_def)
  have there: "\<not> nothing_of 7 purged_sample" by (simp add: nothing_of_def purged_sample_def new_device_def)
  have "if 50 < purge_date v then True \<or> dv_purge_started v \<noteq> None else True" by simp
  from purge_leaves_nothing [OF ok once v work this, of None sample_tx 1 "new_breaker 0"] there show ?thesis by blast
qed

section \<open>A deletion on the ledger\<close>

definition created_21 :: db where
  "created_21 = result (run_life sample_tx (CreateNumber 1 21 ''n'') bare_sample)"

definition number_21 :: db where
  "number_21 = result (run_life sample_tx (SetIdentity 1 21 ''l'' ''56'' '''') created_21)"

definition deleted_21 :: db where
  "deleted_21 = result (run_life sample_tx (DeleteNumber 1 10 21 []) number_21)"

definition enc_21 :: encoder where
  "enc_21 l = (if l = line_21 then Some ''{a}'' else None)"

definition dec_21 :: decoder where
  "dec_21 s = (if s = ''{a}'' then Some (line_21, []) else None)"

lemma good_21: "good_line enc_21 dec_21 line_21"
  by (simp add: good_line_def codec_line_def check_line_def line_21_def enc_21_def dec_21_def newline_def ledger_version_def
      drop_cr_def max_line_def upt_rec trim_space_id visible_def)

lemma fresh_sample: "db_events db = [] \<Longrightarrow> fresh_tx sample_tx db"
  by (simp add: fresh_tx_def sample_tx_def event_ids_def)

lemma world_done:
  assumes "ledger_world enc dec db f" "db_events db = []" "new_number op db" "is_done (run_life sample_tx op db)"
  shows "ledger_world enc dec (result (run_life sample_tx op db)) f"
  by (rule life [OF assms(1) fresh_sample [OF assms(2)] assms(3) done_result [OF assms(4)]])

lemma world_21: "ledger_world enc_21 dec_21 deleted_21 None"
proof -
  have 0: "ledger_world enc_21 dec_21 bare_sample None" "db_events bare_sample = []"
    by (rule start) (simp_all add: bare_sample_def sample_db_def)
  have "is_done (run_life sample_tx (CreateNumber 1 21 ''n'') bare_sample)" "db_events created_21 = []" by code_simp+
  then have 1: "ledger_world enc_21 dec_21 created_21 None" "db_events created_21 = []"
    using world_done [OF 0, of "CreateNumber 1 21 ''n''"] 0(2) by (simp_all add: created_21_def)
  have "is_done (run_life sample_tx (SetIdentity 1 21 ''l'' ''56'' '''') created_21)" "db_events number_21 = []" by code_simp+
  then have 2: "ledger_world enc_21 dec_21 number_21 None" "db_events number_21 = []"
    using world_done [OF 1, of "SetIdentity 1 21 ''l'' ''56'' ''''"] by (simp_all only: number_21_def new_number.simps)
  have "is_done (run_life sample_tx (DeleteNumber 1 10 21 []) number_21)" by code_simp
  with world_done [OF 2, of "DeleteNumber 1 10 21 []"] show ?thesis by (simp only: deleted_21_def new_number.simps)
qed

text \<open>The export of it.\<close>

lemma exported_21:
  obtains r db f where "ledger_world enc_21 dec_21 db f"
    "\<forall>e\<in>set (db_events db). ledgered_type (ev_type e) \<noteq> None \<longrightarrow> ev_ledgered e \<noteq> None"
    "\<exists>v\<in>set (db_devices db). dv_id v = 21 \<and> dv_deleted v = Some 101"
    "\<forall>e\<in>set (db_events db). tenant_of db (ev_tenant e) \<noteq> None"
proof -
  obtain r db f where x: "export_ledger enc_21 sample_append_env True 102 1 (deleted_21, None) = (r, db, f)" by (meson prod_cases3)
  have "List.map_filter line_of_event (filter (unexported 1) (db_events deleted_21)) = [line_21]" by code_simp
  then have "ledger_world enc_21 dec_21 db f" by (intro export [OF world_21 _ x]) (simp add: good_21)
  moreover have "case export_ledger enc_21 sample_append_env True 102 1 (deleted_21, None) of (r, db, f) \<Rightarrow>
      list_all (\<lambda>e. ledgered_type (ev_type e) \<noteq> None \<longrightarrow> ev_ledgered e \<noteq> None) (db_events db)
      \<and> list_ex (\<lambda>v. dv_id v = 21 \<and> dv_deleted v = Some 101) (db_devices db)
      \<and> list_all (\<lambda>e. tenant_of db (ev_tenant e) \<noteq> None) (db_events db)" by code_simp
  then have "\<forall>e\<in>set (db_events db). ledgered_type (ev_type e) \<noteq> None \<longrightarrow> ev_ledgered e \<noteq> None"
    "\<exists>v\<in>set (db_devices db). dv_id v = 21 \<and> dv_deleted v = Some 101"
    "\<forall>e\<in>set (db_events db). tenant_of db (ev_tenant e) \<noteq> None"
    unfolding x by (simp_all add: list_all_iff list_ex_iff)
  ultimately show thesis by (rule that)
qed

section \<open>The ledger\<close>

text \<open>C10: The ledger tells what happened to every number. Numbers are created, deleted, recovered and purged and
  the ledger is exported in any order, with exports that fail, tear the file at any byte or lose their commit.
  Once a number's events are exported, the file reads back and folds to the truth: no line means the number
  was never deleted; otherwise the verdict is live, excluded with the row's own date and workspace, or
  purged exactly when the row is gone.\<close>

theorem ledger_tells_every_number:
  assumes "ledger_world enc dec db file" "\<forall>e\<in>set (db_events db). ev_item e = i \<and> ledgered_type (ev_type e) \<noteq> None \<longrightarrow> ev_ledgered e \<noteq> None"
  shows "\<exists>rep. read_ledger dec (contents file) = Inr rep \<and>
    (let ls = filter (\<lambda>l. ln_device l = i) (lr_lines rep) in
     if ls = [] then \<forall>v\<in>set (db_devices db). dv_id v = i \<longrightarrow> dv_deleted v = None
     else \<exists>d. fold_device i ls = Inr d \<and> (i \<notin> dv_id ` set (db_devices db) \<longrightarrow> ld_state d = StatePurged)
       \<and> (\<forall>v\<in>set (db_devices db). dv_id v = i \<longrightarrow> ld_workspace d = dv_tenant v
           \<and> (case dv_deleted v of None \<Rightarrow> ld_state d = StateLive | Some at \<Rightarrow> ld_state d = StateExcluded \<and> ld_deleted_at d = at)))"
proof -
  obtain rep where rep: "read_ledger dec (contents file) = Inr rep"
    "set (filter (\<lambda>l. ln_device l = i) (lr_lines rep)) = lines_about i (event_lines db)"
    by (rule exported_read [OF assms])
  have "rows_told db" using world_told [OF assms(1)] by blast
  then have "dv_deleted v = None" if "filter (\<lambda>l. ln_device l = i) (lr_lines rep) = []" "v \<in> set (db_devices db)" "dv_id v = i" for v
    using that rep(2) told_nothing by (metis list.set(1) rows_told_def)
  then show ?thesis unfolding Let_def using rep(1) lines_told [OF assms(1) rep(2)] by (intro exI [of _ rep]) simp
qed

theorem ledger_tells_every_number_witness:
  "\<exists>db file rep d. ledger_world enc_21 dec_21 db file \<and> read_ledger dec_21 (contents file) = Inr rep
     \<and> fold_device 21 (filter (\<lambda>l. ln_device l = 21) (lr_lines rep)) = Inr d \<and> ld_state d = StateExcluded \<and> ld_deleted_at d = 101"
proof -
  obtain r db f where w: "ledger_world enc_21 dec_21 db f"
    "\<forall>e\<in>set (db_events db). ledgered_type (ev_type e) \<noteq> None \<longrightarrow> ev_ledgered e \<noteq> None"
    "\<exists>v\<in>set (db_devices db). dv_id v = 21 \<and> dv_deleted v = Some 101"
    "\<forall>e\<in>set (db_events db). tenant_of db (ev_tenant e) \<noteq> None" by (rule exported_21)
  obtain v where v: "v \<in> set (db_devices db)" "dv_id v = 21" "dv_deleted v = Some 101" using w(3) by blast
  have all: "\<forall>e\<in>set (db_events db). ev_item e = 21 \<and> ledgered_type (ev_type e) \<noteq> None \<longrightarrow> ev_ledgered e \<noteq> None"
    using w(2) by blast
  from ledger_tells_every_number [OF w(1) all] v show ?thesis
    using w(1) by (fastforce simp: Let_def split: if_splits)
qed

text \<open>C11: Replaying a database's own ledger over it changes nothing. With every event exported, and every event's
  workspace in the database as the schema demands, the replay refuses the ledger as one that adds nothing,
  unless it is told to take such a ledger. Told so, it succeeds. Either way it excludes, purges and recovers
  no number, refuses none, keeps none excluded against the ledger, and leaves the database as it was, whatever
  the other options.\<close>

theorem own_ledger_replays_to_nothing:
  assumes "ledger_world enc dec db file" "\<forall>e\<in>set (db_events db). ledgered_type (ev_type e) \<noteq> None \<longrightarrow> ev_ledgered e \<noteq> None"
    and "\<forall>e\<in>set (db_events db). tenant_of db (ev_tenant e) \<noteq> None"
  shows "\<exists>rep r. read_ledger dec (contents file) = Inr rep
    \<and> replay_ledger x opts (lr_lines rep) db = (if ro_adds_nothing opts then None else Some LedgerAddsNothing, r, db)
    \<and> rr_changes r = [] \<and> rr_refusals r = [] \<and> rr_kept r = [] \<and> rr_over r = []"
proof -
  obtain rep where rep: "read_ledger dec (contents file) = Inr rep" "set (lr_lines rep) = event_lines db"
    by (rule all_exported [OF assms(1,2)])
  with replay_nothing [OF own_ledger_needs_nothing [OF assms(1) rep(2)] own_ledger_adds_nothing [OF assms(1) rep(2) assms(2,3)]]
  show ?thesis by blast
qed

definition sample_options :: "bool \<Rightarrow> replay_options" where
  "sample_options b = \<lparr>ro_dry_run = False, ro_snapshot = 0, ro_adds_nothing = b, ro_leave = []\<rparr>"

theorem own_ledger_replays_to_nothing_witness:
  "\<exists>db file rep r s. ledger_world enc_21 dec_21 db file \<and> db_events db \<noteq> [] \<and> read_ledger dec_21 (contents file) = Inr rep
     \<and> replay_ledger sample_tx (sample_options False) (lr_lines rep) db
         = (Some LedgerAddsNothing, r, db)
     \<and> replay_ledger sample_tx (sample_options True) (lr_lines rep) db
         = (None, s, db)"
proof -
  obtain r db f where w: "ledger_world enc_21 dec_21 db f"
    "\<forall>e\<in>set (db_events db). ledgered_type (ev_type e) \<noteq> None \<longrightarrow> ev_ledgered e \<noteq> None"
    "\<exists>v\<in>set (db_devices db). dv_id v = 21 \<and> dv_deleted v = Some 101"
    "\<forall>e\<in>set (db_events db). tenant_of db (ev_tenant e) \<noteq> None" by (rule exported_21)
  obtain v where v: "v \<in> set (db_devices db)" "dv_id v = 21" "dv_deleted v = Some 101" using w(3) by blast
  have "rows_told db" using world_told [OF w(1)] by blast
  with v have "deleted_in (lines_about 21 (event_lines db)) \<noteq> {}" by (auto simp: rows_told_def row_told_def)
  then have some: "db_events db \<noteq> []" by (auto simp: deleted_in_def lines_about_def event_lines_def views_def)
  have adds: "ro_adds_nothing (sample_options b) = b" for b by (simp add: sample_options_def)
  have told: "\<exists>rep r. read_ledger dec_21 (contents f) = Inr rep
      \<and> replay_ledger sample_tx (sample_options b) (lr_lines rep) db = (if b then None else Some LedgerAddsNothing, r, db)" for b
    using own_ledger_replays_to_nothing [OF w(1,2,4), of sample_tx "sample_options b"] unfolding adds by blast
  obtain rep r1 where 1: "read_ledger dec_21 (contents f) = Inr rep"
    "replay_ledger sample_tx (sample_options False) (lr_lines rep) db = (Some LedgerAddsNothing, r1, db)"
    using told [of False] by auto
  obtain r2 where "replay_ledger sample_tx (sample_options True) (lr_lines rep) db = (None, r2, db)"
    using told [of True] 1(1) by auto
  with 1 some w(1) show ?thesis by blast
qed

section \<open>The plan after a replay\<close>

text \<open>A workspace whose plan is one number, restored from a backup with two numbers deleted. The ledger says the first
  was recovered since.\<close>

definition away :: "uuid \<Rightarrow> timestamp \<Rightarrow> device_row" where
  "away d at = (new_device 1 d ''n'')\<lparr>dv_lid := ''l'', dv_connected := Some 5, dv_paused := True, dv_cause := Some ''deletion'',
     dv_deleted := Some at, dv_purge := Some (at + thirty_days)\<rparr>"

definition restored_db :: db where
  "restored_db = sample_db\<lparr>db_devices := [away 7 5, away 8 6], db_capacity := [(1, Some 1)]\<rparr>"

definition recovered_since :: "line list" where
  "recovered_since = (let l = line_21\<lparr>ln_device := 7, ln_deleted_at := Some 5, ln_purge_after := Some (5 + thirty_days)\<rparr> in
     [l, l\<lparr>ln_event := 522, ln_type := TypeRecovered, ln_purge_after := None, ln_deleted_by := None\<rparr>])"

text \<open>A replay counts the workspace's deleted numbers against its plan. The replay recovers the first number and reports
  the workspace over its plan, though the one live number fills the plan exactly.\<close>

theorem replay_counts_deleted_numbers:
  "case replay_ledger sample_tx \<lparr>ro_dry_run = False, ro_snapshot = 0, ro_adds_nothing = False, ro_leave = []\<rparr> recovered_since restored_db of
     (err, r, db') \<Rightarrow> err = None \<and> map ry_action (rr_changes r) = [ReplayRecovered] \<and> rr_over r = [1]
       \<and> device_usage False db' 1 = 1 \<and> max_devices db' 1 = Some 1"
  by code_simp

end
