(* ===== verification/Spec2Isabelle.thy ===== *)
theory Spec2Isabelle
  imports Replay_Facts Calls_Props Ledger_File Ratelimit_Facts Wamedia_Facts Netguard_Facts Access_Claims Outbound_Claims Textrules_Claims Sendgate_Claims Deletion_Claims
begin

text \<open>
  A verification development for the core of wappie, a server in Go that keeps people's WhatsApp numbers
  connected, archives what they receive under keys the server cannot open, and lets people, programs
  and AI assistants reach that archive under per-number permissions.

  \<^bold>\<open>The program.\<close> Events of a connected number go through the ingest pipeline (internal/ingest) into the
  store (internal/store, PostgreSQL) and onto an in-memory bus (internal/bus). A client subscribes over
  a websocket (internal/wsapi): the archive since its cursor is replayed from the store, then the bus
  continues live. Calls (internal/calling) are bridged to browsers by a service that owns each call and
  its roster. Numbers that are deleted leave a line in an append-only file (internal/ledger) that a
  restore folds into a verdict per number. Who may read, send through and manage a number is decided
  from the workspace's members, permissions, key copies and API keys (internal/access, internal/store).
  An assistant's connection drafts and sends messages through an attested enclave (internal/mcpauth);
  every draft, send and refusal is a row of a ledger that the limits are counted in
  (internal/store/mcp_send.go), and what a text may carry is decided byte by byte
  (internal/mcpauth/textrules.go). Sign-ins and other guessable steps are rate limited
  (internal/ratelimit, internal/membership/budget.go); attachments are encrypted in WhatsApp's scheme
  (internal/crypto/wamedia); and addresses and client ids somebody else chose are judged before they
  are fetched (internal/netguard).

  \<^bold>\<open>How Go is read.\<close> A struct is a record, an enumeration a datatype, a map a partial function, an error
  a value of a sum or option; a mutex-protected method is one atomic step on the state it protects, and
  the interleavings of goroutines are sequences of such steps. Time is the number of nanoseconds, a
  string its bytes. Code outside the repository (the JSON codec, the cryptographic primitives, address
  parsing, the WhatsApp library) is an argument of the definitions that use it; what a proof needs of
  it is a named hypothesis (for instance \<open>crypto_ok\<close>). \<open>Prelude\<close> holds these conventions and the
  generic lemmas.

  \<^bold>\<open>The theories.\<close>

  \<^item> \<open>Bus\<close> is internal/bus/bus.go whole: subscriptions with their replay buffer and bounded queue,
    \<open>offer\<close>, \<open>end_replay\<close>, \<open>recv\<close>, lag reports, the registry and \<open>publish\<close>. \<open>Bus_Stream\<close> states what
    a client is owed as an abstract stream and proves delivery against it under every interleaving (the
    locale \<open>live_stream\<close>, interpreted on the bus); \<open>Bus_Registry\<close> lifts it to many subscribers.
  \<^item> \<open>Replay\<close> is the replay of handleSubscribe in internal/wsapi/subscribe.go with \<open>merge_replay\<close> and the
    paged reads of internal/store (read.go, receipts.go), the tables an argument. \<open>Replay_Facts\<close> proves
    that a page loop with enough fuel sends everything up to the watermark exactly once and in order,
    and that the seam to the live stream neither loses nor repeats (while no receipt batch is as long as a page);
    the fuel of \<open>replay_loop\<close> is the
    number of rows above the cursor, which every page lowers.
  \<^item> \<open>Calls\<close> is the state of internal/calling/service.go (starting, answering, claiming, tickets, media,
    ending) and \<open>Roster\<close> the participants of groups.go. \<open>Calls_Inv\<close> gives the step relation
    \<open>call_step\<close> (the sections of the mutex, and the end of an answer) and the invariant of every reachable
    state; \<open>Calls_Props\<close> draws the properties from it, \<open>call_history\<close> keeping the calls that were answered, and
    \<open>Roster_Facts\<close> those of the roster.
  \<^item> \<open>Ledger\<close> is the fold of internal/ledger/fold.go; \<open>Ledger_File\<close> the file of ledger.go with torn
    writes, reading and compaction.
  \<^item> \<open>Ratelimit\<close> is internal/ratelimit and the call budget of internal/membership/budget.go.
    \<open>Ratelimit_Facts\<close> states the contract of a token bucket as the locale \<open>token_buckets\<close>, proves the
    bound over any window once, and interprets it on the limiter, on the authentication limit and on
    the budget.
  \<^item> \<open>Wamedia\<close> is internal/crypto/wamedia; \<open>Wamedia_Facts\<close> proves that Decrypt accepts exactly what
    Encrypt produces and that the streaming DecryptTo refines Decrypt.
  \<^item> \<open>Netguard\<close> is internal/netguard: public addresses, the Public Suffix List's algorithm, client ids;
    \<open>Netguard_Facts\<close> proves them against declarative readings.

  \<^item> \<open>Access_Db\<close> holds the rows of the database that access is decided from, a table as the list of its
    rows, with the reads and writes the statements make, triggers and foreign keys written out;
    row-level security and the quarantine of deleted numbers are the tenant and the flag a read takes.
    An operation is one transaction: an error, or the new database. \<open>Access_Policy\<close> is internal/access
    with the decisions of internal/store (permissions, keys, reader safety, API keys); \<open>Access_Members\<close>
    the changes a manager makes, with everything they end. Argon2, random bytes and the label rule are
    arguments; waiting for a row lock (\<open>ErrWorkspaceBusy\<close>) and the collation of an ORDER BY are not
    modelled. \<open>Access_Frame\<close>, \<open>Access_Facts\<close> and \<open>Access_Props\<close> prove what each operation keeps (the
    locale of a key's shape, a standing reader per live number, access versions); \<open>Access_Claims\<close> states
    the properties.
  \<^item> \<open>Outbound\<close> is the ledger of internal/store/mcp_send.go, clocks and identifiers as arguments.
    \<open>Outbound_Facts\<close> proves that its rows only move forward, \<open>Outbound_Props\<close> counts sends over sliding
    windows in the locale \<open>window_log\<close>, and \<open>Outbound_Claims\<close> draws the limits, the outcomes and the
    janitor's guarantees.
  \<^item> \<open>Textrules\<close> is internal/mcpauth/textrules.go and the enclave's own reading of the same table, from
    bytes; \<open>Textrules_Facts\<close> and \<open>Textrules_Claims\<close> prove the JSON string reader exact, every way of writing a
    text read back, and the two implementations equal outside one letter.
  \<^item> \<open>Sendgate\<close> is every route of internal/mcpauth/send.go with a person's confirmation in
    internal/wsapi/mcpsend.go. A route that hands a text to WhatsApp is two steps, before and after;
    \<open>gate_step\<close> interleaves them with everything else, within the year that the ledger keeps references.
    \<open>Sendgate_Facts\<close> and \<open>Sendgate_Claims\<close> prove that nothing leaves twice or unchecked.
  \<^item> \<open>Numbers\<close> is a number's row in internal/store/devices.go, with the pauses and notices of device_notices.go:
    every UPDATE goes through \<open>write_device\<close>, which holds the table's trigger, its checks, the unique
    identities of live numbers and the quarantine. \<open>Deletion\<close> and \<open>Recovery\<close> are device_deletion.go: the
    preflight, the exclusion, the record of the WhatsApp logout, the sessions left over, what an owner is shown,
    and the recovery; the number's device lock is an argument, and the library's session store is in the same
    database. \<open>Purge\<close> is purge.go with the deletion of the objects a purge releases: its transactions one by
    one, and \<open>purge_device\<close> composing them; the context's budget is the number of times it is found alive, and the
    loop stops because each round takes one. \<open>Restore\<close> is the export of the events to the ledger
    (internal/store/ledger.go) and the replay of a ledger over a restored database (replay.go).
    \<open>Lifecycle\<close> makes every operation of a number's life one step of \<open>life_run\<close>, and \<open>Row_Ops\<close> adds the outright
    deletion of a row and the replay (\<open>rows_run\<close>); \<open>Deletion_Facts\<close> reads off what an operation that succeeded
    did, \<open>Life_Inv\<close> proves what every step keeps, \<open>Deletion_Props\<close> follows a deletion and what runs until the
    recovery, \<open>Purge_Props\<close> a purge to its end, and \<open>Deletion_Claims\<close> states the properties.
    \<open>Ledger_World\<close> puts the database and the ledger file in one step relation, with exports that fail at any
    byte: each row agrees with its events, and the file holds every event marked exported. The replay of a foreign
    ledger is outside that relation. A number's move to another workspace (device_transfer.go) and the reset of a
    workspace (reset.go) are not modelled anywhere.

  \<^bold>\<open>What showed.\<close> Four places where the code does not do what it means to are stated as theorems
  (\<open>long_batch_hides_receipts\<close>, \<open>phase_connects_failed_invites\<close>, \<open>sweep_forgets_debt\<close>,
  \<open>replay_counts_deleted_numbers\<close>), and two where a
  comment says what the code does not do (\<open>read_ignores_rest_of_line\<close>, \<open>long_s_parts_them\<close>).

  \<^bold>\<open>Not modelled.\<close> The HTTP and websocket handlers beyond those named above, the SQL of the archive beyond the
  rows the modelled operations read, OAuth and the enclave's attestation, the exchange with the hosting
  platform, the media bridge's codecs, mail, configuration, migrations, the web console, the
  command-line programs, deployment, and sealing under the archive keys (internal/crypto/seal, which is
  cryptography from the library throughout). They are input and output, SQL or glue around the parts
  above; floating point is read as rational numbers.
\<close>

end
